(* ===== verification/C_Prelude.thy ===== *)
theory C_Prelude
  imports Main "HOL-Library.Word" "HOL-Library.Monad_Syntax"
begin

text \<open>
  Shared vocabulary of the development: C strings, single characters, bounds-checked
  buffers, the outcome of memory allocation, and the few library functions of C the
  sources call (\<open>strchr\<close>, \<open>strstr\<close>, \<open>strlen\<close>, \<open>isdigit\<close>, \<open>tolower\<close>, \<open>strtoul\<close>).

  A C string is a \<^typ>\<open>string\<close> without its terminating NUL; a \<open>char *\<close> that may be NULL is a
  \<^typ>\<open>string option\<close>.  Where the code works on the bytes of a buffer (and can run over its
  end) the buffer is a list of characters and every access goes through \<open>rd\<close> and \<open>wr\<close>, which
  give None out of range.  In every definition of the development whose type is an option
  of a state or a buffer, the outermost None means undefined behaviour: an access out of
  bounds, of a NULL pointer or of freed memory.
\<close>

named_theorems cstr_simps \<open>facts on C strings for the simplifier\<close>
named_theorems option_elims \<open>inversions of computations in the option monad\<close>

unbundle bit_operations_syntax

section \<open>Characters\<close>

abbreviation NUL :: char where "NUL \<equiv> CHR 0x00"

type_synonym cstr = string

text \<open>\<open>byte\<close> reads a character as \<open>unsigned char\<close>, \<open>schar\<close> as the (signed) plain \<open>char\<close>.\<close>

definition byte :: "char \<Rightarrow> nat" where
  "byte c = of_char c"

definition schar :: "char \<Rightarrow> int" where
  "schar c = (if byte c < 128 then int (byte c) else int (byte c) - 256)"

definition chr :: "nat \<Rightarrow> char" where
  "chr n = char_of n"

lemma byte_less [simp]: "byte c < 256"
  by (simp add: byte_def)

lemma byte_NUL [simp]: "byte NUL = 0"
  by (simp add: byte_def)

lemma byte_inject [simp]: "byte c = byte d \<longleftrightarrow> c = d"
  by (simp add: byte_def)

lemma byte_eq_0_iff [simp]: "byte c = 0 \<longleftrightarrow> c = NUL"
  using byte_inject [of c NUL] by simp

lemma chr_byte [simp]: "chr (byte c) = c"
  by (simp add: chr_def byte_def)

lemma byte_chr [simp]: "n < 256 \<Longrightarrow> byte (chr n) = n"
  by (simp add: chr_def byte_def)

definition isdigit :: "char \<Rightarrow> bool" where
  "isdigit c \<longleftrightarrow> 48 \<le> byte c \<and> byte c \<le> 57"

definition c_tolower :: "char \<Rightarrow> char" where
  "c_tolower c = (if 65 \<le> byte c \<and> byte c \<le> 90 then chr (byte c + 32) else c)"

section \<open>C strings\<close>

definition cstr_ok :: "string \<Rightarrow> bool" where
  "cstr_ok s \<longleftrightarrow> NUL \<notin> set s"

text \<open>The character a pointer into a string reads; the end of the string reads its NUL.\<close>

definition hdz :: "string \<Rightarrow> char" where
  "hdz s = (case s of [] \<Rightarrow> NUL | c # _ \<Rightarrow> c)"

definition atz :: "string \<Rightarrow> nat \<Rightarrow> char" where
  "atz s i = (if i < length s then s ! i else NUL)"

lemma hdz_simps [simp]: "hdz [] = NUL" "hdz (c # s) = c"
  by (simp_all add: hdz_def)

text \<open>\<open>strchr\<close> gives the offset of the first occurrence; searching for NUL finds the end.\<close>

fun strchr :: "string \<Rightarrow> char \<Rightarrow> nat option" where
  "strchr [] c = (if c = NUL then Some 0 else None)"
| "strchr (x # xs) c = (if x = c then Some 0 else map_option Suc (strchr xs c))"

fun strstr :: "string \<Rightarrow> string \<Rightarrow> nat option" where
  "strstr [] t = (if t = [] then Some 0 else None)"
| "strstr (x # xs) t =
     (if take (length t) (x # xs) = t then Some 0 else map_option Suc (strstr xs t))"

text \<open>The value of the digits a string starts with.\<close>

fun digits_val :: "string \<Rightarrow> nat \<Rightarrow> nat" where
  "digits_val [] acc = acc"
| "digits_val (c # s) acc = (if isdigit c then digits_val s (10 * acc + (byte c - 48)) else acc)"

text \<open>
  What a bounded copy into an array of \<open>n\<close> characters holds afterwards, as a string:
  the abstract view of \<open>STRACPY\<close> and of \<open>snprintf\<close> (theory \<open>BaseString\<close> relates the loops
  of \<open>platform/base_string.c\<close> to it).
\<close>

definition ncpy :: "nat \<Rightarrow> string \<Rightarrow> string" where
  "ncpy n s = take (n - 1) s"

definition ncat :: "nat \<Rightarrow> string \<Rightarrow> string \<Rightarrow> string" where
  "ncat n d s = (if n \<le> length d + 1 then d else d @ take (n - (length d + 1)) s)"

lemma strchr_None_iff [cstr_simps]:
  "strchr s c = None \<longleftrightarrow> c \<noteq> NUL \<and> c \<notin> set s"
  by (induction s) auto

lemma strchr_Some_nth:
  "strchr s c = Some i \<Longrightarrow> i \<le> length s \<and> atz s i = c \<and> c \<notin> set (take i s)"
  by (induction s arbitrary: i) (auto simp: atz_def split: if_splits)

lemma strchr_Some_le: "strchr s c = Some i \<Longrightarrow> i \<le> length s"
  using strchr_Some_nth by blast

lemma strchr_Some_less: "strchr s c = Some i \<Longrightarrow> c \<noteq> NUL \<Longrightarrow> i < length s \<and> s ! i = c"
  using strchr_Some_nth [of s c i] by (auto simp: atz_def split: if_splits)

lemma strchr_Some_take: "strchr s c = Some i \<Longrightarrow> take i s = takeWhile (\<lambda>x. x \<noteq> c) s"
  by (induction s arbitrary: i) (auto split: if_splits)

lemma strchr_in_set: "c \<in> set s \<Longrightarrow> \<exists>i. strchr s c = Some i"
  using strchr_None_iff [of s c] by (cases "strchr s c") auto

lemma cstr_ok_simps [simp]:
  "cstr_ok []" "cstr_ok (c # s) \<longleftrightarrow> c \<noteq> NUL \<and> cstr_ok s"
  "cstr_ok (s @ t) \<longleftrightarrow> cstr_ok s \<and> cstr_ok t"
  by (auto simp: cstr_ok_def)

lemma cstr_ok_take [simp, intro]: "cstr_ok s \<Longrightarrow> cstr_ok (take n s)"
  by (auto simp: cstr_ok_def dest: in_set_takeD)

lemma cstr_ok_drop [simp, intro]: "cstr_ok s \<Longrightarrow> cstr_ok (drop n s)"
  by (auto simp: cstr_ok_def dest: in_set_dropD)

lemma length_ncpy [simp]: "length (ncpy n s) = min (n - 1) (length s)"
  by (simp add: ncpy_def)

lemma ncpy_short [simp]: "length s < n \<Longrightarrow> ncpy n s = s"
  by (simp add: ncpy_def)

lemma cstr_ok_ncpy [simp, intro]: "cstr_ok s \<Longrightarrow> cstr_ok (ncpy n s)"
  by (simp add: ncpy_def)

lemma length_ncat: "length d < n \<Longrightarrow> length (ncat n d s) < n"
  by (auto simp: ncat_def)

section \<open>Buffers\<close>

definition rd :: "'a list \<Rightarrow> nat \<Rightarrow> 'a option" where
  "rd b i = (if i < length b then Some (b ! i) else None)"

definition wr :: "'a list \<Rightarrow> nat \<Rightarrow> 'a \<Rightarrow> 'a list option" where
  "wr b i c = (if i < length b then Some (b[i := c]) else None)"

lemma rd_in [simp]: "i < length b \<Longrightarrow> rd b i = Some (b ! i)"
  by (simp add: rd_def)

lemma wr_in [simp]: "i < length b \<Longrightarrow> wr b i c = Some (b[i := c])"
  by (simp add: wr_def)

lemma rd_out [simp]: "length b \<le> i \<Longrightarrow> rd b i = None"
  by (simp add: rd_def)

lemma wr_out [simp]: "length b \<le> i \<Longrightarrow> wr b i c = None"
  by (simp add: wr_def)

text \<open>\<open>strlen\<close> of the string that starts at offset \<open>i\<close>; None if no NUL follows in the buffer.\<close>

definition c_strlen :: "char list \<Rightarrow> nat \<Rightarrow> nat option" where
  "c_strlen b i =
     (if NUL \<in> set (drop i b) then Some (length (takeWhile (\<lambda>c. c \<noteq> NUL) (drop i b))) else None)"

text \<open>The C string that starts at offset \<open>i\<close> of a buffer.\<close>

definition cstr_at :: "char list \<Rightarrow> nat \<Rightarrow> string" where
  "cstr_at b i = takeWhile (\<lambda>c. c \<noteq> NUL) (drop i b)"

lemma takeWhile_cstr [simp]:
  "cstr_ok s \<Longrightarrow> takeWhile (\<lambda>c. c \<noteq> NUL) (s @ NUL # r) = s"
  by (induction s) auto

lemma cstr_at_0 [simp]: "cstr_ok s \<Longrightarrow> cstr_at (s @ NUL # r) 0 = s"
  by (simp add: cstr_at_def)

lemma cstr_ok_cstr_at [simp]: "cstr_ok (cstr_at b i)"
  by (auto simp: cstr_at_def cstr_ok_def dest: set_takeWhileD)

section \<open>Memory allocation\<close>

text \<open>
  \<open>lsi_b_malloc\<close> (and so \<open>STRDUP\<close>) may return NULL.  The model draws the outcome of each call
  from a list of outcomes; when the list is used up, allocation succeeds.
\<close>

type_synonym mallocs = "bool list"

definition malloc :: "mallocs \<Rightarrow> bool \<times> mallocs" where
  "malloc orc = (case orc of [] \<Rightarrow> (True, []) | ok # rest \<Rightarrow> (ok, rest))"

lemma malloc_Nil [simp]: "malloc [] = (True, [])"
  by (simp add: malloc_def)

lemma malloc_Cons [simp]: "malloc (ok # rest) = (ok, rest)"
  by (simp add: malloc_def)

section \<open>The option monad\<close>

lemma bind_SomeE [elim!, option_elims]:
  assumes "Option.bind m f = Some y"
  obtains x where "m = Some x" "f x = Some y"
  using assms by (cases m) auto

lemma if_None_SomeE [option_elims]:
  assumes "(if b then None else m) = Some y"
  obtains "\<not> b" "m = Some y"
  using assms by (cases b) auto

end
