(* ===== verification/Cmap.thy ===== *)
theory Cmap
  imports C_Prelude
begin

text \<open>
  The character maps of \<open>libsrsirc/cmap.c\<close>: three tables of 256 bytes that fold a character
  to its canonical (upper) case, with \<open>!\<close> and \<open>@\<close> mapped to 0 so that an identity
  \<open>nick!user@host\<close> compares like its nick.  \<open>cmkey\<close> is the canonical form of a key under a
  table: the mapped bytes up to the first 0.
\<close>

section \<open>The tables\<close>

definition s_lower_ascii :: "nat list" where
  "s_lower_ascii = [
     0x00, 0x01, 0x02, 0x03, 0x04, 0x05, 0x06, 0x07,
     0x08, 0x09, 0x0a, 0x0b, 0x0c, 0x0d, 0x0e, 0x0f,
     0x10, 0x11, 0x12, 0x13, 0x14, 0x15, 0x16, 0x17,
     0x18, 0x19, 0x1a, 0x1b, 0x1c, 0x1d, 0x1e, 0x1f,
     0x20, 0x00, 0x22, 0x23, 0x24, 0x25, 0x26, 0x27,
     0x28, 0x29, 0x2a, 0x2b, 0x2c, 0x2d, 0x2e, 0x2f,
     0x30, 0x31, 0x32, 0x33, 0x34, 0x35, 0x36, 0x37,
     0x38, 0x39, 0x3a, 0x3b, 0x3c, 0x3d, 0x3e, 0x3f,
     0x00, 0x41, 0x42, 0x43, 0x44, 0x45, 0x46, 0x47,
     0x48, 0x49, 0x4a, 0x4b, 0x4c, 0x4d, 0x4e, 0x4f,
     0x50, 0x51, 0x52, 0x53, 0x54, 0x55, 0x56, 0x57,
     0x58, 0x59, 0x5a, 0x5b, 0x5c, 0x5d, 0x5e, 0x5f,
     0x60, 0x41, 0x42, 0x43, 0x44, 0x45, 0x46, 0x47,
     0x48, 0x49, 0x4a, 0x4b, 0x4c, 0x4d, 0x4e, 0x4f,
     0x50, 0x51, 0x52, 0x53, 0x54, 0x55, 0x56, 0x57,
     0x58, 0x59, 0x5a, 0x7b, 0x7c, 0x7d, 0x7e, 0x7f,
     0x80, 0x81, 0x82, 0x83, 0x84, 0x85, 0x86, 0x87,
     0x88, 0x89, 0x8a, 0x8b, 0x8c, 0x8d, 0x8e, 0x8f,
     0x90, 0x91, 0x92, 0x93, 0x94, 0x95, 0x96, 0x97,
     0x98, 0x99, 0x9a, 0x9b, 0x9c, 0x9d, 0x9e, 0x9f,
     0xa0, 0xa1, 0xa2, 0xa3, 0xa4, 0xa5, 0xa6, 0xa7,
     0xa8, 0xa9, 0xaa, 0xab, 0xac, 0xad, 0xae, 0xaf,
     0xb0, 0xb1, 0xb2, 0xb3, 0xb4, 0xb5, 0xb6, 0xb7,
     0xb8, 0xb9, 0xba, 0xbb, 0xbc, 0xbd, 0xbe, 0xbf,
     0xc0, 0xc1, 0xc2, 0xc3, 0xc4, 0xc5, 0xc6, 0xc7,
     0xc8, 0xc9, 0xca, 0xcb, 0xcc, 0xcd, 0xce, 0xcf,
     0xd0, 0xd1, 0xd2, 0xd3, 0xd4, 0xd5, 0xd6, 0xd7,
     0xd8, 0xd9, 0xda, 0xdb, 0xdc, 0xdd, 0xde, 0xdf,
     0xe0, 0xe1, 0xe2, 0xe3, 0xe4, 0xe5, 0xe6, 0xe7,
     0xe8, 0xe9, 0xea, 0xeb, 0xec, 0xed, 0xee, 0xef,
     0xf0, 0xf1, 0xf2, 0xf3, 0xf4, 0xf5, 0xf6, 0xf7,
     0xf8, 0xf9, 0xfa, 0xfb, 0xfc, 0xfd, 0xfe, 0xff]"

definition s_lower_rfc1459 :: "nat list" where
  "s_lower_rfc1459 = [
     0x00, 0x01, 0x02, 0x03, 0x04, 0x05, 0x06, 0x07,
     0x08, 0x09, 0x0a, 0x0b, 0x0c, 0x0d, 0x0e, 0x0f,
     0x10, 0x11, 0x12, 0x13, 0x14, 0x15, 0x16, 0x17,
     0x18, 0x19, 0x1a, 0x1b, 0x1c, 0x1d, 0x1e, 0x1f,
     0x20, 0x00, 0x22, 0x23, 0x24, 0x25, 0x26, 0x27,
     0x28, 0x29, 0x2a, 0x2b, 0x2c, 0x2d, 0x2e, 0x2f,
     0x30, 0x31, 0x32, 0x33, 0x34, 0x35, 0x36, 0x37,
     0x38, 0x39, 0x3a, 0x3b, 0x3c, 0x3d, 0x3e, 0x3f,
     0x00, 0x41, 0x42, 0x43, 0x44, 0x45, 0x46, 0x47,
     0x48, 0x49, 0x4a, 0x4b, 0x4c, 0x4d, 0x4e, 0x4f,
     0x50, 0x51, 0x52, 0x53, 0x54, 0x55, 0x56, 0x57,
     0x58, 0x59, 0x5a, 0x5b, 0x5c, 0x5d, 0x5e, 0x5f,
     0x60, 0x41, 0x42, 0x43, 0x44, 0x45, 0x46, 0x47,
     0x48, 0x49, 0x4a, 0x4b, 0x4c, 0x4d, 0x4e, 0x4f,
     0x50, 0x51, 0x52, 0x53, 0x54, 0x55, 0x56, 0x57,
     0x58, 0x59, 0x5a, 0x5b, 0x5c, 0x5d, 0x7e, 0x7f,
     0x80, 0x81, 0x82, 0x83, 0x84, 0x85, 0x86, 0x87,
     0x88, 0x89, 0x8a, 0x8b, 0x8c, 0x8d, 0x8e, 0x8f,
     0x90, 0x91, 0x92, 0x93, 0x94, 0x95, 0x96, 0x97,
     0x98, 0x99, 0x9a, 0x9b, 0x9c, 0x9d, 0x9e, 0x9f,
     0xa0, 0xa1, 0xa2, 0xa3, 0xa4, 0xa5, 0xa6, 0xa7,
     0xa8, 0xa9, 0xaa, 0xab, 0xac, 0xad, 0xae, 0xaf,
     0xb0, 0xb1, 0xb2, 0xb3, 0xb4, 0xb5, 0xb6, 0xb7,
     0xb8, 0xb9, 0xba, 0xbb, 0xbc, 0xbd, 0xbe, 0xbf,
     0xc0, 0xc1, 0xc2, 0xc3, 0xc4, 0xc5, 0xc6, 0xc7,
     0xc8, 0xc9, 0xca, 0xcb, 0xcc, 0xcd, 0xce, 0xcf,
     0xd0, 0xd1, 0xd2, 0xd3, 0xd4, 0xd5, 0xd6, 0xd7,
     0xd8, 0xd9, 0xda, 0xdb, 0xdc, 0xdd, 0xde, 0xdf,
     0xe0, 0xe1, 0xe2, 0xe3, 0xe4, 0xe5, 0xe6, 0xe7,
     0xe8, 0xe9, 0xea, 0xeb, 0xec, 0xed, 0xee, 0xef,
     0xf0, 0xf1, 0xf2, 0xf3, 0xf4, 0xf5, 0xf6, 0xf7,
     0xf8, 0xf9, 0xfa, 0xfb, 0xfc, 0xfd, 0xfe, 0xff]"

definition s_lower_strict_rfc1459 :: "nat list" where
  "s_lower_strict_rfc1459 = [
     0x00, 0x01, 0x02, 0x03, 0x04, 0x05, 0x06, 0x07,
     0x08, 0x09, 0x0a, 0x0b, 0x0c, 0x0d, 0x0e, 0x0f,
     0x10, 0x11, 0x12, 0x13, 0x14, 0x15, 0x16, 0x17,
     0x18, 0x19, 0x1a, 0x1b, 0x1c, 0x1d, 0x1e, 0x1f,
     0x20, 0x00, 0x22, 0x23, 0x24, 0x25, 0x26, 0x27,
     0x28, 0x29, 0x2a, 0x2b, 0x2c, 0x2d, 0x2e, 0x2f,
     0x30, 0x31, 0x32, 0x33, 0x34, 0x35, 0x36, 0x37,
     0x38, 0x39, 0x3a, 0x3b, 0x3c, 0x3d, 0x3e, 0x3f,
     0x00, 0x41, 0x42, 0x43, 0x44, 0x45, 0x46, 0x47,
     0x48, 0x49, 0x4a, 0x4b, 0x4c, 0x4d, 0x4e, 0x4f,
     0x50, 0x51, 0x52, 0x53, 0x54, 0x55, 0x56, 0x57,
     0x58, 0x59, 0x5a, 0x5b, 0x5c, 0x5d, 0x5e, 0x5f,
     0x60, 0x41, 0x42, 0x43, 0x44, 0x45, 0x46, 0x47,
     0x48, 0x49, 0x4a, 0x4b, 0x4c, 0x4d, 0x4e, 0x4f,
     0x50, 0x51, 0x52, 0x53, 0x54, 0x55, 0x56, 0x57,
     0x58, 0x59, 0x5a, 0x5b, 0x5c, 0x5d, 0x5e, 0x7f,
     0x80, 0x81, 0x82, 0x83, 0x84, 0x85, 0x86, 0x87,
     0x88, 0x89, 0x8a, 0x8b, 0x8c, 0x8d, 0x8e, 0x8f,
     0x90, 0x91, 0x92, 0x93, 0x94, 0x95, 0x96, 0x97,
     0x98, 0x99, 0x9a, 0x9b, 0x9c, 0x9d, 0x9e, 0x9f,
     0xa0, 0xa1, 0xa2, 0xa3, 0xa4, 0xa5, 0xa6, 0xa7,
     0xa8, 0xa9, 0xaa, 0xab, 0xac, 0xad, 0xae, 0xaf,
     0xb0, 0xb1, 0xb2, 0xb3, 0xb4, 0xb5, 0xb6, 0xb7,
     0xb8, 0xb9, 0xba, 0xbb, 0xbc, 0xbd, 0xbe, 0xbf,
     0xc0, 0xc1, 0xc2, 0xc3, 0xc4, 0xc5, 0xc6, 0xc7,
     0xc8, 0xc9, 0xca, 0xcb, 0xcc, 0xcd, 0xce, 0xcf,
     0xd0, 0xd1, 0xd2, 0xd3, 0xd4, 0xd5, 0xd6, 0xd7,
     0xd8, 0xd9, 0xda, 0xdb, 0xdc, 0xdd, 0xde, 0xdf,
     0xe0, 0xe1, 0xe2, 0xe3, 0xe4, 0xe5, 0xe6, 0xe7,
     0xe8, 0xe9, 0xea, 0xeb, 0xec, 0xed, 0xee, 0xef,
     0xf0, 0xf1, 0xf2, 0xf3, 0xf4, 0xf5, 0xf6, 0xf7,
     0xf8, 0xf9, 0xfa, 0xfb, 0xfc, 0xfd, 0xfe, 0xff]"

definition g_cmap :: "nat \<Rightarrow> nat list" where
  "g_cmap i = [s_lower_rfc1459, s_lower_strict_rfc1459, s_lower_ascii] ! i"

text \<open>The indices of \<open>g_cmap\<close>, from \<open>include/libsrsirc/defs.h\<close>.\<close>

definition CMAP_RFC1459 :: nat where "CMAP_RFC1459 = 0"
definition CMAP_STRICT_RFC1459 :: nat where "CMAP_STRICT_RFC1459 = 1"
definition CMAP_ASCII :: nat where "CMAP_ASCII = 2"

lemmas cmap_ids = CMAP_RFC1459_def CMAP_STRICT_RFC1459_def CMAP_ASCII_def

section \<open>Closed forms\<close>

text \<open>\<open>fold_byte hi\<close> folds the bytes from \<open>a\<close> up to \<open>hi\<close> down by 32 and drops \<open>!\<close> and \<open>@\<close>.\<close>

definition fold_byte :: "nat \<Rightarrow> nat \<Rightarrow> nat" where
  "fold_byte hi b =
     (if b = 0x21 \<or> b = 0x40 then 0 else if 0x61 \<le> b \<and> b \<le> hi then b - 32 else b)"

lemma s_lower_ascii_fold: "s_lower_ascii = map (fold_byte 0x7a) [0..<256]"
  by code_simp

lemma s_lower_rfc1459_fold: "s_lower_rfc1459 = map (fold_byte 0x7d) [0..<256]"
  by code_simp

lemma s_lower_strict_rfc1459_fold: "s_lower_strict_rfc1459 = map (fold_byte 0x7e) [0..<256]"
  by code_simp

definition cmap_hi :: "nat \<Rightarrow> nat" where
  "cmap_hi cm = (if cm = CMAP_RFC1459 then 0x7d else if cm = CMAP_STRICT_RFC1459 then 0x7e else 0x7a)"

lemma g_cmap_fold: "cm < 3 \<Longrightarrow> g_cmap cm = map (fold_byte (cmap_hi cm)) [0..<256]"
  by (cases "cm = 0"; cases "cm = 1")
    (auto simp: g_cmap_def cmap_hi_def cmap_ids s_lower_ascii_fold s_lower_rfc1459_fold
      s_lower_strict_rfc1459_fold numeral_2_eq_2 less_Suc_eq)

lemma g_cmap_nth: "cm < 3 \<Longrightarrow> g_cmap cm ! byte c = fold_byte (cmap_hi cm) (byte c)"
  by (simp add: g_cmap_fold)

section \<open>Canonical keys\<close>

text \<open>What the clients of the tables rely on: 256 bytes, the terminator maps to 0.\<close>

definition cmap_ok :: "nat list \<Rightarrow> bool" where
  "cmap_ok cm \<longleftrightarrow> length cm = 256 \<and> cm ! 0 = 0 \<and> (\<forall>i<256. cm ! i < 256)"

lemma g_cmap_ok [simp]: "cm < 3 \<Longrightarrow> cmap_ok (g_cmap cm)"
  by (auto simp: cmap_ok_def g_cmap_fold fold_byte_def)

definition cmkey :: "nat list \<Rightarrow> string \<Rightarrow> nat list" where
  "cmkey cm s = takeWhile (\<lambda>b. b \<noteq> 0) (map (\<lambda>c. cm ! byte c) s)"

lemma cmkey_Nil [simp]: "cmkey cm [] = []"
  by (simp add: cmkey_def)

lemma cmkey_Cons: "cmkey cm (c # s) = (if cm ! byte c = 0 then [] else cm ! byte c # cmkey cm s)"
  by (simp add: cmkey_def)

lemma length_cmkey_le: "length (cmkey cm s) \<le> length s"
  by (metis cmkey_def length_map length_takeWhile_le)

lemma cmkey_take: "length (cmkey cm s) \<le> n \<Longrightarrow> cmkey cm (take n s) = cmkey cm s"
proof (induction s arbitrary: n)
  case (Cons c s)
  then show ?case by (cases n) (auto simp: cmkey_Cons split: if_splits)
qed simp

end
