(* ===== verification/Bucklist.thy ===== *)
theory Bucklist
  imports Cmap
begin

text \<open>
  The singly linked list of \<open>libsrsirc/bucklist.c\<close>, the bucket of the hash map.  A node carries
  an identity (its address) besides its key and value, so that the two iterator pointers of
  the list can dangle: following an iterator whose node has been freed is undefined (None).
  The value of a node is a \<open>void *\<close>, None for NULL.  A key is owned by its node and never
  changed.
\<close>

section \<open>State\<close>

record 'v pl_node =
  pn_id :: nat
  pn_key :: string
  pn_val :: "'v option"

record 'v bucklist =
  bl_nodes :: "'v pl_node list"   \<comment> \<open>the nodes in order, from \<open>head\<close> on\<close>
  bl_iter :: "nat option"
  bl_previter :: "nat option"
  bl_cmap :: "nat list"
  bl_fresh :: nat                 \<comment> \<open>model only: the next unused node address\<close>

section \<open>Comparing keys\<close>

text \<open>
  \<open>pfxeq\<close> joins its two conditions with a bitwise \<open>&\<close>.  At the end of a string it reads the
  NUL, which every table maps to 0.
\<close>

function pfxeq :: "string \<Rightarrow> string \<Rightarrow> nat list \<Rightarrow> bool" where
  "pfxeq n1 n2 cmap =
     (let c1 = (case n1 of [] \<Rightarrow> 0 | c # _ \<Rightarrow> cmap ! byte c);
          c2 = (case n2 of [] \<Rightarrow> 0 | c # _ \<Rightarrow> cmap ! byte c)
      in if (c1 AND c2) \<noteq> 0
         then (if c1 \<noteq> c2 then False else pfxeq (tl n1) (tl n2) cmap)
         else c1 = c2)"
  by pat_completeness auto
termination
  by (relation "measure (\<lambda>(n1, n2, cm). length n1)") (auto split: list.splits)

declare pfxeq.simps [simp del]

section \<open>Operations\<close>

definition lsi_bucklist_init :: "mallocs \<Rightarrow> nat list \<Rightarrow> 'v bucklist option \<times> mallocs" where
  "lsi_bucklist_init orc cmap =
     (let (ok, orc') = malloc orc in
      (if ok
       then Some \<lparr>bl_nodes = [], bl_iter = None, bl_previter = None, bl_cmap = cmap, bl_fresh = 0\<rparr>
       else None, orc'))"

fun count_loop :: "'v pl_node list \<Rightarrow> nat \<Rightarrow> nat" where
  "count_loop [] c = c"
| "count_loop (n # rest) c = count_loop rest (c + 1)"

definition lsi_bucklist_count :: "'v bucklist option \<Rightarrow> nat" where
  "lsi_bucklist_count l =
     (case l of None \<Rightarrow> 0
      | Some b \<Rightarrow> (case bl_nodes b of [] \<Rightarrow> 0 | n # rest \<Rightarrow> count_loop rest 1))"

definition lsi_bucklist_isempty :: "'v bucklist \<Rightarrow> bool" where
  "lsi_bucklist_isempty l \<longleftrightarrow> bl_nodes l = []"

definition lsi_bucklist_clear :: "'v bucklist \<Rightarrow> 'v bucklist" where
  "lsi_bucklist_clear l = l\<lparr>bl_nodes := []\<rparr>"

text \<open>The walk of \<open>lsi_bucklist_insert\<close>: stop at the last node or when \<open>i\<close> is used up.\<close>

fun insert_walk :: "'v pl_node list \<Rightarrow> nat \<Rightarrow> 'v pl_node \<Rightarrow> 'v pl_node list" where
  "insert_walk [] i new = [new]"
| "insert_walk [n] i new = (if i \<noteq> 0 then [n, new] else [new, n])"
| "insert_walk (n # n' # rest) i new =
     (if i \<noteq> 0 then n # insert_walk (n' # rest) (i - 1) new else new # n # n' # rest)"

definition lsi_bucklist_insert ::
  "mallocs \<Rightarrow> 'v bucklist \<Rightarrow> nat \<Rightarrow> string \<Rightarrow> 'v option \<Rightarrow> bool \<times> 'v bucklist \<times> mallocs" where
  "lsi_bucklist_insert orc l i key val =
     (let (ok, orc') = malloc orc;
          new = \<lparr>pn_id = bl_fresh l, pn_key = key, pn_val = val\<rparr>
      in if \<not> ok then (False, l, orc')
         else (True, l\<lparr>bl_nodes := insert_walk (bl_nodes l) i new, bl_fresh := Suc (bl_fresh l)\<rparr>, orc'))"

fun replace_walk :: "'v pl_node list \<Rightarrow> string \<Rightarrow> nat list \<Rightarrow> 'v option \<Rightarrow> 'v pl_node list option" where
  "replace_walk [] key cm val = None"
| "replace_walk (n # rest) key cm val =
     (if pfxeq (pn_key n) key cm then Some (n\<lparr>pn_val := val\<rparr> # rest)
      else map_option (\<lambda>r. n # r) (replace_walk rest key cm val))"

definition lsi_bucklist_replace ::
  "'v bucklist \<Rightarrow> string \<Rightarrow> 'v option \<Rightarrow> bool \<times> 'v bucklist" where
  "lsi_bucklist_replace l key val =
     (if val = None then (False, l)
      else case replace_walk (bl_nodes l) key (bl_cmap l) val of
        None \<Rightarrow> (False, l)
      | Some ns \<Rightarrow> (True, l\<lparr>bl_nodes := ns\<rparr>))"

fun remove_walk ::
  "'v pl_node list \<Rightarrow> string \<Rightarrow> nat list \<Rightarrow> ('v pl_node \<times> 'v pl_node list) option" where
  "remove_walk [] key cm = None"
| "remove_walk (n # rest) key cm =
     (if pfxeq (pn_key n) key cm then Some (n, rest)
      else map_option (\<lambda>(m, r). (m, n # r)) (remove_walk rest key cm))"

text \<open>The value, the original key (through \<open>origkey\<close>) and the list; the value is NULL if not found.\<close>

definition lsi_bucklist_remove ::
  "'v bucklist \<Rightarrow> string \<Rightarrow> 'v option \<times> string option \<times> 'v bucklist" where
  "lsi_bucklist_remove l key =
     (case remove_walk (bl_nodes l) key (bl_cmap l) of
        None \<Rightarrow> (None, None, l)
      | Some (n, ns) \<Rightarrow> (pn_val n, Some (pn_key n), l\<lparr>bl_nodes := ns\<rparr>))"

fun get_walk :: "'v pl_node list \<Rightarrow> nat \<Rightarrow> (string \<times> 'v option) option" where
  "get_walk [] i = None"
| "get_walk [n] i = (if i > 0 then None else Some (pn_key n, pn_val n))"
| "get_walk (n # n' # rest) i =
     (if i > 0 then get_walk (n' # rest) (i - 1) else Some (pn_key n, pn_val n))"

definition lsi_bucklist_get :: "'v bucklist \<Rightarrow> nat \<Rightarrow> (string \<times> 'v option) option" where
  "lsi_bucklist_get l i = get_walk (bl_nodes l) i"

fun find_walk :: "'v pl_node list \<Rightarrow> string \<Rightarrow> nat list \<Rightarrow> 'v pl_node option" where
  "find_walk [] key cm = None"
| "find_walk (n # rest) key cm = (if pfxeq (pn_key n) key cm then Some n else find_walk rest key cm)"

definition lsi_bucklist_find :: "'v bucklist \<Rightarrow> string \<Rightarrow> 'v option" where
  "lsi_bucklist_find l key =
     (case find_walk (bl_nodes l) key (bl_cmap l) of None \<Rightarrow> None | Some n \<Rightarrow> pn_val n)"

section \<open>Iteration\<close>

text \<open>\<open>nodes_from ns i\<close>: the list from the node with address \<open>i\<close> on, None if \<open>i\<close> dangles.\<close>

fun nodes_from :: "'v pl_node list \<Rightarrow> nat \<Rightarrow> 'v pl_node list option" where
  "nodes_from [] i = None"
| "nodes_from (n # rest) i = (if pn_id n = i then Some (n # rest) else nodes_from rest i)"

definition lsi_bucklist_first ::
  "'v bucklist \<Rightarrow> (string \<times> 'v option) option \<times> 'v bucklist" where
  "lsi_bucklist_first l =
     (case bl_nodes l of
        [] \<Rightarrow> (None, l)
      | n # _ \<Rightarrow> (Some (pn_key n, pn_val n), l\<lparr>bl_previter := None, bl_iter := Some (pn_id n)\<rparr>))"

definition lsi_bucklist_next ::
  "'v bucklist \<Rightarrow> ((string \<times> 'v option) option \<times> 'v bucklist) option" where
  "lsi_bucklist_next l =
     (case bl_iter l of
        None \<Rightarrow> Some (None, l)
      | Some i \<Rightarrow> do {
          from \<leftarrow> nodes_from (bl_nodes l) i;
          Some (case from of
              m # n # _ \<Rightarrow> (Some (pn_key n, pn_val n),
                            l\<lparr>bl_previter := Some i, bl_iter := Some (pn_id n)\<rparr>)
            | _ \<Rightarrow> (None, l)) })"

definition lsi_bucklist_del_iter :: "'v bucklist \<Rightarrow> 'v bucklist option" where
  "lsi_bucklist_del_iter l = do {
     i \<leftarrow> bl_iter l;
     from \<leftarrow> nodes_from (bl_nodes l) i;
     let next = tl from;
     ns \<leftarrow> (case bl_previter l of
              None \<Rightarrow> Some next
            | Some p \<Rightarrow> do {
                _ \<leftarrow> nodes_from (bl_nodes l) p;
                Some (takeWhile (\<lambda>n. pn_id n \<noteq> p) (bl_nodes l)
                      @ filter (\<lambda>n. pn_id n = p) (bl_nodes l) @ next) });
     Some (l\<lparr>bl_nodes := ns, bl_iter := bl_previter l\<rparr>) }"

section \<open>Lemmas on the walks\<close>

lemma pfxeq_iff: "pfxeq n1 n2 cm \<longleftrightarrow> cmkey cm n1 = cmkey cm n2"
proof (induction n1 n2 cm rule: pfxeq.induct)
  case (1 n1 n2 cm)
  let ?c1 = "case n1 of [] \<Rightarrow> 0 | c # _ \<Rightarrow> cm ! byte c"
  let ?c2 = "case n2 of [] \<Rightarrow> 0 | c # _ \<Rightarrow> cm ! byte c"
  show ?case
  proof (cases "?c1 AND ?c2 = 0")
    case True
    then have "?c1 \<noteq> ?c2 \<or> ?c1 = 0" by auto
    with True show ?thesis
      by (subst pfxeq.simps) (auto simp: cmkey_Cons split: list.splits if_splits)
  next
    case False
    then have ne: "?c1 \<noteq> 0" "?c2 \<noteq> 0" by (metis and_zero_eq zero_and_eq)+
    then obtain a n1' b n2' where n: "n1 = a # n1'" "n2 = b # n2'"
      by (auto split: list.splits)
    show ?thesis
    proof (cases "?c1 = ?c2")
      case True
      with "1.IH" [OF refl refl False] n have "pfxeq n1' n2' cm \<longleftrightarrow> cmkey cm n1' = cmkey cm n2'"
        by simp
      with True False n ne show ?thesis
        by (subst pfxeq.simps) (simp add: cmkey_Cons)
    next
      case neq: False
      with False n ne show ?thesis
        by (subst pfxeq.simps) (simp add: cmkey_Cons)
    qed
  qed
qed

lemma count_loop_length: "count_loop ns c = c + length ns"
  by (induction ns c rule: count_loop.induct) auto

lemma insert_walk_take_drop: "insert_walk ns i new = take i ns @ new # drop i ns"
  by (induction ns i new rule: insert_walk.induct) (auto simp: take_Cons' drop_Cons')

lemma get_walk_nth:
  "get_walk ns i = (if i < length ns then Some (pn_key (ns ! i), pn_val (ns ! i)) else None)"
  by (induction ns i rule: get_walk.induct) (auto simp: nth_Cons')

text \<open>Searching by \<^const>\<open>pfxeq\<close> is searching by canonical key.\<close>

lemma find_walk_find:
  "find_walk ns k cm = find (\<lambda>n. cmkey cm (pn_key n) = cmkey cm k) ns"
  by (induction ns k cm rule: find_walk.induct) (auto simp: pfxeq_iff)

lemma find_split:
  "find P xs = Some x \<Longrightarrow> \<exists>us vs. xs = us @ x # vs \<and> P x \<and> (\<forall>u\<in>set us. \<not> P u)"
proof (induction xs)
  case (Cons a xs)
  show ?case
  proof (cases "P a")
    case True
    with Cons.prems have "a # xs = [] @ x # xs" "P x" by auto
    then show ?thesis by (metis empty_iff list.set(1))
  next
    case False
    with Cons.prems have "find P xs = Some x" by simp
    from Cons.IH [OF this] obtain us vs
      where "xs = us @ x # vs" "P x" "\<forall>u\<in>set us. \<not> P u" by blast
    with False have "a # xs = (a # us) @ x # vs \<and> P x \<and> (\<forall>u\<in>set (a # us). \<not> P u)" by simp
    then show ?thesis by blast
  qed
qed simp

lemma replace_walk_None_iff:
  "replace_walk ns k cm v = None \<longleftrightarrow> (\<forall>n\<in>set ns. cmkey cm (pn_key n) \<noteq> cmkey cm k)"
  by (induction ns k cm v rule: replace_walk.induct) (auto simp: pfxeq_iff)

lemma replace_walk_append:
  assumes "cmkey cm (pn_key n) = cmkey cm k" "\<forall>u\<in>set us. cmkey cm (pn_key u) \<noteq> cmkey cm k"
  shows "replace_walk (us @ n # vs) k cm v = Some (us @ n\<lparr>pn_val := v\<rparr> # vs)"
  using assms by (induction us) (auto simp: pfxeq_iff)

lemma remove_walk_None_iff:
  "remove_walk ns k cm = None \<longleftrightarrow> (\<forall>n\<in>set ns. cmkey cm (pn_key n) \<noteq> cmkey cm k)"
  by (induction ns k cm rule: remove_walk.induct) (auto simp: pfxeq_iff)

lemma remove_walk_append:
  assumes "cmkey cm (pn_key n) = cmkey cm k" "\<forall>u\<in>set us. cmkey cm (pn_key u) \<noteq> cmkey cm k"
  shows "remove_walk (us @ n # vs) k cm = Some (n, us @ vs)"
  using assms by (induction us) (auto simp: pfxeq_iff)

section \<open>The interface: a map keyed by canonical strings\<close>

text \<open>
  What the users of a keyed container rely on.  \<open>norm\<close> is the canonical form of a key under
  a character map, \<open>ok\<close> the representation invariant, \<open>entries\<close> the stored pairs in the
  container's order and \<open>kmap\<close> the partial function they stand for.
\<close>

locale string_map =
  fixes norm :: "'c \<Rightarrow> string \<Rightarrow> 'k"
    and ok :: "'c \<Rightarrow> 'b \<Rightarrow> bool"
    and entries :: "'b \<Rightarrow> (string \<times> 'v) list"
    and kmap :: "'b \<Rightarrow> 'k \<Rightarrow> 'v option"
    and look :: "'b \<Rightarrow> string \<Rightarrow> 'v option"
    and put :: "'b \<Rightarrow> string \<Rightarrow> 'v \<Rightarrow> 'b"
    and del :: "'b \<Rightarrow> string \<Rightarrow> 'b"
  assumes kmap_entries: "ok c b \<Longrightarrow> kmap b = map_of (map (\<lambda>e. (norm c (fst e), snd e)) (entries b))"
    and distinct_entries: "ok c b \<Longrightarrow> distinct (map (\<lambda>e. norm c (fst e)) (entries b))"
    and look_kmap: "ok c b \<Longrightarrow> look b k = kmap b (norm c k)"
    and put_ok: "ok c b \<Longrightarrow> ok c (put b k v)"
    and put_kmap: "ok c b \<Longrightarrow> kmap (put b k v) = (kmap b)(norm c k \<mapsto> v)"
    and del_ok: "ok c b \<Longrightarrow> ok c (del b k)"
    and del_kmap: "ok c b \<Longrightarrow> kmap (del b k) = (kmap b)(norm c k := None)"
begin

lemma finite_dom_kmap: "ok c b \<Longrightarrow> finite (dom (kmap b))"
  by (simp add: kmap_entries finite_dom_map_of)

lemma length_entries: "ok c b \<Longrightarrow> length (entries b) = card (dom (kmap b))"
proof -
  assume ok: "ok c b"
  have "dom (kmap b) = set (map (\<lambda>e. norm c (fst e)) (entries b))"
    by (simp add: kmap_entries [OF ok] dom_map_of_conv_image_fst image_comp comp_def)
  with distinct_card [OF distinct_entries [OF ok]] show ?thesis by simp
qed

lemma kmap_Some_iff:
  assumes "ok c b"
  shows "kmap b q = Some v \<longleftrightarrow> (\<exists>k. (k, v) \<in> set (entries b) \<and> norm c k = q)"
proof -
  have "distinct (map fst (map (\<lambda>e. (norm c (fst e), snd e)) (entries b)))"
    using distinct_entries [OF assms] by (simp add: comp_def)
  then show ?thesis
    by (subst kmap_entries [OF assms]) (force simp: map_of_eq_Some_iff)
qed

lemma ran_entries: "ok c b \<Longrightarrow> ran (kmap b) = snd ` set (entries b)"
  by (force simp: ran_def kmap_Some_iff)

lemma look_put:
  "ok c b \<Longrightarrow> look (put b k v) k' = (if norm c k' = norm c k then Some v else look b k')"
  using put_ok [of c b k v] by (simp add: look_kmap put_kmap)

lemma look_del:
  "ok c b \<Longrightarrow> look (del b k) k' = (if norm c k' = norm c k then None else look b k')"
  using del_ok [of c b k] by (simp add: look_kmap del_kmap)

text \<open>Moving an entry to a new key, as a rename does.\<close>

lemma rekey_kmap:
  "ok c b \<Longrightarrow> norm c k \<noteq> norm c k' \<Longrightarrow>
   kmap (del (put b k' v) k) = (kmap b)(norm c k' \<mapsto> v, norm c k := None)"
  by (simp add: del_kmap [OF put_ok] put_kmap)

text \<open>Rekeying onto the same canonical key loses the entry.\<close>

lemma rekey_same_loses:
  "ok c b \<Longrightarrow> norm c k = norm c k' \<Longrightarrow> look (del (put b k' v) k) k' = None"
  by (simp add: look_del [OF put_ok])

end

text \<open>A store with separate insertion and replacement gives a map by looking first.\<close>

locale keyed_store =
  fixes norm :: "'c \<Rightarrow> string \<Rightarrow> 'k"
    and ok :: "'c \<Rightarrow> 'b \<Rightarrow> bool"
    and entries :: "'b \<Rightarrow> (string \<times> 'v) list"
    and kmap :: "'b \<Rightarrow> 'k \<Rightarrow> 'v option"
    and look :: "'b \<Rightarrow> string \<Rightarrow> 'v option"
    and ins :: "'b \<Rightarrow> string \<Rightarrow> 'v \<Rightarrow> 'b"
    and repl :: "'b \<Rightarrow> string \<Rightarrow> 'v \<Rightarrow> 'b"
    and del :: "'b \<Rightarrow> string \<Rightarrow> 'b"
  assumes st_kmap_entries: "ok c b \<Longrightarrow> kmap b = map_of (map (\<lambda>e. (norm c (fst e), snd e)) (entries b))"
    and st_distinct: "ok c b \<Longrightarrow> distinct (map (\<lambda>e. norm c (fst e)) (entries b))"
    and st_look: "ok c b \<Longrightarrow> look b k = kmap b (norm c k)"
    and st_ins: "ok c b \<Longrightarrow> kmap b (norm c k) = None \<Longrightarrow>
      ok c (ins b k v) \<and> kmap (ins b k v) = (kmap b)(norm c k \<mapsto> v)"
    and st_repl: "ok c b \<Longrightarrow> kmap b (norm c k) = Some w \<Longrightarrow>
      ok c (repl b k v) \<and> kmap (repl b k v) = (kmap b)(norm c k \<mapsto> v)"
    and st_del: "ok c b \<Longrightarrow> ok c (del b k) \<and> kmap (del b k) = (kmap b)(norm c k := None)"

sublocale keyed_store \<subseteq>
  string_map norm ok entries kmap look "\<lambda>b k v. if look b k = None then ins b k v else repl b k v" del
proof unfold_locales
  fix c b k v
  assume ok: "ok c b"
  show "kmap b = map_of (map (\<lambda>e. (norm c (fst e), snd e)) (entries b))" by (rule st_kmap_entries [OF ok])
  show "distinct (map (\<lambda>e. norm c (fst e)) (entries b))" by (rule st_distinct [OF ok])
  show "look b k = kmap b (norm c k)" by (rule st_look [OF ok])
  show "ok c (if look b k = None then ins b k v else repl b k v)"
    using st_ins [OF ok, of k v] st_repl [OF ok, of k _ v] st_look [OF ok, of k] by auto
  show "kmap (if look b k = None then ins b k v else repl b k v) = (kmap b)(norm c k \<mapsto> v)"
    using st_ins [OF ok, of k v] st_repl [OF ok, of k _ v] st_look [OF ok, of k] by auto
  show "ok c (del b k)" "kmap (del b k) = (kmap b)(norm c k := None)"
    using st_del [OF ok, of k] by auto
qed

section \<open>The bucket implements the interface\<close>

definition node_ckey :: "nat list \<Rightarrow> 'v pl_node \<Rightarrow> nat list" where
  "node_ckey cm n = cmkey cm (pn_key n)"

definition bl_ok :: "nat list \<Rightarrow> 'v bucklist \<Rightarrow> bool" where
  "bl_ok cm l \<longleftrightarrow>
     bl_cmap l = cm \<and> distinct (map (node_ckey cm) (bl_nodes l)) \<and>
     (\<forall>n\<in>set (bl_nodes l). pn_val n \<noteq> None) \<and>
     distinct (map pn_id (bl_nodes l)) \<and> (\<forall>n\<in>set (bl_nodes l). pn_id n < bl_fresh l)"

definition bl_entries :: "'v bucklist \<Rightarrow> (string \<times> 'v) list" where
  "bl_entries l = map (\<lambda>n. (pn_key n, the (pn_val n))) (bl_nodes l)"

definition bl_map :: "'v bucklist \<Rightarrow> nat list \<Rightarrow> 'v option" where
  "bl_map l = map_of (map (\<lambda>n. (node_ckey (bl_cmap l) n, the (pn_val n))) (bl_nodes l))"

lemma find_map_of:
  "(\<forall>n\<in>set ns. pn_val n \<noteq> None) \<Longrightarrow>
   map_of (map (\<lambda>n. (node_ckey cm n, the (pn_val n))) ns) q =
   (case find (\<lambda>n. node_ckey cm n = q) ns of None \<Rightarrow> None | Some n \<Rightarrow> pn_val n)"
  by (induction ns) auto

lemma bl_find_map: "bl_ok cm l \<Longrightarrow> lsi_bucklist_find l k = bl_map l (cmkey cm k)"
  using find_map_of [of "bl_nodes l" cm "cmkey cm k"]
  by (simp add: bl_ok_def lsi_bucklist_find_def bl_map_def find_walk_find node_ckey_def)

lemma bl_insert_ok:
  assumes "bl_ok cm l" "bl_map l (cmkey cm k) = None"
    and "lsi_bucklist_insert orc l 0 k (Some v) = (True, l', orc')"
  shows "bl_ok cm l' \<and> bl_map l' = (bl_map l)(cmkey cm k \<mapsto> v) \<and>
    length (bl_nodes l') = Suc (length (bl_nodes l))"
proof -
  have cm: "bl_cmap l = cm" using assms(1) by (simp add: bl_ok_def)
  have l': "l' = l\<lparr>bl_nodes := \<lparr>pn_id = bl_fresh l, pn_key = k, pn_val = Some v\<rparr> # bl_nodes l,
      bl_fresh := Suc (bl_fresh l)\<rparr>"
    using assms(3)
    by (auto simp: lsi_bucklist_insert_def insert_walk_take_drop split: prod.splits if_splits)
  have "cmkey cm k \<notin> node_ckey cm ` set (bl_nodes l)"
    using assms(2) by (auto simp: bl_map_def map_of_eq_None_iff cm image_comp comp_def)
  with assms(1) l' show ?thesis
    by (auto simp: bl_ok_def bl_map_def node_ckey_def less_Suc_eq)
qed

lemma map_of_mid:
  "\<forall>u\<in>set us. f u \<noteq> f n \<Longrightarrow>
   map_of (map (\<lambda>n. (f n, g n)) (us @ n # vs)) = (map_of (map (\<lambda>n. (f n, g n)) (us @ vs)))(f n \<mapsto> g n)"
  by (induction us) (auto simp: fun_upd_twist)

lemma map_of_absent:
  "\<forall>u\<in>set us. f u \<noteq> q \<Longrightarrow> map_of (map (\<lambda>n. (f n, g n)) us) q = None"
  by (induction us) auto

lemma bl_map_None_iff:
  "bl_map l q = None \<longleftrightarrow> (\<forall>n\<in>set (bl_nodes l). node_ckey (bl_cmap l) n \<noteq> q)"
  by (force simp: bl_map_def map_of_eq_None_iff)

lemma bl_map_node: "n \<in> set (bl_nodes l) \<Longrightarrow> bl_map l (node_ckey (bl_cmap l) n) \<noteq> None"
  by (auto simp only: bl_map_None_iff)

text \<open>A key that is present splits the node list at its node.\<close>

lemma bl_map_split:
  assumes "bl_ok cm l" "bl_map l q = Some w"
  obtains us n vs where "bl_nodes l = us @ n # vs" "node_ckey cm n = q" "pn_val n = Some w"
    "\<forall>u\<in>set us. node_ckey cm u \<noteq> q" "\<forall>u\<in>set vs. node_ckey cm u \<noteq> q"
proof -
  have cm: "bl_cmap l = cm" using assms(1) by (simp add: bl_ok_def)
  have "(case find (\<lambda>n. node_ckey cm n = q) (bl_nodes l) of None \<Rightarrow> None | Some n \<Rightarrow> pn_val n) = Some w"
    using assms find_map_of [of "bl_nodes l" cm q] by (simp add: bl_ok_def bl_map_def cm)
  then obtain n where n: "find (\<lambda>n. node_ckey cm n = q) (bl_nodes l) = Some n" "pn_val n = Some w"
    by (auto split: option.splits)
  from find_split [OF n(1)] obtain us vs where
    sp: "bl_nodes l = us @ n # vs" "node_ckey cm n = q" "\<forall>u\<in>set us. node_ckey cm u \<noteq> q" by blast
  have "q \<notin> node_ckey cm ` set vs"
    using assms(1) sp by (simp add: bl_ok_def)
  then have "\<forall>u\<in>set vs. node_ckey cm u \<noteq> q" by blast
  with sp n(2) show ?thesis using that by blast
qed

text \<open>Around that node: the map without it, and the invariant of the remaining nodes.\<close>

lemma bl_map_around:
  assumes "bl_ok cm l" "bl_nodes l = us @ n # vs" "node_ckey cm n = q"
    and "\<forall>u\<in>set us. node_ckey cm u \<noteq> q" "\<forall>u\<in>set vs. node_ckey cm u \<noteq> q"
  shows "bl_map (l\<lparr>bl_nodes := us @ n\<lparr>pn_val := Some v\<rparr> # vs\<rparr>) = (bl_map l)(q \<mapsto> v)"
    and "bl_map (l\<lparr>bl_nodes := us @ vs\<rparr>) = (bl_map l)(q := None)"
    and "bl_ok cm (l\<lparr>bl_nodes := us @ n\<lparr>pn_val := Some v\<rparr> # vs\<rparr>)"
    and "bl_ok cm (l\<lparr>bl_nodes := us @ vs\<rparr>)"
proof -
  have cm: "bl_cmap l = cm" using assms(1) by (simp add: bl_ok_def)
  let ?f = "node_ckey cm" and ?g = "\<lambda>n. the (pn_val n)"
  let ?M = "map_of (map (\<lambda>n. (?f n, ?g n)) (us @ vs))"
  have key: "?f (n\<lparr>pn_val := Some v\<rparr>) = q" using assms(3) by (simp add: node_ckey_def)
  have l: "bl_map l = ?M(q \<mapsto> ?g n)"
    using map_of_mid [of us ?f n ?g vs] assms by (simp add: bl_map_def cm)
  show "bl_map (l\<lparr>bl_nodes := us @ n\<lparr>pn_val := Some v\<rparr> # vs\<rparr>) = (bl_map l)(q \<mapsto> v)"
    using map_of_mid [of us ?f "n\<lparr>pn_val := Some v\<rparr>" ?g vs] assms(4) key l by (simp add: bl_map_def cm)
  have "?M q = None" using assms(4,5) by (intro map_of_absent) auto
  then have "?M(q := None) = ?M" by (rule fun_upd_idem)
  moreover have "bl_map (l\<lparr>bl_nodes := us @ vs\<rparr>) = ?M" by (simp add: bl_map_def cm)
  ultimately show "bl_map (l\<lparr>bl_nodes := us @ vs\<rparr>) = (bl_map l)(q := None)"
    by (simp only: l fun_upd_upd)
  show "bl_ok cm (l\<lparr>bl_nodes := us @ n\<lparr>pn_val := Some v\<rparr> # vs\<rparr>)" "bl_ok cm (l\<lparr>bl_nodes := us @ vs\<rparr>)"
    using assms(1,2) by (simp_all add: bl_ok_def node_ckey_def)
qed

lemma bl_replace_ok:
  assumes "bl_ok cm l" "bl_map l (cmkey cm k) = Some w"
  shows "\<exists>l'. lsi_bucklist_replace l k (Some v) = (True, l') \<and> bl_ok cm l' \<and>
    bl_map l' = (bl_map l)(cmkey cm k \<mapsto> v) \<and> length (bl_nodes l') = length (bl_nodes l)"
proof -
  have cm: "bl_cmap l = cm" using assms(1) by (simp add: bl_ok_def)
  obtain us n vs where sp: "bl_nodes l = us @ n # vs" "node_ckey cm n = cmkey cm k"
    "\<forall>u\<in>set us. node_ckey cm u \<noteq> cmkey cm k" "\<forall>u\<in>set vs. node_ckey cm u \<noteq> cmkey cm k"
    by (rule bl_map_split [OF assms])
  have "replace_walk (bl_nodes l) k cm (Some v) = Some (us @ n\<lparr>pn_val := Some v\<rparr> # vs)"
    using sp by (auto simp: node_ckey_def intro!: replace_walk_append)
  then show ?thesis
    using bl_map_around [OF assms(1) sp] sp(1) by (simp add: lsi_bucklist_replace_def cm)
qed

lemma bl_remove_absent:
  assumes "bl_ok cm l" "bl_map l (cmkey cm k) = None"
  shows "lsi_bucklist_remove l k = (None, None, l)"
proof -
  have cm: "bl_cmap l = cm" using assms(1) by (simp add: bl_ok_def)
  have "remove_walk (bl_nodes l) k cm = None"
    using assms(2) by (simp add: bl_map_None_iff remove_walk_None_iff cm node_ckey_def)
  then show ?thesis by (simp add: lsi_bucklist_remove_def cm)
qed

lemma bl_remove_present:
  assumes "bl_ok cm l" "bl_map l (cmkey cm k) = Some w"
  shows "\<exists>okey l'. lsi_bucklist_remove l k = (Some w, Some okey, l') \<and> bl_ok cm l' \<and>
    bl_map l' = (bl_map l)(cmkey cm k := None) \<and> length (bl_nodes l) = Suc (length (bl_nodes l'))"
proof -
  have cm: "bl_cmap l = cm" using assms(1) by (simp add: bl_ok_def)
  obtain us n vs where sp: "bl_nodes l = us @ n # vs" "node_ckey cm n = cmkey cm k" "pn_val n = Some w"
    "\<forall>u\<in>set us. node_ckey cm u \<noteq> cmkey cm k" "\<forall>u\<in>set vs. node_ckey cm u \<noteq> cmkey cm k"
    by (rule bl_map_split [OF assms])
  have "remove_walk (bl_nodes l) k cm = Some (n, us @ vs)"
    using sp by (auto simp: node_ckey_def intro!: remove_walk_append)
  then show ?thesis
    using bl_map_around [OF assms(1) sp(1,2,4,5)] sp(1,3) by (simp add: lsi_bucklist_remove_def cm)
qed

interpretation bucket: keyed_store cmkey bl_ok bl_entries bl_map lsi_bucklist_find
  "\<lambda>l k v. fst (snd (lsi_bucklist_insert [] l 0 k (Some v)))"
  "\<lambda>l k v. snd (lsi_bucklist_replace l k (Some v))"
  "\<lambda>l k. snd (snd (lsi_bucklist_remove l k))"
proof unfold_locales
  fix cm and l :: "'v bucklist" and k v w
  assume ok: "bl_ok cm l"
  show "bl_map l = map_of (map (\<lambda>e. (cmkey cm (fst e), snd e)) (bl_entries l))"
    using ok by (simp add: bl_map_def bl_entries_def bl_ok_def node_ckey_def comp_def)
  show "distinct (map (\<lambda>e. cmkey cm (fst e)) (bl_entries l))"
    using ok by (simp add: bl_entries_def bl_ok_def node_ckey_def [abs_def] comp_def)
  show "lsi_bucklist_find l k = bl_map l (cmkey cm k)" by (rule bl_find_map [OF ok])
  show "bl_map l (cmkey cm k) = None \<Longrightarrow>
      bl_ok cm (fst (snd (lsi_bucklist_insert [] l 0 k (Some v)))) \<and>
      bl_map (fst (snd (lsi_bucklist_insert [] l 0 k (Some v)))) = (bl_map l)(cmkey cm k \<mapsto> v)"
    using bl_insert_ok [OF ok, of k "[]" v] by (auto simp: lsi_bucklist_insert_def)
  show "bl_map l (cmkey cm k) = Some w \<Longrightarrow>
      bl_ok cm (snd (lsi_bucklist_replace l k (Some v))) \<and>
      bl_map (snd (lsi_bucklist_replace l k (Some v))) = (bl_map l)(cmkey cm k \<mapsto> v)"
    using bl_replace_ok [OF ok, of k w v] by auto
  show "bl_ok cm (snd (snd (lsi_bucklist_remove l k))) \<and>
      bl_map (snd (snd (lsi_bucklist_remove l k))) = (bl_map l)(cmkey cm k := None)"
    using bl_remove_absent [OF ok, of k] bl_remove_present [OF ok, of k] ok
    by (cases "bl_map l (cmkey cm k)") (auto simp: fun_upd_idem)
qed

section \<open>Iteration inside one bucket\<close>

lemma nodes_from_append:
  "pn_id n \<notin> pn_id ` set us \<Longrightarrow> nodes_from (us @ n # vs) (pn_id n) = Some (n # vs)"
  by (induction us) auto

lemma bucklist_next_Cons:
  assumes "bl_ok cm b" "bl_nodes b = us @ n # n' # vs" "bl_iter b = Some (pn_id n)"
  shows "lsi_bucklist_next b =
    Some (Some (pn_key n', pn_val n'), b\<lparr>bl_previter := Some (pn_id n), bl_iter := Some (pn_id n')\<rparr>)"
  using assms nodes_from_append [of n us "n' # vs"] by (simp add: lsi_bucklist_next_def bl_ok_def)

lemma bucklist_next_last:
  assumes "bl_ok cm b" "bl_nodes b = us @ [n]" "bl_iter b = Some (pn_id n)"
  shows "lsi_bucklist_next b = Some (None, b)"
  using assms nodes_from_append [of n us "[]"] by (simp add: lsi_bucklist_next_def bl_ok_def)

text \<open>The iterators are no part of what a bucket stores.\<close>

definition bl_core :: "'v bucklist \<Rightarrow> 'v bucklist" where
  "bl_core b = b\<lparr>bl_iter := None, bl_previter := None\<rparr>"

lemma bl_core_simps [simp]:
  "bl_ok cm (bl_core b) = bl_ok cm b" "bl_map (bl_core b) = bl_map b"
  "bl_nodes (bl_core b) = bl_nodes b" "bl_entries (bl_core b) = bl_entries b"
  "bl_core (b\<lparr>bl_iter := x\<rparr>) = bl_core b" "bl_core (b\<lparr>bl_previter := y\<rparr>) = bl_core b"
  by (simp_all add: bl_core_def bl_ok_def bl_map_def bl_entries_def)

end
