(* ===== verification/BaseString.thy ===== *)
theory BaseString
  imports C_Prelude
begin

text \<open>
  The bounded string primitives of \<open>platform/base_string.c\<close>, loop by loop over
  bounds-checked buffers, with the proofs that they never leave the destination and hold
  what the string-level functions \<^const>\<open>ncpy\<close> and \<^const>\<open>ncat\<close> say.  The rest of the
  development uses the string level.
\<close>

section \<open>\<open>lsi_b_strNcpy\<close>\<close>

text \<open>
  The \<open>do ... while\<close> loop: \<open>di\<close>, \<open>si\<close> are the offsets of the two moving pointers; the
  result holds the buffer, the final \<open>dest\<close> offset and the final \<open>destsz\<close>.
\<close>

fun strNcpy_loop ::
  "char list \<Rightarrow> nat \<Rightarrow> char list \<Rightarrow> nat \<Rightarrow> nat \<Rightarrow> (char list \<times> nat \<times> nat) option" where
  "strNcpy_loop dest di src si 0 = Some (dest, di, 0)"
| "strNcpy_loop dest di src si (Suc destsz) = do {
     c \<leftarrow> rd src si;
     dest' \<leftarrow> wr dest di c;
     if c = NUL then Some (dest', Suc di, destsz)
     else if destsz = 0 then Some (dest', Suc di, 0)
     else strNcpy_loop dest' (Suc di) src (Suc si) destsz }"

definition lsi_b_strNcpy :: "char list \<Rightarrow> char list \<Rightarrow> nat \<Rightarrow> char list option" where
  "lsi_b_strNcpy dest src destsz =
     (if destsz = 0 then Some dest
      else do {
        (dest', di, n) \<leftarrow> strNcpy_loop dest 0 src 0 destsz;
        if n = 0 then wr dest' (di - 1) NUL else Some dest' })"

section \<open>\<open>lsi_b_strNcat\<close>\<close>

fun strNcat_loop ::
  "char list \<Rightarrow> nat \<Rightarrow> char list \<Rightarrow> nat \<Rightarrow> nat \<Rightarrow> (char list \<times> nat) option" where
  "strNcat_loop dest p src si 0 = Some (dest, p)"
| "strNcat_loop dest p src si (Suc n) = do {
     c \<leftarrow> rd src si;
     if c = NUL then Some (dest, p)
     else do {
       dest' \<leftarrow> wr dest p c;
       strNcat_loop dest' (Suc p) src (Suc si) n } }"

definition lsi_b_strNcat :: "char list \<Rightarrow> char list \<Rightarrow> nat \<Rightarrow> char list option" where
  "lsi_b_strNcat dest src destsz = do {
     len \<leftarrow> c_strlen dest 0;
     if destsz \<le> len + 1 then Some dest
     else do {
       (dest', p) \<leftarrow> strNcat_loop dest len src 0 (destsz - (len + 1));
       wr dest' p NUL } }"

section \<open>\<open>lsi_b_strncasecmp\<close> and \<open>lsi_b_strcasecmp\<close>\<close>

text \<open>
  The fallback bodies used where the platform has no \<open>strncasecmp\<close>.  The loop reads the two
  strings (their ends read NUL) and keeps the last two characters read, \<open>ua\<close> and \<open>ub\<close>.
\<close>

fun strncasecmp_loop :: "string \<Rightarrow> string \<Rightarrow> nat \<Rightarrow> char \<Rightarrow> char \<Rightarrow> char \<times> char" where
  "strncasecmp_loop a b 0 ua ub = (ua, ub)"
| "strncasecmp_loop a b (Suc n) ua ub =
     (let ua' = hdz a; ub' = hdz b in
      if ua' \<noteq> NUL \<and> ub' \<noteq> NUL \<and> (ua' = ub' \<or> c_tolower ua' = c_tolower ub')
      then strncasecmp_loop (tl a) (tl b) n ua' ub'
      else (ua', ub'))"

definition strncasecmp_result :: "char \<times> char \<Rightarrow> int" where
  "strncasecmp_result u =
     (let (ua, ub) = u in
      if ua = NUL \<and> ub = NUL then 0
      else if ua = NUL then -1
      else if ub = NUL then 1
      else int (byte ua) - int (byte ub))"

text \<open>With \<open>n = 0\<close> the C code reads two variables it never set: undefined.\<close>

definition lsi_b_strncasecmp :: "string \<Rightarrow> string \<Rightarrow> nat \<Rightarrow> int option" where
  "lsi_b_strncasecmp a b n =
     (if n = 0 then None else Some (strncasecmp_result (strncasecmp_loop a b n NUL NUL)))"

definition lsi_b_strcasecmp :: "string \<Rightarrow> string \<Rightarrow> int" where
  "lsi_b_strcasecmp a b = strncasecmp_result (strncasecmp_loop a b (length a + 1) NUL NUL)"

section \<open>\<open>lsi_b_strdup\<close>\<close>

definition lsi_b_strdup :: "mallocs \<Rightarrow> string \<Rightarrow> string option \<times> mallocs" where
  "lsi_b_strdup orc s = (let (ok, orc') = malloc orc in (if ok then Some s else None, orc'))"

lemma lsi_b_strdup_Nil [simp]: "lsi_b_strdup [] s = (Some s, [])"
  by (simp add: lsi_b_strdup_def)

section \<open>Proofs\<close>

lemma strNcpy_loop_spec:
  assumes "cstr_ok s" "0 < n" "length pre + n \<le> length dest"
    and "take (length pre) dest = pre" "length q = si"
  shows "strNcpy_loop dest (length pre) (q @ s @ NUL # rest) si n =
    (if length s < n
     then Some (pre @ s @ NUL # drop (length pre + length s + 1) dest,
                length pre + length s + 1, n - (length s + 1))
     else Some (pre @ take n s @ drop (length pre + n) dest, length pre + n, 0))"
  using assms
proof (induction s arbitrary: pre dest n q si)
  case Nil
  then obtain m where n: "n = Suc m" by (cases n) auto
  have "dest[length pre := NUL] = pre @ NUL # drop (Suc (length pre)) dest"
    using Nil.prems n upd_conv_take_nth_drop [of "length pre" dest NUL] by simp
  with Nil.prems n show ?case by (simp add: nth_append)
next
  case (Cons c s)
  then obtain m where n: "n = Suc m" by (cases n) auto
  have upd: "dest[length pre := c] = pre @ c # drop (Suc (length pre)) dest"
    using Cons.prems n upd_conv_take_nth_drop [of "length pre" dest c] by simp
  let ?d = "dest[length pre := c]"
  show ?case
  proof (cases "m = 0")
    case True
    with Cons.prems n upd show ?thesis by (simp add: nth_append)
  next
    case False
    have tk: "take (length (pre @ [c])) ?d = pre @ [c]"
      using upd by simp
    have "strNcpy_loop ?d (length (pre @ [c])) ((q @ [c]) @ s @ NUL # rest) (Suc si) m =
      (if length s < m
       then Some ((pre @ [c]) @ s @ NUL # drop (length (pre @ [c]) + length s + 1) ?d,
                  length (pre @ [c]) + length s + 1, m - (length s + 1))
       else Some ((pre @ [c]) @ take m s @ drop (length (pre @ [c]) + m) ?d,
                  length (pre @ [c]) + m, 0))"
      by (rule Cons.IH) (use Cons.prems n False tk in auto)
    with Cons.prems n upd False show ?thesis
      by (simp add: nth_append ac_simps)
  qed
qed

lemma strNcpy_exact:
  assumes "cstr_ok s" "0 < n" "n \<le> length dest"
  shows "lsi_b_strNcpy dest (s @ NUL # rest) n =
    Some (take (n - 1) s @ NUL # drop (Suc (length (take (n - 1) s))) dest)"
proof -
  note loop = strNcpy_loop_spec [where pre = "[]" and q = "[]" and si = 0, simplified,
      OF assms]
  show ?thesis
  proof (cases "length s < n")
    case True
    then have tk: "take (n - 1) s = s" by simp
    show ?thesis
    proof (cases "n = length s + 1")
      case True
      with loop tk assms show ?thesis
        by (simp add: lsi_b_strNcpy_def list_update_append)
    next
      case False
      with \<open>length s < n\<close> loop tk assms show ?thesis
        by (simp add: lsi_b_strNcpy_def)
    qed
  next
    case False
    then obtain m where m: "n = Suc m" using assms(2) by (cases n) auto
    have "(take n s @ drop n dest)[n - 1 := NUL] = take m s @ NUL # drop n dest"
      using False m by (simp add: list_update_append take_Suc_conv_app_nth)
    with False loop assms m show ?thesis
      by (simp add: lsi_b_strNcpy_def)
  qed
qed

lemma strNcat_loop_spec:
  assumes "cstr_ok s" "length pre + n < length dest"
    and "take (length pre) dest = pre" "length q = si"
  shows "strNcat_loop dest (length pre) (q @ s @ NUL # rest) si n =
    Some (pre @ take n s @ drop (length pre + length (take n s)) dest,
          length pre + length (take n s))"
  using assms
proof (induction s arbitrary: pre dest n q si)
  case Nil
  then have "dest = pre @ drop (length pre) dest"
    by (metis append_take_drop_id)
  with Nil show ?case by (cases n) (auto simp: nth_append)
next
  case (Cons c s)
  show ?case
  proof (cases n)
    case 0
    with Cons.prems have "dest = pre @ drop (length pre) dest"
      by (metis append_take_drop_id)
    with 0 show ?thesis by simp
  next
    case (Suc m)
    have upd: "dest[length pre := c] = pre @ c # drop (Suc (length pre)) dest"
      using Cons.prems upd_conv_take_nth_drop [of "length pre" dest c] by simp
    have "strNcat_loop (dest[length pre := c]) (length (pre @ [c])) ((q @ [c]) @ s @ NUL # rest)
        (Suc si) m =
      Some ((pre @ [c]) @ take m s @ drop (length (pre @ [c]) + length (take m s))
              (dest[length pre := c]), length (pre @ [c]) + length (take m s))"
      by (rule Cons.IH) (use Cons.prems Suc upd in auto)
    with Cons.prems Suc upd show ?thesis by (simp add: nth_append ac_simps)
  qed
qed

lemma strNcat_exact:
  assumes "cstr_ok d" "cstr_ok s" "length d < n" "n \<le> length (d @ NUL # tail)"
  shows "\<exists>tail'. lsi_b_strNcat (d @ NUL # tail) (s @ NUL # rest) n =
      Some (ncat n d s @ NUL # tail') \<and>
      length (ncat n d s @ NUL # tail') = length (d @ NUL # tail)"
proof -
  let ?dest = "d @ NUL # tail"
  have len: "c_strlen ?dest 0 = Some (length d)"
    using assms(1) by (simp add: c_strlen_def)
  show ?thesis
  proof (cases "n \<le> length d + 1")
    case True
    with len show ?thesis by (simp add: lsi_b_strNcat_def ncat_def)
  next
    case False
    let ?m = "n - (length d + 1)"
    let ?t = "take ?m s"
    have loop: "strNcat_loop ?dest (length d) (s @ NUL # rest) 0 ?m =
        Some (d @ ?t @ drop (length d + length ?t) ?dest, length d + length ?t)"
      using strNcat_loop_spec [where pre = d and q = "[]" and si = 0 and dest = ?dest
          and n = ?m and s = s and rest = rest] assms False by simp
    have lt: "length d + length ?t < length ?dest"
      using assms False by simp
    then obtain x xs where dr: "drop (length d + length ?t) ?dest = x # xs"
      by (metis Cons_nth_drop_Suc)
    have lx: "length d + length ?t + Suc (length xs) = length ?dest"
      using dr lt by (metis add_diff_inverse_nat length_Cons length_drop less_imp_not_less)
    have "wr (d @ ?t @ x # xs) (length d + length ?t) NUL = Some (d @ ?t @ NUL # xs)"
      using lt by (simp add: list_update_append)
    with loop dr len False lx show ?thesis
      by (auto simp: lsi_b_strNcat_def ncat_def)
  qed
qed

lemma c_tolower_NUL_iff [simp]: "c_tolower c = NUL \<longleftrightarrow> c = NUL"
proof
  assume a: "c_tolower c = NUL"
  show "c = NUL"
  proof (cases "65 \<le> byte c \<and> byte c \<le> 90")
    case True
    with a have "byte (chr (byte c + 32)) = 0" by (simp add: c_tolower_def)
    with True show ?thesis by simp
  next
    case False
    with a show ?thesis by (simp only: c_tolower_def if_False)
  qed
qed (simp add: c_tolower_def)

lemma strncasecmp_loop_0_iff:
  "cstr_ok a \<Longrightarrow> cstr_ok b \<Longrightarrow> length a < n \<Longrightarrow>
   strncasecmp_result (strncasecmp_loop a b n ua ub) = 0 \<longleftrightarrow> map c_tolower a = map c_tolower b"
proof (induction a b n ua ub rule: strncasecmp_loop.induct)
  case (1 a b ua ub)
  then show ?case by simp
next
  case (2 a b n ua ub)
  show ?case
  proof (cases "hdz a \<noteq> NUL \<and> hdz b \<noteq> NUL \<and> (hdz a = hdz b \<or> c_tolower (hdz a) = c_tolower (hdz b))")
    case True
    with "2.prems" obtain x a' y b' where ab: "a = x # a'" "b = y # b'"
      by (cases a; cases b) auto
    have "strncasecmp_result (strncasecmp_loop (tl a) (tl b) n (hdz a) (hdz b)) = 0
        \<longleftrightarrow> map c_tolower (tl a) = map c_tolower (tl b)"
      by (rule "2.IH" [OF refl refl True]) (use "2.prems" ab in auto)
    with True ab show ?thesis by auto
  next
    case False
    with "2.prems" show ?thesis
      by (cases a; cases b) (auto simp: strncasecmp_result_def)
  qed
qed

lemma strcasecmp_0_iff:
  "cstr_ok a \<Longrightarrow> cstr_ok b \<Longrightarrow> lsi_b_strcasecmp a b = 0 \<longleftrightarrow> map c_tolower a = map c_tolower b"
  unfolding lsi_b_strcasecmp_def by (rule strncasecmp_loop_0_iff) auto

end
