(* ===== verification/Skmap.thy ===== *)
theory Skmap
  imports Complex_Main Bucklist BaseString
begin

text \<open>
  The hash map of \<open>libsrsirc/skmap.c\<close>: an array of buckets, a count and an iterator.  Keys are
  compared and hashed under a character map, so the map is a partial function on canonical
  keys (\<^const>\<open>cmkey\<close>).  The operations take the \<open>skmap *\<close>, None for NULL.  The array is a
  function on indices; the code reduces every index modulo \<open>bsz\<close>.  A map of zero buckets
  would divide by zero; the callers pass 256 or 4096 and \<open>sk_ok\<close> asks for \<open>0 < bsz\<close>.
\<close>

section \<open>State\<close>

datatype hash_fn = Strhash_small | Strhash_mid

record 'v skmap =
  sk_buck :: "nat \<Rightarrow> 'v bucklist option"
  sk_bsz :: nat
  sk_count :: nat
  sk_iterating :: bool
  sk_bit :: nat
  sk_hfn :: hash_fn
  sk_cmap :: "nat list"

section \<open>Hash functions\<close>

text \<open>\<open>cur << (++shift % 3)\<close>, truncated to the byte it is xor-ed into.\<close>

fun strhash_small_loop :: "string \<Rightarrow> nat list \<Rightarrow> 8 word \<Rightarrow> 32 word \<Rightarrow> 8 word" where
  "strhash_small_loop [] cmap res shift = res"
| "strhash_small_loop (c # s) cmap res shift =
     (let cur = cmap ! byte c; shift' = shift + 1 in
      if cur = 0 then res
      else strhash_small_loop s cmap (res XOR push_bit (unat (shift' mod 3)) (of_nat cur)) shift')"

definition strhash_small :: "string \<Rightarrow> nat list \<Rightarrow> nat" where
  "strhash_small s cmap = unat (strhash_small_loop s cmap 0xaa 0)"

fun strhash_mid_loop ::
  "string \<Rightarrow> nat list \<Rightarrow> 8 word \<Rightarrow> 8 word \<Rightarrow> 32 word \<Rightarrow> bool \<Rightarrow> 8 word \<times> 8 word" where
  "strhash_mid_loop [] cmap res0 res1 shift first = (res0, res1)"
| "strhash_mid_loop (c # s) cmap res0 res1 shift first =
     (let cur = cmap ! byte c; shift' = shift + 1; first' = (\<not> first);
          x = push_bit (unat (shift' mod 3)) (of_nat cur) in
      if cur = 0 then (res0, res1)
      else if first' then strhash_mid_loop s cmap res0 (res1 XOR x) shift' first'
      else strhash_mid_loop s cmap (res0 XOR x) res1 shift' first')"

definition strhash_mid :: "string \<Rightarrow> nat list \<Rightarrow> nat" where
  "strhash_mid s cmap =
     (let (r0, r1) = strhash_mid_loop s cmap 0xaa 0xaa 0 True in unat r0 * 256 + unat r1)"

definition run_hash :: "hash_fn \<Rightarrow> string \<Rightarrow> nat list \<Rightarrow> nat" where
  "run_hash f s cmap = (case f of Strhash_small \<Rightarrow> strhash_small s cmap | Strhash_mid \<Rightarrow> strhash_mid s cmap)"

definition sk_ind :: "'v skmap \<Rightarrow> string \<Rightarrow> nat" where
  "sk_ind m key = run_hash (sk_hfn m) key (sk_cmap m) mod sk_bsz m"

section \<open>Operations\<close>

definition lsi_skmap_init :: "mallocs \<Rightarrow> nat \<Rightarrow> nat \<Rightarrow> 'v skmap option \<times> mallocs" where
  "lsi_skmap_init orc bsz cm =
     (let (ok1, orc1) = malloc orc in
      if \<not> ok1 then (None, orc1)
      else let (ok2, orc2) = malloc orc1 in
        (if \<not> ok2 then None
         else Some \<lparr>sk_buck = (\<lambda>_. None), sk_bsz = bsz, sk_count = 0, sk_iterating = False,
                    sk_bit = 0, sk_hfn = (if bsz \<le> 256 then Strhash_small else Strhash_mid),
                    sk_cmap = g_cmap cm\<rparr>, orc2))"

definition lsi_skmap_clear :: "'v skmap option \<Rightarrow> 'v skmap option" where
  "lsi_skmap_clear h =
     (case h of None \<Rightarrow> None
      | Some m \<Rightarrow> Some (m\<lparr>sk_buck := fold (\<lambda>i f. if f i = None then f else f(i := None)) [0..< sk_bsz m] (sk_buck m),
                          sk_count := 0\<rparr>))"

text \<open>The exit of \<open>lsi_skmap_put\<close> under its \<open>fail\<close> label.\<close>

definition put_fail :: "'v skmap \<Rightarrow> nat \<Rightarrow> bool \<Rightarrow> 'v skmap" where
  "put_fail m ind allocated =
     (if allocated then m\<lparr>sk_buck := (sk_buck m)(ind := None)\<rparr> else m)"

text \<open>The part of \<open>lsi_skmap_put\<close> after the bucket \<open>kl\<close> has been found or made.\<close>

definition put_into ::
  "mallocs \<Rightarrow> 'v skmap \<Rightarrow> nat \<Rightarrow> bool \<Rightarrow> 'v bucklist \<Rightarrow> string \<Rightarrow> 'v \<Rightarrow> bool \<times> 'v skmap \<times> mallocs" where
  "put_into orc m ind allocated kl key elem =
     (case lsi_bucklist_find kl key of
        None \<Rightarrow>
          (let (kd, orc1) = lsi_b_strdup orc key in
           case kd of
             None \<Rightarrow> (False, put_fail m ind allocated, orc1)
           | Some kd \<Rightarrow>
               (let (ok, kl', orc2) = lsi_bucklist_insert orc1 kl 0 kd (Some elem) in
                if \<not> ok then (False, put_fail m ind allocated, orc2)
                else (True, m\<lparr>sk_buck := (sk_buck m)(ind := Some kl'), sk_count := sk_count m + 1\<rparr>, orc2)))
      | Some e \<Rightarrow>
          (True, m\<lparr>sk_buck := (sk_buck m)(ind := Some (snd (lsi_bucklist_replace kl key (Some elem))))\<rparr>, orc))"

definition skmap_put :: "mallocs \<Rightarrow> 'v skmap \<Rightarrow> string \<Rightarrow> 'v \<Rightarrow> bool \<times> 'v skmap \<times> mallocs" where
  "skmap_put orc m key elem =
     (let ind = sk_ind m key in
      case sk_buck m ind of
        None \<Rightarrow>
          (let (kl, orc1) = lsi_bucklist_init orc (sk_cmap m) in
           case kl of
             None \<Rightarrow> (False, put_fail m ind True, orc1)
           | Some kl \<Rightarrow> put_into orc1 m ind True kl key elem)
      | Some kl \<Rightarrow> put_into orc m ind False kl key elem)"

definition lsi_skmap_put ::
  "mallocs \<Rightarrow> 'v skmap option \<Rightarrow> string option \<Rightarrow> 'v option \<Rightarrow> bool \<times> 'v skmap option \<times> mallocs" where
  "lsi_skmap_put orc h key elem =
     (case (h, key, elem) of
        (Some m, Some k, Some e) \<Rightarrow>
          (let (r, m', orc') = skmap_put orc m k e in (r, Some m', orc'))
      | _ \<Rightarrow> (False, h, orc))"

definition skmap_get :: "'v skmap \<Rightarrow> string \<Rightarrow> 'v option" where
  "skmap_get m key =
     (case sk_buck m (sk_ind m key) of None \<Rightarrow> None | Some kl \<Rightarrow> lsi_bucklist_find kl key)"

definition lsi_skmap_get :: "'v skmap option \<Rightarrow> string \<Rightarrow> 'v option" where
  "lsi_skmap_get h key = (case h of None \<Rightarrow> None | Some m \<Rightarrow> skmap_get m key)"

definition skmap_del :: "'v skmap \<Rightarrow> string \<Rightarrow> 'v option \<times> 'v skmap" where
  "skmap_del m key =
     (let ind = sk_ind m key in
      case sk_buck m ind of
        None \<Rightarrow> (None, m)
      | Some kl \<Rightarrow>
          (let (e, okey, kl') = lsi_bucklist_remove kl key;
               m' = m\<lparr>sk_buck := (sk_buck m)(ind := Some kl')\<rparr> in
           case e of
             None \<Rightarrow> (None, m')
           | Some v \<Rightarrow> (Some v, m'\<lparr>sk_count := sk_count m - 1\<rparr>)))"

definition lsi_skmap_del :: "'v skmap option \<Rightarrow> string \<Rightarrow> 'v option \<times> 'v skmap option" where
  "lsi_skmap_del h key =
     (case h of None \<Rightarrow> (None, None)
      | Some m \<Rightarrow> (let (e, m') = skmap_del m key in (e, Some m')))"

definition lsi_skmap_count :: "'v skmap option \<Rightarrow> nat" where
  "lsi_skmap_count h = (case h of None \<Rightarrow> 0 | Some m \<Rightarrow> sk_count m)"

section \<open>Iteration\<close>

text \<open>The loops that move \<open>bit\<close> to the next bucket that exists and is not empty.\<close>

function skip_empty :: "'v skmap \<Rightarrow> nat \<Rightarrow> nat" where
  "skip_empty m bt =
     (if bt < sk_bsz m \<and>
         (case sk_buck m bt of None \<Rightarrow> True | Some b \<Rightarrow> lsi_bucklist_isempty b)
      then skip_empty m (bt + 1) else bt)"
  by pat_completeness auto
termination
  by (relation "measure (\<lambda>(m, bt). sk_bsz m - bt)") auto

declare skip_empty.simps [simp del]

text \<open>Both iterators end here: at \<open>bsz\<close> the iteration is over, else the bucket's first node is given.\<close>

definition enter_bucket :: "'v skmap \<Rightarrow> nat \<Rightarrow> (string \<times> 'v option) option \<times> 'v skmap" where
  "enter_bucket m bt =
     (if bt = sk_bsz m then (None, m\<lparr>sk_bit := bt, sk_iterating := False\<rparr>)
      else case sk_buck m bt of
          None \<Rightarrow> (None, m\<lparr>sk_bit := bt\<rparr>)
        | Some b \<Rightarrow>
            (let (r, b') = lsi_bucklist_first b in
             (r, m\<lparr>sk_bit := bt, sk_buck := (sk_buck m)(bt := Some b')\<rparr>)))"

definition lsi_skmap_first :: "'v skmap option \<Rightarrow> (string \<times> 'v option) option \<times> 'v skmap option" where
  "lsi_skmap_first h =
     (case h of None \<Rightarrow> (None, None)
      | Some m \<Rightarrow>
          (let bt = skip_empty m 0;
               (r, m') = enter_bucket m bt
           in (r, Some (m'\<lparr>sk_iterating := (bt \<noteq> sk_bsz m)\<rparr>))))"

text \<open>Following \<open>buck[bit]\<close> when it is NULL, or a dangling bucket iterator, is undefined.\<close>

definition lsi_skmap_next ::
  "'v skmap option \<Rightarrow> ((string \<times> 'v option) option \<times> 'v skmap option) option" where
  "lsi_skmap_next h =
     (case h of None \<Rightarrow> Some (None, None)
      | Some m \<Rightarrow>
          if \<not> sk_iterating m then Some (None, h)
          else do {
            b \<leftarrow> sk_buck m (sk_bit m);
            (r, b') \<leftarrow> lsi_bucklist_next b;
            let m' = m\<lparr>sk_buck := (sk_buck m)(sk_bit m := Some b')\<rparr>;
            case r of
              Some kv \<Rightarrow> Some (Some kv, Some m')
            | None \<Rightarrow> (let (r2, m2) = enter_bucket m' (skip_empty m' (sk_bit m + 1)) in Some (r2, Some m2)) })"

definition lsi_skmap_del_iter :: "'v skmap option \<Rightarrow> 'v skmap option option" where
  "lsi_skmap_del_iter h =
     (case h of None \<Rightarrow> Some None
      | Some m \<Rightarrow>
          if \<not> sk_iterating m then Some h
          else do {
            b \<leftarrow> sk_buck m (sk_bit m);
            b' \<leftarrow> lsi_bucklist_del_iter b;
            Some (Some (m\<lparr>sk_buck := (sk_buck m)(sk_bit m := Some b')\<rparr>)) })"

text \<open>
  The clients' loop \<open>if (first(h, &k, &v)) do ... while (next(h, &k, &v))\<close>: the pairs it visits,
  in order, and the map afterwards.  The fuel bounds the number of calls of \<open>next\<close>; the number
  of nodes is enough (\<open>skmap_walk_total\<close>).
\<close>

fun walk_next :: "nat \<Rightarrow> 'v skmap option \<Rightarrow> ((string \<times> 'v option) list \<times> 'v skmap option) option" where
  "walk_next 0 h = None"
| "walk_next (Suc n) h = do {
     (r, h') \<leftarrow> lsi_skmap_next h;
     case r of
       None \<Rightarrow> Some ([], h')
     | Some kv \<Rightarrow> do { (kvs, h'') \<leftarrow> walk_next n h'; Some (kv # kvs, h'') } }"

definition bucket_nodes :: "'v skmap \<Rightarrow> nat \<Rightarrow> 'v pl_node list" where
  "bucket_nodes m i = (case sk_buck m i of None \<Rightarrow> [] | Some b \<Rightarrow> bl_nodes b)"

definition node_total :: "'v skmap \<Rightarrow> nat" where
  "node_total m = sum_list (map (\<lambda>i. length (bucket_nodes m i)) [0..< sk_bsz m])"

definition skmap_walk :: "'v skmap option \<Rightarrow> ((string \<times> 'v option) list \<times> 'v skmap option) option" where
  "skmap_walk h =
     (let (r, h') = lsi_skmap_first h in
      case r of
        None \<Rightarrow> Some ([], h')
      | Some kv \<Rightarrow> do {
          (kvs, h'') \<leftarrow> walk_next (case h of None \<Rightarrow> 0 | Some m \<Rightarrow> node_total m) h';
          Some (kv # kvs, h'') })"

section \<open>Statistics\<close>

definition lsi_skmap_stat :: "'v skmap \<Rightarrow> nat \<times> nat \<times> nat \<times> rat \<times> rat \<times> nat" where
  "lsi_skmap_stat m =
     (let (used, usedlen, maxlen) =
        fold (\<lambda>i (used, usedlen, maxlen).
           case sk_buck m i of
             None \<Rightarrow> (used, usedlen, maxlen)
           | Some b \<Rightarrow>
               (let c = lsi_bucklist_count (Some b);
                    maxlen' = (if c > maxlen then c else maxlen)
                in if c > 0 then (used + 1, usedlen + c, maxlen') else (used, usedlen, maxlen')))
          [0..< sk_bsz m] (0::nat, 0::nat, 0::nat)
      in (sk_bsz m, used, sk_count m, of_nat (sk_count m) / of_nat (sk_bsz m),
          (if used \<noteq> 0 then of_nat usedlen / of_nat used else 0), maxlen))"

section \<open>Hashing depends on the canonical key only\<close>

lemma cmkey_eq_Cons:
  assumes "cmkey cm (c # s) = cmkey cm t" "cm ! byte c \<noteq> 0"
  obtains d t' where "t = d # t'" "cm ! byte d = cm ! byte c" "cmkey cm s = cmkey cm t'"
  using assms by (cases t) (auto simp: cmkey_Cons split: if_splits)

lemma strhash_loop_empty:
  assumes "cmkey cm t = []"
  shows "strhash_small_loop t cm r sh = r" "strhash_mid_loop t cm r0 r1 sh f = (r0, r1)"
  using assms by (cases t; simp add: cmkey_Cons split: if_splits)+

lemma strhash_small_loop_cong:
  "cmkey cm s = cmkey cm t \<Longrightarrow> strhash_small_loop s cm r sh = strhash_small_loop t cm r sh"
proof (induction s arbitrary: t r sh)
  case Nil
  then show ?case by (simp add: strhash_loop_empty)
next
  case (Cons c s)
  show ?case
  proof (cases "cm ! byte c = 0")
    case True
    with Cons.prems show ?thesis by (simp add: cmkey_Cons strhash_loop_empty)
  next
    case False
    obtain d t' where t: "t = d # t'" "cm ! byte d = cm ! byte c" "cmkey cm s = cmkey cm t'"
      by (rule cmkey_eq_Cons [OF Cons.prems False])
    then show ?thesis
      using Cons.IH [OF t(3)] by (simp only: strhash_small_loop.simps t Let_def)
  qed
qed

lemma strhash_mid_loop_cong:
  "cmkey cm s = cmkey cm t \<Longrightarrow> strhash_mid_loop s cm r0 r1 sh f = strhash_mid_loop t cm r0 r1 sh f"
proof (induction s arbitrary: t r0 r1 sh f)
  case Nil
  then show ?case by (simp add: strhash_loop_empty)
next
  case (Cons c s)
  show ?case
  proof (cases "cm ! byte c = 0")
    case True
    with Cons.prems show ?thesis by (simp add: cmkey_Cons strhash_loop_empty)
  next
    case False
    obtain d t' where t: "t = d # t'" "cm ! byte d = cm ! byte c" "cmkey cm s = cmkey cm t'"
      by (rule cmkey_eq_Cons [OF Cons.prems False])
    then show ?thesis
      using Cons.IH [OF t(3)] by (simp only: strhash_mid_loop.simps t Let_def)
  qed
qed

lemma run_hash_cong: "cmkey cm s = cmkey cm t \<Longrightarrow> run_hash f s cm = run_hash f t cm"
  using strhash_small_loop_cong [of cm s t] strhash_mid_loop_cong [of cm s t]
  by (simp add: run_hash_def strhash_small_def strhash_mid_def split: hash_fn.split)

lemma sk_ind_cong: "cmkey (sk_cmap m) s = cmkey (sk_cmap m) t \<Longrightarrow> sk_ind m s = sk_ind m t"
  by (simp add: sk_ind_def run_hash_cong [of "sk_cmap m" s t])

section \<open>Invariant and abstraction\<close>

definition sk_ok :: "nat list \<Rightarrow> 'v skmap \<Rightarrow> bool" where
  "sk_ok cm m \<longleftrightarrow>
     sk_cmap m = cm \<and> 0 < sk_bsz m \<and> sk_count m = node_total m \<and>
     (\<forall>i < sk_bsz m. \<forall>b. sk_buck m i = Some b \<longrightarrow>
        bl_ok cm b \<and> (\<forall>n\<in>set (bl_nodes b). sk_ind m (pn_key n) = i))"

definition sk_entries :: "'v skmap \<Rightarrow> (string \<times> 'v) list" where
  "sk_entries m = concat (map (\<lambda>i. map (\<lambda>n. (pn_key n, the (pn_val n))) (bucket_nodes m i)) [0..< sk_bsz m])"

definition sk_map :: "'v skmap \<Rightarrow> nat list \<Rightarrow> 'v option" where
  "sk_map m = map_of (map (\<lambda>e. (cmkey (sk_cmap m) (fst e), snd e)) (sk_entries m))"

text \<open>What bucket \<open>i\<close> says about a canonical key.\<close>

definition bmap :: "'v skmap \<Rightarrow> nat \<Rightarrow> nat list \<Rightarrow> 'v option" where
  "bmap m i q = (case sk_buck m i of None \<Rightarrow> None | Some b \<Rightarrow> bl_map b q)"

lemma sk_ind_less [simp]: "0 < sk_bsz m \<Longrightarrow> sk_ind m k < sk_bsz m"
  by (simp add: sk_ind_def)

lemma sk_ind_upd [simp]:
  "sk_ind (m\<lparr>sk_buck := x\<rparr>) = sk_ind m" "sk_ind (m\<lparr>sk_count := n\<rparr>) = sk_ind m"
  by (simp_all add: sk_ind_def fun_eq_iff)

lemma sk_okD:
  assumes "sk_ok cm m"
  shows "sk_cmap m = cm" "0 < sk_bsz m" "sk_count m = node_total m"
    "i < sk_bsz m \<Longrightarrow> sk_buck m i = Some b \<Longrightarrow> bl_ok cm b"
    "i < sk_bsz m \<Longrightarrow> n \<in> set (bucket_nodes m i) \<Longrightarrow> sk_ind m (pn_key n) = i"
  using assms by (auto simp: sk_ok_def) (cases "sk_buck m i"; simp add: bucket_nodes_def)

lemma distinct_concat_keys:
  assumes "\<And>i. i < n \<Longrightarrow> distinct (f i)"
    and "\<And>i j x. i < n \<Longrightarrow> j < n \<Longrightarrow> x \<in> set (f i) \<Longrightarrow> x \<in> set (f j) \<Longrightarrow> i = j"
  shows "distinct (concat (map f [0..<n]))"
  using assms by (induction n) (auto, metis less_irrefl less_Suc_eq)

lemma bucket_node_key_ind:
  assumes "sk_ok cm m" "i < sk_bsz m" "n \<in> set (bucket_nodes m i)" "node_ckey cm n = cmkey cm k"
  shows "i = sk_ind m k"
  using sk_okD [OF assms(1)] assms sk_ind_cong [of m "pn_key n" k] by (simp add: node_ckey_def)

lemma distinct_sk_keys:
  assumes ok: "sk_ok cm m"
  shows "distinct (map (\<lambda>e. cmkey cm (fst e)) (sk_entries m))"
proof -
  let ?f = "\<lambda>i. map (node_ckey cm) (bucket_nodes m i)"
  have "map (\<lambda>e. cmkey cm (fst e)) (sk_entries m) = concat (map ?f [0..< sk_bsz m])"
    by (simp add: sk_entries_def map_concat comp_def node_ckey_def [abs_def])
  moreover have "distinct (concat (map ?f [0..< sk_bsz m]))"
  proof (rule distinct_concat_keys)
    fix i assume "i < sk_bsz m"
    then show "distinct (?f i)"
      using sk_okD(4) [OF ok] by (auto simp: bucket_nodes_def bl_ok_def split: option.splits)
  next
    fix i j x
    assume "i < sk_bsz m" "j < sk_bsz m" "x \<in> set (?f i)" "x \<in> set (?f j)"
    then obtain n n' where "n \<in> set (bucket_nodes m i)" "n' \<in> set (bucket_nodes m j)"
      "node_ckey cm n = node_ckey cm n'" by auto
    then show "i = j"
      using bucket_node_key_ind [OF ok, of i n "pn_key n'"] sk_okD(5) [OF ok] \<open>i < sk_bsz m\<close> \<open>j < sk_bsz m\<close>
      by (simp add: node_ckey_def)
  qed
  ultimately show ?thesis by simp
qed

lemma sk_map_Some_iff:
  assumes ok: "sk_ok cm m"
  shows "sk_map m q = Some v \<longleftrightarrow> (\<exists>i < sk_bsz m. bmap m i q = Some v)"
proof -
  have cm: "sk_cmap m = cm" by (rule sk_okD(1) [OF ok])
  have "distinct (map fst (map (\<lambda>e. (cmkey cm (fst e), snd e)) (sk_entries m)))"
    using distinct_sk_keys [OF ok] by (simp add: comp_def)
  then have "sk_map m q = Some v \<longleftrightarrow>
      (q, v) \<in> set (map (\<lambda>e. (cmkey cm (fst e), snd e)) (sk_entries m))"
    by (simp only: sk_map_def cm map_of_eq_Some_iff)
  also have "\<dots> \<longleftrightarrow>
      (\<exists>i < sk_bsz m. \<exists>n\<in>set (bucket_nodes m i). node_ckey cm n = q \<and> the (pn_val n) = v)"
    by (force simp: sk_entries_def node_ckey_def)
  also have "\<dots> \<longleftrightarrow> (\<exists>i < sk_bsz m. bmap m i q = Some v)"
  proof -
    have "(\<exists>n\<in>set (bucket_nodes m i). node_ckey cm n = q \<and> the (pn_val n) = v) \<longleftrightarrow> bmap m i q = Some v"
      if i: "i < sk_bsz m" for i
    proof (cases "sk_buck m i")
      case None
      then show ?thesis by (simp add: bucket_nodes_def bmap_def)
    next
      case (Some b)
      with sk_okD(4) [OF ok i] have b: "bl_ok cm b" by simp
      then have "distinct (map fst (map (\<lambda>n. (node_ckey cm n, the (pn_val n))) (bl_nodes b)))"
        by (simp add: bl_ok_def comp_def)
      with Some b show ?thesis
        by (force simp: bucket_nodes_def bmap_def bl_map_def bl_ok_def map_of_eq_Some_iff)
    qed
    then show ?thesis by auto
  qed
  finally show ?thesis .
qed

lemma bmap_ind:
  assumes "sk_ok cm m" "i < sk_bsz m" "bmap m i (cmkey cm k) = Some v"
  shows "i = sk_ind m k"
proof -
  obtain b where b: "sk_buck m i = Some b" "bl_map b (cmkey cm k) = Some v"
    using assms(3) by (auto simp: bmap_def split: option.splits)
  then have "bl_ok cm b" using sk_okD(4) [OF assms(1,2)] by simp
  from bl_map_split [OF this b(2)] obtain us n vs where
    "bl_nodes b = us @ n # vs" "node_ckey cm n = cmkey cm k" by metis
  with b bucket_node_key_ind [OF assms(1,2), of n k] show ?thesis by (simp add: bucket_nodes_def)
qed

lemma sk_map_key:
  assumes "sk_ok cm m"
  shows "sk_map m (cmkey cm k) = bmap m (sk_ind m k) (cmkey cm k)"
proof -
  have "sk_map m (cmkey cm k) = Some v \<longleftrightarrow> bmap m (sk_ind m k) (cmkey cm k) = Some v" for v
    using sk_map_Some_iff [OF assms] bmap_ind [OF assms] sk_okD(2) [OF assms] by (metis sk_ind_less)
  then show ?thesis by (metis not_Some_eq)
qed

lemma skmap_get_sk_map: "sk_ok cm m \<Longrightarrow> skmap_get m k = sk_map m (cmkey cm k)"
  using sk_okD(2) [of cm m] sk_okD(4) [of cm m "sk_ind m k"] bl_find_map [of cm _ k]
  by (auto simp: sk_map_key skmap_get_def bmap_def split: option.split)

section \<open>Replacing one bucket\<close>

lemma node_total_sum: "node_total m = (\<Sum>i < sk_bsz m. length (bucket_nodes m i))"
  by (simp add: node_total_def interv_sum_list_conv_sum_set_nat atLeast0LessThan)

lemma node_total_bucket:
  assumes "j < sk_bsz m"
  shows "node_total (m\<lparr>sk_buck := (sk_buck m)(j := Some b), sk_count := c\<rparr>) + length (bucket_nodes m j) =
    node_total m + length (bl_nodes b)"
proof -
  let ?m = "m\<lparr>sk_buck := (sk_buck m)(j := Some b), sk_count := c\<rparr>"
  let ?rest = "\<Sum>i\<in>{..< sk_bsz m} - {j}. length (bucket_nodes m i)"
  have j: "j \<in> {..< sk_bsz m}" "j \<in> {..< sk_bsz ?m}" using assms by simp_all
  have "node_total m = length (bucket_nodes m j) + ?rest"
    unfolding node_total_sum by (rule sum.remove [OF _ j(1)]) simp
  moreover have "node_total ?m = length (bucket_nodes ?m j) + (\<Sum>i\<in>{..< sk_bsz m} - {j}. length (bucket_nodes ?m i))"
    unfolding node_total_sum by (subst sum.remove [OF _ j(2)]) simp_all
  moreover have "(\<Sum>i\<in>{..< sk_bsz m} - {j}. length (bucket_nodes ?m i)) = ?rest"
    by (rule sum.cong) (auto simp: bucket_nodes_def)
  moreover have "length (bucket_nodes ?m j) = length (bl_nodes b)"
    by (simp add: bucket_nodes_def)
  ultimately show ?thesis by simp
qed

lemma bucket_update:
  assumes ok: "sk_ok cm m" and j: "j = sk_ind m k"
    and b: "bl_ok cm b" and mb: "bl_map b = (bmap m j)(cmkey cm k := x)"
    and c: "c + length (bucket_nodes m j) = sk_count m + length (bl_nodes b)"
  defines "m' \<equiv> m\<lparr>sk_buck := (sk_buck m)(j := Some b), sk_count := c\<rparr>"
  shows "sk_ok cm m'" "sk_map m' = (sk_map m)(cmkey cm k := x)"
proof -
  have jl: "j < sk_bsz m" using sk_okD(2) [OF ok] j by simp
  have nodes: "sk_ind m (pn_key n) = j" if "n \<in> set (bl_nodes b)" for n
  proof -
    have cb: "bl_cmap b = cm" using b by (simp add: bl_ok_def)
    have "bl_map b (cmkey cm (pn_key n)) \<noteq> None"
      using bl_map_node [OF that] by (simp add: cb node_ckey_def)
    then have "cmkey cm (pn_key n) = cmkey cm k \<or> bmap m j (cmkey cm (pn_key n)) \<noteq> None"
      using mb by (auto split: if_splits)
    then show ?thesis
      using bmap_ind [OF ok jl] sk_ind_cong [of m "pn_key n" k] sk_okD(1) [OF ok] j by auto
  qed
  have cnt: "c = node_total m'"
    using node_total_bucket [OF jl, where b = b and c = c] c sk_okD(3) [OF ok] by (simp add: m'_def)
  show ok': "sk_ok cm m'"
    using ok cnt nodes b by (auto simp: sk_ok_def m'_def split: if_splits)
  have bm: "bmap m' i = (if i = j then (bmap m j)(cmkey cm k := x) else bmap m i)" for i
    by (auto simp: m'_def bmap_def mb)
  have bsz: "sk_bsz m' = sk_bsz m" by (simp add: m'_def)
  have "sk_map m' q = Some v \<longleftrightarrow> ((sk_map m)(cmkey cm k := x)) q = Some v" for q v
  proof (cases "q = cmkey cm k")
    case True
    have "bmap m i q = None" if "i < sk_bsz m" "i \<noteq> j" for i
      using bmap_ind [OF ok, of i k] True that j by (cases "bmap m i q") auto
    with True jl show ?thesis
      by (subst sk_map_Some_iff [OF ok']) (auto simp: bm bsz)
  next
    case False
    then show ?thesis
      by (subst sk_map_Some_iff [OF ok'])
        (auto simp: bm bsz sk_map_Some_iff [OF ok] split: if_splits)
  qed
  then show "sk_map m' = (sk_map m)(cmkey cm k := x)"
    by (intro ext) (metis not_Some_eq)
qed

section \<open>Functional behaviour of the operations\<close>

lemma skmap_init_ok:
  assumes "lsi_skmap_init orc bsz c = (Some m, orc')" "0 < bsz"
  shows "sk_ok (g_cmap c) m" "sk_map m = Map.empty" "sk_cmap m = g_cmap c" "sk_bsz m = bsz"
    "sk_count m = 0"
  using assms
  by (auto simp: lsi_skmap_init_def sk_ok_def sk_map_def sk_entries_def node_total_def bucket_nodes_def
      Let_def split: prod.splits if_splits)

lemma skmap_init_succeeds: "\<exists>m. lsi_skmap_init [] bsz c = (Some m, [])"
  by (simp add: lsi_skmap_init_def)

lemma put_into_correct:
  assumes ok: "sk_ok cm m" and j: "j = sk_ind m k"
    and kl: "bl_ok cm kl" "bl_map kl = bmap m j" "bl_nodes kl = bucket_nodes m j"
    and al: "allocated \<longrightarrow> sk_buck m j = None"
    and put: "put_into orc m j allocated kl k v = (r, m', orc')"
  shows "sk_ok cm m' \<and> sk_map m' = (if r then (sk_map m)(cmkey cm k \<mapsto> v) else sk_map m) \<and>
    (\<not> r \<longrightarrow> m' = m) \<and> (orc = [] \<longrightarrow> r \<and> orc' = [])"
proof -
  have fail: "put_fail m j allocated = m"
    using al by (auto simp: put_fail_def fun_upd_idem)
  show ?thesis
  proof (cases "bl_map kl (cmkey cm k)")
    case None
    then have nf: "lsi_bucklist_find kl k = None" using bl_find_map [OF kl(1)] by simp
    obtain okd orc1 where kd: "lsi_b_strdup orc k = (okd, orc1)" by fastforce
    show ?thesis
    proof (cases okd)
      case None
      with put kd nf fail ok show ?thesis by (auto simp: put_into_def lsi_b_strdup_def)
    next
      case (Some kd')
      then have kd': "kd' = k" using kd by (auto simp: lsi_b_strdup_def split: prod.splits if_splits)
      obtain okn kl' orc2 where ins: "lsi_bucklist_insert orc1 kl 0 k (Some v) = (okn, kl', orc2)"
        by (metis prod.collapse)
      have orcs: "orc = [] \<longrightarrow> orc1 = []" "orc1 = [] \<longrightarrow> okn \<and> orc2 = []"
        using kd ins by (auto simp: lsi_bucklist_insert_def)
      show ?thesis
      proof (cases okn)
        case False
        with put kd Some kd' ins nf fail ok orcs show ?thesis by (auto simp: put_into_def)
      next
        case True
        with ins have ins': "lsi_bucklist_insert orc1 kl 0 k (Some v) = (True, kl', orc2)" by simp
        note i = bl_insert_ok [OF kl(1) None ins']
        have m': "m' = m\<lparr>sk_buck := (sk_buck m)(j := Some kl'), sk_count := sk_count m + 1\<rparr>" "r" "orc' = orc2"
          using put kd Some kd' ins' nf by (auto simp: put_into_def)
        have "sk_ok cm m' \<and> sk_map m' = (sk_map m)(cmkey cm k \<mapsto> v)"
          unfolding m'(1) using bucket_update [OF ok j, of kl' "Some v" "sk_count m + 1"] i kl by simp
        with m' orcs show ?thesis by simp
      qed
    qed
  next
    case (Some w)
    then have f: "lsi_bucklist_find kl k = Some w" using bl_find_map [OF kl(1)] by simp
    from bl_replace_ok [OF kl(1) Some, of v] obtain kl' where
      rep: "lsi_bucklist_replace kl k (Some v) = (True, kl')" "bl_ok cm kl'"
        "bl_map kl' = (bl_map kl)(cmkey cm k \<mapsto> v)" "length (bl_nodes kl') = length (bl_nodes kl)" by blast
    have m': "m' = m\<lparr>sk_buck := (sk_buck m)(j := Some kl'), sk_count := sk_count m\<rparr>" "r" "orc' = orc"
      using put f rep by (auto simp: put_into_def)
    have "sk_ok cm m' \<and> sk_map m' = (sk_map m)(cmkey cm k \<mapsto> v)"
      unfolding m'(1) using bucket_update [OF ok j, of kl' "Some v" "sk_count m"] rep kl by simp
    with m' show ?thesis by simp
  qed
qed

lemma skmap_put_correct:
  fixes m :: "'v skmap"
  assumes ok: "sk_ok cm m" and put: "skmap_put orc m k v = (r, m', orc')"
  shows "sk_ok cm m' \<and> sk_map m' = (if r then (sk_map m)(cmkey cm k \<mapsto> v) else sk_map m) \<and>
    (\<not> r \<longrightarrow> m' = m) \<and> (orc = [] \<longrightarrow> r \<and> orc' = [])"
proof (cases "sk_buck m (sk_ind m k)")
  case None
  let ?j = "sk_ind m k"
  obtain kl :: "'v bucklist option" and orc1 where init: "lsi_bucklist_init orc (sk_cmap m) = (kl, orc1)" by fastforce
  show ?thesis
  proof (cases kl)
    case None': None
    then have "orc \<noteq> []" using init by (auto simp: lsi_bucklist_init_def)
    moreover have "put_fail m ?j True = m" using None by (simp add: put_fail_def fun_upd_idem)
    ultimately show ?thesis using put None None' init ok
      by (auto simp: skmap_put_def Let_def)
  next
    case (Some b)
    then have b: "bl_nodes b = []" "bl_cmap b = cm" "orc = [] \<longrightarrow> orc1 = []"
      using init sk_okD(1) [OF ok] by (auto simp: lsi_bucklist_init_def split: prod.splits if_splits)
    then have "bl_ok cm b" "bl_map b = bmap m ?j" "bl_nodes b = bucket_nodes m ?j"
      using None by (auto simp: bl_ok_def bl_map_def bmap_def bucket_nodes_def)
    from put_into_correct [OF ok refl this, of True orc1 v r m' orc'] None Some init put b(3)
    show ?thesis by (auto simp: skmap_put_def Let_def)
  qed
next
  case (Some b)
  let ?j = "sk_ind m k"
  have "bl_ok cm b" using sk_okD(4) [OF ok _ Some] sk_okD(2) [OF ok] by simp
  moreover have "bl_map b = bmap m ?j" "bl_nodes b = bucket_nodes m ?j"
    using Some by (simp_all add: bmap_def bucket_nodes_def fun_eq_iff)
  ultimately show ?thesis
    using put_into_correct [OF ok refl, where k = k and kl = b and allocated = False and orc = orc
        and v = v and r = r and m' = m' and orc' = orc'] Some put
    by (simp add: skmap_put_def Let_def)
qed

lemma skmap_del_correct:
  assumes ok: "sk_ok cm m" and del: "skmap_del m k = (e, m')"
  shows "e = sk_map m (cmkey cm k) \<and> sk_ok cm m' \<and> sk_map m' = (sk_map m)(cmkey cm k := None)"
proof (cases "sk_buck m (sk_ind m k)")
  case None
  then have "sk_map m (cmkey cm k) = None" by (simp add: sk_map_key [OF ok] bmap_def)
  with None del ok show ?thesis by (auto simp: skmap_del_def fun_upd_idem)
next
  case (Some b)
  let ?j = "sk_ind m k"
  have b: "bl_ok cm b" using sk_okD(4) [OF ok _ Some] sk_okD(2) [OF ok] by simp
  have bm: "bl_map b = bmap m ?j" "bl_nodes b = bucket_nodes m ?j"
    using Some by (simp_all add: bmap_def bucket_nodes_def fun_eq_iff)
  show ?thesis
  proof (cases "bl_map b (cmkey cm k)")
    case None
    have upd: "(sk_buck m)(?j := Some b) = sk_buck m" using Some by (simp add: fun_upd_idem)
    have "sk_map m (cmkey cm k) = None" using None bm by (simp add: sk_map_key [OF ok])
    with bl_remove_absent [OF b None] None Some del ok upd show ?thesis
      by (auto simp: skmap_del_def Let_def fun_upd_idem)
  next
    case (Some w)
    from bl_remove_present [OF b Some] obtain ok' b' where
      rem: "lsi_bucklist_remove b k = (Some w, Some ok', b')" "bl_ok cm b'"
        "bl_map b' = (bl_map b)(cmkey cm k := None)" "length (bl_nodes b) = Suc (length (bl_nodes b'))" by blast
    have e: "e = Some w" "m' = m\<lparr>sk_buck := (sk_buck m)(?j := Some b'), sk_count := sk_count m - 1\<rparr>"
      using del rem \<open>sk_buck m (sk_ind m k) = Some b\<close> by (auto simp: skmap_del_def Let_def)
    have jl: "?j < sk_bsz m" using sk_okD(2) [OF ok] by simp
    have "length (bucket_nodes m ?j) \<le> node_total m"
      unfolding node_total_sum using jl by (intro member_le_sum) auto
    then have cnt: "sk_count m - 1 + length (bucket_nodes m ?j) = sk_count m + length (bl_nodes b')"
      using rem(4) bm sk_okD(3) [OF ok] by simp
    have "sk_map m (cmkey cm k) = Some w" using Some bm by (simp add: sk_map_key [OF ok])
    with bucket_update [OF ok refl rem(2), of k None "sk_count m - 1"] rem(3) bm cnt e show ?thesis
      by simp
  qed
qed

text \<open>The hash map implements the keyed-map interface.\<close>

interpretation sk: string_map cmkey sk_ok sk_entries sk_map skmap_get
  "\<lambda>m k v. fst (snd (skmap_put [] m k v))" "\<lambda>m k. snd (skmap_del m k)"
proof unfold_locales
  fix cm and m :: "'v skmap" and k v
  assume ok: "sk_ok cm m"
  obtain r m' orc' where put: "skmap_put [] m k v = (r, m', orc')" by (metis prod.collapse)
  obtain e m'' where del: "skmap_del m k = (e, m'')" by fastforce
  show "sk_map m = map_of (map (\<lambda>e. (cmkey cm (fst e), snd e)) (sk_entries m))"
    using sk_okD(1) [OF ok] by (simp add: sk_map_def)
  show "distinct (map (\<lambda>e. cmkey cm (fst e)) (sk_entries m))" by (rule distinct_sk_keys [OF ok])
  show "skmap_get m k = sk_map m (cmkey cm k)" by (rule skmap_get_sk_map [OF ok])
  show "sk_ok cm (fst (snd (skmap_put [] m k v)))"
    "sk_map (fst (snd (skmap_put [] m k v))) = (sk_map m)(cmkey cm k \<mapsto> v)"
    using skmap_put_correct [OF ok put] put by auto
  show "sk_ok cm (snd (skmap_del m k))" "sk_map (snd (skmap_del m k)) = (sk_map m)(cmkey cm k := None)"
    using skmap_del_correct [OF ok del] del by auto
qed

text \<open>The count is the number of canonical keys.\<close>

lemma sk_count_card: "sk_ok cm m \<Longrightarrow> sk_count m = card (dom (sk_map m))"
proof -
  assume ok: "sk_ok cm m"
  have "length (sk_entries m) = node_total m"
    by (simp add: sk_entries_def node_total_def length_concat comp_def)
  with sk.length_entries [OF ok] sk_okD(3) [OF ok] show ?thesis by simp
qed

section \<open>Iteration visits every entry once\<close>

definition sk_core :: "'v skmap \<Rightarrow> 'v skmap" where
  "sk_core m = m\<lparr>sk_buck := (\<lambda>i. map_option bl_core (sk_buck m i)), sk_iterating := False, sk_bit := 0\<rparr>"

definition node_kv :: "'v pl_node \<Rightarrow> string \<times> 'v option" where
  "node_kv n = (pn_key n, pn_val n)"

definition kvs_from :: "'v skmap \<Rightarrow> nat \<Rightarrow> (string \<times> 'v option) list" where
  "kvs_from m i = concat (map (\<lambda>j. map node_kv (bucket_nodes m j)) [i..< sk_bsz m])"

text \<open>The iterator stands on node \<open>n\<close> of bucket \<open>i\<close>, with the nodes \<open>vs\<close> behind it.\<close>

definition at_node :: "'v skmap \<Rightarrow> nat \<Rightarrow> 'v pl_node list \<Rightarrow> 'v pl_node \<Rightarrow> 'v pl_node list \<Rightarrow> bool" where
  "at_node m i us n vs \<longleftrightarrow> sk_iterating m \<and> sk_bit m = i \<and> i < sk_bsz m \<and>
     (\<exists>b. sk_buck m i = Some b \<and> bl_nodes b = us @ n # vs \<and> bl_iter b = Some (pn_id n))"

lemma bucket_nodes_core [simp]: "bucket_nodes (sk_core m) = bucket_nodes m"
  by (auto simp: bucket_nodes_def sk_core_def fun_eq_iff split: option.splits)

lemma sk_core_sel [simp]:
  "sk_bsz (sk_core m) = sk_bsz m" "sk_cmap (sk_core m) = sk_cmap m" "sk_count (sk_core m) = sk_count m"
  "sk_ind (sk_core m) = sk_ind m"
  by (simp_all add: sk_core_def sk_ind_def fun_eq_iff)

lemma sk_ok_core [simp]: "sk_ok cm (sk_core m) = sk_ok cm m"
proof -
  have "node_total (sk_core m) = node_total m" by (simp add: node_total_def)
  then show ?thesis by (auto simp: sk_ok_def) (auto simp: sk_core_def)
qed

lemma sk_entries_core [simp]: "sk_entries (sk_core m) = sk_entries m"
  by (simp add: sk_entries_def)

lemma sk_map_core [simp]: "sk_map (sk_core m) = sk_map m"
  by (simp add: sk_map_def)

lemma kvs_from_core [simp]: "kvs_from (sk_core m) = kvs_from m"
  by (simp add: kvs_from_def fun_eq_iff)

lemma sk_core_cong:
  assumes "sk_core m' = sk_core m"
  shows "sk_ok cm m' = sk_ok cm m" "sk_map m' = sk_map m" "sk_entries m' = sk_entries m"
    "bucket_nodes m' = bucket_nodes m" "sk_bsz m' = sk_bsz m" "kvs_from m' = kvs_from m"
    "sk_cmap m' = sk_cmap m" "sk_count m' = sk_count m"
  by (metis assms sk_ok_core, metis assms sk_map_core, metis assms sk_entries_core,
      metis assms bucket_nodes_core, metis assms sk_core_sel(1), metis assms kvs_from_core,
      metis assms sk_core_sel(2), metis assms sk_core_sel(3))

lemma sk_core_bucket_upd:
  "sk_buck m i = Some b \<Longrightarrow> bl_core b' = bl_core b \<Longrightarrow>
   sk_core (m\<lparr>sk_buck := (sk_buck m)(i := Some b')\<rparr>) = sk_core m"
  by (auto simp: sk_core_def fun_eq_iff)

lemma sk_core_iter [simp]:
  "sk_core (m\<lparr>sk_iterating := x\<rparr>) = sk_core m" "sk_core (m\<lparr>sk_bit := y\<rparr>) = sk_core m"
  by (simp_all add: sk_core_def)

lemma kvs_from_Cons: "i < sk_bsz m \<Longrightarrow> kvs_from m i = map node_kv (bucket_nodes m i) @ kvs_from m (Suc i)"
  by (simp add: kvs_from_def upt_conv_Cons)

lemma kvs_from_end [simp]: "kvs_from m (sk_bsz m) = []"
  by (simp add: kvs_from_def)

lemma bucket_empty_iff:
  "(case sk_buck m i of None \<Rightarrow> True | Some b \<Rightarrow> lsi_bucklist_isempty b) \<longleftrightarrow> bucket_nodes m i = []"
  by (simp add: bucket_nodes_def lsi_bucklist_isempty_def split: option.split)

lemma skip_empty_props:
  "i \<le> sk_bsz m \<Longrightarrow> skip_empty m i \<le> sk_bsz m \<and> kvs_from m (skip_empty m i) = kvs_from m i \<and>
   (skip_empty m i < sk_bsz m \<longrightarrow> bucket_nodes m (skip_empty m i) \<noteq> [])"
proof (induction m i rule: skip_empty.induct)
  case (1 m i)
  show ?case
  proof (cases "i < sk_bsz m \<and> bucket_nodes m i = []")
    case True
    then have "skip_empty m i = skip_empty m (i + 1)"
      by (subst skip_empty.simps) (simp add: bucket_empty_iff)
    with True 1 show ?thesis by (simp add: bucket_empty_iff kvs_from_Cons)
  next
    case False
    then have "skip_empty m i = i" by (subst skip_empty.simps) (auto simp: bucket_empty_iff)
    with False 1 show ?thesis by auto
  qed
qed

lemma enter_bucket_end: "enter_bucket m (sk_bsz m) = (None, m\<lparr>sk_bit := sk_bsz m, sk_iterating := False\<rparr>)"
  by (simp add: enter_bucket_def)

lemma enter_bucket_nonempty:
  assumes "j < sk_bsz m" "bucket_nodes m j = n # vs"
  shows "\<exists>m'. enter_bucket m j = (Some (node_kv n), m') \<and> sk_core m' = sk_core m \<and>
    at_node (m'\<lparr>sk_iterating := True\<rparr>) j [] n vs \<and> sk_iterating m' = sk_iterating m"
proof -
  obtain b where b: "sk_buck m j = Some b" "bl_nodes b = n # vs"
    using assms(2) by (auto simp: bucket_nodes_def split: option.splits)
  let ?b = "b\<lparr>bl_previter := None, bl_iter := Some (pn_id n)\<rparr>"
  let ?m = "m\<lparr>sk_bit := j, sk_buck := (sk_buck m)(j := Some ?b)\<rparr>"
  have "enter_bucket m j = (Some (node_kv n), ?m)"
    using assms b by (simp add: enter_bucket_def lsi_bucklist_first_def node_kv_def)
  moreover have "sk_core ?m = sk_core m"
    using b by (auto simp: sk_core_def fun_eq_iff bl_core_def)
  ultimately show ?thesis using assms b by (simp add: at_node_def)
qed

lemma walk_next_complete:
  "sk_ok cm m \<Longrightarrow> at_node m i us n vs \<Longrightarrow>
   length (map node_kv vs @ kvs_from m (Suc i)) < fuel \<Longrightarrow>
   \<exists>m'. walk_next fuel (Some m) = Some (map node_kv vs @ kvs_from m (Suc i), Some m') \<and>
     sk_core m' = sk_core m \<and> \<not> sk_iterating m'"
proof (induction fuel arbitrary: m i us n vs)
  case 0
  then show ?case by simp
next
  case (Suc fuel)
  from Suc.prems(2) obtain b where b: "sk_iterating m" "sk_bit m = i" "i < sk_bsz m"
    "sk_buck m i = Some b" "bl_nodes b = us @ n # vs" "bl_iter b = Some (pn_id n)"
    by (auto simp: at_node_def)
  have bok: "bl_ok cm b" using sk_okD(4) [OF Suc.prems(1) b(3,4)] .
  show ?case
  proof (cases vs)
    case (Cons n' vs')
    let ?b = "b\<lparr>bl_previter := Some (pn_id n), bl_iter := Some (pn_id n')\<rparr>"
    let ?m = "m\<lparr>sk_buck := (sk_buck m)(i := Some ?b)\<rparr>"
    have nx: "lsi_skmap_next (Some m) = Some (Some (node_kv n'), Some ?m)"
      using bucklist_next_Cons [OF bok, of us n n' vs'] b Cons
      by (simp add: lsi_skmap_next_def node_kv_def)
    have core: "sk_core ?m = sk_core m" using sk_core_bucket_upd [OF b(4)] by simp
    have "at_node ?m i (us @ [n]) n' vs'" using b Cons by (simp add: at_node_def)
    from Suc.IH [OF _ this] sk_core_cong [OF core] Suc.prems Cons obtain m' where
      "walk_next fuel (Some ?m) = Some (map node_kv vs' @ kvs_from m (Suc i), Some m')"
      "sk_core m' = sk_core m" "\<not> sk_iterating m'" using core by auto
    with nx Cons show ?thesis by simp
  next
    case Nil
    have same: "m\<lparr>sk_buck := (sk_buck m)(sk_bit m := Some b)\<rparr> = m"
      using b by (simp add: fun_upd_idem)
    let ?j = "skip_empty m (Suc i)"
    have nx: "lsi_skmap_next (Some m) = (let (r2, m2) = enter_bucket m ?j in Some (r2, Some m2))"
      using bucklist_next_last [OF bok] b Nil same by (simp add: lsi_skmap_next_def)
    note j = skip_empty_props [of "Suc i" m]
    show ?thesis
    proof (cases "?j = sk_bsz m")
      case True
      with nx Nil j b(3) show ?thesis by (simp add: enter_bucket_end)
    next
      case False
      with j b(3) have jl: "?j < sk_bsz m" by simp
      with j b(3) obtain n' vs' where bn: "bucket_nodes m ?j = n' # vs'" by (cases "bucket_nodes m ?j") auto
      from enter_bucket_nonempty [OF jl bn] obtain m1 where
        m1: "enter_bucket m ?j = (Some (node_kv n'), m1)" "sk_core m1 = sk_core m"
          "at_node (m1\<lparr>sk_iterating := True\<rparr>) ?j [] n' vs'" "sk_iterating m1" using b(1) by auto
      have at: "at_node m1 ?j [] n' vs'" using m1(3,4) by (simp add: at_node_def)
      have rest: "kvs_from m (Suc i) = node_kv n' # map node_kv vs' @ kvs_from m (Suc ?j)"
        using j b(3) kvs_from_Cons [OF jl] bn by simp
      from Suc.IH [OF _ at] sk_core_cong [OF m1(2)] Suc.prems rest Nil obtain m' where
        "walk_next fuel (Some m1) = Some (map node_kv vs' @ kvs_from m (Suc ?j), Some m')"
        "sk_core m' = sk_core m" "\<not> sk_iterating m'" using m1(2) by auto
      with nx m1 rest Nil show ?thesis by simp
    qed
  qed
qed

lemma length_kvs_from: "length (kvs_from m 0) = node_total m"
  by (simp add: kvs_from_def node_total_def length_concat comp_def)

lemma skmap_walk_kvs:
  assumes ok: "sk_ok cm m"
  shows "\<exists>m'. skmap_walk (Some m) = Some (kvs_from m 0, Some m') \<and> sk_core m' = sk_core m \<and> \<not> sk_iterating m'"
proof (cases "skip_empty m 0 = sk_bsz m")
  case True
  with skip_empty_props [of 0 m] show ?thesis
    by (simp add: skmap_walk_def lsi_skmap_first_def enter_bucket_end)
next
  case False
  let ?j = "skip_empty m 0"
  from False skip_empty_props [of 0 m] have jl: "?j < sk_bsz m" by simp
  with skip_empty_props [of 0 m] obtain n vs where bn: "bucket_nodes m ?j = n # vs"
    by (cases "bucket_nodes m ?j") auto
  from enter_bucket_nonempty [OF jl bn] obtain m1 where
    m1: "enter_bucket m ?j = (Some (node_kv n), m1)" "sk_core m1 = sk_core m"
      "at_node (m1\<lparr>sk_iterating := True\<rparr>) ?j [] n vs" by auto
  let ?m = "m1\<lparr>sk_iterating := True\<rparr>"
  have core: "sk_core ?m = sk_core m" using m1(2) by simp
  have all: "kvs_from m 0 = node_kv n # map node_kv vs @ kvs_from m (Suc ?j)"
    using skip_empty_props [of 0 m] kvs_from_Cons [OF jl] bn by simp
  have "length (map node_kv vs @ kvs_from ?m (Suc ?j)) < node_total m"
    using length_kvs_from [of m] all sk_core_cong [OF core] by simp
  from walk_next_complete [OF _ m1(3) this] ok sk_core_cong [OF core] obtain m' where
    "walk_next (node_total m) (Some ?m) = Some (map node_kv vs @ kvs_from m (Suc ?j), Some m')"
    "sk_core m' = sk_core m" "\<not> sk_iterating m'" using core by auto
  with m1 False all show ?thesis by (simp add: skmap_walk_def lsi_skmap_first_def)
qed

lemma kvs_entries:
  assumes ok: "sk_ok cm m"
  shows "kvs_from m 0 = map (\<lambda>(k, v). (k, Some v)) (sk_entries m)"
proof -
  have "map node_kv (bucket_nodes m i) = map (\<lambda>n. (pn_key n, Some (the (pn_val n)))) (bucket_nodes m i)"
    if "i < sk_bsz m" for i
    using sk_okD(4) [OF ok that]
    by (cases "sk_buck m i") (force simp: bucket_nodes_def node_kv_def bl_ok_def)+
  then have eq: "map (\<lambda>i. map node_kv (bucket_nodes m i)) [0..< sk_bsz m] =
      map (\<lambda>i. map (\<lambda>n. (pn_key n, Some (the (pn_val n)))) (bucket_nodes m i)) [0..< sk_bsz m]"
    by simp
  show ?thesis
    unfolding kvs_from_def sk_entries_def eq by (simp add: map_concat comp_def)
qed

text \<open>The values met by the clients' loops, and that the loop changes nothing but the iterators.\<close>

lemma skmap_walk_total:
  assumes "sk_ok cm m"
  obtains m' where "skmap_walk (Some m) = Some (map (\<lambda>(k, v). (k, Some v)) (sk_entries m), Some m')"
    "sk_core m' = sk_core m" "\<not> sk_iterating m'"
  using skmap_walk_kvs [OF assms] kvs_entries [OF assms] by auto

end
