(* ===== verification/MapProps.thy ===== *)
theory MapProps
  imports Skmap
begin

text \<open>
  What the string primitives and the hash map promise to the rest of the library, stated over the
  functions the other files call.  A map is read through \<^const>\<open>sk_map\<close>, the partial function on
  canonical keys; \<^const>\<open>sk_ok\<close> is its invariant.  The examples are a map of 4 buckets under
  the RFC 1459 case mapping with one entry.
\<close>

definition sample_map :: "nat skmap" where
  "sample_map = the (fst (snd (lsi_skmap_put [] (fst (lsi_skmap_init [] 4 0)) (Some ''Nick[1]'') (Some 7))))"

lemma sample_map_put:
  "\<exists>m r m' orc. lsi_skmap_init [] 4 0 = (Some m, []) \<and> sk_ok (g_cmap 0) m \<and> sk_map m = Map.empty \<and>
     skmap_put [] m ''Nick[1]'' 7 = (r, m', orc) \<and> r \<and> sample_map = m'"
proof -
  obtain m :: "nat skmap" where m: "lsi_skmap_init [] 4 0 = (Some m, [])"
    using skmap_init_succeeds [of 4 0] by auto
  note ok = skmap_init_ok [OF m, simplified]
  obtain r m' orc where p: "skmap_put [] m ''Nick[1]'' 7 = (r, m', orc)" by (metis prod.collapse)
  with skmap_put_correct [OF ok(1) p] have "r" "sample_map = m'"
    by (auto simp: sample_map_def lsi_skmap_put_def m)
  with m ok p show ?thesis by blast
qed

lemma sample_map_ok: "sk_ok (g_cmap 0) sample_map"
  and sample_map_map: "sk_map sample_map = [cmkey (g_cmap 0) ''Nick[1]'' \<mapsto> 7]"
proof -
  from sample_map_put obtain m r m' orc where *: "sk_ok (g_cmap 0) m" "sk_map m = Map.empty"
    "skmap_put [] m ''Nick[1]'' (7::nat) = (r, m', orc)" "r" "sample_map = m'" by blast
  from skmap_put_correct [OF *(1,3)] * show "sk_ok (g_cmap 0) sample_map"
    "sk_map sample_map = [cmkey (g_cmap 0) ''Nick[1]'' \<mapsto> 7]" by simp_all
qed

lemma sample_keys [simp]:
  "cmkey (g_cmap 0) ''nICK{1}'' = cmkey (g_cmap 0) ''Nick[1]''"
  "cmkey (g_cmap 0) ''other'' \<noteq> cmkey (g_cmap 0) ''Nick[1]''"
  by code_simp+

text \<open>
  C31: \<open>lsi_skmap_put\<close> keeps the map well formed and either sets exactly the entry of the key (under
  its canonical form) or, when an allocation fails, changes nothing.
\<close>

theorem skmap_put_updates_map:
  assumes "sk_ok cm m"
  shows "\<exists>r m' orc'. lsi_skmap_put orc (Some m) (Some k) (Some v) = (r, Some m', orc') \<and> sk_ok cm m' \<and>
     (if r then sk_map m' = (sk_map m)(cmkey cm k \<mapsto> v) else m' = m) \<and> (orc = [] \<longrightarrow> r)"
proof -
  obtain r m' orc' where p: "skmap_put orc m k v = (r, m', orc')" by (metis prod.collapse)
  with skmap_put_correct [OF assms p] show ?thesis by (auto simp: lsi_skmap_put_def)
qed

theorem skmap_put_updates_map_witness:
  "\<exists>r m'. lsi_skmap_put [] (Some sample_map) (Some ''nICK{1}'') (Some 9) = (r, Some m', []) \<and> r \<and>
     sk_map m' = [cmkey (g_cmap 0) ''Nick[1]'' \<mapsto> 9]"
proof -
  from skmap_put_updates_map [OF sample_map_ok, of "[]" "''nICK{1}''" 9] obtain r m' orc' where
    p: "lsi_skmap_put [] (Some sample_map) (Some ''nICK{1}'') (Some 9) = (r, Some m', orc')" "r"
      "sk_map m' = [cmkey (g_cmap 0) ''Nick[1]'' \<mapsto> 9]" by (auto simp: sample_map_map)
  moreover have "orc' = []"
    using p(1) skmap_put_correct [OF sample_map_ok, of "[]" "''nICK{1}''" 9] by (auto simp: lsi_skmap_put_def split: prod.splits)
  ultimately show ?thesis by blast
qed

text \<open>
  \<open>lsi_skmap_del\<close> returns the value stored under the key, in any spelling, and removes exactly
  that entry; \<open>lsi_skmap_get\<close> reads it, and \<open>lsi_skmap_count\<close> counts the distinct keys.
\<close>

theorem skmap_del_removes_entry:
  assumes "sk_ok cm m"
  shows "\<exists>m'. lsi_skmap_del (Some m) k = (lsi_skmap_get (Some m) k, Some m') \<and> sk_ok cm m' \<and>
     lsi_skmap_get (Some m) k = sk_map m (cmkey cm k) \<and>
     sk_map m' = (sk_map m)(cmkey cm k := None) \<and> lsi_skmap_count (Some m') = card (dom (sk_map m'))"
proof -
  obtain e m' where d: "skmap_del m k = (e, m')" by fastforce
  with skmap_del_correct [OF assms d] sk_count_card [of cm m'] skmap_get_sk_map [OF assms] show ?thesis
    by (auto simp: lsi_skmap_del_def lsi_skmap_count_def lsi_skmap_get_def)
qed

theorem skmap_del_removes_entry_witness:
  "\<exists>m'. lsi_skmap_del (Some sample_map) ''nICK{1}'' = (Some 7, Some m') \<and> sk_map m' = Map.empty"
  using skmap_del_removes_entry [OF sample_map_ok, of "''nICK{1}''"] by (auto simp: sample_map_map)

text \<open>
  C32: The clients' iteration, \<open>lsi_skmap_first\<close> and then \<open>lsi_skmap_next\<close> until it gives nothing,
  ends, never follows a dangling iterator, meets every entry of the map exactly once and leaves the
  contents of the map as they were.
\<close>

theorem skmap_iteration_complete:
  assumes "sk_ok cm m"
  shows "\<exists>kvs m'. skmap_walk (Some m) = Some (kvs, Some m') \<and> distinct (map (\<lambda>kv. cmkey cm (fst kv)) kvs) \<and>
     (\<forall>q v. sk_map m q = Some v \<longleftrightarrow> (\<exists>k. (k, Some v) \<in> set kvs \<and> cmkey cm k = q)) \<and>
     sk_map m' = sk_map m \<and> sk_ok cm m' \<and> \<not> sk_iterating m'"
proof -
  obtain m' where m': "skmap_walk (Some m) = Some (map (\<lambda>(k, v). (k, Some v)) (sk_entries m), Some m')"
    "sk_core m' = sk_core m" "\<not> sk_iterating m'" using skmap_walk_total [OF assms] by blast
  have "map (\<lambda>kv. cmkey cm (fst kv)) (map (\<lambda>(k, v). (k, Some v)) (sk_entries m)) =
      map (\<lambda>e. cmkey cm (fst e)) (sk_entries m)" by (auto simp: split_beta)
  with distinct_sk_keys [OF assms]
  have "distinct (map (\<lambda>kv. cmkey cm (fst kv)) (map (\<lambda>(k, v). (k, Some v)) (sk_entries m)))" by metis
  moreover have "\<forall>q v. sk_map m q = Some v \<longleftrightarrow>
      (\<exists>k. (k, Some v) \<in> set (map (\<lambda>(k, v). (k, Some v)) (sk_entries m)) \<and> cmkey cm k = q)"
    using sk.kmap_Some_iff [OF assms] by force
  ultimately show ?thesis using m' sk_core_cong [OF m'(2)] assms by blast
qed

theorem skmap_iteration_complete_witness:
  "\<exists>kvs m'. skmap_walk (Some sample_map) = Some (kvs, Some m') \<and>
     (\<exists>k. (k, Some 7) \<in> set kvs \<and> cmkey (g_cmap 0) k = cmkey (g_cmap 0) ''Nick[1]'')"
proof -
  obtain kvs m' where *: "skmap_walk (Some sample_map) = Some (kvs, Some m')"
    "\<forall>q v. sk_map sample_map q = Some v \<longleftrightarrow> (\<exists>k. (k, Some v) \<in> set kvs \<and> cmkey (g_cmap 0) k = q)"
    using skmap_iteration_complete [OF sample_map_ok] by blast
  have "sk_map sample_map (cmkey (g_cmap 0) ''Nick[1]'') = Some 7" by (simp add: sample_map_map)
  with * show ?thesis by blast
qed

text \<open>
  Two keys that the bucket's comparison takes for equal always fall into the same bucket, whatever
  the hash function, so that a lookup cannot miss an entry stored under another spelling.
\<close>

theorem equal_keys_share_bucket:
  assumes "pfxeq k1 k2 (sk_cmap m)"
  shows "sk_ind m k1 = sk_ind m k2"
  using assms by (intro sk_ind_cong) (simp add: pfxeq_iff)

theorem equal_keys_share_bucket_witness: "sk_ind sample_map ''nICK{1}'' = sk_ind sample_map ''Nick[1]''"
proof (rule equal_keys_share_bucket)
  have "sk_cmap sample_map = g_cmap 0" by (rule sk_okD(1) [OF sample_map_ok])
  then show "pfxeq ''nICK{1}'' ''Nick[1]'' (sk_cmap sample_map)" by (simp add: pfxeq_iff)
qed

text \<open>
  Deleting through the iterator (\<open>lsi_skmap_del_iter\<close>) unlinks the node the iterator stands on but
  does not touch the count: afterwards \<open>lsi_skmap_count\<close> is one more than the number of entries.
\<close>

theorem skmap_del_iter_count_drifts:
  assumes "sk_ok cm m" "lsi_skmap_first (Some m) = (Some kv, Some m1)"
    "lsi_skmap_del_iter (Some m1) = Some (Some m2)"
  shows "lsi_skmap_count (Some m2) = node_total m2 + 1"
proof -
  let ?j = "skip_empty m 0"
  have jl: "?j < sk_bsz m"
    using assms(2) skip_empty_props [of 0 m] enter_bucket_end [of m]
    by (cases "?j = sk_bsz m") (auto simp: lsi_skmap_first_def Let_def)
  then obtain n vs where "bucket_nodes m ?j = n # vs"
    using skip_empty_props [of 0 m] by (cases "bucket_nodes m ?j") auto
  then obtain b where b: "sk_buck m ?j = Some b" "bl_nodes b = n # vs"
    by (auto simp: bucket_nodes_def split: option.splits)
  let ?b = "b\<lparr>bl_previter := None, bl_iter := Some (pn_id n)\<rparr>"
  have m1: "m1 = m\<lparr>sk_bit := ?j, sk_buck := (sk_buck m)(?j := Some ?b), sk_iterating := True\<rparr>"
    using assms(2) jl b by (auto simp: lsi_skmap_first_def Let_def enter_bucket_def lsi_bucklist_first_def)
  have "sk_core m1 = sk_core (m\<lparr>sk_buck := (sk_buck m)(?j := Some ?b)\<rparr>)" by (simp add: m1 sk_core_def)
  also have "\<dots> = sk_core m" by (rule sk_core_bucket_upd [OF b(1)]) simp
  finally have "sk_ok cm m1" using sk_core_cong(1) [of m1 m] assms(1) by simp
  then have bok: "bl_ok cm ?b" and tot: "sk_count m1 = node_total m1"
    using sk_okD [of cm m1] m1 jl by auto
  obtain b2 where b2: "lsi_bucklist_del_iter ?b = Some b2"
    "m2 = m1\<lparr>sk_buck := (sk_buck m1)(?j := Some b2)\<rparr>"
    using assms(3) m1 by (auto simp: lsi_skmap_del_iter_def)
  have "bl_nodes b2 = vs" using b b2(1) by (auto simp: lsi_bucklist_del_iter_def)
  moreover have "bucket_nodes m1 ?j = n # vs" using b m1 by (simp add: bucket_nodes_def)
  ultimately have "node_total m2 + 1 = node_total m1"
    using node_total_bucket [of ?j m1, where b = b2 and c = "sk_count m1"] jl m1 b2(2) by simp
  with tot b2(2) show ?thesis by (simp add: lsi_skmap_count_def)
qed

theorem skmap_del_iter_count_drifts_witness:
  "\<exists>m2. Option.bind (snd (lsi_skmap_first (Some sample_map))) (\<lambda>m1. lsi_skmap_del_iter (Some m1)) = Some (Some m2) \<and>
     lsi_skmap_count (Some m2) = node_total m2 + 1"
proof -
  let ?f = "lsi_skmap_first (Some sample_map)"
  have a: "(case ?f of (Some _, Some m1) \<Rightarrow>
      (case lsi_skmap_del_iter (Some m1) of Some (Some _) \<Rightarrow> True | _ \<Rightarrow> False) | _ \<Rightarrow> False)"
    by code_simp
  then obtain kv m1 m2 where "?f = (Some kv, Some m1)" "lsi_skmap_del_iter (Some m1) = Some (Some m2)"
    by (auto split: prod.splits option.splits)
  with skmap_del_iter_count_drifts [OF sample_map_ok this] show ?thesis by simp
qed

end
