(* ===== verification/Net.thy ===== *)
theory Net
  imports C_Prelude
begin

text \<open>
  The boundary to the operating system.  \<open>platform/base_time.c\<close> reads a clock and
  \<open>platform/base_net.c\<close> a socket; neither result is determined by the program, so a \<open>net\<close>
  holds the outcomes of the coming calls, in order: the clock values, what each read
  delivers, whether each write succeeds.  \<open>lsi_b_write\<close> sends everything or returns -1.
  \<open>nt_sys\<close> are the outcomes of the other calls (blocking mode, TLS setup) and \<open>nt_rand\<close> those
  of \<open>rand\<close>.  The model also logs what was written, which timeouts were passed down and
  which sockets were closed.
\<close>

type_synonym u8 = "8 word"
type_synonym u16 = "16 word"
type_synonym u64 = "64 word"

datatype rx_event =
    Rx_data string   \<comment> \<open>bytes that arrive; a read takes as many as it has room for\<close>
  | Rx_timeout
  | Rx_fail
  | Rx_eof

record net =
  nt_clk :: "u64 list"
  nt_rx :: "rx_event list"
  nt_wr :: "bool list"
  nt_tx :: "string list"
  nt_to :: "u64 list"
  nt_sys :: "bool list"
  nt_closed :: "int list"
  nt_rand :: "nat list"

text \<open>Once the list of clock values is used up the clock stands still at 0.\<close>

definition lsi_b_tstamp_us :: "net \<Rightarrow> u64 \<times> net" where
  "lsi_b_tstamp_us w =
     (case nt_clk w of [] \<Rightarrow> (0, w) | t # ts \<Rightarrow> (t, w\<lparr>nt_clk := ts\<rparr>))"

text \<open>
  The return values of \<open>lsi_b_read\<close>: a positive number of bytes, 0 on timeout, -1 on failure,
  -2 at the end of the stream (also when the events are used up, and when nothing was read).
\<close>

definition lsi_b_read :: "nat \<Rightarrow> u64 \<Rightarrow> net \<Rightarrow> int \<times> string \<times> net" where
  "lsi_b_read sz to_us w0 =
     (let w = w0\<lparr>nt_to := nt_to w0 @ [to_us]\<rparr> in
      case nt_rx w of
        [] \<Rightarrow> (-2, [], w)
      | Rx_data d # es \<Rightarrow>
          (let rest = drop sz d in
           ((if take sz d = [] then -2 else int (length (take sz d))), take sz d,
            w\<lparr>nt_rx := (if rest = [] then es else Rx_data rest # es)\<rparr>))
      | Rx_timeout # es \<Rightarrow> (0, [], w\<lparr>nt_rx := es\<rparr>)
      | Rx_fail # es \<Rightarrow> (-1, [], w\<lparr>nt_rx := es\<rparr>)
      | Rx_eof # es \<Rightarrow> (-2, [], w\<lparr>nt_rx := es\<rparr>))"

definition lsi_b_write :: "string \<Rightarrow> net \<Rightarrow> int \<times> net" where
  "lsi_b_write buf w =
     (let (ok, wr') = malloc (nt_wr w) in
      if buf = [] then (0, w)
      else if ok then (int (length buf), w\<lparr>nt_wr := wr', nt_tx := nt_tx w @ [buf]\<rparr>)
      else (-1, w\<lparr>nt_wr := wr'\<rparr>))"

text \<open>The TLS variants differ in the library they call, not in what they promise.\<close>

definition lsi_b_read_ssl :: "nat \<Rightarrow> u64 \<Rightarrow> net \<Rightarrow> int \<times> string \<times> net" where
  "lsi_b_read_ssl = lsi_b_read"

definition lsi_b_write_ssl :: "string \<Rightarrow> net \<Rightarrow> int \<times> net" where
  "lsi_b_write_ssl = lsi_b_write"

definition sys_call :: "net \<Rightarrow> bool \<times> net" where
  "sys_call w = (let (ok, rest) = malloc (nt_sys w) in (ok, w\<lparr>nt_sys := rest\<rparr>))"

definition lsi_b_close :: "int \<Rightarrow> net \<Rightarrow> net" where
  "lsi_b_close sck w = w\<lparr>nt_closed := nt_closed w @ [sck]\<rparr>"

definition c_rand :: "net \<Rightarrow> nat \<times> net" where
  "c_rand w = (case nt_rand w of [] \<Rightarrow> (0, w) | r # rs \<Rightarrow> (r, w\<lparr>nt_rand := rs\<rparr>))"

lemma lsi_b_read_bound: "lsi_b_read sz to_us w = (n, d, w') \<Longrightarrow> 0 < n \<Longrightarrow> n = int (length d) \<and> length d \<le> sz"
  by (auto simp: lsi_b_read_def Let_def split: list.splits rx_event.splits if_splits)

end
