(* ===== verification/Common.thy ===== *)
theory Common
  imports Net BaseString
begin

text \<open>
  The routines of \<open>libsrsirc/common.c\<close> that have nothing to do with IRC: counting and
  splitting characters in place, timeouts, owned string fields, host types, base64 and the
  connection loop over the addresses of a host.
\<close>

section \<open>Strings\<close>

fun lsi_com_strCchr :: "string \<Rightarrow> char \<Rightarrow> nat" where
  "lsi_com_strCchr [] c = 0"
| "lsi_com_strCchr (x # str) c = (if x = c then 1 + lsi_com_strCchr str c else lsi_com_strCchr str c)"

text \<open>\<open>lsi_com_next_tok\<close>, in place: walk to the delimiter, overwrite the delimiters with NUL.\<close>

function tok_end :: "char list \<Rightarrow> nat \<Rightarrow> char \<Rightarrow> nat option" where
  "tok_end buf p delim =
     (if p < length buf
      then if buf ! p \<noteq> NUL \<and> buf ! p \<noteq> delim then tok_end buf (p + 1) delim else Some p
      else None)"
  by pat_completeness auto
termination
  by (relation "measure (\<lambda>(buf, p, delim). length buf - p)") auto

function zero_delims :: "char list \<Rightarrow> nat \<Rightarrow> char \<Rightarrow> (char list \<times> nat) option" where
  "zero_delims buf p delim =
     (if p < length buf
      then if buf ! p = delim then zero_delims (buf[p := NUL]) (p + 1) delim else Some (buf, p)
      else None)"
  by pat_completeness auto
termination
  by (relation "measure (\<lambda>(buf, p, delim). length buf - p)") auto

declare tok_end.simps [simp del] zero_delims.simps [simp del]

text \<open>The buffer afterwards and the offset of the next token, None for NULL.\<close>

definition lsi_com_next_tok :: "char list \<Rightarrow> nat \<Rightarrow> char \<Rightarrow> (char list \<times> nat option) option" where
  "lsi_com_next_tok buf p delim = do {
     q \<leftarrow> tok_end buf p delim;
     if buf ! q = NUL then Some (buf, None)
     else do {
       (buf', r) \<leftarrow> zero_delims buf q delim;
       if buf' ! r = NUL then Some (buf', None) else Some (buf', Some r) } }"

section \<open>Timeouts\<close>

definition lsi_com_check_timeout :: "u64 \<Rightarrow> net \<Rightarrow> bool \<times> u64 \<times> net" where
  "lsi_com_check_timeout tend w =
     (if tend = 0 then (False, 0, w)
      else let (now, w') = lsi_b_tstamp_us w in
        if tend \<le> now then (True, 0, w') else (False, tend - now, w'))"

section \<open>Owned strings\<close>

definition lsi_com_update_strprop ::
  "mallocs \<Rightarrow> string option \<Rightarrow> string option \<Rightarrow> bool \<times> string option \<times> mallocs" where
  "lsi_com_update_strprop orc field val =
     (case val of
        None \<Rightarrow> (True, None, orc)
      | Some v \<Rightarrow>
          (case lsi_b_strdup orc v of
             (None, orc') \<Rightarrow> (False, field, orc')
           | (Some n, orc') \<Rightarrow> (True, Some n, orc')))"

section \<open>Host types\<close>

datatype hosttypes = HOSTTYPE_IPV4 | HOSTTYPE_IPV6 | HOSTTYPE_DNS

fun hosttype_loop :: "string \<Rightarrow> nat \<Rightarrow> hosttypes" where
  "hosttype_loop [] dc = (if dc = 3 then HOSTTYPE_IPV4 else HOSTTYPE_DNS)"
| "hosttype_loop (c # host) dc =
     (if c = CHR ''.'' then hosttype_loop host (dc + 1)
      else if \<not> isdigit c then HOSTTYPE_DNS
      else hosttype_loop host dc)"

definition lsi_com_guess_hosttype :: "string \<Rightarrow> hosttypes" where
  "lsi_com_guess_hosttype host =
     (if strchr host (CHR ''['') \<noteq> None then HOSTTYPE_IPV6 else hosttype_loop host 0)"

section \<open>Base64\<close>

definition b64_alpha :: string where
  "b64_alpha = ''ABCDEFGHIJKLMNOPQRSTUVWXYZabcdefghijklmnopqrstuvwxyz0123456789+/''"

text \<open>\<open>intrip\<close> has between one and three bytes; the missing ones count as 0.\<close>

definition b64_core :: "u8 list \<Rightarrow> string" where
  "b64_core intrip =
     (let t = (\<lambda>i. if i < length intrip then intrip ! i else 0);
          q = [drop_bit 2 (t 0),
               push_bit 4 (t 0 AND 0x03) OR drop_bit 4 (t 1 AND 0xf0),
               push_bit 2 (t 1 AND 0x0f) OR drop_bit 6 (t 2 AND 0xc0),
               t 2 AND 0x3f];
          nquad = length intrip + 1
      in map (\<lambda>i. if i < nquad then b64_alpha ! unat (q ! i) else CHR ''='') [0, 1, 2, 3])"

fun b64_loop :: "u8 list \<Rightarrow> string" where
  "b64_loop [] = []"
| "b64_loop [a] = b64_core [a]"
| "b64_loop [a, b] = b64_core [a, b]"
| "b64_loop (a # b # c # rest) = b64_core [a, b, c] @ b64_loop rest"

text \<open>The length returned and what is written to \<open>dest\<close>; the result is not NUL-terminated.\<close>

definition lsi_com_base64 :: "nat \<Rightarrow> u8 list \<Rightarrow> nat \<times> string" where
  "lsi_com_base64 destsz input =
     (let reslen = ((length input + 2) div 3) * 4 in
      if destsz \<le> reslen then (0, []) else (reslen, b64_loop input))"

section \<open>Connecting a socket\<close>

text \<open>
  One address of a host, with the outcomes of the system calls \<open>tryhost\<close> makes on it: the
  socket (-1 for none), the result of \<open>connect\<close> (1 done, 0 pending, -1 failed), of \<open>select\<close> and
  whether the socket is then without error.  That the socket cannot be made non-blocking is
  only logged.  A local address that cannot be bound ends the process (the macro \<open>C\<close> calls
  \<open>exit\<close>): the model covers the runs in which \<open>bind\<close> succeeds or is not called.
\<close>

record addr_try =
  at_addrstr :: string
  at_port :: u16
  at_sck :: int
  at_connect :: int
  at_select :: "u64 \<Rightarrow> int"
  at_ok :: bool

text \<open>
  \<open>tryhost\<close> gives the socket and, when the \<open>select\<close> path succeeded, the address and port it
  wrote to \<open>remaddr\<close> and \<open>peerport\<close>.  (A connection that completes at once leaves both unset.)
\<close>

definition tryhost :: "addr_try \<Rightarrow> nat \<Rightarrow> u64 \<Rightarrow> net \<Rightarrow> int \<times> (string \<times> u16) option \<times> net" where
  "tryhost ai remaddr_sz to_us w =
     (if at_sck ai = -1 then (-1, None, w)
      else if at_connect ai = 1 then (at_sck ai, None, w)
      else if at_connect ai = -1 then (-1, None, lsi_b_close (at_sck ai) w)
      else if at_select ai to_us = 1 \<and> at_ok ai
        then (at_sck ai, Some (ncpy remaddr_sz (at_addrstr ai), at_port ai), w)
      else (-1, None, lsi_b_close (at_sck ai) w))"

text \<open>
  The loop of \<open>lsi_com_consocket\<close>.  On a hard timeout the code says \<open>return false\<close>: the
  function returns the number 0, which callers take for a socket.
\<close>

fun consocket_loop :: "addr_try list \<Rightarrow> nat \<Rightarrow> u64 \<Rightarrow> u64 \<Rightarrow> int \<Rightarrow> net \<Rightarrow> int \<times> (string \<times> u16) option \<times> net" where
  "consocket_loop [] remaddr_sz softto hardtend sck w = (sck, None, w)"
| "consocket_loop (ai # rest) remaddr_sz softto hardtend sck w =
     (let (hit, trem, w') = lsi_com_check_timeout hardtend w in
      if hit then (0, None, w')
      else let trem' = (if softto < trem then softto else trem);
               (sck', peer, w2) = tryhost ai remaddr_sz trem' w'
        in if sck' \<noteq> -1 then (sck', peer, w2)
           else consocket_loop rest remaddr_sz softto hardtend sck' w2)"

text \<open>\<open>alist\<close> is what \<open>lsi_b_mkaddrlist\<close> resolved the host to.\<close>

definition lsi_com_consocket ::
  "addr_try list \<Rightarrow> nat \<Rightarrow> u64 \<Rightarrow> u64 \<Rightarrow> net \<Rightarrow> int \<times> (string \<times> u16) option \<times> net" where
  "lsi_com_consocket alist remaddr_sz softto hardto w =
     (let (hardtend, w1) = (if hardto \<noteq> 0 then let (t, w1) = lsi_b_tstamp_us w in (t + hardto, w1) else (0, w));
          count = of_nat (length alist) :: u64
      in if alist = [] then (-1, None, w1)
         else let softto' = (if softto \<noteq> 0 \<and> hardto \<noteq> 0 \<and> softto * count < hardto
                             then hardto div count else softto)
           in consocket_loop alist remaddr_sz softto' hardtend (-1) w1)"

section \<open>Lemmas: in-place tokens\<close>

lemma tok_end_spec:
  assumes "cstr_ok s"
  shows "tok_end (pre @ s @ NUL # post) (length pre) d =
    Some (length pre + length (takeWhile (\<lambda>c. c \<noteq> d) s))"
  using assms
proof (induction s arbitrary: pre)
  case Nil
  then show ?case by (subst tok_end.simps) simp
next
  case (Cons c s)
  show ?case
  proof (cases "c = d")
    case True
    then show ?thesis by (subst tok_end.simps) simp
  next
    case False
    have "tok_end ((pre @ [c]) @ s @ NUL # post) (length (pre @ [c])) d =
        Some (length (pre @ [c]) + length (takeWhile (\<lambda>c. c \<noteq> d) s))"
      by (rule Cons.IH) (use Cons.prems in simp)
    with False Cons.prems show ?thesis by (subst tok_end.simps) (simp add: nth_append)
  qed
qed

lemma zero_delims_spec:
  assumes "d \<noteq> NUL" "hdz s \<noteq> d"
  shows "zero_delims (pre @ replicate n d @ s @ NUL # post) (length pre) d =
    Some (pre @ replicate n NUL @ s @ NUL # post, length pre + n)"
proof (induction n arbitrary: pre)
  case 0
  have "(pre @ s @ NUL # post) ! length pre = hdz s" by (cases s) auto
  with assms show ?case by (subst zero_delims.simps) simp
next
  case (Suc n)
  have "zero_delims ((pre @ [NUL]) @ replicate n d @ s @ NUL # post) (length (pre @ [NUL])) d =
      Some ((pre @ [NUL]) @ replicate n NUL @ s @ NUL # post, length (pre @ [NUL]) + n)"
    by (rule Suc.IH)
  then show ?case by (subst zero_delims.simps) (simp add: list_update_append)
qed

text \<open>The string-level view of a token: what precedes the delimiters and what follows them.\<close>

definition tok_rest :: "char \<Rightarrow> string \<Rightarrow> string" where
  "tok_rest d s = dropWhile (\<lambda>c. c = d) (dropWhile (\<lambda>c. c \<noteq> d) s)"

definition tok_word :: "char \<Rightarrow> string \<Rightarrow> string" where
  "tok_word d s = takeWhile (\<lambda>c. c \<noteq> d) s"

definition tok_gap :: "char \<Rightarrow> string \<Rightarrow> nat" where
  "tok_gap d s = length (takeWhile (\<lambda>c. c = d) (dropWhile (\<lambda>c. c \<noteq> d) s))"

lemma takeWhile_append_dropWhile_replicate:
  "replicate (length (takeWhile (\<lambda>c. c = d) s)) d @ dropWhile (\<lambda>c. c = d) s = s"
  by (induction s) auto

lemma tok_split: "s = tok_word d s @ replicate (tok_gap d s) d @ tok_rest d s"
  unfolding tok_word_def tok_gap_def tok_rest_def takeWhile_append_dropWhile_replicate
  by (rule takeWhile_dropWhile_id [symmetric])

lemma hdz_tok_rest: "d \<noteq> NUL \<Longrightarrow> hdz (tok_rest d s) \<noteq> d"
  unfolding tok_rest_def by (metis (mono_tags) dropWhile_eq_Cons_conv hdz_simps neq_Nil_conv)

lemma tok_gap_0: "tok_gap d s = 0 \<Longrightarrow> tok_rest d s = []"
proof -
  assume a: "tok_gap d s = 0"
  show ?thesis
  proof (cases "dropWhile (\<lambda>c. c \<noteq> d) s")
    case Nil
    then show ?thesis unfolding tok_rest_def by (simp only: dropWhile.simps)
  next
    case (Cons x xs)
    then have "x = d" by (metis (mono_tags, lifting) dropWhile_eq_Cons_conv)
    with a Cons show ?thesis by (simp add: tok_gap_def)
  qed
qed

lemma length_tok_rest_less: "tok_rest d s \<noteq> [] \<Longrightarrow> length (tok_rest d s) < length s"
proof -
  assume a: "tok_rest d s \<noteq> []"
  then have "tok_gap d s \<noteq> 0" using tok_gap_0 by blast
  then show ?thesis
    using arg_cong [OF tok_split [of s d], of length] by simp
qed

lemma cstr_ok_tok [simp]: "cstr_ok s \<Longrightarrow> cstr_ok (tok_word d s)" "cstr_ok s \<Longrightarrow> cstr_ok (tok_rest d s)"
  by (auto simp: cstr_ok_def tok_word_def tok_rest_def dest: set_takeWhileD set_dropWhileD)

lemma next_tok_spec:
  assumes "cstr_ok s" "d \<noteq> NUL"
  shows "lsi_com_next_tok (pre @ s @ NUL # post) (length pre) d =
    Some (pre @ tok_word d s @ replicate (tok_gap d s) NUL @ tok_rest d s @ NUL # post,
          if tok_rest d s = [] then None else Some (length pre + length (tok_word d s) + tok_gap d s))"
proof -
  let ?w = "tok_word d s" and ?g = "tok_gap d s" and ?r = "tok_rest d s"
  let ?buf = "pre @ s @ NUL # post"
  have te: "tok_end ?buf (length pre) d = Some (length pre + length ?w)"
    using tok_end_spec [OF assms(1)] by (simp add: tok_word_def)
  have buf: "?buf = (pre @ ?w) @ replicate ?g d @ ?r @ NUL # post"
    by (subst tok_split [of s d]) simp
  show ?thesis
  proof (cases "?g = 0")
    case True
    then have r: "?r = []" by (rule tok_gap_0)
    have "?buf ! (length pre + length ?w) = NUL"
      unfolding buf using True r by simp
    with te True r buf show ?thesis by (simp add: lsi_com_next_tok_def)
  next
    case False
    have c: "?buf ! (length pre + length ?w) = d"
      unfolding buf using False by (simp add: nth_append)
    have z: "zero_delims ?buf (length pre + length ?w) d =
        Some ((pre @ ?w) @ replicate ?g NUL @ ?r @ NUL # post, length pre + length ?w + ?g)"
      using zero_delims_spec [OF assms(2) hdz_tok_rest [OF assms(2), of s], of "pre @ ?w" ?g post]
      unfolding buf by simp
    have n: "((pre @ ?w) @ replicate ?g NUL @ ?r @ NUL # post) ! (length pre + length ?w + ?g) = hdz ?r"
      by (cases ?r) (auto simp: nth_append)
    have "hdz ?r = NUL \<longleftrightarrow> ?r = []"
      using cstr_ok_tok(2) [OF assms(1), of d] by (cases ?r) auto
    with te c z n assms(2) show ?thesis
      by (simp add: lsi_com_next_tok_def)
  qed
qed

end
