(* ===== verification/Intdefs.thy ===== *)
theory Intdefs
  imports Skmap Common
begin

text \<open>
  The data of \<open>libsrsirc/intdefs.h\<close> and \<open>libsrsirc/ucbase.h\<close>: the context of a connection
  with everything the library knows about it, and the heap of users, channels and
  memberships that the tracking code allocates.  Pointers to these are addresses (natural
  numbers); the cell of freed memory is None, so that using it is an error of the model.

  A handler is named by a constructor of \<open>hnd_fn\<close> (the theories of the handlers say what each
  does); the callbacks of the user are numbers, their behaviour is a parameter.
\<close>

type_synonym addr = nat
type_synonym tokarr = "string option list"

definition TOKARR_SZ :: nat where "TOKARR_SZ = 18"

section \<open>Sizes\<close>

definition WORKBUF_SZ :: nat where "WORKBUF_SZ = 4095"
definition DEF_UMODES :: string where "DEF_UMODES = ''iswo''"
definition DEF_CMODES :: string where "DEF_CMODES = ''opsitnml''"
definition MAX_NICK_LEN :: nat where "MAX_NICK_LEN = 64"
definition MAX_UNAME_LEN :: nat where "MAX_UNAME_LEN = 64"
definition MAX_HOST_LEN :: nat where "MAX_HOST_LEN = 128"
definition MAX_UMODES_LEN :: nat where "MAX_UMODES_LEN = 64"
definition MAX_CMODES_LEN :: nat where "MAX_CMODES_LEN = 64"
definition MAX_VER_LEN :: nat where "MAX_VER_LEN = 128"
definition MAX_005_CHMD :: nat where "MAX_005_CHMD = 64"
definition MAX_005_MDPFX :: nat where "MAX_005_MDPFX = 32"
definition MAX_005_CHTYP :: nat where "MAX_005_CHTYP = 16"
definition MAX_CHAN_LEN :: nat where "MAX_CHAN_LEN = 256"
definition MAX_MODEPFX :: nat where "MAX_MODEPFX = 8"
definition MAX_V3TAGS :: nat where "MAX_V3TAGS = 16"
definition MAX_V3CAPS :: nat where "MAX_V3CAPS = 16"
definition MAX_V3TAGLEN :: nat where "MAX_V3TAGLEN = 512"
definition MAX_V3CAPLEN :: nat where "MAX_V3CAPLEN = 128"
definition MAX_V3CAPLINE :: nat where "MAX_V3CAPLINE = 512"

lemmas size_defs = TOKARR_SZ_def WORKBUF_SZ_def MAX_NICK_LEN_def MAX_UNAME_LEN_def
  MAX_HOST_LEN_def MAX_UMODES_LEN_def MAX_CMODES_LEN_def MAX_VER_LEN_def MAX_005_CHMD_def
  MAX_005_MDPFX_def MAX_005_CHTYP_def MAX_CHAN_LEN_def MAX_MODEPFX_def MAX_V3TAGS_def
  MAX_V3CAPS_def MAX_V3TAGLEN_def MAX_V3CAPLEN_def MAX_V3CAPLINE_def

section \<open>Flags returned by message handlers\<close>

text \<open>\<open>libsrsirc/msg.h\<close>\<close>

definition CANT_PROCEED :: u16 where "CANT_PROCEED = 0x1"
definition OUT_OF_NICKS :: u16 where "OUT_OF_NICKS = 0x3"
definition AUTH_ERR :: u16 where "AUTH_ERR = 0x5"
definition PROTO_ERR :: u16 where "PROTO_ERR = 0x9"
definition IO_ERR :: u16 where "IO_ERR = 0x11"
definition ALLOC_ERR :: u16 where "ALLOC_ERR = 0x21"
definition USER_ERR :: u16 where "USER_ERR = 0x41"
definition SASL_ERR :: u16 where "SASL_ERR = 0x81"
definition CAP_ERR :: u16 where "CAP_ERR = 0x101"
definition LOGON_COMPLETE :: u16 where "LOGON_COMPLETE = 0x200"
definition SASL_COMPLETE :: u16 where "SASL_COMPLETE = 0x400"
definition MORE_CAPS :: u16 where "MORE_CAPS = 0x800"
definition STARTTLS_OVER :: u16 where "STARTTLS_OVER = 0x1000"

lemmas flag_defs = CANT_PROCEED_def OUT_OF_NICKS_def AUTH_ERR_def PROTO_ERR_def IO_ERR_def
  ALLOC_ERR_def USER_ERR_def SASL_ERR_def CAP_ERR_def LOGON_COMPLETE_def SASL_COMPLETE_def
  MORE_CAPS_def STARTTLS_OVER_def

text \<open>\<open>r & f\<close> as a condition\<close>

definition has_flag :: "u16 \<Rightarrow> u16 \<Rightarrow> bool" where
  "has_flag r f \<longleftrightarrow> r AND f \<noteq> 0"

section \<open>Connections\<close>

record readctx =
  rx_workbuf :: "char list"
  rx_wptr :: nat
  rx_eptr :: nat

text \<open>Two pointers of the code, \<open>laddr\<close> and \<open>chans\<close>, can be left pointing at freed memory.\<close>

datatype 'a ownedptr = Null | Ptr 'a | Freed

record iconn =
  co_host :: string
  co_port :: u16
  co_laddr :: "string ownedptr"
  co_lport :: u16
  co_phost :: "string option"
  co_pport :: u16
  co_ptype :: int
  co_sck :: int
  co_shnd :: bool
  co_online :: bool
  co_eof :: bool
  co_rctx :: readctx
  co_colon_trail :: bool
  co_ssl :: bool
  co_sctx :: bool

section \<open>Handlers\<close>

datatype hnd_fn =
    H_PING | H_bad_nick | H_464 | H_core_NICK | H_ERROR | H_core_MODE | H_001 | H_002 | H_003
  | H_004 | H_383 | H_484 | H_465 | H_466 | H_005
  | H_670 | H_691 | H_903 | H_saslerr | H_CAP | H_AUTHENTICATE
  | H_JOIN | H_311 | H_332 | H_333 | H_353 | H_352 | H_366 | H_PART | H_QUIT | H_NICK | H_KICK
  | H_MODE | H_PRIVMSG | H_NOTICE | H_324 | H_TOPIC

record msghnd =
  mh_cmd :: string
  mh_hndfn :: hnd_fn
  mh_module :: string

record umsghnd =
  uh_cmd :: string
  uh_hndfn :: nat

datatype mut_nick_fn = Mut_nick_default | Mut_nick_user nat

section \<open>IRCv3\<close>

record v3cap =
  vc_name :: string
  vc_adddata :: string
  vc_musthave :: bool
  vc_offered :: bool
  vc_enabled :: bool

type_synonym v3tag = "string \<times> string option"

section \<open>Users, channels, memberships\<close>

record user =
  us_nick :: string
  us_uname :: "string option"
  us_host :: "string option"
  us_fname :: "string option"
  us_nchans :: nat
  us_tag :: nat
  us_freetag :: bool

record memb =
  mb_u :: addr
  mb_modepfx :: string

record chan =
  ch_name :: string
  ch_topic :: "string option"
  ch_topicnick :: "string option"
  ch_tscreate :: u64
  ch_tstopic :: u64
  ch_memb :: "addr skmap option"
  ch_desync :: bool
  ch_modes :: "string option list"
  ch_tag :: nat
  ch_freetag :: bool

text \<open>
  The heap also logs the user's tags that were freed and holds the outcomes of the coming
  allocations.
\<close>

record heap =
  hp_users :: "addr \<Rightarrow> user option"
  hp_chans :: "addr \<Rightarrow> chan option"
  hp_membs :: "addr \<Rightarrow> memb option"
  hp_next :: addr
  hp_tags :: "nat list"
  hp_alloc :: mallocs

section \<open>The context\<close>

record irc =
  ic_mynick :: string
  ic_myhost :: string
  ic_service :: bool
  ic_cmodes :: string
  ic_umodes :: string
  ic_myumodes :: string
  ic_ver :: string
  ic_lasterr :: "string option"
  ic_restricted :: bool
  ic_banned :: bool
  ic_banmsg :: "string option"
  ic_casemap :: nat
  ic_logonconv :: "tokarr option list"
  ic_m005chanmodes :: "string list"
  ic_m005modepfx :: "string \<times> string"
  ic_m005chantypes :: string
  ic_m005attrs :: "string skmap option"
  ic_v3tags_raw :: "string option list"
  ic_v3ntags :: nat
  ic_v3tags_dec :: "string list"
  ic_v3tags :: "v3tag list"
  ic_v3caps :: "v3cap option list"
  ic_v3capreq :: string
  ic_starttls :: bool
  ic_starttls_first :: bool
  ic_pass :: "string option"
  ic_nick :: "string option"
  ic_uname :: "string option"
  ic_fname :: "string option"
  ic_sasl_mech :: "string option"
  ic_sasl_msg :: "string option"
  ic_conflags :: u8
  ic_serv_con :: bool
  ic_serv_dist :: "string option"
  ic_serv_type :: int
  ic_serv_info :: "string option"
  ic_hcto_us :: u64
  ic_scto_us :: u64
  ic_tracking :: bool
  ic_dumb :: bool
  ic_cb_con_read :: "nat option"
  ic_cb_mut_nick :: "mut_nick_fn option"
  ic_uprehnds :: "umsghnd list"
  ic_uposthnds :: "umsghnd list"
  ic_msghnds :: "msghnd list"
  ic_chans :: "addr skmap ownedptr"
  ic_users :: "addr skmap option"
  ic_tracking_enab :: bool
  ic_endofnames :: bool
  ic_con :: iconn

section \<open>The state of the program\<close>

record st =
  st_irc :: irc
  st_hp :: heap
  st_net :: net

text \<open>One call of \<open>lsi_b_malloc\<close>, and one of \<open>STRDUP\<close>.\<close>

definition st_malloc :: "st \<Rightarrow> bool \<times> st" where
  "st_malloc s = (let (ok, orc) = malloc (hp_alloc (st_hp s)) in (ok, s\<lparr>st_hp := (st_hp s)\<lparr>hp_alloc := orc\<rparr>\<rparr>))"

definition st_strdup :: "string \<Rightarrow> st \<Rightarrow> string option \<times> st" where
  "st_strdup x s = (let (ok, s') = st_malloc s in ((if ok then Some x else None), s'))"

text \<open>\<open>lsi_com_update_strprop\<close> on a field of the state\<close>

definition st_strprop :: "string option \<Rightarrow> string option \<Rightarrow> st \<Rightarrow> bool \<times> string option \<times> st" where
  "st_strprop field val s =
     (let (ok, f', orc) = lsi_com_update_strprop (hp_alloc (st_hp s)) field val
      in (ok, f', s\<lparr>st_hp := (st_hp s)\<lparr>hp_alloc := orc\<rparr>\<rparr>))"

end
