(* ===== verification/Px.thy ===== *)
theory Px
  imports Common
begin

text \<open>
  The proxy logons of \<open>libsrsirc/px.c\<close>: HTTP CONNECT, SOCKS4 and SOCKS5.  The buffers are
  lists of characters and every write into them is checked, because two of the read loops
  pass the address of the array plus a multiple of the array's size to the read call.
  \<open>inet_addr\<close> and \<open>inet_pton\<close> belong to the C library: they are parameters that give the
  bytes of an address in network order.
\<close>

section \<open>Proxy types\<close>

definition IRCPX_HTTP :: int where "IRCPX_HTTP = 0"
definition IRCPX_SOCKS4 :: int where "IRCPX_SOCKS4 = 1"
definition IRCPX_SOCKS5 :: int where "IRCPX_SOCKS5 = 2"

lemmas ircpx_defs = IRCPX_HTTP_def IRCPX_SOCKS4_def IRCPX_SOCKS5_def

definition lsi_px_typenum :: "string \<Rightarrow> int" where
  "lsi_px_typenum typestr =
     (if lsi_b_strcasecmp typestr ''socks4'' = 0 then IRCPX_SOCKS4
      else if lsi_b_strcasecmp typestr ''socks5'' = 0 then IRCPX_SOCKS5
      else if lsi_b_strcasecmp typestr ''http'' = 0 then IRCPX_HTTP
      else -1)"

definition lsi_px_typestr :: "int \<Rightarrow> string" where
  "lsi_px_typestr typenum =
     (if typenum = IRCPX_HTTP then ''HTTP''
      else if typenum = IRCPX_SOCKS4 then ''SOCKS4''
      else if typenum = IRCPX_SOCKS5 then ''SOCKS5'' else ''unknown'')"

section \<open>Shared steps\<close>

lemma byte_slack: "l + byte c - n < 1000 + l"
  using byte_less [of c] by linarith

text \<open>Decimal digits, as printed by \<open>%d\<close> and \<open>%u\<close>.\<close>

fun dec :: "nat \<Rightarrow> string" where
  "dec n = (if n < 10 then [chr (48 + n)] else dec (n div 10) @ [chr (48 + n mod 10)])"

declare dec.simps [simp del]

definition htons_bytes :: "u16 \<Rightarrow> string" where
  "htons_bytes port = [chr (unat port div 256), chr (unat port mod 256)]"

text \<open>The time left for the next read; an expired deadline leaves one microsecond.\<close>

definition px_trem :: "u64 \<Rightarrow> u64 \<Rightarrow> net \<Rightarrow> u64 \<times> net" where
  "px_trem tend trem w =
     (if tend \<noteq> 0 then
        let (tnow, w') = lsi_b_tstamp_us w in ((if tend \<le> tnow then 1 else tend - tnow), w')
      else (trem, w))"

definition px_tend :: "u64 \<Rightarrow> net \<Rightarrow> u64 \<times> net" where
  "px_tend to_us w =
     (if to_us \<noteq> 0 then let (t, w') = lsi_b_tstamp_us w in (t + to_us, w') else (0, w))"

text \<open>\<open>lsi_b_read (sck, buf + off, n, to)\<close> into a buffer: None if the bytes do not fit.\<close>

fun wr_bytes :: "char list \<Rightarrow> nat \<Rightarrow> string \<Rightarrow> char list option" where
  "wr_bytes buf off [] = Some buf"
| "wr_bytes buf off (c # cs) = do { buf' \<leftarrow> wr buf off c; wr_bytes buf' (off + 1) cs }"

text \<open>
  A read loop: until \<open>l\<close> bytes have come, read at most \<open>l - c\<close> more and store them at
  \<open>stride * c\<close>.  \<open>resp + c\<close> has stride 1; \<open>&resp + c\<close> has the size of the array as stride.
  None is a write out of the array; the inner None a failed read.
\<close>

function px_read_loop ::
  "nat \<Rightarrow> char list \<Rightarrow> nat \<Rightarrow> nat \<Rightarrow> u64 \<Rightarrow> u64 \<Rightarrow> net \<Rightarrow> (char list option \<times> u64 \<times> net) option" where
  "px_read_loop stride resp c l tend trem w =
     (if c < l then
        let (trem1, w1) = px_trem tend trem w;
            (n, d, w2) = lsi_b_read (l - c) trem1 w1
        in if n \<le> 0 then Some (None, trem1, w2)
           else (case wr_bytes resp (stride * c) d of
                   None \<Rightarrow> None
                 | Some resp' \<Rightarrow> px_read_loop stride resp' (c + nat n) l tend trem1 w2)
      else Some (Some resp, trem, w))"
  by pat_completeness auto
termination
  by (relation "measure (\<lambda>(stride, resp, c, l, tend, trem, w). l - c)") auto

declare px_read_loop.simps [simp del]

section \<open>HTTP\<close>

definition http_done :: "char list \<Rightarrow> nat \<Rightarrow> bool" where
  "http_done buf c \<longleftrightarrow> 4 \<le> c \<and> buf ! (c - 4) = CHR 0x0D \<and> buf ! (c - 3) = CHR 0x0A \<and>
     buf ! (c - 2) = CHR 0x0D \<and> buf ! (c - 1) = CHR 0x0A"

function http_read_loop ::
  "char list \<Rightarrow> nat \<Rightarrow> u64 \<Rightarrow> u64 \<Rightarrow> net \<Rightarrow> char list option \<times> net" where
  "http_read_loop buf c tend trem w =
     (if c < length buf \<and> \<not> http_done buf c then
        let (trem1, w1) = px_trem tend trem w;
            (n, d, w2) = lsi_b_read 1 trem1 w1
        in if n \<le> 0 then (None, w2)
           else http_read_loop (buf[c := hd d]) (c + 1) tend trem1 w2
      else (Some buf, w))"
  by pat_completeness auto
termination
  by (relation "measure (\<lambda>(buf, c, tend, trem, w). length buf - c)") auto

declare http_read_loop.simps [simp del]

text \<open>\<open>strchr\<close> and \<open>strncmp\<close> on a buffer that need not contain a NUL\<close>

function buf_strchr :: "char list \<Rightarrow> nat \<Rightarrow> char \<Rightarrow> nat option option" where
  "buf_strchr buf i c =
     (if i < length buf then
        if buf ! i = c then Some (Some i)
        else if buf ! i = NUL then Some None
        else buf_strchr buf (i + 1) c
      else None)"
  by pat_completeness auto
termination
  by (relation "measure (\<lambda>(buf, i, c). length buf - i)") auto

declare buf_strchr.simps [simp del]

fun buf_strneq :: "char list \<Rightarrow> nat \<Rightarrow> string \<Rightarrow> bool option" where
  "buf_strneq buf i [] = Some True"
| "buf_strneq buf i (x # xs) = do {
     c \<leftarrow> rd buf i;
     if c = x then buf_strneq buf (i + 1) xs else Some False }"

definition lsi_px_logon_http :: "string \<Rightarrow> u16 \<Rightarrow> u64 \<Rightarrow> net \<Rightarrow> (bool \<times> net) option" where
  "lsi_px_logon_http host port to_us w =
     (let (tend, w1) = px_tend to_us w;
          p = dec (unat port);
          req = ncpy 256 (''CONNECT '' @ host @ '':'' @ p @ '' HTTP/1.0'' @ [CHR 0x0D, CHR 0x0A] @
                  ''Host: '' @ host @ '':'' @ p @ [CHR 0x0D, CHR 0x0A, CHR 0x0D, CHR 0x0A]);
          (n, w2) = lsi_b_write req w1
      in if n \<le> -1 then Some (False, w2)
         else if n < int (length req) then Some (False, w2)
         else (case http_read_loop (replicate 256 NUL) 0 tend 0 w2 of
                 (None, w3) \<Rightarrow> Some (False, w3)
               | (Some buf, w3) \<Rightarrow> do {
                   sp \<leftarrow> buf_strchr buf 0 (CHR '' '');
                   case sp of
                     None \<Rightarrow> Some (False, w3)
                   | Some i \<Rightarrow> do { eq \<leftarrow> buf_strneq buf (i + 1) ''200''; Some (eq, w3) } }))"

section \<open>SOCKS4\<close>

fun rand_name :: "nat \<Rightarrow> net \<Rightarrow> string \<times> net" where
  "rand_name 0 w = ([], w)"
| "rand_name (Suc n) w =
     (let (r, w1) = c_rand w; (rest, w2) = rand_name n w1 in (chr (r mod 26 + 97) # rest, w2))"

definition socks4_request :: "(string \<Rightarrow> string) \<Rightarrow> string \<Rightarrow> u16 \<Rightarrow> string \<Rightarrow> string" where
  "socks4_request inet_addr host port name =
     [chr 4, chr 1] @ htons_bytes port @ inet_addr host @ name @ [NUL]"

definition lsi_px_logon_socks4 ::
  "(string \<Rightarrow> string) \<Rightarrow> string \<Rightarrow> u16 \<Rightarrow> u64 \<Rightarrow> net \<Rightarrow> (bool \<times> net) option" where
  "lsi_px_logon_socks4 inet_addr host port to_us w =
     (let (tend, w1) = px_tend to_us w;
          (name, w2) = rand_name 5 w1;
          logon = socks4_request inet_addr host port name;
          (n, w3) = lsi_b_write logon w2
      in if n \<le> -1 then Some (False, w3)
         else if n < int (length logon) then Some (False, w3)
         else do {
           (r, _, w4) \<leftarrow> px_read_loop 8 (replicate 8 NUL) 0 8 tend 0 w3;
           case r of
             None \<Rightarrow> Some (False, w4)
           | Some resp \<Rightarrow> Some (byte (resp ! 0) = 0 \<and> byte (resp ! 1) = 0x5a, w4) })"

section \<open>SOCKS5\<close>

text \<open>
  The connect request, built in \<open>conbuf[128]\<close>: the contents so far and the write position.
  For an IPv4 address four bytes are stored but the position moves by sixteen.
\<close>

definition socks5_conbuf ::
  "(string \<Rightarrow> string option) \<Rightarrow> (string \<Rightarrow> string option) \<Rightarrow> char list \<Rightarrow> string \<Rightarrow>
   (char list \<times> nat) option option" where
  "socks5_conbuf inet4 inet6 conbuf host = do {
     b1 \<leftarrow> wr_bytes conbuf 0 [chr 5, chr 1, chr 0];
     case lsi_com_guess_hosttype host of
       HOSTTYPE_IPV4 \<Rightarrow> do {
         b2 \<leftarrow> wr_bytes b1 3 [chr 1];
         case inet4 host of
           None \<Rightarrow> Some None
         | Some a \<Rightarrow> do { b3 \<leftarrow> wr_bytes b2 4 (take 4 a); Some (Some (b3, 4 + 16)) } }
     | HOSTTYPE_IPV6 \<Rightarrow> do {
         b2 \<leftarrow> wr_bytes b1 3 [chr 4];
         case inet6 host of
           None \<Rightarrow> Some None
         | Some a \<Rightarrow> do { b3 \<leftarrow> wr_bytes b2 4 (take 16 a); Some (Some (b3, 4 + 16)) } }
     | HOSTTYPE_DNS \<Rightarrow> do {
         b2 \<leftarrow> wr_bytes b1 3 ([chr 3, chr (length host mod 256)] @ host);
         Some (Some (b2, 5 + length host)) } }"

text \<open>
  The reply's address: \<open>l\<close> bytes of it and two for the port; the first byte is read on its
  own and, for a name, is the name's length.
\<close>

function socks5_addr_loop ::
  "char list \<Rightarrow> nat \<Rightarrow> nat \<Rightarrow> bool \<Rightarrow> u64 \<Rightarrow> u64 \<Rightarrow> net \<Rightarrow> (bool \<times> net) option" where
  "socks5_addr_loop resp c l dns tend trem w =
     (if c < l then
        let (trem1, w1) = px_trem tend trem w;
            (n, d, w2) = lsi_b_read (if c \<noteq> 0 then l - c else 1) trem1 w1
        in if n \<le> 0 then Some (False, w2)
           else (case wr_bytes resp c d of
                   None \<Rightarrow> None
                 | Some resp' \<Rightarrow>
                     socks5_addr_loop resp' (c + nat n)
                       (if c = 0 \<and> dns then l + byte (resp' ! 0) else l) dns tend trem1 w2)
      else Some (True, w))"
  by pat_completeness auto
termination
  by (relation "measure (\<lambda>(resp, c, l, dns, tend, trem, w). if c = 0 then 1000 + l else l - c)")
    (auto simp: byte_slack)

declare socks5_addr_loop.simps [simp del]

definition lsi_px_logon_socks5 ::
  "(string \<Rightarrow> string option) \<Rightarrow> (string \<Rightarrow> string option) \<Rightarrow> char list \<Rightarrow>
   string \<Rightarrow> u16 \<Rightarrow> u64 \<Rightarrow> net \<Rightarrow> (bool \<times> net) option" where
  "lsi_px_logon_socks5 inet4 inet6 conbuf0 host port to_us w =
     (let (tend, w1) = px_tend to_us w in
      if port = 0 then Some (False, w1)
      else let logon = [chr 5, chr 1, chr 0]; (n, w2) = lsi_b_write logon w1 in
        if n \<le> -1 then Some (False, w2)
        else if n < int (length logon) then Some (False, w2)
        else do {
          (r1, trem3, w3) \<leftarrow> px_read_loop 128 (replicate 128 NUL) 0 2 tend 0 w2;
          case r1 of
            None \<Rightarrow> Some (False, w3)
          | Some resp \<Rightarrow>
              if byte (resp ! 0) \<noteq> 5 then Some (False, w3)
              else if byte (resp ! 1) \<noteq> 0 then Some (False, w3)
              else do {
                cb \<leftarrow> socks5_conbuf inet4 inet6 conbuf0 host;
                case cb of
                  None \<Rightarrow> Some (False, w3)
                | Some (conbuf, c) \<Rightarrow> do {
                    conbuf' \<leftarrow> wr_bytes conbuf c (htons_bytes port);
                    let (n2, w4) = lsi_b_write (take (c + 2) conbuf') w3 in
                    if n2 \<le> -1 then Some (False, w4)
                    else if n2 < int (c + 2) then Some (False, w4)
                    else do {
                      (r2, trem5, w5) \<leftarrow> px_read_loop 1 resp 0 4 tend trem3 w4;
                      case r2 of
                        None \<Rightarrow> Some (False, w5)
                      | Some resp2 \<Rightarrow>
                          if byte (resp2 ! 0) \<noteq> 5 \<or> byte (resp2 ! 1) \<noteq> 0 then Some (False, w5)
                          else if byte (resp2 ! 3) = 1
                            then socks5_addr_loop resp2 0 (4 + 2) False tend trem5 w5
                          else if byte (resp2 ! 3) = 4
                            then socks5_addr_loop resp2 0 (16 + 2) False tend trem5 w5
                          else if byte (resp2 ! 3) = 3
                            then socks5_addr_loop resp2 0 (1 + 2) True tend trem5 w5
                          else Some (False, w5) } } } })"

end
