(* ===== verification/Util.thy ===== *)
theory Util
  imports Intdefs Px
begin

text \<open>
  \<open>libsrsirc/util.c\<close>: taking a prefix apart, comparing names under a case mapping, parsing
  host and proxy specifications, splitting protocol lines and putting them together again,
  and parsing MODE messages.  Results that the code writes into an array of the caller
  (by \<open>lsi_b_strNcpy\<close>, \<open>lsi_b_strNcat\<close> or \<open>snprintf\<close>) are the strings the array then holds.
\<close>

section \<open>Prefixes\<close>

text \<open>Cutting a string at the first occurrence of a character\<close>

definition cut_at :: "char \<Rightarrow> string \<Rightarrow> string" where
  "cut_at c s = (case strchr s c of None \<Rightarrow> s | Some i \<Rightarrow> take i s)"

definition lsi_ut_ident2nick :: "string \<Rightarrow> nat \<Rightarrow> string \<Rightarrow> string" where
  "lsi_ut_ident2nick dest dest_sz pfx =
     (if dest_sz = 0 then dest
      else cut_at (CHR ''!'') (cut_at (CHR ''@'') (ncpy dest_sz pfx)))"

definition lsi_ut_ident2uname :: "string \<Rightarrow> nat \<Rightarrow> string \<Rightarrow> string" where
  "lsi_ut_ident2uname dest dest_sz pfx =
     (if dest_sz = 0 then dest
      else let d = cut_at (CHR ''@'') (ncpy dest_sz pfx) in
        case strchr d (CHR ''!'') of Some i \<Rightarrow> drop (i + 1) d | None \<Rightarrow> [])"

definition lsi_ut_ident2host :: "string \<Rightarrow> nat \<Rightarrow> string \<Rightarrow> string" where
  "lsi_ut_ident2host dest dest_sz pfx =
     (if dest_sz = 0 then dest
      else let d = ncpy dest_sz pfx in
        case strchr d (CHR ''@'') of Some i \<Rightarrow> drop (i + 1) d | None \<Rightarrow> [])"

section \<open>Case mapping\<close>

definition tolower_rangeinc :: "nat \<Rightarrow> int" where
  "tolower_rangeinc casemap =
     (if casemap = CMAP_RFC1459 then 4 else if casemap = CMAP_STRICT_RFC1459 then 3 else 0)"

definition lsi_ut_tolower :: "char \<Rightarrow> nat \<Rightarrow> char" where
  "lsi_ut_tolower c casemap =
     (if schar (CHR ''A'') \<le> schar c \<and> schar c \<le> schar (CHR ''Z'') + tolower_rangeinc casemap
      then chr (byte c + 32) else c)"

fun istrncmp_loop :: "string \<Rightarrow> string \<Rightarrow> nat \<Rightarrow> nat \<Rightarrow> int" where
  "istrncmp_loop (x # n1) (y # n2) (Suc len) casemap =
     (let c1 = lsi_ut_tolower x casemap; c2 = lsi_ut_tolower y casemap in
      if c1 \<noteq> c2 then schar c1 - schar c2 else istrncmp_loop n1 n2 len casemap)"
| "istrncmp_loop n1 n2 0 casemap = 0"
| "istrncmp_loop (x # n1) [] (Suc len) casemap = 1"
| "istrncmp_loop [] (y # n2) (Suc len) casemap = -1"
| "istrncmp_loop [] [] (Suc len) casemap = 0"

definition lsi_ut_istrncmp :: "string \<Rightarrow> string \<Rightarrow> nat \<Rightarrow> nat \<Rightarrow> int" where
  "lsi_ut_istrncmp n1 n2 len casemap = (if len = 0 then 0 else istrncmp_loop n1 n2 len casemap)"

definition lsi_ut_istrcmp :: "string \<Rightarrow> string \<Rightarrow> nat \<Rightarrow> int" where
  "lsi_ut_istrcmp n1 n2 casemap =
     lsi_ut_istrncmp n1 n2 ((if length n1 < length n2 then length n1 else length n2) + 1) casemap"

text \<open>
  \<open>lsi_ut_strtolower\<close> on the array \<open>dest\<close>.  The loop's counter is never advanced, so the
  only end of the loop is the end of the string.
\<close>

fun strtolower_loop :: "char list \<Rightarrow> nat \<Rightarrow> string \<Rightarrow> nat \<Rightarrow> char list option" where
  "strtolower_loop dest ptr [] casemap = wr dest ptr NUL"
| "strtolower_loop dest ptr (c # str) casemap = do {
     dest' \<leftarrow> wr dest ptr (lsi_ut_tolower c casemap);
     strtolower_loop dest' (ptr + 1) str casemap }"

definition lsi_ut_strtolower :: "char list \<Rightarrow> nat \<Rightarrow> string \<Rightarrow> nat \<Rightarrow> char list option" where
  "lsi_ut_strtolower dest destsz str casemap =
     (if destsz = 0 then None
      else do {
        dest' \<leftarrow> strtolower_loop dest 0 str casemap;
        wr dest' (destsz - 1) NUL })"

definition lsi_ut_casemap_nam :: "nat \<Rightarrow> string" where
  "lsi_ut_casemap_nam cm =
     (if cm = CMAP_RFC1459 then ''RFC1459''
      else if cm = CMAP_STRICT_RFC1459 then ''STRICT_RFC1459''
      else if cm = CMAP_ASCII then ''ASCII'' else ''UNKNOWN'')"

section \<open>Hosts and proxies\<close>

text \<open>
  \<open>strtoul\<close> and \<open>strtoull\<close> to base 10: white space, a sign, digits; the result saturates at
  the largest 64-bit number and a minus sign negates modulo \<open>2 ^ 64\<close>.
\<close>

definition isspace :: "char \<Rightarrow> bool" where
  "isspace c \<longleftrightarrow> byte c = 32 \<or> (9 \<le> byte c \<and> byte c \<le> 13)"

definition strtoul10 :: "string \<Rightarrow> nat" where
  "strtoul10 s =
     (let t = dropWhile isspace s;
          r = (if hdz t = CHR ''-'' \<or> hdz t = CHR ''+'' then drop 1 t else t);
          v = digits_val r 0
      in if 2 ^ 64 \<le> v then 2 ^ 64 - 1
         else if hdz t = CHR ''-'' then (2 ^ 64 - v) mod 2 ^ 64 else v)"

definition find_ssl :: "string \<Rightarrow> nat option" where
  "find_ssl s = (case strstr s ''/ssl'' of Some i \<Rightarrow> Some i | None \<Rightarrow> strstr s ''/SSL'')"

text \<open>The host, the port and the SSL flag.\<close>

definition lsi_ut_parse_hostspec :: "nat \<Rightarrow> string \<Rightarrow> string \<times> u16 \<times> bool" where
  "lsi_ut_parse_hostspec hoststr_sz hostspec =
     (let h0 = ncpy hoststr_sz (if hdz hostspec = CHR ''['' then drop 1 hostspec else hostspec);
          (h1, ssl) = (case find_ssl h0 of
                         Some i \<Rightarrow> if i + 4 = length h0 then (take i h0, True) else (h0, False)
                       | None \<Rightarrow> (h0, False))
      in case strchr h1 (CHR '']'') of
           None \<Rightarrow>
             (case strchr h1 (CHR '':'') of
                Some i \<Rightarrow> (take i h1, of_nat (strtoul10 (drop (i + 1) h1)), ssl)
              | None \<Rightarrow> (h1, 0, ssl))
         | Some j \<Rightarrow>
             (let rest = drop (j + 1) h1 in
              case strchr rest (CHR '':'') of
                Some i \<Rightarrow> (take j h1, of_nat (strtoul10 (drop (i + 1) rest)), ssl)
              | None \<Rightarrow> (take j h1, 0, ssl)))"

text \<open>The proxy type, host and port; None when the specification is refused.\<close>

definition lsi_ut_parse_pxspec :: "nat \<Rightarrow> string \<Rightarrow> (int \<times> string \<times> u16) option" where
  "lsi_ut_parse_pxspec hoststr_sz pxspec =
     (let linebuf = ncpy 128 pxspec in
      case strchr linebuf (CHR '':'') of
        None \<Rightarrow> None
      | Some i \<Rightarrow>
          (let num = (if i < 7 then i else 6);
               p = lsi_px_typenum (ncpy (num + 1) linebuf)
           in if p = -1 then None
              else let (host, port, ssl) = lsi_ut_parse_hostspec hoststr_sz (drop (i + 1) linebuf)
                in Some (p, host, port)))"

section \<open>Messages\<close>

text \<open>A field of the message array; reading past its end gives no field.\<close>

definition tk :: "tokarr \<Rightarrow> nat \<Rightarrow> string option" where
  "tk msg i = (if i < length msg then msg ! i else None)"

text \<open>The number of fields, counting from the first argument: \<open>ac\<close> and \<open>nargs\<close> of the code.\<close>

fun count_args :: "string option list \<Rightarrow> nat" where
  "count_args (Some _ # r) = Suc (count_args r)"
| "count_args _ = 0"

definition msg_ac :: "tokarr \<Rightarrow> nat" where
  "msg_ac msg = 2 + count_args (drop 2 msg)"

fun snrcmsg_loop :: "nat \<Rightarrow> string \<Rightarrow> string option list \<Rightarrow> bool \<Rightarrow> string" where
  "snrcmsg_loop destsz dest (Some a # r) coltr =
     (let d1 = ncat destsz dest '' '';
          d2 = (if (case r of Some _ # _ \<Rightarrow> False | _ \<Rightarrow> True) \<and> (coltr \<or> strchr a (CHR '' '') \<noteq> None)
                then ncat destsz d1 '':'' else d1)
      in snrcmsg_loop destsz (ncat destsz d2 a) r coltr)"
| "snrcmsg_loop destsz dest _ coltr = dest"

text \<open>None: the message has no command, which the code would read as a string.\<close>

definition lsi_ut_snrcmsg :: "nat \<Rightarrow> tokarr \<Rightarrow> bool \<Rightarrow> string option" where
  "lsi_ut_snrcmsg destsz msg coltr = do {
     cmd \<leftarrow> tk msg 1;
     let d0 = ncpy destsz (case tk msg 0 of Some p \<Rightarrow> '':'' @ p @ '' '' @ cmd | None \<Rightarrow> cmd);
     Some (ncat destsz (snrcmsg_loop destsz d0 (drop 2 msg) coltr) [CHR 0x0D, CHR 0x0A]) }"

fun sndumpmsg_loop :: "nat \<Rightarrow> string \<Rightarrow> string option list \<Rightarrow> string" where
  "sndumpmsg_loop destsz dest (Some a # r) =
     sndumpmsg_loop destsz (ncat destsz (ncat destsz (ncat destsz dest [CHR '' '', CHR 0x27]) a) [CHR 0x27]) r"
| "sndumpmsg_loop destsz dest _ = dest"

text \<open>\<open>ptr\<close> is how \<open>%p\<close> prints the tag; \<open>%s\<close> prints a NULL pointer as \<open>(null)\<close>.\<close>

definition lsi_ut_sndumpmsg :: "nat \<Rightarrow> string \<Rightarrow> tokarr \<Rightarrow> string" where
  "lsi_ut_sndumpmsg dest_sz ptr msg =
     (let nul = (\<lambda>s. case s of Some x \<Rightarrow> x | None \<Rightarrow> ''(null)'');
          q = [CHR 0x27]
      in sndumpmsg_loop dest_sz
           (ncpy dest_sz (''('' @ ptr @ '') '' @ q @ nul (tk msg 0) @ q @ '' '' @ q @ nul (tk msg 1) @ q))
           (drop 2 msg))"

section \<open>MODE messages\<close>

fun classify_loop :: "string list \<Rightarrow> nat \<Rightarrow> char \<Rightarrow> nat" where
  "classify_loop [] z c = 0"
| "classify_loop (cm # cms) z c = (if strchr cm c \<noteq> None then z + 1 else classify_loop cms (z + 1) c)"

definition lsi_ut_classify_chanmode :: "irc \<Rightarrow> char \<Rightarrow> nat" where
  "lsi_ut_classify_chanmode ctx c = classify_loop (take 4 (ic_m005chanmodes ctx)) 0 c"

text \<open>One argument of the message: \<open>i >= ac ? "*" : (*msg)[i++]\<close>\<close>

definition mode_arg :: "tokarr \<Rightarrow> nat \<Rightarrow> nat \<Rightarrow> (string \<times> nat) option" where
  "mode_arg msg ac i =
     (if ac \<le> i then Some (''*'', i) else do { a \<leftarrow> tk msg i; Some (a, i + 1) })"

text \<open>
  What one mode letter takes: an argument or none (the inner None), or the letter is
  unknown and skipped.
\<close>

datatype mode_step = Mode_skip | Mode_take "string option" nat

definition mode_step :: "irc \<Rightarrow> tokarr \<Rightarrow> nat \<Rightarrow> nat \<Rightarrow> bool \<Rightarrow> char \<Rightarrow> mode_step option" where
  "mode_step ctx msg ac i enable c =
     (let cl = lsi_ut_classify_chanmode ctx c;
          arg = do { (a, i') \<leftarrow> mode_arg msg ac i; Some (Mode_take (Some a) i') };
          noarg = Some (Mode_take None i)
      in if cl = 1 \<or> cl = 2 then arg
         else if cl = 3 then (if enable then arg else noarg)
         else if cl = 4 then noarg
         else if strchr (fst (ic_m005modepfx ctx)) c \<noteq> None then arg
         else Some Mode_skip)"

definition mode_entry :: "bool \<Rightarrow> char \<Rightarrow> string option \<Rightarrow> string" where
  "mode_entry enable c arg =
     (if enable then CHR ''+'' else CHR ''-'') # c # (case arg of Some a \<Rightarrow> CHR '' '' # a | None \<Rightarrow> [])"

fun parse_MODE_loop ::
  "irc \<Rightarrow> tokarr \<Rightarrow> nat \<Rightarrow> string \<Rightarrow> nat \<Rightarrow> bool \<Rightarrow> string list \<Rightarrow> mallocs \<Rightarrow>
   (string list option \<times> mallocs) option" where
  "parse_MODE_loop ctx msg ac [] i enable modearr orc = Some (Some modearr, orc)"
| "parse_MODE_loop ctx msg ac (c # ptr) i enable modearr orc =
     (if c = CHR ''+'' then parse_MODE_loop ctx msg ac ptr i True modearr orc
      else if c = CHR ''-'' then parse_MODE_loop ctx msg ac ptr i False modearr orc
      else do {
        st \<leftarrow> mode_step ctx msg ac i enable c;
        case st of
          Mode_skip \<Rightarrow> parse_MODE_loop ctx msg ac ptr i enable modearr orc
        | Mode_take arg i' \<Rightarrow>
            (let (ok, orc') = malloc orc in
             if \<not> ok then Some (None, orc')
             else parse_MODE_loop ctx msg ac ptr i' enable (modearr @ [mode_entry enable c arg]) orc') })"

definition lsi_ut_parse_MODE :: "irc \<Rightarrow> tokarr \<Rightarrow> bool \<Rightarrow> mallocs \<Rightarrow> (string list option \<times> mallocs) option" where
  "lsi_ut_parse_MODE ctx msg is324 orc = do {
     let k = (if is324 then 1 else 0);
     m \<leftarrow> tk msg (3 + k);
     case lsi_b_strdup orc m of
       (None, orc1) \<Rightarrow> Some (None, orc1)
     | (Some modes, orc1) \<Rightarrow>
         (let (ok, orc2) = malloc orc1 in
          if \<not> ok then Some (None, orc2)
          else parse_MODE_loop ctx msg (msg_ac msg) modes (4 + k) True [] orc2) }"

section \<open>Nicknames and copies of messages\<close>

text \<open>The default reaction to a nickname that is taken, on an array of \<open>nick_sz\<close> characters.\<close>

definition lsi_ut_mut_nick :: "string \<Rightarrow> nat \<Rightarrow> net \<Rightarrow> (string \<times> net) option" where
  "lsi_ut_mut_nick nick nick_sz w =
     (let len = length nick in
      if len < 9 then (if nick_sz < len + 2 then None else Some (nick @ ''_'', w))
      else let l = nick ! (len - 1) in
        if l = CHR ''9'' then
          (let (r1, w1) = c_rand w; (r2, w2) = c_rand w1
           in Some (nick[r1 mod (len - 1) + 1 := chr (48 + r2 mod 10)], w2))
        else if isdigit l then Some (nick[len - 1 := chr (byte l + 1)], w)
        else Some (nick[len - 1 := CHR ''0''], w))"

text \<open>
  When a copy fails the array is freed with \<open>lsi_ut_freearr\<close>, its remaining elements not yet
  set: undefined unless the failing element is the last one.
\<close>

fun clone_loop :: "string option list \<Rightarrow> string option list \<Rightarrow> mallocs \<Rightarrow> (tokarr option \<times> mallocs) option" where
  "clone_loop [] res orc = Some (Some res, orc)"
| "clone_loop (None # r) res orc = clone_loop r (res @ [None]) orc"
| "clone_loop (Some s # r) res orc =
     (case lsi_b_strdup orc s of
        (None, orc') \<Rightarrow> if r = [] then Some (None, orc') else None
      | (Some s', orc') \<Rightarrow> clone_loop r (res @ [Some s']) orc')"

definition lsi_ut_clonearr :: "tokarr \<Rightarrow> mallocs \<Rightarrow> (tokarr option \<times> mallocs) option" where
  "lsi_ut_clonearr arr orc =
     (let (ok, orc') = malloc orc in if \<not> ok then Some (None, orc') else clone_loop arr [] orc')"

section \<open>Splitting a line\<close>

text \<open>
  Tokens are offsets into the receive buffer; \<open>tok_strs\<close> reads them as strings.
\<close>

definition tok_strs :: "char list \<Rightarrow> nat option list \<Rightarrow> tokarr" where
  "tok_strs buf offs = map (map_option (cstr_at buf)) offs"

fun tokenize_args :: "nat \<Rightarrow> char list \<Rightarrow> nat \<Rightarrow> (char list \<times> nat list) option" where
  "tokenize_args 0 buf p = Some (buf, [])"
| "tokenize_args (Suc n) buf p = do {
     (buf', nx) \<leftarrow> lsi_com_next_tok buf p (CHR '' '');
     case nx of
       None \<Rightarrow> Some (buf', [])
     | Some q \<Rightarrow> do {
         c \<leftarrow> rd buf' q;
         if c = CHR '':'' then Some (buf', [q + 1])
         else do { (buf'', r) \<leftarrow> tokenize_args n buf' q; Some (buf'', q # r) } } }"

definition tok_pad :: "nat option list \<Rightarrow> nat option list" where
  "tok_pad offs = offs @ replicate (TOKARR_SZ - length offs) None"

definition lsi_ut_tokenize :: "char list \<Rightarrow> nat \<Rightarrow> (bool \<times> char list \<times> nat option list) option" where
  "lsi_ut_tokenize buf p = do {
     c \<leftarrow> rd buf p;
     if c = CHR '':'' then do {
       (buf', nx) \<leftarrow> lsi_com_next_tok buf p (CHR '' '');
       case nx of
         None \<Rightarrow> Some (False, buf', tok_pad [Some (p + 1)])
       | Some q \<Rightarrow> do {
           (buf'', args) \<leftarrow> tokenize_args (TOKARR_SZ - 2) buf' q;
           Some (True, buf'', tok_pad (Some (p + 1) # Some q # map Some args)) } }
     else if c = CHR '' '' then Some (False, buf, tok_pad [])
     else if c = NUL then Some (False, buf, tok_pad [])
     else do {
       (buf'', args) \<leftarrow> tokenize_args (TOKARR_SZ - 2) buf p;
       Some (True, buf'', tok_pad (None # Some p # map Some args)) } }"

fun extract_loop :: "nat \<Rightarrow> char list \<Rightarrow> nat \<Rightarrow> nat \<Rightarrow> nat list \<Rightarrow> (char list \<times> nat list) option" where
  "extract_loop 0 buf line destmax dest = None"
| "extract_loop (Suc fuel) buf line destmax dest = do {
     let dest' = (if length dest < destmax then dest @ [line] else dest);
     (buf', nx) \<leftarrow> lsi_com_next_tok buf line (CHR '';'');
     case nx of None \<Rightarrow> Some (buf', dest') | Some q \<Rightarrow> extract_loop fuel buf' q destmax dest' }"

text \<open>The buffer, the tags stored, and where the message starts (None for NULL).\<close>

definition lsi_ut_extract_tags ::
  "char list \<Rightarrow> nat \<Rightarrow> nat \<Rightarrow> (char list \<times> nat list \<times> nat option) option" where
  "lsi_ut_extract_tags buf line destmax =
     (case strchr (cstr_at buf line) (CHR '' '') of
        None \<Rightarrow> Some (buf, [], None)
      | Some i \<Rightarrow> do {
          buf' \<leftarrow> wr buf (line + i) NUL;
          (buf'', dest) \<leftarrow> extract_loop (length buf) buf' line destmax [];
          Some (buf'', dest, Some (line + i + 1)) })"

section \<open>Channels, SASL\<close>

definition lsi_ut_ischan :: "irc \<Rightarrow> string option \<Rightarrow> bool" where
  "lsi_ut_ischan ctx str =
     (case str of None \<Rightarrow> False | Some s \<Rightarrow> strchr (ic_m005chantypes ctx) (hdz s) \<noteq> None)"

text \<open>The blob written to \<open>dest\<close>, with its length as the new value of \<open>*destsz\<close>.\<close>

definition lsi_ut_sasl_mkplauth ::
  "nat \<Rightarrow> string \<Rightarrow> string \<Rightarrow> bool \<Rightarrow> mallocs \<Rightarrow> string option \<times> mallocs" where
  "lsi_ut_sasl_mkplauth destsz name pass base64 orc =
     (let (ok, orc') = malloc orc in
      if \<not> ok then (None, orc')
      else let tmpbuf = name @ [NUL] @ name @ [NUL] @ pass; r = length tmpbuf in
        if destsz \<le> r then (None, orc')
        else if base64 then
          (let (s, out) = lsi_com_base64 destsz (map (\<lambda>c. of_nat (byte c)) tmpbuf)
           in if s = 0 then (None, orc') else (Some out, orc'))
        else (Some tmpbuf, orc'))"

section \<open>Splitting refines a grammar of lines\<close>

fun line_args :: "nat \<Rightarrow> string \<Rightarrow> string list" where
  "line_args 0 s = []"
| "line_args (Suc n) s =
     (let r = tok_rest (CHR '' '') s in
      if r = [] then []
      else if hd r = CHR '':'' then [tl r]
      else (if n = 0 then r else tok_word (CHR '' '') r) # line_args n r)"

definition parse_line :: "string \<Rightarrow> (string option \<times> string \<times> string list) option" where
  "parse_line s =
     (if s = [] \<or> hd s = CHR '' '' then None
      else if hd s = CHR '':'' then
        (let r = tok_rest (CHR '' '') s in
         if r = [] then None
         else Some (Some (tl (tok_word (CHR '' '') s)), tok_word (CHR '' '') r, line_args 16 r))
      else Some (None, tok_word (CHR '' '') s, line_args 16 s))"

definition msg_fields :: "string option \<times> string \<times> string list \<Rightarrow> tokarr" where
  "msg_fields m = (case m of (p, c, as) \<Rightarrow> p # Some c # map Some as @ replicate (16 - length as) None)"

lemma length_line_args: "length (line_args n s) \<le> n"
  by (induction n s rule: line_args.induct) (auto simp: Let_def)

lemma cstr_at_mid:
  "cstr_ok s \<Longrightarrow> i = length pre \<Longrightarrow> cstr_at (pre @ s @ NUL # post) i = s"
  by (simp add: cstr_at_def)

lemma tokenize_args_spec:
  assumes "cstr_ok s"
  shows "\<exists>s' offs. tokenize_args n (pre @ s @ NUL # post) (length pre) = Some (pre @ s' @ NUL # post, offs) \<and>
     length s' = length s \<and>
     map (cstr_at (pre @ s' @ NUL # post)) offs = line_args n s \<and>
     cstr_at (pre @ s' @ NUL # post) (length pre) = (if n = 0 then s else tok_word (CHR '' '') s)"
  using assms
proof (induction n arbitrary: pre s)
  case 0
  then show ?case by (auto simp: cstr_at_mid)
next
  case (Suc n)
  let ?d = "CHR '' ''"
  let ?w = "tok_word ?d s" and ?g = "tok_gap ?d s" and ?r = "tok_rest ?d s"
  let ?s1 = "?w @ replicate ?g NUL @ ?r"
  have len: "length ?s1 = length s"
    using arg_cong [OF tok_split [of s ?d], of length] by simp
  have okw: "cstr_ok ?w" and okr: "cstr_ok ?r" using Suc.prems by simp_all
  have nt: "lsi_com_next_tok (pre @ s @ NUL # post) (length pre) ?d =
     Some (pre @ ?s1 @ NUL # post, if ?r = [] then None else Some (length pre + length ?w + ?g))"
    using next_tok_spec [OF Suc.prems(1), of ?d pre post] by simp
  show ?case
  proof (cases "?r = []")
    case True
    have "cstr_at (pre @ ?w @ replicate ?g NUL @ NUL # post) (length pre) = ?w"
      by (cases ?g) (simp_all add: cstr_at_mid okw)
    with nt True len show ?thesis by (intro exI [of _ ?s1] exI [of _ "[]"]) simp
  next
    case False
    then have g: "?g \<noteq> 0" using tok_gap_0 by blast
    then obtain g' where g': "?g = Suc g'" by (cases ?g) auto
    obtain c r' where r: "?r = c # r'" using False by (cases ?r) auto
    let ?pre' = "pre @ ?w @ replicate ?g NUL"
    let ?q = "length pre + length ?w + ?g"
    have q: "?q = length ?pre'" by simp
    have eq: "pre @ ?s1 @ NUL # post = ?pre' @ ?r @ NUL # post" by simp
    have rdq: "rd (?pre' @ ?r @ NUL # post) ?q = Some c"
      unfolding q r by (simp add: rd_def nth_append)
    show ?thesis
    proof (cases "c = CHR '':''")
      case True
      have "cstr_at (?pre' @ ?r @ NUL # post) (?q + 1) = r'"
        using okr r cstr_at_mid [of r' "?q + 1" "?pre' @ [c]" post] by simp
      moreover have "cstr_at (pre @ ?w @ NUL # (replicate g' NUL @ ?r @ NUL # post)) (length pre) = ?w"
        by (rule cstr_at_mid [OF okw refl])
      ultimately show ?thesis
        using nt False True rdq r len g'
        by (intro exI [of _ ?s1] exI [of _ "[?q + 1]"]) simp
    next
      case c: False
      from Suc.IH [of ?r ?pre'] okr obtain s2 offs where ih:
        "tokenize_args n (?pre' @ ?r @ NUL # post) ?q = Some (?pre' @ s2 @ NUL # post, offs)"
        "length s2 = length ?r"
        "map (cstr_at (?pre' @ s2 @ NUL # post)) offs = line_args n ?r"
        "cstr_at (?pre' @ s2 @ NUL # post) ?q = (if n = 0 then ?r else tok_word ?d ?r)"
        unfolding q by blast
      let ?s' = "?w @ replicate ?g NUL @ s2"
      have w: "cstr_at (pre @ ?s' @ NUL # post) (length pre) = ?w"
        using cstr_at_mid [OF okw refl, of pre "replicate g' NUL @ s2 @ NUL # post"] g' by simp
      have "tokenize_args (Suc n) (pre @ s @ NUL # post) (length pre) = Some (pre @ ?s' @ NUL # post, ?q # offs)"
        using nt False rdq c ih(1) by simp
      moreover have "map (cstr_at (pre @ ?s' @ NUL # post)) (?q # offs) = line_args (Suc n) s"
        using ih(3,4) r c by (simp add: Let_def)
      moreover have "length ?s' = length s" using ih(2) len by simp
      ultimately show ?thesis using w by (intro exI [of _ ?s'] exI [of _ "?q # offs"]) simp
    qed
  qed
qed


lemma map_tok_strs: "tok_strs buf (map Some offs) = map (\<lambda>i. Some (cstr_at buf i)) offs"
  by (simp add: tok_strs_def)

lemma tok_strs_Cons: "tok_strs buf (x # xs) = map_option (cstr_at buf) x # tok_strs buf xs"
  by (simp add: tok_strs_def)

lemma tok_strs_pad:
  "length offs \<le> 16 \<Longrightarrow>
   tok_strs buf (tok_pad (a # b # map Some offs)) =
   map_option (cstr_at buf) a # map_option (cstr_at buf) b # map Some (map (cstr_at buf) offs) @
     replicate (16 - length offs) None"
  by (simp add: tok_strs_def tok_pad_def TOKARR_SZ_def)

lemma lsi_ut_tokenize_spec:
  assumes ok: "cstr_ok s"
  shows "\<exists>s' offs. lsi_ut_tokenize (pre @ s @ NUL # post) (length pre) =
       Some (parse_line s \<noteq> None, pre @ s' @ NUL # post, offs) \<and> length s' = length s \<and>
     (\<forall>m. parse_line s = Some m \<longrightarrow> tok_strs (pre @ s' @ NUL # post) offs = msg_fields m)"
proof -
  let ?d = "CHR '' ''"
  let ?buf = "pre @ s @ NUL # post"
  have c0: "rd ?buf (length pre) = Some (hdz s)" by (cases s) (simp_all add: rd_def)
  consider "s = []" | "hdz s = ?d" "s \<noteq> []" | "hdz s = CHR '':''" "s \<noteq> []"
    | "s \<noteq> []" "hdz s \<noteq> ?d" "hdz s \<noteq> CHR '':''" by blast
  then show ?thesis
  proof cases
    case 1
    with c0 show ?thesis by (intro exI [of _ s] exI [of _ "tok_pad []"]) (simp add: lsi_ut_tokenize_def parse_line_def)
  next
    case 2
    then have "hd s = ?d" by (cases s) auto
    with 2 c0 show ?thesis
      by (intro exI [of _ s] exI [of _ "tok_pad []"]) (simp add: lsi_ut_tokenize_def parse_line_def)
  next
    case 4
    then have hd: "hd s \<noteq> ?d" "hd s \<noteq> CHR '':''" "hdz s \<noteq> NUL"
      using ok by (cases s; auto)+
    from tokenize_args_spec [OF ok, of 16 pre post] obtain s' offs where t:
      "tokenize_args 16 ?buf (length pre) = Some (pre @ s' @ NUL # post, offs)"
      "length s' = length s" "map (cstr_at (pre @ s' @ NUL # post)) offs = line_args 16 s"
      "cstr_at (pre @ s' @ NUL # post) (length pre) = tok_word ?d s" by auto
    have l: "length offs \<le> 16" using arg_cong [OF t(3), of length] length_line_args [of 16 s] by simp
    have l': "length (line_args 16 s) = length offs" using arg_cong [OF t(3), of length] by simp
    have f: "tok_strs (pre @ s' @ NUL # post) (tok_pad (None # Some (length pre) # map Some offs)) =
        msg_fields (None, tok_word ?d s, line_args 16 s)"
      unfolding tok_strs_pad [OF l] t(3) by (simp add: msg_fields_def t(4) l')
    have "lsi_ut_tokenize ?buf (length pre) =
        Some (True, pre @ s' @ NUL # post, tok_pad (None # Some (length pre) # map Some offs))"
      using c0 4 hd t(1) by (simp add: lsi_ut_tokenize_def TOKARR_SZ_def)
    moreover have "parse_line s = Some (None, tok_word ?d s, line_args 16 s)"
      using 4 hd by (simp add: parse_line_def)
    ultimately show ?thesis using f t(2)
      by (intro exI [of _ s'] exI [of _ "tok_pad (None # Some (length pre) # map Some offs)"]) simp
  next
    case 3
    let ?w = "tok_word ?d s" and ?g = "tok_gap ?d s" and ?r = "tok_rest ?d s"
    let ?s1 = "?w @ replicate ?g NUL @ ?r"
    have okw: "cstr_ok ?w" and okr: "cstr_ok ?r" using ok by simp_all
    have len: "length ?s1 = length s" using arg_cong [OF tok_split [of s ?d], of length] by simp
    have nt: "lsi_com_next_tok ?buf (length pre) ?d =
       Some (pre @ ?s1 @ NUL # post, if ?r = [] then None else Some (length pre + length ?w + ?g))"
      using next_tok_spec [OF ok, of ?d pre post] by simp
    have hd: "hd s = CHR '':''" using 3 by (cases s) auto
    show ?thesis
    proof (cases "?r = []")
      case True
      with c0 3 nt hd len show ?thesis
        by (intro exI [of _ ?s1] exI [of _ "tok_pad [Some (length pre + 1)]"])
          (simp add: lsi_ut_tokenize_def parse_line_def Let_def)
    next
      case False
      then obtain g' where g': "?g = Suc g'" using tok_gap_0 by (cases ?g) auto
      obtain w' where w': "?w = CHR '':'' # w'" using 3 by (cases s) (auto simp: tok_word_def)
      let ?pre' = "pre @ ?w @ replicate ?g NUL"
      let ?q = "length pre + length ?w + ?g"
      have q: "?q = length ?pre'" by simp
      from tokenize_args_spec [OF okr, of 16 ?pre' post] obtain s2 offs where t:
        "tokenize_args 16 (?pre' @ ?r @ NUL # post) ?q = Some (?pre' @ s2 @ NUL # post, offs)"
        "length s2 = length ?r" "map (cstr_at (?pre' @ s2 @ NUL # post)) offs = line_args 16 ?r"
        "cstr_at (?pre' @ s2 @ NUL # post) ?q = tok_word ?d ?r" unfolding q by auto
      let ?s' = "?w @ replicate ?g NUL @ s2"
      let ?offs = "tok_pad (Some (length pre + 1) # Some ?q # map Some offs)"
      have l': "length (line_args 16 ?r) = length offs" using arg_cong [OF t(3), of length] by simp
      have l: "length offs \<le> 16" using l' length_line_args [of 16 ?r] by simp
      have "cstr_at (pre @ ?s' @ NUL # post) (length pre + 1) = w'"
        using cstr_at_mid [of w' "length pre + 1" "pre @ [CHR '':'']" "replicate g' NUL @ s2 @ NUL # post"]
          okw w' g' by simp
      then have f: "tok_strs (pre @ ?s' @ NUL # post) ?offs = msg_fields (Some (tl ?w), tok_word ?d ?r, line_args 16 ?r)"
        using t(3,4) l' w' unfolding tok_strs_pad [OF l] by (simp add: msg_fields_def)
      have "lsi_ut_tokenize ?buf (length pre) = Some (True, pre @ ?s' @ NUL # post, ?offs)"
        using c0 3 nt False t(1) by (simp add: lsi_ut_tokenize_def TOKARR_SZ_def)
      moreover have "parse_line s = Some (Some (tl ?w), tok_word ?d ?r, line_args 16 ?r)"
        using 3 hd False by (simp add: parse_line_def Let_def)
      moreover have "length ?s' = length s" using len t(2) by simp
      ultimately show ?thesis using f by (intro exI [of _ ?s'] exI [of _ ?offs]) simp
    qed
  qed
qed


section \<open>Putting a message together again\<close>

definition last_arg :: "bool \<Rightarrow> string \<Rightarrow> string" where
  "last_arg coltr a = (if coltr \<or> CHR '' '' \<in> set a then CHR '':'' # a else a)"

fun render_args :: "bool \<Rightarrow> string list \<Rightarrow> string" where
  "render_args coltr [] = []"
| "render_args coltr [a] = CHR '' '' # last_arg coltr a"
| "render_args coltr (a # as) = CHR '' '' # a @ render_args coltr as"

definition render :: "bool \<Rightarrow> string option \<times> string \<times> string list \<Rightarrow> string" where
  "render coltr m =
     (case m of (p, c, as) \<Rightarrow> (case p of Some x \<Rightarrow> CHR '':'' # x @ CHR '' '' # c | None \<Rightarrow> c) @ render_args coltr as)"

text \<open>A field that can stand alone on the line: not empty, no space, no leading colon.\<close>

definition word_ok :: "string \<Rightarrow> bool" where
  "word_ok w \<longleftrightarrow> w \<noteq> [] \<and> CHR '' '' \<notin> set w \<and> hd w \<noteq> CHR '':''"

definition msg_ok :: "bool \<Rightarrow> string option \<times> string \<times> string list \<Rightarrow> bool" where
  "msg_ok coltr m =
     (case m of (p, c, as) \<Rightarrow>
        c \<noteq> [] \<and> CHR '' '' \<notin> set c \<and> (p = None \<longrightarrow> hd c \<noteq> CHR '':'') \<and>
        (case p of Some x \<Rightarrow> CHR '' '' \<notin> set x | None \<Rightarrow> True) \<and>
        length as \<le> 16 \<and> list_all word_ok (butlast as) \<and>
        (as \<noteq> [] \<longrightarrow> coltr \<or> CHR '' '' \<in> set (last as) \<or> word_ok (last as)))"

lemma tok_word_app: "d \<notin> set w \<Longrightarrow> tok_word d (w @ d # r) = w"
  unfolding tok_word_def by (induction w) auto

lemma tok_word_all: "d \<notin> set w \<Longrightarrow> tok_word d w = w"
  by (auto simp: tok_word_def takeWhile_eq_all_conv)

lemma tok_rest_app: "d \<notin> set w \<Longrightarrow> tok_rest d (w @ d # r) = dropWhile (\<lambda>c. c = d) r"
  unfolding tok_rest_def by (induction w) auto

lemma tok_rest_all: "d \<notin> set w \<Longrightarrow> tok_rest d w = []"
  unfolding tok_rest_def by (metis (mono_tags, lifting) dropWhile.simps(1) dropWhile_eq_Nil_conv)

lemma dropWhile_hd: "s \<noteq> [] \<Longrightarrow> hd s \<noteq> d \<Longrightarrow> dropWhile (\<lambda>c. c = d) s = s"
  by (cases s) auto

lemma hd_render_args: "as \<noteq> [] \<Longrightarrow> render_args coltr as = CHR '' '' # tl (render_args coltr as)"
  by (induction coltr as rule: render_args.induct) auto

lemma line_args_render:
  assumes "length as \<le> n" "list_all word_ok (butlast as)"
    "as \<noteq> [] \<longrightarrow> coltr \<or> CHR '' '' \<in> set (last as) \<or> word_ok (last as)" "CHR '' '' \<notin> set w"
  shows "line_args n (w @ render_args coltr as) = as"
  using assms
proof (induction coltr as arbitrary: n w rule: render_args.induct)
  case (1 coltr)
  then show ?case by (cases n) (simp_all add: tok_rest_all)
next
  case (2 coltr a)
  then obtain n' where n: "n = Suc n'" by (cases n) auto
  show ?case
  proof (cases "coltr \<or> CHR '' '' \<in> set a")
    case True
    then have "tok_rest (CHR '' '') (w @ render_args coltr [a]) = CHR '':'' # a"
      using 2 by (simp add: last_arg_def tok_rest_app)
    then show ?thesis by (simp add: n)
  next
    case False
    with 2 have "a \<noteq> []" "hd a \<noteq> CHR '' ''" by (cases a; auto simp: word_ok_def)+
    with False have "tok_rest (CHR '' '') (w @ render_args coltr [a]) = a"
      using 2 by (simp add: last_arg_def tok_rest_app word_ok_def dropWhile_hd)
    with False 2 show ?thesis
      by (cases n') (simp_all add: n word_ok_def tok_word_all tok_rest_all Let_def)
  qed
next
  case (3 coltr a b as)
  then obtain n' where n: "n = Suc (Suc n')" by (cases n; cases "n - 1") auto
  have a: "a \<noteq> []" "CHR '' '' \<notin> set a" "hd a \<noteq> CHR '':''" using 3 by (auto simp: word_ok_def)
  then have hda: "hd a \<noteq> CHR '' ''" by (cases a) auto
  let ?t = "render_args coltr (b # as)"
  have t: "?t = CHR '' '' # tl ?t" by (rule hd_render_args) simp
  have r: "tok_rest (CHR '' '') (w @ render_args coltr (a # b # as)) = a @ ?t"
    using 3(5) a hda by (simp add: tok_rest_app dropWhile_hd)
  have ih: "line_args (Suc n') (a @ ?t) = b # as"
    using 3 a by (intro "3.IH") (auto simp: n)
  have w: "tok_word (CHR '' '') (a @ ?t) = a"
    using a(2) by (subst t) (rule tok_word_app)
  show ?case unfolding n using r a ih w by (simp add: Let_def)
qed

lemma parse_render:
  assumes "msg_ok coltr m"
  shows "parse_line (render coltr m) = Some m"
proof -
  obtain p c as where m: "m = (p, c, as)" by (cases m) auto
  have c: "c \<noteq> []" "CHR '' '' \<notin> set c" and las: "length as \<le> 16" "list_all word_ok (butlast as)"
    "as \<noteq> [] \<longrightarrow> coltr \<or> CHR '' '' \<in> set (last as) \<or> word_ok (last as)"
    using assms by (auto simp: msg_ok_def m)
  have hdc: "hd c \<noteq> CHR '' ''" using c by (cases c) auto
  have la: "line_args 16 (c @ render_args coltr as) = as"
    by (rule line_args_render [OF las c(2)])
  have tw: "tok_word (CHR '' '') (c @ render_args coltr as) = c"
    using c(2) by (cases "as = []") (simp add: tok_word_all, subst hd_render_args, simp, simp add: tok_word_app)
  show ?thesis
  proof (cases p)
    case None
    then have "hd c \<noteq> CHR '':''" using assms by (simp add: msg_ok_def m)
    with c hdc la tw None show ?thesis by (simp add: render_def m parse_line_def)
  next
    case (Some x)
    then have x: "CHR '' '' \<notin> set (CHR '':'' # x)" using assms by (simp add: msg_ok_def m)
    have r: "tok_rest (CHR '' '') ((CHR '':'' # x) @ CHR '' '' # c @ render_args coltr as) = c @ render_args coltr as"
      unfolding tok_rest_app [OF x] using c hdc by (simp add: dropWhile_hd)
    have w: "tok_word (CHR '' '') ((CHR '':'' # x) @ CHR '' '' # c @ render_args coltr as) = CHR '':'' # x"
      by (rule tok_word_app [OF x])
    from r w c la tw Some show ?thesis by (simp add: render_def m parse_line_def Let_def)
  qed
qed


lemma ncat_fits: "length d + length s < n \<Longrightarrow> ncat n d s = d @ s"
  by (cases s) (auto simp: ncat_def)

lemma snrcmsg_loop_render:
  assumes "length dest + length (render_args coltr as) < n"
  shows "snrcmsg_loop n dest (map Some as @ replicate k None) coltr = dest @ render_args coltr as"
  using assms
proof (induction coltr as arbitrary: dest rule: render_args.induct)
  case (1 coltr)
  then show ?case by (cases k) simp_all
next
  case (2 coltr a)
  have tail: "snrcmsg_loop n d (replicate k None) coltr = d" for d by (cases k) simp_all
  have nx: "(case replicate k (None :: string option) of Some _ # _ \<Rightarrow> False | _ \<Rightarrow> True)"
    by (cases k) simp_all
  have sp: "strchr a (CHR '' '') = None \<longleftrightarrow> CHR '' '' \<notin> set a" by (simp add: strchr_None_iff)
  from 2 show ?case
    by (cases k; auto simp: ncat_fits last_arg_def sp split: if_splits)
next
  case (3 coltr a b as)
  then show ?case by (simp add: ncat_fits)
qed

lemma tk_msg_fields:
  "tk (msg_fields (p, c, as)) 0 = p" "tk (msg_fields (p, c, as)) (Suc 0) = Some c"
  "drop 2 (msg_fields (p, c, as)) = map Some as @ replicate (16 - length as) None"
  by (simp_all add: tk_def msg_fields_def)

lemma lsi_ut_snrcmsg_render:
  assumes "length (render coltr m) + 2 < n"
  shows "lsi_ut_snrcmsg n (msg_fields m) coltr = Some (render coltr m @ [CHR 0x0D, CHR 0x0A])"
proof -
  obtain p c as where m: "m = (p, c, as)" by (cases m) auto
  let ?d = "case p of Some x \<Rightarrow> '':'' @ x @ '' '' @ c | None \<Rightarrow> c"
  have r: "render coltr m = ?d @ render_args coltr as"
    by (cases p) (simp_all add: render_def m)
  have d: "ncpy n ?d = ?d" using assms r by (intro ncpy_short) (simp split: option.splits)
  have "snrcmsg_loop n ?d (map Some as @ replicate (16 - length as) None) coltr = ?d @ render_args coltr as"
    using assms r by (intro snrcmsg_loop_render) simp
  with assms r d show ?thesis
    by (cases p) (simp_all add: lsi_ut_snrcmsg_def m tk_msg_fields ncat_fits)
qed

lemma msg_ac_fields:
  "length as \<le> 16 \<Longrightarrow> msg_ac (msg_fields (p, c, as)) = 2 + length as"
proof -
  have "count_args (map Some as @ replicate k None) = length as" for k
    by (induction as) (cases k; simp)+
  then show ?thesis by (simp add: msg_ac_def tk_msg_fields)
qed

section \<open>Well-formed messages\<close>

text \<open>
  What every message array has: 18 slots, a command, and the arguments before the first
  empty slot.
\<close>

definition tokarr_ok :: "tokarr \<Rightarrow> bool" where
  "tokarr_ok msg \<longleftrightarrow> length msg = TOKARR_SZ \<and> tk msg 1 \<noteq> None \<and>
     list_all (\<lambda>f. case f of None \<Rightarrow> True | Some s \<Rightarrow> cstr_ok s) msg"

lemma tk_below_ac:
  assumes "2 \<le> i" "i < msg_ac msg"
  shows "\<exists>s. tk msg i = Some s"
proof -
  have "k < count_args xs \<Longrightarrow> k < length xs \<and> xs ! k \<noteq> None" for k xs
    by (induction xs arbitrary: k rule: count_args.induct) (auto simp: nth_Cons split: nat.splits)
  moreover obtain j where j: "i = Suc (Suc j)" using assms(1) by (cases i; cases "i - 1") auto
  moreover have "j < count_args (drop 2 msg)" using assms(2) j by (simp add: msg_ac_def)
  ultimately show ?thesis by (fastforce simp: tk_def)
qed

lemma tk_cstr: "tokarr_ok msg \<Longrightarrow> tk msg i = Some s \<Longrightarrow> cstr_ok s"
  by (auto simp: tokarr_ok_def tk_def list_all_length split: if_splits)

section \<open>MODE\<close>

text \<open>
  What the parser of MODE promises: it never reads a missing argument, and each entry is a
  sign, a letter that is neither a sign nor unknown, and an argument exactly when the class of
  the letter asks for one.
\<close>

definition takes_arg :: "irc \<Rightarrow> bool \<Rightarrow> char \<Rightarrow> bool" where
  "takes_arg ctx enable c \<longleftrightarrow>
     (let cl = lsi_ut_classify_chanmode ctx c in
      cl = 1 \<or> cl = 2 \<or> (cl = 3 \<and> enable) \<or> (cl = 0 \<and> c \<in> set (fst (ic_m005modepfx ctx))))"

definition mode_known :: "irc \<Rightarrow> char \<Rightarrow> bool" where
  "mode_known ctx c \<longleftrightarrow> lsi_ut_classify_chanmode ctx c \<noteq> 0 \<or> c \<in> set (fst (ic_m005modepfx ctx))"

definition entry_ok :: "irc \<Rightarrow> string \<Rightarrow> bool" where
  "entry_ok ctx e \<longleftrightarrow> (\<exists>enable c arg. e = mode_entry enable c arg \<and> c \<noteq> CHR ''+'' \<and> c \<noteq> CHR ''-'' \<and>
     mode_known ctx c \<and> (arg \<noteq> None \<longleftrightarrow> takes_arg ctx enable c))"

definition mode_letters :: "irc \<Rightarrow> string \<Rightarrow> string" where
  "mode_letters ctx modes = filter (\<lambda>c. c \<noteq> CHR ''+'' \<and> c \<noteq> CHR ''-'' \<and> mode_known ctx c) modes"

lemma classify_loop_le: "classify_loop cms z c = 0 \<or> (z < classify_loop cms z c \<and> classify_loop cms z c \<le> z + length cms)"
  by (induction cms z c rule: classify_loop.induct) auto

lemma classify_le_4: "lsi_ut_classify_chanmode ctx c \<le> 4"
  using classify_loop_le [of "take 4 (ic_m005chanmodes ctx)" 0 c]
  by (auto simp: lsi_ut_classify_chanmode_def)

lemma mode_step_cases:
  assumes "c \<noteq> NUL" "2 \<le> i"
  shows "(\<not> mode_known ctx c \<and> mode_step ctx msg (msg_ac msg) i enable c = Some Mode_skip) \<or>
    (mode_known ctx c \<and> (\<exists>arg i'. mode_step ctx msg (msg_ac msg) i enable c = Some (Mode_take arg i') \<and>
       i \<le> i' \<and> (arg \<noteq> None \<longleftrightarrow> takes_arg ctx enable c)))"
proof -
  have a: "\<exists>a i'. mode_arg msg (msg_ac msg) i = Some (a, i') \<and> i \<le> i'"
    using tk_below_ac [OF assms(2), of msg] by (cases "msg_ac msg \<le> i") (auto simp: mode_arg_def)
  have s: "strchr (fst (ic_m005modepfx ctx)) c \<noteq> None \<longleftrightarrow> c \<in> set (fst (ic_m005modepfx ctx))"
    using assms by (simp add: strchr_None_iff)
  consider "lsi_ut_classify_chanmode ctx c = 0" | "lsi_ut_classify_chanmode ctx c = 1"
    | "lsi_ut_classify_chanmode ctx c = 2" | "lsi_ut_classify_chanmode ctx c = 3"
    | "lsi_ut_classify_chanmode ctx c = 4" using classify_le_4 [of ctx c] by linarith
  then show ?thesis
    using a s by cases (auto simp: mode_step_def Let_def mode_known_def takes_arg_def)
qed

lemma parse_MODE_loop_spec:
  assumes "cstr_ok ptr" "2 \<le> i"
  shows "\<exists>orc' es. parse_MODE_loop ctx msg (msg_ac msg) ptr i enable acc orc = Some (es, orc') \<and>
    (\<forall>r. es = Some r \<longrightarrow> (\<exists>r'. r = acc @ r' \<and> list_all (entry_ok ctx) r' \<and>
        map (\<lambda>e. e ! 1) r' = mode_letters ctx ptr)) \<and>
    (orc = [] \<longrightarrow> es \<noteq> None \<and> orc' = [])"
  using assms
proof (induction ptr arbitrary: i enable acc orc)
  case Nil
  then show ?case by (simp add: mode_letters_def)
next
  case (Cons c ptr)
  show ?case
  proof (cases "c = CHR ''+'' \<or> c = CHR ''-''")
    case True
    have ml: "mode_letters ctx (c # ptr) = mode_letters ctx ptr" using True by (auto simp: mode_letters_def)
    have "parse_MODE_loop ctx msg (msg_ac msg) (c # ptr) i enable acc orc =
        parse_MODE_loop ctx msg (msg_ac msg) ptr i (c = CHR ''+'') acc orc" using True by auto
    then show ?thesis unfolding ml using Cons.IH [of i "c = CHR ''+''" acc orc] Cons.prems by simp
  next
    case False
    from mode_step_cases [of c i ctx msg enable] Cons.prems
    consider "\<not> mode_known ctx c" "mode_step ctx msg (msg_ac msg) i enable c = Some Mode_skip"
      | arg i' where "mode_known ctx c" "mode_step ctx msg (msg_ac msg) i enable c = Some (Mode_take arg i')"
        "i \<le> i'" "arg \<noteq> None \<longleftrightarrow> takes_arg ctx enable c" by auto
    then show ?thesis
    proof cases
      case 1
      have ml: "mode_letters ctx (c # ptr) = mode_letters ctx ptr" using 1 by (simp add: mode_letters_def)
      have "parse_MODE_loop ctx msg (msg_ac msg) (c # ptr) i enable acc orc =
          parse_MODE_loop ctx msg (msg_ac msg) ptr i enable acc orc" using False 1 by simp
      then show ?thesis unfolding ml using Cons.IH [of i enable acc orc] Cons.prems by simp
    next
      case 2
      obtain ok orc1 where m: "malloc orc = (ok, orc1)" by (cases "malloc orc") auto
      show ?thesis
      proof (cases ok)
        case False
        then have "orc \<noteq> []" using m by auto
        with \<open>\<not> (c = CHR ''+'' \<or> c = CHR ''-'')\<close> 2 m False show ?thesis by simp
      next
        case True
        have e1: "entry_ok ctx (mode_entry enable c arg)"
          unfolding entry_ok_def using 2(1,4) False
          by (intro exI [of _ enable] exI [of _ c] exI [of _ arg]) simp
        have e2: "mode_entry enable c arg ! 1 = c" by (simp add: mode_entry_def)
        from Cons.IH [of i' enable "acc @ [mode_entry enable c arg]" orc1] Cons.prems 2
        obtain orc' es where ih: "parse_MODE_loop ctx msg (msg_ac msg) ptr i' enable
              (acc @ [mode_entry enable c arg]) orc1 = Some (es, orc')"
          "\<forall>r. es = Some r \<longrightarrow> (\<exists>r'. r = (acc @ [mode_entry enable c arg]) @ r' \<and> list_all (entry_ok ctx) r' \<and>
            map (\<lambda>e. e ! 1) r' = mode_letters ctx ptr)" "orc1 = [] \<longrightarrow> es \<noteq> None \<and> orc' = []" by auto
        have "parse_MODE_loop ctx msg (msg_ac msg) (c # ptr) i enable acc orc = Some (es, orc')"
          using False 2 m True ih(1) by simp
        moreover have "\<exists>r'. r = acc @ r' \<and> list_all (entry_ok ctx) r' \<and>
            map (\<lambda>e. e ! 1) r' = mode_letters ctx (c # ptr)" if "es = Some r" for r
        proof -
          from ih(2) that obtain r' where "r = acc @ mode_entry enable c arg # r'" "list_all (entry_ok ctx) r'"
            "map (\<lambda>e. e ! 1) r' = mode_letters ctx ptr" by auto
          moreover have "mode_letters ctx (c # ptr) = c # mode_letters ctx ptr"
            using False 2(1) by (simp add: mode_letters_def)
          ultimately show ?thesis using e1 e2
            by (intro exI [of _ "mode_entry enable c arg # r'"]) simp
        qed
        moreover have "orc = [] \<longrightarrow> orc1 = []" using m by auto
        ultimately show ?thesis using ih(3) by blast
      qed
    qed
  qed
qed

section \<open>Properties\<close>

text \<open>
  C1: \<open>lsi_ut_tokenize\<close>, which cuts the line up in place, yields exactly the fields of the
  grammar \<open>parse_line\<close> (an optional prefix, the command, up to 16 arguments, the last one perhaps
  trailing), fails exactly where the grammar has no parse, and touches nothing but the line.
\<close>

theorem tokenize_refines_grammar:
  assumes "cstr_ok s"
  shows "\<exists>s' offs. lsi_ut_tokenize (pre @ s @ NUL # post) (length pre) =
       Some (parse_line s \<noteq> None, pre @ s' @ NUL # post, offs) \<and> length s' = length s \<and>
     (\<forall>m. parse_line s = Some m \<longrightarrow> tok_strs (pre @ s' @ NUL # post) offs = msg_fields m)"
  by (rule lsi_ut_tokenize_spec [OF assms])

theorem tokenize_refines_grammar_witness:
  "\<exists>s' offs. lsi_ut_tokenize (''ab'' @ '':x!y@z KICK #c  joe :bye bye'' @ NUL # ''zz'') (length ''ab'') =
       Some (True, ''ab'' @ s' @ NUL # ''zz'', offs) \<and>
     tok_strs (''ab'' @ s' @ NUL # ''zz'') offs = msg_fields (Some ''x!y@z'', ''KICK'', [''#c'', ''joe'', ''bye bye''])"
proof -
  have p: "parse_line '':x!y@z KICK #c  joe :bye bye'' = Some (Some ''x!y@z'', ''KICK'', [''#c'', ''joe'', ''bye bye''])"
    by code_simp
  have ok: "cstr_ok '':x!y@z KICK #c  joe :bye bye''" by (simp add: cstr_ok_def)
  show ?thesis
    using tokenize_refines_grammar [OF ok, of "''ab''" "''zz''"] unfolding p
    by (simp only: option.distinct simp_thms option.inject) blast
qed

text \<open>
  C4: Round trip.  A message whose fields can stand on a line is put together by \<open>lsi_ut_snrcmsg\<close>
  into a line that \<open>lsi_ut_tokenize\<close> splits into the same fields, provided the destination is large
  enough.  (An empty last argument, or one with a leading colon, needs \<open>coltr\<close>.)
\<close>

theorem snrcmsg_tokenize_roundtrip:
  assumes "msg_ok coltr m" "length (render coltr m) + 2 < destsz" "cstr_ok (render coltr m)"
  shows "\<exists>line buf offs. lsi_ut_snrcmsg destsz (msg_fields m) coltr = Some (line @ [CHR 0x0D, CHR 0x0A]) \<and>
     lsi_ut_tokenize (line @ [NUL]) 0 = Some (True, buf, offs) \<and> tok_strs buf offs = msg_fields m"
  using lsi_ut_snrcmsg_render [OF assms(2)] parse_render [OF assms(1)]
    lsi_ut_tokenize_spec [OF assms(3), of "[]" "[]"] by auto

theorem snrcmsg_tokenize_roundtrip_witness:
  "\<exists>line buf offs. lsi_ut_snrcmsg 64 (msg_fields (Some ''me'', ''PRIVMSG'', [''#c'', ''hi all''])) False =
       Some (line @ [CHR 0x0D, CHR 0x0A]) \<and>
     lsi_ut_tokenize (line @ [NUL]) 0 = Some (True, buf, offs) \<and>
     tok_strs buf offs = msg_fields (Some ''me'', ''PRIVMSG'', [''#c'', ''hi all''])"
  by (rule snrcmsg_tokenize_roundtrip)
    (simp_all add: msg_ok_def word_ok_def render_def last_arg_def cstr_ok_def)

section \<open>Comparing names\<close>

lemma byte_schar: "int (byte c) = (if 0 \<le> schar c then schar c else schar c + 256)"
  by (simp add: schar_def linorder_not_le)

lemma schar_inject [simp]: "schar c = schar d \<longleftrightarrow> c = d"
  by (metis byte_schar byte_inject of_nat_eq_iff)

lemma istrncmp_loop_0_iff:
  "min (length a) (length b) < len \<Longrightarrow>
   istrncmp_loop a b len cm = 0 \<longleftrightarrow> map (\<lambda>c. lsi_ut_tolower c cm) a = map (\<lambda>c. lsi_ut_tolower c cm) b"
  by (induction a b len cm rule: istrncmp_loop.induct) (auto simp: Let_def)

lemma istrcmp_0_iff:
  "lsi_ut_istrcmp a b cm = 0 \<longleftrightarrow> map (\<lambda>c. lsi_ut_tolower c cm) a = map (\<lambda>c. lsi_ut_tolower c cm) b"
  unfolding lsi_ut_istrcmp_def lsi_ut_istrncmp_def by (simp add: istrncmp_loop_0_iff)

lemma byte_tolower:
  "byte (lsi_ut_tolower c cm) =
     (if 65 \<le> byte c \<and> int (byte c) \<le> 90 + tolower_rangeinc cm then byte c + 32 else byte c)"
proof -
  have r: "0 \<le> tolower_rangeinc cm" "tolower_rangeinc cm \<le> 4" by (simp_all add: tolower_rangeinc_def)
  have A: "schar (CHR ''A'') = 65" "schar (CHR ''Z'') = 90" by (simp_all add: schar_def byte_def)
  show ?thesis
  proof (cases "byte c < 128")
    case True
    with r show ?thesis unfolding lsi_ut_tolower_def A by (simp add: schar_def)
  next
    case False
    then have "schar c = int (byte c) - 256" by (simp add: schar_def)
    with byte_less [of c] have "schar c < 65" by linarith
    with False r show ?thesis unfolding lsi_ut_tolower_def A by simp
  qed
qed

lemma fold_ascii_iff:
  "x \<noteq> 33 \<Longrightarrow> x \<noteq> 64 \<Longrightarrow> y \<noteq> 33 \<Longrightarrow> y \<noteq> 64 \<Longrightarrow>
   (if 65 \<le> x \<and> x \<le> 90 then x + 32 else x) = (if 65 \<le> y \<and> y \<le> 90 then y + 32 else y) \<longleftrightarrow>
   fold_byte 122 x = fold_byte 122 y"
  by (auto simp: fold_byte_def)

lemma byte_not: "c \<noteq> CHR ''!'' \<Longrightarrow> byte c \<noteq> 33" "c \<noteq> CHR ''@'' \<Longrightarrow> byte c \<noteq> 64"
  using byte_inject [of c "CHR ''!''"] byte_inject [of c "CHR ''@''"] by (auto simp: byte_def)

lemma tolower_ascii_iff:
  assumes "c \<noteq> CHR ''!''" "c \<noteq> CHR ''@''" "d \<noteq> CHR ''!''" "d \<noteq> CHR ''@''"
  shows "lsi_ut_tolower c CMAP_ASCII = lsi_ut_tolower d CMAP_ASCII \<longleftrightarrow>
    g_cmap CMAP_ASCII ! byte c = g_cmap CMAP_ASCII ! byte d"
proof -
  have r: "tolower_rangeinc CMAP_ASCII = 0" by (simp add: tolower_rangeinc_def cmap_ids)
  have h: "cmap_hi CMAP_ASCII = 122" by (simp add: cmap_hi_def cmap_ids)
  have "CMAP_ASCII < 3" by (simp add: cmap_ids)
  then show ?thesis
    using fold_ascii_iff [OF byte_not(1) [OF assms(1)] byte_not(2) [OF assms(2)]
        byte_not(1) [OF assms(3)] byte_not(2) [OF assms(4)]]
    unfolding byte_inject [symmetric, of "lsi_ut_tolower c CMAP_ASCII"] byte_tolower r
    by (simp add: g_cmap_nth h)
qed

definition nick_chars :: "string \<Rightarrow> bool" where
  "nick_chars s \<longleftrightarrow> list_all (\<lambda>c. c \<noteq> NUL \<and> c \<noteq> CHR ''!'' \<and> c \<noteq> CHR ''@'') s"

lemma fold_byte_nonzero: "c \<noteq> NUL \<Longrightarrow> c \<noteq> CHR ''!'' \<Longrightarrow> c \<noteq> CHR ''@'' \<Longrightarrow> fold_byte hi (byte c) \<noteq> 0"
  using byte_not [of c] byte_eq_0_iff [of c] unfolding fold_byte_def by (simp del: byte_eq_0_iff)

lemma cmkey_nick: "cm < 3 \<Longrightarrow> nick_chars s \<Longrightarrow> cmkey (g_cmap cm) s = map (\<lambda>c. g_cmap cm ! byte c) s"
  by (induction s) (auto simp: cmkey_Cons nick_chars_def g_cmap_nth fold_byte_nonzero)

lemma istrcmp_ascii_key:
  assumes "nick_chars a" "nick_chars b"
  shows "lsi_ut_istrcmp a b CMAP_ASCII = 0 \<longleftrightarrow> cmkey (g_cmap CMAP_ASCII) a = cmkey (g_cmap CMAP_ASCII) b"
proof -
  have "map (\<lambda>c. lsi_ut_tolower c CMAP_ASCII) a = map (\<lambda>c. lsi_ut_tolower c CMAP_ASCII) b \<longleftrightarrow>
      map (\<lambda>c. g_cmap CMAP_ASCII ! byte c) a = map (\<lambda>c. g_cmap CMAP_ASCII ! byte c) b"
    using assms
  proof (induction a arbitrary: b)
    case (Cons x a)
    then show ?case by (cases b) (auto simp: nick_chars_def tolower_ascii_iff)
  qed auto
  moreover have "CMAP_ASCII < 3" by (simp add: cmap_ids)
  ultimately show ?thesis using assms by (simp add: istrcmp_0_iff cmkey_nick)
qed

text \<open>
  C33: The comparison of nicknames (\<open>lsi_ut_istrcmp\<close>) and the tables under which users and
  channels are stored (\<open>g_cmap\<close>) have the same idea of equal names exactly for the ASCII case
  mapping.  For the other two they disagree about the pair of caret and tilde, in opposite
  directions.
\<close>

theorem istrcmp_agrees_with_maps_iff:
  assumes "cm < 3"
  shows "(\<forall>a b. nick_chars a \<and> nick_chars b \<longrightarrow>
      (lsi_ut_istrcmp a b cm = 0 \<longleftrightarrow> cmkey (g_cmap cm) a = cmkey (g_cmap cm) b)) \<longleftrightarrow> cm = CMAP_ASCII"
    (is "?agree cm \<longleftrightarrow> _")
proof
  assume a: "?agree cm"
  have n: "nick_chars ''^''" "nick_chars ''~''" by (simp_all add: nick_chars_def)
  have b: "byte (CHR ''^'') = 94" "byte (CHR ''~'') = 126" by (simp_all add: byte_def)
  from a n have e: "lsi_ut_istrcmp ''^'' ''~'' cm = 0 \<longleftrightarrow> cmkey (g_cmap cm) ''^'' = cmkey (g_cmap cm) ''~''"
    by blast
  show "cm = CMAP_ASCII"
  proof (rule ccontr)
    assume "cm \<noteq> CMAP_ASCII"
    with assms have "cm = CMAP_RFC1459 \<or> cm = CMAP_STRICT_RFC1459" by (auto simp: cmap_ids)
    with e show False
      using assms
      by (auto simp: istrcmp_0_iff cmkey_nick n g_cmap_nth b fold_byte_def cmap_hi_def cmap_ids
          byte_tolower tolower_rangeinc_def simp flip: byte_inject)
  qed
next
  assume "cm = CMAP_ASCII"
  then show "?agree cm" using istrcmp_ascii_key by blast
qed

theorem istrcmp_agrees_with_maps_iff_witness:
  "\<exists>a b. nick_chars a \<and> nick_chars b \<and>
     (lsi_ut_istrcmp a b 0 = 0) \<noteq> (cmkey (g_cmap 0) a = cmkey (g_cmap 0) b)"
  using istrcmp_agrees_with_maps_iff [of 0] by (simp add: cmap_ids)

lemma strtolower_loop_None_iff:
  "strtolower_loop dest p s cm = None \<longleftrightarrow> length dest \<le> p + length s"
proof (induction s arbitrary: dest p)
  case Nil
  then show ?case by (simp add: wr_def)
next
  case (Cons c s)
  then show ?case by (cases "p < length dest") auto
qed

lemma strtolower_loop_length: "strtolower_loop dest p s cm = Some d \<Longrightarrow> length d = length dest"
  by (induction s arbitrary: dest p) (auto simp: wr_def split: if_splits)

text \<open>
  \<open>lsi_ut_strtolower\<close> stays inside the destination exactly when the whole string with its
  terminator fits, whatever size the caller passes: the size is never compared with the
  progress of the loop.
\<close>

theorem strtolower_overflows_iff:
  "lsi_ut_strtolower dest destsz str cm = None \<longleftrightarrow>
     destsz = 0 \<or> length dest \<le> length str \<or> length dest < destsz"
proof (cases "strtolower_loop dest 0 str cm")
  case None
  then show ?thesis using strtolower_loop_None_iff [of dest 0 str cm] by (simp add: lsi_ut_strtolower_def)
next
  case (Some d)
  then have "length d = length dest" "\<not> length dest \<le> length str"
    using strtolower_loop_length strtolower_loop_None_iff [of dest 0 str cm] by auto
  with Some show ?thesis by (auto simp: lsi_ut_strtolower_def wr_def)
qed

end
