(* ===== verification/Io.thy ===== *)
theory Io
  imports Util
begin

text \<open>
  \<open>libsrsirc/io.c\<close>: the receive buffer.  Bytes arrive in arbitrary pieces at \<open>eptr\<close>; a line
  is what lies between \<open>wptr\<close> and the next CR or LF.  When the buffer is full, the pending
  bytes are moved to its front.  None is an access outside of the buffer.
\<close>

definition ISDELIM :: "char \<Rightarrow> bool" where
  "ISDELIM c \<longleftrightarrow> c = CHR 0x0A \<or> c = CHR 0x0D"

section \<open>Sockets\<close>

definition read_wrap :: "bool \<Rightarrow> nat \<Rightarrow> u64 \<Rightarrow> net \<Rightarrow> int \<times> string \<times> net" where
  "read_wrap shnd sz to_us w = (if shnd then lsi_b_read_ssl sz to_us w else lsi_b_read sz to_us w)"

definition send_wrap :: "bool \<Rightarrow> string \<Rightarrow> net \<Rightarrow> int \<times> net" where
  "send_wrap shnd buf w = (if shnd then lsi_b_write_ssl buf w else lsi_b_write buf w)"

definition lsi_io_write :: "bool \<Rightarrow> string \<Rightarrow> net \<Rightarrow> bool \<times> net" where
  "lsi_io_write shnd buf w =
     (let (r, w') = send_wrap shnd buf w in (0 \<le> r \<and> nat r = length buf, w'))"

definition write_str :: "bool \<Rightarrow> string \<Rightarrow> net \<Rightarrow> bool \<times> net" where
  "write_str shnd str w = (let (r, w') = send_wrap shnd str w in (0 < r, w'))"

section \<open>The receive buffer\<close>

fun find_delim_loop :: "char list \<Rightarrow> nat \<Rightarrow> nat \<Rightarrow> nat option" where
  "find_delim_loop buf ptr 0 = None"
| "find_delim_loop buf ptr (Suc n) =
     (if ISDELIM (buf ! ptr) then Some ptr else find_delim_loop buf (ptr + 1) n)"

text \<open>The first delimiter between \<open>wptr\<close> and \<open>eptr\<close>, and the buffer with a NUL at \<open>eptr\<close>.\<close>

definition find_delim :: "readctx \<Rightarrow> (nat option \<times> readctx) option" where
  "find_delim rctx = do {
     buf \<leftarrow> wr (rx_workbuf rctx) (rx_eptr rctx) NUL;
     Some (find_delim_loop buf (rx_wptr rctx) (rx_eptr rctx - rx_wptr rctx),
           rctx\<lparr>rx_workbuf := buf\<rparr>) }"

text \<open>\<open>memmove (workbuf, wptr, datalen)\<close>\<close>

definition move_front :: "char list \<Rightarrow> nat \<Rightarrow> nat \<Rightarrow> char list" where
  "move_front buf w n = take n (drop w buf) @ drop n buf"

definition read_more :: "bool \<Rightarrow> readctx \<Rightarrow> u64 \<Rightarrow> net \<Rightarrow> (int \<times> readctx \<times> net) option" where
  "read_more shnd rctx to_us w =
     (let remain = WORKBUF_SZ - rx_eptr rctx;
          full = (remain = 0);
          datalen = rx_eptr rctx - rx_wptr rctx;
          rctx1 = (if full
                   then rctx\<lparr>rx_workbuf := move_front (rx_workbuf rctx) (rx_wptr rctx) datalen,
                             rx_wptr := 0, rx_eptr := datalen\<rparr>
                   else rctx);
          remain1 = WORKBUF_SZ - rx_eptr rctx1
      in if full \<and> rx_wptr rctx = 0 then Some (-1, rctx, w)
         else let (n, d, w') = read_wrap shnd remain1 to_us w in
           if n \<le> 0 then Some (n, rctx1, w')
           else do {
             buf \<leftarrow> wr_bytes (rx_workbuf rctx1) (rx_eptr rctx1) d;
             Some (1, rctx1\<lparr>rx_workbuf := buf, rx_eptr := rx_eptr rctx1 + nat n\<rparr>, w') })"

text \<open>
  Reading until there is a delimiter.  Each turn takes an event or fills the buffer, so
  \<open>read_fuel\<close> turns are enough.
\<close>

fun fill_loop :: "nat \<Rightarrow> bool \<Rightarrow> readctx \<Rightarrow> u64 \<Rightarrow> u64 \<Rightarrow> net \<Rightarrow>
    (int \<times> nat \<times> readctx \<times> u64 \<times> net) option" where
  "fill_loop 0 shnd rctx tend trem w = None"
| "fill_loop (Suc fuel) shnd rctx tend trem w = do {
     (delim, rctx1) \<leftarrow> find_delim rctx;
     case delim of
       Some d \<Rightarrow> Some (1, d, rctx1, trem, w)
     | None \<Rightarrow>
         (let (trem1, w1) = px_trem tend trem w in do {
            (r, rctx2, w2) \<leftarrow> read_more shnd rctx1 trem1 w1;
            if r \<le> 0 then Some (r, 0, rctx2, trem1, w2)
            else fill_loop fuel shnd rctx2 tend trem1 w2 }) }"

definition rx_bytes :: "net \<Rightarrow> nat" where
  "rx_bytes w = sum_list (map (\<lambda>e. case e of Rx_data d \<Rightarrow> length d | _ \<Rightarrow> 0) (nt_rx w)) + length (nt_rx w)"

definition read_fuel :: "net \<Rightarrow> nat" where
  "read_fuel w = rx_bytes w + 2"

text \<open>The outer loop skips empty lines: the start and the end of the line found.\<close>

fun line_loop :: "nat \<Rightarrow> nat \<Rightarrow> bool \<Rightarrow> readctx \<Rightarrow> u64 \<Rightarrow> u64 \<Rightarrow> net \<Rightarrow>
    (int \<times> nat \<times> nat \<times> readctx \<times> net) option" where
  "line_loop 0 fl shnd rctx tend trem w = None"
| "line_loop (Suc fuel) fl shnd rctx tend trem w = do {
     (r, delim, rctx1, trem1, w1) \<leftarrow> fill_loop fl shnd rctx tend trem w;
     if r \<le> 0 then Some (r, 0, 0, rctx1, w1)
     else let linestart = rx_wptr rctx1; linelen = delim - linestart;
              rctx2 = rctx1\<lparr>rx_wptr := rx_wptr rctx1 + 1\<rparr>
       in if linelen = 0 then line_loop fuel fl shnd rctx2 tend trem1 w1
          else Some (1, linestart, delim, rctx2\<lparr>rx_wptr := rx_wptr rctx2 + linelen\<rparr>, w1) }"

fun skip_delims :: "char list \<Rightarrow> nat \<Rightarrow> nat \<Rightarrow> nat" where
  "skip_delims buf wptr 0 = wptr"
| "skip_delims buf wptr (Suc n) = (if ISDELIM (buf ! wptr) then skip_delims buf (wptr + 1) n else wptr)"

definition reset_empty :: "readctx \<Rightarrow> readctx" where
  "reset_empty rctx =
     (let w = skip_delims (rx_workbuf rctx) (rx_wptr rctx) (rx_eptr rctx - rx_wptr rctx) in
      if w = rx_eptr rctx then rctx\<lparr>rx_wptr := 0, rx_eptr := 0\<rparr> else rctx\<lparr>rx_wptr := w\<rparr>)"

definition line_fuel :: "readctx \<Rightarrow> net \<Rightarrow> nat" where
  "line_fuel rctx w = (rx_eptr rctx - rx_wptr rctx) + rx_bytes w + 1"

text \<open>
  The result (1, 0 on timeout, negative on failure), the offsets of the fields and, when the
  caller asked for tags (\<open>ntags\<close>), those of the tags; there None is a \<open>*ntags\<close> left as it was.
\<close>

definition lsi_io_read ::
  "bool \<Rightarrow> readctx \<Rightarrow> nat option \<Rightarrow> u64 \<Rightarrow> net \<Rightarrow>
   (int \<times> nat option list \<times> nat list option \<times> readctx \<times> net) option" where
  "lsi_io_read shnd rctx0 ntags to_us w0 =
     (let (tend, w1) = px_tend to_us w0;
          rctx = reset_empty rctx0 in do {
      (r, linestart, delim, rctx1, w2) \<leftarrow> line_loop (line_fuel rctx w1) (read_fuel w1) shnd rctx tend 0 w1;
      if r \<le> 0 then Some (r, [], None, rctx1, w2)
      else do {
        buf \<leftarrow> wr (rx_workbuf rctx1) delim NUL;
        if buf ! linestart = CHR ''@'' then do {
          (buf1, tags, start) \<leftarrow> lsi_ut_extract_tags buf (linestart + 1) (case ntags of Some n \<Rightarrow> n | None \<Rightarrow> 0);
          let tags' = map_option (\<lambda>_. tags) ntags;
          case start of
            None \<Rightarrow> Some (-1, [], None, rctx1\<lparr>rx_workbuf := buf1\<rparr>, w2)
          | Some p \<Rightarrow> do {
              c \<leftarrow> rd buf1 p;
              if c = NUL then Some (-1, [], tags', rctx1\<lparr>rx_workbuf := buf1\<rparr>, w2)
              else do {
                (ok, buf2, tok) \<leftarrow> lsi_ut_tokenize buf1 p;
                Some (if ok then 1 else -1, tok, tags', rctx1\<lparr>rx_workbuf := buf2\<rparr>, w2) } } }
        else do {
          (ok, buf2, tok) \<leftarrow> lsi_ut_tokenize buf linestart;
          Some (if ok then 1 else -1, tok, map_option (\<lambda>_. []) ntags, rctx1\<lparr>rx_workbuf := buf2\<rparr>, w2) } } })"

section \<open>The stream of bytes\<close>

text \<open>
  The bytes received and not yet consumed are those between \<open>wptr\<close> and \<open>eptr\<close> followed by
  those still to come, however the latter are cut into pieces.
\<close>

definition rx_ok :: "readctx \<Rightarrow> bool" where
  "rx_ok rctx \<longleftrightarrow> rx_wptr rctx \<le> rx_eptr rctx \<and> rx_eptr rctx \<le> WORKBUF_SZ \<and>
     length (rx_workbuf rctx) = WORKBUF_SZ + 1"

definition pend :: "readctx \<Rightarrow> string" where
  "pend rctx = take (rx_eptr rctx - rx_wptr rctx) (drop (rx_wptr rctx) (rx_workbuf rctx))"

definition rxs :: "net \<Rightarrow> string" where
  "rxs w = concat (map (\<lambda>e. case e of Rx_data d \<Rightarrow> d | _ \<Rightarrow> []) (nt_rx w))"

definition only_data :: "net \<Rightarrow> bool" where
  "only_data w \<longleftrightarrow> (\<forall>e\<in>set (nt_rx w). \<exists>c d. e = Rx_data (c # d))"

definition first_delim :: "string \<Rightarrow> nat option" where
  "first_delim s =
     (if list_ex ISDELIM s then Some (length (takeWhile (\<lambda>c. \<not> ISDELIM c) s)) else None)"

lemma length_pend: "rx_ok rctx \<Longrightarrow> length (pend rctx) = rx_eptr rctx - rx_wptr rctx"
  by (auto simp: rx_ok_def pend_def)

lemma first_delim_Cons: "first_delim (c # s) = (if ISDELIM c then Some 0 else map_option Suc (first_delim s))"
  by (auto simp: first_delim_def)

lemma first_delim_append: "first_delim s = Some k \<Longrightarrow> first_delim (s @ t) = Some k"
  by (induction s arbitrary: k) (auto simp: first_delim_Cons, auto simp: first_delim_def)

lemma first_delim_append_None: "first_delim s = None \<Longrightarrow> first_delim (s @ t) = map_option (\<lambda>k. length s + k) (first_delim t)"
proof (induction s)
  case Nil
  then show ?case by (cases "first_delim t") auto
next
  case (Cons c s)
  then show ?case by (cases "first_delim t") (auto simp: first_delim_Cons split: if_splits)
qed

lemma first_delim_less: "first_delim s = Some k \<Longrightarrow> k < length s"
  by (induction s arbitrary: k) (auto simp: first_delim_Cons split: if_splits, auto simp: first_delim_def)

lemma first_delim_line:
  "list_all (\<lambda>c. \<not> ISDELIM c) line \<Longrightarrow> ISDELIM d \<Longrightarrow> first_delim (line @ d # rest) = Some (length line)"
  by (induction line) (auto simp: first_delim_Cons)

lemma find_delim_loop_first:
  "p + n \<le> length buf \<Longrightarrow> find_delim_loop buf p n = map_option (\<lambda>k. p + k) (first_delim (take n (drop p buf)))"
proof (induction n arbitrary: p)
  case 0
  then show ?case by (simp add: first_delim_def)
next
  case (Suc n)
  then have dr: "drop p buf = buf ! p # drop (Suc p) buf" by (simp add: Cons_nth_drop_Suc)
  from Suc.IH [of "p + 1"] Suc.prems show ?case
    by (simp add: dr first_delim_Cons option.map_comp comp_def)
qed

lemma find_delim_spec:
  assumes "rx_ok rctx"
  shows "\<exists>rctx'. find_delim rctx = Some (map_option (\<lambda>k. rx_wptr rctx + k) (first_delim (pend rctx)), rctx') \<and>
     rx_ok rctx' \<and> pend rctx' = pend rctx \<and> rx_wptr rctx' = rx_wptr rctx \<and> rx_eptr rctx' = rx_eptr rctx"
proof -
  let ?buf = "(rx_workbuf rctx)[rx_eptr rctx := NUL]"
  have l: "rx_eptr rctx < length (rx_workbuf rctx)" using assms by (simp add: rx_ok_def)
  have p: "take (rx_eptr rctx - rx_wptr rctx) (drop (rx_wptr rctx) ?buf) = pend rctx"
    using assms by (simp add: pend_def rx_ok_def drop_update_swap)
  have "find_delim_loop ?buf (rx_wptr rctx) (rx_eptr rctx - rx_wptr rctx) =
      map_option (\<lambda>k. rx_wptr rctx + k) (first_delim (pend rctx))"
    using assms find_delim_loop_first [of "rx_wptr rctx" "rx_eptr rctx - rx_wptr rctx" ?buf] p
    by (simp add: rx_ok_def)
  moreover have "pend (rctx\<lparr>rx_workbuf := ?buf\<rparr>) = pend rctx" using p by (simp add: pend_def)
  ultimately show ?thesis using l assms
    by (intro exI [of _ "rctx\<lparr>rx_workbuf := ?buf\<rparr>"]) (simp add: find_delim_def rx_ok_def)
qed

lemma wr_bytes_fit:
  "off + length d \<le> length buf \<Longrightarrow> wr_bytes buf off d = Some (take off buf @ d @ drop (off + length d) buf)"
proof (induction d arbitrary: buf off)
  case (Cons c d)
  then have "wr buf off c = Some (buf[off := c])" by simp
  moreover have "take (off + 1) (buf[off := c]) = take off buf @ [c]"
    using Cons.prems by (simp add: take_Suc_conv_app_nth)
  moreover have "drop (off + 1 + length d) (buf[off := c]) = drop (off + Suc (length d)) buf" by simp
  ultimately show ?case using Cons.IH [of "off + 1" "buf[off := c]"] Cons.prems by simp
qed simp

lemma px_trem_rx: "px_trem tend trem w = (t, w') \<Longrightarrow> nt_rx w' = nt_rx w"
  by (auto simp: px_trem_def lsi_b_tstamp_us_def split: if_splits prod.splits list.splits)

lemma px_tend_rx: "px_tend to_us w = (t, w') \<Longrightarrow> nt_rx w' = nt_rx w"
  by (auto simp: px_tend_def lsi_b_tstamp_us_def split: if_splits prod.splits list.splits)

lemma rx_cong: "nt_rx w' = nt_rx w \<Longrightarrow> rxs w' = rxs w \<and> only_data w' = only_data w \<and> rx_bytes w' = rx_bytes w"
  by (simp add: rxs_def only_data_def rx_bytes_def)

lemma read_wrap_eq: "read_wrap shnd sz t w = lsi_b_read sz t w"
  by (simp add: read_wrap_def lsi_b_read_ssl_def)

lemma lsi_b_read_data:
  assumes "only_data w" "rxs w \<noteq> []" "0 < sz"
  shows "\<exists>d w'. lsi_b_read sz t w = (int (length d), d, w') \<and> d \<noteq> [] \<and> length d \<le> sz \<and>
     rxs w = d @ rxs w' \<and> only_data w' \<and> rx_bytes w' < rx_bytes w"
proof -
  obtain c d es where rx: "nt_rx w = Rx_data (c # d) # es"
    using assms(1,2) by (cases "nt_rx w") (auto simp: only_data_def rxs_def)
  obtain sz' where sz: "sz = Suc sz'" using assms(3) by (cases sz) auto
  have r: "drop sz (c # d) = [] \<or> (\<exists>c' d'. drop sz (c # d) = c' # d')"
    by (cases "drop sz (c # d)") auto
  then show ?thesis
    using assms(1) rx append_take_drop_id [of sz' d] arg_cong [OF append_take_drop_id [of sz' d], of length]
    by (auto simp: lsi_b_read_def Let_def sz rxs_def only_data_def rx_bytes_def simp del: append_take_drop_id)
qed

lemma read_more_spec:
  assumes ok: "rx_ok rctx" and od: "only_data w" and ne: "rxs w \<noteq> []" and room: "length (pend rctx) < WORKBUF_SZ"
  shows "\<exists>rctx' w'. read_more shnd rctx t w = Some (1, rctx', w') \<and> rx_ok rctx' \<and> only_data w' \<and>
     pend rctx' @ rxs w' = pend rctx @ rxs w \<and> rx_bytes w' < rx_bytes w"
proof -
  let ?full = "rx_eptr rctx = WORKBUF_SZ"
  define r1 where "r1 = (if ?full then rctx\<lparr>rx_workbuf := move_front (rx_workbuf rctx) (rx_wptr rctx) (rx_eptr rctx - rx_wptr rctx),
      rx_wptr := 0, rx_eptr := rx_eptr rctx - rx_wptr rctx\<rparr> else rctx)"
  have lp: "length (pend rctx) = rx_eptr rctx - rx_wptr rctx" by (rule length_pend [OF ok])
  have f: "WORKBUF_SZ - rx_eptr rctx = 0 \<longleftrightarrow> ?full" using ok by (auto simp: rx_ok_def)
  have nf: "\<not> (?full \<and> rx_wptr rctx = 0)" using room lp by auto
  have ok1: "rx_ok r1" using ok by (auto simp: r1_def rx_ok_def move_front_def)
  have p1: "pend r1 = pend rctx" using ok by (auto simp: r1_def pend_def move_front_def rx_ok_def)
  have room1: "0 < WORKBUF_SZ - rx_eptr r1" using room lp ok by (auto simp: r1_def rx_ok_def)
  from lsi_b_read_data [OF od ne room1, of t] obtain d w' where rd:
    "lsi_b_read (WORKBUF_SZ - rx_eptr r1) t w = (int (length d), d, w')" "d \<noteq> []"
    "length d \<le> WORKBUF_SZ - rx_eptr r1" "rxs w = d @ rxs w'" "only_data w'" "rx_bytes w' < rx_bytes w" by blast
  let ?buf = "take (rx_eptr r1) (rx_workbuf r1) @ d @ drop (rx_eptr r1 + length d) (rx_workbuf r1)"
  have wb: "wr_bytes (rx_workbuf r1) (rx_eptr r1) d = Some ?buf"
    using ok1 rd(3) by (intro wr_bytes_fit) (auto simp: rx_ok_def)
  let ?r2 = "r1\<lparr>rx_workbuf := ?buf, rx_eptr := rx_eptr r1 + length d\<rparr>"
  have "read_more shnd rctx t w = Some (1, ?r2, w')"
    unfolding read_more_def Let_def f r1_def [symmetric] read_wrap_eq
    using nf rd(1,2) wb by simp
  moreover have "rx_ok ?r2" using ok1 rd(3) by (auto simp: rx_ok_def)
  moreover have "pend ?r2 = pend r1 @ d"
  proof -
    have "take (rx_eptr r1 + length d - rx_wptr r1) (drop (rx_wptr r1) ?buf) =
        take (rx_eptr r1 - rx_wptr r1) (drop (rx_wptr r1) (rx_workbuf r1)) @ d"
      using ok1 by (auto simp: rx_ok_def drop_take)
    then show ?thesis by (simp add: pend_def)
  qed
  ultimately show ?thesis using p1 rd(4,5,6) by auto
qed


lemma fill_loop_spec:
  assumes "rx_ok rctx" "only_data w" "first_delim (pend rctx @ rxs w) = Some k" "k < WORKBUF_SZ"
    "rx_bytes w < fuel"
  shows "\<exists>rctx' t' w'. fill_loop fuel shnd rctx tend t w = Some (1, rx_wptr rctx' + k, rctx', t', w') \<and>
     rx_ok rctx' \<and> only_data w' \<and> pend rctx' @ rxs w' = pend rctx @ rxs w \<and>
     first_delim (pend rctx') = Some k \<and> rx_bytes w' \<le> rx_bytes w"
  using assms
proof (induction fuel arbitrary: rctx t w)
  case (Suc fuel)
  from find_delim_spec [OF Suc.prems(1)] obtain r1 where r1:
    "find_delim rctx = Some (map_option (\<lambda>k. rx_wptr rctx + k) (first_delim (pend rctx)), r1)"
    "rx_ok r1" "pend r1 = pend rctx" "rx_wptr r1 = rx_wptr rctx" by blast
  show ?case
  proof (cases "first_delim (pend rctx)")
    case (Some j)
    with Suc.prems(3) first_delim_append [OF Some, of "rxs w"] have "j = k" by simp
    with Some r1 Suc.prems show ?thesis by (intro exI [of _ r1] exI [of _ t] exI [of _ w]) simp
  next
    case None
    obtain t1 w1 where t1: "px_trem tend t w = (t1, w1)" by (cases "px_trem tend t w") auto
    note rx1 = rx_cong [OF px_trem_rx [OF t1]]
    from Suc.prems(3) None first_delim_append_None [OF None, of "rxs w"]
    have "length (pend rctx) \<le> k" "rxs w \<noteq> []" by (auto simp: first_delim_def split: if_splits)
    then have "length (pend r1) < WORKBUF_SZ" "rxs w1 \<noteq> []" using Suc.prems(4) r1(3) rx1 by auto
    from read_more_spec [OF r1(2) _ this(2,1), of shnd t1] Suc.prems(2) rx1 obtain r2 w2 where r2:
      "read_more shnd r1 t1 w1 = Some (1, r2, w2)" "rx_ok r2" "only_data w2"
      "pend r2 @ rxs w2 = pend rctx @ rxs w" "rx_bytes w2 < rx_bytes w" using r1(3) by auto
    have b: "rx_bytes w2 < fuel" using r2(5) Suc.prems(5) by simp
    from Suc.IH [OF r2(2,3), of t1] r2(4) Suc.prems(3,4) b obtain rctx' t' w' where ih:
      "fill_loop fuel shnd r2 tend t1 w2 = Some (1, rx_wptr rctx' + k, rctx', t', w')" "rx_ok rctx'"
      "only_data w'" "pend rctx' @ rxs w' = pend rctx @ rxs w" "first_delim (pend rctx') = Some k"
      "rx_bytes w' \<le> rx_bytes w2" by auto
    have "fill_loop (Suc fuel) shnd rctx tend t w = Some (1, rx_wptr rctx' + k, rctx', t', w')"
      using r1(1) None t1 r2(1) ih(1) by simp
    with ih r2(5) show ?thesis by (intro exI [of _ rctx'] exI [of _ t'] exI [of _ w']) simp
  qed
qed simp

text \<open>Stepping over the first bytes of the buffer\<close>

lemma pend_advance:
  assumes "rx_ok rctx" "n \<le> length (pend rctx)"
  shows "rx_ok (rctx\<lparr>rx_wptr := rx_wptr rctx + n\<rparr>)" "pend (rctx\<lparr>rx_wptr := rx_wptr rctx + n\<rparr>) = drop n (pend rctx)"
  using assms length_pend [OF assms(1)] by (auto simp: rx_ok_def pend_def drop_take add.commute)

lemma workbuf_split:
  assumes "rx_ok rctx" "pend rctx = line @ d # r"
  shows "\<exists>post. rx_workbuf rctx = take (rx_wptr rctx) (rx_workbuf rctx) @ line @ d # post \<and>
     take (length r) post = r"
proof -
  let ?b = "rx_workbuf rctx" and ?w = "rx_wptr rctx"
  have "drop ?w ?b = pend rctx @ drop (rx_eptr rctx - ?w) (drop ?w ?b)"
    by (simp add: pend_def del: drop_drop)
  then have "?b = take ?w ?b @ line @ d # (r @ drop (rx_eptr rctx - ?w) (drop ?w ?b))"
    unfolding assms(2) by (metis append_Cons append_assoc append_take_drop_id)
  then show ?thesis by auto
qed

lemma line_loop_spec:
  assumes "rx_ok rctx" "only_data w" "pend rctx @ rxs w = ds @ line @ d # rest"
    "list_all ISDELIM ds" "ISDELIM d" "list_all (\<lambda>c. \<not> ISDELIM c) line" "line \<noteq> []" "length line < WORKBUF_SZ"
    "rx_bytes w < fl" "length ds < fuel"
  shows "\<exists>rctx' t' w' p. line_loop fuel fl shnd rctx tend t w = Some (1, p, p + length line, rctx', w') \<and>
     rx_ok rctx' \<and> only_data w' \<and> pend rctx' @ rxs w' = rest \<and> rx_wptr rctx' = p + length line + 1 \<and>
     (\<exists>post. rx_workbuf rctx' = take p (rx_workbuf rctx') @ line @ d # post)"
  using assms
proof (induction fuel arbitrary: ds rctx t w)
  case (Suc fuel)
  show ?case
  proof (cases ds)
    case (Cons c ds')
    then have k: "first_delim (pend rctx @ rxs w) = Some 0"
      using Suc.prems(3,4) by (simp add: first_delim_Cons)
    from fill_loop_spec [OF Suc.prems(1,2) k, of fl shnd tend t] Suc.prems(8,9) obtain r1 t1 w1 where f:
      "fill_loop fl shnd rctx tend t w = Some (1, rx_wptr r1 + 0, r1, t1, w1)" "rx_ok r1" "only_data w1"
      "pend r1 @ rxs w1 = ds @ line @ d # rest" "first_delim (pend r1) = Some 0" "rx_bytes w1 \<le> rx_bytes w"
      using Suc.prems(3) by auto
    let ?r2 = "r1\<lparr>rx_wptr := rx_wptr r1 + 1\<rparr>"
    have l: "1 \<le> length (pend r1)" using first_delim_less [OF f(5)] by (cases "pend r1") simp_all
    have "pend r1 = c # tl (pend r1)" using l f(4) Cons by (cases "pend r1") auto
    then have "drop 1 (pend r1) @ rxs w1 = ds' @ line @ d # rest"
      using f(4) Cons by (metis append_Cons drop0 drop_Suc_Cons list.sel(3) One_nat_def)
    then have s: "pend ?r2 @ rxs w1 = ds' @ line @ d # rest" using pend_advance(2) [OF f(2) l] by simp
    have ld: "list_all ISDELIM ds'" and lf: "length ds' < fuel" and bf: "rx_bytes w1 < fl"
      using Suc.prems(4,9,10) Cons f(6) by auto
    from Suc.IH [OF pend_advance(1) [OF f(2) l] f(3) s ld Suc.prems(5-8) bf lf, of t1]
    show ?thesis using f(1) by simp
  next
    case Nil
    then have k: "first_delim (pend rctx @ rxs w) = Some (length line)"
      using Suc.prems(3,5,6) by (simp add: first_delim_line)
    from fill_loop_spec [OF Suc.prems(1,2) k, of fl shnd tend t] Suc.prems(8,9) obtain r1 t1 w1 where f:
      "fill_loop fl shnd rctx tend t w = Some (1, rx_wptr r1 + length line, r1, t1, w1)" "rx_ok r1" "only_data w1"
      "pend r1 @ rxs w1 = line @ d # rest" "first_delim (pend r1) = Some (length line)"
      using Suc.prems(3) Nil by auto
    have l: "length line + 1 \<le> length (pend r1)" using first_delim_less [OF f(5)] by simp
    let ?r2 = "r1\<lparr>rx_wptr := rx_wptr r1 + (length line + 1)\<rparr>"
    have p: "pend r1 = line @ d # drop (length line + 1) (pend r1)"
    proof -
      have "take (length line + 1) (pend r1) = take (length line + 1) (pend r1 @ rxs w1)" using l by simp
      also have "\<dots> = line @ [d]" unfolding f(4) by simp
      finally show ?thesis by (metis append_Cons append_Nil append_assoc append_take_drop_id)
    qed
    then have "drop (length line + 1) (pend r1) @ rxs w1 = rest"
      using f(4) by (metis append_Cons append_assoc list.inject same_append_eq)
    then have s: "pend ?r2 @ rxs w1 = rest" using pend_advance(2) [OF f(2) l] by simp
    from workbuf_split [OF f(2) p] obtain post where
      "rx_workbuf ?r2 = take (rx_wptr r1) (rx_workbuf ?r2) @ line @ d # post" by auto
    then have "\<exists>post. rx_workbuf ?r2 = take (rx_wptr r1) (rx_workbuf ?r2) @ line @ d # post" by blast
    moreover have "line_loop (Suc fuel) fl shnd rctx tend t w =
        Some (1, rx_wptr r1, rx_wptr r1 + length line, ?r2, w1)"
      using f(1) Suc.prems(7) by (simp add: Let_def)
    moreover have "rx_wptr ?r2 = rx_wptr r1 + length line + 1" by simp
    ultimately show ?thesis using f(3) s pend_advance(1) [OF f(2) l] by blast
  qed
qed simp

lemma skip_delims_spec:
  "p + n \<le> length buf \<Longrightarrow> skip_delims buf p n = p + length (takeWhile ISDELIM (take n (drop p buf)))"
proof (induction n arbitrary: p)
  case (Suc n)
  then have "drop p buf = buf ! p # drop (Suc p) buf" by (simp add: Cons_nth_drop_Suc)
  with Suc show ?case by simp
qed simp

lemma reset_empty_spec:
  assumes "rx_ok rctx"
  shows "rx_ok (reset_empty rctx) \<and> pend (reset_empty rctx) = dropWhile ISDELIM (pend rctx)"
proof -
  let ?n = "length (takeWhile ISDELIM (pend rctx))"
  have w: "skip_delims (rx_workbuf rctx) (rx_wptr rctx) (rx_eptr rctx - rx_wptr rctx) = rx_wptr rctx + ?n"
    using assms skip_delims_spec [of "rx_wptr rctx" "rx_eptr rctx - rx_wptr rctx" "rx_workbuf rctx"]
    by (simp add: rx_ok_def pend_def)
  have n: "?n \<le> length (pend rctx)" by (rule length_takeWhile_le)
  have dw: "dropWhile ISDELIM (pend rctx) = drop ?n (pend rctx)" by (rule dropWhile_eq_drop)
  show ?thesis
  proof (cases "rx_wptr rctx + ?n = rx_eptr rctx")
    case True
    then have "?n = length (pend rctx)" using length_pend [OF assms] assms by (simp add: rx_ok_def)
    then have e: "dropWhile ISDELIM (pend rctx) = []" using dw by (metis drop_all order_refl)
    from True assms show ?thesis unfolding e by (simp add: reset_empty_def w rx_ok_def pend_def)
  next
    case False
    with pend_advance [OF assms n] dw show ?thesis by (simp add: reset_empty_def w)
  qed
qed

lemma rxs_le_bytes: "length (rxs w) \<le> rx_bytes w"
proof -
  have "length (concat (map f xs)) = sum_list (map (\<lambda>e. length (f e)) xs)" for f :: "rx_event \<Rightarrow> string" and xs
    by (induction xs) auto
  moreover have "(case e of Rx_data d \<Rightarrow> length d | _ \<Rightarrow> 0) = length (case e of Rx_data d \<Rightarrow> d | _ \<Rightarrow> [])" for e
    by (cases e) auto
  ultimately show ?thesis by (simp add: rxs_def rx_bytes_def)
qed


lemma dropWhile_delims:
  assumes "a @ b = ds @ line @ d # rest" "list_all ISDELIM ds" "\<not> ISDELIM (hd line)" "line \<noteq> []"
  shows "\<exists>ds'. dropWhile ISDELIM a @ b = ds' @ line @ d # rest \<and> list_all ISDELIM ds' \<and> length ds' \<le> length ds"
  using assms(1,2)
proof (induction a arbitrary: ds)
  case Nil
  then show ?case by auto
next
  case (Cons x a)
  show ?case
  proof (cases ds)
    case Nil
    then have "x = hd line" using Cons.prems(1) assms(4) by (cases line) auto
    with Nil Cons.prems assms(3) show ?thesis by (intro exI [of _ "[]"]) simp
  next
    case (Cons y ds')
    with Cons.prems have x: "ISDELIM x" "a @ b = ds' @ line @ d # rest" "list_all ISDELIM ds'" by auto
    from Cons.IH [OF x(2,3)] x(1) Cons show ?thesis by auto
  qed
qed

lemma hd_not_delim: "list_all (\<lambda>c. \<not> ISDELIM c) line \<Longrightarrow> line \<noteq> [] \<Longrightarrow> \<not> ISDELIM (hd line)"
  by (cases line) auto

lemma line_loop_from_reset:
  assumes "rx_ok rctx" "only_data w" "pend rctx @ rxs w = ds @ line @ d # rest"
    "list_all ISDELIM ds" "ISDELIM d" "list_all (\<lambda>c. \<not> ISDELIM c) line" "line \<noteq> []" "length line < WORKBUF_SZ"
  shows "\<exists>rctx' w' p. line_loop (line_fuel (reset_empty rctx) w) (read_fuel w) shnd (reset_empty rctx) tend 0 w =
       Some (1, p, p + length line, rctx', w') \<and>
     rx_ok rctx' \<and> only_data w' \<and> pend rctx' @ rxs w' = rest \<and> rx_wptr rctx' = p + length line + 1 \<and>
     (\<exists>post. rx_workbuf rctx' = take p (rx_workbuf rctx') @ line @ d # post)"
proof -
  note re = reset_empty_spec [OF assms(1)]
  from dropWhile_delims [OF assms(3,4) hd_not_delim [OF assms(6,7)] assms(7)] obtain ds' where ds':
    "pend (reset_empty rctx) @ rxs w = ds' @ line @ d # rest" "list_all ISDELIM ds'" using re by auto
  have "length ds' < line_fuel (reset_empty rctx) w"
    using arg_cong [OF ds'(1), of length] length_pend [of "reset_empty rctx"] re rxs_le_bytes [of w]
    by (simp add: line_fuel_def)
  then show ?thesis
    using line_loop_spec [of "reset_empty rctx" w ds' line d rest "read_fuel w" "line_fuel (reset_empty rctx) w" shnd tend 0]
      re assms(2,5-8) ds' by (auto simp: read_fuel_def)
qed

lemma workbuf_line_upd:
  assumes "rx_workbuf rctx = take p (rx_workbuf rctx) @ line @ d # post" "length line + p < length (rx_workbuf rctx)"
  shows "wr (rx_workbuf rctx) (p + length line) NUL = Some (take p (rx_workbuf rctx) @ line @ NUL # post)"
proof -
  let ?t = "take p (rx_workbuf rctx)"
  have l: "length ?t = p" using assms(2) by simp
  have "(?t @ line @ d # post)[p + length line := NUL] = ?t @ line @ NUL # post"
    using l by (simp add: list_update_append)
  with assms show ?thesis by (simp add: wr_def)
qed

text \<open>Changing the consumed part of the buffer leaves the stream as it is.\<close>

lemma pend_consumed:
  assumes "rx_ok rctx" "rx_workbuf rctx = a @ x # post" "rx_wptr rctx = length a + 1" "length b = length a"
  shows "rx_ok (rctx\<lparr>rx_workbuf := b @ y # post\<rparr>)" "pend (rctx\<lparr>rx_workbuf := b @ y # post\<rparr>) = pend rctx"
  using assms by (auto simp: rx_ok_def pend_def)

text \<open>
  C2: Framing.  Whatever pieces the bytes arrive in, and wherever the pending bytes lie in the
  receive buffer, \<open>lsi_io_read\<close> skips empty lines, takes exactly the bytes up to the next CR or LF
  as a line, splits it by the grammar of \<open>parse_line\<close> and leaves exactly the rest of the stream
  for the next call.  It never leaves the buffer.
\<close>

theorem lsi_io_read_frames_line:
  assumes "rx_ok rctx" "only_data w" "pend rctx @ rxs w = ds @ line @ d # rest"
    "list_all ISDELIM ds" "ISDELIM d" "list_all (\<lambda>c. \<not> ISDELIM c) line" "cstr_ok line"
    "line \<noteq> []" "hd line \<noteq> CHR ''@''" "length line < WORKBUF_SZ"
  shows "\<exists>r offs tags rctx' w'. lsi_io_read shnd rctx ntags to_us w = Some (r, offs, tags, rctx', w') \<and>
     r = (if parse_line line = None then -1 else 1) \<and>
     (\<forall>m. parse_line line = Some m \<longrightarrow> tok_strs (rx_workbuf rctx') offs = msg_fields m) \<and>
     rx_ok rctx' \<and> only_data w' \<and> pend rctx' @ rxs w' = rest"
proof -
  obtain tend w1 where t: "px_tend to_us w = (tend, w1)" by (cases "px_tend to_us w") auto
  note rx1 = rx_cong [OF px_tend_rx [OF t]]
  from line_loop_from_reset [OF assms(1) _ _ assms(4,5,6,8,10), of w1 rest shnd tend] assms(2,3) rx1
  obtain r1 w2 p post where l:
    "line_loop (line_fuel (reset_empty rctx) w1) (read_fuel w1) shnd (reset_empty rctx) tend 0 w1 =
       Some (1, p, p + length line, r1, w2)" "rx_ok r1" "only_data w2" "pend r1 @ rxs w2 = rest"
    "rx_wptr r1 = p + length line + 1" "rx_workbuf r1 = take p (rx_workbuf r1) @ line @ d # post" by auto
  let ?t = "take p (rx_workbuf r1)"
  have pl: "length line + p < length (rx_workbuf r1)" using l(2,5) by (simp add: rx_ok_def)
  then have lt: "length ?t = p" by simp
  note wr = workbuf_line_upd [OF l(6) pl]
  have nth: "(?t @ line @ NUL # post) ! p = hd line"
    using lt assms(8) by (cases line) (auto simp: nth_append)
  from lsi_ut_tokenize_spec [OF assms(7), of ?t post] obtain s' offs where tk:
    "lsi_ut_tokenize (?t @ line @ NUL # post) p = Some (parse_line line \<noteq> None, ?t @ s' @ NUL # post, offs)"
    "length s' = length line" "\<forall>m. parse_line line = Some m \<longrightarrow> tok_strs (?t @ s' @ NUL # post) offs = msg_fields m"
    using lt by auto
  let ?r = "r1\<lparr>rx_workbuf := ?t @ s' @ NUL # post\<rparr>"
  have res: "lsi_io_read shnd rctx ntags to_us w =
      Some (if parse_line line = None then -1 else 1, offs, map_option (\<lambda>_. []) ntags, ?r, w2)"
    using l(1) wr nth assms(9) tk(1) by (simp add: lsi_io_read_def t)
  have okr: "rx_ok ?r" "pend ?r = pend r1"
    using pend_consumed [OF l(2), of "?t @ line" d post "?t @ s'" NUL] l(5,6) lt tk(2) by auto
  show ?thesis
  proof (intro exI conjI)
    show "lsi_io_read shnd rctx ntags to_us w =
      Some (if parse_line line = None then -1 else 1, offs, map_option (\<lambda>_. []) ntags, ?r, w2)" by (rule res)
    show "\<forall>m. parse_line line = Some m \<longrightarrow> tok_strs (rx_workbuf ?r) offs = msg_fields m" using tk(3) by simp
    show "rx_ok ?r" "only_data w2" "pend ?r @ rxs w2 = rest" using okr l(3,4) by simp_all
  qed simp
qed

theorem lsi_io_read_frames_line_witness:
  "\<exists>offs tags rctx' w'. lsi_io_read False \<lparr>rx_workbuf = replicate (WORKBUF_SZ + 1) NUL, rx_wptr = 0, rx_eptr = 0\<rparr> None 0
      \<lparr>nt_clk = [], nt_rx = [Rx_data [CHR 0x0D, CHR ''P''], Rx_data (''ING :a b'' @ [CHR 0x0A]), Rx_data ''NICK''],
       nt_wr = [], nt_tx = [], nt_to = [], nt_sys = [], nt_closed = [], nt_rand = []\<rparr> =
        Some (1, offs, tags, rctx', w') \<and>
     tok_strs (rx_workbuf rctx') offs = msg_fields (None, ''PING'', [''a b'']) \<and>
     pend rctx' @ rxs w' = ''NICK''"
proof -
  have p: "parse_line ''PING :a b'' = Some (None, ''PING'', [''a b''])" by code_simp
  have r: "rx_ok \<lparr>rx_workbuf = replicate (WORKBUF_SZ + 1) NUL, rx_wptr = 0, rx_eptr = 0\<rparr>"
    by (simp add: rx_ok_def)
  show ?thesis
    using lsi_io_read_frames_line [of "\<lparr>rx_workbuf = replicate (WORKBUF_SZ + 1) NUL, rx_wptr = 0, rx_eptr = 0\<rparr>"
        "\<lparr>nt_clk = [], nt_rx = [Rx_data [CHR 0x0D, CHR ''P''], Rx_data (''ING :a b'' @ [CHR 0x0A]), Rx_data ''NICK''],
          nt_wr = [], nt_tx = [], nt_to = [], nt_sys = [], nt_closed = [], nt_rand = []\<rparr>"
        "[CHR 0x0D]" "''PING :a b''" "CHR 0x0A" "''NICK''" False None 0] r p
    by (auto simp: only_data_def pend_def rxs_def ISDELIM_def WORKBUF_SZ_def)
qed

end
