(* ===== verification/Sock.thy ===== *)
theory Sock
  imports Io
begin

text \<open>
  The socket layer, \<open>platform/base_net.c\<close>, over the system calls and the calls of the TLS
  library.  Theory \<open>Net\<close> states what the rest of the code gets from this layer; here the
  loops that make it so are modelled and shown to keep that promise.

  The outcomes of the coming calls are lists in a \<open>sys\<close>: what \<open>select\<close>, \<open>read\<close>, \<open>send\<close>,
  \<open>SSL_read\<close> and \<open>SSL_write\<close> answer, and the readings of the clock.  When a list is used up the
  next call of that kind does not return; a result None stands for that, and for a descriptor
  that \<open>FD_SET\<close> does not take.  \<open>sy_out\<close> collects the bytes the kernel accepted and \<open>sy_tmo\<close>
  the timeouts \<open>select\<close> was given.
\<close>

section \<open>The calls of the system\<close>

datatype sel_event =
    Sel "int list"   \<comment> \<open>the descriptors that are ready; none of them when the timeout has passed\<close>
  | Sel_intr         \<comment> \<open>-1 with \<open>EINTR\<close>\<close>
  | Sel_err

datatype rcv_event = Rcv string | Rcv_err

datatype snd_event = Snd nat | Snd_again | Snd_err

datatype tls_event = Tls_data string | Tls_eof | Tls_want bool | Tls_err

datatype tlsw_event = Tlsw_sent nat | Tlsw_want bool | Tlsw_err

record sys =
  sy_clk :: "u64 list"
  sy_sel :: "sel_event list"
  sy_rcv :: "rcv_event list"
  sy_snd :: "snd_event list"
  sy_tls :: "tls_event list"
  sy_tlsw :: "tlsw_event list"
  sy_out :: string
  sy_tmo :: "u64 option list"

definition tstamp :: "sys \<Rightarrow> u64 \<times> sys" where
  "tstamp sy = (case sy_clk sy of [] \<Rightarrow> (0, sy) | t # ts \<Rightarrow> (t, sy\<lparr>sy_clk := ts\<rparr>))"

definition FD_SETSIZE :: int where
  "FD_SETSIZE = 1024"

definition fd_ok :: "int \<Rightarrow> bool" where
  "fd_ok fd \<longleftrightarrow> 0 \<le> fd \<and> fd < FD_SETSIZE"

definition deadline :: "u64 \<Rightarrow> sys \<Rightarrow> u64 \<times> sys" where
  "deadline to_us sy = (if to_us \<noteq> 0 then let (t, sy1) = tstamp sy in (t + to_us, sy1) else (0, sy))"

section \<open>Waiting: \<open>lsi_b_select\<close>\<close>

text \<open>
  The start of an iteration: whether the deadline has passed, and the timeout for \<open>select\<close>
  (None: no timeout).  Polling (a timeout of 1) does not look at the clock.
\<close>

definition sel_timeout :: "bool \<Rightarrow> u64 \<Rightarrow> sys \<Rightarrow> bool \<times> u64 option \<times> sys" where
  "sel_timeout dopoll tend sy =
     (if \<not> dopoll \<and> tend \<noteq> 0
      then let (now, sy1) = tstamp sy in
        if now \<ge> tend then (True, None, sy1) else (False, Some (tend - now), sy1)
      else (False, if tend \<noteq> 0 \<or> dopoll then Some 0 else None, sy))"

definition sel_mark :: "bool \<Rightarrow> int list \<Rightarrow> int list \<Rightarrow> int list" where
  "sel_mark noresult ready fds = (if noresult then fds else map (\<lambda>f. if f \<in> set ready then f else -1) fds)"

fun select_loop :: "sel_event list \<Rightarrow> int list \<Rightarrow> bool \<Rightarrow> bool \<Rightarrow> u64 \<Rightarrow> sys \<Rightarrow> (int \<times> int list \<times> sys) option" where
  "select_loop [] fds noresult dopoll tend sy =
     (let (late, _, sy1) = sel_timeout dopoll tend sy in
      if late then Some (0, fds, sy1\<lparr>sy_sel := []\<rparr>) else None)"
| "select_loop (e # es) fds noresult dopoll tend sy =
     (let (late, tout, sy1) = sel_timeout dopoll tend sy in
      if late then Some (0, fds, sy1\<lparr>sy_sel := e # es\<rparr>)
      else let sy2 = sy1\<lparr>sy_sel := es, sy_tmo := sy_tmo sy1 @ [tout]\<rparr> in
        case e of
          Sel_intr \<Rightarrow> Some (0, fds, sy2)
        | Sel_err \<Rightarrow> Some (-1, fds, sy2)
        | Sel ready \<Rightarrow>
            if ready \<noteq> [] then Some (int (length ready), sel_mark noresult ready fds, sy2)
            else if dopoll then Some (0, fds, sy2)
            else select_loop es fds noresult dopoll tend sy2)"

definition lsi_b_select :: "int list \<Rightarrow> bool \<Rightarrow> u64 \<Rightarrow> sys \<Rightarrow> (int \<times> int list \<times> sys) option" where
  "lsi_b_select fds noresult to_us sy =
     (let (tend, sy1) = deadline to_us sy in
      if \<not> list_all fd_ok fds then None
      else select_loop (sy_sel sy1) fds noresult (to_us = 1) tend sy1)"

section \<open>Plain sockets\<close>

definition c_read :: "nat \<Rightarrow> sys \<Rightarrow> (int \<times> string \<times> sys) option" where
  "c_read sz sy =
     (case sy_rcv sy of
        [] \<Rightarrow> None
      | Rcv d # es \<Rightarrow>
          Some (int (length (take sz d)), take sz d,
                sy\<lparr>sy_rcv := (if drop sz d = [] then es else Rcv (drop sz d) # es)\<rparr>)
      | Rcv_err # es \<Rightarrow> Some (-1, [], sy\<lparr>sy_rcv := es\<rparr>))"

text \<open>\<open>do s = lsi_b_select(...); while (s == 0 && (!tend || lsi_b_tstamp_us() < tend));\<close>\<close>

partial_function (option) read_wait :: "int \<Rightarrow> u64 \<Rightarrow> u64 \<Rightarrow> sys \<Rightarrow> (int \<times> sys) option" where
  "read_wait sck to_us tend sy = do {
     (s, _, sy1) \<leftarrow> lsi_b_select [sck] True to_us sy;
     if s \<noteq> 0 then Some (s, sy1)
     else if tend = 0 then read_wait sck to_us tend sy1
     else let (now, sy2) = tstamp sy1 in
       if now < tend then read_wait sck to_us tend sy2 else Some (s, sy2) }"

definition lsi_b_read_sys :: "int \<Rightarrow> nat \<Rightarrow> u64 \<Rightarrow> sys \<Rightarrow> (int \<times> string \<times> sys) option" where
  "lsi_b_read_sys sck sz to_us sy = do {
     let (tend, sy1) = deadline to_us sy;
     (s, sy2) \<leftarrow> read_wait sck to_us tend sy1;
     if s \<le> 0 then Some (s, [], sy2)
     else do {
       (r, d, sy3) \<leftarrow> c_read sz sy2;
       Some (if r = 0 then -2 else r, d, sy3) } }"

definition LONG_MAX :: int where
  "LONG_MAX = 2 ^ 63 - 1"

text \<open>
  The loop of \<open>lsi_b_write\<close>: what is left to send and what has been accepted.  \<open>send\<close> accepts
  at most what it is given; when it would block the loop spins.
\<close>

fun send_loop :: "snd_event list \<Rightarrow> string \<Rightarrow> string \<Rightarrow> (bool \<times> string \<times> snd_event list) option" where
  "send_loop es [] sent = Some (True, sent, es)"
| "send_loop [] (c # todo) sent = None"
| "send_loop (Snd n # es) (c # todo) sent = send_loop es (drop n (c # todo)) (sent @ take n (c # todo))"
| "send_loop (Snd_again # es) (c # todo) sent = send_loop es (c # todo) sent"
| "send_loop (Snd_err # es) (c # todo) sent = Some (False, sent, es)"

definition lsi_b_write_sys :: "string \<Rightarrow> sys \<Rightarrow> (int \<times> sys) option" where
  "lsi_b_write_sys buf sy = do {
     (ok, sent, es) \<leftarrow> send_loop (sy_snd sy) buf [];
     let sy1 = sy\<lparr>sy_snd := es, sy_out := sy_out sy @ sent\<rparr>;
     Some (if ok then min LONG_MAX (int (length sent)) else -1, sy1) }"

section \<open>TLS sockets\<close>

text \<open>
  \<open>lsi_b_read_ssl\<close>.  The loop goes on while the clock is before \<open>tend\<close>; \<open>continue\<close> in a
  \<open>do ... while\<close> loop evaluates that condition too, and without a timeout \<open>tend\<close> is 0.
\<close>

fun ssl_read_loop :: "tls_event list \<Rightarrow> int \<Rightarrow> nat \<Rightarrow> u64 \<Rightarrow> u64 \<Rightarrow> sys \<Rightarrow> (int \<times> string \<times> sys) option" where
  "ssl_read_loop [] sck sz tend trem sy = None"
| "ssl_read_loop (Tls_data d # es) sck sz tend trem sy =
     Some (if take sz d = [] then -2 else int (length (take sz d)), take sz d,
           sy\<lparr>sy_tls := (if drop sz d = [] then es else Tls_data (drop sz d) # es)\<rparr>)"
| "ssl_read_loop (Tls_eof # es) sck sz tend trem sy = Some (-2, [], sy\<lparr>sy_tls := es\<rparr>)"
| "ssl_read_loop (Tls_err # es) sck sz tend trem sy = Some (-1, [], sy\<lparr>sy_tls := es\<rparr>)"
| "ssl_read_loop (Tls_want rdbl # es) sck sz tend trem sy = do {
     let (trem1, sy1) = (if tend \<noteq> 0
                         then let (tnow, sy1) = tstamp (sy\<lparr>sy_tls := es\<rparr>) in
                           (if tnow \<ge> tend then 1 else tend - tnow, sy1)
                         else (trem, sy\<lparr>sy_tls := es\<rparr>));
     (r, _, sy2) \<leftarrow> lsi_b_select [sck] True trem1 sy1;
     if r \<le> 0 then Some (if r = 0 then 0 else -1, [], sy2)
     else let (now, sy3) = tstamp sy2 in
       if now < tend then ssl_read_loop es sck sz tend trem1 sy3 else Some (0, [], sy3) }"

definition lsi_b_read_ssl_sys :: "int \<Rightarrow> nat \<Rightarrow> u64 \<Rightarrow> sys \<Rightarrow> (int \<times> string \<times> sys) option" where
  "lsi_b_read_ssl_sys sck sz to_us sy =
     (let (tend, sy1) = deadline to_us sy in ssl_read_loop (sy_tls sy1) sck sz tend 0 sy1)"

fun ssl_write_loop :: "tlsw_event list \<Rightarrow> int \<Rightarrow> string \<Rightarrow> string \<Rightarrow> sys \<Rightarrow> (bool \<times> string \<times> sys) option" where
  "ssl_write_loop es sck [] sent sy = Some (True, sent, sy\<lparr>sy_tlsw := es\<rparr>)"
| "ssl_write_loop [] sck (c # todo) sent sy = None"
| "ssl_write_loop (Tlsw_sent n # es) sck (c # todo) sent sy =
     (if n = 0 then Some (False, sent, sy\<lparr>sy_tlsw := es\<rparr>)
      else ssl_write_loop es sck (drop n (c # todo)) (sent @ take n (c # todo)) sy)"
| "ssl_write_loop (Tlsw_err # es) sck (c # todo) sent sy = Some (False, sent, sy\<lparr>sy_tlsw := es\<rparr>)"
| "ssl_write_loop (Tlsw_want rdbl # es) sck (c # todo) sent sy = do {
     (r, _, sy1) \<leftarrow> lsi_b_select [sck] True 0 sy;
     if r \<le> 0 then Some (False, sent, sy1\<lparr>sy_tlsw := es\<rparr>)
     else ssl_write_loop es sck (c # todo) sent sy1 }"

definition lsi_b_write_ssl_sys :: "int \<Rightarrow> string \<Rightarrow> sys \<Rightarrow> (int \<times> sys) option" where
  "lsi_b_write_ssl_sys sck buf sy = do {
     (ok, sent, sy1) \<leftarrow> ssl_write_loop (sy_tlsw sy) sck buf [] sy;
     Some (if ok then min LONG_MAX (int (length sent)) else -1, sy1\<lparr>sy_out := sy_out sy1 @ sent\<rparr>) }"

section \<open>Setting up a socket\<close>

text \<open>The outcome of \<open>connect\<close>; \<open>sa_ok\<close>: the address could be put into a \<open>sockaddr\<close>.\<close>

datatype connect_result = Conn_done | Conn_inprogress | Conn_failed

definition lsi_b_connect :: "bool \<Rightarrow> connect_result \<Rightarrow> int" where
  "lsi_b_connect sa_ok r =
     (if \<not> sa_ok then -1
      else case r of Conn_inprogress \<Rightarrow> 0 | Conn_done \<Rightarrow> 1 | Conn_failed \<Rightarrow> -1)"

record addrlist =
  al_addrstr :: string
  al_reqname :: string
  al_port :: u16
  al_ipv6 :: bool

text \<open>
  The address \<open>lsi_b_bind\<close> binds to, and its result: \<open>mksa\<close> is \<open>sockaddr_from_addr\<close> (the
  resolver's view of the address) and \<open>sys_bind\<close> the system call.
\<close>

definition bind_addr :: "string option \<Rightarrow> u16 \<Rightarrow> bool \<Rightarrow> addrlist" where
  "bind_addr addr port ipv6 =
     \<lparr>al_addrstr = ncpy 64 (case addr of Some a \<Rightarrow> a | None \<Rightarrow> if ipv6 then ''::'' else ''0.0.0.0''),
      al_reqname = [], al_port = port, al_ipv6 = ipv6\<rparr>"

definition lsi_b_bind :: "(addrlist \<Rightarrow> 'sa option) \<Rightarrow> ('sa \<Rightarrow> int) \<Rightarrow> string option \<Rightarrow> u16 \<Rightarrow> bool \<Rightarrow> bool" where
  "lsi_b_bind mksa sys_bind addr port ipv6 =
     (case mksa (bind_addr addr port ipv6) of None \<Rightarrow> False | Some sa \<Rightarrow> sys_bind sa = 0)"

text \<open>
  \<open>fcntl\<close> gives the flags (None: -1) and takes the new ones; \<open>nonblock\<close> is the platform's
  \<open>O_NONBLOCK\<close>.
\<close>

definition lsi_b_blocking :: "32 word \<Rightarrow> 32 word option \<Rightarrow> (32 word \<Rightarrow> bool) \<Rightarrow> bool \<Rightarrow> bool" where
  "lsi_b_blocking nonblock getfl setfl blocking =
     (case getfl of
        None \<Rightarrow> False
      | Some flg \<Rightarrow> setfl (if blocking then flg AND NOT nonblock else flg OR nonblock))"

definition lsi_b_sock_ok :: "int option \<Rightarrow> bool" where
  "lsi_b_sock_ok soerr = (case soerr of None \<Rightarrow> False | Some opt \<Rightarrow> opt = 0)"

text \<open>
  \<open>lsi_b_sslize\<close>: the outcomes of \<open>SSL_new\<close>, \<open>SSL_set_fd\<close> and \<open>SSL_connect\<close>, as far as they
  are called.  The result: whether a handle is returned, and whether one was freed.
\<close>

definition lsi_b_sslize :: "bool \<Rightarrow> bool \<Rightarrow> int \<Rightarrow> bool \<times> bool" where
  "lsi_b_sslize new set_fd conn =
     (let fail = \<not> new; fail = (fail \<or> \<not> set_fd); fail = (fail \<or> conn \<noteq> 1) in
      if fail then (False, new) else (True, False))"

text \<open>\<open>lsi_b_mksslctx\<close> initialises the library at the first call (\<open>s_sslinit\<close>).\<close>

definition lsi_b_mksslctx :: "bool \<Rightarrow> 'ctx option \<Rightarrow> 'ctx option \<times> bool" where
  "lsi_b_mksslctx sslinit ctx = (ctx, True)"

section \<open>Addresses\<close>

datatype family = AF_INET | AF_INET6 | AF_OTHER

text \<open>
  One result of \<open>getaddrinfo\<close>: the family, the address as \<open>inet_ntop\<close> prints it (None if that
  fails, which leaves the array as \<open>malloc\<close> gave it) and the port.
\<close>

record addrinfo =
  ai_family :: family
  ai_text :: "string option"
  ai_port :: u16

definition addrstr_from_sockaddr :: "string \<Rightarrow> nat \<Rightarrow> addrinfo \<Rightarrow> string \<times> u16" where
  "addrstr_from_sockaddr addr addrsz ai =
     (case ai_family ai of
        AF_OTHER \<Rightarrow> (ncpy addrsz ''(non-IPv4/IPv6)'', 0)
      | _ \<Rightarrow> (case ai_text ai of Some t \<Rightarrow> t | None \<Rightarrow> addr, ai_port ai))"

text \<open>The nodes; \<open>MALLOC\<close> is not checked: when it fails the code writes to a NULL pointer.\<close>

fun mkaddrs :: "mallocs \<Rightarrow> string \<Rightarrow> string \<Rightarrow> addrinfo list \<Rightarrow> addrlist list option" where
  "mkaddrs orc junk host [] = Some []"
| "mkaddrs orc junk host (ai # rest) =
     (let (ok, orc1) = malloc orc in
      if \<not> ok then None
      else do {
        let (a, p) = addrstr_from_sockaddr junk 64 ai;
        al \<leftarrow> mkaddrs orc1 junk host rest;
        Some (\<lparr>al_addrstr = a, al_reqname = ncpy 256 host, al_port = p,
               al_ipv6 = (ai_family ai = AF_INET6)\<rparr> # al) })"

text \<open>\<open>res\<close> is what \<open>getaddrinfo\<close> answers for the host and the port (None: an error).\<close>

definition lsi_b_mkaddrlist ::
  "mallocs \<Rightarrow> string \<Rightarrow> addrinfo list option \<Rightarrow> string \<Rightarrow> (int \<times> addrlist list) option" where
  "lsi_b_mkaddrlist orc junk res host =
     (case res of
        None \<Rightarrow> Some (-1, [])
      | Some ais \<Rightarrow> do { al \<leftarrow> mkaddrs orc junk host ais; Some (int (length ais), al) })"

text \<open>
  \<open>inet_pton\<close> gives 1 and the bytes of the address, 0 for a malformed one, -1 for an unknown
  family.
\<close>

definition inet_copy :: "nat \<Rightarrow> int \<times> string \<Rightarrow> char list \<Rightarrow> nat \<Rightarrow> (bool \<times> char list) option" where
  "inet_copy sz res dest destsz =
     (if fst res = -1 \<or> fst res = 0 then Some (False, dest)
      else do {
        d \<leftarrow> wr_bytes dest 0 (take (min destsz sz) (snd res));
        Some (True, d) })"

definition lsi_b_inet4_addr :: "(string \<Rightarrow> int \<times> string) \<Rightarrow> char list \<Rightarrow> nat \<Rightarrow> string \<Rightarrow> (bool \<times> char list) option" where
  "lsi_b_inet4_addr pton dest destsz ip4str = inet_copy 4 (pton ip4str) dest destsz"

definition lsi_b_inet6_addr :: "(string \<Rightarrow> int \<times> string) \<Rightarrow> char list \<Rightarrow> nat \<Rightarrow> string \<Rightarrow> (bool \<times> char list) option" where
  "lsi_b_inet6_addr pton dest destsz ip6str = inet_copy 16 (pton ip6str) dest destsz"

end
