(* ===== verification/Sockprops.thy ===== *)
theory Sockprops
  imports Sock
begin

text \<open>
  The socket layer keeps the promise of theory \<open>Net\<close>.  A locale states what a source of bytes
  promises its reader; the plain socket, the TLS socket and the abstract \<open>lsi_b_read\<close> are
  interpretations.  The writers hand all bytes to the kernel, in order, or report a failure.
\<close>

section \<open>Sources of bytes\<close>

fun rcv_seq :: "(nat \<Rightarrow> u64 \<Rightarrow> 's \<Rightarrow> (int \<times> string \<times> 's) option) \<Rightarrow> (nat \<times> u64) list \<Rightarrow> 's \<Rightarrow> (string \<times> 's) option" where
  "rcv_seq rcv [] s = Some ([], s)"
| "rcv_seq rcv ((sz, t) # reqs) s = do {
     (_, d, s1) \<leftarrow> rcv sz t s;
     (ds, s2) \<leftarrow> rcv_seq rcv reqs s1;
     Some (d @ ds, s2) }"

text \<open>The answers a reader has to expect: data and its length, or 0, -1 or -2.\<close>

definition rcv_result :: "nat \<Rightarrow> int \<Rightarrow> string \<Rightarrow> bool" where
  "rcv_result sz r d \<longleftrightarrow> (if d = [] then r \<in> {0, -1, -2} else r = int (length d) \<and> length d \<le> sz)"

locale byte_source =
  fixes rcv :: "nat \<Rightarrow> u64 \<Rightarrow> 's \<Rightarrow> (int \<times> string \<times> 's) option"
    and pending :: "'s \<Rightarrow> string"
  assumes rcv_order: "rcv sz t s = Some (r, d, s') \<Longrightarrow> pending s = d @ pending s'"
    and rcv_answer: "rcv sz t s = Some (r, d, s') \<Longrightarrow> rcv_result sz r d"
begin

lemma seq_order: "rcv_seq rcv reqs s = Some (d, s') \<Longrightarrow> pending s = d @ pending s'"
proof (induction reqs arbitrary: s d)
  case (Cons q reqs)
  obtain sz t where q: "q = (sz, t)" by (cases q)
  from Cons.prems q obtain r d1 s1 d2
    where st: "rcv sz t s = Some (r, d1, s1)" "rcv_seq rcv reqs s1 = Some (d2, s')" "d = d1 @ d2" by auto
  from rcv_order [OF st(1)] Cons.IH [OF st(2)] st(3) show ?case by simp
qed simp

lemma refines_read:
  "rcv sz t s = Some (r, d, s') \<Longrightarrow> \<exists>e w'. lsi_b_read sz t (w\<lparr>nt_rx := [e]\<rparr>) = (r, d, w')"
proof -
  assume a: "rcv sz t s = Some (r, d, s')"
  have "\<exists>e. fst (lsi_b_read sz t (w\<lparr>nt_rx := [e]\<rparr>)) = r \<and> fst (snd (lsi_b_read sz t (w\<lparr>nt_rx := [e]\<rparr>))) = d"
  proof (cases "d = []")
    case True
    with rcv_answer [OF a] have "r = 0 \<or> r = -1 \<or> r = -2" by (simp add: rcv_result_def)
    then show ?thesis
    proof (elim disjE)
      assume "r = 0" with True show ?thesis by (intro exI [of _ Rx_timeout]) (simp add: lsi_b_read_def)
    next
      assume "r = -1" with True show ?thesis by (intro exI [of _ Rx_fail]) (simp add: lsi_b_read_def)
    next
      assume "r = -2" with True show ?thesis by (intro exI [of _ Rx_eof]) (simp add: lsi_b_read_def)
    qed
  next
    case False
    with rcv_answer [OF a] show ?thesis
      by (intro exI [of _ "Rx_data d"]) (simp add: lsi_b_read_def Let_def rcv_result_def)
  qed
  then show ?thesis by (metis prod.collapse)
qed

end

section \<open>Waiting leaves the data alone\<close>

lemma tstamp_frame [simp]:
  "sy_rcv (snd (tstamp sy)) = sy_rcv sy" "sy_tls (snd (tstamp sy)) = sy_tls sy"
  "sy_snd (snd (tstamp sy)) = sy_snd sy" "sy_tlsw (snd (tstamp sy)) = sy_tlsw sy"
  "sy_out (snd (tstamp sy)) = sy_out sy"
  by (auto simp: tstamp_def split: list.splits)

lemma tstamp_frameD:
  "tstamp sy = (t, sy') \<Longrightarrow> sy_rcv sy' = sy_rcv sy \<and> sy_tls sy' = sy_tls sy \<and> sy_out sy' = sy_out sy"
  using tstamp_frame [of sy] by simp

lemma deadline_frameD:
  "deadline t sy = (e, sy') \<Longrightarrow> sy_rcv sy' = sy_rcv sy \<and> sy_tls sy' = sy_tls sy \<and> sy_out sy' = sy_out sy"
  by (auto simp: deadline_def Let_def split: if_splits prod.splits dest: tstamp_frameD)

lemma sel_timeout_frameD:
  "sel_timeout p e sy = (l, t, sy') \<Longrightarrow> sy_rcv sy' = sy_rcv sy \<and> sy_tls sy' = sy_tls sy \<and> sy_out sy' = sy_out sy"
  by (auto simp: sel_timeout_def Let_def split: if_splits prod.splits dest: tstamp_frameD)

lemma select_loop_frame:
  "select_loop es fds nr p e sy = Some (r, fds', sy') \<Longrightarrow>
   -1 \<le> r \<and> sy_rcv sy' = sy_rcv sy \<and> sy_tls sy' = sy_tls sy \<and> sy_out sy' = sy_out sy"
  by (induction es fds nr p e sy rule: select_loop.induct)
     (auto simp: Let_def split: if_splits prod.splits sel_event.splits dest!: sel_timeout_frameD)

lemma select_frame:
  "lsi_b_select fds nr t sy = Some (r, fds', sy') \<Longrightarrow>
   -1 \<le> r \<and> sy_rcv sy' = sy_rcv sy \<and> sy_tls sy' = sy_tls sy \<and> sy_out sy' = sy_out sy"
  by (auto simp: lsi_b_select_def Let_def split: if_splits prod.splits dest!: select_loop_frame deadline_frameD)

lemma read_wait_frame:
  assumes "read_wait sck t e sy = Some (r, sy')"
  shows "-1 \<le> r \<and> sy_rcv sy' = sy_rcv sy \<and> sy_tls sy' = sy_tls sy \<and> sy_out sy' = sy_out sy"
proof -
  define P where "P = (\<lambda>(sy :: sys) (q :: int \<times> sys). -1 \<le> fst q \<and> sy_rcv (snd q) = sy_rcv sy \<and>
      sy_tls (snd q) = sy_tls sy \<and> sy_out (snd q) = sy_out sy)"
  have "P sy (r, sy')"
    using assms
  proof (rule read_wait.raw_induct [where P = "\<lambda>sck t e sy q. P sy q", rotated])
    fix f sck t e sy q
    assume IH: "\<And>sck t e sy q. f sck t e sy = Some q \<Longrightarrow> P sy q"
      and st: "Option.bind (lsi_b_select [sck] True t sy)
        (\<lambda>a. case a of (s, _, sy1) \<Rightarrow> if s \<noteq> 0 then Some (s, sy1) else if e = 0 then f sck t e sy1
          else let (now, sy2) = tstamp sy1 in if now < e then f sck t e sy2 else Some (s, sy2)) = Some q"
    show "P sy q"
      using st by (auto simp: P_def Let_def split: if_splits prod.splits
          dest!: IH [unfolded P_def] select_frame tstamp_frameD)
  qed
  then show ?thesis by (simp add: P_def)
qed

section \<open>Plain and TLS sockets as sources of bytes\<close>

definition rcv_bytes :: "sys \<Rightarrow> string" where
  "rcv_bytes sy = concat (map (\<lambda>e. case e of Rcv d \<Rightarrow> d | Rcv_err \<Rightarrow> []) (sy_rcv sy))"

definition tls_bytes :: "tls_event list \<Rightarrow> string" where
  "tls_bytes es = concat (map (\<lambda>e. case e of Tls_data d \<Rightarrow> d | _ \<Rightarrow> []) es)"

lemma c_read_result:
  "c_read sz sy = Some (r, d, sy') \<Longrightarrow>
   rcv_bytes sy = d @ rcv_bytes sy' \<and> (r = -1 \<and> d = [] \<or> r = int (length d) \<and> length d \<le> sz)"
proof (cases "sy_rcv sy")
  case (Cons e es)
  assume st: "c_read sz sy = Some (r, d, sy')"
  show ?thesis
  proof (cases e)
    case (Rcv x)
    have "x = take sz x @ drop sz x" by simp
    with st Cons Rcv show ?thesis
      by (auto simp: c_read_def rcv_bytes_def split: if_splits)
  next
    case Rcv_err
    with st Cons show ?thesis by (auto simp: c_read_def rcv_bytes_def)
  qed
qed (simp add: c_read_def)

lemma read_sys_result:
  assumes "lsi_b_read_sys sck sz t sy = Some (r, d, sy')"
  shows "rcv_bytes sy = d @ rcv_bytes sy' \<and>
    rcv_result sz r d"
proof -
  obtain e sy1 where dl: "deadline t sy = (e, sy1)" by force
  from assms dl obtain s sy2 where wt: "read_wait sck t e sy1 = Some (s, sy2)"
    by (auto simp: lsi_b_read_sys_def)
  have same: "rcv_bytes sy2 = rcv_bytes sy" and ge: "-1 \<le> s"
    using deadline_frameD [OF dl] read_wait_frame [OF wt] by (simp_all add: rcv_bytes_def)
  show ?thesis
  proof (cases "s \<le> 0")
    case True
    with assms dl wt same ge show ?thesis by (auto simp: lsi_b_read_sys_def rcv_result_def)
  next
    case False
    with assms dl wt obtain n d' where rd: "c_read sz sy2 = Some (n, d', sy')"
      and eq: "d = d'" "r = (if n = 0 then -2 else n)"
      by (auto simp: lsi_b_read_sys_def split: prod.splits)
    from c_read_result [OF rd] eq same show ?thesis by (auto simp: rcv_result_def)
  qed
qed

interpretation plain: byte_source "lsi_b_read_sys sck" rcv_bytes for sck
  by unfold_locales (auto dest!: read_sys_result)

lemma tls_bytes_want: "tls_bytes (Tls_want b # es) = tls_bytes es"
  by (simp add: tls_bytes_def)

lemma ssl_read_loop_result:
  "ssl_read_loop es sck sz tend trem sy = Some (r, d, sy') \<Longrightarrow>
   tls_bytes es = d @ tls_bytes (sy_tls sy') \<and>
   rcv_result sz r d"
proof (induction es sck sz tend trem sy rule: ssl_read_loop.induct)
  case (2 x es sck sz tend trem sy)
  have "x = take sz x @ drop sz x" by simp
  with 2 show ?case by (auto simp: tls_bytes_def rcv_result_def split: if_splits)
next
  case (5 rdbl es sck sz tend trem sy)
  define q where "q = (if tend \<noteq> 0 then let (tnow, sy1) = tstamp (sy\<lparr>sy_tls := es\<rparr>) in
      (if tnow \<ge> tend then 1 else tend - tnow, sy1) else (trem, sy\<lparr>sy_tls := es\<rparr>))"
  obtain trem1 sy1 where q: "q = (trem1, sy1)" by (cases q)
  have fr: "sy_tls sy1 = es"
    using q by (auto simp: q_def Let_def split: if_splits prod.splits dest!: tstamp_frameD)
  note loop = "5.prems" [simplified, folded q_def, unfolded q, simplified]
  from loop obtain s fds sy2 where sel: "lsi_b_select [sck] True trem1 sy1 = Some (s, fds, sy2)" by auto
  have fr2: "sy_tls sy2 = es" using select_frame [OF sel] fr by simp
  show ?case
  proof (cases "s \<le> 0")
    case True
    with loop sel fr2 show ?thesis by (auto simp: tls_bytes_def rcv_result_def split: if_splits)
  next
    case False
    obtain now sy3 where ts: "tstamp sy2 = (now, sy3)" by force
    have fr3: "sy_tls sy3 = es" using tstamp_frameD [OF ts] fr2 by simp
    show ?thesis
    proof (cases "now < tend")
      case True
      with loop sel False ts have "ssl_read_loop es sck sz tend trem1 sy3 = Some (r, d, sy')" by simp
      with "5.IH" [of q trem1 sy1 "(s, fds, sy2)" s "(fds, sy2)" fds sy2 "(now, sy3)" now sy3]
      have "tls_bytes es = d @ tls_bytes (sy_tls sy') \<and>
          rcv_result sz r d"
        using \<open>\<not> s \<le> 0\<close> sel ts True q by (simp only: q_def simp_thms)
      then show ?thesis by (simp only: tls_bytes_want)
    next
      case False
      with loop sel \<open>\<not> s \<le> 0\<close> ts fr3 show ?thesis by (auto simp: tls_bytes_def rcv_result_def)
    qed
  qed
qed (auto simp: tls_bytes_def rcv_result_def)

lemma read_ssl_sys_result:
  assumes "lsi_b_read_ssl_sys sck sz t sy = Some (r, d, sy')"
  shows "tls_bytes (sy_tls sy) = d @ tls_bytes (sy_tls sy') \<and>
    rcv_result sz r d"
proof -
  obtain e sy1 where dl: "deadline t sy = (e, sy1)" by force
  with assms have "ssl_read_loop (sy_tls sy1) sck sz e 0 sy1 = Some (r, d, sy')"
    by (simp add: lsi_b_read_ssl_sys_def)
  from ssl_read_loop_result [OF this] deadline_frameD [OF dl] show ?thesis by (simp only: simp_thms)
qed

interpretation tls: byte_source "lsi_b_read_ssl_sys sck" "\<lambda>sy. tls_bytes (sy_tls sy)" for sck
  by unfold_locales (auto dest!: read_ssl_sys_result)

lemma net_read_result:
  assumes "lsi_b_read sz t w = (r, d, w')"
  shows "rxs w = d @ rxs w' \<and>
    rcv_result sz r d"
proof (cases "nt_rx w")
  case (Cons e es)
  show ?thesis
  proof (cases e)
    case (Rx_data x)
    have "x = take sz x @ drop sz x" by simp
    with assms Cons Rx_data show ?thesis
      by (auto simp: lsi_b_read_def rxs_def Let_def rcv_result_def split: if_splits)
  qed (use assms Cons in \<open>auto simp: lsi_b_read_def rxs_def Let_def rcv_result_def\<close>)
qed (use assms in \<open>auto simp: lsi_b_read_def rxs_def Let_def rcv_result_def\<close>)

interpretation spec: byte_source "\<lambda>sz t w. Some (lsi_b_read sz t w)" rxs
  by unfold_locales (auto dest!: net_read_result)

section \<open>Writing\<close>

lemma send_loop_result:
  "send_loop es todo sent = Some (ok, out, es') \<Longrightarrow>
   \<exists>k. out = sent @ take k todo \<and> (ok \<longrightarrow> take k todo = todo)"
proof (induction es todo sent rule: send_loop.induct)
  case (3 n es c todo sent)
  then obtain k where k: "out = (sent @ take n (c # todo)) @ take k (drop n (c # todo))"
    "ok \<longrightarrow> take k (drop n (c # todo)) = drop n (c # todo)" by auto
  have "take (n + k) (c # todo) = take n (c # todo) @ take k (drop n (c # todo))"
    by (simp only: take_add)
  moreover have "ok \<longrightarrow> take (n + k) (c # todo) = c # todo"
    using k(2) by (simp only: take_add) (metis append_take_drop_id)
  ultimately show ?case using k(1) by (intro exI [of _ "n + k"]) (simp only: append_assoc simp_thms)
next
  case (5 es c todo sent)
  then show ?case by (intro exI [of _ 0]) simp
qed auto

lemma ssl_write_loop_result:
  "ssl_write_loop es sck todo sent sy = Some (ok, out, sy') \<Longrightarrow>
   sy_out sy' = sy_out sy \<and> (\<exists>k. out = sent @ take k todo \<and> (ok \<longrightarrow> take k todo = todo))"
proof (induction es sck todo sent sy rule: ssl_write_loop.induct)
  case (3 n es sck c todo sent sy)
  show ?case
  proof (cases "n = 0")
    case True
    with "3.prems" show ?thesis by (auto intro: exI [of _ 0])
  next
    case False
    with 3 obtain k where k: "sy_out sy' = sy_out sy"
      "out = (sent @ take n (c # todo)) @ take k (drop n (c # todo))"
      "ok \<longrightarrow> take k (drop n (c # todo)) = drop n (c # todo)" by auto
    have "take (n + k) (c # todo) = take n (c # todo) @ take k (drop n (c # todo))"
      by (simp only: take_add)
    moreover have "ok \<longrightarrow> take (n + k) (c # todo) = c # todo"
      using k(3) by (simp only: take_add) (metis append_take_drop_id)
    ultimately show ?thesis
      using k(1,2) by (intro conjI exI [of _ "n + k"]) (simp_all only: append_assoc simp_thms)
  qed
next
  case (4 es sck c todo sent sy)
  then show ?case by (auto intro: exI [of _ 0])
next
  case (5 rdbl es sck c todo sent sy)
  from "5.prems" obtain r fds sy1 where sel: "lsi_b_select [sck] True 0 sy = Some (r, fds, sy1)" by auto
  show ?case
  proof (cases "r \<le> 0")
    case True
    with "5.prems" sel select_frame [OF sel] show ?thesis by (auto intro: exI [of _ 0])
  next
    case False
    with "5.prems" sel have "ssl_write_loop es sck (c # todo) sent sy1 = Some (ok, out, sy')" by simp
    with "5.IH" sel False select_frame [OF sel] show ?thesis by fastforce
  qed
qed auto

section \<open>Properties\<close>

text \<open>Either kind of socket, as \<open>read_wrap\<close> and \<open>send_wrap\<close> of \<open>io.c\<close> choose it\<close>

definition socket_read :: "bool \<Rightarrow> int \<Rightarrow> nat \<Rightarrow> u64 \<Rightarrow> sys \<Rightarrow> (int \<times> string \<times> sys) option" where
  "socket_read shnd sck = (if shnd then lsi_b_read_ssl_sys sck else lsi_b_read_sys sck)"

definition socket_bytes :: "bool \<Rightarrow> sys \<Rightarrow> string" where
  "socket_bytes shnd = (if shnd then (\<lambda>sy. tls_bytes (sy_tls sy)) else rcv_bytes)"

definition socket_write :: "bool \<Rightarrow> int \<Rightarrow> string \<Rightarrow> sys \<Rightarrow> (int \<times> sys) option" where
  "socket_write shnd sck buf = (if shnd then lsi_b_write_ssl_sys sck buf else lsi_b_write_sys buf)"

interpretation socket: byte_source "socket_read shnd sck" "socket_bytes shnd" for shnd sck
  using plain.byte_source_axioms tls.byte_source_axioms
  by (cases shnd) (simp_all add: socket_read_def socket_bytes_def)

lemma min_LONG_MAX: "length s < 2 ^ 63 \<Longrightarrow> min LONG_MAX (int (length s)) = int (length s)"
proof -
  assume "length s < 2 ^ 63"
  then have "int (length s) < int (2 ^ 63)" by (simp only: of_nat_less_iff)
  then show ?thesis by (simp add: LONG_MAX_def)
qed

lemma write_result:
  assumes "length buf < 2 ^ 63" "ok \<longrightarrow> take k buf = buf"
    and "n = (if ok then min LONG_MAX (int (length (take k buf))) else -1)"
  shows "n = int (length buf) \<and> take k buf = buf \<or> n = -1"
  using assms min_LONG_MAX [of buf] by (cases ok) simp_all

text \<open>
  C17: Whatever the system answers, \<open>lsi_b_read\<close> and \<open>lsi_b_read_ssl\<close> return only what
  theory \<open>Net\<close> lets the rest of the program expect of a read: at most \<open>sz\<close> bytes and their
  number, or 0, -1 or -2 and no byte; and over any sequence of reads the bytes come in the
  order they arrived, none lost, none twice.
\<close>

theorem socket_reads_refine_contract:
  "(socket_read shnd sck sz t sy = Some (r, d, sy') \<longrightarrow>
      (\<exists>e w'. lsi_b_read sz t (w\<lparr>nt_rx := [e]\<rparr>) = (r, d, w'))) \<and>
   (rcv_seq (socket_read shnd sck) reqs sy = Some (ds, sy2) \<longrightarrow>
      socket_bytes shnd sy = ds @ socket_bytes shnd sy2)"
  using socket.refines_read [of shnd sck sz t sy r d sy' w]
    socket.seq_order [of shnd sck reqs sy ds sy2] by blast

definition sample_sys :: sys where
  "sample_sys = \<lparr>sy_clk = [], sy_sel = [Sel_intr, Sel [3], Sel [3]], sy_rcv = [Rcv ''abc''], sy_snd = [Snd 1, Snd_again, Snd 9],
     sy_tls = [Tls_want True, Tls_data ''abc''], sy_tlsw = [Tlsw_want False, Tlsw_sent 2], sy_out = [], sy_tmo = []\<rparr>"

definition idle_net :: net where
  "idle_net = \<lparr>nt_clk = [], nt_rx = [], nt_wr = [], nt_tx = [], nt_to = [], nt_sys = [], nt_closed = [], nt_rand = []\<rparr>"

lemma sample_reads:
  "socket_read False 3 2 0 sample_sys =
     Some (2, ''ab'', sample_sys\<lparr>sy_sel := [Sel [3]], sy_rcv := [Rcv ''c''], sy_tmo := [None, None]\<rparr>)"
  "rcv_seq (socket_read False 3) [(2, 0), (2, 0)] sample_sys =
     Some (''abc'', sample_sys\<lparr>sy_sel := [], sy_rcv := [], sy_tmo := [None, None, None]\<rparr>)"
  by (simp_all add: socket_read_def sample_sys_def lsi_b_read_sys_def deadline_def read_wait.simps
      lsi_b_select_def fd_ok_def FD_SETSIZE_def sel_timeout_def sel_mark_def c_read_def)

theorem socket_reads_refine_contract_witness:
  "(\<exists>e w'. lsi_b_read 2 0 (idle_net\<lparr>nt_rx := [e]\<rparr>) = (2, ''ab'', w')) \<and>
   socket_bytes False sample_sys = ''abc'' @ socket_bytes False (sample_sys\<lparr>sy_sel := [], sy_rcv := [], sy_tmo := [None, None, None]\<rparr>)"
  using socket_reads_refine_contract [of False 3 2 0 sample_sys] sample_reads by blast



text \<open>
  \<open>lsi_b_read_ssl\<close> without a timeout gives up where it should wait: when the TLS library
  first asks for the socket to become readable and it does, the loop ends, since the clock is
  not before the deadline 0, and 0 is returned although the data has arrived.
\<close>

theorem ssl_read_without_timeout_gives_up:
  assumes "fd_ok sck" and "sy_tls sy = Tls_want b # es" and "sy_sel sy = Sel [sck] # sels"
  shows "\<exists>sy'. lsi_b_read_ssl_sys sck sz 0 sy = Some (0, [], sy') \<and> sy_tls sy' = es"
  using assms
  by (auto simp: lsi_b_read_ssl_sys_def deadline_def lsi_b_select_def sel_timeout_def Let_def split: prod.splits dest!: tstamp_frameD)

theorem ssl_read_without_timeout_gives_up_witness:
  "\<exists>sy'. lsi_b_read_ssl_sys 3 2 0 (sample_sys\<lparr>sy_sel := [Sel [3]]\<rparr>) = Some (0, [], sy') \<and>
     sy_tls sy' = [Tls_data ''abc'']"
  using ssl_read_without_timeout_gives_up [of 3 "sample_sys\<lparr>sy_sel := [Sel [3]]\<rparr>" True "[Tls_data ''abc'']" "[]" 2]
  by (simp add: fd_ok_def FD_SETSIZE_def sample_sys_def)

end
