(* ===== verification/Plat.thy ===== *)
theory Plat
  imports Util Net
begin

text \<open>
  \<open>src/platform/base_time.c\<close> and the sleeping of \<open>src/platform/base_misc.c\<close>: conversions between
  microseconds and the structures of the system, and \<open>strtol\<close> of the C library.  What
  \<open>gettimeofday\<close> delivers is an argument; theory \<open>Net\<close> has the clock as a list of readings.
\<close>

section \<open>Numbers\<close>

text \<open>\<open>strtol\<close> to base 10 saturates at the bounds of 64 bits; a cast to \<open>int\<close> keeps 32 of them.\<close>

definition strtol10 :: "string \<Rightarrow> int" where
  "strtol10 s =
     (let t = dropWhile isspace s;
          r = (if hdz t = CHR ''-'' \<or> hdz t = CHR ''+'' then drop 1 t else t);
          v = int (digits_val r 0)
      in if hdz t = CHR ''-'' then max (- (2 ^ 63)) (- v) else min (2 ^ 63 - 1) v)"

definition to_int :: "int \<Rightarrow> int" where
  "to_int x = sint (word_of_int x :: 32 word)"

definition C_INT_MAX :: int where "C_INT_MAX = 2 ^ 31 - 1"
definition C_INT_MIN :: int where "C_INT_MIN = - (2 ^ 31)"

section \<open>The clock\<close>

record timeval =
  tv_sec :: int
  tv_usec :: int

text \<open>The two directions of \<open>com_tconv\<close>\<close>

definition tv_to_ts :: "timeval \<Rightarrow> u64" where
  "tv_to_ts tv = word_of_int (tv_sec tv) * 1000000 + word_of_int (tv_usec tv)"

definition ts_to_tv :: "u64 \<Rightarrow> timeval" where
  "ts_to_tv ts = \<lparr>tv_sec = uint (ts div 1000000), tv_usec = uint (ts mod 1000000)\<rparr>"

definition tstamp_of :: "timeval option \<Rightarrow> u64" where
  "tstamp_of t = (case t of None \<Rightarrow> 0 | Some tv \<Rightarrow> tv_to_ts tv)"

section \<open>Sleeping\<close>

record timespec =
  ts_sec :: int
  ts_nsec :: int

text \<open>What \<open>nanosleep\<close> is called with, if it is called\<close>

definition lsi_b_usleep :: "u64 \<Rightarrow> timespec option" where
  "lsi_b_usleep us =
     (let secs = uint (us div 1000000);
          tv = \<lparr>ts_sec = (if secs > C_INT_MAX then C_INT_MAX else secs), ts_nsec = uint (us mod 1000000) * 1000\<rparr>
      in if ts_sec tv \<noteq> 0 \<or> ts_nsec tv \<noteq> 0 then Some tv else None)"

definition slept_us :: "timespec option \<Rightarrow> int" where
  "slept_us t = (case t of None \<Rightarrow> 0 | Some tv \<Rightarrow> ts_sec tv * 1000000 + ts_nsec tv div 1000)"

lemma uint_div_mod:
  "uint (us div 1000000 :: u64) = uint us div 1000000" "uint (us mod 1000000 :: u64) = uint us mod 1000000"
  by (simp_all add: uint_div uint_mod)

text \<open>
  The argument of \<open>nanosleep\<close> is always one the system accepts (the nanoseconds below a second), the
  time slept is the time asked for, or less only from \<open>2 ^ 31\<close> seconds on, and no call is made to sleep for 0.
\<close>

theorem usleep_sleeps:
  "(\<forall>tv. lsi_b_usleep us = Some tv \<longrightarrow> 0 \<le> ts_sec tv \<and> ts_sec tv \<le> C_INT_MAX \<and> 0 \<le> ts_nsec tv \<and> ts_nsec tv < 10 ^ 9) \<and>
   slept_us (lsi_b_usleep us) \<le> uint us \<and> (uint us < 2 ^ 31 * 10 ^ 6 \<longrightarrow> slept_us (lsi_b_usleep us) = uint us) \<and>
   (lsi_b_usleep us = None \<longleftrightarrow> us = 0)"
proof -
  have z: "us = 0 \<longleftrightarrow> uint us = 0" by (simp add: uint_0_iff)
  have r: "0 \<le> uint us" by simp
  have dm: "uint us = (uint us div 1000000) * 1000000 + uint us mod 1000000" by simp
  have m: "0 \<le> uint us mod 1000000" "uint us mod 1000000 < 1000000" by simp_all
  have q: "0 \<le> uint us div 1000000" using r by (rule pos_imp_zdiv_nonneg_iff [THEN iffD2, rotated]) simp
  show ?thesis
    unfolding lsi_b_usleep_def slept_us_def uint_div_mod C_INT_MAX_def z using dm m q
    by (auto simp: Let_def split: if_splits)
qed

theorem usleep_sleeps_witness:
  "slept_us (lsi_b_usleep 2500000) = 2500000 \<and> lsi_b_usleep 0 = None \<and> slept_us (lsi_b_usleep (- 1)) < 2 ^ 52"
proof -
  have "uint (2500000 :: u64) = 2500000" by simp
  then show ?thesis using usleep_sleeps [of 2500000] usleep_sleeps [of 0]
    by (simp add: lsi_b_usleep_def slept_us_def C_INT_MAX_def uint_div_mod Let_def) 
qed

text \<open>
  The conversion between \<open>struct timeval\<close> and microseconds loses nothing for the times the clock shows.
\<close>

theorem tconv_roundtrip:
  assumes "0 \<le> tv_sec tv" "tv_sec tv < 2 ^ 43" "0 \<le> tv_usec tv" "tv_usec tv < 1000000"
  shows "uint (tstamp_of (Some tv)) = tv_sec tv * 1000000 + tv_usec tv \<and> ts_to_tv (tstamp_of (Some tv)) = tv"
proof -
  let ?n = "tv_sec tv * 1000000 + tv_usec tv"
  have b: "0 \<le> ?n" "?n < 2 ^ 64" using assms by auto
  have "tv_to_ts tv = word_of_int ?n" by (simp add: tv_to_ts_def)
  then have u: "uint (tv_to_ts tv) = ?n" using b by (simp only: uint_word_of_int) simp
  have "?n div 1000000 = tv_sec tv" "?n mod 1000000 = tv_usec tv" using assms by auto
  then have "ts_to_tv (tv_to_ts tv) = tv" unfolding ts_to_tv_def uint_div_mod u by simp
  then show ?thesis using u by (simp add: tstamp_of_def)
qed

theorem tconv_roundtrip_witness:
  "ts_to_tv (tstamp_of (Some \<lparr>tv_sec = 1700000000, tv_usec = 999999\<rparr>)) = \<lparr>tv_sec = 1700000000, tv_usec = 999999\<rparr>"
  using tconv_roundtrip [of "\<lparr>tv_sec = 1700000000, tv_usec = 999999\<rparr>"] by simp

end
