(* ===== verification/Conn.thy ===== *)
theory Conn
  imports Io
begin

text \<open>
  \<open>libsrsirc/conn.c\<close>: one connection to a server, directly or through a proxy, and its
  settings.  What the platform layer answers is a parameter, the record \<open>netenv\<close>: the
  addresses a host name resolves to, the conversions of address strings, and the bytes an
  uninitialised array on the stack holds.
\<close>

record netenv =
  ne_resolve :: "string option \<Rightarrow> u16 \<Rightarrow> addr_try list"
  ne_inet_addr :: "string \<Rightarrow> string"
  ne_inet4 :: "string \<Rightarrow> string option"
  ne_inet6 :: "string \<Rightarrow> string option"
  ne_stack :: "char list"

definition DEF_HOST :: string where "DEF_HOST = ''localhost''"
definition DEF_PORT_PLAIN :: u16 where "DEF_PORT_PLAIN = 6667"
definition DEF_PORT_SSL :: u16 where "DEF_PORT_SSL = 6697"

section \<open>Life cycle\<close>

definition readctx_init :: "readctx" where
  "readctx_init = \<lparr>rx_workbuf = replicate (WORKBUF_SZ + 1) NUL, rx_wptr = 0, rx_eptr = 0\<rparr>"

definition lsi_conn_init :: "mallocs \<Rightarrow> iconn option \<times> mallocs" where
  "lsi_conn_init orc =
     (let (ok, orc1) = malloc orc in
      if \<not> ok then (None, orc1)
      else case lsi_b_strdup orc1 DEF_HOST of
          (None, orc2) \<Rightarrow> (None, orc2)
        | (Some h, orc2) \<Rightarrow>
            (Some \<lparr>co_host = h, co_port = 0, co_laddr = Null, co_lport = 0, co_phost = None,
                   co_pport = 0, co_ptype = -1, co_sck = -1, co_shnd = False, co_online = False,
                   co_eof = False, co_rctx = readctx_init, co_colon_trail = False, co_ssl = False,
                   co_sctx = False\<rparr>, orc2))"

definition lsi_conn_reset :: "iconn \<Rightarrow> net \<Rightarrow> iconn \<times> net" where
  "lsi_conn_reset ctx w =
     (let ctx1 = (if co_ssl ctx \<and> co_shnd ctx then ctx\<lparr>co_shnd := False\<rparr> else ctx);
          w1 = (if co_sck ctx \<noteq> -1 then lsi_b_close (co_sck ctx) w else w)
      in (ctx1\<lparr>co_sck := -1, co_online := False,
               co_rctx := (co_rctx ctx)\<lparr>rx_wptr := 0, rx_eptr := 0\<rparr>\<rparr>, w1))"

text \<open>Creating a TLS context is a call to the TLS library, which may fail.\<close>

definition lsi_conn_set_ssl :: "bool \<Rightarrow> iconn \<Rightarrow> net \<Rightarrow> bool \<times> iconn \<times> net" where
  "lsi_conn_set_ssl on ctx w =
     (if on \<and> \<not> co_sctx ctx then
        let (ok, w1) = sys_call w in
        if \<not> ok then (False, ctx, w1) else (True, ctx\<lparr>co_sctx := True, co_ssl := on\<rparr>, w1)
      else if \<not> on \<and> co_sctx ctx then (True, ctx\<lparr>co_sctx := False, co_ssl := on\<rparr>, w)
      else (True, ctx\<lparr>co_ssl := on\<rparr>, w))"

text \<open>Freeing a local address that was freed before is undefined.\<close>

definition lsi_conn_dispose :: "iconn \<Rightarrow> net \<Rightarrow> net option" where
  "lsi_conn_dispose ctx w =
     (let (ctx1, w1) = lsi_conn_reset ctx w; (_, ctx2, w2) = lsi_conn_set_ssl False ctx1 w1 in
      if co_laddr ctx2 = Freed then None else Some w2)"

section \<open>Connecting\<close>

text \<open>The way out of a failed attempt: the socket is closed.\<close>

definition conn_abort :: "iconn \<Rightarrow> net \<Rightarrow> bool \<times> iconn \<times> net" where
  "conn_abort ctx w = (False, ctx\<lparr>co_sck := -1\<rparr>, lsi_b_close (co_sck ctx) w)"

definition px_logon :: "netenv \<Rightarrow> iconn \<Rightarrow> u16 \<Rightarrow> u64 \<Rightarrow> net \<Rightarrow> (bool \<times> net) option" where
  "px_logon env ctx realport trem w =
     (if co_ptype ctx = IRCPX_HTTP then lsi_px_logon_http (co_host ctx) realport trem w
      else if co_ptype ctx = IRCPX_SOCKS4
        then lsi_px_logon_socks4 (ne_inet_addr env) (co_host ctx) realport trem w
      else if co_ptype ctx = IRCPX_SOCKS5
        then lsi_px_logon_socks5 (ne_inet4 env) (ne_inet6 env) (ne_stack env) (co_host ctx) realport trem w
      else Some (False, w))"

definition conn_tls :: "iconn \<Rightarrow> net \<Rightarrow> bool \<times> iconn \<times> net" where
  "conn_tls ctx w =
     (if \<not> co_ssl ctx then (True, ctx\<lparr>co_online := True\<rparr>, w)
      else let (ok1, w1) = sys_call w in
        if \<not> ok1 then conn_abort ctx w1
        else let (ok2, w2) = sys_call w1 in
          if \<not> ok2 then conn_abort (ctx\<lparr>co_shnd := False\<rparr>) w2
          else let ctx2 = ctx\<lparr>co_shnd := True\<rparr>; (ok3, w3) = sys_call w2 in
            if \<not> ok3 then conn_abort ctx2 w3
            else (True, ctx2\<lparr>co_online := True\<rparr>, w3))"

definition lsi_conn_connect :: "netenv \<Rightarrow> u64 \<Rightarrow> u64 \<Rightarrow> iconn \<Rightarrow> net \<Rightarrow> (bool \<times> iconn \<times> net) option" where
  "lsi_conn_connect env softto_us hardto_us ctx w =
     (if co_online ctx then Some (False, ctx, w)
      else let (tend, w1) = px_tend hardto_us w;
               realport = (if co_port ctx \<noteq> 0 then co_port ctx
                           else if co_ssl ctx then DEF_PORT_SSL else DEF_PORT_PLAIN);
               host = (if co_ptype ctx \<noteq> -1 then co_phost ctx else Some (co_host ctx));
               port = (if co_ptype ctx \<noteq> -1 then co_pport ctx else realport)
        in if co_laddr ctx = Freed then None
           else let (sck, _, w2) = lsi_com_consocket (ne_resolve env host port) 256 softto_us hardto_us w1 in
             if sck < 0 then Some (False, ctx, w2)
             else let ctx1 = ctx\<lparr>co_sck := sck, co_shnd := False\<rparr> in
               if co_ptype ctx1 = -1 then Some (conn_tls ctx1 w2)
               else let (hit, trem, w3) = lsi_com_check_timeout tend w2 in
                 if hit then Some (conn_abort ctx1 w3)
                 else let (ok, w4) = sys_call w3 in
                   if \<not> ok then Some (conn_abort ctx1 w4)
                   else do {
                     (pok, w5) \<leftarrow> px_logon env ctx1 realport trem w4;
                     Some (if pok then conn_tls ctx1 w5 else conn_abort ctx1 w5) })"

section \<open>Reading and writing\<close>

text \<open>
  The fields of a message are pointers into the receive buffer; the model reads them as
  strings once the line has been split.  Whether the last field was a trailing one is seen
  from the byte before it.
\<close>

definition colon_before :: "char list \<Rightarrow> nat option list \<Rightarrow> nat \<Rightarrow> bool option" where
  "colon_before buf tok lst = do {
     off \<leftarrow> (if lst - 1 < length tok then tok ! (lst - 1) else None);
     if off = 0 then None else do { c \<leftarrow> rd buf (off - 1); Some (c = CHR '':'') } }"

definition lsi_conn_read :: "nat option \<Rightarrow> u64 \<Rightarrow> iconn \<Rightarrow> net \<Rightarrow>
    (int \<times> tokarr \<times> string list option \<times> iconn \<times> net) option" where
  "lsi_conn_read ntags to_us ctx w =
     (if \<not> co_online ctx then Some (-1, [], None, ctx, w)
      else do {
        (n, tok, tags, rctx, w1) \<leftarrow> lsi_io_read (co_shnd ctx) (co_rctx ctx) ntags to_us w;
        let ctx1 = ctx\<lparr>co_rctx := rctx\<rparr>;
        let tagstrs = map_option (map (cstr_at (rx_workbuf rctx))) tags;
        if n = 0 then Some (0, [], tagstrs, ctx1, w1)
        else if n < 0 then
          (let (ctx2, w2) = lsi_conn_reset ctx1 w1
           in Some (-1, [], tagstrs, ctx2\<lparr>co_eof := (n = -2)\<rparr>, w2))
        else do {
          let toks = tok_strs (rx_workbuf rctx) tok;
          let lst = msg_ac toks;
          ct \<leftarrow> (if 2 < lst then colon_before (rx_workbuf rctx) tok lst else Some (co_colon_trail ctx1));
          Some (1, toks, tagstrs, ctx1\<lparr>co_colon_trail := ct\<rparr>, w1) } })"

definition lsi_conn_write_raw :: "string \<Rightarrow> iconn \<Rightarrow> net \<Rightarrow> bool \<times> iconn \<times> net" where
  "lsi_conn_write_raw buf ctx w =
     (if \<not> co_online ctx then (False, ctx, w)
      else let (ok, w1) = lsi_io_write (co_shnd ctx) buf w in
        if ok then (True, ctx, w1)
        else let (ctx2, w2) = lsi_conn_reset ctx w1 in (False, ctx2\<lparr>co_eof := False\<rparr>, w2))"

definition crlf :: string where
  "crlf = [CHR 0x0D, CHR 0x0A]"

definition lsi_conn_write :: "string \<Rightarrow> iconn \<Rightarrow> net \<Rightarrow> bool \<times> iconn \<times> net" where
  "lsi_conn_write line ctx w =
     (let len = length line;
          needbr = (len < 2 \<or> drop (len - 2) line \<noteq> crlf);
          (ok, ctx1, w1) = lsi_conn_write_raw line ctx w
      in if ok then lsi_conn_write_raw (if needbr then crlf else []) ctx1 w1 else (False, ctx1, w1))"

section \<open>Settings\<close>

definition lsi_conn_online :: "iconn \<Rightarrow> bool" where "lsi_conn_online ctx = co_online ctx"
definition lsi_conn_eof :: "iconn \<Rightarrow> bool" where "lsi_conn_eof ctx = co_eof ctx"
definition lsi_conn_colon_trail :: "iconn \<Rightarrow> bool" where "lsi_conn_colon_trail ctx = co_colon_trail ctx"
definition lsi_conn_get_px_host :: "iconn \<Rightarrow> string option" where "lsi_conn_get_px_host ctx = co_phost ctx"
definition lsi_conn_get_px_port :: "iconn \<Rightarrow> u16" where "lsi_conn_get_px_port ctx = co_pport ctx"
definition lsi_conn_get_px_type :: "iconn \<Rightarrow> int" where "lsi_conn_get_px_type ctx = co_ptype ctx"
definition lsi_conn_get_host :: "iconn \<Rightarrow> string" where "lsi_conn_get_host ctx = co_host ctx"
definition lsi_conn_get_port :: "iconn \<Rightarrow> u16" where "lsi_conn_get_port ctx = co_port ctx"
definition lsi_conn_get_ssl :: "iconn \<Rightarrow> bool" where "lsi_conn_get_ssl ctx = co_ssl ctx"
definition lsi_conn_sockfd :: "iconn \<Rightarrow> int" where "lsi_conn_sockfd ctx = co_sck ctx"

definition lsi_conn_set_px :: "string option \<Rightarrow> u16 \<Rightarrow> int \<Rightarrow> iconn \<Rightarrow> mallocs \<Rightarrow> bool \<times> iconn \<times> mallocs" where
  "lsi_conn_set_px host port ptype ctx orc =
     (case host of
        None \<Rightarrow> (True, ctx\<lparr>co_phost := None, co_ptype := ptype, co_pport := 0\<rparr>, orc)
      | Some h \<Rightarrow>
          if ptype = IRCPX_HTTP \<or> ptype = IRCPX_SOCKS4 \<or> ptype = IRCPX_SOCKS5 then
            if port = 0 then (False, ctx, orc)
            else (case lsi_b_strdup orc h of
                    (None, orc') \<Rightarrow> (False, ctx, orc')
                  | (Some n, orc') \<Rightarrow> (True, ctx\<lparr>co_pport := port, co_ptype := ptype, co_phost := Some n\<rparr>, orc'))
          else (False, ctx, orc))"

text \<open>Without an address the old one is freed, but the pointer to it stays.\<close>

definition lsi_conn_set_localaddr :: "string option \<Rightarrow> u16 \<Rightarrow> iconn \<Rightarrow> mallocs \<Rightarrow> (bool \<times> iconn \<times> mallocs) option" where
  "lsi_conn_set_localaddr addr port ctx orc =
     (let (n, orc') = (case addr of None \<Rightarrow> (None, orc) | Some a \<Rightarrow> lsi_b_strdup orc a) in
      if addr \<noteq> None \<and> n = None then Some (False, ctx, orc')
      else if co_laddr ctx = Freed then None
      else Some (True, ctx\<lparr>co_laddr := (case n of Some a \<Rightarrow> Ptr a
                                       | None \<Rightarrow> (if co_laddr ctx = Null then Null else Freed)),
                           co_lport := port\<rparr>, orc'))"

definition lsi_conn_set_server :: "string option \<Rightarrow> u16 \<Rightarrow> iconn \<Rightarrow> mallocs \<Rightarrow> bool \<times> iconn \<times> mallocs" where
  "lsi_conn_set_server host port ctx orc =
     (case lsi_b_strdup orc (case host of Some h \<Rightarrow> h | None \<Rightarrow> DEF_HOST) of
        (None, orc') \<Rightarrow> (False, ctx, orc')
      | (Some n, orc') \<Rightarrow> (True, ctx\<lparr>co_host := n, co_port := port\<rparr>, orc'))"

end
