(* ===== verification/Msg.thy ===== *)
theory Msg
  imports Util
begin

text \<open>
  \<open>libsrsirc/msg.c\<close>: the tables of message handlers and the dispatch of a message to them.
  A slot whose command is the empty string is free.  The handlers themselves are parameters
  here (\<open>hnd\<close> for those of the library, \<open>uhnd\<close> for those of the user); \<open>Irc\<close> closes the knot.
\<close>

section \<open>Registration\<close>

fun free_slot :: "('a \<Rightarrow> string) \<Rightarrow> 'a list \<Rightarrow> nat \<Rightarrow> nat" where
  "free_slot cmd [] i = i"
| "free_slot cmd (h # hs) i = (if cmd h = [] then i else free_slot cmd hs (i + 1))"

text \<open>The array, doubled when it has no free slot; None when the allocation fails.\<close>

definition grow :: "'a list \<Rightarrow> 'a \<Rightarrow> nat \<Rightarrow> st \<Rightarrow> 'a list option \<times> st" where
  "grow arr blank i s =
     (if i = length arr then
        let (ok, s') = st_malloc s in
        ((if ok then Some (arr @ replicate (length arr) blank) else None), s')
      else (Some arr, s))"

definition mh_free :: msghnd where
  "mh_free = \<lparr>mh_cmd = [], mh_hndfn = H_PING, mh_module = []\<rparr>"

definition uh_free :: umsghnd where
  "uh_free = \<lparr>uh_cmd = [], uh_hndfn = 0\<rparr>"

definition lsi_msg_reghnd :: "string \<Rightarrow> hnd_fn \<Rightarrow> string \<Rightarrow> st \<Rightarrow> (bool \<times> st) option" where
  "lsi_msg_reghnd cmd hndfn modul s =
     (let arr = ic_msghnds (st_irc s); i = free_slot mh_cmd arr 0 in
      case grow arr mh_free i s of
        (None, s') \<Rightarrow> Some (False, s')
      | (Some arr', s') \<Rightarrow> do {
          arr'' \<leftarrow> wr arr' i \<lparr>mh_cmd = ncpy 32 cmd, mh_hndfn = hndfn, mh_module = modul\<rparr>;
          Some (True, s'\<lparr>st_irc := (st_irc s')\<lparr>ic_msghnds := arr''\<rparr>\<rparr>) })"

definition uhnds :: "bool \<Rightarrow> st \<Rightarrow> umsghnd list" where
  "uhnds pre s = (if pre then ic_uprehnds (st_irc s) else ic_uposthnds (st_irc s))"

definition set_uhnds :: "bool \<Rightarrow> umsghnd list \<Rightarrow> st \<Rightarrow> st" where
  "set_uhnds pre arr s =
     (if pre then s\<lparr>st_irc := (st_irc s)\<lparr>ic_uprehnds := arr\<rparr>\<rparr>
      else s\<lparr>st_irc := (st_irc s)\<lparr>ic_uposthnds := arr\<rparr>\<rparr>)"

definition lsi_msg_reguhnd :: "string \<Rightarrow> nat \<Rightarrow> bool \<Rightarrow> st \<Rightarrow> (bool \<times> st) option" where
  "lsi_msg_reguhnd cmd hndfn pre s =
     (let arr = uhnds pre s; i = free_slot uh_cmd arr 0 in
      case grow arr uh_free i s of
        (None, s') \<Rightarrow> Some (False, s')
      | (Some arr', s') \<Rightarrow> do {
          arr'' \<leftarrow> wr arr' i \<lparr>uh_cmd = ncpy 32 cmd, uh_hndfn = hndfn\<rparr>;
          Some (True, set_uhnds pre arr'' s') })"

definition unreg :: "string \<Rightarrow> msghnd \<Rightarrow> msghnd" where
  "unreg modul h = (if mh_cmd h \<noteq> [] \<and> mh_module h = modul then h\<lparr>mh_cmd := []\<rparr> else h)"

definition lsi_msg_unregall :: "string \<Rightarrow> st \<Rightarrow> st" where
  "lsi_msg_unregall modul s =
     s\<lparr>st_irc := (st_irc s)\<lparr>ic_msghnds := map (unreg modul) (ic_msghnds (st_irc s))\<rparr>\<rparr>"

section \<open>Dispatch\<close>

type_synonym hnd_sem = "hnd_fn \<Rightarrow> tokarr \<Rightarrow> nat \<Rightarrow> bool \<Rightarrow> st \<Rightarrow> (u16 \<times> st) option"
type_synonym uhnd_sem = "nat \<Rightarrow> tokarr \<Rightarrow> nat \<Rightarrow> bool \<Rightarrow> st \<Rightarrow> (bool \<times> st) option"

text \<open>
  \<open>dispatch_uhnd\<close> keeps the address and the size of the table in local variables; a handler
  that makes the table grow frees the array the loop goes on reading.
\<close>

function dispatch_uhnd_loop ::
  "uhnd_sem \<Rightarrow> tokarr \<Rightarrow> nat \<Rightarrow> bool \<Rightarrow> nat \<Rightarrow> nat \<Rightarrow> st \<Rightarrow> (bool \<times> st) option" where
  "dispatch_uhnd_loop uhnd msg ac pre hcnt i s =
     (if i < hcnt then
        if length (uhnds pre s) \<noteq> hcnt then None
        else let h = uhnds pre s ! i in
          if uh_cmd h = [] then dispatch_uhnd_loop uhnd msg ac pre hcnt (i + 1) s
          else (case tk msg 1 of
                  None \<Rightarrow> None
                | Some cmd \<Rightarrow>
                    if cmd \<noteq> uh_cmd h then dispatch_uhnd_loop uhnd msg ac pre hcnt (i + 1) s
                    else (case uhnd (uh_hndfn h) msg ac pre s of
                            None \<Rightarrow> None
                          | Some (ok, s') \<Rightarrow>
                              if \<not> ok then Some (False, s')
                              else dispatch_uhnd_loop uhnd msg ac pre hcnt (i + 1) s'))
      else Some (True, s))"
  by pat_completeness auto
termination
  by (relation "measure (\<lambda>(uhnd, msg, ac, pre, hcnt, i, s). hcnt - i)") auto

declare dispatch_uhnd_loop.simps [simp del]

definition dispatch_uhnd :: "uhnd_sem \<Rightarrow> tokarr \<Rightarrow> nat \<Rightarrow> bool \<Rightarrow> st \<Rightarrow> (bool \<times> st) option" where
  "dispatch_uhnd uhnd msg ac pre s = dispatch_uhnd_loop uhnd msg ac pre (length (uhnds pre s)) 0 s"

text \<open>
  The loop of \<open>lsi_msg_handle\<close> reads the table afresh in each turn (a handler may replace it).
  It need not end if handlers keep adding handlers: not returning is None.  The
  boolean is false when the code leaves through its \<open>fail\<close> label.
\<close>

partial_function (option) msg_loop ::
  "hnd_sem \<Rightarrow> tokarr \<Rightarrow> nat \<Rightarrow> bool \<Rightarrow> nat \<Rightarrow> u16 \<Rightarrow> st \<Rightarrow> (bool \<times> u16 \<times> st) option" where
  "msg_loop hnd msg ac logon i res s =
     (if i < length (ic_msghnds (st_irc s)) then
        let h = ic_msghnds (st_irc s) ! i in
        if mh_cmd h = [] then msg_loop hnd msg ac logon (i + 1) res s
        else (case tk msg 1 of
                None \<Rightarrow> None
              | Some cmd \<Rightarrow>
                  if cmd \<noteq> mh_cmd h then msg_loop hnd msg ac logon (i + 1) res s
                  else do {
                    (r, s') \<leftarrow> hnd (mh_hndfn h) msg ac logon s;
                    if has_flag (res OR r) CANT_PROCEED then Some (False, res OR r, s')
                    else msg_loop hnd msg ac logon (i + 1) (res OR r) s' })
      else Some (True, res, s))"

definition lsi_msg_handle :: "hnd_sem \<Rightarrow> uhnd_sem \<Rightarrow> tokarr \<Rightarrow> bool \<Rightarrow> st \<Rightarrow> (u16 \<times> st) option" where
  "lsi_msg_handle hnd uhnd msg logon s =
     (let ac = msg_ac msg in do {
      (pre, s1) \<leftarrow> (if logon then Some (True, s) else dispatch_uhnd uhnd msg ac True s);
      if \<not> pre then Some (USER_ERR, s1)
      else do {
        (ok, res, s2) \<leftarrow> msg_loop hnd msg ac logon 0 0 s1;
        if \<not> ok then Some (res, s2)
        else do {
          (post, s3) \<leftarrow> (if logon then Some (True, s2) else dispatch_uhnd uhnd msg ac False s2);
          Some ((if post then res else res OR USER_ERR), s3) } } })"

end
