(* ===== verification/V3.thy ===== *)
theory V3
  imports Conn Msg
begin

text \<open>
  \<open>libsrsirc/v3.c\<close>: IRCv3 capabilities, STARTTLS and SASL at logon, and message tags.  The
  table of capabilities has \<open>MAX_V3CAPS\<close> slots; the ones in use come first.
\<close>

section \<open>Writing to the connection of the context\<close>

definition st_conn :: "(iconn \<Rightarrow> net \<Rightarrow> bool \<times> iconn \<times> net) \<Rightarrow> st \<Rightarrow> bool \<times> st" where
  "st_conn f s =
     (let (ok, c, w) = f (ic_con (st_irc s)) (st_net s)
      in (ok, s\<lparr>st_irc := (st_irc s)\<lparr>ic_con := c\<rparr>, st_net := w\<rparr>))"

definition st_write :: "string \<Rightarrow> st \<Rightarrow> bool \<times> st" where
  "st_write line = st_conn (lsi_conn_write line)"

definition st_write_raw :: "string \<Rightarrow> st \<Rightarrow> bool \<times> st" where
  "st_write_raw buf = st_conn (lsi_conn_write_raw buf)"

definition set_caps :: "v3cap option list \<Rightarrow> st \<Rightarrow> st" where
  "set_caps caps s = s\<lparr>st_irc := (st_irc s)\<lparr>ic_v3caps := caps\<rparr>\<rparr>"

definition caps_of :: "st \<Rightarrow> v3cap option list" where
  "caps_of s = ic_v3caps (st_irc s)"

section \<open>The table of capabilities\<close>

text \<open>The loops that stop at the first free slot\<close>

fun used_caps :: "v3cap option list \<Rightarrow> v3cap list" where
  "used_caps (Some c # r) = c # used_caps r"
| "used_caps _ = []"

definition cap_missing :: "bool \<Rightarrow> v3cap \<Rightarrow> bool" where
  "cap_missing offered cap \<longleftrightarrow> vc_musthave cap \<and>
     ((offered \<and> \<not> vc_offered cap) \<or> (\<not> offered \<and> \<not> vc_enabled cap))"

definition lsi_v3_check_caps :: "v3cap option list \<Rightarrow> bool \<Rightarrow> bool" where
  "lsi_v3_check_caps caps offered = (\<not> list_ex (cap_missing offered) (used_caps caps))"

fun capreq_loop :: "nat \<Rightarrow> v3cap list \<Rightarrow> string \<Rightarrow> bool \<Rightarrow> string \<times> bool" where
  "capreq_loop destsz [] dest fst_cap = (dest, fst_cap)"
| "capreq_loop destsz (c # r) dest fst_cap =
     (if vc_offered c
      then capreq_loop destsz r
             (ncat destsz (if fst_cap then dest else ncat destsz dest '' '') (vc_name c)) False
      else capreq_loop destsz r dest fst_cap)"

text \<open>The request line and whether there is anything to request\<close>

definition lsi_v3_mk_capreq :: "v3cap option list \<Rightarrow> nat \<Rightarrow> string \<times> bool" where
  "lsi_v3_mk_capreq caps destsz =
     (let (dest, fst_cap) = capreq_loop destsz (used_caps caps) [] True in (dest, \<not> fst_cap))"

text \<open>The additional data is written to every capability, not only the one named.\<close>

fun update_cap_loop :: "string \<Rightarrow> string option \<Rightarrow> int \<Rightarrow> int \<Rightarrow> v3cap option list \<Rightarrow> v3cap option list" where
  "update_cap_loop cap adddata offered enabled (Some c # r) =
     (let c1 = (if vc_name c = cap
                then c\<lparr>vc_offered := (if offered \<noteq> -1 then offered \<noteq> 0 else vc_offered c),
                       vc_enabled := (if enabled \<noteq> -1 then enabled \<noteq> 0 else vc_enabled c)\<rparr>
                else c)
      in Some (c1\<lparr>vc_adddata := (case adddata of Some d \<Rightarrow> ncpy MAX_V3CAPLEN d | None \<Rightarrow> [])\<rparr>)
         # update_cap_loop cap adddata offered enabled r)"
| "update_cap_loop cap adddata offered enabled caps = caps"

definition lsi_v3_update_cap :: "string \<Rightarrow> string option \<Rightarrow> int \<Rightarrow> int \<Rightarrow> st \<Rightarrow> st" where
  "lsi_v3_update_cap cap adddata offered enabled s =
     set_caps (update_cap_loop cap adddata offered enabled (caps_of s)) s"

fun cap_index :: "(v3cap \<Rightarrow> bool) \<Rightarrow> v3cap option list \<Rightarrow> nat \<Rightarrow> nat option" where
  "cap_index P [] i = None"
| "cap_index P (None # r) i = cap_index P r (i + 1)"
| "cap_index P (Some c # r) i = (if P c then Some i else cap_index P r (i + 1))"

definition find_cap :: "v3cap option list \<Rightarrow> string \<Rightarrow> v3cap option" where
  "find_cap caps cap =
     (case cap_index (\<lambda>c. vc_name c = cap) caps 0 of None \<Rightarrow> None | Some i \<Rightarrow> caps ! i)"

definition lsi_v3_want_caps :: "v3cap option list \<Rightarrow> bool" where
  "lsi_v3_want_caps caps = list_ex (\<lambda>c. c \<noteq> None) caps"

text \<open>The first slot that is free or has the name.\<close>

fun want_slot :: "string \<Rightarrow> v3cap option list \<Rightarrow> nat \<Rightarrow> nat" where
  "want_slot cap [] i = i"
| "want_slot cap (None # r) i = i"
| "want_slot cap (Some c # r) i = (if vc_name c = cap then i else want_slot cap r (i + 1))"

definition lsi_v3_want_cap :: "string \<Rightarrow> bool \<Rightarrow> st \<Rightarrow> bool \<times> st" where
  "lsi_v3_want_cap cap musthave s =
     (let caps = caps_of s; i = want_slot cap caps 0 in
      if length caps \<le> i then (False, s)
      else let (ok, s1) = (if caps ! i = None then st_malloc s else (True, s)) in
        if \<not> ok then (False, s1)
        else (True, set_caps (caps[i := Some \<lparr>vc_name = ncpy MAX_V3CAPLEN cap, vc_adddata = [],
                 vc_musthave = musthave, vc_offered = False, vc_enabled = False\<rparr>]) s1))"

definition lsi_v3_reset_caps :: "st \<Rightarrow> st" where
  "lsi_v3_reset_caps s = set_caps (map (\<lambda>_. None) (caps_of s)) s"

definition lsi_v3_init_caps :: "v3cap option list" where
  "lsi_v3_init_caps = replicate MAX_V3CAPS None"

text \<open>The last capability in use takes the place of the one that is removed.\<close>

definition clear_cap :: "string \<Rightarrow> v3cap option list \<Rightarrow> v3cap option list" where
  "clear_cap cap caps =
     (let cnt = length (used_caps caps) in
      case cap_index (\<lambda>c. vc_name c = cap) (take cnt caps) 0 of
        None \<Rightarrow> caps
      | Some i \<Rightarrow> (caps[i := caps ! (cnt - 1)])[cnt - 1 := None])"

definition lsi_v3_clear_cap :: "string \<Rightarrow> st \<Rightarrow> st" where
  "lsi_v3_clear_cap cap s = set_caps (clear_cap cap (caps_of s)) s"

text \<open>One word of a list of capabilities: its name and what follows an equals sign.\<close>

definition cap_word :: "string \<Rightarrow> string \<times> string option" where
  "cap_word w =
     (case strchr w (CHR ''='') of None \<Rightarrow> (w, None) | Some i \<Rightarrow> (take i w, Some (drop (i + 1) w)))"

definition update_word :: "bool \<Rightarrow> string \<Rightarrow> v3cap option list \<Rightarrow> v3cap option list" where
  "update_word offered w caps =
     (let (name, adddata) = cap_word w in
      case cap_index (\<lambda>c. vc_name c = name) caps 0 of
        None \<Rightarrow> caps
      | Some i \<Rightarrow>
          (case caps ! i of
             None \<Rightarrow> caps
           | Some c \<Rightarrow>
               (let c1 = (if offered then c\<lparr>vc_offered := True\<rparr> else c\<lparr>vc_enabled := True\<rparr>)
                in caps[i := Some (case adddata of
                              Some d \<Rightarrow> c1\<lparr>vc_adddata := ncpy MAX_V3CAPLEN d\<rparr> | None \<Rightarrow> c1)])))"

text \<open>The loop over the words of the copy of the line; \<open>lsi_com_next_tok\<close> by its string view.\<close>

function update_caps_loop :: "bool \<Rightarrow> string \<Rightarrow> v3cap option list \<Rightarrow> v3cap option list" where
  "update_caps_loop offered buf caps =
     (let caps' = update_word offered (tok_word (CHR '' '') buf) caps; r = tok_rest (CHR '' '') buf
      in if r = [] then caps' else update_caps_loop offered r caps')"
  by pat_completeness auto
termination
  by (relation "measure (\<lambda>(offered, buf, caps). length buf)") (auto dest: length_tok_rest_less)

declare update_caps_loop.simps [simp del]

definition lsi_v3_update_caps :: "string \<Rightarrow> bool \<Rightarrow> st \<Rightarrow> st" where
  "lsi_v3_update_caps capsline offered s =
     set_caps (update_caps_loop offered (ncpy MAX_V3CAPLINE capsline) (caps_of s)) s"

section \<open>Negotiation\<close>

definition str_or_null :: "string option \<Rightarrow> string" where
  "str_or_null p = (case p of Some x \<Rightarrow> x | None \<Rightarrow> ''(null)'')"

definition conclude_sasl_cap :: "st \<Rightarrow> bool \<times> st" where
  "conclude_sasl_cap s =
     (let sasl = (case find_cap (caps_of s) ''sasl'' of Some c \<Rightarrow> vc_enabled c | None \<Rightarrow> False)
      in st_write (if sasl then ncpy 512 (''AUTHENTICATE '' @ str_or_null (ic_sasl_mech (st_irc s)) @ crlf)
                   else ''CAP END'' @ crlf) s)"

fun rstrip :: "string \<Rightarrow> string" where
  "rstrip [] = []"
| "rstrip (c # s) = (let r = rstrip s in if r = [] \<and> c = CHR '' '' then [] else c # r)"

definition handle_CAP_ACK :: "tokarr \<Rightarrow> nat \<Rightarrow> bool \<Rightarrow> st \<Rightarrow> (u16 \<times> st) option" where
  "handle_CAP_ACK msg nargs logon s =
     (if nargs < 5 then Some (PROTO_ERR, s)
      else do {
        a \<leftarrow> tk msg 4;
        let arg = rstrip a;
        if arg \<noteq> ic_v3capreq (st_irc s) then Some (CAP_ERR, s)
        else Some (0, lsi_v3_update_caps arg False s) })"

definition handle_CAP_NAK :: "tokarr \<Rightarrow> nat \<Rightarrow> bool \<Rightarrow> st \<Rightarrow> (u16 \<times> st) option" where
  "handle_CAP_NAK msg nargs logon s =
     (if nargs < 5 then Some (PROTO_ERR, s) else Some (CAP_ERR, s))"

definition handle_CAP_LS :: "tokarr \<Rightarrow> nat \<Rightarrow> bool \<Rightarrow> st \<Rightarrow> (u16 \<times> st) option" where
  "handle_CAP_LS msg nargs logon s =
     (if \<not> logon then Some (0, s)
      else if nargs < 5 then Some (PROTO_ERR, s)
      else do {
        a \<leftarrow> tk msg 4;
        let arg = (if hdz a = CHR ''*'' then 5 else 4);
        line \<leftarrow> tk msg arg;
        Some ((if arg = 5 then MORE_CAPS else 0), lsi_v3_update_caps line True s) })"

definition handle_CAP :: "tokarr \<Rightarrow> nat \<Rightarrow> bool \<Rightarrow> st \<Rightarrow> (u16 \<times> st) option" where
  "handle_CAP msg nargs logon s =
     (if nargs < 4 then Some (PROTO_ERR, s)
      else do {
        subcmd \<leftarrow> tk msg 3;
        if subcmd = ''LS'' then do {
          (r, s1) \<leftarrow> handle_CAP_LS msg nargs logon s;
          if has_flag r CANT_PROCEED then Some (r, s1)
          else if has_flag r MORE_CAPS then Some (0, s1)
          else if \<not> lsi_v3_check_caps (caps_of s1) True then Some (CAP_ERR, s1)
          else do {
            let hd_req = ''CAP REQ :'';
            let (req, some) = lsi_v3_mk_capreq (caps_of s1) (MAX_V3CAPLEN - length hd_req);
            let capreq = (if some then hd_req @ req else ''CAP END'' @ crlf);
            let s2 = s1\<lparr>st_irc := (st_irc s1)\<lparr>ic_v3capreq := ncpy MAX_V3CAPLINE (drop (length hd_req) capreq)\<rparr>\<rparr>;
            let (ok, s3) = st_write capreq s2;
            Some ((if ok then 0 else IO_ERR), s3) } }
        else if subcmd = ''ACK'' then do {
          (r, s1) \<leftarrow> handle_CAP_ACK msg nargs logon s;
          if has_flag r CANT_PROCEED then Some (r, s1)
          else if (case find_cap (caps_of s1) ''tls'' of Some c \<Rightarrow> vc_enabled c | None \<Rightarrow> False)
            then (let (ok, s2) = st_write (''STARTTLS'' @ crlf) s1 in Some ((if ok then 0 else IO_ERR), s2))
          else (let (ok, s2) = conclude_sasl_cap s1 in Some ((if ok then 0 else IO_ERR), s2)) }
        else if subcmd = ''NAK'' then do {
          (r, s1) \<leftarrow> handle_CAP_NAK msg nargs logon s;
          Some ((if has_flag r CANT_PROCEED then r else 0), s1) }
        else Some (0, s) })"

text \<open>\<open>sasl_mech && sasl_msg\<close>\<close>

definition have_sasl :: "irc \<Rightarrow> bool" where
  "have_sasl ctx \<longleftrightarrow> ic_sasl_mech ctx \<noteq> None \<and> ic_sasl_msg ctx \<noteq> None"

definition handle_AUTHENTICATE :: "tokarr \<Rightarrow> nat \<Rightarrow> bool \<Rightarrow> st \<Rightarrow> (u16 \<times> st) option" where
  "handle_AUTHENTICATE msg nargs logon s =
     (if nargs < 3 then Some (PROTO_ERR, s)
      else if ic_dumb (st_irc s) \<or> \<not> have_sasl (st_irc s) then Some (0, s)
      else do {
        blob \<leftarrow> ic_sasl_msg (st_irc s);
        let (ok1, s1) = st_write_raw ''AUTHENTICATE '' s;
        let (ok2, s2) = (if ok1 then st_write_raw blob s1 else (False, s1));
        let (ok3, s3) = (if ok2 then st_write crlf s2 else (False, s2));
        Some ((if ok3 then 0 else IO_ERR), s3) })"

definition handle_903 :: "tokarr \<Rightarrow> nat \<Rightarrow> bool \<Rightarrow> st \<Rightarrow> (u16 \<times> st) option" where
  "handle_903 msg nargs logon s =
     (if \<not> have_sasl (st_irc s) then Some (0, s)
      else let (ok, s1) = (if logon then st_write (''CAP END'' @ crlf) s else (True, s)) in
        Some ((if ok then SASL_COMPLETE else IO_ERR), s1))"

definition handle_saslerr :: "tokarr \<Rightarrow> nat \<Rightarrow> bool \<Rightarrow> st \<Rightarrow> (u16 \<times> st) option" where
  "handle_saslerr msg nargs logon s =
     (if nargs < 2 then Some (PROTO_ERR, s)
      else if \<not> have_sasl (st_irc s) then Some (0, s)
      else Some (SASL_ERR, s))"

text \<open>The end of both STARTTLS handlers\<close>

definition after_starttls :: "st \<Rightarrow> u16 \<times> st" where
  "after_starttls s =
     (if ic_starttls_first (st_irc s) then (STARTTLS_OVER, s)
      else let (ok, s1) = conclude_sasl_cap s in ((if ok then 0 else IO_ERR), s1))"

definition handle_691 :: "tokarr \<Rightarrow> nat \<Rightarrow> bool \<Rightarrow> st \<Rightarrow> (u16 \<times> st) option" where
  "handle_691 msg nargs logon s =
     (if nargs < 4 then Some (PROTO_ERR, s)
      else if (case find_cap (caps_of s) ''tls'' of Some c \<Rightarrow> vc_musthave c | None \<Rightarrow> False)
        then Some (IO_ERR, s)
      else Some (after_starttls s))"

definition st_sys :: "st \<Rightarrow> bool \<times> st" where
  "st_sys s = (let (ok, w) = sys_call (st_net s) in (ok, s\<lparr>st_net := w\<rparr>))"

definition upd_con :: "(iconn \<Rightarrow> iconn) \<Rightarrow> st \<Rightarrow> st" where
  "upd_con f s = s\<lparr>st_irc := (st_irc s)\<lparr>ic_con := f (ic_con (st_irc s))\<rparr>\<rparr>"

definition handle_670 :: "tokarr \<Rightarrow> nat \<Rightarrow> bool \<Rightarrow> st \<Rightarrow> (u16 \<times> st) option" where
  "handle_670 msg nargs logon s =
     (let (ok1, s1) = st_sys s in
      if \<not> ok1 then Some (IO_ERR, s1)
      else let (ok2, s2) = st_sys s1; s2 = upd_con (\<lambda>c. c\<lparr>co_sctx := ok2\<rparr>) s2 in
        if \<not> ok2 then Some (IO_ERR, s2)
        else let (ok3, s3) = st_sys s2; s3 = upd_con (\<lambda>c. c\<lparr>co_shnd := ok3\<rparr>) s3 in
          if \<not> ok3 then Some (IO_ERR, s3)
          else let (ok4, s4) = st_sys s3 in
            if \<not> ok4 then Some (IO_ERR, s4)
            else Some (after_starttls (upd_con (\<lambda>c. c\<lparr>co_ssl := True\<rparr>) s4)))"

section \<open>Message tags\<close>

definition unescape :: "char \<Rightarrow> char" where
  "unescape c =
     (if c = CHR ''s'' then CHR '' '' else if c = CHR ''r'' then CHR 0x0D
      else if c = CHR ''n'' then CHR 0x0A else if c = CHR '':'' then CHR '';'' else c)"

text \<open>What \<open>decode_v3tag\<close> writes to an array with room for \<open>n\<close> characters, up to the NUL.\<close>

fun decode_loop :: "nat \<Rightarrow> string \<Rightarrow> bool \<Rightarrow> string" where
  "decode_loop 0 v3tag escnext = []"
| "decode_loop (Suc n) [] escnext = []"
| "decode_loop (Suc n) (c # v3tag) escnext =
     (if c = CHR 0x5C then
        (if escnext then CHR 0x5C # decode_loop n v3tag False else decode_loop (Suc n) v3tag True)
      else (if escnext then unescape c else c) # decode_loop n v3tag False)"

definition decode_v3tag :: "nat \<Rightarrow> string \<Rightarrow> string" where
  "decode_v3tag destsz v3tag = take (destsz - 1) (decode_loop destsz v3tag False)"

text \<open>The decoded tag, split at the equals sign: the array then starts with the key.\<close>

definition mkv3tag :: "nat \<Rightarrow> irc \<Rightarrow> irc option" where
  "mkv3tag ind ctx = do {
     r \<leftarrow> rd (ic_v3tags_raw ctx) ind;
     raw \<leftarrow> r;
     let d = decode_v3tag MAX_V3TAGLEN raw;
     let (key, val) = (case strchr d (CHR ''='') of
                         Some i \<Rightarrow> (take i d, Some (drop (i + 1) d)) | None \<Rightarrow> (d, None));
     Some (ctx\<lparr>ic_v3tags_dec := (ic_v3tags_dec ctx)[ind := key],
               ic_v3tags := (ic_v3tags ctx)[ind := (key, val)]\<rparr>) }"

definition tag_ready :: "nat \<Rightarrow> irc \<Rightarrow> irc option" where
  "tag_ready i ctx = do {
     d \<leftarrow> rd (ic_v3tags_dec ctx) i;
     if d = [] then mkv3tag i ctx else Some ctx }"

definition irc_v3tags_cnt :: "irc \<Rightarrow> nat" where
  "irc_v3tags_cnt ctx = ic_v3ntags ctx"

text \<open>The index of the tag (the value is \<open>snd\<close> of that tag); the inner None is \<open>false\<close>.\<close>

fun bykey_loop :: "string \<Rightarrow> nat list \<Rightarrow> irc \<Rightarrow> (string option option \<times> irc) option" where
  "bykey_loop key [] ctx = Some (None, ctx)"
| "bykey_loop key (i # is) ctx = do {
     ctx1 \<leftarrow> tag_ready i ctx;
     t \<leftarrow> rd (ic_v3tags ctx1) i;
     if lsi_b_strcasecmp key (fst t) = 0 then Some (Some (snd t), ctx1) else bykey_loop key is ctx1 }"

definition irc_v3tag_bykey :: "string \<Rightarrow> irc \<Rightarrow> (string option option \<times> irc) option" where
  "irc_v3tag_bykey key ctx = bykey_loop key [0..<ic_v3ntags ctx] ctx"

definition irc_v3tag :: "nat \<Rightarrow> irc \<Rightarrow> (v3tag option \<times> irc) option" where
  "irc_v3tag ind ctx =
     (if ic_v3ntags ctx \<le> ind then Some (None, ctx)
      else do {
        r \<leftarrow> rd (ic_v3tags_raw ctx) ind;
        if r = None then Some (None, ctx)
        else do {
          ctx1 \<leftarrow> tag_ready ind ctx;
          t \<leftarrow> rd (ic_v3tags ctx1) ind;
          Some (Some t, ctx1) } })"

end
