(* ===== verification/Ucbase.thy ===== *)
theory Ucbase
  imports Util
begin

text \<open>
  \<open>libsrsirc/ucbase.c\<close>: the base of users, channels and memberships.  The two maps of the
  context and the member map of each channel hold addresses; the objects live on the heap
  of the state.  Every access to an object goes through the heap, so a definition gives None
  where the code would use freed memory.
\<close>

section \<open>Access to the state\<close>

definition chans_of :: "st \<Rightarrow> addr skmap option option" where
  "chans_of s = (case ic_chans (st_irc s) of Null \<Rightarrow> Some None | Ptr m \<Rightarrow> Some (Some m) | Freed \<Rightarrow> None)"

definition set_chans :: "addr skmap option \<Rightarrow> st \<Rightarrow> st" where
  "set_chans h s = s\<lparr>st_irc := (st_irc s)\<lparr>ic_chans := (case h of None \<Rightarrow> Null | Some m \<Rightarrow> Ptr m)\<rparr>\<rparr>"

definition users_of :: "st \<Rightarrow> addr skmap option" where
  "users_of s = ic_users (st_irc s)"

definition set_users :: "addr skmap option \<Rightarrow> st \<Rightarrow> st" where
  "set_users h s = s\<lparr>st_irc := (st_irc s)\<lparr>ic_users := h\<rparr>\<rparr>"

definition casemap_of :: "st \<Rightarrow> nat" where
  "casemap_of s = ic_casemap (st_irc s)"

definition user_at :: "addr \<Rightarrow> st \<Rightarrow> user option" where
  "user_at a s = hp_users (st_hp s) a"

definition chan_at :: "addr \<Rightarrow> st \<Rightarrow> chan option" where
  "chan_at a s = hp_chans (st_hp s) a"

definition memb_at :: "addr \<Rightarrow> st \<Rightarrow> memb option" where
  "memb_at a s = hp_membs (st_hp s) a"

definition put_user :: "addr \<Rightarrow> user option \<Rightarrow> st \<Rightarrow> st" where
  "put_user a u s = s\<lparr>st_hp := (st_hp s)\<lparr>hp_users := (hp_users (st_hp s))(a := u)\<rparr>\<rparr>"

definition put_chan :: "addr \<Rightarrow> chan option \<Rightarrow> st \<Rightarrow> st" where
  "put_chan a c s = s\<lparr>st_hp := (st_hp s)\<lparr>hp_chans := (hp_chans (st_hp s))(a := c)\<rparr>\<rparr>"

definition put_memb :: "addr \<Rightarrow> memb option \<Rightarrow> st \<Rightarrow> st" where
  "put_memb a m s = s\<lparr>st_hp := (st_hp s)\<lparr>hp_membs := (hp_membs (st_hp s))(a := m)\<rparr>\<rparr>"

definition orc_of :: "st \<Rightarrow> mallocs" where
  "orc_of s = hp_alloc (st_hp s)"

definition set_orc :: "mallocs \<Rightarrow> st \<Rightarrow> st" where
  "set_orc orc s = s\<lparr>st_hp := (st_hp s)\<lparr>hp_alloc := orc\<rparr>\<rparr>"

text \<open>A fresh address; the three kinds of objects share the counter.\<close>

definition fresh :: "st \<Rightarrow> addr \<times> st" where
  "fresh s = (hp_next (st_hp s), s\<lparr>st_hp := (st_hp s)\<lparr>hp_next := hp_next (st_hp s) + 1\<rparr>\<rparr>)"

definition free_tag :: "bool \<Rightarrow> nat \<Rightarrow> st \<Rightarrow> st" where
  "free_tag freetag tag s =
     (if freetag then s\<lparr>st_hp := (st_hp s)\<lparr>hp_tags := hp_tags (st_hp s) @ [tag]\<rparr>\<rparr> else s)"

definition memb_map :: "addr \<Rightarrow> st \<Rightarrow> addr skmap option option" where
  "memb_map ca s = do { c \<leftarrow> chan_at ca s; Some (ch_memb c) }"

definition set_memb_map :: "addr \<Rightarrow> addr skmap option \<Rightarrow> st \<Rightarrow> st" where
  "set_memb_map ca h s =
     (case chan_at ca s of None \<Rightarrow> s | Some c \<Rightarrow> put_chan ca (Some (c\<lparr>ch_memb := h\<rparr>)) s)"

text \<open>
  The loop \<open>if (first(map, .., &e)) do body(e) while (next(map, .., &e))\<close> over a map of the
  state, the body deciding whether to leave it.  The result is whether the body left it.
  The number of nodes is enough fuel (\<open>for_each_rule\<close>).
\<close>

fun each_loop :: "nat \<Rightarrow> ('s \<Rightarrow> addr skmap option option) \<Rightarrow> (addr skmap option \<Rightarrow> 's \<Rightarrow> 's) \<Rightarrow>
    (addr \<Rightarrow> 's \<Rightarrow> (bool \<times> 's) option) \<Rightarrow> addr option \<Rightarrow> 's \<Rightarrow> (bool \<times> 's) option" where
  "each_loop 0 getm setm body e s = None"
| "each_loop (Suc n) getm setm body e s = do {
     v \<leftarrow> e;
     (stop, s1) \<leftarrow> body v s;
     if stop then Some (True, s1)
     else do {
       h \<leftarrow> getm s1;
       (r, h') \<leftarrow> lsi_skmap_next h;
       case r of
         None \<Rightarrow> Some (False, setm h' s1)
       | Some (k, e') \<Rightarrow> each_loop n getm setm body e' (setm h' s1) } }"

definition for_each :: "('s \<Rightarrow> addr skmap option option) \<Rightarrow> (addr skmap option \<Rightarrow> 's \<Rightarrow> 's) \<Rightarrow>
    (addr \<Rightarrow> 's \<Rightarrow> (bool \<times> 's) option) \<Rightarrow> 's \<Rightarrow> (bool \<times> 's) option" where
  "for_each getm setm body s = do {
     h \<leftarrow> getm s;
     let (r, h') = lsi_skmap_first h;
     let s' = setm h' s;
     case r of
       None \<Rightarrow> Some (False, s')
     | Some (k, e) \<Rightarrow> each_loop (case h of None \<Rightarrow> 0 | Some m \<Rightarrow> node_total m) getm setm body e s' }"

section \<open>Setting up\<close>

text \<open>When the second map cannot be allocated the first is disposed of, but not forgotten.\<close>

definition lsi_ucb_init :: "st \<Rightarrow> bool \<times> st" where
  "lsi_ucb_init s =
     (let (c, orc1) = lsi_skmap_init (orc_of s) 256 (casemap_of s); s1 = set_chans c (set_orc orc1 s) in
      if c = None then (False, s1)
      else let (u, orc2) = lsi_skmap_init (orc_of s1) 4096 (casemap_of s1); s2 = set_users u (set_orc orc2 s1) in
        if u = None then (False, s2\<lparr>st_irc := (st_irc s2)\<lparr>ic_chans := Freed\<rparr>\<rparr>)
        else (True, s2))"

section \<open>Channels\<close>

definition chan_init :: "string \<Rightarrow> addr skmap \<Rightarrow> chan" where
  "chan_init name m =
     \<lparr>ch_name = ncpy MAX_CHAN_LEN name, ch_topic = None, ch_topicnick = None, ch_tscreate = 0,
      ch_tstopic = 0, ch_memb = Some m, ch_desync = False, ch_modes = replicate 16 None,
      ch_tag = 0, ch_freetag = False\<rparr>"

definition lsi_ucb_add_chan :: "string \<Rightarrow> st \<Rightarrow> (addr option \<times> st) option" where
  "lsi_ucb_add_chan name s =
     (let (ok, s1) = st_malloc s in
      if \<not> ok then Some (None, s1)
      else let (mm, orc2) = lsi_skmap_init (orc_of s1) 256 (casemap_of s1); s2 = set_orc orc2 s1 in
        case mm of
          None \<Rightarrow> Some (None, s2)
        | Some m \<Rightarrow>
            (let (ok3, s3) = st_malloc s2 in
             if \<not> ok3 then Some (None, s3)
             else do {
               cs \<leftarrow> chans_of s3;
               let (a, s4) = fresh s3;
               let (ok5, cs', orc5) = lsi_skmap_put (orc_of s4) cs (Some name) (Some a);
               let s5 = set_chans cs' (set_orc orc5 s4);
               if \<not> ok5 then Some (None, s5)
               else Some (Some a, put_chan a (Some (chan_init name m)) s5) }))"

text \<open>
  Releasing a membership's hold on its user: the counter is a \<open>size_t\<close>, and when it
  reaches 0 (and the caller purges) the user is removed from the map and freed.
\<close>

definition dec_nchans :: "nat \<Rightarrow> nat" where
  "dec_nchans n = (if n = 0 then 2 ^ 64 - 1 else n - 1)"

definition del_user_key :: "string \<Rightarrow> st \<Rightarrow> st" where
  "del_user_key k s = set_users (snd (lsi_skmap_del (users_of s) k)) s"

definition free_user :: "addr \<Rightarrow> user \<Rightarrow> st \<Rightarrow> st" where
  "free_user ua u s = put_user ua None (free_tag (us_freetag u) (us_tag u) s)"

definition unref_user :: "bool \<Rightarrow> addr \<Rightarrow> st \<Rightarrow> st option" where
  "unref_user purge ua s = do {
     u \<leftarrow> user_at ua s;
     let u' = u\<lparr>us_nchans := dec_nchans (us_nchans u)\<rparr>;
     let s1 = put_user ua (Some u') s;
     if us_nchans u' = 0 \<and> purge then Some (free_user ua u' (del_user_key (us_nick u') s1))
     else Some s1 }"

text \<open>The body of the loops of \<open>lsi_ucb_drop_chan\<close> and \<open>lsi_ucb_clear_memb\<close>\<close>

definition release_memb :: "addr \<Rightarrow> st \<Rightarrow> (bool \<times> st) option" where
  "release_memb ma s = do {
     m \<leftarrow> memb_at ma s;
     s1 \<leftarrow> unref_user True (mb_u m) s;
     Some (False, put_memb ma None s1) }"

definition lsi_ucb_drop_chan :: "addr \<Rightarrow> st \<Rightarrow> (bool \<times> st) option" where
  "lsi_ucb_drop_chan ca s = do {
     c \<leftarrow> chan_at ca s;
     cs \<leftarrow> chans_of s;
     let (e, cs') = lsi_skmap_del cs (ch_name c);
     let s1 = set_chans cs' s;
     if e = None then Some (False, s1)
     else do {
       (_, s2) \<leftarrow> for_each (memb_map ca) (set_memb_map ca) release_memb s1;
       c2 \<leftarrow> chan_at ca s2;
       Some (True, put_chan ca None (free_tag (ch_freetag c2) (ch_tag c2) s2)) } }"

definition lsi_ucb_num_chans :: "st \<Rightarrow> nat option" where
  "lsi_ucb_num_chans s = map_option lsi_skmap_count (chans_of s)"

definition lsi_ucb_get_chan :: "string \<Rightarrow> st \<Rightarrow> addr option option" where
  "lsi_ucb_get_chan name s = map_option (\<lambda>cs. lsi_skmap_get cs name) (chans_of s)"

section \<open>Members\<close>

definition lsi_ucb_get_memb :: "addr \<Rightarrow> string \<Rightarrow> st \<Rightarrow> addr option option" where
  "lsi_ucb_get_memb ca nick s = map_option (\<lambda>h. lsi_skmap_get h nick) (memb_map ca s)"

definition lsi_ucb_num_memb :: "addr \<Rightarrow> st \<Rightarrow> nat option" where
  "lsi_ucb_num_memb ca s = map_option lsi_skmap_count (memb_map ca s)"

definition lsi_ucb_alloc_memb :: "addr \<Rightarrow> string \<Rightarrow> st \<Rightarrow> addr option \<times> st" where
  "lsi_ucb_alloc_memb ua mpfxstr s =
     (let (ok, s1) = st_malloc s in
      if \<not> ok then (None, s1)
      else let (a, s2) = fresh s1 in
        (Some a, put_memb a (Some \<lparr>mb_u = ua, mb_modepfx = ncpy MAX_MODEPFX mpfxstr\<rparr>) s2))"

definition lsi_ucb_add_memb :: "addr \<Rightarrow> addr \<Rightarrow> string \<Rightarrow> st \<Rightarrow> (bool \<times> st) option" where
  "lsi_ucb_add_memb ca ua mpfxstr s =
     (case lsi_ucb_alloc_memb ua mpfxstr s of
        (None, s1) \<Rightarrow> Some (False, s1)
      | (Some ma, s1) \<Rightarrow> do {
          h \<leftarrow> memb_map ca s1;
          u \<leftarrow> user_at ua s1;
          let (ok, h', orc') = lsi_skmap_put (orc_of s1) h (Some (us_nick u)) (Some ma);
          let s2 = set_memb_map ca h' (set_orc orc' s1);
          if \<not> ok then Some (False, put_memb ma None s2)
          else Some (True, put_user ua (Some (u\<lparr>us_nchans := us_nchans u + 1\<rparr>)) s2) })"

definition lsi_ucb_drop_memb :: "addr \<Rightarrow> addr \<Rightarrow> bool \<Rightarrow> st \<Rightarrow> (bool \<times> st) option" where
  "lsi_ucb_drop_memb ca ua purge s = do {
     h \<leftarrow> memb_map ca s;
     u \<leftarrow> user_at ua s;
     let (e, h') = lsi_skmap_del h (us_nick u);
     let s1 = set_memb_map ca h' s;
     case e of
       None \<Rightarrow> Some (False, s1)
     | Some ma \<Rightarrow> do {
         m \<leftarrow> memb_at ma s1;
         s2 \<leftarrow> unref_user purge (mb_u m) s1;
         Some (True, put_memb ma None s2) } }"

definition lsi_ucb_clear_memb :: "addr \<Rightarrow> st \<Rightarrow> st option" where
  "lsi_ucb_clear_memb ca s = do {
     h0 \<leftarrow> memb_map ca s;
     (_, s1) \<leftarrow> for_each (memb_map ca) (set_memb_map ca) release_memb s;
     if fst (lsi_skmap_first h0) = None then Some s1
     else do {
       h \<leftarrow> memb_map ca s1;
       Some (set_memb_map ca (lsi_skmap_clear h) s1) } }"

text \<open>
  The strength of two mode prefixes by their positions in the server's list.  For a
  symbol that is not in the list the code subtracts from a NULL pointer.
\<close>

definition compare_modepfx :: "irc \<Rightarrow> char \<Rightarrow> char \<Rightarrow> int option" where
  "compare_modepfx ctx c1 c2 = do {
     o1 \<leftarrow> strchr (snd (ic_m005modepfx ctx)) c1;
     o2 \<leftarrow> strchr (snd (ic_m005modepfx ctx)) c2;
     Some (if o1 < o2 then 1 else if o1 > o2 then -1 else 0) }"

fun modepfx_pos :: "irc \<Rightarrow> string \<Rightarrow> char \<Rightarrow> nat option" where
  "modepfx_pos ctx [] psym = Some 0"
| "modepfx_pos ctx (c # p) psym = do {
     r \<leftarrow> compare_modepfx ctx c psym;
     if r > 0 then do { n \<leftarrow> modepfx_pos ctx p psym; Some (Suc n) } else Some 0 }"

definition lsi_ucb_update_modepfx :: "addr \<Rightarrow> string \<Rightarrow> char \<Rightarrow> bool \<Rightarrow> st \<Rightarrow> (bool \<times> st) option" where
  "lsi_ucb_update_modepfx ca nick mpfxsym enab s = do {
     r \<leftarrow> lsi_ucb_get_memb ca nick s;
     case r of
       None \<Rightarrow> Some (False, s)
     | Some ma \<Rightarrow> do {
         m \<leftarrow> memb_at ma s;
         let p = strchr (mb_modepfx m) mpfxsym;
         if enab = (p \<noteq> None) then Some (False, s)
         else case p of
           Some i \<Rightarrow>
             (if length (mb_modepfx m) \<le> i then None
              else Some (True, put_memb ma (Some (m\<lparr>mb_modepfx := take i (mb_modepfx m) @ drop (i + 1) (mb_modepfx m)\<rparr>)) s))
         | None \<Rightarrow>
             (if MAX_MODEPFX \<le> length (mb_modepfx m) + 1 then Some (False, s)
              else do {
                i \<leftarrow> modepfx_pos (st_irc s) (mb_modepfx m) mpfxsym;
                Some (True, put_memb ma (Some (m\<lparr>mb_modepfx := take i (mb_modepfx m) @ mpfxsym # drop i (mb_modepfx m)\<rparr>)) s) }) } }"

section \<open>Channel modes\<close>

fun free_mode :: "string option list \<Rightarrow> nat \<Rightarrow> nat" where
  "free_mode [] i = i"
| "free_mode (None # r) i = i"
| "free_mode (Some _ # r) i = free_mode r (i + 1)"

definition lsi_ucb_clear_chanmodes :: "addr \<Rightarrow> st \<Rightarrow> st option" where
  "lsi_ucb_clear_chanmodes ca s = do {
     c \<leftarrow> chan_at ca s;
     Some (put_chan ca (Some (c\<lparr>ch_modes := map (\<lambda>_. None) (ch_modes c)\<rparr>)) s) }"

definition lsi_ucb_add_chanmode :: "addr \<Rightarrow> string \<Rightarrow> st \<Rightarrow> (bool \<times> st) option" where
  "lsi_ucb_add_chanmode ca modestr s = do {
     c \<leftarrow> chan_at ca s;
     let ind = free_mode (ch_modes c) 0;
     let (ok, s1) = (if ind = length (ch_modes c) then st_malloc s else (True, s));
     if \<not> ok then Some (False, s1)
     else do {
       let modes = (if ind = length (ch_modes c)
                    then ch_modes c @ replicate (length (ch_modes c)) None else ch_modes c);
       let (str, s2) = st_strdup modestr s1;
       modes' \<leftarrow> wr modes ind str;
       Some (str \<noteq> None, put_chan ca (Some (c\<lparr>ch_modes := modes'\<rparr>)) s2) } }"

fun find_mode :: "(string \<Rightarrow> bool) \<Rightarrow> string option list \<Rightarrow> nat \<Rightarrow> nat" where
  "find_mode P [] i = i"
| "find_mode P (Some x # r) i = (if P x then i else find_mode P r (i + 1))"
| "find_mode P (None # r) i = find_mode P r (i + 1)"

text \<open>\<open>for (last = modes_sz - 1; last > 0; last--) if (modes[last]) break;\<close>\<close>

fun last_mode :: "string option list \<Rightarrow> nat \<Rightarrow> nat" where
  "last_mode modes 0 = 0"
| "last_mode modes (Suc n) = (if modes ! Suc n \<noteq> None then Suc n else last_mode modes n)"

text \<open>The modes after dropping \<open>modestr\<close>; None: there is none to drop.\<close>

definition drop_mode :: "nat \<Rightarrow> string \<Rightarrow> string option list \<Rightarrow> string option list option" where
  "drop_mode cls modestr modes =
     (let i = (if cls = 1 then find_mode (\<lambda>x. x = modestr) modes 0
               else find_mode (\<lambda>x. hdz x = hdz modestr) modes 0);
          l = last_mode modes (length modes - 1)
      in if i = length modes then None
         else if l = i then Some (modes[i := None])
         else Some (modes[i := modes ! l, l := None]))"

definition lsi_ucb_drop_chanmode :: "addr \<Rightarrow> string \<Rightarrow> st \<Rightarrow> (bool \<times> st) option" where
  "lsi_ucb_drop_chanmode ca modestr s = do {
     c \<leftarrow> chan_at ca s;
     let cls = lsi_ut_classify_chanmode (st_irc s) (hdz modestr);
     if cls = 0 then Some (False, s)
     else case drop_mode cls modestr (ch_modes c) of
         None \<Rightarrow> Some (False, s)
       | Some modes' \<Rightarrow> Some (True, put_chan ca (Some (c\<lparr>ch_modes := modes'\<rparr>)) s) }"

section \<open>Users\<close>

definition touch_field :: "char \<Rightarrow> (string \<Rightarrow> nat \<Rightarrow> string \<Rightarrow> string) \<Rightarrow> nat \<Rightarrow> string option \<Rightarrow> string \<Rightarrow>
    st \<Rightarrow> string option \<times> st" where
  "touch_field c part sz field ident s =
     (if field = None \<and> strchr ident c \<noteq> None then st_strdup (part [] sz ident) s else (field, s))"

definition lsi_ucb_touch_user_int :: "addr \<Rightarrow> string \<Rightarrow> st \<Rightarrow> st option" where
  "lsi_ucb_touch_user_int ua ident s = do {
     u \<leftarrow> user_at ua s;
     let (un, s1) = touch_field (CHR ''!'') lsi_ut_ident2uname MAX_UNAME_LEN (us_uname u) ident s;
     let (ho, s2) = touch_field (CHR ''@'') lsi_ut_ident2host MAX_HOST_LEN (us_host u) ident s1;
     Some (put_user ua (Some (u\<lparr>us_uname := un, us_host := ho\<rparr>)) s2) }"

definition lsi_ucb_get_user :: "string \<Rightarrow> st \<Rightarrow> addr option" where
  "lsi_ucb_get_user ident s = lsi_skmap_get (users_of s) ident"

definition lsi_ucb_touch_user :: "string \<Rightarrow> st \<Rightarrow> (addr option \<times> st) option" where
  "lsi_ucb_touch_user ident s =
     (case lsi_ucb_get_user ident s of
        None \<Rightarrow> Some (None, s)
      | Some ua \<Rightarrow> do { s1 \<leftarrow> lsi_ucb_touch_user_int ua ident s; Some (Some ua, s1) })"

definition user_init :: "string \<Rightarrow> user" where
  "user_init nick =
     \<lparr>us_nick = nick, us_uname = None, us_host = None, us_fname = None, us_nchans = 0,
      us_tag = 0, us_freetag = False\<rparr>"

definition lsi_ucb_add_user :: "string \<Rightarrow> st \<Rightarrow> (addr option \<times> st) option" where
  "lsi_ucb_add_user ident s =
     (let nick = lsi_ut_ident2nick [] MAX_NICK_LEN ident; (ok, s1) = st_malloc s in
      if \<not> ok then Some (None, s1)
      else case st_strdup nick s1 of
          (None, s2) \<Rightarrow> Some (None, s2)
        | (Some n, s2) \<Rightarrow>
            (let (a, s3) = fresh s2;
                 (ok4, us', orc4) = lsi_skmap_put (orc_of s3) (users_of s3) (Some nick) (Some a);
                 s4 = set_users us' (set_orc orc4 s3)
             in if \<not> ok4 then Some (None, s4)
                else do {
                  s5 \<leftarrow> lsi_ucb_touch_user_int a ident (put_user a (Some (user_init n)) s4);
                  Some (Some a, s5) }))"

definition lsi_ucb_drop_user :: "addr \<Rightarrow> st \<Rightarrow> (bool \<times> st) option" where
  "lsi_ucb_drop_user ua s = do {
     u \<leftarrow> user_at ua s;
     let (e, us') = lsi_skmap_del (users_of s) (us_nick u);
     let s1 = set_users us' s;
     if e = None then Some (False, s1)
     else do {
       (_, s2) \<leftarrow> for_each chans_of set_chans
          (\<lambda>ca s. do { (_, s') \<leftarrow> lsi_ucb_drop_memb ca ua False s; Some (False, s') }) s1;
       u2 \<leftarrow> user_at ua s2;
       Some (True, free_user ua u2 s2) } }"

definition lsi_ucb_num_users :: "st \<Rightarrow> nat" where
  "lsi_ucb_num_users s = lsi_skmap_count (users_of s)"

text \<open>
  \<open>lsi_ucb_rename_user\<close>.  The body re-keys the member in one channel; it leaves the loop when
  an allocation fails.  The results: success, and \<open>*allocerr\<close>.
\<close>

definition rekey_memb :: "string \<Rightarrow> string \<Rightarrow> addr \<Rightarrow> st \<Rightarrow> (bool \<times> st) option" where
  "rekey_memb ident newnick ca s = do {
     h \<leftarrow> memb_map ca s;
     case lsi_skmap_get h ident of
       None \<Rightarrow> Some (False, s)
     | Some ma \<Rightarrow>
         (let (ok, h1, orc1) = lsi_skmap_put (orc_of s) h (Some newnick) (Some ma);
              s1 = set_memb_map ca h1 (set_orc orc1 s)
          in if \<not> ok then Some (True, s1)
             else Some (False, set_memb_map ca (snd (lsi_skmap_del h1 ident)) s1)) }"

definition lsi_ucb_rename_user :: "string \<Rightarrow> string \<Rightarrow> st \<Rightarrow> (bool \<times> bool \<times> st) option" where
  "lsi_ucb_rename_user ident newnick s =
     (let nick = lsi_ut_ident2nick [] MAX_NICK_LEN ident;
          justcase = (lsi_ut_istrcmp nick newnick (casemap_of s) = 0)
      in case lsi_ucb_get_user ident s of
           None \<Rightarrow> Some (False, False, s)
         | Some ua \<Rightarrow> do {
             u \<leftarrow> user_at ua s;
             if justcase then
               Some (True, False, put_user ua (Some (u\<lparr>us_nick := ncpy (length (us_nick u) + 1) newnick\<rparr>)) s)
             else case st_strdup newnick s of
                 (None, s1) \<Rightarrow> Some (False, False, s1)
               | (Some nn, s1) \<Rightarrow>
                   (let s2 = put_user ua (Some (u\<lparr>us_nick := nn\<rparr>)) s1;
                        (ok, us', orc3) = lsi_skmap_put (orc_of s2) (users_of s2) (Some newnick) (Some ua);
                        s3 = set_users us' (set_orc orc3 s2)
                    in if \<not> ok then Some (False, True, s3)
                       else do {
                         let s4 = del_user_key ident s3;
                         (stop, s5) \<leftarrow> for_each chans_of set_chans (rekey_memb ident newnick) s4;
                         Some (\<not> stop, stop, s5) }) })"

section \<open>Tearing down\<close>

definition dispose_chan :: "addr \<Rightarrow> st \<Rightarrow> (bool \<times> st) option" where
  "dispose_chan ca s = do {
     s1 \<leftarrow> lsi_ucb_clear_memb ca s;
     _ \<leftarrow> chan_at ca s1;
     Some (False, put_chan ca None s1) }"

definition dispose_user :: "addr \<Rightarrow> st \<Rightarrow> (bool \<times> st) option" where
  "dispose_user ua s = do { _ \<leftarrow> user_at ua s; Some (False, put_user ua None s) }"

text \<open>
  \<open>lsi_ucb_clear\<close> returns early when there is no channel: the users are then neither freed
  nor removed from their map.
\<close>

definition lsi_ucb_clear :: "st \<Rightarrow> st option" where
  "lsi_ucb_clear s = do {
     cs \<leftarrow> chans_of s;
     (go, s1) \<leftarrow> (case cs of
        None \<Rightarrow> Some (True, s)
      | Some m \<Rightarrow> do {
          (_, s') \<leftarrow> for_each chans_of set_chans dispose_chan s;
          if fst (lsi_skmap_first (Some m)) = None then Some (False, s')
          else do { cs' \<leftarrow> chans_of s'; Some (True, set_chans (lsi_skmap_clear cs') s') } });
     if \<not> go then Some s1
     else case users_of s1 of
         None \<Rightarrow> Some s1
       | Some m \<Rightarrow> do {
           (_, s2) \<leftarrow> for_each (\<lambda>s. Some (users_of s)) set_users dispose_user s1;
           if fst (lsi_skmap_first (Some m)) = None then Some s2
           else Some (set_users (lsi_skmap_clear (users_of s2)) s2) } }"

definition lsi_ucb_deinit :: "st \<Rightarrow> st option" where
  "lsi_ucb_deinit s = do { s1 \<leftarrow> lsi_ucb_clear s; Some (set_users None (set_chans None s1)) }"

section \<open>Iteration and tags\<close>

definition lsi_ucb_first_chan :: "st \<Rightarrow> (addr option \<times> st) option" where
  "lsi_ucb_first_chan s = do {
     h \<leftarrow> chans_of s;
     let (r, h') = lsi_skmap_first h;
     Some (Option.bind r snd, set_chans h' s) }"

definition lsi_ucb_next_chan :: "st \<Rightarrow> (addr option \<times> st) option" where
  "lsi_ucb_next_chan s = do {
     h \<leftarrow> chans_of s;
     (r, h') \<leftarrow> lsi_skmap_next h;
     Some (Option.bind r snd, set_chans h' s) }"

definition lsi_ucb_first_user :: "st \<Rightarrow> (addr option \<times> st) option" where
  "lsi_ucb_first_user s =
     (let (r, h') = lsi_skmap_first (users_of s) in Some (Option.bind r snd, set_users h' s))"

definition lsi_ucb_next_user :: "st \<Rightarrow> (addr option \<times> st) option" where
  "lsi_ucb_next_user s = do {
     (r, h') \<leftarrow> lsi_skmap_next (users_of s);
     Some (Option.bind r snd, set_users h' s) }"

definition lsi_ucb_first_memb :: "addr \<Rightarrow> st \<Rightarrow> (addr option \<times> st) option" where
  "lsi_ucb_first_memb ca s = do {
     h \<leftarrow> memb_map ca s;
     let (r, h') = lsi_skmap_first h;
     Some (Option.bind r snd, set_memb_map ca h' s) }"

definition lsi_ucb_next_memb :: "addr \<Rightarrow> st \<Rightarrow> (addr option \<times> st) option" where
  "lsi_ucb_next_memb ca s = do {
     h \<leftarrow> memb_map ca s;
     (r, h') \<leftarrow> lsi_skmap_next h;
     Some (Option.bind r snd, set_memb_map ca h' s) }"

definition lsi_ucb_tag_chan :: "addr \<Rightarrow> nat \<Rightarrow> bool \<Rightarrow> st \<Rightarrow> st option" where
  "lsi_ucb_tag_chan ca tag autofree s = do {
     c \<leftarrow> chan_at ca s;
     Some (put_chan ca (Some (c\<lparr>ch_tag := tag, ch_freetag := autofree\<rparr>)) (free_tag (ch_freetag c) (ch_tag c) s)) }"

definition lsi_ucb_tag_user :: "addr \<Rightarrow> nat \<Rightarrow> bool \<Rightarrow> st \<Rightarrow> st option" where
  "lsi_ucb_tag_user ua tag autofree s = do {
     u \<leftarrow> user_at ua s;
     Some (put_user ua (Some (u\<lparr>us_tag := tag, us_freetag := autofree\<rparr>)) (free_tag (us_freetag u) (us_tag u) s)) }"

end
