(* ===== verification/Track.thy ===== *)
theory Track
  imports Ucbase Msg
begin

text \<open>
  \<open>libsrsirc/irc_track.c\<close>: the message handlers that keep the user and channel base up to
  date with what the server tells, and the functions through which the user reads it.
\<close>

section \<open>Registration\<close>

text \<open>\<open>fail = fail || !lsi_msg_reghnd(...)\<close>, in order: stops at the first failure.\<close>

fun reg_seq :: "(string \<times> hnd_fn) list \<Rightarrow> string \<Rightarrow> st \<Rightarrow> (bool \<times> st) option" where
  "reg_seq [] modul s = Some (True, s)"
| "reg_seq ((cmd, h) # r) modul s = do {
     (ok, s') \<leftarrow> lsi_msg_reghnd cmd h modul s;
     if ok then reg_seq r modul s' else Some (False, s') }"

definition trk_handlers :: "(string \<times> hnd_fn) list" where
  "trk_handlers =
     [(''JOIN'', H_JOIN), (''311'', H_311), (''332'', H_332), (''333'', H_333), (''353'', H_353),
      (''352'', H_352), (''366'', H_366), (''PART'', H_PART), (''QUIT'', H_QUIT), (''NICK'', H_NICK),
      (''KICK'', H_KICK), (''MODE'', H_MODE), (''PRIVMSG'', H_PRIVMSG), (''NOTICE'', H_NOTICE),
      (''324'', H_324), (''TOPIC'', H_TOPIC)]"

definition set_endofnames :: "bool \<Rightarrow> st \<Rightarrow> st" where
  "set_endofnames b s = s\<lparr>st_irc := (st_irc s)\<lparr>ic_endofnames := b\<rparr>\<rparr>"

definition lsi_trk_init :: "st \<Rightarrow> (bool \<times> st) option" where
  "lsi_trk_init s = do {
     (ok, s1) \<leftarrow> reg_seq trk_handlers ''track'' s;
     let (ok2, s2) = (if ok then lsi_ucb_init s1 else (False, s1));
     if \<not> ok2 then Some (False, lsi_msg_unregall ''track'' s2)
     else Some (True, set_endofnames True s2) }"

definition lsi_trk_deinit :: "st \<Rightarrow> st option" where
  "lsi_trk_deinit s = do { s1 \<leftarrow> lsi_ucb_deinit s; Some (lsi_msg_unregall ''track'' s1) }"

section \<open>Joining and leaving\<close>

definition mynick_is :: "string \<Rightarrow> st \<Rightarrow> bool" where
  "mynick_is nick s \<longleftrightarrow> lsi_ut_istrcmp nick (ic_mynick (st_irc s)) (casemap_of s) = 0"

definition pfx_nick :: "string \<Rightarrow> string" where
  "pfx_nick pfx = lsi_ut_ident2nick [] MAX_NICK_LEN pfx"

text \<open>
  The user \<open>ident\<close>, added if not known, becomes a member of \<open>ca\<close>; a user added for this is
  dropped again when that fails.
\<close>

definition join_user :: "addr \<Rightarrow> string \<Rightarrow> string \<Rightarrow> st \<Rightarrow> (bool \<times> st) option" where
  "join_user ca ident mpfx s = do {
     (ua, s1) \<leftarrow> (case lsi_ucb_get_user ident s of Some ua \<Rightarrow> Some (Some ua, s) | None \<Rightarrow> lsi_ucb_add_user ident s);
     case ua of
       None \<Rightarrow> Some (False, s1)
     | Some ua \<Rightarrow> do {
         (ok, s2) \<leftarrow> lsi_ucb_add_memb ca ua mpfx s1;
         if ok then Some (True, s2)
         else if lsi_ucb_get_user ident s = None
           then do { (_, s3) \<leftarrow> lsi_ucb_drop_user ua s2; Some (False, s3) }
         else Some (False, s2) } }"

definition h_JOIN :: "tokarr \<Rightarrow> nat \<Rightarrow> bool \<Rightarrow> st \<Rightarrow> (u16 \<times> st) option" where
  "h_JOIN msg nargs logon s =
     (case tk msg 0 of
        None \<Rightarrow> Some (PROTO_ERR, s)
      | Some pfx \<Rightarrow>
          if nargs < 3 then Some (PROTO_ERR, s)
          else do {
            chname \<leftarrow> tk msg 2;
            c \<leftarrow> lsi_ucb_get_chan chname s;
            if mynick_is (pfx_nick pfx) s then
              (case c of
                 Some _ \<Rightarrow> Some (0, s)
               | None \<Rightarrow> do {
                   (a, s1) \<leftarrow> lsi_ucb_add_chan chname s;
                   Some ((if a = None then ALLOC_ERR else 0), s1) })
            else
              (case c of
                 None \<Rightarrow> Some (0, s)
               | Some ca \<Rightarrow> do {
                   (ok, s1) \<leftarrow> join_user ca pfx [] s;
                   Some ((if ok then 0 else ALLOC_ERR), s1) }) })"

text \<open>The end of \<open>h_PART\<close> and \<open>h_KICK\<close>: the member \<open>ident\<close> leaves.\<close>

definition leave_user :: "addr \<Rightarrow> string \<Rightarrow> st \<Rightarrow> st option" where
  "leave_user ca ident s =
     (case lsi_ucb_get_user ident s of
        None \<Rightarrow> Some s
      | Some ua \<Rightarrow> do { (_, s') \<leftarrow> lsi_ucb_drop_memb ca ua True s; Some s' })"

definition h_PART :: "tokarr \<Rightarrow> nat \<Rightarrow> bool \<Rightarrow> st \<Rightarrow> (u16 \<times> st) option" where
  "h_PART msg nargs logon s =
     (case tk msg 0 of
        None \<Rightarrow> Some (PROTO_ERR, s)
      | Some pfx \<Rightarrow>
          if nargs < 3 then Some (PROTO_ERR, s)
          else do {
            (_, s1) \<leftarrow> lsi_ucb_touch_user pfx s;
            chname \<leftarrow> tk msg 2;
            c \<leftarrow> lsi_ucb_get_chan chname s1;
            case c of
              None \<Rightarrow> Some (0, s1)
            | Some ca \<Rightarrow>
                if mynick_is (pfx_nick pfx) s1
                then do { (_, s2) \<leftarrow> lsi_ucb_drop_chan ca s1; Some (0, s2) }
                else do { s2 \<leftarrow> leave_user ca pfx s1; Some (0, s2) } })"

definition h_QUIT :: "tokarr \<Rightarrow> nat \<Rightarrow> bool \<Rightarrow> st \<Rightarrow> (u16 \<times> st) option" where
  "h_QUIT msg nargs logon s =
     (case tk msg 0 of
        None \<Rightarrow> Some (PROTO_ERR, s)
      | Some pfx \<Rightarrow> do {
          (_, s1) \<leftarrow> lsi_ucb_touch_user pfx s;
          case lsi_ucb_get_user pfx s1 of
            None \<Rightarrow> Some (0, s1)
          | Some ua \<Rightarrow> do { (_, s2) \<leftarrow> lsi_ucb_drop_user ua s1; Some (0, s2) } })"

definition h_KICK :: "tokarr \<Rightarrow> nat \<Rightarrow> bool \<Rightarrow> st \<Rightarrow> (u16 \<times> st) option" where
  "h_KICK msg nargs logon s =
     (case tk msg 0 of
        None \<Rightarrow> Some (PROTO_ERR, s)
      | Some pfx \<Rightarrow>
          if nargs < 4 then Some (PROTO_ERR, s)
          else do {
            (_, s1) \<leftarrow> lsi_ucb_touch_user pfx s;
            chname \<leftarrow> tk msg 2;
            victim \<leftarrow> tk msg 3;
            c \<leftarrow> lsi_ucb_get_chan chname s1;
            case c of
              None \<Rightarrow> Some (0, s1)
            | Some ca \<Rightarrow>
                if mynick_is victim s1
                then do { (_, s2) \<leftarrow> lsi_ucb_drop_chan ca s1; Some (0, s2) }
                else do { s2 \<leftarrow> leave_user ca victim s1; Some (0, s2) } })"

definition h_NICK :: "tokarr \<Rightarrow> nat \<Rightarrow> bool \<Rightarrow> st \<Rightarrow> (u16 \<times> st) option" where
  "h_NICK msg nargs logon s =
     (case tk msg 0 of
        None \<Rightarrow> Some (PROTO_ERR, s)
      | Some pfx \<Rightarrow>
          if nargs < 3 then Some (PROTO_ERR, s)
          else do {
            (_, s1) \<leftarrow> lsi_ucb_touch_user pfx s;
            newnick \<leftarrow> tk msg 2;
            (ok, aerr, s2) \<leftarrow> lsi_ucb_rename_user pfx newnick s1;
            Some ((if \<not> ok \<and> aerr then ALLOC_ERR else 0), s2) })"

section \<open>The list of names\<close>

text \<open>
  The loop of \<open>h_353\<close> over the names.  A mode prefix is skipped; but searching the list of
  prefixes for the terminating NUL succeeds too, and the pointer then leaves the string.
\<close>

function names_loop :: "addr \<Rightarrow> string \<Rightarrow> st \<Rightarrow> (u16 \<times> st) option" where
  "names_loop ca p s =
     (let ispfx = (strchr (snd (ic_m005modepfx (st_irc s))) (hdz p) \<noteq> None) in
      if ispfx \<and> p = [] then None
      else let mpfx = (if ispfx then [hdz p] else []);
               q = (if ispfx then tl p else p);
               nick = take (MAX_NICK_LEN - 1) (takeWhile (\<lambda>c. c \<noteq> CHR '' '') q)
        in case join_user ca nick mpfx s of
             None \<Rightarrow> None
           | Some (ok, s1) \<Rightarrow>
               if \<not> ok then Some (ALLOC_ERR, s1)
               else (case strchr q (CHR '' '') of
                       None \<Rightarrow> Some (0, s1)
                     | Some e \<Rightarrow> names_loop ca (drop (e + 1) q) s1))"
  by pat_completeness auto
termination
  by (relation "measure (\<lambda>(ca, p, s). length p)")
    (auto dest: strchr_Some_less split: if_splits)

declare names_loop.simps [simp del]

definition h_353 :: "tokarr \<Rightarrow> nat \<Rightarrow> bool \<Rightarrow> st \<Rightarrow> (u16 \<times> st) option" where
  "h_353 msg nargs logon s =
     (if tk msg 0 = None \<or> nargs < 6 then Some (PROTO_ERR, s)
      else do {
        chname \<leftarrow> tk msg 4;
        c \<leftarrow> lsi_ucb_get_chan chname s;
        case c of
          None \<Rightarrow> Some (0, s)
        | Some ca \<Rightarrow> do {
            s1 \<leftarrow> (if ic_endofnames (st_irc s)
                  then do { s' \<leftarrow> lsi_ucb_clear_memb ca s; Some (set_endofnames False s') }
                  else Some s);
            names \<leftarrow> tk msg 5;
            names_loop ca names s1 } })"

definition h_366 :: "tokarr \<Rightarrow> nat \<Rightarrow> bool \<Rightarrow> st \<Rightarrow> (u16 \<times> st) option" where
  "h_366 msg nargs logon s =
     (if tk msg 0 = None \<or> nargs < 4 then Some (PROTO_ERR, s)
      else do {
        let s1 = set_endofnames True s;
        chname \<leftarrow> tk msg 3;
        c \<leftarrow> lsi_ucb_get_chan chname s1;
        case c of
          None \<Rightarrow> Some (0, s1)
        | Some ca \<Rightarrow> do {
            ch \<leftarrow> chan_at ca s1;
            Some (0, put_chan ca (Some (ch\<lparr>ch_desync := False\<rparr>)) s1) } })"

section \<open>Topics\<close>

definition set_topic :: "addr \<Rightarrow> string option \<Rightarrow> st \<Rightarrow> st option" where
  "set_topic ca v s = do { c \<leftarrow> chan_at ca s; Some (put_chan ca (Some (c\<lparr>ch_topic := v\<rparr>)) s) }"

definition set_topicnick :: "addr \<Rightarrow> string option \<Rightarrow> st \<Rightarrow> st option" where
  "set_topicnick ca v s = do { c \<leftarrow> chan_at ca s; Some (put_chan ca (Some (c\<lparr>ch_topicnick := v\<rparr>)) s) }"

definition h_332 :: "tokarr \<Rightarrow> nat \<Rightarrow> bool \<Rightarrow> st \<Rightarrow> (u16 \<times> st) option" where
  "h_332 msg nargs logon s =
     (if tk msg 0 = None \<or> nargs < 5 then Some (PROTO_ERR, s)
      else do {
        chname \<leftarrow> tk msg 3;
        c \<leftarrow> lsi_ucb_get_chan chname s;
        case c of
          None \<Rightarrow> Some (0, s)
        | Some ca \<Rightarrow> do {
            topic \<leftarrow> tk msg 4;
            let (d, s1) = st_strdup topic s;
            s2 \<leftarrow> set_topic ca d s1;
            Some ((if d = None then ALLOC_ERR else 0), s2) } })"

definition h_333 :: "tokarr \<Rightarrow> nat \<Rightarrow> bool \<Rightarrow> st \<Rightarrow> (u16 \<times> st) option" where
  "h_333 msg nargs logon s =
     (if tk msg 0 = None \<or> nargs < 6 then Some (PROTO_ERR, s)
      else do {
        chname \<leftarrow> tk msg 3;
        c \<leftarrow> lsi_ucb_get_chan chname s;
        case c of
          None \<Rightarrow> Some (0, s)
        | Some ca \<Rightarrow> do {
            nick \<leftarrow> tk msg 4;
            let (d, s1) = st_strdup nick s;
            s2 \<leftarrow> set_topicnick ca d s1;
            if d = None then Some (ALLOC_ERR, s2)
            else do {
              ts \<leftarrow> tk msg 5;
              ch \<leftarrow> chan_at ca s2;
              Some (0, put_chan ca (Some (ch\<lparr>ch_tstopic := of_nat (strtoul10 ts)\<rparr>)) s2) } } })"

definition h_TOPIC :: "tokarr \<Rightarrow> nat \<Rightarrow> bool \<Rightarrow> st \<Rightarrow> (u16 \<times> st) option" where
  "h_TOPIC msg nargs logon s =
     (case tk msg 0 of
        None \<Rightarrow> Some (PROTO_ERR, s)
      | Some pfx \<Rightarrow>
          if nargs < 4 then Some (PROTO_ERR, s)
          else do {
            (_, s1) \<leftarrow> lsi_ucb_touch_user pfx s;
            chname \<leftarrow> tk msg 2;
            c \<leftarrow> lsi_ucb_get_chan chname s1;
            case c of
              None \<Rightarrow> Some (0, s1)
            | Some ca \<Rightarrow> do {
                s2 \<leftarrow> set_topicnick ca None s1;
                topic \<leftarrow> tk msg 3;
                let (d, s3) = st_strdup topic s2;
                s4 \<leftarrow> set_topic ca d s3;
                if d = None then Some (ALLOC_ERR, s4)
                else do {
                  let (n, s5) = st_strdup (pfx_nick pfx) s4;
                  s6 \<leftarrow> set_topicnick ca n s5;
                  Some ((if n = None then ALLOC_ERR else 0), s6) } } })"

section \<open>Modes\<close>

text \<open>
  One entry of \<open>lsi_ut_parse_MODE\<close>, a sign, a letter and perhaps a space and an argument: a
  prefix mode changes a member, any other the modes of the channel.  \<open>p[i] + 3\<close> lies past
  the end of an entry without an argument.
\<close>

definition chanmode_entry :: "addr \<Rightarrow> string \<Rightarrow> st \<Rightarrow> (u16 \<times> st) option" where
  "chanmode_entry ca e s = do {
     c0 \<leftarrow> rd e 0;
     if c0 = CHR ''+'' then do {
       (ok, s1) \<leftarrow> lsi_ucb_add_chanmode ca (drop 1 e) s;
       Some ((if ok then 0 else ALLOC_ERR), s1) }
     else do { (_, s1) \<leftarrow> lsi_ucb_drop_chanmode ca (drop 1 e) s; Some (0, s1) } }"

definition mode_entry_step :: "addr \<Rightarrow> string \<Rightarrow> st \<Rightarrow> (u16 \<times> st) option" where
  "mode_entry_step ca e s = do {
     c0 \<leftarrow> rd e 0;
     c1 \<leftarrow> rd e 1;
     case strchr (fst (ic_m005modepfx (st_irc s))) c1 of
       Some i \<Rightarrow>
         (if length e < 3 then None
          else do {
            psym \<leftarrow> rd (snd (ic_m005modepfx (st_irc s)) @ [NUL]) i;
            (_, s1) \<leftarrow> lsi_ucb_update_modepfx ca (drop 3 e) psym (c0 = CHR ''+'') s;
            Some (0, s1) })
     | None \<Rightarrow> chanmode_entry ca e s }"

fun entries_loop :: "(string \<Rightarrow> st \<Rightarrow> (u16 \<times> st) option) \<Rightarrow> string list \<Rightarrow> u16 \<Rightarrow> st \<Rightarrow> (u16 \<times> st) option" where
  "entries_loop step [] res s = Some (res, s)"
| "entries_loop step (e # es) res s = do { (r, s1) \<leftarrow> step e s; entries_loop step es (res OR r) s1 }"

definition st_parse_MODE :: "tokarr \<Rightarrow> bool \<Rightarrow> st \<Rightarrow> (string list option \<times> st) option" where
  "st_parse_MODE msg is324 s = do {
     (p, orc) \<leftarrow> lsi_ut_parse_MODE (st_irc s) msg is324 (orc_of s);
     Some (p, set_orc orc s) }"

definition h_MODE_chanmode :: "tokarr \<Rightarrow> nat \<Rightarrow> bool \<Rightarrow> st \<Rightarrow> (u16 \<times> st) option" where
  "h_MODE_chanmode msg nargs logon s =
     (case tk msg 0 of
        None \<Rightarrow> Some (PROTO_ERR, s)
      | Some pfx \<Rightarrow>
          if nargs < 4 then Some (PROTO_ERR, s)
          else do {
            (_, s1) \<leftarrow> (if strchr (pfx_nick pfx) (CHR ''.'') = None then lsi_ucb_touch_user pfx s
                       else Some (None, s));
            chname \<leftarrow> tk msg 2;
            c \<leftarrow> lsi_ucb_get_chan chname s1;
            case c of
              None \<Rightarrow> Some (0, s1)
            | Some ca \<Rightarrow> do {
                (p, s2) \<leftarrow> st_parse_MODE msg False s1;
                case p of
                  None \<Rightarrow> Some (ALLOC_ERR, s2)
                | Some es \<Rightarrow> entries_loop (mode_entry_step ca) es 0 s2 } })"

definition h_MODE :: "tokarr \<Rightarrow> nat \<Rightarrow> bool \<Rightarrow> st \<Rightarrow> (u16 \<times> st) option" where
  "h_MODE msg nargs logon s =
     (if tk msg 0 = None \<or> nargs < 4 then Some (PROTO_ERR, s)
      else do {
        target \<leftarrow> tk msg 2;
        if strchr (ic_m005chantypes (st_irc s)) (hdz target) \<noteq> None
        then h_MODE_chanmode msg nargs logon s else Some (0, s) })"

definition h_324 :: "tokarr \<Rightarrow> nat \<Rightarrow> bool \<Rightarrow> st \<Rightarrow> (u16 \<times> st) option" where
  "h_324 msg nargs logon s =
     (if tk msg 0 = None \<or> nargs < 5 then Some (PROTO_ERR, s)
      else do {
        chname \<leftarrow> tk msg 3;
        c \<leftarrow> lsi_ucb_get_chan chname s;
        case c of
          None \<Rightarrow> Some (0, s)
        | Some ca \<Rightarrow> do {
            (p, s1) \<leftarrow> st_parse_MODE msg True s;
            case p of
              None \<Rightarrow> Some (ALLOC_ERR, s1)
            | Some es \<Rightarrow> do {
                s2 \<leftarrow> lsi_ucb_clear_chanmodes ca s1;
                entries_loop (chanmode_entry ca) es 0 s2 } } })"

section \<open>What is known about a user\<close>

text \<open>\<open>h_PRIVMSG\<close> and \<open>h_NOTICE\<close> have the same body.\<close>

definition touch_speaker :: "tokarr \<Rightarrow> nat \<Rightarrow> bool \<Rightarrow> st \<Rightarrow> (u16 \<times> st) option" where
  "touch_speaker msg nargs logon s =
     (case tk msg 0 of
        None \<Rightarrow> Some (PROTO_ERR, s)
      | Some pfx \<Rightarrow>
          if nargs < 4 then Some (PROTO_ERR, s)
          else if \<not> logon \<and> strchr (pfx_nick pfx) (CHR ''.'') = None
            then do { (_, s1) \<leftarrow> lsi_ucb_touch_user pfx s; Some (0, s1) }
          else Some (0, s))"

definition h_PRIVMSG :: "tokarr \<Rightarrow> nat \<Rightarrow> bool \<Rightarrow> st \<Rightarrow> (u16 \<times> st) option" where
  "h_PRIVMSG = touch_speaker"

definition h_NOTICE :: "tokarr \<Rightarrow> nat \<Rightarrow> bool \<Rightarrow> st \<Rightarrow> (u16 \<times> st) option" where
  "h_NOTICE = touch_speaker"

text \<open>A field is replaced unless it already has the value, up to the case mapping.\<close>

definition refresh :: "string option \<Rightarrow> string \<Rightarrow> st \<Rightarrow> string option \<times> st" where
  "refresh field val s =
     (if (case field of None \<Rightarrow> True | Some f \<Rightarrow> lsi_ut_istrcmp f val (casemap_of s) \<noteq> 0)
      then let (_, field', s') = st_strprop field (Some val) s in (field', s')
      else (field, s))"

definition refresh_user :: "addr \<Rightarrow> string \<Rightarrow> string \<Rightarrow> string option \<Rightarrow> st \<Rightarrow> st option" where
  "refresh_user ua uname host fname s = do {
     u \<leftarrow> user_at ua s;
     let (un, s1) = refresh (us_uname u) uname s;
     let (ho, s2) = refresh (us_host u) host s1;
     let (fn, s3) = (case fname of Some f \<Rightarrow> refresh (us_fname u) f s2 | None \<Rightarrow> (us_fname u, s2));
     Some (put_user ua (Some (u\<lparr>us_uname := un, us_host := ho, us_fname := fn\<rparr>)) s3) }"

text \<open>In \<open>h_352\<close> the full name follows the hop count; without a space the fields before it are set.\<close>

definition h_352 :: "tokarr \<Rightarrow> nat \<Rightarrow> bool \<Rightarrow> st \<Rightarrow> (u16 \<times> st) option" where
  "h_352 msg nargs logon s =
     (if tk msg 0 = None \<or> nargs < 10 then Some (PROTO_ERR, s)
      else do {
        nick \<leftarrow> tk msg 7;
        case lsi_ucb_get_user nick s of
          None \<Rightarrow> Some (0, s)
        | Some ua \<Rightarrow> do {
            uname \<leftarrow> tk msg 4;
            host \<leftarrow> tk msg 5;
            trail \<leftarrow> tk msg 9;
            let fname = map_option (\<lambda>i. drop (i + 1) trail) (strchr trail (CHR '' ''));
            s1 \<leftarrow> refresh_user ua uname host fname s;
            Some ((if fname = None then PROTO_ERR else 0), s1) } })"

definition h_311 :: "tokarr \<Rightarrow> nat \<Rightarrow> bool \<Rightarrow> st \<Rightarrow> (u16 \<times> st) option" where
  "h_311 msg nargs logon s =
     (if tk msg 0 = None \<or> nargs < 8 then Some (PROTO_ERR, s)
      else do {
        nick \<leftarrow> tk msg 3;
        case lsi_ucb_get_user nick s of
          None \<Rightarrow> Some (0, s)
        | Some ua \<Rightarrow> do {
            uname \<leftarrow> tk msg 4;
            host \<leftarrow> tk msg 5;
            fname \<leftarrow> tk msg 7;
            s1 \<leftarrow> refresh_user ua uname host (Some fname) s;
            Some (0, s1) } })"

section \<open>The user's view\<close>

record chanrep =
  cr_name :: string
  cr_topic :: "string option"
  cr_topicnick :: "string option"
  cr_tscreate :: u64
  cr_tstopic :: u64
  cr_tag :: nat

record userrep =
  ur_modepfx :: "string option"
  ur_nick :: string
  ur_uname :: "string option"
  ur_host :: "string option"
  ur_fname :: "string option"
  ur_nchans :: nat
  ur_tag :: nat

definition mkchanrep :: "chan \<Rightarrow> chanrep" where
  "mkchanrep c =
     \<lparr>cr_name = ch_name c, cr_topic = ch_topic c, cr_topicnick = ch_topicnick c,
      cr_tscreate = ch_tscreate c, cr_tstopic = ch_tstopic c, cr_tag = ch_tag c\<rparr>"

definition mkuserrep :: "user \<Rightarrow> string option \<Rightarrow> userrep" where
  "mkuserrep u modepfx =
     \<lparr>ur_modepfx = modepfx, ur_nick = us_nick u, ur_uname = us_uname u, ur_host = us_host u,
      ur_fname = us_fname u, ur_nchans = us_nchans u, ur_tag = us_tag u\<rparr>"

definition irc_num_chans :: "st \<Rightarrow> nat option" where
  "irc_num_chans s = lsi_ucb_num_chans s"

definition irc_num_users :: "st \<Rightarrow> nat" where
  "irc_num_users s = lsi_ucb_num_users s"

text \<open>
  The three listing functions: \<open>do { report } while (cnt < limit && (x = next()))\<close>.  Each
  turn fills one element of the caller's array, so the array's size bounds them.
\<close>

fun list_loop :: "nat \<Rightarrow> (st \<Rightarrow> (addr option \<times> st) option) \<Rightarrow> (addr \<Rightarrow> st \<Rightarrow> 'r option) \<Rightarrow>
    addr \<Rightarrow> st \<Rightarrow> ('r list \<times> st) option" where
  "list_loop n nxt rep a s = do {
     r \<leftarrow> rep a s;
     (case n of
        0 \<Rightarrow> Some ([r], s)
      | Suc k \<Rightarrow> do {
          (a', s1) \<leftarrow> nxt s;
          case a' of
            None \<Rightarrow> Some ([r], s1)
          | Some a' \<Rightarrow> do { (rs, s2) \<leftarrow> list_loop k nxt rep a' s1; Some (r # rs, s2) } }) }"

definition list_all_of :: "nat \<Rightarrow> (st \<Rightarrow> (addr option \<times> st) option) \<Rightarrow> (st \<Rightarrow> (addr option \<times> st) option) \<Rightarrow>
    (addr \<Rightarrow> st \<Rightarrow> 'r option) \<Rightarrow> st \<Rightarrow> ('r list \<times> st) option" where
  "list_all_of limit frst nxt rep s =
     (if limit = 0 then Some ([], s)
      else do {
        (a, s1) \<leftarrow> frst s;
        case a of None \<Rightarrow> Some ([], s1) | Some a \<Rightarrow> list_loop (limit - 1) nxt rep a s1 })"

definition irc_all_chans :: "nat \<Rightarrow> st \<Rightarrow> (chanrep list \<times> st) option" where
  "irc_all_chans chanarr_cnt s =
     list_all_of chanarr_cnt lsi_ucb_first_chan lsi_ucb_next_chan
       (\<lambda>a s. map_option mkchanrep (chan_at a s)) s"

definition irc_chan :: "string \<Rightarrow> st \<Rightarrow> chanrep option option" where
  "irc_chan name s = do {
     c \<leftarrow> lsi_ucb_get_chan name s;
     case c of None \<Rightarrow> Some None | Some ca \<Rightarrow> do { ch \<leftarrow> chan_at ca s; Some (Some (mkchanrep ch)) } }"

definition irc_all_users :: "nat \<Rightarrow> st \<Rightarrow> (userrep list \<times> st) option" where
  "irc_all_users userarr_cnt s =
     list_all_of userarr_cnt lsi_ucb_first_user lsi_ucb_next_user
       (\<lambda>a s. map_option (\<lambda>u. mkuserrep u None) (user_at a s)) s"

definition irc_user :: "string \<Rightarrow> st \<Rightarrow> userrep option option" where
  "irc_user ident s =
     (case lsi_ucb_get_user ident s of
        None \<Rightarrow> Some None
      | Some ua \<Rightarrow> do { u \<leftarrow> user_at ua s; Some (Some (mkuserrep u None)) })"

definition irc_num_members :: "string \<Rightarrow> st \<Rightarrow> nat option" where
  "irc_num_members chname s = do {
     c \<leftarrow> lsi_ucb_get_chan chname s;
     case c of None \<Rightarrow> Some 0 | Some ca \<Rightarrow> lsi_ucb_num_memb ca s }"

definition memb_rep :: "addr \<Rightarrow> st \<Rightarrow> userrep option" where
  "memb_rep ma s = do {
     m \<leftarrow> memb_at ma s;
     u \<leftarrow> user_at (mb_u m) s;
     Some (mkuserrep u (Some (mb_modepfx m))) }"

definition irc_all_members :: "string \<Rightarrow> nat \<Rightarrow> st \<Rightarrow> (userrep list \<times> st) option" where
  "irc_all_members chname userarr_cnt s =
     (if userarr_cnt = 0 then Some ([], s)
      else do {
        c \<leftarrow> lsi_ucb_get_chan chname s;
        case c of
          None \<Rightarrow> Some ([], s)
        | Some ca \<Rightarrow> list_all_of userarr_cnt (lsi_ucb_first_memb ca) (lsi_ucb_next_memb ca) memb_rep s })"

text \<open>\<open>irc_member\<close> leaves \<open>tag\<close> and \<open>nchans\<close> of the caller's record as they were.\<close>

definition irc_member :: "userrep \<Rightarrow> string \<Rightarrow> string \<Rightarrow> st \<Rightarrow> userrep option option" where
  "irc_member dest chname ident s = do {
     c \<leftarrow> lsi_ucb_get_chan chname s;
     case c of
       None \<Rightarrow> Some None
     | Some ca \<Rightarrow> do {
         m \<leftarrow> lsi_ucb_get_memb ca ident s;
         case m of
           None \<Rightarrow> Some None
         | Some ma \<Rightarrow> do {
             r \<leftarrow> memb_rep ma s;
             Some (Some (r\<lparr>ur_nchans := ur_nchans dest, ur_tag := ur_tag dest\<rparr>)) } } }"

definition irc_tag_chan :: "string \<Rightarrow> nat \<Rightarrow> bool \<Rightarrow> st \<Rightarrow> (bool \<times> st) option" where
  "irc_tag_chan chname tag autofree s = do {
     c \<leftarrow> lsi_ucb_get_chan chname s;
     case c of
       None \<Rightarrow> Some (False, s)
     | Some ca \<Rightarrow> do { s1 \<leftarrow> lsi_ucb_tag_chan ca tag autofree s; Some (True, s1) } }"

definition irc_tag_user :: "string \<Rightarrow> nat \<Rightarrow> bool \<Rightarrow> st \<Rightarrow> (bool \<times> st) option" where
  "irc_tag_user ident tag autofree s =
     (case lsi_ucb_get_user ident s of
        None \<Rightarrow> Some (False, s)
      | Some ua \<Rightarrow> do { s1 \<leftarrow> lsi_ucb_tag_user ua tag autofree s; Some (True, s1) })"

end
