(* ===== verification/Msghnd.thy ===== *)
theory Msghnd
  imports V3 Track
begin

text \<open>
  \<open>libsrsirc/irc_msghnd.c\<close>: the core message handlers, which keep the facts about our own
  session (nickname, modes, what the server supports) and take part in the logon.
\<close>

definition upd_irc :: "(irc \<Rightarrow> irc) \<Rightarrow> st \<Rightarrow> st" where
  "upd_irc f s = s\<lparr>st_irc := f (st_irc s)\<rparr>"

text \<open>\<open>lsi_ut_freearr (logonconv[i]); logonconv[i] = lsi_ut_clonearr (msg)\<close>\<close>

definition keep_logonconv :: "nat \<Rightarrow> tokarr \<Rightarrow> st \<Rightarrow> st option" where
  "keep_logonconv i msg s = do {
     (c, orc) \<leftarrow> lsi_ut_clonearr msg (orc_of s);
     Some (upd_irc (\<lambda>x. x\<lparr>ic_logonconv := (ic_logonconv x)[i := c]\<rparr>) (set_orc orc s)) }"

section \<open>Logging on\<close>

definition handle_001 :: "tokarr \<Rightarrow> nat \<Rightarrow> bool \<Rightarrow> st \<Rightarrow> (u16 \<times> st) option" where
  "handle_001 msg nargs logon s =
     (if nargs < 3 \<or> (\<not> ic_dumb (st_irc s) \<and> \<not> logon) then Some (PROTO_ERR, s)
      else do {
        s1 \<leftarrow> keep_logonconv 0 msg s;
        nick \<leftarrow> tk msg 2;
        let s2 = upd_irc (\<lambda>x. x\<lparr>ic_mynick := ncpy MAX_NICK_LEN nick\<rparr>) s1;
        Some ((if lsi_v3_check_caps (caps_of s2) False then 0 else CAP_ERR), s2) })"

definition handle_logonconv :: "nat \<Rightarrow> tokarr \<Rightarrow> nat \<Rightarrow> bool \<Rightarrow> st \<Rightarrow> (u16 \<times> st) option" where
  "handle_logonconv i msg nargs logon s =
     (if \<not> ic_dumb (st_irc s) \<and> \<not> logon then Some (PROTO_ERR, s)
      else do { s1 \<leftarrow> keep_logonconv i msg s; Some (0, s1) })"

definition handle_002 :: "tokarr \<Rightarrow> nat \<Rightarrow> bool \<Rightarrow> st \<Rightarrow> (u16 \<times> st) option" where
  "handle_002 = handle_logonconv 1"

definition handle_003 :: "tokarr \<Rightarrow> nat \<Rightarrow> bool \<Rightarrow> st \<Rightarrow> (u16 \<times> st) option" where
  "handle_003 = handle_logonconv 2"

text \<open>A 004 with too few fields is searched for a host name in its prefix, even without one.\<close>

definition handle_004 :: "tokarr \<Rightarrow> nat \<Rightarrow> bool \<Rightarrow> st \<Rightarrow> (u16 \<times> st) option" where
  "handle_004 msg nargs logon s =
     (if nargs < 7 \<or> (\<not> ic_dumb (st_irc s) \<and> \<not> logon) then do {
        pfx \<leftarrow> tk msg 0;
        Some ((if strstr pfx ''twitch.tv'' \<noteq> None then LOGON_COMPLETE else PROTO_ERR), s) }
      else do {
        s1 \<leftarrow> keep_logonconv 3 msg s;
        host \<leftarrow> tk msg 3;
        ver \<leftarrow> tk msg 4;
        umodes \<leftarrow> tk msg 5;
        cmodes \<leftarrow> tk msg 6;
        Some (LOGON_COMPLETE,
          upd_irc (\<lambda>x. x\<lparr>ic_myhost := ncpy MAX_HOST_LEN host, ic_umodes := ncpy MAX_UMODES_LEN umodes,
            ic_cmodes := ncpy MAX_CMODES_LEN cmodes, ic_ver := ncpy MAX_VER_LEN ver\<rparr>) s1) })"

definition handle_PING :: "tokarr \<Rightarrow> nat \<Rightarrow> bool \<Rightarrow> st \<Rightarrow> (u16 \<times> st) option" where
  "handle_PING msg nargs logon s =
     (if \<not> logon then Some (0, s)
      else if nargs < 3 then Some (PROTO_ERR, s)
      else do {
        a \<leftarrow> tk msg 2;
        let (ok, s1) = st_write (ncpy 256 (''PONG :'' @ a @ crlf)) s;
        Some ((if ok then 0 else IO_ERR), s1) })"

text \<open>The user's nickname callback gets the array and its size; what it leaves there is a parameter.\<close>

type_synonym mutnick_sem = "nat \<Rightarrow> string \<Rightarrow> nat \<Rightarrow> string"

definition run_mutnick :: "mutnick_sem \<Rightarrow> mut_nick_fn \<Rightarrow> string \<Rightarrow> nat \<Rightarrow> net \<Rightarrow> (string \<times> net) option" where
  "run_mutnick mutn f nick sz w =
     (case f of
        Mut_nick_default \<Rightarrow> lsi_ut_mut_nick nick sz w
      | Mut_nick_user n \<Rightarrow> Some (mutn n nick sz, w))"

definition handle_bad_nick :: "mutnick_sem \<Rightarrow> tokarr \<Rightarrow> nat \<Rightarrow> bool \<Rightarrow> st \<Rightarrow> (u16 \<times> st) option" where
  "handle_bad_nick mutn msg nargs logon s =
     (if \<not> logon then Some (0, s)
      else case ic_cb_mut_nick (st_irc s) of
          None \<Rightarrow> Some (OUT_OF_NICKS, s)
        | Some f \<Rightarrow> do {
            (nick, w) \<leftarrow> run_mutnick mutn f (ic_mynick (st_irc s)) MAX_NICK_LEN (st_net s);
            let s1 = upd_irc (\<lambda>x. x\<lparr>ic_mynick := nick\<rparr>) (s\<lparr>st_net := w\<rparr>);
            if nick = [] then Some (OUT_OF_NICKS, s1)
            else (let (ok, s2) = st_write (ncpy (MAX_NICK_LEN + 8) (''NICK '' @ nick @ crlf)) s1
                  in Some ((if ok then 0 else IO_ERR), s2)) })"

definition handle_464 :: "tokarr \<Rightarrow> nat \<Rightarrow> bool \<Rightarrow> st \<Rightarrow> (u16 \<times> st) option" where
  "handle_464 msg nargs logon s = Some ((if logon then AUTH_ERR else PROTO_ERR), s)"

definition handle_383 :: "tokarr \<Rightarrow> nat \<Rightarrow> bool \<Rightarrow> st \<Rightarrow> (u16 \<times> st) option" where
  "handle_383 msg nargs logon s =
     (if nargs < 3 \<or> (\<not> ic_dumb (st_irc s) \<and> \<not> logon) then Some (PROTO_ERR, s)
      else do {
        nick \<leftarrow> tk msg 2;
        let host = (case tk msg 0 of Some p \<Rightarrow> p | None \<Rightarrow> co_host (ic_con (st_irc s)));
        Some (LOGON_COMPLETE,
          upd_irc (\<lambda>x. x\<lparr>ic_mynick := ncpy MAX_NICK_LEN nick, ic_myhost := ncpy MAX_HOST_LEN host,
            ic_umodes := ncpy MAX_UMODES_LEN DEF_UMODES, ic_cmodes := ncpy MAX_CMODES_LEN DEF_CMODES,
            ic_ver := [], ic_service := True\<rparr>) s) })"

section \<open>Our session\<close>

definition handle_484 :: "tokarr \<Rightarrow> nat \<Rightarrow> bool \<Rightarrow> st \<Rightarrow> (u16 \<times> st) option" where
  "handle_484 msg nargs logon s = Some (0, upd_irc (\<lambda>x. x\<lparr>ic_restricted := True\<rparr>) s)"

definition handle_465 :: "tokarr \<Rightarrow> nat \<Rightarrow> bool \<Rightarrow> st \<Rightarrow> (u16 \<times> st) option" where
  "handle_465 msg nargs logon s =
     (let (d, s1) = st_strdup (case tk msg 3 of Some a \<Rightarrow> a | None \<Rightarrow> []) s
      in Some (0, upd_irc (\<lambda>x. x\<lparr>ic_banned := True, ic_banmsg := d\<rparr>) s1))"

definition handle_466 :: "tokarr \<Rightarrow> nat \<Rightarrow> bool \<Rightarrow> st \<Rightarrow> (u16 \<times> st) option" where
  "handle_466 msg nargs logon s = Some (0, s)"

definition handle_ERROR :: "tokarr \<Rightarrow> nat \<Rightarrow> bool \<Rightarrow> st \<Rightarrow> (u16 \<times> st) option" where
  "handle_ERROR msg nargs logon s =
     (let (d, s1) = st_strdup (case tk msg 2 of Some a \<Rightarrow> a | None \<Rightarrow> []) s
      in Some (0, upd_irc (\<lambda>x. x\<lparr>ic_lasterr := d\<rparr>) s1))"

definition handle_NICK :: "tokarr \<Rightarrow> nat \<Rightarrow> bool \<Rightarrow> st \<Rightarrow> (u16 \<times> st) option" where
  "handle_NICK msg nargs logon s =
     (case tk msg 0 of
        None \<Rightarrow> Some (PROTO_ERR, s)
      | Some pfx \<Rightarrow>
          if nargs < 3 then Some (PROTO_ERR, s)
          else if mynick_is (lsi_ut_ident2nick [] 128 pfx) s then do {
            nick \<leftarrow> tk msg 2;
            Some (0, upd_irc (\<lambda>x. x\<lparr>ic_mynick := ncpy MAX_NICK_LEN nick\<rparr>) s) }
          else Some (0, s))"

text \<open>Our user modes: a set of letters, kept in the order they were set.\<close>

fun umodes_loop :: "string \<Rightarrow> bool \<Rightarrow> string \<Rightarrow> string" where
  "umodes_loop [] enab myumodes = myumodes"
| "umodes_loop (c # p) enab myumodes =
     (if c = CHR ''+'' \<or> c = CHR ''-'' then umodes_loop p (c = CHR ''+'') myumodes
      else case strchr myumodes c of
          Some i \<Rightarrow> umodes_loop p enab (if enab then myumodes else take i myumodes @ drop (i + 1) myumodes)
        | None \<Rightarrow> umodes_loop p enab (if enab then ncat MAX_UMODES_LEN myumodes [c] else myumodes))"

definition handle_MODE :: "tokarr \<Rightarrow> nat \<Rightarrow> bool \<Rightarrow> st \<Rightarrow> (u16 \<times> st) option" where
  "handle_MODE msg nargs logon s =
     (if nargs < 4 then Some (PROTO_ERR, s)
      else do {
        target \<leftarrow> tk msg 2;
        if \<not> mynick_is target s then Some (0, s)
        else do {
          p \<leftarrow> tk msg 3;
          Some (0, upd_irc (\<lambda>x. x\<lparr>ic_myumodes := umodes_loop p True (ic_myumodes x)\<rparr>) s) } })"

section \<open>What the server supports\<close>

definition handle_005_CASEMAPPING :: "string \<Rightarrow> irc \<Rightarrow> u16 \<times> irc" where
  "handle_005_CASEMAPPING val x =
     (0, x\<lparr>ic_casemap :=
        (if lsi_b_strcasecmp val ''ascii'' = 0 then CMAP_ASCII
         else if lsi_b_strcasecmp val ''strict-rfc1459'' = 0 then CMAP_STRICT_RFC1459
         else CMAP_RFC1459)\<rparr>)"

definition handle_005_PREFIX :: "string \<Rightarrow> irc \<Rightarrow> u16 \<times> irc" where
  "handle_005_PREFIX val x =
     (if val = [] then (PROTO_ERR, x)
      else let str = ncpy 32 (drop 1 val) in
        case strchr str (CHR '')'') of
          None \<Rightarrow> (PROTO_ERR, x)
        | Some i \<Rightarrow>
            (let m = take i str; p = drop (i + 1) str in
             if length m = 0 \<or> length m \<noteq> length p then (PROTO_ERR, x)
             else (0, x\<lparr>ic_m005modepfx := (ncpy MAX_005_MDPFX m, ncpy MAX_005_MDPFX p)\<rparr>)))"

text \<open>The tokens \<open>strtok\<close> finds: maximal runs without the delimiter.\<close>

fun strtok_all :: "char \<Rightarrow> string \<Rightarrow> string \<Rightarrow> string list" where
  "strtok_all d [] cur = (if cur = [] then [] else [cur])"
| "strtok_all d (c # s) cur =
     (if c = d then (if cur = [] then [] else [cur]) @ strtok_all d s [] else strtok_all d s (cur @ [c]))"

definition handle_005_CHANMODES :: "string \<Rightarrow> irc \<Rightarrow> u16 \<times> irc" where
  "handle_005_CHANMODES val x =
     (let toks = map (ncpy MAX_005_CHMD) (take 4 (strtok_all (CHR '','') (ncpy 64 val) []))
      in (0, x\<lparr>ic_m005chanmodes := toks @ replicate (4 - length toks) []\<rparr>))"

definition handle_005_CHANTYPES :: "string \<Rightarrow> irc \<Rightarrow> u16 \<times> irc" where
  "handle_005_CHANTYPES val x = (0, x\<lparr>ic_m005chantypes := ncpy MAX_005_CHTYP val\<rparr>)"

text \<open>
  One attribute: the value is stored under its name (replacing an older one), then the four
  attributes the library understands are evaluated.  They read the value even when it could
  not be copied.
\<close>

definition store_attr :: "string \<Rightarrow> string option \<Rightarrow> st \<Rightarrow> st" where
  "store_attr nam val s =
     (let m1 = snd (lsi_skmap_del (ic_m005attrs (st_irc s)) nam);
          (_, m2, orc) = lsi_skmap_put (orc_of s) m1 (Some nam) val
      in upd_irc (\<lambda>x. x\<lparr>ic_m005attrs := (case val of None \<Rightarrow> m1 | Some _ \<Rightarrow> m2)\<rparr>)
           (case val of None \<Rightarrow> s | Some _ \<Rightarrow> set_orc orc s))"

definition attr_hnd :: "string \<Rightarrow> (string \<Rightarrow> irc \<Rightarrow> u16 \<times> irc) option" where
  "attr_hnd nam =
     (if lsi_b_strcasecmp nam ''CASEMAPPING'' = 0 then Some handle_005_CASEMAPPING
      else if lsi_b_strcasecmp nam ''PREFIX'' = 0 then Some handle_005_PREFIX
      else if lsi_b_strcasecmp nam ''CHANMODES'' = 0 then Some handle_005_CHANMODES
      else if lsi_b_strcasecmp nam ''CHANTYPES'' = 0 then Some handle_005_CHANTYPES
      else None)"

definition attr_step :: "string \<Rightarrow> st \<Rightarrow> (u16 \<times> bool \<times> st) option" where
  "attr_step tok s =
     (let (nam, v) = (case strchr tok (CHR ''='') of
                        Some i \<Rightarrow> (take i tok, drop (i + 1) tok) | None \<Rightarrow> (tok, []));
          (val, s1) = st_strdup v s;
          s2 = store_attr nam val s1
      in case attr_hnd nam of
           None \<Rightarrow> Some (0, False, s2)
         | Some h \<Rightarrow> do {
             x \<leftarrow> val;
             let (r, ctx) = h x (st_irc s2);
             Some (r, lsi_b_strcasecmp nam ''CASEMAPPING'' = 0, s2\<lparr>st_irc := ctx\<rparr>) })"

text \<open>The result, whether a case mapping was seen, and whether the loop was left early\<close>

fun attrs_loop :: "string option list \<Rightarrow> u16 \<Rightarrow> bool \<Rightarrow> st \<Rightarrow> (u16 \<times> bool \<times> bool \<times> st) option" where
  "attrs_loop [] ret cm s = Some (ret, cm, False, s)"
| "attrs_loop (t # ts) ret cm s = do {
     tok \<leftarrow> t;
     (r, iscm, s1) \<leftarrow> attr_step tok s;
     if has_flag (ret OR r) CANT_PROCEED then Some (ret OR r, cm \<or> iscm, True, s1)
     else attrs_loop ts (ret OR r) (cm \<or> iscm) s1 }"

definition handle_005 :: "tokarr \<Rightarrow> nat \<Rightarrow> bool \<Rightarrow> st \<Rightarrow> (u16 \<times> st) option" where
  "handle_005 msg nargs logon s = do {
     (ret, cm, early, s1) \<leftarrow> attrs_loop (map (tk msg) [3..<nargs - 1]) 0 False s;
     if early then Some (ret, s1)
     else if cm \<and> ic_tracking (st_irc s1) \<and> \<not> ic_tracking_enab (st_irc s1) then do {
       (ok, s2) \<leftarrow> lsi_trk_init s1;
       Some (ret, if ok then upd_irc (\<lambda>x. x\<lparr>ic_tracking_enab := True\<rparr>) s2 else s2) }
     else Some (ret, s1) }"

section \<open>Registration\<close>

definition imh_handlers :: "bool \<Rightarrow> (string \<times> hnd_fn) list" where
  "imh_handlers dumb =
     (if dumb then []
      else [(''PING'', H_PING), (''432'', H_bad_nick), (''433'', H_bad_nick), (''436'', H_bad_nick),
            (''437'', H_bad_nick), (''464'', H_464)]) @
     [(''NICK'', H_core_NICK), (''ERROR'', H_ERROR), (''MODE'', H_core_MODE), (''001'', H_001),
      (''002'', H_002), (''003'', H_003), (''004'', H_004), (''383'', H_383), (''484'', H_484),
      (''465'', H_465), (''466'', H_466), (''005'', H_005)]"

definition lsi_imh_regall :: "bool \<Rightarrow> st \<Rightarrow> (bool \<times> st) option" where
  "lsi_imh_regall dumb s = reg_seq (imh_handlers dumb) ''core'' s"

definition lsi_imh_unregall :: "st \<Rightarrow> st" where
  "lsi_imh_unregall s = lsi_msg_unregall ''core'' s"

definition v3_handlers :: "(string \<times> hnd_fn) list" where
  "v3_handlers =
     [(''670'', H_670), (''691'', H_691), (''903'', H_903), (''902'', H_saslerr), (''904'', H_saslerr),
      (''905'', H_saslerr), (''908'', H_saslerr), (''CAP'', H_CAP), (''AUTHENTICATE'', H_AUTHENTICATE)]"

definition lsi_v3_regall :: "bool \<Rightarrow> st \<Rightarrow> (bool \<times> st) option" where
  "lsi_v3_regall dumb s = (if dumb then Some (True, s) else reg_seq v3_handlers ''v3'' s)"

definition lsi_v3_unregall :: "st \<Rightarrow> st" where
  "lsi_v3_unregall s = lsi_msg_unregall ''v3'' s"

section \<open>The handler named by a table entry\<close>

fun run_hnd :: "mutnick_sem \<Rightarrow> hnd_sem" where
  "run_hnd mutn H_PING = handle_PING"
| "run_hnd mutn H_bad_nick = handle_bad_nick mutn"
| "run_hnd mutn H_464 = handle_464"
| "run_hnd mutn H_core_NICK = handle_NICK"
| "run_hnd mutn H_ERROR = handle_ERROR"
| "run_hnd mutn H_core_MODE = handle_MODE"
| "run_hnd mutn H_001 = handle_001"
| "run_hnd mutn H_002 = handle_002"
| "run_hnd mutn H_003 = handle_003"
| "run_hnd mutn H_004 = handle_004"
| "run_hnd mutn H_383 = handle_383"
| "run_hnd mutn H_484 = handle_484"
| "run_hnd mutn H_465 = handle_465"
| "run_hnd mutn H_466 = handle_466"
| "run_hnd mutn H_005 = handle_005"
| "run_hnd mutn H_670 = handle_670"
| "run_hnd mutn H_691 = handle_691"
| "run_hnd mutn H_903 = handle_903"
| "run_hnd mutn H_saslerr = handle_saslerr"
| "run_hnd mutn H_CAP = handle_CAP"
| "run_hnd mutn H_AUTHENTICATE = handle_AUTHENTICATE"
| "run_hnd mutn H_JOIN = h_JOIN"
| "run_hnd mutn H_311 = h_311"
| "run_hnd mutn H_332 = h_332"
| "run_hnd mutn H_333 = h_333"
| "run_hnd mutn H_353 = h_353"
| "run_hnd mutn H_352 = h_352"
| "run_hnd mutn H_366 = h_366"
| "run_hnd mutn H_PART = h_PART"
| "run_hnd mutn H_QUIT = h_QUIT"
| "run_hnd mutn H_NICK = h_NICK"
| "run_hnd mutn H_KICK = h_KICK"
| "run_hnd mutn H_MODE = h_MODE"
| "run_hnd mutn H_PRIVMSG = h_PRIVMSG"
| "run_hnd mutn H_NOTICE = h_NOTICE"
| "run_hnd mutn H_324 = h_324"
| "run_hnd mutn H_TOPIC = h_TOPIC"

end
