(* ===== verification/Connprops.thy ===== *)
theory Connprops
  imports Conn
begin

text \<open>
  Properties of connections and of what they are built from: base64, the loop over the
  addresses of a host, the proxy logons, connecting, writing.
\<close>

section \<open>Base64\<close>

text \<open>The decoder the encoder is measured against: four characters to three bytes.\<close>

definition b64_val :: "char \<Rightarrow> u8" where
  "b64_val c = of_nat (length (takeWhile (\<lambda>x. x \<noteq> c) b64_alpha))"

definition b64_trip :: "u8 \<Rightarrow> u8 \<Rightarrow> u8 \<Rightarrow> u8 \<Rightarrow> u8 list" where
  "b64_trip p q r s = [push_bit 2 p OR drop_bit 4 q, push_bit 4 q OR drop_bit 2 r, push_bit 6 r OR s]"

fun b64_decode :: "string \<Rightarrow> u8 list" where
  "b64_decode (a # b # c # d # rest) =
     (if d = CHR ''='' then
        take (if c = CHR ''='' then 1 else 2)
          (b64_trip (b64_val a) (b64_val b) (if c = CHR ''='' then 0 else b64_val c) 0)
      else b64_trip (b64_val a) (b64_val b) (b64_val c) (b64_val d) @ b64_decode rest)"
| "b64_decode _ = []"

lemma b64_alpha_facts: "length b64_alpha = 64" "distinct b64_alpha" "CHR ''='' \<notin> set b64_alpha"
  by (simp_all add: b64_alpha_def)

lemma takeWhile_nth_distinct: "distinct xs \<Longrightarrow> i < length xs \<Longrightarrow> takeWhile (\<lambda>x. x \<noteq> xs ! i) xs = take i xs"
proof (induction xs arbitrary: i)
  case (Cons x xs)
  then show ?case by (cases i) (auto simp: nth_Cons')
qed simp

lemma b64_val_alpha:
  assumes "unat q < 64"
  shows "b64_val (b64_alpha ! unat q) = q" "b64_alpha ! unat q \<noteq> CHR ''=''"
proof -
  have "length (takeWhile (\<lambda>x. x \<noteq> b64_alpha ! unat q) b64_alpha) = unat q"
    using takeWhile_nth_distinct [OF b64_alpha_facts(2), of "unat q"] assms b64_alpha_facts(1) by simp
  then show "b64_val (b64_alpha ! unat q) = q" by (simp add: b64_val_def)
  show "b64_alpha ! unat q \<noteq> CHR ''=''" using assms b64_alpha_facts(1,3) by (metis nth_mem)
qed

lemma less_64I: "q AND 0x3f = q \<Longrightarrow> unat (q :: u8) < 64"
proof -
  assume "q AND 0x3f = q"
  then have "q \<le> 0x3f" by (metis word_and_le1)
  then show ?thesis by (simp add: word_le_nat_alt)
qed

lemma word8_eqI:
  fixes a b :: u8
  assumes "bit a 0 = bit b 0" "bit a 1 = bit b 1" "bit a 2 = bit b 2" "bit a 3 = bit b 3"
    "bit a 4 = bit b 4" "bit a 5 = bit b 5" "bit a 6 = bit b 6" "bit a 7 = bit b 7"
  shows "a = b"
proof (rule bit_word_eqI)
  fix n assume "n < LENGTH(8)"
  then consider "n = 0" | "n = 1" | "n = 2" | "n = 3" | "n = 4" | "n = 5" | "n = 6" | "n = 7" by fastforce
  then show "bit a n = bit b n" by cases (simp_all only: assms)
qed

lemma word8_high: "8 \<le> n \<Longrightarrow> \<not> bit (a :: u8) n"
  using bit_imp_le_length [of a n] by auto

lemma b64_bits:
  fixes a b c :: u8
  defines "p \<equiv> drop_bit 2 a" and "q \<equiv> push_bit 4 (a AND 0x03) OR drop_bit 4 (b AND 0xf0)"
    and "r \<equiv> push_bit 2 (b AND 0x0f) OR drop_bit 6 (c AND 0xc0)" and "s \<equiv> c AND 0x3f"
  shows "p AND 0x3f = p" "q AND 0x3f = q" "r AND 0x3f = r" "s AND 0x3f = s"
    "b64_trip p q r s = [a, b, c]"
  unfolding b64_trip_def p_def q_def r_def s_def list.inject
  by (intro conjI refl word8_eqI; simp add: bit_simps word8_high)+

lemma b64_decode_quad:
  assumes "p AND 0x3f = p" "q AND 0x3f = q" "r AND 0x3f = r" "s AND 0x3f = s"
  shows "b64_decode (b64_alpha ! unat p # b64_alpha ! unat q # b64_alpha ! unat r # b64_alpha ! unat s # rest) =
      b64_trip p q r s @ b64_decode rest"
    "b64_decode (b64_alpha ! unat p # b64_alpha ! unat q # b64_alpha ! unat r # CHR ''='' # rest) = take 2 (b64_trip p q r 0)"
    "b64_decode (b64_alpha ! unat p # b64_alpha ! unat q # CHR ''='' # CHR ''='' # rest) = take 1 (b64_trip p q 0 0)"
  using b64_val_alpha [OF less_64I [OF assms(1)]] b64_val_alpha [OF less_64I [OF assms(2)]]
    b64_val_alpha [OF less_64I [OF assms(3)]] b64_val_alpha [OF less_64I [OF assms(4)]] by simp_all

lemma b64_core_quad:
  "b64_core [a, b, c] = [b64_alpha ! unat (drop_bit 2 a), b64_alpha ! unat (push_bit 4 (a AND 0x03) OR drop_bit 4 (b AND 0xf0)),
     b64_alpha ! unat (push_bit 2 (b AND 0x0f) OR drop_bit 6 (c AND 0xc0)), b64_alpha ! unat (c AND 0x3f)]"
  "b64_core [a, b] = [b64_alpha ! unat (drop_bit 2 a), b64_alpha ! unat (push_bit 4 (a AND 0x03) OR drop_bit 4 (b AND 0xf0)),
     b64_alpha ! unat (push_bit 2 (b AND 0x0f) OR drop_bit 6 ((0 :: u8) AND 0xc0)), CHR ''='']"
  "b64_core [a] = [b64_alpha ! unat (drop_bit 2 a), b64_alpha ! unat (push_bit 4 (a AND 0x03) OR drop_bit 4 ((0 :: u8) AND 0xf0)),
     CHR ''='', CHR ''='']"
  by (simp_all add: b64_core_def Let_def)

lemma b64_decode_loop: "b64_decode (b64_loop input) = input"
proof (induction input rule: b64_loop.induct)
  note z = zero_and_eq push_bit_of_0 drop_bit_of_0 or.left_neutral or.right_neutral
  case (2 a)
  have "b64_decode (b64_core [a]) = take 1 [a, 0, 0]"
    unfolding b64_core_quad(3) b64_decode_quad(3) [OF b64_bits(1,2) b64_bits(1,1)]
    using b64_bits(5) [of a 0 0] by (simp only: z)
  then show ?case by simp
next
  note z = zero_and_eq push_bit_of_0 drop_bit_of_0 or.left_neutral or.right_neutral
  case (3 a b)
  have "b64_decode (b64_core [a, b]) = take 2 [a, b, 0]"
    unfolding b64_core_quad(2) b64_decode_quad(2) [OF b64_bits(1-3) b64_bits(1)]
    using b64_bits(5) [of a b 0] by (simp only: z)
  then show ?case by simp
next
  case (4 a b c rest)
  then show ?case unfolding b64_loop.simps b64_core_quad(1) append.simps b64_decode_quad(1) [OF b64_bits(1-4)] b64_bits(5) by simp
qed simp

lemma length_b64_loop: "length (b64_loop input) = ((length input + 2) div 3) * 4"
proof (induction input rule: b64_loop.induct)
  case (4 a b c rest)
  have "(length rest + 5) div 3 = Suc ((length rest + 2) div 3)" by presburger
  with 4 show ?case by (simp add: b64_core_def Let_def add.commute)
qed (simp_all add: b64_core_def Let_def)

section \<open>Writing\<close>

lemma io_write_cases:
  assumes "lsi_io_write shnd buf w = (ok, w')"
  shows "(ok \<longrightarrow> concat (nt_tx w') = concat (nt_tx w) @ buf) \<and> (\<not> ok \<longrightarrow> nt_tx w' = nt_tx w)"
  using assms by (auto simp: lsi_io_write_def send_wrap_def lsi_b_write_def lsi_b_write_ssl_def Let_def split: prod.splits if_splits)

lemma write_raw_cases:
  assumes "lsi_conn_write_raw buf ctx w = (ok, ctx', w')" "co_online ctx"
  shows "if ok then ctx' = ctx \<and> concat (nt_tx w') = concat (nt_tx w) @ buf
    else \<not> co_online ctx' \<and> co_sck ctx' = -1 \<and> nt_tx w' = nt_tx w"
proof -
  obtain b w1 where io: "lsi_io_write (co_shnd ctx) buf w = (b, w1)" by fastforce
  from io_write_cases [OF io] show ?thesis
    using assms io by (auto simp: lsi_conn_write_raw_def lsi_conn_reset_def lsi_b_close_def Let_def split: if_splits)
qed

section \<open>Connecting\<close>

definition conn_outcome :: "bool \<Rightarrow> bool \<times> iconn \<times> net \<Rightarrow> bool" where
  "conn_outcome ssl res \<longleftrightarrow> (case res of (ok, ctx', w') \<Rightarrow>
     co_online ctx' = ok \<and> (co_sck ctx' = -1 \<longleftrightarrow> \<not> ok) \<and> (ok \<longrightarrow> co_shnd ctx' = ssl))"

lemma conn_tls_outcome:
  "\<not> co_online ctx \<Longrightarrow> \<not> co_shnd ctx \<Longrightarrow> 0 \<le> co_sck ctx \<Longrightarrow> conn_outcome (co_ssl ctx) (conn_tls ctx w)"
  by (auto simp: conn_tls_def conn_abort_def conn_outcome_def Let_def split: prod.splits)

section \<open>Proxy logons\<close>

lemma drop_past_head: "length xs = n \<Longrightarrow> n \<le> m \<Longrightarrow> drop m (xs @ drop n ys) = drop m ys"
  by simp

lemma wr_bytes_fits: "off + length d \<le> length buf \<Longrightarrow> wr_bytes buf off d = Some (take off buf @ d @ drop (off + length d) buf)"
proof (induction d arbitrary: buf off)
  case (Cons c d)
  have "wr buf off c = Some (buf[off := c])" using Cons.prems by simp
  moreover have "wr_bytes (buf[off := c]) (off + 1) d =
      Some (take (off + 1) (buf[off := c]) @ d @ drop (off + 1 + length d) (buf[off := c]))"
    by (rule Cons.IH) (use Cons.prems in simp)
  ultimately show ?case using Cons.prems by (simp add: take_Suc_conv_app_nth)
qed simp

lemma wr_bytes_overruns: "d \<noteq> [] \<Longrightarrow> length buf < off + length d \<Longrightarrow> wr_bytes buf off d = None"
proof (induction d arbitrary: buf off)
  case (Cons c d)
  show ?case
  proof (cases "off < length buf")
    case True
    then have "wr_bytes (buf[off := c]) (off + 1) d = None"
      by (intro Cons.IH) (use Cons.prems True in \<open>cases d; simp\<close>)+
    then show ?thesis using True by simp
  qed simp
qed simp

lemma px_trem_keeps: "px_trem tend trem w = (t, w') \<Longrightarrow> nt_rx w' = nt_rx w"
  by (auto simp: px_trem_def lsi_b_tstamp_us_def Let_def split: if_splits list.splits)

lemma px_tend_keeps: "px_tend to_us w = (t, w') \<Longrightarrow> nt_rx w' = nt_rx w \<and> nt_wr w' = nt_wr w"
  by (auto simp: px_tend_def lsi_b_tstamp_us_def Let_def split: if_splits list.splits)

lemma rand_name_keeps: "rand_name n w = (x, w') \<Longrightarrow> nt_rx w' = nt_rx w \<and> nt_wr w' = nt_wr w"
  by (induction n arbitrary: w x w') (auto simp: c_rand_def Let_def split: prod.splits list.splits)

lemma write_unlimited: "nt_wr w = [] \<Longrightarrow> buf \<noteq> [] \<Longrightarrow> \<exists>w'. lsi_b_write buf w = (int (length buf), w') \<and> nt_rx w' = nt_rx w"
  by (simp add: lsi_b_write_def)

lemma px_read_whole:
  assumes "nt_rx w = Rx_data d # es" "length d = l" "0 < l" "l \<le> length resp"
  shows "\<exists>trem' w'. px_read_loop stride resp 0 l tend trem w = Some (Some (d @ drop l resp), trem', w')"
proof -
  obtain t w1 where t: "px_trem tend trem w = (t, w1)" by fastforce
  then have "nt_rx w1 = Rx_data d # es" using px_trem_keeps assms(1) by metis
  with t assms show ?thesis
    by (subst px_read_loop.simps) (auto simp: Let_def lsi_b_read_def wr_bytes_fits px_read_loop.simps)
qed

lemma px_read_pieces:
  assumes "nt_rx w = Rx_data d1 # Rx_data d2 # es" "0 < length d1" "length d1 < l" "d2 \<noteq> []" "length resp = l" "l \<le> stride"
  shows "px_read_loop stride resp 0 l tend trem w = None"
proof -
  obtain t w1 where t: "px_trem tend trem w = (t, w1)" by fastforce
  then have r1: "nt_rx w1 = Rx_data d1 # Rx_data d2 # es" using px_trem_keeps assms(1) by metis
  let ?w1 = "w1\<lparr>nt_to := nt_to w1 @ [t], nt_rx := Rx_data d2 # es\<rparr>"
  obtain t2 w2 where t2: "px_trem tend t ?w1 = (t2, w2)" by fastforce
  then have r2: "nt_rx w2 = Rx_data d2 # es" using px_trem_keeps by fastforce
  have "l \<le> stride * length d1" 
    using mult_le_mono [OF assms(6), of 1 "length d1"] assms(2) by simp
  have o: "wr_bytes (d1 @ drop (length d1) resp) (stride * length d1) (take (l - length d1) d2) = None"
  proof (rule wr_bytes_overruns)
    have "0 < length (take (l - length d1) d2)" using assms(3,4) by simp
    moreover have "length (d1 @ drop (length d1) resp) = l" using assms(3,5) by simp
    ultimately show "length (d1 @ drop (length d1) resp) < stride * length d1 + length (take (l - length d1) d2)"
      using \<open>l \<le> stride * length d1\<close> by linarith
    show "take (l - length d1) d2 \<noteq> []" using assms(3,4) by simp
  qed
  have "px_read_loop stride (d1 @ drop (length d1) resp) (length d1) l tend t ?w1 = None"
    using t2 r2 o assms(3,4) by (subst px_read_loop.simps) (simp add: lsi_b_read_def Let_def)
  with t r1 assms(2,3,5) show ?thesis
    by (subst px_read_loop.simps) (simp add: Let_def lsi_b_read_def wr_bytes_fits)
qed

text \<open>What a line looks like on the wire, and what writing one does\<close>

definition wire_line :: "string \<Rightarrow> string" where
  "wire_line line = line @ (if length line < 2 \<or> drop (length line - 2) line \<noteq> crlf then crlf else [])"

lemma conn_write_line:
  assumes "lsi_conn_write line ctx w = (ok, ctx', w')" "co_online ctx"
  shows "if ok then ctx' = ctx \<and> concat (nt_tx w') = concat (nt_tx w) @ wire_line line
    else \<not> co_online ctx' \<and> co_sck ctx' = -1"
proof -
  define brk where "brk = (if length line < 2 \<or> drop (length line - 2) line \<noteq> crlf then crlf else [])"
  obtain ok1 c1 w1 where r1: "lsi_conn_write_raw line ctx w = (ok1, c1, w1)" using prod_cases3 by blast
  note 1 = write_raw_cases [OF r1 assms(2)]
  obtain ok2 c2 w2 where r2: "lsi_conn_write_raw brk c1 w1 = (ok2, c2, w2)" using prod_cases3 by blast
  show ?thesis
  proof (cases ok1)
    case True
    with 1 have "co_online c1" using assms(2) by simp
    note 2 = write_raw_cases [OF r2 this]
    show ?thesis using assms(1) r1 r2 1 2 True
      by (cases ok2) (simp_all add: lsi_conn_write_def Let_def brk_def wire_line_def split: if_splits)
  next
    case False
    with assms(1) r1 1 show ?thesis by (simp add: lsi_conn_write_def Let_def)
  qed
qed

section \<open>Properties\<close>

text \<open>
  The base64 text of any input that fits the destination decodes to the input; its length is the
  number returned and leaves room for a terminator.
\<close>

theorem base64_roundtrip:
  assumes "((length input + 2) div 3) * 4 < destsz"
  shows "\<exists>out. lsi_com_base64 destsz input = (length out, out) \<and> length out < destsz \<and> b64_decode out = input"
  using assms by (simp add: lsi_com_base64_def length_b64_loop b64_decode_loop)

theorem base64_roundtrip_witness:
  "\<exists>out. lsi_com_base64 64 [0, 255, 16, 77] = (length out, out) \<and> b64_decode out = [0, 255, 16, 77]"
  using base64_roundtrip [of "[0, 255, 16, 77]" 64] by auto

text \<open>
  \<open>lsi_conn_write\<close> that succeeds has sent the line and a line break exactly if the line had none;
  one that fails leaves the connection offline and without a socket.
\<close>

theorem conn_write_sends_line:
  assumes "lsi_conn_write line ctx w = (ok, ctx', w')" "co_online ctx"
  defines "brk \<equiv> if length line < 2 \<or> drop (length line - 2) line \<noteq> crlf then crlf else []"
  shows "if ok then ctx' = ctx \<and> concat (nt_tx w') = concat (nt_tx w) @ line @ brk
    else \<not> co_online ctx' \<and> co_sck ctx' = -1"
  using conn_write_line [OF assms(1,2)] by (simp only: wire_line_def brk_def)

text \<open>A connection on socket 3 and a network on which everything succeeds.\<close>

definition online_con :: iconn where
  "online_con = (the (fst (lsi_conn_init [])))\<lparr>co_online := True, co_sck := 3\<rparr>"

definition quiet_net :: net where
  "quiet_net = \<lparr>nt_clk = [], nt_rx = [], nt_wr = [], nt_tx = [], nt_to = [], nt_sys = [], nt_closed = [], nt_rand = []\<rparr>"

theorem conn_write_sends_line_witness:
  "\<exists>ctx' w'. lsi_conn_write ''QUIT'' online_con quiet_net = (True, ctx', w') \<and> concat (nt_tx w') = ''QUIT'' @ crlf"
proof -
  obtain ok ctx' w' where r: "lsi_conn_write ''QUIT'' online_con quiet_net = (ok, ctx', w')" using prod_cases3 by blast
  have "fst (lsi_conn_write ''QUIT'' online_con quiet_net)" by code_simp
  moreover have "co_online online_con" by (simp add: online_con_def)
  ultimately show ?thesis using conn_write_sends_line [OF r] r by (auto simp: crlf_def quiet_net_def split: if_splits)
qed

text \<open>
  C36: After \<open>lsi_conn_connect\<close> on a connection that is offline, it is online exactly when the call
  succeeded; otherwise it holds no socket.
\<close>

theorem connect_outcome:
  assumes "lsi_conn_connect env softto_us hardto_us ctx w = Some (ok, ctx', w')" "\<not> co_online ctx" "co_sck ctx = -1"
  shows "co_online ctx' = ok \<and> (co_sck ctx' = -1 \<longleftrightarrow> \<not> ok) \<and> (ok \<longrightarrow> co_shnd ctx' = co_ssl ctx)"
proof -
  have tls: "conn_outcome (co_ssl ctx) (conn_tls (ctx\<lparr>co_sck := sck, co_shnd := False\<rparr>) w1)" if "0 \<le> sck" for sck w1
    using conn_tls_outcome [of "ctx\<lparr>co_sck := sck, co_shnd := False\<rparr>" w1] that assms(2) by simp
  have ab: "conn_outcome (co_ssl ctx) (conn_abort (ctx\<lparr>co_sck := sck, co_shnd := False\<rparr>) w1)" for sck w1
    using assms(2) by (simp add: conn_abort_def conn_outcome_def)
  have early: "conn_outcome (co_ssl ctx) (False, ctx, w1)" for w1 using assms(2,3) by (simp add: conn_outcome_def)
  have "conn_outcome (co_ssl ctx) res" if "lsi_conn_connect env softto_us hardto_us ctx w = Some res" for res
    using that tls ab early assms(2) unfolding lsi_conn_connect_def
    by (auto simp: Let_def split: prod.splits if_splits)
  from this [OF assms(1)] have "conn_outcome (co_ssl ctx) (ok, ctx', w')" .
  then show ?thesis by (simp add: conn_outcome_def)
qed

text \<open>A host that resolves to one address, where the connection to socket 3 is accepted.\<close>

definition one_host :: netenv where
  "one_host = \<lparr>ne_resolve = (\<lambda>h p. [\<lparr>at_addrstr = ''192.0.2.1'', at_port = p, at_sck = 3, at_connect = 0,
       at_select = (\<lambda>_. 1), at_ok = True\<rparr>]),
     ne_inet_addr = (\<lambda>h. []), ne_inet4 = (\<lambda>h. None), ne_inet6 = (\<lambda>h. None), ne_stack = []\<rparr>"

definition offline_con :: iconn where
  "offline_con = the (fst (lsi_conn_init []))"

theorem connect_outcome_witness:
  "\<exists>ctx' w'. lsi_conn_connect one_host 0 0 offline_con quiet_net = Some (True, ctx', w') \<and> co_online ctx' \<and> co_sck ctx' \<noteq> -1"
proof -
  have o: "\<not> co_online offline_con" "co_sck offline_con = -1" by (simp_all add: offline_con_def lsi_conn_init_def lsi_b_strdup_def)
  have "map_option fst (lsi_conn_connect one_host 0 0 offline_con quiet_net) = Some True" by code_simp
  then obtain ctx' w' where "lsi_conn_connect one_host 0 0 offline_con quiet_net = Some (True, ctx', w')" by auto
  with connect_outcome [OF this o] show ?thesis by auto
qed

text \<open>
  When the hard timeout expires before an address is tried, \<open>lsi_com_consocket\<close> returns 0, which
  is not the -1 its callers test for: \<open>lsi_conn_connect\<close> without a proxy and without TLS then
  reports success and goes online on descriptor 0.
\<close>

theorem hard_timeout_goes_online:
  assumes "\<not> co_online ctx" "co_laddr ctx \<noteq> Freed" "co_ptype ctx = -1" "\<not> co_ssl ctx"
    and "nt_clk w = t0 # t1 # t2 # ts" "hardto_us \<noteq> 0" "t1 + hardto_us \<noteq> 0" "t1 + hardto_us \<le> t2"
    and "ne_resolve env (Some (co_host ctx)) (if co_port ctx \<noteq> 0 then co_port ctx else DEF_PORT_PLAIN) \<noteq> []"
  shows "\<exists>ctx' w'. lsi_conn_connect env softto_us hardto_us ctx w = Some (True, ctx', w') \<and>
    co_online ctx' \<and> co_sck ctx' = 0"
proof -
  obtain a as where r: "ne_resolve env (Some (co_host ctx)) (if co_port ctx \<noteq> 0 then co_port ctx else DEF_PORT_PLAIN) = a # as"
    using assms(9) by (cases "ne_resolve env (Some (co_host ctx)) (if co_port ctx \<noteq> 0 then co_port ctx else DEF_PORT_PLAIN)") auto
  have t: "px_tend hardto_us w = (t0 + hardto_us, w\<lparr>nt_clk := t1 # t2 # ts\<rparr>)"
    using assms(5,6) by (simp add: px_tend_def lsi_b_tstamp_us_def)
  have c: "\<exists>w'. lsi_com_consocket (a # as) 256 softto_us hardto_us (w\<lparr>nt_clk := t1 # t2 # ts\<rparr>) = (0, None, w')"
    using assms(6-8) by (simp add: lsi_com_consocket_def lsi_b_tstamp_us_def lsi_com_check_timeout_def Let_def)
  then show ?thesis
    using assms(1-4) t r by (auto simp: lsi_conn_connect_def Let_def conn_tls_def)
qed

theorem hard_timeout_goes_online_witness:
  "\<exists>ctx' w'. lsi_conn_connect one_host 0 5 offline_con (quiet_net\<lparr>nt_clk := [10, 20, 30]\<rparr>) = Some (True, ctx', w') \<and>
     co_online ctx' \<and> co_sck ctx' = 0"
  by (rule hard_timeout_goes_online [where ?t0.0 = 10 and ?t1.0 = 20 and ?t2.0 = 30 and ts = "[]"])
    (simp_all add: offline_con_def lsi_conn_init_def lsi_b_strdup_def one_host_def)

text \<open>
  When the eight bytes of a SOCKS4 reply arrive in one piece, the logon succeeds exactly if the proxy
  granted the request.
\<close>

theorem socks4_whole_reply:
  assumes "nt_wr w = []" "nt_rx w = Rx_data d # es" "length d = 8"
  shows "\<exists>w'. lsi_px_logon_socks4 inet_addr host port to_us w = Some (byte (d ! 0) = 0 \<and> byte (d ! 1) = 0x5a, w')"
proof -
  obtain tend w1 where t: "px_tend to_us w = (tend, w1)" by fastforce
  obtain name w2 where n: "rand_name 5 w1 = (name, w2)" by fastforce
  let ?logon = "socks4_request inet_addr host port name"
  have "nt_wr w2 = []" "nt_rx w2 = Rx_data d # es" using px_tend_keeps [OF t] rand_name_keeps [OF n] assms by auto
  moreover obtain w3 where w3: "lsi_b_write ?logon w2 = (int (length ?logon), w3)" "nt_rx w3 = nt_rx w2"
    using write_unlimited [OF \<open>nt_wr w2 = []\<close>, of ?logon] by (auto simp: socks4_request_def)
  ultimately obtain tr w4 where "px_read_loop 8 (replicate 8 NUL) 0 8 tend 0 w3 = Some (Some (d @ drop 8 (replicate 8 NUL)), tr, w4)"
    using px_read_whole [of w3 d es 8 "replicate 8 NUL" 8 tend 0] assms(3) by auto
  then show ?thesis using t n w3(1) assms(3) by (simp add: lsi_px_logon_socks4_def Let_def nth_append)
qed

theorem socks4_whole_reply_witness:
  "\<exists>w'. lsi_px_logon_socks4 (\<lambda>h. [chr 192, chr 0, chr 2, chr 1]) ''h'' 6667 0
     (quiet_net\<lparr>nt_rx := [Rx_data (map chr [0, 90, 0, 0, 0, 0, 0, 0])]\<rparr>) = Some (True, w')"
  using socks4_whole_reply [of "quiet_net\<lparr>nt_rx := [Rx_data (map chr [0, 90, 0, 0, 0, 0, 0, 0])]\<rparr>"
      "map chr [0, 90, 0, 0, 0, 0, 0, 0]" "[]" "\<lambda>h. [chr 192, chr 0, chr 2, chr 1]" "''h''" 6667 0]
  by (simp add: quiet_net_def)

text \<open>
  When the reply arrives in more than one piece, the second read stores behind the end of the
  array: \<open>&resp + c\<close> steps by whole arrays.
\<close>

theorem socks4_reply_in_pieces_overruns:
  assumes "nt_wr w = []" "nt_rx w = Rx_data d1 # Rx_data d2 # es" "0 < length d1" "length d1 < 8" "d2 \<noteq> []"
  shows "lsi_px_logon_socks4 inet_addr host port to_us w = None"
proof -
  obtain tend w1 where t: "px_tend to_us w = (tend, w1)" by fastforce
  obtain name w2 where n: "rand_name 5 w1 = (name, w2)" by fastforce
  let ?logon = "socks4_request inet_addr host port name"
  have "nt_wr w2 = []" "nt_rx w2 = Rx_data d1 # Rx_data d2 # es" using px_tend_keeps [OF t] rand_name_keeps [OF n] assms by auto
  moreover obtain w3 where w3: "lsi_b_write ?logon w2 = (int (length ?logon), w3)" "nt_rx w3 = nt_rx w2"
    using write_unlimited [OF \<open>nt_wr w2 = []\<close>, of ?logon] by (auto simp: socks4_request_def)
  ultimately have "px_read_loop 8 (replicate 8 NUL) 0 8 tend 0 w3 = None"
    using px_read_pieces [of w3 d1 d2 es 8 "replicate 8 NUL" 8 tend 0] assms(3-5) by simp
  then show ?thesis using t n w3(1) by (simp add: lsi_px_logon_socks4_def Let_def)
qed

theorem socks4_reply_in_pieces_overruns_witness:
  "lsi_px_logon_socks4 (\<lambda>h. [chr 192, chr 0, chr 2, chr 1]) ''h'' 6667 0
     (quiet_net\<lparr>nt_rx := [Rx_data (map chr [0, 90]), Rx_data (map chr [0, 0, 0, 0, 0, 0])]\<rparr>) = None"
  by (rule socks4_reply_in_pieces_overruns [where ?d1.0 = "map chr [0, 90]" and ?d2.0 = "map chr [0, 0, 0, 0, 0, 0]" and es = "[]"])
    (simp_all add: quiet_net_def)

text \<open>
  The SOCKS5 connect request for an IPv4 address has 22 bytes instead of ten: twelve bytes of the
  uninitialised array stand between the address and the port.
\<close>

theorem socks5_ipv4_request_has_gap:
  assumes "lsi_com_guess_hosttype host = HOSTTYPE_IPV4" "inet4 host = Some a" "length a = 4" "length conbuf0 = 128"
  shows "\<exists>b b'. socks5_conbuf inet4 inet6 conbuf0 host = Some (Some (b, 20)) \<and>
    wr_bytes b 20 (htons_bytes port) = Some b' \<and>
    take 22 b' = [chr 5, chr 1, chr 0, chr 1] @ a @ take 12 (drop 8 conbuf0) @ htons_bytes port"
proof -
  let ?b1 = "[chr 5, chr 1, chr 0] @ drop 3 conbuf0"
  let ?b2 = "[chr 5, chr 1, chr 0, chr 1] @ drop 4 conbuf0"
  let ?b3 = "[chr 5, chr 1, chr 0, chr 1] @ a @ drop 8 conbuf0"
  have 1: "wr_bytes conbuf0 0 [chr 5, chr 1, chr 0] = Some ?b1" using assms(4) by (subst wr_bytes_fits) (simp_all add: numeral_eq_Suc)
  have 2: "wr_bytes ?b1 3 [chr 1] = Some ?b2" using assms(4) by (subst wr_bytes_fits) simp_all
  have 3: "wr_bytes ?b2 4 (take 4 a) = Some ?b3" using assms(3,4) by (subst wr_bytes_fits) simp_all
  have 4: "wr_bytes ?b3 20 (htons_bytes port) = Some (take 20 ?b3 @ htons_bytes port @ drop 22 ?b3)"
    using assms(3,4) by (subst wr_bytes_fits) (simp_all add: htons_bytes_def)
  have 5: "take 20 ?b3 = [chr 5, chr 1, chr 0, chr 1] @ a @ take 12 (drop 8 conbuf0)" using assms(3) by simp
  have "take 22 (take 20 ?b3 @ htons_bytes port @ drop 22 ?b3) = take 20 ?b3 @ htons_bytes port"
    using assms(3,4) by (simp add: htons_bytes_def)
  then show ?thesis using 4 5 assms(1,2) 1 2 3 by (simp add: socks5_conbuf_def)
qed

theorem socks5_ipv4_request_has_gap_witness:
  "\<exists>b b'. socks5_conbuf (\<lambda>h. Some (map chr [192, 0, 2, 1])) (\<lambda>h. None) (replicate 128 (chr 0xcc)) ''192.0.2.1'' = Some (Some (b, 20)) \<and>
     wr_bytes b 20 (htons_bytes 6667) = Some b' \<and>
     take 22 b' = [chr 5, chr 1, chr 0, chr 1] @ map chr [192, 0, 2, 1] @ replicate 12 (chr 0xcc) @ htons_bytes 6667"
proof -
  have h: "lsi_com_guess_hosttype ''192.0.2.1'' = HOSTTYPE_IPV4" by code_simp
  from socks5_ipv4_request_has_gap [OF h, of "\<lambda>h. Some (map chr [192, 0, 2, 1])" "map chr [192, 0, 2, 1]"
      "replicate 128 (chr 0xcc)" "\<lambda>h. None" 6667]
  show ?thesis by simp
qed

text \<open>
  The SOCKS5 request for a host name fits the array of 128 bytes exactly for names of at most 121
  characters; nothing else limits the name.
\<close>

theorem socks5_name_fits_iff:
  assumes "lsi_com_guess_hosttype host = HOSTTYPE_DNS" "length conbuf0 = 128"
  shows "(\<exists>b c b'. socks5_conbuf inet4 inet6 conbuf0 host = Some (Some (b, c)) \<and> wr_bytes b c (htons_bytes port) = Some b') \<longleftrightarrow>
    length host \<le> 121"
proof -
  let ?b1 = "[chr 5, chr 1, chr 0] @ drop 3 conbuf0" and ?x = "[chr 3, chr (length host mod 256)] @ host"
  have 1: "wr_bytes conbuf0 0 [chr 5, chr 1, chr 0] = Some ?b1"
    using assms(2) by (subst wr_bytes_fits) (simp_all add: numeral_eq_Suc)
  show ?thesis
  proof (cases "length host \<le> 123")
    case True
    then have 2: "wr_bytes ?b1 3 ?x = Some ([chr 5, chr 1, chr 0] @ ?x @ drop (5 + length host) conbuf0)" (is "_ = Some ?b2")
    proof (subst wr_bytes_fits)
      show "3 + length ?x \<le> length ?b1" using True assms(2) by simp
      have "drop (5 + length host) ([chr 5, chr 1, chr 0] @ drop 3 conbuf0) = drop (5 + length host) conbuf0"
        by (rule drop_past_head) simp_all
      then show "Some (take 3 ?b1 @ ?x @ drop (3 + length ?x) ?b1) = Some ([chr 5, chr 1, chr 0] @ ?x @ drop (5 + length host) conbuf0)"
        by (simp add: add.commute)
    qed
    have c: "socks5_conbuf inet4 inet6 conbuf0 host = Some (Some (?b2, 5 + length host))"
      unfolding socks5_conbuf_def 1 bind.bind_lunit assms(1) hosttypes.case 2 ..
    have l: "length ?b2 = 128" using True assms(2) by simp
    show ?thesis
    proof (cases "length host \<le> 121")
      case True
      then have "wr_bytes ?b2 (5 + length host) (htons_bytes port) \<noteq> None"
        using l by (subst wr_bytes_fits) (simp_all add: htons_bytes_def)
      then show ?thesis using c True by blast
    next
      case False
      then have "wr_bytes ?b2 (5 + length host) (htons_bytes port) = None"
        using l by (intro wr_bytes_overruns) (simp_all add: htons_bytes_def)
      then show ?thesis using c False by auto
    qed
  next
    case False
    then have "wr_bytes ?b1 3 ?x = None" using assms(2) by (intro wr_bytes_overruns) simp_all
    then have "socks5_conbuf inet4 inet6 conbuf0 host = None"
      unfolding socks5_conbuf_def 1 bind.bind_lunit assms(1) hosttypes.case by simp
    then show ?thesis using False by simp
  qed
qed

theorem socks5_name_fits_iff_witness:
  "\<exists>b c b'. socks5_conbuf (\<lambda>h. None) (\<lambda>h. None) (replicate 128 NUL) ''irc.example'' = Some (Some (b, c)) \<and>
     wr_bytes b c (htons_bytes 6667) = Some b'"
proof -
  have h: "lsi_com_guess_hosttype ''irc.example'' = HOSTTYPE_DNS" by code_simp
  show ?thesis using socks5_name_fits_iff [OF h, of "replicate 128 NUL" "\<lambda>h. None" "\<lambda>h. None" 6667] by simp
qed

end
