(* ===== verification/Winaddr.thy ===== *)
theory Winaddr
  imports Sock Plat Msghnd Connprops
begin

text \<open>
  The parsing of numeric addresses that \<open>platform/base_net.c\<close> brings along for systems without \<open>inet_pton\<close>
  (\<open>lsi_b_win_inet_pton\<close>, \<open>filladdr\<close>), and what it does with well-formed and with other names.
\<close>

section \<open>Numbers\<close>

definition digit_val :: "char \<Rightarrow> nat" where
  "digit_val c = (if isdigit c then byte c - 48
     else if 97 \<le> byte c \<and> byte c \<le> 122 then byte c - 87
     else if 65 \<le> byte c \<and> byte c \<le> 90 then byte c - 55 else 36)"

fun base_val :: "nat \<Rightarrow> string \<Rightarrow> nat \<Rightarrow> nat" where
  "base_val b [] acc = acc"
| "base_val b (c # s) acc = (if digit_val c < b then base_val b s (b * acc + digit_val c) else acc)"

text \<open>\<open>strtol\<close> where \<open>long\<close> has 32 bits; to base 16 a \<open>0x\<close> may precede the digits.\<close>

definition strtol32 :: "nat \<Rightarrow> string \<Rightarrow> int" where
  "strtol32 b s =
     (let t = dropWhile isspace s;
          r = (if hdz t = CHR ''-'' \<or> hdz t = CHR ''+'' then drop 1 t else t);
          r = (if b = 16 \<and> hdz r = CHR ''0'' \<and> atz r 1 \<in> {CHR ''x'', CHR ''X''} \<and> digit_val (atz r 2) < 16 then drop 2 r else r);
          v = int (base_val b r 0)
      in if hdz t = CHR ''-'' then max (- (2 ^ 31)) (- v) else min (2 ^ 31 - 1) v)"

section \<open>Writing out an abbreviated address\<close>

text \<open>The zeros for the groups a double colon stands for.\<close>

definition fill_groups :: "int \<Rightarrow> string" where
  "fill_groups fillgr = concat (map (\<lambda>y. (if y \<noteq> 0 then '':'' else []) @ ''0000'') [0..<nat fillgr])"

text \<open>\<open>*dest++ = c\<close> for each character of a text: the buffer and the next position\<close>

definition put_text :: "string \<Rightarrow> char list \<times> nat \<Rightarrow> (char list \<times> nat) option" where
  "put_text txt p = do { b \<leftarrow> wr_bytes (fst p) (snd p) txt; Some (b, snd p + length txt) }"

function (sequential) addr_loop :: "int \<Rightarrow> nat \<Rightarrow> string \<Rightarrow> char list \<times> nat \<Rightarrow> (char list \<times> nat) option" where
  "addr_loop fillgr part cur dest = do {
     dest1 \<leftarrow> put_text (if part \<noteq> 0 then '':'' else []) dest;
     if hdz cur = CHR '':'' then do {
       dest2 \<leftarrow> put_text (fill_groups fillgr) dest1;
       addr_loop fillgr (part + 1) (if hdz (tl cur) = CHR '':'' then tl (tl cur) else tl cur) dest2 }
     else case strchr cur (CHR '':'') of
         None \<Rightarrow> put_text (replicate (4 - length cur) (CHR ''0'') @ cur) dest1
       | Some len \<Rightarrow> do {
           dest2 \<leftarrow> put_text (replicate (4 - len) (CHR ''0'') @ take len cur) dest1;
           addr_loop fillgr (part + 1) (drop (len + 1) cur) dest2 } }"
  by pat_completeness auto
termination
proof (relation "measure (\<lambda>(fillgr, part, cur, dest). length cur)", goal_cases)
  case (2 fillgr part cur dest x xa)
  then show ?case by (cases cur; cases "tl cur") auto
next
  case (3 fillgr part cur dest x x2 xa)
  then show ?case using strchr_Some_less [of cur "CHR '':''" x2] by (cases cur) auto
qed simp

declare addr_loop.simps [simp del]

text \<open>How many groups a double colon stands for\<close>

definition fill_count :: "string \<Rightarrow> int" where
  "fill_count addr =
     (let ncol = int (length (filter (\<lambda>c. c = CHR '':'') addr))
      in if strstr addr ''::'' \<noteq> None then 8 - ncol + (if take 2 addr = ''::'' then 1 else 0) else 0)"

definition filladdr :: "char list \<Rightarrow> string \<Rightarrow> char list option" where
  "filladdr dest addr = do { p \<leftarrow> addr_loop (fill_count addr) 0 addr (dest, 0); wr (fst p) (snd p) NUL }"

section \<open>Parsing\<close>

definition uchar :: "int \<Rightarrow> u8" where
  "uchar n = word_of_int n"

text \<open>The quotient and the remainder of C, which round towards zero\<close>

definition c_quot :: "int \<Rightarrow> int \<Rightarrow> int" where
  "c_quot a b = (if a < 0 then - ((- a) div b) else a div b)"

definition c_rem :: "int \<Rightarrow> int \<Rightarrow> int" where
  "c_rem a b = a - c_quot a b * b"

text \<open>
  The result, and the bytes stored (a failing call stores the ones it found).  \<open>buf\<close> is what the array of 40
  characters holds before; None when \<open>filladdr\<close> writes behind it.
\<close>

definition lsi_b_win_inet_pton :: "char list \<Rightarrow> family \<Rightarrow> string \<Rightarrow> (int \<times> u8 list) option" where
  "lsi_b_win_inet_pton buf af src =
     (case af of
        AF_INET \<Rightarrow>
          (let toks = take 4 (strtok_all (CHR ''.'') (ncpy 40 src) []);
               bytes = map (\<lambda>t. uchar (strtol32 10 t)) toks
           in Some (if length toks < 4 then 0 else 1, bytes))
      | AF_INET6 \<Rightarrow> do {
          buf' \<leftarrow> filladdr buf src;
          let toks = take 8 (strtok_all (CHR '':'') (takeWhile (\<lambda>c. c \<noteq> NUL) buf') []);
          let bytes = concat (map (\<lambda>t. let n = strtol32 16 t in [uchar (c_quot n 256), uchar (c_rem n 256)]) toks);
          Some (if length toks < 8 then 0 else 1, bytes) }
      | AF_OTHER \<Rightarrow> Some (-1, []))"

section \<open>The text that is written\<close>

function (sequential) fill_text :: "int \<Rightarrow> nat \<Rightarrow> string \<Rightarrow> string" where
  "fill_text fillgr part cur =
     (if part \<noteq> 0 then '':'' else []) @
     (if hdz cur = CHR '':'' then fill_groups fillgr @ fill_text fillgr (part + 1) (if hdz (tl cur) = CHR '':'' then tl (tl cur) else tl cur)
      else case strchr cur (CHR '':'') of
          None \<Rightarrow> replicate (4 - length cur) (CHR ''0'') @ cur
        | Some len \<Rightarrow> replicate (4 - len) (CHR ''0'') @ take len cur @ fill_text fillgr (part + 1) (drop (len + 1) cur))"
  by pat_completeness auto
termination
proof (relation "measure (\<lambda>(fillgr, part, cur). length cur)", goal_cases)
  case (2 fillgr part cur)
  then show ?case by (cases cur; cases "tl cur") auto
next
  case (3 fillgr part cur x2)
  then show ?case using strchr_Some_less [of cur "CHR '':''" x2] by (cases cur) auto
qed simp

declare fill_text.simps [simp del]

lemma wr_bytes_append: "wr_bytes buf off (s @ t) = do { b \<leftarrow> wr_bytes buf off s; wr_bytes b (off + length s) t }"
proof (induction s arbitrary: buf off)
  case (Cons c s)
  show ?case by (cases "wr buf off c") (simp_all add: Cons)
qed simp

lemma put_text_append: "put_text (s @ t) = (\<lambda>p. put_text s p \<bind> put_text t)"
proof
  fix p
  show "put_text (s @ t) p = put_text s p \<bind> put_text t"
    by (cases "wr_bytes (fst p) (snd p) s") (simp_all add: put_text_def wr_bytes_append add.assoc)
qed

lemma put_text_Nil [simp]: "put_text [] p = Some p"
  by (simp add: put_text_def)

lemma addr_loop_text: "addr_loop fillgr part cur = put_text (fill_text fillgr part cur)"
proof (induction fillgr part cur rule: fill_text.induct)
  case (1 fillgr part cur)
  show ?case
  proof (rule ext)
    fix dest
    show "addr_loop fillgr part cur dest = put_text (fill_text fillgr part cur) dest"
    proof (cases "hdz cur = CHR '':''")
      case True
      show ?thesis
        unfolding addr_loop.simps [of fillgr part cur dest] fill_text.simps [of fillgr part cur]
        by (simp only: if_P [OF True] put_text_append 1(1) [OF True])
    next
      case False
      show ?thesis
        unfolding addr_loop.simps [of fillgr part cur dest] fill_text.simps [of fillgr part cur]
        by (cases "strchr cur (CHR '':'')") (simp_all only: if_not_P [OF False] put_text_append option.case 1(2) [OF False] Option.bind_assoc)
    qed
  qed
qed

definition fill_out :: "string \<Rightarrow> string" where
  "fill_out addr = fill_text (fill_count addr) 0 addr"

lemma filladdr_text: "filladdr dest addr = wr_bytes dest 0 (fill_out addr @ [NUL])"
  by (simp add: filladdr_def fill_out_def addr_loop_text put_text_def wr_bytes_append Let_def)

lemma filladdr_iff:
  "filladdr dest addr = (if length (fill_out addr) < length dest
     then Some (fill_out addr @ NUL # drop (length (fill_out addr) + 1) dest) else None)"
  using wr_bytes_fits [of 0 "fill_out addr @ [NUL]" dest] wr_bytes_overruns [of "fill_out addr @ [NUL]" dest 0]
  by (auto simp: filladdr_text)

section \<open>Abbreviated addresses\<close>

definition hexgroup :: "string \<Rightarrow> bool" where
  "hexgroup g \<longleftrightarrow> g \<noteq> [] \<and> length g \<le> 4 \<and> (\<forall>c\<in>set g. digit_val c < 16)"

definition pad4 :: "string \<Rightarrow> string" where
  "pad4 g = replicate (4 - length g) (CHR ''0'') @ g"

fun groups :: "string list \<Rightarrow> string" where
  "groups [] = []"
| "groups [g] = g"
| "groups (g # gs) = g @ CHR '':'' # groups gs"

text \<open>The groups a double colon between \<open>pre\<close> and \<open>post\<close> leaves out\<close>

definition all_groups :: "string list \<Rightarrow> string list \<Rightarrow> string list" where
  "all_groups pre post = pre @ replicate (8 - (length pre + length post)) ''0'' @ post"

definition abbreviated :: "string list \<Rightarrow> string list \<Rightarrow> bool" where
  "abbreviated pre post \<longleftrightarrow> (\<forall>g\<in>set (pre @ post). hexgroup g) \<and> length pre + length post \<le> (if post = [] then 6 else 7)"

lemma hex_chars: "digit_val c < 16 \<Longrightarrow> c \<noteq> CHR '':'' \<and> c \<noteq> NUL \<and> c \<noteq> CHR ''-'' \<and> c \<noteq> CHR ''+'' \<and> c \<noteq> CHR ''x'' \<and> c \<noteq> CHR ''X'' \<and> \<not> isspace c"
  by (auto simp: digit_val_def isdigit_def isspace_def byte_def split: if_splits)

lemma group_chars: "hexgroup g \<Longrightarrow> CHR '':'' \<notin> set g" "hexgroup g \<Longrightarrow> g \<noteq> []"
  using hex_chars by (auto simp: hexgroup_def)

definition sep :: "nat \<Rightarrow> string" where
  "sep part = (if part \<noteq> 0 then '':'' else [])"

lemma strchr_colon: "CHR '':'' \<notin> set g \<Longrightarrow> strchr g (CHR '':'') = None" "CHR '':'' \<notin> set g \<Longrightarrow> strchr (g @ CHR '':'' # r) (CHR '':'') = Some (length g)"
proof -
  assume "CHR '':'' \<notin> set g"
  then show "strchr (g @ CHR '':'' # r) (CHR '':'') = Some (length g)" by (induction g) force+
qed (simp add: strchr_None_iff)

lemma hdz_group: "CHR '':'' \<notin> set g \<Longrightarrow> hdz g \<noteq> CHR '':''" "CHR '':'' \<notin> set g \<Longrightarrow> g \<noteq> [] \<Longrightarrow> hdz (g @ r) \<noteq> CHR '':''"
proof -
  show "CHR '':'' \<notin> set g \<Longrightarrow> hdz g \<noteq> CHR '':''" by (cases g) auto
  show "CHR '':'' \<notin> set g \<Longrightarrow> g \<noteq> [] \<Longrightarrow> hdz (g @ r) \<noteq> CHR '':''" by (cases g) auto
qed

lemma fill_text_steps:
  "CHR '':'' \<notin> set g \<Longrightarrow> g \<noteq> [] \<Longrightarrow> fill_text fg part (g @ CHR '':'' # r) = sep part @ pad4 g @ fill_text fg (Suc part) r"
  "CHR '':'' \<notin> set g \<Longrightarrow> fill_text fg part g = sep part @ pad4 g"
  "hdz r \<noteq> CHR '':'' \<Longrightarrow> fill_text fg part (CHR '':'' # r) = sep part @ fill_groups fg @ fill_text fg (Suc part) r"
  "fill_text fg part (CHR '':'' # CHR '':'' # r) = sep part @ fill_groups fg @ fill_text fg (Suc part) r"
  by (subst fill_text.simps; simp add: strchr_colon hdz_group pad4_def sep_def)+

text \<open>A colon in front of every group\<close>

definition led :: "string list \<Rightarrow> string" where
  "led gs = concat (map (\<lambda>g. CHR '':'' # pad4 g) gs)"

lemma led_simps [simp]: "led [] = []" "led (g # gs) = CHR '':'' # pad4 g @ led gs" "led (a @ b) = led a @ led b"
  by (simp_all add: led_def)

lemma tl_led: "tl (led gs) = groups (map pad4 gs)"
  by (induction gs rule: groups.induct) simp_all

lemma led_fill: "0 < fg \<Longrightarrow> CHR '':'' # fill_groups fg = led (replicate (nat fg) ''0'')"
proof -
  have n: "CHR '':'' # concat (map (\<lambda>y. (if y \<noteq> 0 then '':'' else []) @ ''0000'') [0..<Suc n]) = led (replicate (Suc n) ''0'')" for n
  proof (induction n)
    case (Suc n)
    have "replicate (Suc (Suc n)) ''0'' = replicate (Suc n) ''0'' @ [''0'']" by (metis replicate_Suc replicate_append_same)
    moreover have "led [''0''] = CHR '':'' # ''0000''" by (simp add: pad4_def numeral_eq_Suc)
    ultimately show ?case using Suc by (simp add: upt_Suc_append del: replicate.simps upt_Suc led_simps(2))
  qed (simp add: pad4_def numeral_eq_Suc)
  assume "0 < fg"
  then have "nat fg = Suc (nat fg - 1)" by simp
  with n [of "nat fg - 1"] show ?thesis unfolding fill_groups_def by simp
qed

lemma fill_text_post:
  assumes "\<forall>g\<in>set post. hexgroup g"
  shows "fill_text fg (Suc part) (groups post) = led (if post = [] then [[]] else post)"
proof (cases "post = []")
  case True
  then show ?thesis by (simp add: fill_text_steps(2) sep_def)
next
  case False
  then have "fill_text fg (Suc part) (groups post) = led post"
    using assms
  proof (induction post arbitrary: part rule: groups.induct)
    case (2 g)
    then show ?case using group_chars by (simp add: fill_text_steps(2) sep_def)
  next
    case (3 g g' gs)
    then have "fill_text fg (Suc (Suc part)) (groups (g' # gs)) = led (g' # gs)" by simp
    then show ?case using 3(3) group_chars [of g] by (simp add: fill_text_steps(1) sep_def)
  qed simp
  then show ?thesis using False by simp
qed

lemma fill_text_pre:
  assumes "\<forall>g\<in>set pre. hexgroup g" "pre \<noteq> []"
  shows "fill_text fg part (groups pre @ CHR '':'' # r) = (if part = 0 then tl (led pre) else led pre) @ fill_text fg (part + length pre) r"
  using assms
proof (induction pre arbitrary: part rule: groups.induct)
  case (2 g)
  then show ?case using group_chars [of g] by (simp add: fill_text_steps(1) sep_def)
next
  case (3 g g' gs)
  then have "fill_text fg (Suc part) (groups (g' # gs) @ CHR '':'' # r) = led (g' # gs) @ fill_text fg (Suc part + length (g' # gs)) r"
    by simp
  then show ?case using 3(2) group_chars [of g] by (simp add: fill_text_steps(1) sep_def)
qed simp

lemma count_colons: "\<forall>g\<in>set gs. hexgroup g \<Longrightarrow> length (filter (\<lambda>c. c = CHR '':'') (groups gs)) = length gs - 1"
proof (induction gs rule: groups.induct)
  case (2 g)
  then have "filter (\<lambda>c. c = CHR '':'') g = []" using group_chars [of g] by (auto simp: filter_empty_conv)
  then show ?case by simp
next
  case (3 g g' gs)
  then have "filter (\<lambda>c. c = CHR '':'') g = []" using group_chars [of g] by (auto simp: filter_empty_conv)
  with 3 show ?case by simp
qed simp

lemma strstr_inside: "strstr (xs @ t @ ys) t \<noteq> None"
proof (induction xs)
  case Nil
  have "take (length t) (t @ ys) = t" by simp
  then show ?case by (cases "t @ ys") auto
qed simp

lemma fill_out_abbreviated:
  assumes "abbreviated pre post"
  shows "fill_out (groups pre @ ''::'' @ groups post) = groups (map pad4 (all_groups pre post))"
proof -
  note hex = assms [unfolded abbreviated_def]
  have h: "\<forall>g\<in>set pre. hexgroup g" "\<forall>g\<in>set post. hexgroup g" using hex by simp_all
  let ?addr = "groups pre @ ''::'' @ groups post"
  let ?post = "if post = [] then [[]] else post"
  define fg where "fg = 8 - int (length (filter (\<lambda>c. c = CHR '':'') ?addr)) + (if take 2 ?addr = ''::'' then 1 else (0 :: int))"
  have out: "fill_out ?addr = fill_text fg 0 ?addr"
    using strstr_inside [of "groups pre" "''::''" "groups post"] by (simp add: fill_out_def fill_count_def fg_def Let_def)
  have hp: "hdz (groups post) \<noteq> CHR '':''"
    using h(2) group_chars by (cases post rule: groups.cases) (auto simp: hdz_group)
  have lead: "take 2 ?addr = ''::'' \<longleftrightarrow> pre = []"
  proof (cases pre)
    case (Cons g gs)
    then obtain c g' where "g = c # g'" "c \<noteq> CHR '':''" using h(1) group_chars [of g] by (cases g) auto
    then show ?thesis using Cons by (cases gs) simp_all
  qed simp
  have n: "length (filter (\<lambda>c. c = CHR '':'') ?addr) = (length pre - 1) + 2 + (length post - 1)"
    by (simp add: count_colons [OF h(1)] count_colons [OF h(2)])
  have fg: "0 < fg" "nat fg = 8 - (length pre + length ?post)"
    using hex unfolding fg_def lead n by (cases pre; cases post; simp)+
  have z: "led (all_groups pre post) = led pre @ led (replicate (nat fg) ''0'') @ led ?post"
  proof (cases "post = []")
    case True
    then have "8 - length pre = Suc (nat fg)" using fg hex by simp
    then have "replicate (8 - length pre) ''0'' = replicate (nat fg) ''0'' @ [''0'']" by (metis replicate_Suc replicate_append_same)
    then show ?thesis using True by (simp add: all_groups_def pad4_def numeral_eq_Suc)
  qed (simp add: all_groups_def fg(2))
  have "fill_text fg 0 ?addr = tl (led (all_groups pre post))"
  proof (cases "pre = []")
    case True
    then have "fill_text fg 0 ?addr = fill_groups fg @ led ?post"
      by (simp add: fill_text_steps(4) sep_def fill_text_post [OF h(2)])
    then show ?thesis using led_fill [OF fg(1)] True z by (metis append.simps(1) append_Cons led_simps(1) list.sel(3))
  next
    case False
    have "fill_text fg 0 ?addr = tl (led pre) @ fill_text fg (length pre) (CHR '':'' # groups post)"
      using fill_text_pre [OF h(1) False, of fg 0 "CHR '':'' # groups post"] by simp
    also have "\<dots> = tl (led pre) @ (CHR '':'' # fill_groups fg) @ led ?post"
      using False by (simp add: fill_text_steps(3) [OF hp] sep_def fill_text_post [OF h(2)])
    also have "\<dots> = tl (led (all_groups pre post))" unfolding z led_fill [OF fg(1)] using False by (cases pre) simp_all
    finally show ?thesis .
  qed
  then show ?thesis unfolding out tl_led .
qed

section \<open>Reading the groups back\<close>

lemma strtok_word: "d \<notin> set w \<Longrightarrow> strtok_all d (w @ r) cur = strtok_all d r (cur @ w)"
  by (induction w arbitrary: cur) auto

lemma strtok_groups: "\<forall>g\<in>set gs. g \<noteq> [] \<and> CHR '':'' \<notin> set g \<Longrightarrow> strtok_all (CHR '':'') (groups gs) [] = gs"
proof (induction gs rule: groups.induct)
  case (2 g)
  then show ?case using strtok_word [of "CHR '':''" g "[]" "[]"] by simp
qed (simp_all add: strtok_word)

lemma base_val_zeros: "base_val 16 (replicate n (CHR ''0'') @ g) 0 = base_val 16 g 0"
  by (induction n) (simp_all add: digit_val_def isdigit_def byte_def)

lemma base_val_bound: "\<forall>c\<in>set g. digit_val c < 16 \<Longrightarrow> base_val 16 g acc < (acc + 1) * 16 ^ length g"
proof (induction g arbitrary: acc)
  case (Cons c g)
  have "base_val 16 g (16 * acc + digit_val c) < (16 * acc + digit_val c + 1) * 16 ^ length g" by (rule Cons.IH) (use Cons.prems in simp)
  also have "\<dots> \<le> ((acc + 1) * 16) * 16 ^ length g" by (rule mult_right_mono) (use Cons.prems in auto)
  finally show ?case using Cons.prems by (simp add: algebra_simps)
qed simp

lemma pad4_facts:
  assumes "hexgroup g"
  shows "length (pad4 g) = 4" "\<forall>c\<in>set (pad4 g). digit_val c < 16"
proof -
  have "digit_val (CHR ''0'') < 16" by (simp add: digit_val_def isdigit_def byte_def)
  then show "\<forall>c\<in>set (pad4 g). digit_val c < 16" using assms by (auto simp: pad4_def hexgroup_def)
qed (use assms in \<open>simp add: pad4_def hexgroup_def\<close>)

lemma strtol_pad4:
  assumes "hexgroup g"
  shows "strtol32 16 (pad4 g) = int (base_val 16 g 0)"
proof -
  note l = pad4_facts(1) [OF assms] and h = pad4_facts(2) [OF assms]
  have at: "digit_val (pad4 g ! i) < 16" if "i < 4" for i using h nth_mem [of i "pad4 g"] that l by simp
  have hd: "hdz (pad4 g) = pad4 g ! 0" using l by (cases "pad4 g") simp_all
  have w: "dropWhile isspace (pad4 g) = pad4 g"
    using hex_chars [OF at [of 0]] l by (cases "pad4 g") simp_all
  have x: "atz (pad4 g) 1 \<notin> {CHR ''x'', CHR ''X''}" using hex_chars [OF at [of 1]] l by (simp add: atz_def)
  have s: "hdz (pad4 g) \<noteq> CHR ''-''" "hdz (pad4 g) \<noteq> CHR ''+''" using hex_chars [OF at [of 0]] hd by simp_all
  have b: "base_val 16 g 0 < 16 ^ length g" using base_val_bound [of g 0] assms by (simp add: hexgroup_def)
  also have "\<dots> \<le> 16 ^ 4" using assms by (intro power_increasing) (simp_all add: hexgroup_def)
  finally have "int (base_val 16 g 0) \<le> 2 ^ 31 - 1" by simp
  moreover have "base_val 16 (pad4 g) 0 = base_val 16 g 0" unfolding pad4_def by (rule base_val_zeros)
  ultimately show ?thesis using w x s by (simp add: strtol32_def Let_def)
qed

definition group_bytes :: "string \<Rightarrow> u8 list" where
  "group_bytes g = [of_nat (base_val 16 g 0 div 256), of_nat (base_val 16 g 0 mod 256)]"

lemma pad4_bytes:
  assumes "hexgroup g"
  shows "(let n = strtol32 16 (pad4 g) in [uchar (c_quot n 256), uchar (c_rem n 256)]) = group_bytes g"
proof -
  have "c_quot (int n) 256 = int (n div 256)" "c_rem (int n) 256 = int (n mod 256)" for n
    by (simp_all add: c_quot_def c_rem_def zdiv_int zmod_int minus_div_mult_eq_mod)
  then show ?thesis by (simp add: strtol_pad4 [OF assms] group_bytes_def uchar_def)
qed

lemma zero_group: "hexgroup ''0''"
  by (simp add: hexgroup_def digit_val_def isdigit_def byte_def)

lemma all_groups_facts:
  assumes "abbreviated pre post"
  shows "\<forall>g\<in>set (all_groups pre post). hexgroup g" "length (all_groups pre post) = 8"
  using assms zero_group by (auto simp: abbreviated_def all_groups_def split: if_splits)

lemma length_groups: "gs \<noteq> [] \<Longrightarrow> \<forall>g\<in>set gs. length g = 4 \<Longrightarrow> length (groups gs) = 5 * length gs - 1"
  by (induction gs rule: groups.induct) auto

lemma set_groups: "set (groups gs) \<subseteq> insert (CHR '':'') (\<Union>g\<in>set gs. set g)"
  by (induction gs rule: groups.induct) auto

lemma groups_NUL:
  assumes "\<forall>g\<in>set gs. \<forall>c\<in>set g. digit_val c < 16"
  shows "NUL \<notin> set (groups gs)"
proof
  assume "NUL \<in> set (groups gs)"
  then have "NUL \<in> insert (CHR '':'') (\<Union>g\<in>set gs. set g)" using set_groups [of gs] by blast
  then have "\<exists>g\<in>set gs. NUL \<in> set g" by simp
  then have "digit_val NUL < 16" using assms by blast
  then show False using hex_chars by blast
qed

lemma win_pton6_abbreviated:
  assumes a: "abbreviated pre post" and l: "length buf = 40"
  shows "lsi_b_win_inet_pton buf AF_INET6 (groups pre @ ''::'' @ groups post) = Some (1, concat (map group_bytes (all_groups pre post))) \<and>
    filladdr buf (groups pre @ ''::'' @ groups post) = Some (groups (map pad4 (all_groups pre post)) @ [NUL])"
proof -
  note g = all_groups_facts [OF a]
  let ?ps = "map pad4 (all_groups pre post)"
  have p: "\<forall>x\<in>set ?ps. length x = 4 \<and> (\<forall>c\<in>set x. digit_val c < 16)" using g(1) pad4_facts by auto
  have ps: "\<forall>x\<in>set ?ps. x \<noteq> [] \<and> CHR '':'' \<notin> set x" using p hex_chars by (metis list.size(3) zero_neq_numeral)
  have len: "length (groups ?ps) = 39" using length_groups [of ?ps] p g(2) by (cases "all_groups pre post") auto
  have nul: "NUL \<notin> set (groups ?ps)" by (rule groups_NUL) (use p in blast)
  have tw: "takeWhile (\<lambda>c. c \<noteq> NUL) (xs @ [NUL]) = xs" if "NUL \<notin> set xs" for xs using that by (induction xs) auto
  have f: "filladdr buf (groups pre @ ''::'' @ groups post) = Some (groups ?ps @ [NUL])"
    unfolding filladdr_iff fill_out_abbreviated [OF a] using len l by simp
  have t: "strtok_all (CHR '':'') (takeWhile (\<lambda>c. c \<noteq> NUL) (groups ?ps @ [NUL])) [] = ?ps"
    using strtok_groups [OF ps] tw [OF nul] by simp
  have b: "map (\<lambda>t. let n = strtol32 16 t in [uchar (c_quot n 256), uchar (c_rem n 256)]) ?ps = map group_bytes (all_groups pre post)"
    using g(1) pad4_bytes by simp
  have l8: "length ?ps = 8" using g(2) by simp
  have "lsi_b_win_inet_pton buf AF_INET6 (groups pre @ ''::'' @ groups post) = Some (1, concat (map group_bytes (all_groups pre post)))"
    unfolding lsi_b_win_inet_pton_def family.case f Option.bind_lunit [of "groups ?ps @ [NUL]"] Let_def t
    using b l8 by (simp add: Let_def comp_def cong: map_cong)
  with f show ?thesis by blast
qed

text \<open>
  A name without a colon is copied into the array of 40 characters whatever its length; so the caller,
  \<open>lsi_b_inet6_addr\<close> on any host name of a SOCKS5 proxy logon, overruns it with 40 characters or more.
\<close>

theorem win_pton6_name_overruns_iff:
  assumes "CHR '':'' \<notin> set name" "length buf = 40"
  shows "lsi_b_win_inet_pton buf AF_INET6 name = None \<longleftrightarrow> 40 \<le> length name"
proof -
  have n: "strstr name ''::'' = None" using assms(1) by (induction name) (auto simp: take_Cons')
  have "fill_out name = pad4 name"
    using fill_text_steps(2) [OF assms(1), of 0 0] n by (simp add: fill_out_def fill_count_def sep_def Let_def)
  moreover have "length (pad4 name) < 40 \<longleftrightarrow> length name < 40" by (auto simp: pad4_def)
  ultimately show ?thesis using assms(2) by (simp add: lsi_b_win_inet_pton_def filladdr_iff Let_def not_less)
qed

theorem win_pton6_name_overruns_witness:
  "lsi_b_win_inet_pton (replicate 40 NUL) AF_INET6 (replicate 40 (CHR ''a'')) = None"
  using win_pton6_name_overruns_iff [of "replicate 40 (CHR ''a'')" "replicate 40 NUL"] by (simp del: replicate.simps)

section \<open>The property\<close>

text \<open>
  C38: The IPv6 parser for systems without \<open>inet_pton\<close> reads an address with a double colon as the standard
  does: the groups that are left out are zero, and the sixteen bytes are those of the eight groups in order.  The
  full form fits the array of 40 characters it is written out to.
\<close>

theorem win_inet_pton_reads_abbreviated:
  assumes "abbreviated pre post" "length buf = 40"
  shows "lsi_b_win_inet_pton buf AF_INET6 (groups pre @ ''::'' @ groups post) = Some (1, concat (map group_bytes (all_groups pre post))) \<and>
    filladdr buf (groups pre @ ''::'' @ groups post) = Some (groups (map pad4 (all_groups pre post)) @ [NUL])"
  by (rule win_pton6_abbreviated [OF assms])

theorem win_inet_pton_reads_abbreviated_witness:
  "lsi_b_win_inet_pton (replicate 40 NUL) AF_INET6 ''2001:db8::1'' =
     Some (1, [0x20, 0x01, 0x0d, 0xb8, 0, 0, 0, 0, 0, 0, 0, 0, 0, 0, 0, 1])"
proof -
  have a: "abbreviated [''2001'', ''db8''] [''1'']"
    by (simp add: abbreviated_def hexgroup_def digit_val_def isdigit_def byte_def)
  have b: "concat (map group_bytes (all_groups [''2001'', ''db8''] [''1''])) = [0x20, 0x01, 0x0d, 0xb8, 0, 0, 0, 0, 0, 0, 0, 0, 0, 0, 0, 1]"
    by code_simp
  from win_inet_pton_reads_abbreviated [OF a, of "replicate 40 NUL"] show ?thesis unfolding b by (simp del: replicate.simps)
qed

end
