(* ===== verification/Irc.thy ===== *)
theory Irc
  imports Msghnd
begin

text \<open>
  \<open>libsrsirc/irc.c\<close>: creating a context, connecting and logging on, reading and writing
  messages.  The behaviour of the user's callbacks and of the platform is the parameter
  \<open>envir\<close>.
\<close>

record envir =
  en_net :: netenv
  en_uhnd :: uhnd_sem
  en_mutnick :: mutnick_sem
  en_conread :: "nat \<Rightarrow> tokarr \<Rightarrow> bool"

definition handle_msg :: "envir \<Rightarrow> tokarr \<Rightarrow> bool \<Rightarrow> st \<Rightarrow> (u16 \<times> st) option" where
  "handle_msg env = lsi_msg_handle (run_hnd (en_mutnick env)) (en_uhnd env)"

definition DEF_NICK :: string where "DEF_NICK = ''srsirc''"
definition DEF_UNAME :: string where "DEF_UNAME = ''bsnsirc''"
definition DEF_FNAME :: string where "DEF_FNAME = ''serious business irc''"
definition DEF_SERV_DIST :: string where "DEF_SERV_DIST = ''*''"
definition DEF_SERV_INFO :: string where "DEF_SERV_INFO = ''srsbsns srvc''"
definition DEF_HCTO_US :: u64 where "DEF_HCTO_US = 120000000"
definition DEF_SCTO_US :: u64 where "DEF_SCTO_US = 15000000"

section \<open>The state of a session\<close>

definition reset_state :: "irc \<Rightarrow> irc" where
  "reset_state r =
     r\<lparr>ic_mynick := [], ic_myhost := [], ic_myumodes := [], ic_ver := [], ic_v3capreq := [],
       ic_restricted := False, ic_banned := False, ic_service := False,
       ic_casemap := CMAP_RFC1459, ic_lasterr := None, ic_banmsg := None,
       ic_umodes := ncpy MAX_UMODES_LEN DEF_UMODES, ic_cmodes := ncpy MAX_CMODES_LEN DEF_CMODES,
       ic_m005chantypes := ''#&'', ic_m005chanmodes := [''b'', ''k'', ''l'', ''psitnm''],
       ic_m005modepfx := (''ov'', ''@+''),
       ic_v3tags_raw := replicate MAX_V3TAGS None, ic_v3tags_dec := replicate MAX_V3TAGS [],
       ic_v3ntags := 0\<rparr>"

text \<open>A number of allocations in a row, the first failure ending them.\<close>

fun malloc_n :: "nat \<Rightarrow> mallocs \<Rightarrow> bool \<times> mallocs" where
  "malloc_n 0 orc = (True, orc)"
| "malloc_n (Suc n) orc = (let (ok, orc') = malloc orc in if ok then malloc_n n orc' else (False, orc'))"

text \<open>
  \<open>irc_init\<close>: the connection, the context with its 23 arrays, the map of attributes, then the
  nickname, the four default strings and the three tables of handlers.
\<close>

definition irc_init :: "mallocs \<Rightarrow> irc option \<times> mallocs" where
  "irc_init orc0 =
     (case lsi_conn_init orc0 of
        (None, orc1) \<Rightarrow> (None, orc1)
      | (Some con, orc1) \<Rightarrow>
          (let (ok2, orc2) = malloc_n (1 + 1 + 4 + 2 + MAX_V3TAGS) orc1 in
           if \<not> ok2 then (None, orc2)
           else case lsi_skmap_init orc2 256 CMAP_ASCII of
               (None, orc3) \<Rightarrow> (None, orc3)
             | (Some attrs, orc3) \<Rightarrow>
                 (let (ok4, orc4) = malloc_n (1 + 4 + 3) orc3 in
                  if \<not> ok4 then (None, orc4)
                  else (Some (reset_state
                    \<lparr>ic_mynick = [], ic_myhost = [], ic_service = False, ic_cmodes = [], ic_umodes = [],
                     ic_myumodes = [], ic_ver = [], ic_lasterr = None, ic_restricted = False,
                     ic_banned = False, ic_banmsg = None, ic_casemap = CMAP_RFC1459,
                     ic_logonconv = replicate 4 None,
                     ic_m005chanmodes = [''b'', ''k'', ''l'', ''psitnm''], ic_m005modepfx = (''ov'', ''@+''),
                     ic_m005chantypes = ''#&'', ic_m005attrs = Some attrs,
                     ic_v3tags_raw = replicate MAX_V3TAGS None, ic_v3ntags = 0,
                     ic_v3tags_dec = replicate MAX_V3TAGS [], ic_v3tags = replicate MAX_V3TAGS ([], None),
                     ic_v3caps = lsi_v3_init_caps, ic_v3capreq = [], ic_starttls = False,
                     ic_starttls_first = False, ic_pass = None, ic_nick = Some DEF_NICK,
                     ic_uname = Some DEF_UNAME, ic_fname = Some DEF_FNAME, ic_sasl_mech = None,
                     ic_sasl_msg = None, ic_conflags = 0, ic_serv_con = False,
                     ic_serv_dist = Some DEF_SERV_DIST, ic_serv_type = 0,
                     ic_serv_info = Some DEF_SERV_INFO, ic_hcto_us = DEF_HCTO_US,
                     ic_scto_us = DEF_SCTO_US, ic_tracking = False, ic_dumb = False,
                     ic_cb_con_read = None, ic_cb_mut_nick = Some Mut_nick_default,
                     ic_uprehnds = replicate 8 uh_free, ic_uposthnds = replicate 8 uh_free,
                     ic_msghnds = replicate 64 mh_free, ic_chans = Null, ic_users = None,
                     ic_tracking_enab = False, ic_endofnames = False, ic_con = con\<rparr>), orc4))))"

definition irc_reset :: "st \<Rightarrow> st" where
  "irc_reset s = snd (st_conn (\<lambda>c w. (True, lsi_conn_reset c w)) s)"

definition irc_dispose :: "st \<Rightarrow> net option" where
  "irc_dispose s = do {
     s1 \<leftarrow> lsi_trk_deinit s;
     lsi_conn_dispose (ic_con (st_irc s1)) (st_net s1) }"

section \<open>Writing\<close>

definition irc_eof :: "irc \<Rightarrow> bool" where
  "irc_eof ctx = lsi_conn_eof (ic_con ctx)"

definition irc_write :: "string \<Rightarrow> st \<Rightarrow> bool \<times> st" where
  "irc_write line s = (let (r, s1) = st_write line s in if r then (True, s1) else (False, irc_reset s1))"

text \<open>\<open>text\<close> is what the format and its arguments expand to.\<close>

definition irc_printf :: "string \<Rightarrow> st \<Rightarrow> bool \<times> st" where
  "irc_printf txt s = irc_write (ncpy 1024 txt) s"

definition dec_int :: "int \<Rightarrow> string" where
  "dec_int i = (if i < 0 then CHR ''-'' # dec (nat (- i)) else dec (nat i))"

text \<open>
  The logon lines are printed into an array of 512 characters, one after the other.  A line
  that does not fit leaves no room and ends the function; the last one is accepted when it
  is exactly as long as the room left, although its last character is then cut off.
\<close>

definition logon_part :: "bool \<Rightarrow> string \<Rightarrow> string \<times> nat \<Rightarrow> string \<times> nat" where
  "logon_part want txt b =
     (if want then (fst b @ ncpy (snd b) txt, snd b - min (length txt) (snd b)) else b)"

definition send_logon :: "st \<Rightarrow> bool \<times> st" where
  "send_logon s =
     (let ctx = st_irc s in
      if \<not> lsi_conn_online (ic_con ctx) then (False, s)
      else let b1 = logon_part (lsi_v3_want_caps (ic_v3caps ctx)) (''CAP LS 302'' @ crlf) ([], 512) in
        if snd b1 = 0 then (False, s)
        else let b2 = logon_part (case ic_pass ctx of Some p \<Rightarrow> p \<noteq> [] | None \<Rightarrow> False)
                        (''PASS :'' @ str_or_null (ic_pass ctx) @ crlf) b1 in
          if snd b2 = 0 then (False, s)
          else let txt = (if ic_service ctx
                   then ''SERVICE '' @ str_or_null (ic_nick ctx) @ '' 0 '' @ str_or_null (ic_serv_dist ctx) @
                        '' '' @ dec_int (ic_serv_type ctx) @ '' 0 :'' @ str_or_null (ic_serv_info ctx) @ crlf
                   else ''NICK '' @ str_or_null (ic_nick ctx) @ crlf @ ''USER '' @ str_or_null (ic_uname ctx) @
                        '' '' @ dec (unat (ic_conflags ctx)) @ '' * :'' @ str_or_null (ic_fname ctx) @ crlf)
            in if snd b2 < length txt then (False, s)
               else irc_write (fst b2 @ ncpy (snd b2) txt) s)"

section \<open>Connecting\<close>

definition st_conn_read :: "nat option \<Rightarrow> u64 \<Rightarrow> st \<Rightarrow> (int \<times> tokarr \<times> string list option \<times> st) option" where
  "st_conn_read ntags to_us s = do {
     (r, msg, tags, c, w) \<leftarrow> lsi_conn_read ntags to_us (ic_con (st_irc s)) (st_net s);
     Some (r, msg, tags, (upd_con (\<lambda>_. c) s)\<lparr>st_net := w\<rparr>) }"

text \<open>
  The loop of \<open>irc_connect\<close> until the logon is complete.  A server that never completes it
  keeps the loop going (with the timeout off): not returning is None.
\<close>

partial_function (option) logon_loop ::
  "envir \<Rightarrow> u64 \<Rightarrow> bool \<Rightarrow> bool \<Rightarrow> bool \<Rightarrow> bool \<Rightarrow> st \<Rightarrow> (bool \<times> st) option" where
  "logon_loop env tend using_sasl logon_sent logged_on sasl_authed s =
     (let (hit, trem, w) = lsi_com_check_timeout tend (st_net s); s1 = s\<lparr>st_net := w\<rparr> in
      if hit then Some (False, s1)
      else do {
        (r, msg, _, s2) \<leftarrow> st_conn_read None trem s1;
        if r < 0 then Some (False, s2)
        else if r = 0 then
          (if \<not> logged_on \<or> (using_sasl \<and> \<not> sasl_authed)
           then logon_loop env tend using_sasl logon_sent logged_on sasl_authed s2
           else Some (True, s2))
        else if (case ic_cb_con_read (st_irc s2) of Some n \<Rightarrow> \<not> en_conread env n msg | None \<Rightarrow> False)
          then Some (False, s2)
        else do {
          (flags, s3) \<leftarrow> handle_msg env msg True s2;
          if has_flag flags CANT_PROCEED then Some (False, s3)
          else let logged_on' = (logged_on \<or> has_flag flags LOGON_COMPLETE);
                   sasl_authed' = (sasl_authed \<or> has_flag flags SASL_COMPLETE);
                   late = (has_flag flags STARTTLS_OVER \<and> \<not> logon_sent);
                   (ok, s4) = (if late then send_logon s3 else (True, s3))
            in if \<not> ok then Some (False, s4)
               else if \<not> logged_on' \<or> (using_sasl \<and> \<not> sasl_authed')
                 then logon_loop env tend using_sasl (logon_sent \<or> late) logged_on' sasl_authed' s4
               else Some (True, s4) } })"

text \<open>What \<open>irc_connect\<close> does before it opens the connection; false when a handler cannot be registered.\<close>

definition connect_prepare :: "st \<Rightarrow> (bool \<times> st) option" where
  "connect_prepare s = do {
     s1 \<leftarrow> lsi_trk_deinit s;
     let s2 = lsi_imh_unregall (upd_irc (\<lambda>x. x\<lparr>ic_tracking_enab := False\<rparr>) s1);
     (ok1, s3) \<leftarrow> lsi_imh_regall (ic_dumb (st_irc s2)) s2;
     if \<not> ok1 then Some (False, s3)
     else do {
       (ok2, s4) \<leftarrow> lsi_v3_regall (ic_dumb (st_irc s3)) (lsi_v3_unregall s3);
       if \<not> ok2 then Some (False, s4)
       else Some (True, upd_irc (\<lambda>x. (reset_state x)\<lparr>ic_logonconv := map (\<lambda>_. None) (ic_logonconv x),
                                       ic_m005attrs := lsi_skmap_clear (ic_m005attrs x)\<rparr>) s4) } }"

definition irc_connect :: "envir \<Rightarrow> st \<Rightarrow> (bool \<times> st) option" where
  "irc_connect env s0 =
     (let (tend, w) = px_tend (ic_hcto_us (st_irc s0)) (st_net s0); s = s0\<lparr>st_net := w\<rparr> in do {
      (ok1, s1) \<leftarrow> connect_prepare s;
      if \<not> ok1 then Some (False, s1)
      else do {
        (ok2, c, w2) \<leftarrow> lsi_conn_connect (en_net env) (ic_scto_us (st_irc s1)) (ic_hcto_us (st_irc s1))
                         (ic_con (st_irc s1)) (st_net s1);
        let s2 = (upd_con (\<lambda>_. c) s1)\<lparr>st_net := w2\<rparr>;
        if \<not> ok2 then Some (False, s2)
        else if ic_dumb (st_irc s2) then Some (True, s2)
        else do {
          let stls = ic_starttls_first (st_irc s2);
          let (ok3, s3) = (if stls then st_write (''STARTTLS'' @ crlf) s2 else send_logon s2);
          if \<not> ok3 then Some (False, irc_reset s3)
          else do {
            nick \<leftarrow> ic_nick (st_irc s3);
            let s4 = upd_irc (\<lambda>x. x\<lparr>ic_mynick := ncpy MAX_NICK_LEN nick\<rparr>) s3;
            (ok5, s5) \<leftarrow> logon_loop env tend (have_sasl (st_irc s4)) (\<not> stls) False False s4;
            Some (ok5, if ok5 then s5 else irc_reset s5) } } } })"

section \<open>Reading\<close>

text \<open>
  The tags of the message replace the first elements of \<open>v3tags_raw\<close>.  When nothing was read
  their number stays at the size of the array.
\<close>

definition store_tags :: "string list option \<Rightarrow> irc \<Rightarrow> irc" where
  "store_tags tags x =
     (case tags of
        None \<Rightarrow> x
      | Some ts \<Rightarrow> x\<lparr>ic_v3tags_raw := map Some ts @ drop (length ts) (ic_v3tags_raw x),
                    ic_v3ntags := length ts\<rparr>)"

definition irc_read :: "envir \<Rightarrow> u64 \<Rightarrow> st \<Rightarrow> (int \<times> tokarr \<times> st) option" where
  "irc_read env to_us s = do {
     let s0 = upd_irc (\<lambda>x. x\<lparr>ic_v3tags_dec := map (\<lambda>_. []) (ic_v3tags_dec x), ic_v3ntags := MAX_V3TAGS\<rparr>) s;
     (r, msg, tags, s1) \<leftarrow> st_conn_read (Some MAX_V3TAGS) to_us s0;
     let s2 = upd_irc (store_tags tags) s1;
     if r = 0 then Some (0, msg, s2)
     else if r < 0 then Some (-1, msg, irc_reset s2)
     else do {
       (flags, s3) \<leftarrow> handle_msg env msg False s2;
       if has_flag flags CANT_PROCEED then Some (-1, msg, irc_reset s3) else Some (1, msg, s3) } }"

section \<open>Callbacks\<close>

definition irc_regcb_conread :: "nat option \<Rightarrow> irc \<Rightarrow> irc" where
  "irc_regcb_conread cb ctx = ctx\<lparr>ic_cb_con_read := cb\<rparr>"

definition irc_regcb_mutnick :: "mut_nick_fn option \<Rightarrow> irc \<Rightarrow> irc" where
  "irc_regcb_mutnick cb ctx = ctx\<lparr>ic_cb_mut_nick := cb\<rparr>"

definition irc_reg_msghnd :: "string \<Rightarrow> nat \<Rightarrow> bool \<Rightarrow> st \<Rightarrow> (bool \<times> st) option" where
  "irc_reg_msghnd cmd hndfn pre s = lsi_msg_reguhnd cmd hndfn pre s"

end
