(* ===== verification/Getset.thy ===== *)
theory Getset
  imports Irc
begin

text \<open>
  \<open>libsrsirc/irc_getset.c\<close>: read access to what the library knows, and the settings that take
  effect at the next connect.
\<close>

section \<open>Determiners\<close>

definition irc_mynick :: "irc \<Rightarrow> string" where
  "irc_mynick ctx = ic_mynick ctx"

definition irc_myhost :: "irc \<Rightarrow> string" where
  "irc_myhost ctx = ic_myhost ctx"

definition irc_casemap :: "irc \<Rightarrow> nat" where
  "irc_casemap ctx = ic_casemap ctx"

definition irc_service :: "irc \<Rightarrow> bool" where
  "irc_service ctx = ic_service ctx"

definition irc_umodes :: "irc \<Rightarrow> string" where
  "irc_umodes ctx = ic_umodes ctx"

definition irc_cmodes :: "irc \<Rightarrow> string" where
  "irc_cmodes ctx = ic_cmodes ctx"

definition irc_version :: "irc \<Rightarrow> string" where
  "irc_version ctx = ic_ver ctx"

definition irc_lasterror :: "irc \<Rightarrow> string option" where
  "irc_lasterror ctx = ic_lasterr ctx"

definition irc_banmsg :: "irc \<Rightarrow> string option" where
  "irc_banmsg ctx = ic_banmsg ctx"

definition irc_banned :: "irc \<Rightarrow> bool" where
  "irc_banned ctx = ic_banned ctx"

definition irc_logonconv :: "irc \<Rightarrow> tokarr option list" where
  "irc_logonconv ctx = ic_logonconv ctx"

definition irc_online :: "irc \<Rightarrow> bool" where
  "irc_online ctx = lsi_conn_online (ic_con ctx)"

definition irc_colon_trail :: "irc \<Rightarrow> bool" where
  "irc_colon_trail ctx = lsi_conn_colon_trail (ic_con ctx)"

definition irc_sockfd :: "irc \<Rightarrow> int" where
  "irc_sockfd ctx = lsi_conn_sockfd (ic_con ctx)"

definition irc_get_host :: "irc \<Rightarrow> string" where
  "irc_get_host ctx = lsi_conn_get_host (ic_con ctx)"

definition irc_get_port :: "irc \<Rightarrow> u16" where
  "irc_get_port ctx = lsi_conn_get_port (ic_con ctx)"

definition irc_get_px_host :: "irc \<Rightarrow> string option" where
  "irc_get_px_host ctx = lsi_conn_get_px_host (ic_con ctx)"

definition irc_get_px_port :: "irc \<Rightarrow> u16" where
  "irc_get_px_port ctx = lsi_conn_get_px_port (ic_con ctx)"

definition irc_get_px_type :: "irc \<Rightarrow> int" where
  "irc_get_px_type ctx = lsi_conn_get_px_type (ic_con ctx)"

definition irc_get_ssl :: "irc \<Rightarrow> bool" where
  "irc_get_ssl ctx = lsi_conn_get_ssl (ic_con ctx)"

definition irc_005chanmodes :: "irc \<Rightarrow> nat \<Rightarrow> string option" where
  "irc_005chanmodes ctx cls = (if length (ic_m005chanmodes ctx) \<le> cls then None else Some (ic_m005chanmodes ctx ! cls))"

definition irc_005modepfx :: "irc \<Rightarrow> bool \<Rightarrow> string" where
  "irc_005modepfx ctx symbols = (if symbols then snd (ic_m005modepfx ctx) else fst (ic_m005modepfx ctx))"

definition irc_005attr :: "irc \<Rightarrow> string \<Rightarrow> string option" where
  "irc_005attr ctx nam = lsi_skmap_get (ic_m005attrs ctx) nam"

definition irc_tracking_enab :: "irc \<Rightarrow> bool" where
  "irc_tracking_enab ctx = (ic_tracking ctx \<and> ic_tracking_enab ctx)"

section \<open>Getters\<close>

definition irc_get_pass :: "irc \<Rightarrow> string option" where
  "irc_get_pass ctx = ic_pass ctx"

definition irc_get_uname :: "irc \<Rightarrow> string option" where
  "irc_get_uname ctx = ic_uname ctx"

definition irc_get_fname :: "irc \<Rightarrow> string option" where
  "irc_get_fname ctx = ic_fname ctx"

definition irc_get_conflags :: "irc \<Rightarrow> u8" where
  "irc_get_conflags ctx = ic_conflags ctx"

definition irc_get_nick :: "irc \<Rightarrow> string option" where
  "irc_get_nick ctx = ic_nick ctx"

definition irc_get_service_connect :: "irc \<Rightarrow> bool" where
  "irc_get_service_connect ctx = ic_serv_con ctx"

definition irc_get_service_dist :: "irc \<Rightarrow> string option" where
  "irc_get_service_dist ctx = ic_serv_dist ctx"

definition irc_get_service_type :: "irc \<Rightarrow> int" where
  "irc_get_service_type ctx = ic_serv_type ctx"

definition irc_get_service_info :: "irc \<Rightarrow> string option" where
  "irc_get_service_info ctx = ic_serv_info ctx"

definition irc_get_dumb :: "irc \<Rightarrow> bool" where
  "irc_get_dumb ctx = ic_dumb ctx"

section \<open>Setters\<close>

text \<open>A setting that is an owned string: a failed copy leaves the old value.\<close>

definition set_strprop :: "(irc \<Rightarrow> string option) \<Rightarrow> (string option \<Rightarrow> irc \<Rightarrow> irc) \<Rightarrow> string option \<Rightarrow> st \<Rightarrow> bool \<times> st" where
  "set_strprop getf setf val s =
     (let (ok, f, s1) = st_strprop (getf (st_irc s)) val s in (ok, upd_irc (setf f) s1))"

definition irc_set_pass :: "string option \<Rightarrow> st \<Rightarrow> bool \<times> st" where
  "irc_set_pass = set_strprop ic_pass (\<lambda>v x. x\<lparr>ic_pass := v\<rparr>)"

definition irc_set_uname :: "string option \<Rightarrow> st \<Rightarrow> bool \<times> st" where
  "irc_set_uname = set_strprop ic_uname (\<lambda>v x. x\<lparr>ic_uname := v\<rparr>)"

definition irc_set_fname :: "string option \<Rightarrow> st \<Rightarrow> bool \<times> st" where
  "irc_set_fname = set_strprop ic_fname (\<lambda>v x. x\<lparr>ic_fname := v\<rparr>)"

definition irc_set_nick :: "string option \<Rightarrow> st \<Rightarrow> bool \<times> st" where
  "irc_set_nick = set_strprop ic_nick (\<lambda>v x. x\<lparr>ic_nick := v\<rparr>)"

definition irc_set_service_dist :: "string option \<Rightarrow> st \<Rightarrow> bool \<times> st" where
  "irc_set_service_dist = set_strprop ic_serv_dist (\<lambda>v x. x\<lparr>ic_serv_dist := v\<rparr>)"

definition irc_set_service_info :: "string option \<Rightarrow> st \<Rightarrow> bool \<times> st" where
  "irc_set_service_info = set_strprop ic_serv_info (\<lambda>v x. x\<lparr>ic_serv_info := v\<rparr>)"

text \<open>The setters of the connection, on the context\<close>

definition con_setter :: "(iconn \<Rightarrow> mallocs \<Rightarrow> bool \<times> iconn \<times> mallocs) \<Rightarrow> st \<Rightarrow> bool \<times> st" where
  "con_setter f s =
     (let (ok, c, orc) = f (ic_con (st_irc s)) (orc_of s) in (ok, upd_con (\<lambda>_. c) (set_orc orc s)))"

definition irc_set_server :: "string option \<Rightarrow> u16 \<Rightarrow> st \<Rightarrow> bool \<times> st" where
  "irc_set_server host port = con_setter (lsi_conn_set_server host port)"

definition irc_set_px :: "string option \<Rightarrow> u16 \<Rightarrow> int \<Rightarrow> st \<Rightarrow> bool \<times> st" where
  "irc_set_px host port ptype = con_setter (lsi_conn_set_px host port ptype)"

definition irc_set_localaddr :: "string option \<Rightarrow> u16 \<Rightarrow> st \<Rightarrow> (bool \<times> st) option" where
  "irc_set_localaddr host port s = do {
     (ok, c, orc) \<leftarrow> lsi_conn_set_localaddr host port (ic_con (st_irc s)) (orc_of s);
     Some (ok, upd_con (\<lambda>_. c) (set_orc orc s)) }"

text \<open>\<open>have_ssl\<close>: whether the library was built with TLS support.\<close>

definition irc_set_starttls :: "bool \<Rightarrow> int \<Rightarrow> bool \<Rightarrow> st \<Rightarrow> bool \<times> st" where
  "irc_set_starttls have_ssl mode musthave s =
     (if \<not> have_ssl then (False, s)
      else if co_ssl (ic_con (st_irc s)) \<and> mode \<noteq> 0 then (False, s)
      else let s1 = upd_irc (\<lambda>x. x\<lparr>ic_starttls := False\<rparr>) (lsi_v3_clear_cap ''tls'' s) in
        if mode = 0 then (True, s1)
        else if mode = 1 then
          (let (ok, s2) = lsi_v3_want_cap ''tls'' musthave s1 in
           if ok then (True, upd_irc (\<lambda>x. x\<lparr>ic_starttls := True\<rparr>) s2) else (False, s2))
        else (True, upd_irc (\<lambda>x. x\<lparr>ic_starttls_first := True, ic_starttls := True\<rparr>) s1))"

text \<open>The result of requesting the capability is not looked at.\<close>

definition irc_set_sasl :: "string option \<Rightarrow> string \<Rightarrow> bool \<Rightarrow> st \<Rightarrow> bool \<times> st" where
  "irc_set_sasl mech msg musthave s =
     (let (ok, s1) = set_strprop ic_sasl_mech (\<lambda>v x. x\<lparr>ic_sasl_mech := v\<rparr>) mech s in
      if \<not> ok then (False, s1)
      else let s2 = lsi_v3_clear_cap ''sasl'' s1; (ok2, s3) = st_malloc s2 in
        if \<not> ok2 then (False, upd_irc (\<lambda>x. x\<lparr>ic_sasl_msg := None, ic_sasl_mech := None\<rparr>) s3)
        else let s4 = upd_irc (\<lambda>x. x\<lparr>ic_sasl_msg := Some msg\<rparr>) s3 in
          (True, snd (lsi_v3_want_cap ''sasl'' musthave s4)))"

definition irc_set_ssl :: "bool \<Rightarrow> bool \<Rightarrow> st \<Rightarrow> bool \<times> st" where
  "irc_set_ssl have_ssl on s =
     (if \<not> have_ssl then (False, s)
      else if ic_starttls (st_irc s) \<and> on then (False, s)
      else st_conn (lsi_conn_set_ssl on) s)"

definition irc_set_conflags :: "u8 \<Rightarrow> irc \<Rightarrow> irc" where
  "irc_set_conflags flags ctx = ctx\<lparr>ic_conflags := flags\<rparr>"

definition irc_set_service_connect :: "bool \<Rightarrow> irc \<Rightarrow> irc" where
  "irc_set_service_connect enabled ctx = ctx\<lparr>ic_serv_con := enabled\<rparr>"

definition irc_set_service_type :: "int \<Rightarrow> irc \<Rightarrow> bool \<times> irc" where
  "irc_set_service_type typ ctx = (True, ctx\<lparr>ic_serv_type := typ\<rparr>)"

definition irc_set_track :: "bool \<Rightarrow> irc \<Rightarrow> irc" where
  "irc_set_track on ctx = ctx\<lparr>ic_tracking := on\<rparr>"

definition irc_set_connect_timeout :: "u64 \<Rightarrow> u64 \<Rightarrow> irc \<Rightarrow> irc" where
  "irc_set_connect_timeout soft hard ctx = ctx\<lparr>ic_hcto_us := hard, ic_scto_us := soft\<rparr>"

definition irc_set_dumb :: "bool \<Rightarrow> irc \<Rightarrow> irc" where
  "irc_set_dumb dumbmode ctx = ctx\<lparr>ic_dumb := dumbmode\<rparr>"

end
