(* ===== verification/Icatinit.thy ===== *)
theory Icatinit
  imports Irc Getset
begin

text \<open>
  \<open>src/icat_common.h\<close> and \<open>src/icat_init.c\<close>: the settings of \<open>icat\<close>, their defaults, the command
  line, and the helpers of \<open>src/icat_misc.c\<close>.  \<open>getopt\<close> belongs to the C library: the options
  are a list of letters with their arguments, as it delivers them, and the operands a list of
  strings.  In the theories of \<open>icat\<close> a result None stands for the end of the run: the program
  has exited through \<open>C\<close> or \<open>CE\<close>, or its behaviour is undefined.  Copies made while the command line is
  read succeed (a failure would end the program).
\<close>

type_synonym u32 = "32 word"

definition MAX_CHANLIST :: nat where
  "MAX_CHANLIST = 512"

record srv_entry =
  sv_host :: string
  sv_port :: u16
  sv_ssl :: bool

record settings =
  g_nick :: string
  g_uname :: string
  g_fname :: string
  g_conflags :: u8
  g_pass :: string
  g_pxhost :: string
  g_pxport :: u16
  g_pxtype :: int
  g_laddr :: string
  g_lport :: u16
  g_saslname :: string
  g_saslpass :: string
  g_starttls :: bool
  g_starttls_req :: bool
  g_trgmode :: bool
  g_cto_soft_us :: u64
  g_cto_hard_us :: u64
  g_linedelay :: u64
  g_freelines :: u32
  g_waitquit_us :: u64
  g_keeptrying :: bool
  g_cfwait_us :: u64
  g_hbeat_us :: u64
  g_reconnect :: bool
  g_nojoin :: bool
  g_ignore_pm :: bool
  g_ignore_cs :: bool
  g_notices :: bool
  g_chanlist :: string
  g_keylist :: string
  g_esc :: "string option"
  g_qmsg :: string
  g_srvlist :: "srv_entry list"

definition set_defaults :: settings where
  "set_defaults =
     \<lparr>g_nick = ''icat'', g_uname = ''icat'', g_fname = ''IRC netcat'', g_conflags = 0, g_pass = [],
      g_pxhost = [], g_pxport = 0, g_pxtype = -1, g_laddr = [], g_lport = 0, g_saslname = [],
      g_saslpass = [], g_starttls = False, g_starttls_req = False, g_trgmode = False,
      g_cto_soft_us = 15000 * 1000, g_cto_hard_us = 120000 * 1000, g_linedelay = 2000 * 1000,
      g_freelines = 0, g_waitquit_us = 3000 * 1000, g_keeptrying = False, g_cfwait_us = 10000 * 1000,
      g_hbeat_us = 30000 * 1000, g_reconnect = False, g_nojoin = False, g_ignore_pm = True,
      g_ignore_cs = True, g_notices = False, g_chanlist = [], g_keylist = [], g_esc = None,
      g_qmsg = ''IRC netcat - http://github.com/fstd/libsrsirc'', g_srvlist = []\<rparr>"

section \<open>Numbers and lists of channels\<close>

definition icat_strtou8 :: "string \<Rightarrow> u8" where
  "icat_strtou8 nptr = of_nat (strtoul10 nptr)"

definition icat_strtou64 :: "string \<Rightarrow> u64" where
  "icat_strtou64 nptr = of_nat (strtoul10 nptr)"

definition icat_isdigitstr :: "string \<Rightarrow> bool" where
  "icat_isdigitstr str = list_all isdigit str"

definition icat_ismychan :: "settings \<Rightarrow> string \<Rightarrow> bool" where
  "icat_ismychan sett chan =
     (let chans = ncpy (MAX_CHANLIST + 2) ('','' @ g_chanlist sett @ '','');
          search = ncpy 512 ('','' @ chan @ '','')
      in strstr chans search \<noteq> None)"

text \<open>
  The loop over the tokens of the argument of \<open>-C\<close>: channels, each with an optional key after
  a comma.
\<close>

definition add_chan :: "string \<Rightarrow> string \<Rightarrow> settings \<Rightarrow> settings" where
  "add_chan ch key sett =
     sett\<lparr>g_chanlist := ncat MAX_CHANLIST (g_chanlist sett) ch,
          g_keylist := ncat MAX_CHANLIST (g_keylist sett) key\<rparr>"

fun add_chans :: "bool \<Rightarrow> string list \<Rightarrow> settings \<Rightarrow> settings" where
  "add_chans first [] sett = sett"
| "add_chans first (tok # toks) sett =
     (let s1 = (if first then sett else add_chan '','' '','' sett);
          s2 = (case strchr tok (CHR '','') of
                  Some i \<Rightarrow> add_chan (take i tok) (drop (i + 1) tok) s1
                | None \<Rightarrow> add_chan tok ''x'' s1)
      in add_chans False toks s2)"

section \<open>The command line\<close>

text \<open>\<open>-T hard[:soft]\<close>, in milliseconds\<close>

definition set_timeouts :: "string \<Rightarrow> settings \<Rightarrow> settings" where
  "set_timeouts arg sett =
     (case strchr arg (CHR '':'') of
        None \<Rightarrow> sett\<lparr>g_cto_hard_us := icat_strtou64 arg * 1000\<rparr>
      | Some i \<Rightarrow> sett\<lparr>g_cto_hard_us := icat_strtou64 (take i arg) * 1000,
                       g_cto_soft_us := icat_strtou64 (drop (i + 1) arg) * 1000\<rparr>)"

text \<open>
  \<open>-S name:pass\<close>.  The colon is looked for in the whole argument and cut off in the copy: a
  name that fills the copy has none, and NULL is written through.
\<close>

definition set_saslauth :: "string \<Rightarrow> settings \<Rightarrow> settings option" where
  "set_saslauth arg sett = do {
     i \<leftarrow> strchr arg (CHR '':'');
     j \<leftarrow> strchr (ncpy 128 arg) (CHR '':'');
     Some (sett\<lparr>g_saslname := take j (ncpy 128 arg), g_saslpass := ncpy 128 (drop (i + 1) arg)\<rparr>) }"

text \<open>One option.  (Those that only set the log level or the colours leave the settings.)\<close>

definition set_opt :: "char \<times> string \<Rightarrow> settings \<Rightarrow> settings option" where
  "set_opt opt sett =
     (let ch = fst opt; arg = snd opt in
      if ch = CHR ''n'' then Some (sett\<lparr>g_nick := ncpy 64 arg\<rparr>)
      else if ch = CHR ''u'' then Some (sett\<lparr>g_uname := ncpy 64 arg\<rparr>)
      else if ch = CHR ''f'' then Some (sett\<lparr>g_fname := ncpy 128 arg\<rparr>)
      else if ch = CHR ''F'' then Some (sett\<lparr>g_conflags := icat_strtou8 arg\<rparr>)
      else if ch = CHR ''Q'' then Some (sett\<lparr>g_qmsg := ncpy 512 arg\<rparr>)
      else if ch = CHR ''p'' then Some (sett\<lparr>g_pass := ncpy 64 arg\<rparr>)
      else if ch = CHR ''P'' then
        (case lsi_ut_parse_pxspec 128 arg of
           None \<Rightarrow> None
         | Some (t, h, p) \<Rightarrow> Some (sett\<lparr>g_pxtype := t, g_pxhost := h, g_pxport := p\<rparr>))
      else if ch = CHR ''B'' then
        (let (h, p, _) = lsi_ut_parse_hostspec 64 arg in Some (sett\<lparr>g_laddr := h, g_lport := p\<rparr>))
      else if ch = CHR ''s'' then
        Some (sett\<lparr>g_starttls := True, g_starttls_req := (icat_strtou64 arg \<noteq> 0)\<rparr>)
      else if ch = CHR ''S'' then set_saslauth arg sett
      else if ch = CHR ''t'' then Some (sett\<lparr>g_trgmode := True\<rparr>)
      else if ch = CHR ''T'' then Some (set_timeouts arg sett)
      else if ch = CHR ''C'' then
        (let toks = strtok_all (CHR '' '') arg [] in
         if toks = [] then None else Some (add_chans True toks sett))
      else if ch = CHR ''E'' then Some (sett\<lparr>g_esc := Some arg\<rparr>)
      else if ch = CHR ''l'' then Some (sett\<lparr>g_linedelay := icat_strtou64 arg * 1000\<rparr>)
      else if ch = CHR ''L'' then Some (sett\<lparr>g_freelines := of_nat (strtoul10 arg)\<rparr>)
      else if ch = CHR ''w'' then Some (sett\<lparr>g_waitquit_us := icat_strtou64 arg * 1000\<rparr>)
      else if ch = CHR ''k'' then Some (sett\<lparr>g_keeptrying := True\<rparr>)
      else if ch = CHR ''W'' then Some (sett\<lparr>g_cfwait_us := icat_strtou64 arg * 1000\<rparr>)
      else if ch = CHR ''b'' then Some (sett\<lparr>g_hbeat_us := icat_strtou64 arg * 1000\<rparr>)
      else if ch = CHR ''r'' then Some (sett\<lparr>g_reconnect := True\<rparr>)
      else if ch = CHR ''j'' then Some (sett\<lparr>g_nojoin := True\<rparr>)
      else if ch = CHR ''I'' then Some (sett\<lparr>g_ignore_cs := False\<rparr>)
      else if ch = CHR ''i'' then Some (sett\<lparr>g_ignore_pm := False\<rparr>)
      else if ch = CHR ''N'' then Some (sett\<lparr>g_notices := True\<rparr>)
      else if ch \<in> {CHR ''c'', CHR ''v'', CHR ''q''} then Some sett
      else None)"

fun set_opts :: "(char \<times> string) list \<Rightarrow> settings \<Rightarrow> settings option" where
  "set_opts [] sett = Some sett"
| "set_opts (opt # opts) sett = do { s1 \<leftarrow> set_opt opt sett; set_opts opts s1 }"

fun add_servers :: "string list \<Rightarrow> settings \<Rightarrow> settings option" where
  "add_servers [] sett = Some sett"
| "add_servers (a # as) sett =
     (let (host, port, ssl) = lsi_ut_parse_hostspec 256 a in
      if icat_isdigitstr host then None
      else add_servers as
        (sett\<lparr>g_srvlist := g_srvlist sett @ [\<lparr>sv_host = host, sv_port = port, sv_ssl = ssl\<rparr>]\<rparr>))"

definition process_args :: "(char \<times> string) list \<Rightarrow> string list \<Rightarrow> settings \<Rightarrow> settings option" where
  "process_args opts args sett = do {
     s1 \<leftarrow> set_opts opts sett;
     if args = [] then None else add_servers args s1 }"

text \<open>What \<open>main\<close> starts \<open>icat\<close> with\<close>

definition icat_settings :: "(char \<times> string) list \<Rightarrow> string list \<Rightarrow> settings option" where
  "icat_settings opts args = do {
     s \<leftarrow> process_args opts args set_defaults;
     if \<not> g_trgmode s \<and> g_chanlist s = [] then None else Some s }"

end
