(* ===== verification/Settprops.thy ===== *)
theory Settprops
  imports Icatinit
begin

text \<open>
  The settings of \<open>icat\<close>: every string fits its array, and \<open>icat_ismychan\<close> knows exactly the
  channels of the command line.
\<close>

section \<open>Every string fits its array\<close>

definition settings_fit :: "settings \<Rightarrow> bool" where
  "settings_fit se \<longleftrightarrow>
     length (g_nick se) < 64 \<and> length (g_uname se) < 64 \<and> length (g_fname se) < 128 \<and>
     length (g_pass se) < 64 \<and> length (g_pxhost se) < 128 \<and> length (g_laddr se) < 64 \<and>
     length (g_saslname se) < 128 \<and> length (g_saslpass se) < 128 \<and>
     length (g_chanlist se) < MAX_CHANLIST \<and> length (g_keylist se) < MAX_CHANLIST \<and>
     length (g_qmsg se) < 512 \<and> list_all (\<lambda>sv. length (sv_host sv) < 256) (g_srvlist se)"

lemma ncpy_fits [simp]: "0 < n \<Longrightarrow> length (ncpy n s) < n"
  by simp

lemma take_ncpy_fits: "0 < n \<Longrightarrow> length (take i (ncpy n s)) < n"
  by simp

lemma parse_hostspec_fits:
  "0 < n \<Longrightarrow> lsi_ut_parse_hostspec n spec = (h, p, ssl) \<Longrightarrow> length h < n"
  by (auto simp: lsi_ut_parse_hostspec_def Let_def split: option.splits if_splits prod.splits)

lemma parse_pxspec_fits:
  "0 < n \<Longrightarrow> lsi_ut_parse_pxspec n spec = Some (t, h, p) \<Longrightarrow> length h < n"
  by (auto simp: lsi_ut_parse_pxspec_def Let_def split: option.splits if_splits prod.splits dest: parse_hostspec_fits)

lemma add_chan_fits: "settings_fit se \<Longrightarrow> settings_fit (add_chan ch key se)"
  using length_ncat [of "g_chanlist se" MAX_CHANLIST ch] length_ncat [of "g_keylist se" MAX_CHANLIST key]
  by (simp add: settings_fit_def add_chan_def)

lemma add_chans_fits: "settings_fit se \<Longrightarrow> settings_fit (add_chans first toks se)"
  by (induction toks arbitrary: first se) (auto simp: Let_def add_chan_fits split: option.split)

lemma set_opt_fits:
  assumes "settings_fit se" "set_opt opt se = Some se'"
  shows "settings_fit se'"
proof (cases "fst opt = CHR ''C''")
  case True
  with assms add_chans_fits [OF assms(1)] show ?thesis by (auto simp: set_opt_def Let_def split: if_splits)
next
  case False
  with assms show ?thesis
    unfolding set_opt_def Let_def
    by (auto simp: settings_fit_def set_saslauth_def set_timeouts_def split: if_splits option.splits prod.splits
        dest: parse_hostspec_fits [rotated] parse_pxspec_fits [rotated])
qed

lemma set_opts_fits: "settings_fit se \<Longrightarrow> set_opts opts se = Some se' \<Longrightarrow> settings_fit se'"
  by (induction opts se rule: set_opts.induct) (auto dest: set_opt_fits)

lemma add_servers_fits: "settings_fit se \<Longrightarrow> add_servers args se = Some se' \<Longrightarrow> settings_fit se'"
proof (induction args se rule: add_servers.induct)
  case (2 a as se)
  obtain h p ssl where hp: "lsi_ut_parse_hostspec 256 a = (h, p, ssl)" using prod_cases3 by blast
  have "length h < 256" using parse_hostspec_fits [OF _ hp] by simp
  then have "settings_fit (se\<lparr>g_srvlist := g_srvlist se @ [\<lparr>sv_host = h, sv_port = p, sv_ssl = ssl\<rparr>]\<rparr>)"
    using "2.prems"(1) by (simp add: settings_fit_def)
  with 2 hp show ?case by (auto split: if_splits)
qed simp

section \<open>Lists of channels\<close>

function comma_split :: "string \<Rightarrow> string list" where
  "comma_split s =
     takeWhile (\<lambda>c. c \<noteq> CHR '','') s #
       (case dropWhile (\<lambda>c. c \<noteq> CHR '','') s of [] \<Rightarrow> [] | c # r \<Rightarrow> comma_split r)"
  by pat_completeness auto
termination
proof (relation "measure length", simp)
  fix s c r
  assume "dropWhile (\<lambda>c. c \<noteq> CHR '','') s = c # (r :: string)"
  then have "length (c # r) \<le> length s" by (metis length_dropWhile_le)
  then show "(r, s) \<in> measure length" by simp
qed

declare comma_split.simps [simp del]

lemma no_delim:
  "c \<notin> set w \<Longrightarrow> takeWhile (\<lambda>x. x \<noteq> c) w = w \<and> dropWhile (\<lambda>x. x \<noteq> c) w = []"
  "c \<notin> set w \<Longrightarrow> takeWhile (\<lambda>x. x \<noteq> c) (w @ c # r) = w \<and> dropWhile (\<lambda>x. x \<noteq> c) (w @ c # r) = c # r"
  by (induction w) auto

lemma comma_split_word: "CHR '','' \<notin> set w \<Longrightarrow> comma_split w = [w]"
  by (subst comma_split.simps) (simp add: no_delim)

lemma comma_split_step: "CHR '','' \<notin> set w \<Longrightarrow> comma_split (w @ CHR '','' # r) = w # comma_split r"
  by (subst comma_split.simps) (simp add: no_delim)

lemma strstr_iff: "strstr s t \<noteq> None \<longleftrightarrow> (\<exists>p q. s = p @ t @ q)"
proof (induction s)
  case (Cons x s)
  show ?case
  proof (cases "take (length t) (x # s) = t")
    case True
    then have "x # s = [] @ t @ drop (length t) (x # s)" by (metis append_Nil append_take_drop_id)
    then have "\<exists>p q. x # s = p @ t @ q" by blast
    moreover have "strstr (x # s) t \<noteq> None" using True by simp
    ultimately show ?thesis by blast
  next
    case False
    have "(\<exists>p q. x # s = p @ t @ q) \<longleftrightarrow> (\<exists>p q. s = p @ t @ q)"
    proof
      assume "\<exists>p q. x # s = p @ t @ q"
      then obtain p q where pq: "x # s = p @ t @ q" by blast
      show "\<exists>p q. s = p @ t @ q"
      proof (cases p)
        case Nil
        then have "take (length t) (x # s) = t" using pq by simp
        with False show ?thesis by contradiction
      qed (use pq in auto)
    next
      assume "\<exists>p q. s = p @ t @ q"
      then show "\<exists>p q. x # s = p @ t @ q" by (metis append_Cons)
    qed
    with False Cons.IH show ?thesis by auto
  qed
qed auto

lemma comma_cancel:
  assumes "c \<notin> set w" "w @ c # x = p @ c # y"
  shows "p = w \<and> x = y \<or> (\<exists>p'. p = w @ c # p' \<and> x = p' @ c # y)"
  using assms by (auto simp: append_eq_append_conv2 Cons_eq_append_conv append_eq_Cons_conv)

lemma comma_word:
  assumes "c \<notin> set w" "c \<notin> set ch"
  shows "(\<exists>p q. c # w @ [c] = p @ c # ch @ c # q) \<longleftrightarrow> ch = w"
proof
  assume "\<exists>p q. c # w @ [c] = p @ c # ch @ c # q"
  then obtain p q where pq: "c # w @ [c] = p @ c # ch @ c # q" by blast
  show "ch = w"
  proof (cases p)
    case Nil
    with pq have "w @ c # [] = ch @ c # q" by simp
    from comma_cancel [OF assms(1) this] assms(2) show ?thesis by auto
  next
    case (Cons x p1)
    with pq have "w @ c # [] = p1 @ c # (ch @ c # q)" by auto
    from comma_cancel [OF assms(1) this] show ?thesis by auto
  qed
qed auto

lemma comma_more:
  assumes "c \<notin> set w" "c \<notin> set ch"
  shows "(\<exists>p q. c # w @ c # r @ [c] = p @ c # ch @ c # q) \<longleftrightarrow>
    ch = w \<or> (\<exists>p q. c # r @ [c] = p @ c # ch @ c # q)" (is "?l \<longleftrightarrow> ?r")
proof
  assume ?l
  then obtain p q where pq: "c # w @ c # r @ [c] = p @ c # ch @ c # q" by blast
  show ?r
  proof (cases p)
    case Nil
    with pq have "w @ c # (r @ [c]) = ch @ c # q" by simp
    from comma_cancel [OF assms(1) this] assms(2) show ?thesis by auto
  next
    case (Cons x p1)
    with pq have "w @ c # (r @ [c]) = p1 @ c # (ch @ c # q)" by auto
    from comma_cancel [OF assms(1) this] show ?thesis
    proof (elim disjE exE conjE)
      assume "r @ [c] = ch @ c # q"
      then have "c # r @ [c] = [] @ c # ch @ c # q" by simp
      then show ?thesis by blast
    next
      fix p' assume "r @ [c] = p' @ c # ch @ c # q"
      then have "c # r @ [c] = (c # p') @ c # ch @ c # q" by simp
      then show ?thesis by blast
    qed
  qed
next
  assume ?r
  then show ?l
  proof (elim disjE exE)
    assume "ch = w"
    then have "c # w @ c # r @ [c] = [] @ c # ch @ c # (r @ [c])" by simp
    then show ?thesis by blast
  next
    fix p q assume "c # r @ [c] = p @ c # ch @ c # q"
    then have "c # w @ c # r @ [c] = (c # w @ p) @ c # ch @ c # q" by simp
    then show ?thesis by blast
  qed
qed

lemma member_of_commas:
  assumes "CHR '','' \<notin> set ch"
  shows "(\<exists>p q. CHR '','' # s @ [CHR '',''] = p @ CHR '','' # ch @ CHR '','' # q) \<longleftrightarrow> ch \<in> set (comma_split s)"
proof (induction s rule: measure_induct_rule [of length])
  case (less s)
  define w where "w = takeWhile (\<lambda>c. c \<noteq> CHR '','') s"
  have w: "CHR '','' \<notin> set w" by (auto simp: w_def dest: set_takeWhileD)
  show ?case
  proof (cases "dropWhile (\<lambda>c. c \<noteq> CHR '','') s")
    case Nil
    then have "s = w" by (metis append_Nil2 takeWhile_dropWhile_id w_def)
    with comma_word [OF w assms] w show ?thesis by (simp add: comma_split_word)
  next
    case (Cons c r)
    then have c: "c = CHR '',''" by (metis (mono_tags, lifting) dropWhile_eq_Cons_conv)
    then have s: "s = w @ CHR '','' # r" using Cons by (metis takeWhile_dropWhile_id w_def)
    then have sp: "comma_split s = w # comma_split r" using comma_split_step [OF w] by simp
    have "length r < length s" by (simp add: s)
    from less.IH [OF this] comma_more [OF w assms, of r] show ?thesis
      unfolding s sp [unfolded s] by (simp only: append_assoc append_Cons set_simps insert_iff)
  qed
qed

text \<open>\<open>icat_ismychan\<close> against the reference: membership in the list of channels\<close>

lemma ismychan_iff:
  assumes "length (g_chanlist se) < MAX_CHANLIST" "CHR '','' \<notin> set ch" "length ch \<le> 509"
  shows "icat_ismychan se ch \<longleftrightarrow> ch \<in> set (comma_split (g_chanlist se))"
proof -
  have "icat_ismychan se ch \<longleftrightarrow>
      (\<exists>p q. CHR '','' # g_chanlist se @ [CHR '',''] = p @ CHR '','' # ch @ CHR '','' # q)"
    using assms(1,3) strstr_iff [of "CHR '','' # g_chanlist se @ [CHR '','']" "CHR '','' # ch @ [CHR '','']"]
    by (simp add: icat_ismychan_def MAX_CHANLIST_def)
  with member_of_commas [OF assms(2)] show ?thesis by simp
qed

section \<open>The list of the command line\<close>

definition chan_name :: "string \<Rightarrow> string" where
  "chan_name tok = takeWhile (\<lambda>c. c \<noteq> CHR '','') tok"

definition chan_key :: "string \<Rightarrow> string" where
  "chan_key tok = (case strchr tok (CHR '','') of Some i \<Rightarrow> drop (i + 1) tok | None \<Rightarrow> ''x'')"

lemma ncat_short: "length d + length s < n \<Longrightarrow> ncat n d s = d @ s"
  by (cases s) (simp_all add: ncat_def)

lemma add_one_chan:
  "(case strchr tok (CHR '','') of
      Some i \<Rightarrow> add_chan (take i tok) (drop (i + 1) tok) se | None \<Rightarrow> add_chan tok ''x'' se) =
   add_chan (chan_name tok) (chan_key tok) se"
proof (cases "strchr tok (CHR '','')")
  case None
  then have "CHR '','' \<notin> set tok" using strchr_None_iff [of tok "CHR '',''"] by simp
  then have "chan_name tok = tok" using no_delim(1) [of "CHR '',''" tok] by (simp only: chan_name_def simp_thms)
  with None show ?thesis by (simp add: chan_key_def)
next
  case (Some i)
  with strchr_Some_take [OF Some] show ?thesis by (simp add: chan_name_def chan_key_def)
qed

lemma add_chans_list:
  "length (g_chanlist se) + sum_list (map (\<lambda>t. length (chan_name t) + 1) toks) < MAX_CHANLIST \<Longrightarrow>
   g_chanlist (add_chans False toks se) = g_chanlist se @ concat (map (\<lambda>t. CHR '','' # chan_name t) toks)"
proof (induction toks arbitrary: se)
  case (Cons t toks)
  define s1 where "s1 = add_chan (chan_name t) (chan_key t) (add_chan '','' '','' se)"
  have c: "g_chanlist s1 = g_chanlist se @ CHR '','' # chan_name t"
    using Cons.prems by (simp add: s1_def add_chan_def ncat_short)
  have "add_chans False (t # toks) se = add_chans False toks s1"
    by (simp add: s1_def add_one_chan [simplified] Let_def)
  with Cons.IH [of s1] Cons.prems c show ?case by simp
qed simp

lemma comma_split_concat:
  "CHR '','' \<notin> set w \<Longrightarrow> \<forall>x\<in>set ws. CHR '','' \<notin> set x \<Longrightarrow>
   comma_split (w @ concat (map (Cons CHR '','') ws)) = w # ws"
  by (induction ws arbitrary: w) (simp_all add: comma_split_word comma_split_step)

lemma chan_name_no_comma: "CHR '','' \<notin> set (chan_name t)"
  by (auto simp: chan_name_def dest: set_takeWhileD)

lemma add_chans_split:
  assumes "g_chanlist se = []" "toks \<noteq> []" "sum_list (map (\<lambda>t. length (chan_name t) + 1) toks) \<le> MAX_CHANLIST"
  shows "comma_split (g_chanlist (add_chans True toks se)) = map chan_name toks \<and>
    length (g_chanlist (add_chans True toks se)) < MAX_CHANLIST"
proof -
  obtain t ts where t: "toks = t # ts" using assms(2) by (cases toks) auto
  define s1 where "s1 = add_chan (chan_name t) (chan_key t) se"
  have c: "g_chanlist s1 = chan_name t" using assms(1,3) t by (simp add: s1_def add_chan_def ncat_short)
  have "add_chans True toks se = add_chans False ts s1" by (simp add: t s1_def add_one_chan [simplified] Let_def)
  moreover have "g_chanlist (add_chans False ts s1) = chan_name t @ concat (map (Cons CHR '','') (map chan_name ts))"
    using add_chans_list [of s1 ts] assms(3) c t by (simp add: comp_def)
  moreover have "length (concat (map (Cons CHR '','') (map chan_name ts))) = sum_list (map (\<lambda>t. length (chan_name t) + 1) ts)"
    by (simp add: length_concat comp_def)
  ultimately show ?thesis
    using comma_split_concat [of "chan_name t" "map chan_name ts"] chan_name_no_comma assms(3) t by auto
qed

section \<open>Properties\<close>

text \<open>
  C29: Whatever the command line, the settings \<open>icat\<close> runs with fit their arrays: every string of
  the structure has room for its terminating NUL.
\<close>

theorem settings_always_fit:
  assumes "icat_settings opts args = Some se"
  shows "settings_fit se"
proof -
  have d: "settings_fit set_defaults" by (simp add: settings_fit_def set_defaults_def MAX_CHANLIST_def)
  from assms obtain s1 where "set_opts opts set_defaults = Some s1" "add_servers args s1 = Some se"
    by (auto simp: icat_settings_def process_args_def split: if_splits)
  with set_opts_fits [OF d] add_servers_fits show ?thesis by blast
qed

theorem settings_always_fit_witness:
  "settings_fit (the (icat_settings [(CHR ''n'', ''joe''), (CHR ''C'', ''#a,k #b'')] [''irc.example.org'']))"
proof -
  have "icat_settings [(CHR ''n'', ''joe''), (CHR ''C'', ''#a,k #b'')] [''irc.example.org''] \<noteq> None" by code_simp
  then obtain se where se: "icat_settings [(CHR ''n'', ''joe''), (CHR ''C'', ''#a,k #b'')] [''irc.example.org''] = Some se"
    by blast
  from settings_always_fit [OF this] se show ?thesis by simp
qed

text \<open>
  After the option \<open>-C\<close> with a list of channels (and keys) that fits, \<open>icat_ismychan\<close> holds
  for exactly the channels of the list.
\<close>

theorem ismychan_knows_list:
  assumes "set_opt (CHR ''C'', arg) se = Some se'" "g_chanlist se = []"
    and "sum_list (map (\<lambda>t. length (chan_name t) + 1) (strtok_all (CHR '' '') arg [])) \<le> MAX_CHANLIST"
    and "CHR '','' \<notin> set chan" "length chan \<le> 509"
  shows "icat_ismychan se' chan \<longleftrightarrow> chan \<in> chan_name ` set (strtok_all (CHR '' '') arg [])"
proof -
  from assms(1) have ne: "strtok_all (CHR '' '') arg [] \<noteq> []"
    and e: "se' = add_chans True (strtok_all (CHR '' '') arg []) se"
    by (auto simp: set_opt_def Let_def split: if_splits)
  from add_chans_split [OF assms(2) ne assms(3)] ismychan_iff [OF _ assms(4,5), of se'] show ?thesis
    by (simp add: e)
qed

theorem ismychan_knows_list_witness:
  "\<exists>se'. set_opt (CHR ''C'', ''#a,k #b'') set_defaults = Some se' \<and>
     icat_ismychan se' ''#b'' = (''#b'' \<in> chan_name ` set (strtok_all (CHR '' '') ''#a,k #b'' []))"
proof -
  obtain se' where s: "set_opt (CHR ''C'', ''#a,k #b'') set_defaults = Some se'" by (simp add: set_opt_def Let_def)
  have "g_chanlist set_defaults = []" by (simp add: set_defaults_def)
  moreover have "sum_list (map (\<lambda>t. length (chan_name t) + 1) (strtok_all (CHR '' '') ''#a,k #b'' [])) \<le> MAX_CHANLIST"
    by code_simp
  ultimately have "icat_ismychan se' ''#b'' \<longleftrightarrow> ''#b'' \<in> chan_name ` set (strtok_all (CHR '' '') ''#a,k #b'' [])"
    by (rule ismychan_knows_list [OF s]) simp_all
  with s show ?thesis by blast
qed

end
