(* ===== verification/Icatuser.thy ===== *)
theory Icatuser
  imports Sock
begin

text \<open>
  \<open>src/icat_user.c\<close>: the terminal side of \<open>icat\<close>.  Lines are taken from a buffer of 4096
  characters (and one more for a NUL) that standard input fills; \<open>ub_head\<close> and \<open>ub_tail\<close> are the
  offsets of \<open>s_bufhead\<close> and \<open>s_buftail\<close>.  \<open>ub_can\<close> and \<open>ub_in\<close> are the outcomes of the coming
  calls of \<open>select\<close> (nothing to read when they are used up) and \<open>read\<close> that \<open>platform/base_io.c\<close>
  makes on standard input, descriptor 0.
\<close>

definition BUFSZ :: nat where
  "BUFSZ = 4096"

datatype in_event = In_data string | In_err

record ubuf =
  ub_inbuf :: "char list"
  ub_head :: nat
  ub_tail :: nat
  ub_eof :: bool
  ub_can :: "sel_event list"
  ub_in :: "in_event list"

definition ubuf_init :: "sel_event list \<Rightarrow> in_event list \<Rightarrow> ubuf" where
  "ubuf_init can inp =
     \<lparr>ub_inbuf = replicate (BUFSZ + 1) NUL, ub_head = 0, ub_tail = 0, ub_eof = False,
      ub_can = can, ub_in = inp\<rparr>"

definition lsi_b_stdin_canread :: "ubuf \<Rightarrow> int \<times> ubuf" where
  "lsi_b_stdin_canread u =
     (case ub_can u of
        [] \<Rightarrow> (0, u)
      | e # es \<Rightarrow>
          (case e of Sel ready \<Rightarrow> int (length ready) | Sel_intr \<Rightarrow> 0 | Sel_err \<Rightarrow> -1, u\<lparr>ub_can := es\<rparr>))"

definition lsi_b_stdin_read :: "nat \<Rightarrow> ubuf \<Rightarrow> int \<times> string \<times> ubuf" where
  "lsi_b_stdin_read n u =
     (case ub_in u of
        [] \<Rightarrow> (0, [], u)
      | In_data d # es \<Rightarrow>
          (int (length (take n d)), take n d,
           u\<lparr>ub_in := (if drop n d = [] then es else In_data (drop n d) # es)\<rparr>)
      | In_err # es \<Rightarrow> (-1, [], u\<lparr>ub_in := es\<rparr>))"

definition buf_cnt :: "ubuf \<Rightarrow> nat" where
  "buf_cnt u = ub_tail u - ub_head u"

definition buf_rem :: "ubuf \<Rightarrow> nat" where
  "buf_rem u = BUFSZ - buf_cnt u - ub_head u"

definition newline :: char where
  "newline = CHR 0x0A"

text \<open>\<open>*s_buftail = '\0'\<close>\<close>

definition term_buf :: "ubuf \<Rightarrow> ubuf option" where
  "term_buf u = do { b \<leftarrow> wr (ub_inbuf u) (ub_tail u) NUL; Some (u\<lparr>ub_inbuf := b\<rparr>) }"

definition has_line :: "ubuf \<Rightarrow> (bool \<times> ubuf) option" where
  "has_line u = do {
     u1 \<leftarrow> term_buf u;
     r \<leftarrow> buf_strchr (ub_inbuf u1) (ub_head u1) newline;
     Some (r \<noteq> None, u1) }"

text \<open>
  Making room.  A full buffer that starts at the front gets a newline and a NUL put at its
  end (true: \<open>icat_user_canread\<close> returns), else what is left of it moves to the front.
\<close>

definition make_room :: "ubuf \<Rightarrow> (bool \<times> ubuf) option" where
  "make_room u =
     (if buf_rem u \<noteq> 0 then Some (False, u)
      else if ub_head u = 0 then do {
        b1 \<leftarrow> wr (ub_inbuf u) (ub_tail u) newline;
        b2 \<leftarrow> wr b1 (ub_tail u + 1) NUL;
        Some (True, u\<lparr>ub_inbuf := b2\<rparr>) }
      else Some (False, u\<lparr>ub_inbuf := move_front (ub_inbuf u) (ub_head u) (buf_cnt u),
                         ub_tail := ub_tail u - ub_head u, ub_head := 0\<rparr>))"

definition fill_buf :: "ubuf \<Rightarrow> (bool \<times> ubuf) option" where
  "fill_buf u =
     (if ub_eof u then Some (False, u)
      else let (n, d, u1) = lsi_b_stdin_read (buf_rem u) u in
        if n < 0 then Some (False, u1)
        else if n = 0 then Some (False, u1\<lparr>ub_eof := True\<rparr>)
        else do {
          b \<leftarrow> wr_bytes (ub_inbuf u1) (ub_tail u1) d;
          has_line (u1\<lparr>ub_inbuf := b, ub_tail := ub_tail u1 + nat n\<rparr>) })"

definition icat_user_canread :: "ubuf \<Rightarrow> (bool \<times> ubuf) option" where
  "icat_user_canread u = do {
     (ready, u1) \<leftarrow> (if buf_cnt u \<noteq> 0 then has_line u else Some (False, u));
     if ready then Some (True, u1)
     else let (r, u2) = lsi_b_stdin_canread u1 in
       if r \<le> 0 then Some (False, u2)
       else do {
         (full, u3) \<leftarrow> make_room u2;
         if full then Some (True, u3) else fill_buf u3 } }"

text \<open>
  The length of the line, and the line as far as it fits \<open>dest\<close>.  \<open>strchr(...) + 1\<close> without a
  newline in the buffer is undefined.
\<close>

definition icat_user_readline :: "nat \<Rightarrow> ubuf \<Rightarrow> (nat \<times> string \<times> ubuf) option" where
  "icat_user_readline destsz u = do {
     (ok, u1) \<leftarrow> icat_user_canread u;
     if \<not> ok then Some (0, [], u1)
     else do {
       u2 \<leftarrow> term_buf u1;
       r \<leftarrow> buf_strchr (ub_inbuf u2) (ub_head u2) newline;
       i \<leftarrow> r;
       let origlen = i + 1 - ub_head u2;
       let cplen = (if destsz \<le> origlen then destsz - 1 else origlen);
       Some (origlen, take cplen (drop (ub_head u2) (ub_inbuf u2)), u2\<lparr>ub_head := i + 1\<rparr>) } }"

definition icat_user_eof :: "ubuf \<Rightarrow> bool" where
  "icat_user_eof u = ub_eof u"

section \<open>The stream of lines\<close>

definition ub_ok :: "ubuf \<Rightarrow> bool" where
  "ub_ok u \<longleftrightarrow> ub_head u \<le> ub_tail u \<and> ub_tail u \<le> BUFSZ \<and> length (ub_inbuf u) = BUFSZ + 1"

definition ub_pend :: "ubuf \<Rightarrow> string" where
  "ub_pend u = take (ub_tail u - ub_head u) (drop (ub_head u) (ub_inbuf u))"

definition ub_rest :: "ubuf \<Rightarrow> string" where
  "ub_rest u = concat (map (\<lambda>e. case e of In_data d \<Rightarrow> d | In_err \<Rightarrow> []) (ub_in u))"

text \<open>Everything the user has typed and \<open>icat\<close> has not taken yet\<close>

definition ub_stream :: "ubuf \<Rightarrow> string" where
  "ub_stream u = ub_pend u @ ub_rest u"

end
