(* ===== verification/Ucspec.thy ===== *)
theory Ucspec
  imports Intdefs
begin

text \<open>
  What \<open>libsrsirc/ucbase.c\<close> keeps track of, without maps, pointers and C strings: which users
  and channels are listed under which (canonical) name, who is a member of what, how many
  channels each user is thought to be on.  Objects are named by their addresses.  The
  invariant \<open>base_ok\<close> is what makes the code free of dangling pointers: a listed object
  exists and carries the name it is listed under, a member's user exists, a listed user's
  memberships are filed under the user's name, and a user is counted on at least as many
  channels as it has memberships.

  Inside an operation the invariant holds with three exceptions, its parameters: a user \<open>r\<close> who
  is being renamed, a set \<open>X\<close> of places (channel and name) whose membership is being taken
  away, and the list \<open>P\<close> of memberships that are taken away but not yet released.
\<close>

type_synonym ckey = "nat list"

record base =
  bs_user :: "ckey \<Rightarrow> addr option"
  bs_chan :: "ckey \<Rightarrow> addr option"
  bs_memb :: "addr \<Rightarrow> ckey \<Rightarrow> addr option"
  bs_who :: "addr \<Rightarrow> addr option"
  bs_nick :: "addr \<Rightarrow> ckey option"
  bs_name :: "addr \<Rightarrow> ckey option"
  bs_refs :: "addr \<Rightarrow> nat"

definition member :: "base \<Rightarrow> (addr \<times> ckey) set \<Rightarrow> addr \<Rightarrow> ckey \<Rightarrow> addr \<Rightarrow> bool" where
  "member b X ca k ma \<longleftrightarrow> ca \<in> ran (bs_chan b) \<and> (ca, k) \<notin> X \<and> bs_memb b ca k = Some ma"

definition slots :: "base \<Rightarrow> (addr \<times> ckey) set \<Rightarrow> addr \<Rightarrow> (addr \<times> ckey) set" where
  "slots b X ua = {(ca, k). \<exists>ma. member b X ca k ma \<and> bs_who b ma = Some ua}"

definition pending :: "base \<Rightarrow> addr list \<Rightarrow> addr \<Rightarrow> nat" where
  "pending b P ua = length (filter (\<lambda>ma. bs_who b ma = Some ua) P)"

definition base_ok :: "addr option \<Rightarrow> (addr \<times> ckey) set \<Rightarrow> addr list \<Rightarrow> base \<Rightarrow> bool" where
  "base_ok r X P b \<longleftrightarrow>
     (\<forall>q ca. bs_chan b q = Some ca \<longrightarrow> bs_name b ca = Some q) \<and>
     (\<forall>q ua. bs_user b q = Some ua \<longrightarrow> bs_nick b ua = Some q) \<and>
     (\<forall>ca k ma. member b X ca k ma \<longrightarrow> ma \<notin> set P \<and>
        (\<exists>ua. bs_who b ma = Some ua \<and> bs_nick b ua \<noteq> None \<and>
           (ua \<in> ran (bs_user b) \<and> r \<noteq> Some ua \<longrightarrow> bs_nick b ua = Some k))) \<and>
     (\<forall>ca k ca' k' ma. member b X ca k ma \<longrightarrow> member b X ca' k' ma \<longrightarrow> ca = ca' \<and> k = k') \<and>
     finite {(ca, k). \<exists>ma. member b X ca k ma} \<and>
     distinct P \<and> (\<forall>ma\<in>set P. \<exists>ua. bs_who b ma = Some ua \<and> bs_nick b ua \<noteq> None) \<and>
     (\<forall>ua. bs_nick b ua \<noteq> None \<longrightarrow> card (slots b X ua) + pending b P ua \<le> bs_refs b ua)"

text \<open>Which updates the derived notions do not see.\<close>

lemma member_upd [simp]:
  "member (b\<lparr>bs_user := u\<rparr>) = member b" "member (b\<lparr>bs_who := w\<rparr>) = member b"
  "member (b\<lparr>bs_nick := n\<rparr>) = member b" "member (b\<lparr>bs_name := m\<rparr>) = member b"
  "member (b\<lparr>bs_refs := r\<rparr>) = member b"
  by (simp_all add: member_def fun_eq_iff)

lemma slots_upd [simp]:
  "slots (b\<lparr>bs_user := u\<rparr>) = slots b" "slots (b\<lparr>bs_nick := n\<rparr>) = slots b"
  "slots (b\<lparr>bs_name := m\<rparr>) = slots b" "slots (b\<lparr>bs_refs := r\<rparr>) = slots b"
  by (simp_all add: slots_def fun_eq_iff)

lemma pending_upd [simp]:
  "pending (b\<lparr>bs_user := u\<rparr>) = pending b" "pending (b\<lparr>bs_nick := n\<rparr>) = pending b"
  "pending (b\<lparr>bs_name := m\<rparr>) = pending b" "pending (b\<lparr>bs_refs := r\<rparr>) = pending b"
  "pending (b\<lparr>bs_memb := s\<rparr>) = pending b" "pending (b\<lparr>bs_chan := c\<rparr>) = pending b"
  by (simp_all add: pending_def fun_eq_iff)

section \<open>Elimination\<close>

lemma base_okD:
  assumes "base_ok r X P b"
  shows base_chan: "bs_chan b q = Some ca \<Longrightarrow> bs_name b ca = Some q"
    and base_user: "bs_user b q = Some ua \<Longrightarrow> bs_nick b ua = Some q"
    and base_member_P: "member b X ca k ma \<Longrightarrow> ma \<notin> set P"
    and base_member_who: "member b X ca k ma \<Longrightarrow> \<exists>ua. bs_who b ma = Some ua \<and> bs_nick b ua \<noteq> None"
    and base_member_key: "member b X ca k ma \<Longrightarrow> bs_who b ma = Some ua \<Longrightarrow> ua \<in> ran (bs_user b) \<Longrightarrow>
      r \<noteq> Some ua \<Longrightarrow> bs_nick b ua = Some k"
    and base_member_inj: "member b X ca k ma \<Longrightarrow> member b X ca' k' ma \<Longrightarrow> ca = ca' \<and> k = k'"
    and base_finite: "finite {(ca, k). \<exists>ma. member b X ca k ma}"
    and base_distinct: "distinct P"
    and base_pending: "ma \<in> set P \<Longrightarrow> \<exists>ua. bs_who b ma = Some ua \<and> bs_nick b ua \<noteq> None"
    and base_load: "bs_nick b ua \<noteq> None \<Longrightarrow> card (slots b X ua) + pending b P ua \<le> bs_refs b ua"
  using assms unfolding base_ok_def by (blast | fastforce)+

lemma base_okI:
  assumes "\<And>q ca. bs_chan b q = Some ca \<Longrightarrow> bs_name b ca = Some q"
    and "\<And>q ua. bs_user b q = Some ua \<Longrightarrow> bs_nick b ua = Some q"
    and "\<And>ca k ma. member b X ca k ma \<Longrightarrow> ma \<notin> set P"
    and "\<And>ca k ma. member b X ca k ma \<Longrightarrow> \<exists>ua. bs_who b ma = Some ua \<and> bs_nick b ua \<noteq> None \<and>
           (ua \<in> ran (bs_user b) \<and> r \<noteq> Some ua \<longrightarrow> bs_nick b ua = Some k)"
    and "\<And>ca k ca' k' ma. member b X ca k ma \<Longrightarrow> member b X ca' k' ma \<Longrightarrow> ca = ca' \<and> k = k'"
    and "finite {(ca, k). \<exists>ma. member b X ca k ma}" "distinct P"
    and "\<And>ma. ma \<in> set P \<Longrightarrow> \<exists>ua. bs_who b ma = Some ua \<and> bs_nick b ua \<noteq> None"
    and "\<And>ua. bs_nick b ua \<noteq> None \<Longrightarrow> card (slots b X ua) + pending b P ua \<le> bs_refs b ua"
  shows "base_ok r X P b"
  unfolding base_ok_def
proof (intro conjI)
  show "\<forall>q ca. bs_chan b q = Some ca \<longrightarrow> bs_name b ca = Some q" by (intro allI impI) (rule assms(1))
  show "\<forall>q ua. bs_user b q = Some ua \<longrightarrow> bs_nick b ua = Some q" by (intro allI impI) (rule assms(2))
  show "\<forall>ca k ma. member b X ca k ma \<longrightarrow> ma \<notin> set P \<and>
      (\<exists>ua. bs_who b ma = Some ua \<and> bs_nick b ua \<noteq> None \<and>
         (ua \<in> ran (bs_user b) \<and> r \<noteq> Some ua \<longrightarrow> bs_nick b ua = Some k))"
    by (intro allI impI) (rule conjI [OF assms(3,4)])
  show "\<forall>ca k ca' k' ma. member b X ca k ma \<longrightarrow> member b X ca' k' ma \<longrightarrow> ca = ca' \<and> k = k'"
    by (intro allI impI) (rule assms(5))
  show "\<forall>ma\<in>set P. \<exists>ua. bs_who b ma = Some ua \<and> bs_nick b ua \<noteq> None" by (intro ballI) (rule assms(8))
  show "\<forall>ua. bs_nick b ua \<noteq> None \<longrightarrow> card (slots b X ua) + pending b P ua \<le> bs_refs b ua"
    by (intro allI impI) (rule assms(9))
qed (fact assms(6,7))+

lemma base_member:
  assumes "base_ok r X P b" "member b X ca k ma"
  shows "\<exists>ua. bs_who b ma = Some ua \<and> bs_nick b ua \<noteq> None \<and>
     (ua \<in> ran (bs_user b) \<and> r \<noteq> Some ua \<longrightarrow> bs_nick b ua = Some k)"
  using assms unfolding base_ok_def by blast

lemma finite_slots: "base_ok r X P b \<Longrightarrow> finite (slots b X ua)"
  by (rule finite_subset [OF _ base_finite]) (auto simp: slots_def)

lemma slots_0:
  assumes "base_ok r X P b" "bs_nick b ua \<noteq> None" "bs_refs b ua = 0"
  shows "slots b X ua = {}" "pending b P ua = 0"
  using base_load [OF assms(1,2)] assms(3) finite_slots [OF assms(1), of ua] by auto

section \<open>Steps\<close>

text \<open>The invariant reads the places of members only through \<^const>\<open>member\<close>.\<close>

lemma base_ok_cong:
  assumes "base_ok r X P b"
    and "\<And>q ca. bs_chan b' q = Some ca \<Longrightarrow> bs_name b' ca = Some q"
    and "member b' X' = member b X"
    and "bs_user b' = bs_user b" "bs_who b' = bs_who b" "bs_nick b' = bs_nick b" "bs_refs b' = bs_refs b"
  shows "base_ok r X' P b'"
proof -
  have "slots b' X' = slots b X" "pending b' P = pending b P"
    using assms(3-) by (simp_all add: slots_def pending_def fun_eq_iff)
  then show ?thesis
    using assms(2) base_okD [OF assms(1)] base_member [OF assms(1)]
    by (intro base_okI) (simp_all add: assms(3-))
qed

text \<open>A membership is taken from its place and waits for its release.\<close>

lemma base_pend:
  assumes ok: "base_ok r X P b" and m: "member b X ca k ma"
  shows "base_ok r (insert (ca, k) X) (ma # P) b"
proof -
  have mem: "member b (insert (ca, k) X) c q a \<longleftrightarrow> member b X c q a \<and> (c, q) \<noteq> (ca, k)" for c q a
    by (auto simp: member_def)
  have other: "member b (insert (ca, k) X) c q a \<Longrightarrow> a \<noteq> ma" for c q a
    using base_member_inj [OF ok m, of c q] by (simp add: mem) blast
  have sl: "slots b (insert (ca, k) X) ua = slots b X ua - {(ca, k)}" for ua
    by (auto simp: slots_def mem)
  obtain ua where ua: "bs_who b ma = Some ua" "bs_nick b ua \<noteq> None" using base_member_who [OF ok m] by blast
  have cd: "card (slots b (insert (ca, k) X) u) + pending b (ma # P) u = card (slots b X u) + pending b P u" for u
  proof (cases "u = ua")
    case True
    then have "(ca, k) \<in> slots b X u" using m ua by (auto simp: slots_def)
    then have "card (slots b X u) = Suc (card (slots b X u - {(ca, k)}))"
      by (rule card.remove [OF finite_slots [OF ok]])
    with True ua show ?thesis by (simp add: sl pending_def)
  next
    case False
    then have "(ca, k) \<notin> slots b X u" using m ua by (auto simp: slots_def member_def)
    with False ua show ?thesis by (simp add: sl pending_def)
  qed
  have fin: "finite {(c, q). \<exists>a. member b (insert (ca, k) X) c q a}"
    by (rule finite_subset [OF _ base_finite [OF ok]]) (auto simp: mem)
  show ?thesis
  proof (rule base_okI)
    fix c q a assume a: "member b (insert (ca, k) X) c q a"
    then have a': "member b X c q a" by (simp add: mem)
    show "a \<notin> set (ma # P)" using base_member_P [OF ok a'] other [OF a] by simp
    show "\<exists>u. bs_who b a = Some u \<and> bs_nick b u \<noteq> None \<and>
        (u \<in> ran (bs_user b) \<and> r \<noteq> Some u \<longrightarrow> bs_nick b u = Some q)"
      by (rule base_member [OF ok a'])
  next
    fix a assume "a \<in> set (ma # P)"
    then show "\<exists>u. bs_who b a = Some u \<and> bs_nick b u \<noteq> None" using ua base_pending [OF ok] by auto
  next
    fix c q c' q' a
    assume "member b (insert (ca, k) X) c q a" "member b (insert (ca, k) X) c' q' a"
    then show "c = c' \<and> q = q'" using base_member_inj [OF ok, of c q a c' q'] by (simp add: mem)
  next
    show "distinct (ma # P)" using base_distinct [OF ok] base_member_P [OF ok m] by simp
  next
    fix u assume "bs_nick b u \<noteq> None"
    then show "card (slots b (insert (ca, k) X) u) + pending b (ma # P) u \<le> bs_refs b u"
      using base_load [OF ok] cd by simp
  qed (use fin base_chan [OF ok] base_user [OF ok] in simp_all)
qed

text \<open>All memberships of a channel are.\<close>

lemma base_pend_all:
  assumes "base_ok r X P b" "distinct (map fst es)"
    and "\<And>k ma. (k, ma) \<in> set es \<Longrightarrow> member b X ca k ma"
  shows "base_ok r (Pair ca ` set (map fst es) \<union> X) (map snd es @ P) b"
  using assms(2,3)
proof (induction es)
  case Nil
  then show ?case using assms(1) by simp
next
  case (Cons e es)
  obtain k ma where e: "e = (k, ma)" by fastforce
  have ih: "base_ok r (Pair ca ` set (map fst es) \<union> X) (map snd es @ P) b" using Cons by simp
  have "member b (Pair ca ` set (map fst es) \<union> X) ca k ma"
    using Cons.prems e by (auto simp: member_def)
  from base_pend [OF ih this] e show ?case by simp
qed

text \<open>A waiting membership is released: the object goes and the user's count drops.\<close>

lemma base_release:
  assumes ok: "base_ok r X (ma # P) b" and w: "bs_who b ma = Some ua"
  shows "base_ok r X P (b\<lparr>bs_who := (bs_who b)(ma := None), bs_refs := (bs_refs b)(ua := bs_refs b ua - 1)\<rparr>)"
    "0 < bs_refs b ua"
proof -
  let ?b = "b\<lparr>bs_who := (bs_who b)(ma := None), bs_refs := (bs_refs b)(ua := bs_refs b ua - 1)\<rparr>"
  have n: "ma \<notin> set P" "distinct P" using base_distinct [OF ok] by auto
  have ne: "member b X c q a \<Longrightarrow> a \<noteq> ma" for c q a using base_member_P [OF ok] by auto
  have sl: "slots (b\<lparr>bs_who := (bs_who b)(ma := None)\<rparr>) X u = slots b X u" for u
    using ne by (auto simp: slots_def)
  have fl: "filter (\<lambda>a. bs_who ?b a = Some u) P = filter (\<lambda>a. bs_who b a = Some u) P" for u
    using n(1) by (intro filter_cong) auto
  have pe: "pending b (ma # P) u = pending ?b P u + (if u = ua then 1 else 0)" for u
    unfolding pending_def fl using w by simp
  have ld: "bs_nick b u \<noteq> None \<Longrightarrow> card (slots b X u) + pending ?b P u + (if u = ua then 1 else 0) \<le> bs_refs b u" for u
    using base_load [OF ok, of u] by (simp add: pe)
  have al: "bs_nick b ua \<noteq> None" using base_pending [OF ok, of ma] w by auto
  show "0 < bs_refs b ua" using ld [OF al] by simp
  have "bs_nick b u \<noteq> None \<Longrightarrow> card (slots ?b X u) + pending ?b P u \<le> bs_refs ?b u" for u
    using ld [of u] by (simp add: sl split: if_splits)
  moreover have "\<exists>u. bs_who ?b m = Some u \<and> bs_nick ?b u \<noteq> None" if "m \<in> set P" for m
    using base_pending [OF ok, of m] n that by auto
  moreover have "\<exists>u. bs_who ?b m = Some u \<and> bs_nick ?b u \<noteq> None \<and>
      (u \<in> ran (bs_user ?b) \<and> r \<noteq> Some u \<longrightarrow> bs_nick ?b u = Some k)" if "member b X c k m" for c k m
    using base_member [OF ok that] ne [OF that] by simp
  moreover have "m \<notin> set P" if "member b X c k m" for c k m using base_member_P [OF ok that] by simp
  ultimately show "base_ok r X P ?b"
  proof (intro base_okI)
    fix q c assume "bs_chan ?b q = Some c"
    then show "bs_name ?b c = Some q" using base_chan [OF ok] by simp
  next
    fix q u assume "bs_user ?b q = Some u"
    then show "bs_nick ?b u = Some q" using base_user [OF ok] by simp
  qed (use base_member_inj [OF ok] base_finite [OF ok] n(2) in simp_all)
qed

text \<open>A user may always disappear from the list; without memberships the object may go, too.\<close>

lemma base_unlist:
  assumes "base_ok r X P b"
  shows "base_ok r X P (b\<lparr>bs_user := (bs_user b)(q := None)\<rparr>)"
proof -
  let ?b = "b\<lparr>bs_user := (bs_user b)(q := None)\<rparr>"
  have sub: "u \<in> ran ((bs_user b)(q := None)) \<Longrightarrow> u \<in> ran (bs_user b)" for u
    by (auto simp: ran_def split: if_splits)
  show ?thesis
  proof (rule base_okI)
    fix c k m assume "member ?b X c k m"
    then show "\<exists>u. bs_who ?b m = Some u \<and> bs_nick ?b u \<noteq> None \<and>
        (u \<in> ran (bs_user ?b) \<and> r \<noteq> Some u \<longrightarrow> bs_nick ?b u = Some k)"
      using base_member [OF assms, of c k m] sub by auto
  qed (use base_okD [OF assms] in \<open>simp_all split: if_splits\<close>)
qed

lemma base_free:
  assumes ok: "base_ok r X P b" and "slots b X ua = {}" "pending b P ua = 0" "ua \<notin> ran (bs_user b)"
  shows "base_ok r X P (b\<lparr>bs_nick := (bs_nick b)(ua := None), bs_refs := (bs_refs b)(ua := 0)\<rparr>)"
proof -
  let ?b = "b\<lparr>bs_nick := (bs_nick b)(ua := None), bs_refs := (bs_refs b)(ua := 0)\<rparr>"
  have m: "member b X c k m \<Longrightarrow> bs_who b m \<noteq> Some ua" for c k m using assms(2) by (auto simp: slots_def)
  have p: "m \<in> set P \<Longrightarrow> bs_who b m \<noteq> Some ua" for m using assms(3) by (auto simp: pending_def filter_empty_conv)
  have l: "bs_user b q \<noteq> Some ua" for q using assms(4) by (auto simp: ran_def)
  show ?thesis
  proof (rule base_okI)
    fix c k a assume "member ?b X c k a"
    then show "\<exists>u. bs_who ?b a = Some u \<and> bs_nick ?b u \<noteq> None \<and>
        (u \<in> ran (bs_user ?b) \<and> r \<noteq> Some u \<longrightarrow> bs_nick ?b u = Some k)"
      using base_member [OF ok, of c k a] m [of c k a] by auto
  next
    fix a assume "a \<in> set P"
    then show "\<exists>u. bs_who ?b a = Some u \<and> bs_nick ?b u \<noteq> None"
      using base_pending [OF ok, of a] p [of a] by auto
  next
    fix q u assume "bs_user ?b q = Some u"
    then show "bs_nick ?b u = Some q" using base_user [OF ok] l by auto
  qed (use base_okD [OF ok] in \<open>simp_all split: if_splits\<close>)
qed

text \<open>Adding a user, a membership, a channel: the object is new.\<close>

lemma base_add_user:
  assumes ok: "base_ok r X P b" and new: "bs_nick b a = None" and r: "r \<noteq> Some a"
  shows "base_ok r X P (b\<lparr>bs_user := (bs_user b)(q \<mapsto> a), bs_nick := (bs_nick b)(a \<mapsto> q), bs_refs := (bs_refs b)(a := 0)\<rparr>)"
    (is "base_ok r X P ?b")
proof -
  have m: "member b X c k ma \<Longrightarrow> bs_who b ma \<noteq> Some a" for c k ma using base_member_who [OF ok, of c k ma] new by auto
  have p: "ma \<in> set P \<Longrightarrow> bs_who b ma \<noteq> Some a" for ma using base_pending [OF ok, of ma] new by auto
  have l: "bs_user b k \<noteq> Some a" for k using base_user [OF ok, of k a] new by auto
  have sub: "u \<in> ran ((bs_user b)(q \<mapsto> a)) \<Longrightarrow> u = a \<or> u \<in> ran (bs_user b)" for u
    by (auto simp: ran_def split: if_splits)
  have s: "slots b X a = {}" "pending b P a = 0"
    using m p by (auto simp: slots_def pending_def filter_empty_conv)
  show ?thesis
  proof (rule base_okI)
    fix c k ma assume "member ?b X c k ma"
    then show "\<exists>u. bs_who ?b ma = Some u \<and> bs_nick ?b u \<noteq> None \<and>
        (u \<in> ran (bs_user ?b) \<and> r \<noteq> Some u \<longrightarrow> bs_nick ?b u = Some k)"
    proof -
      have mm: "member b X c k ma" using \<open>member ?b X c k ma\<close> by simp
      obtain u where u: "bs_who b ma = Some u" "bs_nick b u \<noteq> None"
        "u \<in> ran (bs_user b) \<and> r \<noteq> Some u \<longrightarrow> bs_nick b u = Some k" using base_member [OF ok mm] by blast
      then have "u \<noteq> a" using m [OF mm] by auto
      with u sub [of u] show ?thesis by (intro exI [of _ u]) auto
    qed
  next
    fix ma assume "ma \<in> set P"
    then show "\<exists>u. bs_who ?b ma = Some u \<and> bs_nick ?b u \<noteq> None"
      using base_pending [OF ok, of ma] p [of ma] by auto
  next
    fix k u assume "bs_user ?b k = Some u"
    then show "bs_nick ?b u = Some k" using base_user [OF ok] l by (auto split: if_splits)
  next
    fix u assume "bs_nick ?b u \<noteq> None"
    then show "card (slots ?b X u) + pending ?b P u \<le> bs_refs ?b u"
      using base_load [OF ok, of u] s by (auto split: if_splits)
  qed (use base_okD [OF ok] in simp_all)
qed

lemma base_add_memb:
  assumes ok: "base_ok None {} [] b" and ca: "ca \<in> ran (bs_chan b)" and new: "bs_who b ma = None"
    and ua: "bs_nick b ua = Some k"
  shows "base_ok None {} [] (b\<lparr>bs_memb := (bs_memb b)(ca := (bs_memb b ca)(k \<mapsto> ma)),
    bs_who := (bs_who b)(ma \<mapsto> ua), bs_refs := (bs_refs b)(ua := bs_refs b ua + 1)\<rparr>)"
    (is "base_ok None {} [] ?b")
proof -
  have mem: "member ?b {} c q a \<longleftrightarrow> (if (c, q) = (ca, k) then a = ma else member b {} c q a)" for c q a
    using ca by (auto simp: member_def)
  have ne: "member b {} c q a \<Longrightarrow> a \<noteq> ma" for c q a using base_member_who [OF ok] new by fastforce
  have sl: "slots ?b {} u \<subseteq> slots b {} u \<union> (if u = ua then {(ca, k)} else {})" for u
    unfolding slots_def mem using ne by (auto split: if_splits)
  have cd: "card (slots ?b {} u) \<le> card (slots b {} u) + (if u = ua then 1 else 0)" for u
  proof -
    have "card (slots ?b {} u) \<le> card (slots b {} u \<union> (if u = ua then {(ca, k)} else {}))"
      using finite_slots [OF ok, of u] by (intro card_mono [OF _ sl]) auto
    also have "\<dots> \<le> card (slots b {} u) + card (if u = ua then {(ca, k)} else {})" by (rule card_Un_le)
    finally show ?thesis by (simp split: if_splits)
  qed
  show ?thesis
  proof (rule base_okI)
    fix c q a assume "member ?b {} c q a"
    then show "\<exists>u. bs_who ?b a = Some u \<and> bs_nick ?b u \<noteq> None \<and>
        (u \<in> ran (bs_user ?b) \<and> None \<noteq> Some u \<longrightarrow> bs_nick ?b u = Some q)"
      unfolding mem using base_member [OF ok, of c q a] ne [of c q a] ua by (auto split: if_splits)
  next
    fix c q c' q' a assume "member ?b {} c q a" "member ?b {} c' q' a"
    then show "c = c' \<and> q = q'"
      unfolding mem using base_member_inj [OF ok, of c q a c' q'] ne by (auto split: if_splits)
  next
    have "finite (insert (ca, k) {(c, q). \<exists>a. member b {} c q a})" using base_finite [OF ok] by simp
    then show "finite {(c, q). \<exists>a. member ?b {} c q a}"
      unfolding mem by (rule rev_finite_subset) (auto split: if_splits)
  next
    fix u assume "bs_nick ?b u \<noteq> None"
    then show "card (slots ?b {} u) + pending ?b [] u \<le> bs_refs ?b u"
      using base_load [OF ok, of u] cd [of u] by (auto simp: pending_def split: if_splits)
  qed (use base_chan [OF ok] base_user [OF ok] in simp_all)
qed

text \<open>
  The list of members of a place changes: as long as the new places hold only what was there,
  the invariant stays.
\<close>

lemma base_shrink:
  assumes ok: "base_ok r X [] b"
    and chan: "\<And>q ca. bs_chan b' q = Some ca \<Longrightarrow> bs_name b' ca = Some q"
    and sub: "\<And>ca k ma. member b' X' ca k ma \<Longrightarrow> member b X ca k ma"
    and eq: "bs_user b' = bs_user b" "bs_who b' = bs_who b" "bs_nick b' = bs_nick b" "bs_refs b' = bs_refs b"
  shows "base_ok r X' [] b'"
proof (rule base_okI)
  fix c q a assume m: "member b' X' c q a"
  show "\<exists>u. bs_who b' a = Some u \<and> bs_nick b' u \<noteq> None \<and>
      (u \<in> ran (bs_user b') \<and> r \<noteq> Some u \<longrightarrow> bs_nick b' u = Some q)"
    unfolding eq by (rule base_member [OF ok sub [OF m]])
next
  fix c q c' q' a assume "member b' X' c q a" "member b' X' c' q' a"
  then show "c = c' \<and> q = q'" using base_member_inj [OF ok] sub by blast
next
  show "finite {(c, q). \<exists>a. member b' X' c q a}"
    by (rule finite_subset [OF _ base_finite [OF ok]]) (auto dest: sub)
next
  fix u assume "bs_nick b' u \<noteq> None"
  moreover have "card (slots b' X' u) \<le> card (slots b X u)"
    by (rule card_mono [OF finite_slots [OF ok]]) (auto simp: slots_def eq dest: sub)
  ultimately show "card (slots b' X' u) + pending b' [] u \<le> bs_refs b' u"
    using base_load [OF ok, of u] by (simp add: eq pending_def)
qed (use chan base_user [OF ok] in \<open>simp_all add: eq\<close>)

lemma base_add_chan:
  assumes ok: "base_ok r {} [] b" and new: "bs_name b a = None"
  shows "base_ok r {} [] (b\<lparr>bs_chan := (bs_chan b)(q \<mapsto> a), bs_name := (bs_name b)(a \<mapsto> q),
    bs_memb := (bs_memb b)(a := Map.empty)\<rparr>)"
proof (rule base_shrink [OF ok])
  fix c k ma
  assume "member (b\<lparr>bs_chan := (bs_chan b)(q \<mapsto> a), bs_name := (bs_name b)(a \<mapsto> q),
    bs_memb := (bs_memb b)(a := Map.empty)\<rparr>) {} c k ma"
  then show "member b {} c k ma" by (auto simp: member_def ran_def split: if_splits)
qed (use base_chan [OF ok] new in \<open>auto split: if_splits\<close>)

text \<open>A membership leaves its place, all memberships of a channel do, a channel disappears.\<close>

lemma base_detach:
  assumes ok: "base_ok r {} P b" and m: "ca \<in> ran (bs_chan b)" "bs_memb b ca k = Some ma"
  shows "base_ok r {} (ma # P) (b\<lparr>bs_memb := (bs_memb b)(ca := (bs_memb b ca)(k := None))\<rparr>)"
proof (rule base_ok_cong [OF base_pend [OF ok]])
  show "member b {} ca k ma" using m by (simp add: member_def)
qed (use base_chan [OF ok] in \<open>auto simp: member_def fun_eq_iff\<close>)

lemma base_clear:
  assumes "base_ok r (Pair ca ` S) P b" "dom (bs_memb b ca) \<subseteq> S"
  shows "base_ok r {} P (b\<lparr>bs_memb := (bs_memb b)(ca := Map.empty)\<rparr>)"
  by (rule base_ok_cong [OF assms(1)]) (use base_chan [OF assms(1)] assms(2) in \<open>auto simp: member_def fun_eq_iff\<close>)

lemma base_unlist_chan:
  assumes ok: "base_ok r (Pair ca ` S) P b" and "dom (bs_memb b ca) \<subseteq> S" "bs_chan b q = Some ca"
  shows "base_ok r {} P (b\<lparr>bs_chan := (bs_chan b)(q := None)\<rparr>)" (is "base_ok r {} P ?b")
proof (rule base_ok_cong [OF ok])
  have "c \<in> ran ((bs_chan b)(q := None)) \<longleftrightarrow> c \<in> ran (bs_chan b) \<and> c \<noteq> ca" for c
  proof -
    have "bs_chan b p = Some ca \<Longrightarrow> p = q" for p
      using base_chan [OF ok, of p ca] base_chan [OF ok assms(3)] by simp
    then show ?thesis
      unfolding ran_def mem_Collect_eq fun_upd_apply using assms(3) by (metis option.distinct(1) option.inject)
  qed
  then show "member ?b {} = member b (Pair ca ` S)"
    using assms(2) by (auto simp: member_def fun_eq_iff)
qed (use base_chan [OF ok] in \<open>auto split: if_splits\<close>)

lemma base_forget_chan:
  assumes ok: "base_ok r X P b" and "ca \<notin> ran (bs_chan b)"
  shows "base_ok r X P (b\<lparr>bs_name := (bs_name b)(ca := None), bs_memb := (bs_memb b)(ca := s)\<rparr>)"
proof (rule base_ok_cong [OF ok])
  have "bs_chan b q \<noteq> Some ca" for q using assms(2) by (auto simp: ran_def)
  then show "bs_name (b\<lparr>bs_name := (bs_name b)(ca := None), bs_memb := (bs_memb b)(ca := s)\<rparr>) c = Some q"
    if "bs_chan (b\<lparr>bs_name := (bs_name b)(ca := None), bs_memb := (bs_memb b)(ca := s)\<rparr>) q = Some c" for q c
    using base_chan [OF ok] that by auto
qed (use assms(2) in \<open>auto simp: member_def fun_eq_iff\<close>)

text \<open>The release of a membership as the code does it: the last one takes the user along.\<close>

definition bs_unref :: "bool \<Rightarrow> addr \<Rightarrow> addr \<Rightarrow> base \<Rightarrow> base" where
  "bs_unref purge ma ua b =
     (let b1 = b\<lparr>bs_who := (bs_who b)(ma := None), bs_refs := (bs_refs b)(ua := bs_refs b ua - 1)\<rparr> in
      if bs_refs b1 ua = 0 \<and> purge
      then b1\<lparr>bs_user := (bs_user b1)(the (bs_nick b1 ua) := None), bs_nick := (bs_nick b1)(ua := None),
              bs_refs := (bs_refs b1)(ua := 0)\<rparr>
      else b1)"

lemma base_unref:
  assumes ok: "base_ok r X (ma # P) b" and w: "bs_who b ma = Some ua"
  shows "base_ok r X P (bs_unref purge ma ua b)"
proof -
  let ?b1 = "b\<lparr>bs_who := (bs_who b)(ma := None), bs_refs := (bs_refs b)(ua := bs_refs b ua - 1)\<rparr>"
  let ?b2 = "?b1\<lparr>bs_user := (bs_user ?b1)(the (bs_nick ?b1 ua) := None)\<rparr>"
  have ok1: "base_ok r X P ?b1" by (rule base_release(1) [OF ok w])
  have ok2: "base_ok r X P ?b2" by (rule base_unlist [OF ok1])
  have al: "bs_nick ?b2 ua \<noteq> None" using base_pending [OF ok, of ma] w by auto
  have un: "ua \<notin> ran (bs_user ?b2)" using base_user [OF ok1] by (auto simp: ran_def)
  show ?thesis
  proof (cases "bs_refs ?b1 ua = 0 \<and> purge")
    case True
    then have "bs_refs ?b2 ua = 0" by simp
    from base_free [OF ok2 slots_0 [OF ok2 al this] un] True show ?thesis by (simp add: bs_unref_def Let_def)
  next
    case False
    with ok1 show ?thesis by (simp only: bs_unref_def Let_def if_False)
  qed
qed

section \<open>Renaming\<close>

lemma base_rename_start:
  assumes ok: "base_ok None {} [] b" and u: "bs_user b oldk = Some ua"
  shows "base_ok (Some ua) {} [] (b\<lparr>bs_nick := (bs_nick b)(ua \<mapsto> newk),
    bs_user := ((bs_user b)(newk \<mapsto> ua))(oldk := None)\<rparr>)" (is "base_ok _ _ _ ?b")
proof (rule base_okI)
  fix q v assume q: "bs_user ?b q = Some v"
  show "bs_nick ?b v = Some q"
  proof (cases "v = ua")
    case True
    then have "q = newk" using q base_user [OF ok, of q ua] base_user [OF ok u] by (auto split: if_splits)
    with True show ?thesis by simp
  next
    case False
    with q base_user [OF ok, of q v] show ?thesis by (auto split: if_splits)
  qed
next
  fix c k ma assume "member ?b {} c k ma"
  then have m: "member b {} c k ma" by simp
  obtain v where v: "bs_who b ma = Some v" "bs_nick b v \<noteq> None" "v \<in> ran (bs_user b) \<longrightarrow> bs_nick b v = Some k"
    using base_member [OF ok m] by auto
  have sub: "v \<in> ran (((bs_user b)(newk \<mapsto> ua))(oldk := None)) \<Longrightarrow> v = ua \<or> v \<in> ran (bs_user b)"
    by (auto simp: ran_def split: if_splits)
  show "\<exists>v. bs_who ?b ma = Some v \<and> bs_nick ?b v \<noteq> None \<and>
      (v \<in> ran (bs_user ?b) \<and> Some ua \<noteq> Some v \<longrightarrow> bs_nick ?b v = Some k)"
    using v sub by (intro exI [of _ v]) auto
next
  fix v assume "bs_nick ?b v \<noteq> None"
  then show "card (slots ?b {} v) + pending ?b [] v \<le> bs_refs ?b v"
    using base_load [OF ok, of v] base_user [OF ok u] by (auto split: if_splits)
qed (use base_okD [OF ok] in simp_all)

lemma base_rekey:
  assumes ok: "base_ok (Some ua) {} [] b" and un: "bs_user b oldk = None"
    and ca: "ca \<in> ran (bs_chan b)" and ma: "bs_memb b ca oldk = Some ma"
  shows "base_ok (Some ua) {} [] (b\<lparr>bs_memb := (bs_memb b)(ca := ((bs_memb b ca)(newk \<mapsto> ma))(oldk := None))\<rparr>)"
    (is "base_ok _ _ _ ?b")
proof -
  have m0: "member b {} ca oldk ma" using ca ma by (simp add: member_def)
  obtain v where v: "bs_who b ma = Some v" "bs_nick b v \<noteq> None"
    "v \<in> ran (bs_user b) \<and> Some ua \<noteq> Some v \<longrightarrow> bs_nick b v = Some oldk"
    using base_member [OF ok m0] by blast
  have unl: "v \<noteq> ua \<Longrightarrow> v \<notin> ran (bs_user b)"
    using v(3) un base_user [OF ok, of _ v] by (auto simp: ran_def)
  have mem: "member ?b {} c q a \<longleftrightarrow>
      (if (c, q) = (ca, oldk) then False else if (c, q) = (ca, newk) then a = ma else member b {} c q a)" for c q a
    using ca by (auto simp: member_def)
  have ne: "member b {} c q a \<Longrightarrow> (c, q) \<noteq> (ca, oldk) \<Longrightarrow> a \<noteq> ma" for c q a
    using base_member_inj [OF ok m0, of c q] by auto
  have sl: "slots ?b {} u \<subseteq> (if u = v then insert (ca, newk) (slots b {} u - {(ca, oldk)}) else slots b {} u)" for u
    unfolding slots_def mem using v(1) by (auto split: if_splits)
  have in_v: "(ca, oldk) \<in> slots b {} v" using m0 v by (auto simp: slots_def)
  have cd: "card (slots ?b {} u) \<le> card (slots b {} u)" for u
  proof (cases "u = v")
    case True
    have "card (slots ?b {} u) \<le> card (insert (ca, newk) (slots b {} v - {(ca, oldk)}))"
      using sl [of u] True finite_slots [OF ok] by (intro card_mono) auto
    also have "\<dots> \<le> Suc (card (slots b {} v - {(ca, oldk)}))" by (rule card_insert_le_m1) simp_all
    also have "\<dots> = card (slots b {} v)" by (rule card.remove [OF finite_slots [OF ok] in_v, symmetric])
    finally show ?thesis by (simp only: True)
  next
    case False
    then show ?thesis using sl [of u] finite_slots [OF ok] by (intro card_mono) auto
  qed
  show ?thesis
  proof (rule base_okI)
    fix c q a assume a: "member ?b {} c q a"
    show "\<exists>u. bs_who ?b a = Some u \<and> bs_nick ?b u \<noteq> None \<and>
        (u \<in> ran (bs_user ?b) \<and> Some ua \<noteq> Some u \<longrightarrow> bs_nick ?b u = Some q)"
    proof (cases "a = ma")
      case True
      with v unl show ?thesis by (intro exI [of _ v]) auto
    next
      case False
      with a have "member b {} c q a" unfolding mem by (auto split: if_splits)
      from base_member [OF ok this] show ?thesis by simp
    qed
  next
    fix c q c' q' a assume 2: "member ?b {} c q a" "member ?b {} c' q' a"
    show "c = c' \<and> q = q'"
    proof (cases "a = ma")
      case True
      have "(d, p) = (ca, newk)" if "member ?b {} d p ma" for d p
        using that ne [of d p ma] unfolding mem by (simp only: split: if_splits) blast+
      from this [of c q] this [of c' q'] 2 True show ?thesis by simp
    next
      case False
      have "member b {} d p a" if "member ?b {} d p a" for d p
        using that False unfolding mem by (simp only: split: if_splits)
      from base_member_inj [OF ok this [OF 2(1)] this [OF 2(2)]] show ?thesis .
    qed
  next
    have "finite (insert (ca, newk) {(c, q). \<exists>a. member b {} c q a})" using base_finite [OF ok] by simp
    then show "finite {(c, q). \<exists>a. member ?b {} c q a}"
      unfolding mem by (rule rev_finite_subset) (auto split: if_splits)
  next
    fix u assume "bs_nick ?b u \<noteq> None"
    then show "card (slots ?b {} u) + pending ?b [] u \<le> bs_refs ?b u"
      using base_load [OF ok, of u] cd [of u] by simp
  qed (use base_chan [OF ok] base_user [OF ok] in simp_all)
qed

lemma base_rename_done:
  assumes ok: "base_ok (Some ua) {} [] b"
    and "\<And>ca k ma. member b {} ca k ma \<Longrightarrow> bs_who b ma = Some ua \<Longrightarrow> bs_nick b ua = Some k"
  shows "base_ok None {} [] b"
proof (rule base_okI)
  fix c k ma assume m: "member b {} c k ma"
  show "\<exists>v. bs_who b ma = Some v \<and> bs_nick b v \<noteq> None \<and>
      (v \<in> ran (bs_user b) \<and> None \<noteq> Some v \<longrightarrow> bs_nick b v = Some k)"
  proof -
    obtain v where v: "bs_who b ma = Some v" "bs_nick b v \<noteq> None"
      "v \<in> ran (bs_user b) \<and> Some ua \<noteq> Some v \<longrightarrow> bs_nick b v = Some k" using base_member [OF ok m] by blast
    then show ?thesis using assms(2) [OF m] by (intro exI [of _ v]) auto
  qed
qed (use base_okD [OF ok] in simp_all)

end
