(* ===== verification/Ucloop.thy ===== *)
theory Ucloop
  imports Ucbase
begin

text \<open>
  The loops over a map that lives in the state.  The interface \<open>map_cursor\<close> is what such a
  loop needs of the two functions through which it reaches its map; the rule for the loop is
  proved once and used for the channels, the users and the members of a channel.
\<close>

section \<open>Iterators are not part of a map's contents\<close>

lemma bucklist_first_core: "lsi_bucklist_first b = (r, b') \<Longrightarrow> bl_core b' = bl_core b"
  by (auto simp: lsi_bucklist_first_def bl_core_def split: list.splits)

lemma bucklist_next_core: "lsi_bucklist_next b = Some (r, b') \<Longrightarrow> bl_core b' = bl_core b"
  by (auto simp: lsi_bucklist_next_def bl_core_def split: list.splits option.splits)

lemma enter_bucket_core:
  assumes "enter_bucket m bt = (r, m')"
  shows "sk_core m' = sk_core m"
proof (cases "bt = sk_bsz m")
  case True
  with assms show ?thesis by (auto simp: enter_bucket_def)
next
  case False
  show ?thesis
  proof (cases "sk_buck m bt")
    case None
    with assms False show ?thesis by (auto simp: enter_bucket_def)
  next
    case (Some b)
    obtain r1 b1 where f: "lsi_bucklist_first b = (r1, b1)" by fastforce
    have "sk_core (m\<lparr>sk_bit := bt, sk_buck := (sk_buck m)(bt := Some b1)\<rparr>) =
        sk_core (m\<lparr>sk_buck := (sk_buck m)(bt := Some b1)\<rparr>)" by (simp add: sk_core_def)
    also have "\<dots> = sk_core m" by (rule sk_core_bucket_upd [OF Some bucklist_first_core [OF f]])
    finally show ?thesis using assms False Some f by (auto simp: enter_bucket_def)
  qed
qed

lemma skmap_first_core: "lsi_skmap_first (Some m) = (r, h) \<Longrightarrow> \<exists>m'. h = Some m' \<and> sk_core m' = sk_core m"
  by (auto simp: lsi_skmap_first_def Let_def dest: enter_bucket_core split: prod.splits)

lemma skmap_next_core:
  assumes "lsi_skmap_next (Some m) = Some (r, h)"
  shows "\<exists>m'. h = Some m' \<and> sk_core m' = sk_core m"
proof (cases "sk_iterating m")
  case False
  with assms show ?thesis by (auto simp: lsi_skmap_next_def)
next
  case True
  then obtain b r1 b1 where b: "sk_buck m (sk_bit m) = Some b" "lsi_bucklist_next b = Some (r1, b1)"
    using assms by (auto simp: lsi_skmap_next_def)
  let ?m = "m\<lparr>sk_buck := (sk_buck m)(sk_bit m := Some b1)\<rparr>"
  have c: "sk_core ?m = sk_core m" by (rule sk_core_bucket_upd [OF b(1) bucklist_next_core [OF b(2)]])
  obtain r2 m2 where e: "enter_bucket ?m (skip_empty ?m (sk_bit m + 1)) = (r2, m2)" by fastforce
  show ?thesis
    using assms True b c e enter_bucket_core [OF e] by (cases r1) (auto simp: lsi_skmap_next_def Let_def)
qed

section \<open>The loop rule\<close>

locale map_cursor =
  fixes getm :: "'s \<Rightarrow> addr skmap option option"
    and setm :: "addr skmap option \<Rightarrow> 's \<Rightarrow> 's"
  assumes get_set: "getm s = Some (Some m0) \<Longrightarrow> getm (setm (Some m) s) = Some (Some m)"
begin

text \<open>
  The loop over the entries of a map whose body leaves the map alone: \<open>I vs s\<close> says what holds
  when the values \<open>vs\<close> are still to come, \<open>Q\<close> what holds when the body leaves the loop.
\<close>

lemma each_loop_rule:
  assumes "walk_next n (Some m1) = Some (map (\<lambda>(k, v). (k, Some v)) kvs, h2)"
    and "getm s = Some (Some m1)" "sk_core m1 = sk_core m" "I (v # map snd kvs) s"
    and stable: "\<And>vs s m1 m2. I vs s \<Longrightarrow> getm s = Some (Some m1) \<Longrightarrow> sk_core m1 = sk_core m \<Longrightarrow>
      sk_core m2 = sk_core m \<Longrightarrow> I vs (setm (Some m2) s)"
    and step: "\<And>v vs s m1. I (v # vs) s \<Longrightarrow> getm s = Some (Some m1) \<Longrightarrow> sk_core m1 = sk_core m \<Longrightarrow>
      \<exists>stop s'. body v s = Some (stop, s') \<and> getm s' = Some (Some m1) \<and> (if stop then Q s' else I vs s')"
  shows "\<exists>stop s' m'. each_loop n getm setm body (Some v) s = Some (stop, s') \<and> getm s' = Some (Some m') \<and>
     sk_core m' = sk_core m \<and> (if stop then Q s' else I [] s')"
  using assms(1-4)
proof (induction n arbitrary: m1 kvs v s)
  case 0
  then show ?case by simp
next
  case (Suc n)
  from step [OF Suc.prems(4,2,3)] obtain stop s1 where
    b: "body v s = Some (stop, s1)" "getm s1 = Some (Some m1)" "if stop then Q s1 else I (map snd kvs) s1" by blast
  show ?case
  proof (cases stop)
    case True
    with b Suc.prems(3) show ?thesis by auto
  next
    case False
    from Suc.prems(1) obtain r h where nx: "lsi_skmap_next (Some m1) = Some (r, h)" by auto
    then obtain m2 where m2: "h = Some m2" "sk_core m2 = sk_core m1" using skmap_next_core by blast
    have I2: "I (map snd kvs) (setm (Some m2) s1)"
      using stable [of "map snd kvs" s1 m1 m2] b False Suc.prems(3) m2 by simp
    have g2: "getm (setm (Some m2) s1) = Some (Some m2)" by (rule get_set [OF b(2)])
    show ?thesis
    proof (cases r)
      case None
      with Suc.prems(1) nx have "kvs = []" by auto
      with I2 g2 None False b nx m2 Suc.prems(3) show ?thesis by auto
    next
      case (Some kv)
      with Suc.prems(1) nx m2 obtain k v' kvs' where
        kvs: "kvs = (k, v') # kvs'" "kv = (k, Some v')"
          "walk_next n (Some m2) = Some (map (\<lambda>(k, v). (k, Some v)) kvs', h2)" by auto
      from Suc.IH [OF kvs(3) g2, of v'] I2 m2 Suc.prems(3) kvs(1)
      show ?thesis using False b nx m2 Some kvs(2) by auto
    qed
  qed
qed

lemma for_each_rule:
  assumes g: "getm s = Some (Some m)" and ok: "sk_ok cm m" and init: "I (map snd (sk_entries m)) s"
    and stable: "\<And>vs s m1 m2. I vs s \<Longrightarrow> getm s = Some (Some m1) \<Longrightarrow> sk_core m1 = sk_core m \<Longrightarrow>
      sk_core m2 = sk_core m \<Longrightarrow> I vs (setm (Some m2) s)"
    and step: "\<And>v vs s m1. I (v # vs) s \<Longrightarrow> getm s = Some (Some m1) \<Longrightarrow> sk_core m1 = sk_core m \<Longrightarrow>
      \<exists>stop s'. body v s = Some (stop, s') \<and> getm s' = Some (Some m1) \<and> (if stop then Q s' else I vs s')"
  obtains stop s' m' where "for_each getm setm body s = Some (stop, s')" "getm s' = Some (Some m')"
    "sk_core m' = sk_core m" "if stop then Q s' else I [] s'"
proof -
  obtain r h where f: "lsi_skmap_first (Some m) = (r, h)" by fastforce
  then obtain m1 where m1: "h = Some m1" "sk_core m1 = sk_core m" using skmap_first_core by blast
  obtain m' where w: "skmap_walk (Some m) = Some (map (\<lambda>(k, v). (k, Some v)) (sk_entries m), Some m')"
    using skmap_walk_total [OF ok] by blast
  have I1: "I (map snd (sk_entries m)) (setm (Some m1) s)" by (rule stable [OF init g refl m1(2)])
  have g1: "getm (setm (Some m1) s) = Some (Some m1)" by (rule get_set [OF g])
  show thesis
  proof (cases r)
    case None
    with w f have "sk_entries m = []" by (simp add: skmap_walk_def)
    with I1 g1 None f g m1 show ?thesis by (intro that [of False "setm (Some m1) s" m1]) (auto simp: for_each_def)
  next
    case (Some kv)
    with w f m1 obtain k v kvs where kvs: "sk_entries m = (k, v) # kvs" "kv = (k, Some v)"
      "walk_next (node_total m) (Some m1) = Some (map (\<lambda>(k, v). (k, Some v)) kvs, Some m')"
      by (auto simp: skmap_walk_def)
    have "\<exists>stop s' m'. each_loop (node_total m) getm setm body (Some v) (setm (Some m1) s) = Some (stop, s') \<and>
        getm s' = Some (Some m') \<and> sk_core m' = sk_core m \<and> (if stop then Q s' else I [] s')"
    proof (rule each_loop_rule [OF kvs(3) g1 m1(2)])
      show "I (v # map snd kvs) (setm (Some m1) s)" using kvs(1) I1 by simp
    qed (fact stable, fact step)
    then obtain stop s' m' where "each_loop (node_total m) getm setm body (Some v) (setm (Some m1) s) = Some (stop, s')"
      "getm s' = Some (Some m')" "sk_core m' = sk_core m" "if stop then Q s' else I [] s'" by blast
    then show ?thesis using Some f g m1 kvs(2) by (intro that [of stop s' m']) (auto simp: for_each_def)
  qed
qed

end

text \<open>The three maps of the state.\<close>

interpretation ch: map_cursor chans_of set_chans
  by unfold_locales (simp add: chans_of_def set_chans_def)

interpretation us: map_cursor "\<lambda>s. Some (users_of s)" set_users
  by unfold_locales (simp add: users_of_def set_users_def)

interpretation mb: map_cursor "memb_map ca" "set_memb_map ca"
  by unfold_locales (auto simp: memb_map_def set_memb_map_def put_chan_def chan_at_def)

end
