(* ===== verification/Ucinv.thy ===== *)
theory Ucinv
  imports Ucspec Ucloop
begin

text \<open>
  \<open>libsrsirc/ucbase.c\<close> implements the base of theory \<open>Ucspec\<close>: \<open>base_of\<close> reads the base off the
  maps and the heap, each operation does on the heap what a step of the base says, and so the
  invariant \<open>ucb_ok\<close> holds after every operation.  That an operation gives \<open>Some\<close> means that
  it touched no freed object.
\<close>

section \<open>Reading the state\<close>

definition cm_of :: "st \<Rightarrow> nat list" where
  "cm_of s = g_cmap (casemap_of s)"

definition next_of :: "st \<Rightarrow> addr" where
  "next_of s = hp_next (st_hp s)"

lemmas acc_defs = chans_of_def set_chans_def users_of_def set_users_def casemap_of_def user_at_def
  chan_at_def memb_at_def put_user_def put_chan_def put_memb_def orc_of_def set_orc_def free_tag_def
  memb_map_def next_of_def cm_of_def

lemma casemap_simps [simp]:
  "casemap_of (set_users x s) = casemap_of s" "casemap_of (set_chans x s) = casemap_of s"
  "casemap_of (put_user a u s) = casemap_of s" "casemap_of (put_chan a c s) = casemap_of s"
  "casemap_of (put_memb a m s) = casemap_of s" "casemap_of (set_orc orc s) = casemap_of s"
  "casemap_of (free_tag b t s) = casemap_of s" "casemap_of (set_memb_map ca h s) = casemap_of s"
  by (simp_all add: acc_defs set_memb_map_def split: option.split)

lemma cm_simps [simp]:
  "cm_of (set_users x s) = cm_of s" "cm_of (set_chans x s) = cm_of s"
  "cm_of (put_user a u s) = cm_of s" "cm_of (put_chan a c s) = cm_of s"
  "cm_of (put_memb a m s) = cm_of s" "cm_of (set_orc orc s) = cm_of s"
  "cm_of (free_tag b t s) = cm_of s" "cm_of (set_memb_map ca h s) = cm_of s"
  by (simp_all add: cm_of_def)

lemma users_simps [simp]:
  "users_of (set_users x s) = x" "users_of (set_chans y s) = users_of s"
  "users_of (put_user a u s) = users_of s" "users_of (put_chan a c s) = users_of s"
  "users_of (put_memb a m s) = users_of s" "users_of (set_orc orc s) = users_of s"
  "users_of (free_tag b t s) = users_of s" "users_of (set_memb_map ca h s) = users_of s"
  by (simp_all add: acc_defs set_memb_map_def split: option.split)

lemma chans_simps [simp]:
  "chans_of (set_users x s) = chans_of s" "chans_of (set_chans y s) = Some y"
  "chans_of (put_user a u s) = chans_of s" "chans_of (put_chan a c s) = chans_of s"
  "chans_of (put_memb a m s) = chans_of s" "chans_of (set_orc orc s) = chans_of s"
  "chans_of (free_tag b t s) = chans_of s" "chans_of (set_memb_map ca h s) = chans_of s"
  by (simp_all add: acc_defs set_memb_map_def split: option.split)

lemma user_at_simps [simp]:
  "user_at x (set_users us s) = user_at x s" "user_at x (set_chans cs s) = user_at x s"
  "user_at x (put_user a u s) = (if x = a then u else user_at x s)" "user_at x (put_chan a c s) = user_at x s"
  "user_at x (put_memb a m s) = user_at x s" "user_at x (set_orc orc s) = user_at x s"
  "user_at x (free_tag b t s) = user_at x s" "user_at x (set_memb_map ca h s) = user_at x s"
  by (simp_all add: acc_defs set_memb_map_def split: option.split)

lemma chan_at_simps [simp]:
  "chan_at x (set_users us s) = chan_at x s" "chan_at x (set_chans cs s) = chan_at x s"
  "chan_at x (put_user a u s) = chan_at x s" "chan_at x (put_chan a c s) = (if x = a then c else chan_at x s)"
  "chan_at x (put_memb a m s) = chan_at x s" "chan_at x (set_orc orc s) = chan_at x s"
  "chan_at x (free_tag b t s) = chan_at x s"
  "chan_at x (set_memb_map ca h s) =
     (if x = ca then map_option (\<lambda>c. c\<lparr>ch_memb := h\<rparr>) (chan_at ca s) else chan_at x s)"
  by (simp_all add: acc_defs set_memb_map_def split: option.split)

lemma memb_at_simps [simp]:
  "memb_at x (set_users us s) = memb_at x s" "memb_at x (set_chans cs s) = memb_at x s"
  "memb_at x (put_user a u s) = memb_at x s" "memb_at x (put_chan a c s) = memb_at x s"
  "memb_at x (put_memb a m s) = (if x = a then m else memb_at x s)" "memb_at x (set_orc orc s) = memb_at x s"
  "memb_at x (free_tag b t s) = memb_at x s" "memb_at x (set_memb_map ca h s) = memb_at x s"
  by (simp_all add: acc_defs set_memb_map_def split: option.split)

lemma next_simps [simp]:
  "next_of (set_users us s) = next_of s" "next_of (set_chans cs s) = next_of s"
  "next_of (put_user a u s) = next_of s" "next_of (put_chan a c s) = next_of s"
  "next_of (put_memb a m s) = next_of s" "next_of (set_orc orc s) = next_of s"
  "next_of (free_tag b t s) = next_of s" "next_of (set_memb_map ca h s) = next_of s"
  by (simp_all add: acc_defs set_memb_map_def split: option.split)

lemma orc_simps [simp]:
  "orc_of (set_users us s) = orc_of s" "orc_of (set_chans cs s) = orc_of s"
  "orc_of (put_user a u s) = orc_of s" "orc_of (put_chan a c s) = orc_of s"
  "orc_of (put_memb a m s) = orc_of s" "orc_of (set_orc orc s) = orc"
  "orc_of (free_tag b t s) = orc_of s" "orc_of (set_memb_map ca h s) = orc_of s"
  by (simp_all add: acc_defs set_memb_map_def split: option.split)

text \<open>What the server said about modes (numeric 005); the tracking code only reads it.\<close>

definition pfx_of :: "st \<Rightarrow> string \<times> string" where
  "pfx_of s = ic_m005modepfx (st_irc s)"

definition cls_of :: "st \<Rightarrow> char \<Rightarrow> nat" where
  "cls_of s = lsi_ut_classify_chanmode (st_irc s)"

lemma modes_upd:
  assumes "ic_m005modepfx (st_irc s') = ic_m005modepfx (st_irc s)" "ic_m005chanmodes (st_irc s') = ic_m005chanmodes (st_irc s)"
  shows "pfx_of s' = pfx_of s" "cls_of s' = cls_of s"
  using assms by (simp_all add: pfx_of_def cls_of_def lsi_ut_classify_chanmode_def fun_eq_iff)

lemma modes_simps [simp]:
  "pfx_of (set_users us s) = pfx_of s" "pfx_of (set_chans cs s) = pfx_of s"
  "pfx_of (put_user a u s) = pfx_of s" "pfx_of (put_chan a c s) = pfx_of s"
  "pfx_of (put_memb a m s) = pfx_of s" "pfx_of (set_orc orc s) = pfx_of s"
  "pfx_of (free_tag b t s) = pfx_of s" "pfx_of (set_memb_map ca h s) = pfx_of s"
  "cls_of (set_users us s) = cls_of s" "cls_of (set_chans cs s) = cls_of s"
  "cls_of (put_user a u s) = cls_of s" "cls_of (put_chan a c s) = cls_of s"
  "cls_of (put_memb a m s) = cls_of s" "cls_of (set_orc orc s) = cls_of s"
  "cls_of (free_tag b t s) = cls_of s" "cls_of (set_memb_map ca h s) = cls_of s"
  by (rule modes_upd; simp add: acc_defs set_memb_map_def split: option.split)+

lemma set_orc_orc [simp]: "set_orc x (set_orc y s) = set_orc x s" "set_orc (orc_of s) s = s"
  by (simp_all add: acc_defs)

text \<open>The allocation functions only move the oracle on, or the address counter.\<close>

lemma st_malloc_set_orc: "st_malloc s = (ok, s') \<Longrightarrow> \<exists>orc. s' = set_orc orc s \<and> (orc_of s = [] \<longrightarrow> ok \<and> orc = [])"
  by (auto simp: st_malloc_def acc_defs split: prod.splits)

lemma st_strdup_set_orc:
  "st_strdup x s = (r, s') \<Longrightarrow> (r = None \<or> r = Some x) \<and>
     (\<exists>orc. s' = set_orc orc s \<and> (orc_of s = [] \<longrightarrow> r = Some x \<and> orc = []))"
  by (auto simp: st_strdup_def dest: st_malloc_set_orc split: prod.splits if_splits)

definition bump :: "st \<Rightarrow> st" where
  "bump s = s\<lparr>st_hp := (st_hp s)\<lparr>hp_next := hp_next (st_hp s) + 1\<rparr>\<rparr>"

lemma fresh_bump: "fresh s = (next_of s, bump s)"
  by (simp add: fresh_def bump_def next_of_def)

lemma bump_simps [simp]:
  "casemap_of (bump s) = casemap_of s" "cm_of (bump s) = cm_of s" "users_of (bump s) = users_of s"
  "chans_of (bump s) = chans_of s" "user_at x (bump s) = user_at x s" "chan_at x (bump s) = chan_at x s"
  "memb_at x (bump s) = memb_at x s" "next_of (bump s) = next_of s + 1" "orc_of (bump s) = orc_of s"
  "pfx_of (bump s) = pfx_of s" "cls_of (bump s) = cls_of s"
  by (simp_all add: acc_defs pfx_of_def cls_of_def bump_def)

lemma memb_map_bind: "memb_map ca s = map_option ch_memb (chan_at ca s)"
  by (cases "chan_at ca s") (simp_all add: memb_map_def)

section \<open>The base of a state\<close>

definition map_view :: "addr skmap option \<Rightarrow> ckey \<Rightarrow> addr option" where
  "map_view h = (case h of None \<Rightarrow> Map.empty | Some m \<Rightarrow> sk_map m)"

definition base_of :: "st \<Rightarrow> base" where
  "base_of s =
     \<lparr>bs_user = map_view (users_of s),
      bs_chan = (case chans_of s of None \<Rightarrow> Map.empty | Some h \<Rightarrow> map_view h),
      bs_memb = (\<lambda>ca. case chan_at ca s of None \<Rightarrow> Map.empty | Some c \<Rightarrow> map_view (ch_memb c)),
      bs_who = (\<lambda>ma. map_option mb_u (memb_at ma s)),
      bs_nick = (\<lambda>ua. map_option (\<lambda>u. cmkey (cm_of s) (us_nick u)) (user_at ua s)),
      bs_name = (\<lambda>ca. map_option (\<lambda>c. cmkey (cm_of s) (ch_name c)) (chan_at ca s)),
      bs_refs = (\<lambda>ua. case user_at ua s of None \<Rightarrow> 0 | Some u \<Rightarrow> us_nchans u)\<rparr>"

lemma map_view_Some [simp]: "map_view (Some m) = sk_map m"
  by (simp add: map_view_def)

lemma base_of_sel:
  "bs_user (base_of s) = map_view (users_of s)"
  "bs_chan (base_of s) = (case chans_of s of None \<Rightarrow> Map.empty | Some h \<Rightarrow> map_view h)"
  "bs_memb (base_of s) ca = (case chan_at ca s of None \<Rightarrow> Map.empty | Some c \<Rightarrow> map_view (ch_memb c))"
  "bs_who (base_of s) ma = map_option mb_u (memb_at ma s)"
  "bs_nick (base_of s) ua = map_option (\<lambda>u. cmkey (cm_of s) (us_nick u)) (user_at ua s)"
  "bs_name (base_of s) ca = map_option (\<lambda>c. cmkey (cm_of s) (ch_name c)) (chan_at ca s)"
  "bs_refs (base_of s) ua = (case user_at ua s of None \<Rightarrow> 0 | Some u \<Rightarrow> us_nchans u)"
  by (simp_all add: base_of_def)

lemma base_of_upd [simp]:
  "base_of (set_users x s) = (base_of s)\<lparr>bs_user := map_view x\<rparr>"
  "base_of (set_chans y s) = (base_of s)\<lparr>bs_chan := map_view y\<rparr>"
  "base_of (put_memb a m s) = (base_of s)\<lparr>bs_who := (bs_who (base_of s))(a := map_option mb_u m)\<rparr>"
  "base_of (set_orc orc s) = base_of s" "base_of (free_tag b t s) = base_of s" "base_of (bump s) = base_of s"
  by (simp_all add: base_of_def fun_eq_iff)

lemma base_of_put_user [simp]:
  "base_of (put_user a (Some u) s) =
     (base_of s)\<lparr>bs_nick := (bs_nick (base_of s))(a \<mapsto> cmkey (cm_of s) (us_nick u)),
       bs_refs := (bs_refs (base_of s))(a := us_nchans u)\<rparr>"
  "base_of (put_user a None s) =
     (base_of s)\<lparr>bs_nick := (bs_nick (base_of s))(a := None), bs_refs := (bs_refs (base_of s))(a := 0)\<rparr>"
  by (simp_all add: base_of_def fun_eq_iff)

lemma base_of_put_chan [simp]:
  "base_of (put_chan a (Some c) s) =
     (base_of s)\<lparr>bs_name := (bs_name (base_of s))(a \<mapsto> cmkey (cm_of s) (ch_name c)),
       bs_memb := (bs_memb (base_of s))(a := map_view (ch_memb c))\<rparr>"
  "base_of (put_chan a None s) =
     (base_of s)\<lparr>bs_name := (bs_name (base_of s))(a := None), bs_memb := (bs_memb (base_of s))(a := Map.empty)\<rparr>"
  by (simp_all add: base_of_def fun_eq_iff)

lemma base_of_set_memb_map [simp]:
  "chan_at ca s = Some c \<Longrightarrow>
   base_of (set_memb_map ca h s) = (base_of s)\<lparr>bs_memb := (bs_memb (base_of s))(ca := map_view h)\<rparr>"
  by (simp add: base_of_def fun_eq_iff)

section \<open>The invariant\<close>

text \<open>
  The maps are well formed, no object lies where the next one will be allocated, and the mode
  prefixes fit: prefix letters and prefixes come in pairs, a prefix letter is no channel mode,
  a member carries only prefixes of the server; a channel has room for modes.
\<close>

definition modes_ok :: "st \<Rightarrow> bool" where
  "modes_ok s \<longleftrightarrow> length (fst (pfx_of s)) = length (snd (pfx_of s)) \<and> (\<forall>c\<in>set (fst (pfx_of s)). cls_of s c = 0) \<and>
     NUL \<notin> set (snd (pfx_of s)) \<and>
     (\<forall>a m. memb_at a s = Some m \<longrightarrow> set (mb_modepfx m) \<subseteq> set (snd (pfx_of s))) \<and>
     (\<forall>a c. chan_at a s = Some c \<longrightarrow> ch_modes c \<noteq> [])"

definition st_ok :: "st \<Rightarrow> bool" where
  "st_ok s \<longleftrightarrow>
     (\<exists>m. users_of s = Some m \<and> sk_ok (cm_of s) m) \<and> (\<exists>m. chans_of s = Some (Some m) \<and> sk_ok (cm_of s) m) \<and>
     (\<forall>ca c. chan_at ca s = Some c \<longrightarrow> (\<exists>m. ch_memb c = Some m \<and> sk_ok (cm_of s) m)) \<and>
     (\<forall>a. next_of s \<le> a \<longrightarrow> user_at a s = None \<and> chan_at a s = None \<and> memb_at a s = None) \<and> modes_ok s"

definition ucb_inv :: "addr option \<Rightarrow> (addr \<times> ckey) set \<Rightarrow> addr list \<Rightarrow> st \<Rightarrow> bool" where
  "ucb_inv r X P s \<longleftrightarrow> st_ok s \<and> base_ok r X P (base_of s)"

definition ucb_ok :: "st \<Rightarrow> bool" where
  "ucb_ok s \<longleftrightarrow> ucb_inv None {} [] s"

lemma st_okE:
  assumes "st_ok s"
  obtains um cs where "users_of s = Some um" "sk_ok (cm_of s) um" "chans_of s = Some (Some cs)" "sk_ok (cm_of s) cs"
    "\<And>ca c. chan_at ca s = Some c \<Longrightarrow> \<exists>m. ch_memb c = Some m \<and> sk_ok (cm_of s) m"
  using assms unfolding st_ok_def by blast

lemma st_ok_next: "st_ok s \<Longrightarrow> user_at (next_of s) s = None \<and> chan_at (next_of s) s = None \<and> memb_at (next_of s) s = None"
  by (simp add: st_ok_def)

lemma st_ok_upd:
  "st_ok s \<Longrightarrow> sk_ok (cm_of s) m \<Longrightarrow> st_ok (set_users (Some m) s)"
  "st_ok s \<Longrightarrow> sk_ok (cm_of s) m \<Longrightarrow> st_ok (set_chans (Some m) s)"
  "st_ok s \<Longrightarrow> user_at a s \<noteq> None \<Longrightarrow> st_ok (put_user a u s)"
  "st_ok s \<Longrightarrow> memb_at a s \<noteq> None \<Longrightarrow> set (mb_modepfx mb) \<subseteq> set (snd (pfx_of s)) \<Longrightarrow> st_ok (put_memb a (Some mb) s)"
  "st_ok s \<Longrightarrow> st_ok (put_user a None s)" "st_ok s \<Longrightarrow> st_ok (put_memb a None s)" "st_ok s \<Longrightarrow> st_ok (put_chan a None s)"
  "st_ok s \<Longrightarrow> chan_at a s = Some c0 \<Longrightarrow> ch_memb c = Some m \<Longrightarrow> sk_ok (cm_of s) m \<Longrightarrow> ch_modes c \<noteq> [] \<Longrightarrow>
   st_ok (put_chan a (Some c) s)"
  "st_ok s \<Longrightarrow> sk_ok (cm_of s) m \<Longrightarrow> st_ok (set_memb_map a (Some m) s)"
  "st_ok s \<Longrightarrow> st_ok (set_orc orc s)" "st_ok s \<Longrightarrow> st_ok (free_tag b t s)" "st_ok s \<Longrightarrow> st_ok (bump s)"
  unfolding st_ok_def modes_ok_def by (simp; force)+

lemma ucb_invD:
  assumes "ucb_inv r X P s"
  shows ucb_st: "st_ok s" and ucb_base: "base_ok r X P (base_of s)"
  using assms by (simp_all add: ucb_inv_def)

section \<open>Map operations through handles\<close>

lemma lsi_put_Some:
  assumes "sk_ok cm m"
  obtains ok m' orc' where "lsi_skmap_put orc (Some m) (Some k) (Some v) = (ok, Some m', orc')" "sk_ok cm m'"
    "sk_map m' = (if ok then (sk_map m)(cmkey cm k \<mapsto> v) else sk_map m)" "orc = [] \<longrightarrow> ok \<and> orc' = []"
proof -
  obtain ok m' orc' where p: "skmap_put orc m k v = (ok, m', orc')" by (metis prod.collapse)
  show thesis using that [of ok m' orc'] skmap_put_correct [OF assms p] p by (auto simp: lsi_skmap_put_def)
qed

lemma lsi_del_Some:
  assumes "sk_ok cm m"
  obtains m' where "lsi_skmap_del (Some m) k = (sk_map m (cmkey cm k), Some m')" "sk_ok cm m'"
    "sk_map m' = (sk_map m)(cmkey cm k := None)"
proof -
  obtain e m' where d: "skmap_del m k = (e, m')" by fastforce
  show thesis using that [of m'] skmap_del_correct [OF assms d] d by (auto simp: lsi_skmap_del_def)
qed

lemma lsi_get_Some: "sk_ok cm m \<Longrightarrow> lsi_skmap_get (Some m) k = sk_map m (cmkey cm k)"
  by (simp add: lsi_skmap_get_def skmap_get_sk_map)

lemma st_ok_del_user:
  assumes "st_ok s"
  shows "st_ok (del_user_key k s)"
    "base_of (del_user_key k s) = (base_of s)\<lparr>bs_user := (bs_user (base_of s))(cmkey (cm_of s) k := None)\<rparr>"
proof -
  obtain um where um: "users_of s = Some um" "sk_ok (cm_of s) um" using st_okE [OF assms] by metis
  obtain m' where m': "lsi_skmap_del (Some um) k = (sk_map um (cmkey (cm_of s) k), Some m')"
    "sk_ok (cm_of s) m'" "sk_map m' = (sk_map um)(cmkey (cm_of s) k := None)" by (rule lsi_del_Some [OF um(2)])
  show "st_ok (del_user_key k s)" using um m' assms by (simp add: del_user_key_def st_ok_upd)
  show "base_of (del_user_key k s) = (base_of s)\<lparr>bs_user := (bs_user (base_of s))(cmkey (cm_of s) k := None)\<rparr>"
    using um m' by (simp add: del_user_key_def base_of_sel)
qed

section \<open>Releasing a membership\<close>

text \<open>What the operations on memberships leave alone.\<close>

definition frame :: "st \<Rightarrow> st \<Rightarrow> bool" where
  "frame s s' \<longleftrightarrow> chans_of s' = chans_of s \<and> casemap_of s' = casemap_of s \<and> orc_of s' = orc_of s \<and>
     (\<forall>x. chan_at x s' = chan_at x s)"

lemma frameD:
  assumes "frame s s'"
  shows "chans_of s' = chans_of s" "casemap_of s' = casemap_of s" "cm_of s' = cm_of s" "orc_of s' = orc_of s"
    "chan_at x s' = chan_at x s" "memb_map x s' = memb_map x s"
  using assms by (simp_all add: frame_def cm_of_def memb_map_bind)

lemma frame_trans: "frame s s' \<Longrightarrow> frame s' s'' \<Longrightarrow> frame s s''"
  by (simp add: frame_def)

lemma unref_user_ok:
  assumes inv: "ucb_inv r X (ma # P) s" and mb: "memb_at ma s = Some mb"
  obtains s1 where "unref_user purge (mb_u mb) s = Some s1" "ucb_inv r X P (put_memb ma None s1)"
    "base_of (put_memb ma None s1) = bs_unref purge ma (mb_u mb) (base_of s)" "frame s s1"
    "memb_at ma s1 = Some mb" "\<not> purge \<Longrightarrow> users_of s1 = users_of s"
proof -
  note st = ucb_st [OF inv] and base = ucb_base [OF inv]
  let ?ua = "mb_u mb"
  have w: "bs_who (base_of s) ma = Some ?ua" using mb by (simp add: base_of_sel)
  have al: "bs_nick (base_of s) ?ua \<noteq> None" using base_pending [OF base, of ma] w by auto
  then obtain u where u: "user_at ?ua s = Some u" by (auto simp: base_of_sel)
  have pos: "0 < us_nchans u" using base_release(2) [OF base w] u by (simp add: base_of_sel)
  then have dec: "dec_nchans (us_nchans u) = us_nchans u - 1" by (simp add: dec_nchans_def)
  let ?u' = "u\<lparr>us_nchans := us_nchans u - 1\<rparr>"
  let ?s1 = "put_user ?ua (Some ?u') s"
  have st1: "st_ok ?s1" by (rule st_ok_upd(3) [OF st]) (simp add: u)
  have b1: "base_of ?s1 = (base_of s)\<lparr>bs_refs := (bs_refs (base_of s))(?ua := us_nchans u - 1)\<rparr>"
    using u by (simp add: base_of_def fun_eq_iff)
  have refs: "bs_refs (base_of s) ?ua = us_nchans u" using u by (simp add: base_of_sel)
  have nick: "bs_nick (base_of s) ?ua = Some (cmkey (cm_of s) (us_nick u))" using u by (simp add: base_of_sel)
  have memb: "memb_at ma s \<noteq> None" using mb by simp
  show thesis
  proof (cases "us_nchans u - 1 = 0 \<and> purge")
    case True
    let ?s2 = "del_user_key (us_nick u) ?s1"
    let ?s3 = "free_user ?ua ?u' ?s2"
    have st3: "st_ok (put_memb ma None ?s3)"
      using st_ok_del_user(1) [OF st1] by (simp add: free_user_def st_ok_upd)
    have b3: "base_of (put_memb ma None ?s3) = bs_unref purge ma ?ua (base_of s)"
      using True refs nick b1 st_ok_del_user(2) [OF st1, of "us_nick u"]
      by (simp add: free_user_def bs_unref_def Let_def)
    have "unref_user purge ?ua s = Some ?s3" using u dec True by (simp add: unref_user_def Let_def)
    moreover have "frame s ?s3" by (simp add: frame_def free_user_def del_user_key_def)
    moreover have "memb_at ma ?s3 = Some mb" using mb by (simp add: free_user_def del_user_key_def)
    ultimately show thesis
      using True that [of ?s3] b3 st3 base_unref [OF base w] by (simp add: ucb_inv_def)
  next
    case False
    have st3: "st_ok (put_memb ma None ?s1)" by (rule st_ok_upd(6) [OF st1])
    have b3: "base_of (put_memb ma None ?s1) = bs_unref purge ma ?ua (base_of s)"
      using False refs b1 by (auto simp: bs_unref_def Let_def)
    have "unref_user purge ?ua s = Some ?s1" using u dec False by (auto simp: unref_user_def Let_def)
    moreover have "frame s ?s1" by (simp add: frame_def)
    ultimately show thesis
      using that [of ?s1] mb b3 st3 base_unref [OF base w] by (simp add: ucb_inv_def)
  qed
qed

lemma release_memb_ok:
  assumes inv: "ucb_inv r X (ma # P) s"
  obtains s1 ua where "release_memb ma s = Some (False, s1)" "ucb_inv r X P s1" "frame s s1"
    "bs_nick (base_of s) ua \<noteq> None" "base_of s1 = bs_unref True ma ua (base_of s)"
proof -
  obtain mb where mb: "memb_at ma s = Some mb"
    using base_pending [OF ucb_base [OF inv], of ma] by (auto simp: base_of_sel)
  obtain s1 where s1: "unref_user True (mb_u mb) s = Some s1" "ucb_inv r X P (put_memb ma None s1)"
    "frame s s1" "base_of (put_memb ma None s1) = bs_unref True ma (mb_u mb) (base_of s)" by (rule unref_user_ok [OF inv mb])
  moreover have "bs_nick (base_of s) (mb_u mb) \<noteq> None"
    using base_pending [OF ucb_base [OF inv], of ma] mb by (auto simp: base_of_sel)
  ultimately show thesis using mb that [of "put_memb ma None s1" "mb_u mb"] by (simp add: release_memb_def frame_def)
qed

text \<open>What releasing memberships keeps, read off the base\<close>

definition unref_stable :: "(base \<Rightarrow> bool) \<Rightarrow> bool" where
  "unref_stable K \<longleftrightarrow> (\<forall>b ma ua. K b \<longrightarrow> bs_nick b ua \<noteq> None \<longrightarrow> K (bs_unref True ma ua b)) \<and> (\<forall>b h. K (b\<lparr>bs_memb := h\<rparr>) = K b)"

lemma unref_stableD:
  "unref_stable K \<Longrightarrow> K b \<Longrightarrow> bs_nick b ua \<noteq> None \<Longrightarrow> K (bs_unref True ma ua b)"
  "unref_stable K \<Longrightarrow> K (b\<lparr>bs_memb := h\<rparr>) = K b"
  by (simp_all add: unref_stable_def)

lemma unref_stable_True: "unref_stable (\<lambda>_. True)"
  by (simp add: unref_stable_def)

text \<open>The loop of \<open>lsi_ucb_drop_chan\<close> and \<open>lsi_ucb_clear_memb\<close> over the memberships of a channel.\<close>

lemma release_all_keeps:
  assumes inv: "ucb_inv r X (map snd (sk_entries m)) s" and ca: "chan_at ca s = Some c" "ch_memb c = Some m"
    and K: "unref_stable K" "K (base_of s)"
  obtains s1 m1 where "for_each (memb_map ca) (set_memb_map ca) release_memb s = Some (False, s1)" "ucb_inv r X [] s1"
    "chan_at ca s1 = Some (c\<lparr>ch_memb := Some m1\<rparr>)" "sk_core m1 = sk_core m"
    "chans_of s1 = chans_of s" "casemap_of s1 = casemap_of s" "orc_of s1 = orc_of s"
    "\<And>x. x \<noteq> ca \<Longrightarrow> chan_at x s1 = chan_at x s" "K (base_of s1)"
proof -
  have ok: "sk_ok (cm_of s) m" using ucb_st [OF inv] ca unfolding st_ok_def by fastforce
  define I where "I = (\<lambda>P s'. ucb_inv r X P s' \<and> chans_of s' = chans_of s \<and> casemap_of s' = casemap_of s \<and>
    orc_of s' = orc_of s \<and> (\<forall>x. x \<noteq> ca \<longrightarrow> chan_at x s' = chan_at x s) \<and> K (base_of s') \<and>
    (\<exists>m1. sk_core m1 = sk_core m \<and> chan_at ca s' = Some (c\<lparr>ch_memb := Some m1\<rparr>)))"
  have g: "memb_map ca s = Some (Some m)" using ca by (simp add: memb_map_bind)
  have cid: "c\<lparr>ch_memb := Some m\<rparr> = c" using ca by simp
  have init: "I (map snd (sk_entries m)) s" using inv ca cid K(2) unfolding I_def by (auto intro: exI [of _ m])
  have stable: "I vs (set_memb_map ca (Some m2) s')"
    if I: "I vs s'" and "memb_map ca s' = Some (Some m1)" "sk_core m1 = sk_core m" and m2: "sk_core m2 = sk_core m"
    for vs s' m1 m2
  proof -
    from I obtain m0 where m0: "sk_core m0 = sk_core m" "chan_at ca s' = Some (c\<lparr>ch_memb := Some m0\<rparr>)"
      unfolding I_def by blast
    have cm: "cm_of s' = cm_of s" using I by (simp add: I_def cm_of_def)
    have "sk_map m2 = sk_map m0" using m0 m2 sk_core_cong(2) by metis
    moreover have "sk_map m0 = bs_memb (base_of s') ca" using m0 by (simp add: base_of_sel)
    ultimately have b: "base_of (set_memb_map ca (Some m2) s') = base_of s'" using m0 by (simp add: base_of_set_memb_map [OF m0(2)])
    have "sk_ok (cm_of s') m2" using ok cm sk_core_cong(1) [OF m2] by simp
    then have "ucb_inv r X vs (set_memb_map ca (Some m2) s')"
      using I b by (simp add: I_def ucb_inv_def st_ok_upd)
    then show ?thesis using I m0 m2 b unfolding I_def by auto
  qed
  have step: "\<exists>stop s2. release_memb v s' = Some (stop, s2) \<and> memb_map ca s2 = Some (Some m1) \<and>
      (if stop then False else I vs s2)"
    if I: "I (v # vs) s'" and "memb_map ca s' = Some (Some m1)" "sk_core m1 = sk_core m" for v vs s' m1
  proof -
    from I have "ucb_inv r X (v # vs) s'" by (simp add: I_def)
    then obtain s2 ua where s2: "release_memb v s' = Some (False, s2)" "ucb_inv r X vs s2" "frame s' s2"
      "bs_nick (base_of s') ua \<noteq> None" "base_of s2 = bs_unref True v ua (base_of s')" by (rule release_memb_ok)
    moreover have "K (base_of s2)" using I unref_stableD(1) [OF K(1) _ s2(4)] s2(5) by (simp add: I_def)
    ultimately show ?thesis using that unfolding I_def by (auto simp: frameD)
  qed
  obtain stop s1 m' where "for_each (memb_map ca) (set_memb_map ca) release_memb s = Some (stop, s1)"
    "if stop then False else I [] s1" 
    by (rule mb.for_each_rule [where I = I and Q = "\<lambda>_. False", OF g ok init stable step])
  then show thesis using that unfolding I_def by (auto split: if_splits)
qed

lemmas release_all_ok = release_all_keeps [OF _ _ _ unref_stable_True TrueI]

section \<open>Channels\<close>

lemma skmap_clear_ok:
  assumes "sk_ok cm m"
  obtains m' where "lsi_skmap_clear (Some m) = Some m'" "sk_ok cm m'" "sk_map m' = Map.empty"
proof -
  define g where "g = (\<lambda>(i::nat) (f::nat \<Rightarrow> 'a bucklist option). if f i = None then f else f(i := None))"
  have fo: "fold g is f i = (if i \<in> set is then None else f i)" for "is" f i
    by (induction "is" arbitrary: f) (auto simp: g_def)
  let ?m = "m\<lparr>sk_buck := fold g [0..< sk_bsz m] (sk_buck m), sk_count := 0\<rparr>"
  have no: "bucket_nodes ?m i = []" if "i < sk_bsz m" for i using that by (simp add: bucket_nodes_def fo)
  have "sk_ok cm ?m" using assms no by (auto simp: sk_ok_def node_total_def fo)
  moreover have "sk_map ?m = Map.empty"
  proof -
    have "sk_entries ?m = []" using no by (simp add: sk_entries_def)
    then show ?thesis by (simp add: sk_map_def)
  qed
  moreover have "lsi_skmap_clear (Some m) = Some ?m" by (simp add: lsi_skmap_clear_def g_def)
  ultimately show thesis using that by blast
qed

lemma first_None_empty:
  assumes "sk_ok cm m" "fst (lsi_skmap_first (Some m)) = None"
  shows "sk_entries m = []"
proof -
  obtain m' where w: "skmap_walk (Some m) = Some (map (\<lambda>(k, v). (k, Some v)) (sk_entries m), Some m')"
    using skmap_walk_total [OF assms(1)] by blast
  obtain h where "lsi_skmap_first (Some m) = (None, h)" using assms(2) by (metis prod.collapse)
  then have "skmap_walk (Some m) = Some ([], h)" by (simp add: skmap_walk_def)
  with w show ?thesis by simp
qed

text \<open>The memberships of a listed channel, taken off their places.\<close>

lemma entries_pending:
  assumes inv: "ucb_ok s" and q: "bs_chan (base_of s) q = Some ca" and c: "chan_at ca s = Some c" "ch_memb c = Some m"
  shows "base_ok None (Pair ca ` dom (sk_map m)) (map snd (sk_entries m)) (base_of s)"
proof -
  have ok: "sk_ok (cm_of s) m" using inv c unfolding ucb_ok_def ucb_inv_def st_ok_def by fastforce
  note base = ucb_base [OF inv [unfolded ucb_ok_def]]
  let ?es = "map (\<lambda>e. (cmkey (cm_of s) (fst e), snd e)) (sk_entries m)"
  have d: "distinct (map fst ?es)" using distinct_sk_keys [OF ok] by (simp add: comp_def)
  have mem: "member (base_of s) {} ca k ma" if "(k, ma) \<in> set ?es" for k ma
  proof -
    have "sk_map m k = Some ma" using that d sk_okD(1) [OF ok] by (simp add: sk_map_def)
    then show ?thesis using q c by (auto simp: member_def base_of_sel intro: ranI)
  qed
  have S: "set (map fst ?es) = dom (sk_map m)"
    using sk_okD(1) [OF ok] by (simp add: sk_map_def dom_map_of_conv_image_fst image_comp comp_def)
  have P: "map snd ?es = map snd (sk_entries m)" by simp
  have "base_ok None (Pair ca ` set (map fst ?es) \<union> {}) (map snd ?es @ []) (base_of s)"
    by (rule base_pend_all [OF base d mem])
  then show ?thesis unfolding S P by simp
qed

lemma listed_chan:
  assumes "ucb_ok s" "bs_chan (base_of s) q = Some ca"
  obtains c m where "chan_at ca s = Some c" "ch_memb c = Some m" "sk_ok (cm_of s) m" "cmkey (cm_of s) (ch_name c) = q"
proof -
  have "bs_name (base_of s) ca = Some q"
    using assms base_chan [OF ucb_base [OF assms(1) [unfolded ucb_ok_def]]] by blast
  then obtain c where c: "chan_at ca s = Some c" "cmkey (cm_of s) (ch_name c) = q" by (auto simp: base_of_sel)
  moreover obtain m where "ch_memb c = Some m" "sk_ok (cm_of s) m"
    using assms(1) c(1) unfolding ucb_ok_def ucb_inv_def st_ok_def by blast
  ultimately show thesis using c(2) that by blast
qed

lemma clear_memb_keeps:
  assumes inv: "ucb_ok s" and q: "bs_chan (base_of s) q = Some ca" and K: "unref_stable K" "K (base_of s)"
  obtains s' where "lsi_ucb_clear_memb ca s = Some s'" "ucb_ok s'" "bs_memb (base_of s') ca = Map.empty"
    "chans_of s' = chans_of s" "casemap_of s' = casemap_of s" "orc_of s' = orc_of s"
    "\<And>x. chan_at x s' = None \<longleftrightarrow> chan_at x s = None" "K (base_of s')"
proof -
  obtain c m where c: "chan_at ca s = Some c" "ch_memb c = Some m" "sk_ok (cm_of s) m"
    using listed_chan [OF inv q] by metis
  note st = ucb_st [OF inv [unfolded ucb_ok_def]]
  have i0: "ucb_inv None (Pair ca ` dom (sk_map m)) (map snd (sk_entries m)) s"
    using entries_pending [OF inv q c(1,2)] st by (simp add: ucb_inv_def)
  obtain s1 m1 where s1: "for_each (memb_map ca) (set_memb_map ca) release_memb s = Some (False, s1)"
    "ucb_inv None (Pair ca ` dom (sk_map m)) [] s1" "chan_at ca s1 = Some (c\<lparr>ch_memb := Some m1\<rparr>)"
    "sk_core m1 = sk_core m" "chans_of s1 = chans_of s" "casemap_of s1 = casemap_of s" "orc_of s1 = orc_of s"
    "\<And>x. x \<noteq> ca \<Longrightarrow> chan_at x s1 = chan_at x s" "K (base_of s1)"
  proof -
    from release_all_keeps [OF i0 c(1,2) K] show thesis using that by blast
  qed
  have alive: "chan_at x s1 = None \<longleftrightarrow> chan_at x s = None" for x using s1(3,8) c(1) by (cases "x = ca") simp_all
  have m1: "sk_map m1 = sk_map m" "sk_ok (cm_of s1) m1"
    using sk_core_cong [OF s1(4)] c(3) s1(6) by (simp_all add: cm_of_def)
  have h: "memb_map ca s = Some (Some m)" "memb_map ca s1 = Some (Some m1)" using c s1(3) by (simp_all add: memb_map_bind)
  obtain m2 where m2: "lsi_skmap_clear (Some m1) = Some m2" "sk_ok (cm_of s1) m2" "sk_map m2 = Map.empty"
    by (rule skmap_clear_ok [OF m1(2)])
  show thesis
  proof (cases "fst (lsi_skmap_first (Some m)) = None")
    case True
    have "sk_entries m = []" by (rule first_None_empty [OF c(3) True])
    then have "sk_map m = Map.empty" by (simp add: sk_map_def)
    then show ?thesis using True h s1 m1 alive that [of s1]
      by (simp add: lsi_ucb_clear_memb_def ucb_ok_def base_of_sel)
  next
    case False
    let ?s = "set_memb_map ca (Some m2) s1"
    have bo: "base_of ?s = (base_of s1)\<lparr>bs_memb := (bs_memb (base_of s1))(ca := Map.empty)\<rparr>"
      using base_of_set_memb_map [OF s1(3)] m2(3) by simp
    have "base_ok None {} [] (base_of ?s)"
      unfolding bo by (rule base_clear [OF ucb_base [OF s1(2)]]) (use s1(3) m1 in \<open>simp add: base_of_sel\<close>)
    then have "ucb_ok ?s" using st_ok_upd(9) [OF ucb_st [OF s1(2)] m2(2)] by (simp add: ucb_ok_def ucb_inv_def)
    moreover have "lsi_ucb_clear_memb ca s = Some ?s"
      using h s1(1) m2(1) by (simp add: lsi_ucb_clear_memb_def if_not_P [OF False])
    moreover have "K (base_of ?s)" unfolding bo unref_stableD(2) [OF K(1)] by (rule s1(9))
    moreover have "chan_at x ?s = None \<longleftrightarrow> chan_at x s = None" for x using alive [of x] by (cases "x = ca") simp_all
    ultimately show ?thesis using s1 bo that [of ?s] by simp
  qed
qed

lemmas clear_memb_ok = clear_memb_keeps [OF _ _ unref_stable_True TrueI]

lemma drop_chan_ok:
  assumes inv: "ucb_ok s" and q: "bs_chan (base_of s) q = Some ca"
  obtains s' where "lsi_ucb_drop_chan ca s = Some (True, s')" "ucb_ok s'"
    "bs_chan (base_of s') = (bs_chan (base_of s))(q := None)" "casemap_of s' = casemap_of s" "orc_of s' = orc_of s"
proof -
  obtain c m where c: "chan_at ca s = Some c" "ch_memb c = Some m" "sk_ok (cm_of s) m" "cmkey (cm_of s) (ch_name c) = q"
    by (rule listed_chan [OF inv q])
  note st = ucb_st [OF inv [unfolded ucb_ok_def]]
  obtain cs where cs: "chans_of s = Some (Some cs)" "sk_ok (cm_of s) cs" by (rule st_okE [OF st])
  obtain cs' where cs': "lsi_skmap_del (Some cs) (ch_name c) = (sk_map cs q, Some cs')" "sk_ok (cm_of s) cs'"
    "sk_map cs' = (sk_map cs)(q := None)" using lsi_del_Some [OF cs(2), of "ch_name c"] c(4) by metis
  have e: "sk_map cs q = Some ca" using q cs by (simp add: base_of_sel)
  let ?s1 = "set_chans (Some cs') s"
  have b1: "base_of ?s1 = (base_of s)\<lparr>bs_chan := (bs_chan (base_of s))(q := None)\<rparr>" using cs cs' by (simp add: base_of_sel)
  have "base_ok None {} (map snd (sk_entries m)) (base_of ?s1)"
    unfolding b1 by (rule base_unlist_chan [OF entries_pending [OF inv q c(1,2)] _ q]) (use c in \<open>simp add: base_of_sel\<close>)
  then have i1: "ucb_inv None {} (map snd (sk_entries m)) ?s1" using st_ok_upd(2) [OF st cs'(2)] by (simp add: ucb_inv_def)
  obtain s2 m1 where s2: "for_each (memb_map ca) (set_memb_map ca) release_memb ?s1 = Some (False, s2)"
    "ucb_inv None {} [] s2" "chan_at ca s2 = Some (c\<lparr>ch_memb := Some m1\<rparr>)"
    "chans_of s2 = chans_of ?s1" "casemap_of s2 = casemap_of ?s1" "orc_of s2 = orc_of ?s1"
  proof -
    have "chan_at ca ?s1 = Some c" using c by simp
    from release_all_ok [OF i1 this c(2)] show thesis using that by blast
  qed
  let ?s3 = "put_chan ca None (free_tag (ch_freetag c) (ch_tag c) s2)"
  have bc: "bs_chan (base_of s2) = (bs_chan (base_of s))(q := None)" using s2(4) cs cs' by (simp add: base_of_sel)
  have "ca \<notin> ran (bs_chan (base_of s2))"
  proof -
    have "p = q" if "bs_chan (base_of s) p = Some ca" for p
      using base_chan [OF ucb_base [OF inv [unfolded ucb_ok_def]] q]
        base_chan [OF ucb_base [OF inv [unfolded ucb_ok_def]] that] by simp
    then show ?thesis unfolding bc ran_def mem_Collect_eq fun_upd_apply by (metis option.distinct(1))
  qed
  from base_forget_chan [OF ucb_base [OF s2(2)] this] have "ucb_ok ?s3"
    using st_ok_upd(7) [OF st_ok_upd(11) [OF ucb_st [OF s2(2)]]] by (simp add: ucb_ok_def ucb_inv_def)
  then show thesis
    using c cs cs' e s2 bc that [of ?s3] by (simp add: lsi_ucb_drop_chan_def)
qed

lemma st_ok_fresh:
  "st_ok s \<Longrightarrow> st_ok (put_user (next_of s) (Some u) (bump s))"
  "st_ok s \<Longrightarrow> set (mb_modepfx mb) \<subseteq> set (snd (pfx_of s)) \<Longrightarrow> st_ok (put_memb (next_of s) (Some mb) (bump s))"
  "st_ok s \<Longrightarrow> ch_memb c = Some m \<Longrightarrow> sk_ok (cm_of s) m \<Longrightarrow> ch_modes c \<noteq> [] \<Longrightarrow>
   st_ok (put_chan (next_of s) (Some c) (bump s))"
  unfolding st_ok_def modes_ok_def by (simp; force)+

lemma bump_upd [simp]:
  "bump (set_users x s) = set_users x (bump s)" "bump (set_chans y s) = set_chans y (bump s)"
  "bump (set_orc orc s) = set_orc orc (bump s)"
  by (simp_all add: acc_defs bump_def)

lemma add_chan_ok:
  assumes inv: "ucb_ok s" and short: "length name < MAX_CHAN_LEN"
  obtains r s' where "lsi_ucb_add_chan name s = Some (r, s')" "ucb_ok s'" "casemap_of s' = casemap_of s"
    "r = None \<Longrightarrow> base_of s' = base_of s"
    "\<And>ca. r = Some ca \<Longrightarrow> bs_chan (base_of s') = (bs_chan (base_of s))(cmkey (cm_of s) name \<mapsto> ca) \<and>
       bs_memb (base_of s') ca = Map.empty"
    "orc_of s = [] \<Longrightarrow> r \<noteq> None \<and> orc_of s' = []"
proof -
  note st = ucb_st [OF inv [unfolded ucb_ok_def]] and base = ucb_base [OF inv [unfolded ucb_ok_def]]
  have keep: "ucb_ok (set_orc orc s)" for orc using st base by (simp add: ucb_ok_def ucb_inv_def st_ok_upd)
  obtain ok1 s1 where a1: "st_malloc s = (ok1, s1)" by fastforce
  then obtain o1 where o1: "s1 = set_orc o1 s" "orc_of s = [] \<longrightarrow> ok1 \<and> o1 = []" using st_malloc_set_orc by blast
  obtain mm :: "addr skmap option" and o2 where a2: "lsi_skmap_init o1 256 (casemap_of s) = (mm, o2)" by fastforce
  have i2: "o1 = [] \<longrightarrow> mm \<noteq> None \<and> o2 = []" using a2 by (auto simp: lsi_skmap_init_def)
  obtain ok3 s3 where a3: "st_malloc (set_orc o2 s) = (ok3, s3)" by fastforce
  then obtain o3 where o3: "s3 = set_orc o3 s" "o2 = [] \<longrightarrow> ok3 \<and> o3 = []"
    using st_malloc_set_orc [OF a3] by auto
  obtain cs where cs: "chans_of s = Some (Some cs)" "sk_ok (cm_of s) cs" by (rule st_okE [OF st])
  let ?a = "next_of s"
  obtain ok5 cs' o5 where a5: "lsi_skmap_put o3 (Some cs) (Some name) (Some ?a) = (ok5, Some cs', o5)"
    "sk_ok (cm_of s) cs'" "sk_map cs' = (if ok5 then (sk_map cs)(cmkey (cm_of s) name \<mapsto> ?a) else sk_map cs)"
    "o3 = [] \<longrightarrow> ok5 \<and> o5 = []" by (rule lsi_put_Some [OF cs(2), of o3 name ?a])
  let ?s5 = "set_chans (Some cs') (set_orc o5 (bump s))"
  consider "\<not> ok1" | "ok1" "mm = None" | m where "ok1" "mm = Some m" "\<not> ok3"
    | m where "ok1" "mm = Some m" "ok3" "\<not> ok5" | m where "ok1" "mm = Some m" "ok3" "ok5"
    by (cases mm) auto
  then show thesis
  proof cases
    case 1
    with a1 o1 keep show ?thesis by (intro that [of None s1]) (simp_all add: lsi_ucb_add_chan_def Let_def)
  next
    case 2
    with a1 o1 a2 keep show ?thesis
      by (intro that [of None "set_orc o2 s"]) (use i2 in \<open>auto simp: lsi_ucb_add_chan_def Let_def\<close>)
  next
    case (3 m)
    with a1 o1 a2 a3 o3 keep show ?thesis
      by (intro that [of None s3]) (use i2 in \<open>auto simp: lsi_ucb_add_chan_def Let_def\<close>)
  next
    case (4 m)
    have "base_of ?s5 = base_of s" using 4 a5(3) cs by (simp add: base_of_def)
    moreover have "st_ok ?s5" using st a5(2) by (simp add: st_ok_upd)
    ultimately show ?thesis using 4 a1 o1 a2 a3 o3 a5 cs base
      by (intro that [of None ?s5]) (use i2 in \<open>auto simp: lsi_ucb_add_chan_def fresh_bump ucb_ok_def ucb_inv_def Let_def\<close>)
  next
    case (5 m)
    have m: "sk_ok (cm_of s) m" "sk_map m = Map.empty"
      using skmap_init_ok [OF a2 [unfolded 5(2)]] by (simp_all add: cm_of_def)
    let ?c = "chan_init name m"
    have c: "ch_name ?c = name" "ch_memb ?c = Some m" using short by (simp_all add: chan_init_def)
    let ?s6 = "put_chan ?a (Some ?c) ?s5"
    have "bs_name (base_of s) ?a = None" using st_ok_next [OF st] by (simp add: base_of_sel)
    note ac = base_add_chan [OF base this, of "cmkey (cm_of s) name"]
    have bo: "base_of ?s6 = (base_of s)\<lparr>bs_chan := (bs_chan (base_of s))(cmkey (cm_of s) name \<mapsto> ?a),
        bs_name := (bs_name (base_of s))(?a \<mapsto> cmkey (cm_of s) name), bs_memb := (bs_memb (base_of s))(?a := Map.empty)\<rparr>"
      using 5 a5(3) cs c m by (simp add: base_of_sel)
    have "st_ok (set_chans (Some cs') (set_orc o5 s))" using st a5(2) by (simp add: st_ok_upd)
    from st_ok_fresh(3) [OF this c(2)] m(1) have "st_ok ?s6" by (simp add: chan_init_def)
    with ac bo have "ucb_ok ?s6" by (simp add: ucb_ok_def ucb_inv_def)
    moreover have "lsi_ucb_add_chan name s = Some (Some ?a, ?s6)"
      using 5 a1 o1 a2 a3 o3 a5 cs by (simp add: lsi_ucb_add_chan_def fresh_bump Let_def)
    ultimately show ?thesis using 5 bo a2 o1 o3 a5(4)
      by (intro that [of "Some ?a" ?s6]) (use i2 in auto)
  qed
qed

section \<open>Members and users\<close>

lemma add_memb_ok:
  assumes inv: "ucb_ok s" and q: "bs_chan (base_of s) q = Some ca" and u: "user_at ua s = Some u"
    and px: "set mpfx \<subseteq> set (snd (pfx_of s))"
  obtains ok s' where "lsi_ucb_add_memb ca ua mpfx s = Some (ok, s')" "ucb_ok s'" "casemap_of s' = casemap_of s"
    "bs_chan (base_of s') = bs_chan (base_of s)" "bs_user (base_of s') = bs_user (base_of s)"
    "user_at ua s' \<noteq> None"
    "ok \<longrightarrow> (\<exists>ma. bs_memb (base_of s') ca (cmkey (cm_of s) (us_nick u)) = Some ma \<and> bs_who (base_of s') ma = Some ua \<and>
       bs_refs (base_of s') ua = bs_refs (base_of s) ua + 1)"
    "orc_of s = [] \<longrightarrow> ok \<and> orc_of s' = []"
proof -
  note st = ucb_st [OF inv [unfolded ucb_ok_def]] and base = ucb_base [OF inv [unfolded ucb_ok_def]]
  obtain c m where c: "chan_at ca s = Some c" "ch_memb c = Some m" "sk_ok (cm_of s) m"
    using listed_chan [OF inv q] by metis
  obtain ok1 s1 where a1: "st_malloc s = (ok1, s1)" by fastforce
  then obtain o1 where o1: "s1 = set_orc o1 s" "orc_of s = [] \<longrightarrow> ok1 \<and> o1 = []" using st_malloc_set_orc by blast
  let ?a = "next_of s" and ?k = "cmkey (cm_of s) (us_nick u)"
  let ?mb = "\<lparr>mb_u = ua, mb_modepfx = ncpy MAX_MODEPFX mpfx\<rparr>"
  let ?s1 = "put_memb ?a (Some ?mb) (bump s1)"
  have al: "lsi_ucb_alloc_memb ua mpfx s = (if ok1 then (Some ?a, ?s1) else (None, s1))"
    using a1 o1 by (simp add: lsi_ucb_alloc_memb_def fresh_bump)
  obtain ok m' o2 where p: "lsi_skmap_put o1 (Some m) (Some (us_nick u)) (Some ?a) = (ok, Some m', o2)"
    "sk_ok (cm_of s) m'" "sk_map m' = (if ok then (sk_map m)(?k \<mapsto> ?a) else sk_map m)"
    "o1 = [] \<longrightarrow> ok \<and> o2 = []" by (rule lsi_put_Some [OF c(3), of o1 "us_nick u" ?a])
  have "set (ncpy MAX_MODEPFX mpfx) \<subseteq> set (snd (pfx_of s))" using px by (auto simp: ncpy_def dest: in_set_takeD)
  then have st1: "st_ok ?s1" using st_ok_fresh(2) [OF st_ok_upd(10) [OF st], of ?mb o1] o1 by simp
  let ?s2 = "set_memb_map ca (Some m') (set_orc o2 ?s1)"
  have st2: "st_ok ?s2" using st1 p(2) o1 by (simp add: st_ok_upd)
  have c1: "chan_at ca (set_orc o2 ?s1) = Some c" using c o1 by simp
  have nw: "bs_who (base_of s) ?a = None" using st_ok_next [OF st] by (simp add: base_of_sel)
  have mm: "bs_memb (base_of s) ca = sk_map m" using c by (simp add: base_of_sel)
  show thesis
  proof (cases ok1)
    case False
    have "ucb_ok s1" using st base o1 by (simp add: ucb_ok_def ucb_inv_def st_ok_upd)
    then show ?thesis using False al o1 u that [of False s1] by (auto simp: lsi_ucb_add_memb_def)
  next
    case ok1: True
    have h: "memb_map ca ?s1 = Some (Some m)" "user_at ua ?s1 = Some u" using c o1 u by (simp_all add: memb_map_bind)
    show ?thesis
    proof (cases ok)
      case False
      let ?s3 = "put_memb ?a None ?s2"
      have "base_of ?s3 = base_of s"
        using False p(3) nw mm o1 c1 by (simp add: fun_upd_idem)
      then have "ucb_ok ?s3" "base_of ?s3 = base_of s"
        using st2 base by (simp_all add: ucb_ok_def ucb_inv_def st_ok_upd)
      moreover have "lsi_ucb_add_memb ca ua mpfx s = Some (False, ?s3)"
        using ok1 al False p h o1 by (simp add: lsi_ucb_add_memb_def)
      ultimately show ?thesis using False ok1 o1 p(4) u that [of False ?s3] by simp
    next
      case True
      let ?s3 = "put_user ua (Some (u\<lparr>us_nchans := us_nchans u + 1\<rparr>)) ?s2"
      have bo: "base_of ?s3 = (base_of s)\<lparr>bs_memb := (bs_memb (base_of s))(ca := (bs_memb (base_of s) ca)(?k \<mapsto> ?a)),
          bs_who := (bs_who (base_of s))(?a \<mapsto> ua), bs_refs := (bs_refs (base_of s))(ua := bs_refs (base_of s) ua + 1)\<rparr>"
        using True p(3) mm o1 c1 u by (simp add: fun_upd_idem base_of_sel)
      have "base_ok None {} [] (base_of ?s3)"
        unfolding bo using q u by (intro base_add_memb [OF base _ nw]) (auto simp: base_of_sel intro: ranI)
      moreover have "st_ok ?s3" using st2 u o1 by (simp add: st_ok_upd)
      ultimately have "ucb_ok ?s3" by (simp add: ucb_ok_def ucb_inv_def)
      moreover have "lsi_ucb_add_memb ca ua mpfx s = Some (True, ?s3)"
        using ok1 al True p h o1 by (simp add: lsi_ucb_add_memb_def)
      ultimately show ?thesis using True ok1 o1 p(4) bo that [of True ?s3] by simp
    qed
  qed
qed

text \<open>Operations that change nothing the base shows.\<close>

definition same_base :: "st \<Rightarrow> st \<Rightarrow> bool" where
  "same_base s s' \<longleftrightarrow> base_of s' = base_of s \<and> users_of s' = users_of s \<and> chans_of s' = chans_of s \<and>
     casemap_of s' = casemap_of s \<and> pfx_of s' = pfx_of s \<and> cls_of s' = cls_of s \<and>
     (orc_of s = [] \<longrightarrow> orc_of s' = []) \<and> (st_ok s \<longrightarrow> st_ok s')"

lemma same_base_ok: "same_base s s' \<Longrightarrow> ucb_ok s \<Longrightarrow> ucb_ok s'"
  by (simp add: same_base_def ucb_ok_def ucb_inv_def)

lemma same_base_cm: "same_base s s' \<Longrightarrow> cm_of s' = cm_of s"
  by (simp add: same_base_def cm_of_def)

lemma same_base_refl [simp]: "same_base s s"
  by (simp add: same_base_def)

lemma same_base_trans: "same_base s s' \<Longrightarrow> same_base s' s'' \<Longrightarrow> same_base s s''"
  by (simp add: same_base_def)

lemma same_base_set_orc: "(orc_of s = [] \<longrightarrow> orc = []) \<Longrightarrow> same_base s (set_orc orc s)"
  by (simp add: same_base_def st_ok_upd)

lemma same_base_user:
  "user_at a s = Some u \<Longrightarrow> us_nick u' = us_nick u \<Longrightarrow> us_nchans u' = us_nchans u \<Longrightarrow>
   same_base s (put_user a (Some u') s)"
  by (simp add: same_base_def st_ok_upd fun_upd_idem base_of_sel)

lemma same_base_chan:
  "chan_at a s = Some c \<Longrightarrow> ch_name c' = ch_name c \<Longrightarrow> ch_memb c' = ch_memb c \<Longrightarrow> ch_modes c' \<noteq> [] \<Longrightarrow>
   same_base s (put_chan a (Some c') s)"
proof -
  assume a: "chan_at a s = Some c" "ch_name c' = ch_name c" "ch_memb c' = ch_memb c" "ch_modes c' \<noteq> []"
  have "st_ok (put_chan a (Some c') s)" if st: "st_ok s"
  proof -
    obtain m where "ch_memb c = Some m" "sk_ok (cm_of s) m" using st a(1) unfolding st_ok_def by blast
    then show ?thesis using st_ok_upd(8) [OF st a(1)] a(3,4) by simp
  qed
  with a show ?thesis by (simp add: same_base_def fun_upd_idem base_of_sel)
qed

lemma same_base_memb:
  "memb_at a s = Some m \<Longrightarrow> mb_u m' = mb_u m \<Longrightarrow> set (mb_modepfx m') \<subseteq> set (snd (pfx_of s)) \<Longrightarrow>
   same_base s (put_memb a (Some m') s)"
  by (simp add: same_base_def st_ok_upd fun_upd_idem base_of_sel)

lemma get_user_base: "ucb_ok s \<Longrightarrow> lsi_ucb_get_user ident s = bs_user (base_of s) (cmkey (cm_of s) ident)"
  unfolding ucb_ok_def ucb_inv_def by (auto elim!: st_okE simp: lsi_ucb_get_user_def base_of_sel lsi_get_Some)

lemma get_chan_base: "ucb_ok s \<Longrightarrow> lsi_ucb_get_chan name s = Some (bs_chan (base_of s) (cmkey (cm_of s) name))"
  unfolding ucb_ok_def ucb_inv_def by (auto elim!: st_okE simp: lsi_ucb_get_chan_def base_of_sel lsi_get_Some)

lemma listed_user:
  assumes "ucb_ok s" "bs_user (base_of s) q = Some ua"
  obtains u where "user_at ua s = Some u" "cmkey (cm_of s) (us_nick u) = q"
  using base_user [OF ucb_base [OF assms(1) [unfolded ucb_ok_def]] assms(2)] by (auto simp: base_of_sel)

lemma touch_field_set_orc:
  "touch_field c part sz field ident s = (f, s') \<Longrightarrow> \<exists>orc. s' = set_orc orc s \<and> (orc_of s = [] \<longrightarrow> orc = [])"
  by (auto simp: touch_field_def dest: st_strdup_set_orc split: if_splits intro: exI [of _ "orc_of s"])

lemma touch_user_int_ok:
  assumes "user_at ua s = Some u"
  obtains s' u' where "lsi_ucb_touch_user_int ua ident s = Some s'" "same_base s s'"
    "user_at ua s' = Some u'" "us_nick u' = us_nick u"
proof -
  obtain un s1 where t1: "touch_field (CHR ''!'') lsi_ut_ident2uname MAX_UNAME_LEN (us_uname u) ident s = (un, s1)" by fastforce
  then obtain o1 where o1: "s1 = set_orc o1 s" "orc_of s = [] \<longrightarrow> o1 = []" using touch_field_set_orc by blast
  obtain ho s2 where t2: "touch_field (CHR ''@'') lsi_ut_ident2host MAX_HOST_LEN (us_host u) ident s1 = (ho, s2)" by fastforce
  then obtain o2 where o2: "s2 = set_orc o2 s" "o1 = [] \<longrightarrow> o2 = []" using touch_field_set_orc [OF t2] o1 by auto
  let ?u = "u\<lparr>us_uname := un, us_host := ho\<rparr>"
  have "same_base s2 (put_user ua (Some ?u) s2)" by (rule same_base_user [of _ _ u]) (simp_all add: o2 assms)
  moreover have "same_base s s2" using o1 o2 by (simp add: same_base_set_orc)
  ultimately have "same_base s (put_user ua (Some ?u) s2)" by (blast intro: same_base_trans)
  with assms t1 t2 show thesis by (intro that [of "put_user ua (Some ?u) s2" ?u]) (simp_all add: lsi_ucb_touch_user_int_def)
qed

lemma touch_user_ok:
  assumes "ucb_ok s"
  obtains s' where "lsi_ucb_touch_user ident s = Some (bs_user (base_of s) (cmkey (cm_of s) ident), s')" "same_base s s'"
proof (cases "bs_user (base_of s) (cmkey (cm_of s) ident)")
  case None
  then show thesis using that [of s] by (simp add: lsi_ucb_touch_user_def get_user_base [OF assms])
next
  case (Some ua)
  obtain u where u: "user_at ua s = Some u" by (rule listed_user [OF assms Some])
  obtain s' where "lsi_ucb_touch_user_int ua ident s = Some s'" "same_base s s'" by (rule touch_user_int_ok [OF u])
  then show thesis using Some that [of s'] by (simp add: lsi_ucb_touch_user_def get_user_base [OF assms])
qed

lemma add_user_ok:
  assumes inv: "ucb_ok s"
  obtains r s' where "lsi_ucb_add_user ident s = Some (r, s')" "ucb_ok s'" "casemap_of s' = casemap_of s"
    "pfx_of s' = pfx_of s"
    "bs_chan (base_of s') = bs_chan (base_of s)" "bs_memb (base_of s') = bs_memb (base_of s)"
    "r = None \<longrightarrow> base_of s' = base_of s"
    "\<forall>a. r = Some a \<longrightarrow> (\<exists>u. user_at a s' = Some u \<and> us_nick u = lsi_ut_ident2nick [] MAX_NICK_LEN ident) \<and>
       bs_user (base_of s') = (bs_user (base_of s))(cmkey (cm_of s) (lsi_ut_ident2nick [] MAX_NICK_LEN ident) \<mapsto> a)"
    "orc_of s = [] \<longrightarrow> r \<noteq> None \<and> orc_of s' = []"
proof -
  note st = ucb_st [OF inv [unfolded ucb_ok_def]] and base = ucb_base [OF inv [unfolded ucb_ok_def]]
  have keep: "ucb_ok (set_orc orc s)" for orc using st base by (simp add: ucb_ok_def ucb_inv_def st_ok_upd)
  let ?n = "lsi_ut_ident2nick [] MAX_NICK_LEN ident" and ?a = "next_of s"
  obtain ok1 s1 where a1: "st_malloc s = (ok1, s1)" by fastforce
  then obtain o1 where o1: "s1 = set_orc o1 s" "orc_of s = [] \<longrightarrow> ok1 \<and> o1 = []" using st_malloc_set_orc by blast
  obtain n s2 where a2: "st_strdup ?n s1 = (n, s2)" by fastforce
  then obtain o2 where o2: "s2 = set_orc o2 s" "o1 = [] \<longrightarrow> n = Some ?n \<and> o2 = []" "n = None \<or> n = Some ?n"
    using st_strdup_set_orc [OF a2] o1 by auto
  obtain um where um: "users_of s = Some um" "sk_ok (cm_of s) um" by (rule st_okE [OF st])
  obtain ok um' o4 where p: "lsi_skmap_put o2 (Some um) (Some ?n) (Some ?a) = (ok, Some um', o4)"
    "sk_ok (cm_of s) um'" "sk_map um' = (if ok then (sk_map um)(cmkey (cm_of s) ?n \<mapsto> ?a) else sk_map um)"
    "o2 = [] \<longrightarrow> ok \<and> o4 = []" by (rule lsi_put_Some [OF um(2), of o2 ?n ?a])
  let ?s3 = "set_users (Some um') (set_orc o4 s)"
  have st3: "st_ok ?s3" using st p(2) by (simp add: st_ok_upd)
  consider "\<not> ok1" | "ok1" "n = None" | "ok1" "n = Some ?n" "\<not> ok" | "ok1" "n = Some ?n" "ok" using o2(3) by blast
  then show thesis
  proof cases
    case 1
    with a1 o1 keep show ?thesis by (intro that [of None s1]) (simp_all add: lsi_ucb_add_user_def Let_def)
  next
    case 2
    with a1 a2 o1 o2 keep show ?thesis by (intro that [of None s2]) (simp_all add: lsi_ucb_add_user_def Let_def)
  next
    case 3
    let ?s = "bump ?s3"
    have b: "base_of ?s = base_of s" using 3 p(3) um by (simp add: base_of_def)
    have "ucb_ok ?s" unfolding ucb_ok_def ucb_inv_def b using base st_ok_upd(12) [OF st3] by simp
    moreover have "lsi_ucb_add_user ident s = Some (None, ?s)"
      using 3 a1 a2 o1 o2 p um by (simp add: lsi_ucb_add_user_def fresh_bump Let_def)
    ultimately show ?thesis using 3 b o1 o2 p(4) by (intro that [of None ?s]) simp_all
  next
    case 4
    let ?s = "put_user ?a (Some (user_init ?n)) (bump ?s3)"
    have nw: "bs_nick (base_of s) ?a = None" using st_ok_next [OF st] by (simp add: base_of_sel)
    have b: "base_of ?s = (base_of s)\<lparr>bs_user := (bs_user (base_of s))(cmkey (cm_of s) ?n \<mapsto> ?a),
        bs_nick := (bs_nick (base_of s))(?a \<mapsto> cmkey (cm_of s) ?n), bs_refs := (bs_refs (base_of s))(?a := 0)\<rparr>"
      using 4 p(3) um by (simp add: base_of_sel user_init_def)
    have "st_ok ?s" using st_ok_fresh(1) [OF st3, of "user_init ?n"] by simp
    then have ok': "ucb_ok ?s" using base_add_user [OF base nw, of "cmkey (cm_of s) ?n"] b
      by (simp add: ucb_ok_def ucb_inv_def)
    have u: "user_at ?a ?s = Some (user_init ?n)" by simp
    obtain s5 u5 where s5: "lsi_ucb_touch_user_int ?a ident ?s = Some s5" "same_base ?s s5" "user_at ?a s5 = Some u5"
      "us_nick u5 = us_nick (user_init ?n)" by (rule touch_user_int_ok [OF u])
    have "lsi_ucb_add_user ident s = Some (Some ?a, s5)"
      using 4 a1 a2 o1 o2 p um s5(1) by (simp add: lsi_ucb_add_user_def fresh_bump Let_def)
    moreover have "ucb_ok s5" by (rule same_base_ok [OF s5(2) ok'])
    ultimately show ?thesis using 4 b s5 o1 o2 p(4)
      by (intro that [of "Some ?a" s5]) (simp_all add: same_base_def user_init_def)
  qed
qed

end
