(* ===== verification/Ucops.thy ===== *)
theory Ucops
  imports Ucinv
begin

text \<open>
  The three operations of \<open>libsrsirc/ucbase.c\<close> that touch many objects at once: taking a member
  out of a channel, dropping a user from everywhere and renaming a user.
\<close>

section \<open>Taking a member out of a channel\<close>

text \<open>What \<open>lsi_ucb_drop_memb\<close> does to the base.\<close>

definition bs_drop_memb :: "bool \<Rightarrow> addr \<Rightarrow> ckey \<Rightarrow> base \<Rightarrow> base" where
  "bs_drop_memb purge ca k b =
     (case bs_memb b ca k of
        None \<Rightarrow> b
      | Some ma \<Rightarrow> bs_unref purge ma (the (bs_who b ma))
                     (b\<lparr>bs_memb := (bs_memb b)(ca := (bs_memb b ca)(k := None))\<rparr>))"

lemma bs_unref_sel [simp]:
  "bs_chan (bs_unref purge ma ua b) = bs_chan b" "bs_memb (bs_unref purge ma ua b) = bs_memb b"
  "bs_name (bs_unref purge ma ua b) = bs_name b" "bs_who (bs_unref purge ma ua b) = (bs_who b)(ma := None)"
  "bs_user (bs_unref False ma ua b) = bs_user b" "bs_nick (bs_unref False ma ua b) = bs_nick b"
  by (simp_all add: bs_unref_def Let_def)

lemma bs_drop_memb_sel:
  "bs_chan (bs_drop_memb purge ca k b) = bs_chan b" "bs_name (bs_drop_memb purge ca k b) = bs_name b"
  "bs_user (bs_drop_memb False ca k b) = bs_user b" "bs_nick (bs_drop_memb False ca k b) = bs_nick b"
  by (simp_all add: bs_drop_memb_def split: option.split)

lemma bs_drop_memb_memb: "bs_memb (bs_drop_memb purge ca k b) = (bs_memb b)(ca := (bs_memb b ca)(k := None))"
proof (cases "bs_memb b ca k")
  case None
  then have "(bs_memb b)(ca := (bs_memb b ca)(k := None)) = bs_memb b" by (intro ext) (auto simp: fun_upd_idem)
  then show ?thesis using None by (simp add: bs_drop_memb_def)
next
  case (Some ma)
  then show ?thesis by (simp add: bs_drop_memb_def)
qed

lemma drop_memb_ok:
  assumes inv: "ucb_ok s" and q: "bs_chan (base_of s) q = Some ca" and u: "user_at ua s = Some u"
  obtains s' where
    "lsi_ucb_drop_memb ca ua purge s = Some (bs_memb (base_of s) ca (cmkey (cm_of s) (us_nick u)) \<noteq> None, s')"
    "ucb_ok s'" "base_of s' = bs_drop_memb purge ca (cmkey (cm_of s) (us_nick u)) (base_of s)"
    "chans_of s' = chans_of s" "casemap_of s' = casemap_of s" "orc_of s' = orc_of s"
proof -
  let ?k = "cmkey (cm_of s) (us_nick u)"
  note st = ucb_st [OF inv [unfolded ucb_ok_def]] and base = ucb_base [OF inv [unfolded ucb_ok_def]]
  obtain c m where c: "chan_at ca s = Some c" "ch_memb c = Some m" "sk_ok (cm_of s) m"
    using listed_chan [OF inv q] by metis
  have mm: "bs_memb (base_of s) ca = sk_map m" and h: "memb_map ca s = Some (Some m)"
    using c by (simp_all add: base_of_sel memb_map_bind)
  obtain m' where d: "lsi_skmap_del (Some m) (us_nick u) = (sk_map m ?k, Some m')" "sk_ok (cm_of s) m'"
    "sk_map m' = (sk_map m)(?k := None)" by (rule lsi_del_Some [OF c(3)])
  let ?s1 = "set_memb_map ca (Some m') s"
  have b1: "base_of ?s1 = (base_of s)\<lparr>bs_memb := (bs_memb (base_of s))(ca := (bs_memb (base_of s) ca)(?k := None))\<rparr>"
    using base_of_set_memb_map [OF c(1)] d(3) mm by simp
  have st1: "st_ok ?s1" by (rule st_ok_upd(9) [OF st d(2)])
  show thesis
  proof (cases "sk_map m ?k")
    case None
    have "base_of ?s1 = base_of s"
      using bs_drop_memb_memb [of False ca ?k "base_of s"] None mm by (simp add: b1 bs_drop_memb_def)
    moreover have "lsi_ucb_drop_memb ca ua purge s = Some (False, ?s1)"
      using None h u d by (simp add: lsi_ucb_drop_memb_def)
    ultimately show ?thesis using None mm base st1 that [of ?s1]
      by (simp add: ucb_ok_def ucb_inv_def bs_drop_memb_def)
  next
    case (Some ma)
    have ran: "ca \<in> ran (bs_chan (base_of s))" using q by (rule ranI)
    have i1: "ucb_inv None {} [ma] ?s1"
      unfolding ucb_inv_def b1 using base_detach [OF base ran, of ?k ma] st1 Some mm by simp
    have "bs_who (base_of s) ma \<noteq> None"
      using base_member_who [OF base, of ca ?k ma] ran Some mm by (auto simp: member_def)
    then obtain mb where mb: "memb_at ma s = Some mb" by (auto simp: base_of_sel)
    then have "memb_at ma ?s1 = Some mb" by simp
    from unref_user_ok [OF i1 this, of purge] obtain s2 where
      s2: "unref_user purge (mb_u mb) ?s1 = Some s2" "ucb_inv None {} [] (put_memb ma None s2)"
        "base_of (put_memb ma None s2) = bs_unref purge ma (mb_u mb) (base_of ?s1)" "frame ?s1 s2" by metis
    have "base_of (put_memb ma None s2) = bs_drop_memb purge ca ?k (base_of s)"
      using s2(3) Some mm mb b1 by (simp add: bs_drop_memb_def base_of_sel(4))
    moreover have "lsi_ucb_drop_memb ca ua purge s = Some (True, put_memb ma None s2)"
      using Some h u d mb s2(1) by (simp add: lsi_ucb_drop_memb_def)
    ultimately show ?thesis using Some mm s2(2,4) that [of "put_memb ma None s2"]
      by (simp add: ucb_ok_def frame_def)
  qed
qed

section \<open>Loops over the channels\<close>

text \<open>
  Moving the iterator of the map of channels is invisible; a loop over the channels meets
  exactly the listed ones.
\<close>

lemma set_chans_core:
  assumes "chans_of s = Some (Some m1)" "sk_core m1 = sk_core m" "sk_core m2 = sk_core m"
  shows "base_of (set_chans (Some m2) s) = base_of s" "st_ok s \<Longrightarrow> st_ok (set_chans (Some m2) s)"
proof -
  have "sk_map m2 = sk_map m1" "sk_ok cm m2 = sk_ok cm m1" for cm
    using assms(2,3) sk_core_cong by metis+
  then show "base_of (set_chans (Some m2) s) = base_of s" "st_ok s \<Longrightarrow> st_ok (set_chans (Some m2) s)"
    using assms(1) st_ok_upd(2) [of s m2] by (auto simp: base_of_sel elim!: st_okE)
qed

lemma entries_ran: "sk_ok cm m \<Longrightarrow> set (map snd (sk_entries m)) = ran (sk_map m)"
  using sk.ran_entries by auto

section \<open>Dropping a user\<close>

lemma drop_user_ok:
  assumes inv: "ucb_ok s" and q: "bs_user (base_of s) k = Some ua"
  obtains s' where "lsi_ucb_drop_user ua s = Some (True, s')" "ucb_ok s'"
    "bs_user (base_of s') = (bs_user (base_of s))(k := None)" "user_at ua s' = None"
    "bs_chan (base_of s') = bs_chan (base_of s)" "casemap_of s' = casemap_of s" "orc_of s' = orc_of s"
proof -
  note st = ucb_st [OF inv [unfolded ucb_ok_def]] and base = ucb_base [OF inv [unfolded ucb_ok_def]]
  obtain u where u: "user_at ua s = Some u" "cmkey (cm_of s) (us_nick u) = k" by (rule listed_user [OF inv q])
  obtain um cs where um: "users_of s = Some um" "sk_ok (cm_of s) um" and cs: "chans_of s = Some (Some cs)" "sk_ok (cm_of s) cs"
    by (rule st_okE [OF st])
  obtain um' where d: "lsi_skmap_del (Some um) (us_nick u) = (sk_map um k, Some um')" "sk_ok (cm_of s) um'"
    "sk_map um' = (sk_map um)(k := None)" using lsi_del_Some [OF um(2), of "us_nick u"] u(2) by metis
  have e: "sk_map um k = Some ua" using q um by (simp add: base_of_sel)
  let ?s1 = "set_users (Some um') s"
  have b1: "base_of ?s1 = (base_of s)\<lparr>bs_user := (bs_user (base_of s))(k := None)\<rparr>" using d um by (simp add: base_of_sel)
  have i1: "ucb_ok ?s1" unfolding ucb_ok_def ucb_inv_def b1 using base_unlist [OF base] st_ok_upd(1) [OF st d(2)] by simp
  define I where "I = (\<lambda>vs s'. ucb_ok s' \<and> bs_nick (base_of s') ua = Some k \<and>
    bs_user (base_of s') = bs_user (base_of ?s1) \<and> bs_chan (base_of s') = bs_chan (base_of s) \<and>
    casemap_of s' = casemap_of s \<and> orc_of s' = orc_of s \<and> set vs \<subseteq> ran (bs_chan (base_of s)) \<and>
    (\<forall>ca q ma. member (base_of s') {} ca q ma \<and> bs_who (base_of s') ma = Some ua \<longrightarrow> q = k \<and> ca \<in> set vs))"
  let ?body = "\<lambda>ca s. do { (_, s') \<leftarrow> lsi_ucb_drop_memb ca ua False s; Some (False, s') }"
  have ran: "set (map snd (sk_entries cs)) = ran (bs_chan (base_of s))"
    using entries_ran [OF cs(2)] cs(1) by (simp add: base_of_sel)
  have init: "I (map snd (sk_entries cs)) ?s1"
  proof -
    have nk: "bs_nick (base_of s) ua = Some k" by (rule base_user [OF base q])
    have ls: "ua \<in> ran (bs_user (base_of s))" using q by (rule ranI)
    have "q' = k \<and> ca \<in> set (map snd (sk_entries cs))"
      if "member (base_of s) {} ca q' ma" "bs_who (base_of s) ma = Some ua" for ca q' ma
      using base_member_key [OF base that ls] nk that(1) unfolding ran by (simp add: member_def)
    then have "\<forall>ca q ma. member (base_of s) {} ca q ma \<and> bs_who (base_of s) ma = Some ua \<longrightarrow>
        q = k \<and> ca \<in> set (map snd (sk_entries cs))" by blast
    then show ?thesis unfolding I_def b1 using i1 nk ran b1 by simp
  qed
  have g: "chans_of ?s1 = Some (Some cs)" using cs by simp
  have stable: "I vs (set_chans (Some m2) s')"
    if "I vs s'" "chans_of s' = Some (Some m1)" "sk_core m1 = sk_core cs" "sk_core m2 = sk_core cs" for vs s' m1 m2
  proof -
    note b = set_chans_core [OF that(2-4)]
    have "ucb_ok (set_chans (Some m2) s')" using that(1) b by (simp add: I_def ucb_ok_def ucb_inv_def del: base_of_upd)
    then show ?thesis using that(1) unfolding I_def b(1) by simp
  qed
  have step: "\<exists>stop s2. ?body v s' = Some (stop, s2) \<and> chans_of s2 = Some (Some m1) \<and> (if stop then False else I vs s2)"
    if I: "I (v # vs) s'" and g': "chans_of s' = Some (Some m1)" and "sk_core m1 = sk_core cs" for v vs s' m1
  proof -
    have cm: "cm_of s' = cm_of s" using I by (simp add: I_def cm_of_def)
    obtain u' where u': "user_at ua s' = Some u'" "cmkey (cm_of s') (us_nick u') = k"
      using I by (auto simp: I_def base_of_sel)
    obtain qc where qc: "bs_chan (base_of s') qc = Some v" using I by (auto simp: I_def ran_def)
    have ok': "ucb_ok s'" using I by (simp add: I_def)
    from drop_memb_ok [OF ok' qc u'(1), of False] u'(2) obtain s2 where
      s2: "lsi_ucb_drop_memb v ua False s' = Some (bs_memb (base_of s') v k \<noteq> None, s2)" "ucb_ok s2"
        "base_of s2 = bs_drop_memb False v k (base_of s')" "chans_of s2 = chans_of s'"
        "casemap_of s2 = casemap_of s'" "orc_of s2 = orc_of s'" by metis
    have mem: "member (base_of s2) {} ca q ma \<longleftrightarrow> member (base_of s') {} ca q ma \<and> (ca, q) \<noteq> (v, k)" for ca q ma
      unfolding s2(3) by (auto simp: member_def bs_drop_memb_sel bs_drop_memb_memb split: if_splits)
    have who: "bs_who (base_of s2) ma = Some x \<Longrightarrow> bs_who (base_of s') ma = Some x" for ma x
      unfolding s2(3) by (auto simp: bs_drop_memb_def split: option.splits if_splits)
    have rest: "q = k \<and> ca \<in> set vs" if "member (base_of s2) {} ca q ma" "bs_who (base_of s2) ma = Some ua" for ca q ma
    proof -
      have "member (base_of s') {} ca q ma" "bs_who (base_of s') ma = Some ua" "(ca, q) \<noteq> (v, k)"
        using that who unfolding mem by blast+
      then have "q = k \<and> ca \<in> set (v # vs)" using I unfolding I_def by blast
      then show ?thesis using \<open>(ca, q) \<noteq> (v, k)\<close> by auto
    qed
    have "bs_nick (base_of s2) ua = Some k" "bs_user (base_of s2) = bs_user (base_of ?s1)"
      "bs_chan (base_of s2) = bs_chan (base_of s)" "set vs \<subseteq> ran (bs_chan (base_of s))"
      using I unfolding I_def s2(3) bs_drop_memb_sel by simp_all
    then have "I vs s2" unfolding I_def using I s2(2,5,6) rest by (auto simp: I_def)
    then show ?thesis using s2(1,4) g' by (intro exI [of _ False] exI [of _ s2]) simp
  qed
  obtain stop s2 m' where loop: "for_each chans_of set_chans ?body ?s1 = Some (stop, s2)" "if stop then False else I [] s2"
    by (rule ch.for_each_rule [where I = I and Q = "\<lambda>_. False", OF g cs(2) init stable step])
  then have I2: "I [] s2" "\<not> stop" by (auto split: if_splits)
  then obtain u2 where u2: "user_at ua s2 = Some u2" by (auto simp: I_def base_of_sel)
  let ?s3 = "free_user ua u2 s2"
  have base2: "base_ok None {} [] (base_of s2)" and st2: "st_ok s2" using I2 by (simp_all add: I_def ucb_ok_def ucb_inv_def)
  have "slots (base_of s2) {} ua = {}" using I2 by (auto simp: I_def slots_def)
  moreover have "bs_user (base_of s2) p \<noteq> Some ua" for p
  proof -
    have "bs_user (base_of s2) p = Some ua \<Longrightarrow> p = k"
      using base_user [OF base2, of p ua] I2 by (simp add: I_def)
    moreover have "bs_user (base_of s2) k = None" using I2 d(3) by (simp add: I_def)
    ultimately show ?thesis by auto
  qed
  ultimately have "base_ok None {} [] (base_of ?s3)"
    using base_free [OF base2, of ua] by (auto simp: free_user_def pending_def ran_def)
  then have "ucb_ok ?s3" using st2 by (simp add: ucb_ok_def ucb_inv_def free_user_def st_ok_upd)
  moreover have "lsi_ucb_drop_user ua s = Some (True, ?s3)"
    using u um d e loop(1) u2 by (simp add: lsi_ucb_drop_user_def)
  moreover have "sk_map um' = (bs_user (base_of s))(k := None)" using d(3) um by (simp add: base_of_sel)
  ultimately show thesis using I2 that [of ?s3] by (simp add: I_def free_user_def)
qed

section \<open>Renaming a user\<close>

text \<open>One channel of the loop of \<open>lsi_ucb_rename_user\<close>, when the allocations succeed.\<close>

definition bs_rekey :: "addr \<Rightarrow> ckey \<Rightarrow> ckey \<Rightarrow> base \<Rightarrow> base" where
  "bs_rekey ca oldk newk b =
     (case bs_memb b ca oldk of
        None \<Rightarrow> b
      | Some ma \<Rightarrow> b\<lparr>bs_memb := (bs_memb b)(ca := ((bs_memb b ca)(newk \<mapsto> ma))(oldk := None))\<rparr>)"

lemma rekey_memb_ok:
  assumes st: "st_ok s" and ca: "chan_at ca s = Some c" and orc: "orc_of s = []"
  obtains s' where "rekey_memb ident newnick ca s = Some (False, s')" "st_ok s'" "orc_of s' = []"
    "base_of s' = bs_rekey ca (cmkey (cm_of s) ident) (cmkey (cm_of s) newnick) (base_of s)"
    "chans_of s' = chans_of s" "casemap_of s' = casemap_of s"
proof -
  obtain m where m: "ch_memb c = Some m" "sk_ok (cm_of s) m" using st ca unfolding st_ok_def by blast
  have h: "memb_map ca s = Some (Some m)" and mm: "bs_memb (base_of s) ca = sk_map m"
    using ca m by (simp_all add: memb_map_bind base_of_sel)
  show thesis
  proof (cases "sk_map m (cmkey (cm_of s) ident)")
    case None
    then show ?thesis using h mm m st orc that [of s] by (simp add: rekey_memb_def lsi_get_Some bs_rekey_def)
  next
    case (Some ma)
    obtain ok m1 o1 where p: "lsi_skmap_put [] (Some m) (Some newnick) (Some ma) = (ok, Some m1, o1)" "sk_ok (cm_of s) m1"
      "sk_map m1 = (if ok then (sk_map m)(cmkey (cm_of s) newnick \<mapsto> ma) else sk_map m)"
      "([] :: mallocs) = [] \<longrightarrow> ok \<and> o1 = []" by (rule lsi_put_Some [OF m(2), of "[]" newnick ma])
    obtain m2 where d: "lsi_skmap_del (Some m1) ident = (sk_map m1 (cmkey (cm_of s) ident), Some m2)" "sk_ok (cm_of s) m2"
      "sk_map m2 = (sk_map m1)(cmkey (cm_of s) ident := None)" by (rule lsi_del_Some [OF p(2)])
    let ?s = "set_memb_map ca (Some m2) (set_memb_map ca (Some m1) (set_orc [] s))"
    have "chan_at ca (set_memb_map ca (Some m1) (set_orc [] s)) = Some (c\<lparr>ch_memb := Some m1\<rparr>)" using ca by simp
    from base_of_set_memb_map [OF this, of "Some m2"] have
      "base_of ?s = bs_rekey ca (cmkey (cm_of s) ident) (cmkey (cm_of s) newnick) (base_of s)"
      using base_of_set_memb_map [of ca "set_orc [] s" c "Some m1"] ca d(3) p(3,4) Some mm by (simp add: bs_rekey_def)
    moreover have "rekey_memb ident newnick ca s = Some (False, ?s)"
      using Some h m p d orc by (simp add: rekey_memb_def lsi_get_Some Let_def)
    moreover have "st_ok ?s" using st p(2) d(2) by (simp add: st_ok_upd)
    ultimately show ?thesis using that [of ?s] by simp
  qed
qed

text \<open>
  The branch for a nickname that only changes its case leaves every key as it is; it is taken by
  the comparison of \<open>lsi_ut_istrcmp\<close>, which has to agree with the maps (the hypothesis \<open>agree\<close>).
\<close>

lemma rename_user_ok:
  assumes inv: "ucb_ok s" and orc: "orc_of s = []"
    and agree: "\<And>ua u. bs_user (base_of s) (cmkey (cm_of s) ident) = Some ua \<Longrightarrow> user_at ua s = Some u \<Longrightarrow>
      lsi_ut_istrcmp (lsi_ut_ident2nick [] MAX_NICK_LEN ident) newnick (casemap_of s) = 0 \<Longrightarrow>
      cmkey (cm_of s) (ncpy (length (us_nick u) + 1) newnick) = cmkey (cm_of s) (us_nick u)"
  obtains ok s' where "lsi_ucb_rename_user ident newnick s = Some (ok, False, s')" "ucb_ok s'"
    "casemap_of s' = casemap_of s" "orc_of s' = []" "bs_chan (base_of s') = bs_chan (base_of s)"
    "ok = (bs_user (base_of s) (cmkey (cm_of s) ident) \<noteq> None)"
    "ok \<and> lsi_ut_istrcmp (lsi_ut_ident2nick [] MAX_NICK_LEN ident) newnick (casemap_of s) \<noteq> 0 \<longrightarrow>
     bs_user (base_of s') = ((bs_user (base_of s))(cmkey (cm_of s) newnick := bs_user (base_of s) (cmkey (cm_of s) ident)))
       (cmkey (cm_of s) ident := None)"
proof -
  note st = ucb_st [OF inv [unfolded ucb_ok_def]] and base = ucb_base [OF inv [unfolded ucb_ok_def]]
  let ?ok = "cmkey (cm_of s) ident" and ?nk = "cmkey (cm_of s) newnick"
  let ?jc = "lsi_ut_istrcmp (lsi_ut_ident2nick [] MAX_NICK_LEN ident) newnick (casemap_of s) = 0"
  note gu = get_user_base [OF inv, of ident]
  show thesis
  proof (cases "bs_user (base_of s) ?ok")
    case None
    then show ?thesis using gu inv orc that [of False s] by (simp add: lsi_ucb_rename_user_def)
  next
    case (Some ua)
    obtain u where u: "user_at ua s = Some u" "cmkey (cm_of s) (us_nick u) = ?ok" by (rule listed_user [OF inv Some])
    show ?thesis
    proof (cases ?jc)
      case True
      let ?s = "put_user ua (Some (u\<lparr>us_nick := ncpy (length (us_nick u) + 1) newnick\<rparr>)) s"
      have "base_of ?s = base_of s"
        using u agree [OF Some u(1) True] by (simp add: base_of_sel fun_upd_idem)
      moreover have "st_ok ?s" using st u by (simp add: st_ok_upd)
      moreover have "lsi_ucb_rename_user ident newnick s = Some (True, False, ?s)"
        using True gu Some u by (simp add: lsi_ucb_rename_user_def Let_def)
      ultimately show ?thesis using True Some orc base that [of True ?s] by (simp add: ucb_ok_def ucb_inv_def)
    next
      case False
      obtain um cs where um: "users_of s = Some um" "sk_ok (cm_of s) um" and cs: "chans_of s = Some (Some cs)" "sk_ok (cm_of s) cs"
        by (rule st_okE [OF st])
      let ?s2 = "put_user ua (Some (u\<lparr>us_nick := newnick\<rparr>)) (set_orc [] s)"
      have sd: "st_strdup newnick s = (Some newnick, set_orc [] s)"
        using orc by (simp add: st_strdup_def st_malloc_def orc_of_def set_orc_def)
      obtain ok um1 o1 where p: "lsi_skmap_put [] (Some um) (Some newnick) (Some ua) = (ok, Some um1, o1)" "sk_ok (cm_of s) um1"
        "sk_map um1 = (if ok then (sk_map um)(?nk \<mapsto> ua) else sk_map um)"
        "([] :: mallocs) = [] \<longrightarrow> ok \<and> o1 = []" by (rule lsi_put_Some [OF um(2), of "[]" newnick ua])
      let ?s3 = "set_users (Some um1) (set_orc [] ?s2)"
      let ?s4 = "del_user_key ident ?s3"
      have st3: "st_ok ?s3" using st u p(2) by (simp add: st_ok_upd)
      have b4: "base_of ?s4 = (base_of s)\<lparr>bs_nick := (bs_nick (base_of s))(ua \<mapsto> ?nk),
          bs_user := ((bs_user (base_of s))(?nk \<mapsto> ua))(?ok := None)\<rparr>"
        using st_ok_del_user(2) [OF st3, of ident] p(3,4) um u by (simp add: base_of_sel fun_upd_idem)
      have i4: "base_ok (Some ua) {} [] (base_of ?s4)" unfolding b4 by (rule base_rename_start [OF base Some])
      have st4: "st_ok ?s4" by (rule st_ok_del_user(1) [OF st3])
      define I where "I = (\<lambda>vs s'. st_ok s' \<and> base_ok (Some ua) {} [] (base_of s') \<and> orc_of s' = [] \<and>
        casemap_of s' = casemap_of s \<and> bs_user (base_of s') = bs_user (base_of ?s4) \<and> bs_nick (base_of s') ua = Some ?nk \<and>
        bs_chan (base_of s') = bs_chan (base_of s) \<and> set vs \<subseteq> ran (bs_chan (base_of s)) \<and>
        (\<forall>ca q ma. member (base_of s') {} ca q ma \<and> bs_who (base_of s') ma = Some ua \<longrightarrow>
           q = ?nk \<or> (q = ?ok \<and> ca \<in> set vs)))"
      have ran: "set (map snd (sk_entries cs)) = ran (bs_chan (base_of s))"
        using entries_ran [OF cs(2)] cs(1) by (simp add: base_of_sel)
      have init: "I (map snd (sk_entries cs)) ?s4"
      proof -
        have nk: "bs_nick (base_of s) ua = Some ?ok" by (rule base_user [OF base Some])
        have ls: "ua \<in> ran (bs_user (base_of s))" using Some by (rule ranI)
        have "q' = ?ok \<and> ca \<in> set (map snd (sk_entries cs))"
          if "member (base_of s) {} ca q' ma" "bs_who (base_of s) ma = Some ua" for ca q' ma
          using base_member_key [OF base that ls] nk that(1) unfolding ran by (simp add: member_def)
        then have M: "\<forall>ca q ma. member (base_of s) {} ca q ma \<and> bs_who (base_of s) ma = Some ua \<longrightarrow>
            q = ?nk \<or> (q = ?ok \<and> ca \<in> set (map snd (sk_entries cs)))" by blast
        have "orc_of ?s4 = []" "casemap_of ?s4 = casemap_of s" by (simp_all add: del_user_key_def)
        then show ?thesis unfolding I_def using i4 st4 M ran by (simp add: b4)
      qed
      have g: "chans_of ?s4 = Some (Some cs)" using cs by (simp add: del_user_key_def)
      have stable: "I vs (set_chans (Some m2) s')"
        if "I vs s'" "chans_of s' = Some (Some m1)" "sk_core m1 = sk_core cs" "sk_core m2 = sk_core cs" for vs s' m1 m2
        using that(1) set_chans_core [OF that(2-4)] unfolding I_def set_chans_core(1) [OF that(2-4)] by simp
      have step: "\<exists>stop s2. rekey_memb ident newnick v s' = Some (stop, s2) \<and> chans_of s2 = Some (Some m1) \<and>
          (if stop then False else I vs s2)"
        if I: "I (v # vs) s'" and g': "chans_of s' = Some (Some m1)" and "sk_core m1 = sk_core cs" for v vs s' m1
      proof -
        have cm: "cm_of s' = cm_of s" and st': "st_ok s'" and ok': "base_ok (Some ua) {} [] (base_of s')"
          using I by (simp_all add: I_def cm_of_def)
        have vr: "v \<in> ran (bs_chan (base_of s'))" using I by (simp add: I_def)
        then obtain qc where "bs_chan (base_of s') qc = Some v" by (auto simp: ran_def)
        then have "bs_name (base_of s') v = Some qc" by (rule base_chan [OF ok'])
        then obtain c where c: "chan_at v s' = Some c" by (auto simp: base_of_sel)
        have or': "orc_of s' = []" using I by (simp add: I_def)
        obtain s2 where s2: "rekey_memb ident newnick v s' = Some (False, s2)" "st_ok s2" "orc_of s2 = []"
          "base_of s2 = bs_rekey v ?ok ?nk (base_of s')" "chans_of s2 = chans_of s'" "casemap_of s2 = casemap_of s'"
          using rekey_memb_ok [OF st' c or', of ident newnick] unfolding cm by metis
        have un: "bs_user (base_of s') ?ok = None" using I by (simp add: I_def b4)
        have "base_ok (Some ua) {} [] (base_of s2)"
          using base_rekey [OF ok' un vr, of _ ?nk] ok' by (simp add: s2(4) bs_rekey_def split: option.split)
        moreover have "q = ?nk \<or> (q = ?ok \<and> ca \<in> set vs)"
          if "member (base_of s2) {} ca q ma" "bs_who (base_of s2) ma = Some ua" for ca q ma
        proof -
          have w: "bs_who (base_of s') ma = Some ua"
            using that(2) by (simp add: s2(4) bs_rekey_def split: option.splits)
          have "(ca = v \<and> q = ?nk) \<or> (member (base_of s') {} ca q ma \<and> \<not> (ca = v \<and> q = ?ok))"
            using that(1) by (auto simp: s2(4) bs_rekey_def member_def split: option.splits if_splits)
          then show ?thesis using I w unfolding I_def by fastforce
        qed
        moreover have "bs_user (base_of s2) = bs_user (base_of s')" "bs_nick (base_of s2) = bs_nick (base_of s')"
          "bs_chan (base_of s2) = bs_chan (base_of s')"
          by (simp_all add: s2(4) bs_rekey_def split: option.split)
        ultimately have "I vs s2" using I s2(2,3,6) unfolding I_def by auto
        then show ?thesis using s2(1,5) g' by (intro exI [of _ False] exI [of _ s2]) simp
      qed
      obtain stop s5 m' where loop: "for_each chans_of set_chans (rekey_memb ident newnick) ?s4 = Some (stop, s5)"
        "if stop then False else I [] s5"
        by (rule ch.for_each_rule [where I = I and Q = "\<lambda>_. False", OF g cs(2) init stable step])
      then have I5: "I [] s5" "\<not> stop" by (auto split: if_splits)
      have "base_ok None {} [] (base_of s5)"
        by (rule base_rename_done [of ua]) (use I5 in \<open>auto simp: I_def\<close>)
      then have "ucb_ok s5" using I5 by (simp add: I_def ucb_ok_def ucb_inv_def)
      moreover have "lsi_ucb_rename_user ident newnick s = Some (True, False, s5)"
        using False gu Some u sd p um loop(1) I5(2) by (simp add: lsi_ucb_rename_user_def Let_def)
      ultimately show ?thesis using Some I5 b4 that [of True s5] by (simp add: I_def)
    qed
  qed
qed

end
