(* ===== verification/Trackinv.thy ===== *)
theory Trackinv
  imports Ucops Track
begin

text \<open>
  The tracking handlers of \<open>libsrsirc/irc_track.c\<close> keep the base of users and channels well
  formed.  \<open>tracked\<close> is the contract of a handler: it returns (touches no freed object, reads
  no missing field) and leaves a state with the invariant \<open>ucb_ok\<close>.
\<close>

definition tracked :: "st \<Rightarrow> (u16 \<times> st) option \<Rightarrow> bool" where
  "tracked s res \<longleftrightarrow> (\<exists>r s'. res = Some (r, s') \<and> ucb_ok s' \<and> casemap_of s' = casemap_of s)"

named_theorems tracked_intros \<open>the results of handlers\<close>

lemma tracked_same [tracked_intros]: "ucb_ok s \<Longrightarrow> tracked s (Some (r, s))"
  by (simp add: tracked_def)

lemma tracked_ret: "ucb_ok s' \<Longrightarrow> casemap_of s' = casemap_of s \<Longrightarrow> tracked s (Some (r, s'))"
  by (simp add: tracked_def)

lemma tracked_same_base: "ucb_ok s \<Longrightarrow> same_base s s' \<Longrightarrow> tracked s (Some (r, s'))"
  using same_base_ok [of s s'] by (auto simp: tracked_def same_base_def)

lemma tracked_cong: "casemap_of s' = casemap_of s \<Longrightarrow> tracked s' res \<Longrightarrow> tracked s res"
  by (simp add: tracked_def)

lemma tracked_same_base_cong: "same_base s s' \<Longrightarrow> tracked s' res \<Longrightarrow> tracked s res"
  by (simp add: tracked_def same_base_def)

lemma chan_name_base: "ucb_ok s \<Longrightarrow> lsi_ucb_get_chan name s = Some (bs_chan (base_of s) (cmkey (cm_of s) name))"
  by (rule get_chan_base)

lemma set_endofnames_simps [simp]:
  "casemap_of (set_endofnames b s) = casemap_of s" "cm_of (set_endofnames b s) = cm_of s"
  "users_of (set_endofnames b s) = users_of s" "chans_of (set_endofnames b s) = chans_of s"
  "user_at x (set_endofnames b s) = user_at x s" "chan_at x (set_endofnames b s) = chan_at x s"
  "memb_at x (set_endofnames b s) = memb_at x s" "next_of (set_endofnames b s) = next_of s"
  "orc_of (set_endofnames b s) = orc_of s" "pfx_of (set_endofnames b s) = pfx_of s"
  by (simp_all add: acc_defs pfx_of_def set_endofnames_def)

lemma cls_endofnames [simp]: "cls_of (set_endofnames b s) = cls_of s"
  by (rule modes_upd) (simp_all add: set_endofnames_def)

lemma same_base_endofnames: "same_base s (set_endofnames b s)"
  by (simp add: same_base_def base_of_def st_ok_def modes_ok_def)

section \<open>Joining and leaving\<close>

text \<open>The user listed under \<open>k\<close> is a member of the channel.\<close>

definition is_member :: "st \<Rightarrow> addr \<Rightarrow> ckey \<Rightarrow> bool" where
  "is_member s ca k \<longleftrightarrow> (\<exists>ma ua. bs_user (base_of s) k = Some ua \<and> bs_memb (base_of s) ca k = Some ma \<and>
     bs_who (base_of s) ma = Some ua)"

definition ident_key :: "st \<Rightarrow> string \<Rightarrow> ckey" where
  "ident_key s ident =
     (if bs_user (base_of s) (cmkey (cm_of s) ident) = None then cmkey (cm_of s) (lsi_ut_ident2nick [] MAX_NICK_LEN ident)
      else cmkey (cm_of s) ident)"

lemma add_memb_pfx:
  assumes "lsi_ucb_add_memb ca ua x s = Some (ok, s')"
  shows "pfx_of s' = pfx_of s"
proof -
  obtain b s1 where m: "st_malloc s = (b, s1)" by fastforce
  then have "pfx_of s1 = pfx_of s" using st_malloc_set_orc by fastforce
  with assms m show ?thesis
    by (auto simp: lsi_ucb_add_memb_def lsi_ucb_alloc_memb_def fresh_def Let_def pfx_of_def acc_defs set_memb_map_def
        split: prod.splits if_splits option.splits)
qed

lemma join_user_ok:
  assumes inv: "ucb_ok s" and q: "bs_chan (base_of s) q = Some ca" and px: "set mpfx \<subseteq> set (snd (pfx_of s))"
  obtains ok s' where "join_user ca ident mpfx s = Some (ok, s')" "ucb_ok s'" "casemap_of s' = casemap_of s"
    "bs_chan (base_of s') = bs_chan (base_of s)" "orc_of s = [] \<longrightarrow> ok \<and> orc_of s' = []"
    "ok \<longrightarrow> is_member s' ca (ident_key s ident)" "ok \<longrightarrow> pfx_of s' = pfx_of s"
proof -
  note gu = get_user_base [OF inv, of ident]
  show thesis
  proof (cases "bs_user (base_of s) (cmkey (cm_of s) ident)")
    case (Some ua)
    obtain u where u: "user_at ua s = Some u" "cmkey (cm_of s) (us_nick u) = cmkey (cm_of s) ident"
      by (rule listed_user [OF inv Some])
    obtain ok s1 where a: "lsi_ucb_add_memb ca ua mpfx s = Some (ok, s1)" "ucb_ok s1" "casemap_of s1 = casemap_of s"
      "bs_chan (base_of s1) = bs_chan (base_of s)" "orc_of s = [] \<longrightarrow> ok \<and> orc_of s1 = []"
      "bs_user (base_of s1) = bs_user (base_of s)"
      "ok \<longrightarrow> (\<exists>ma. bs_memb (base_of s1) ca (cmkey (cm_of s) (us_nick u)) = Some ma \<and> bs_who (base_of s1) ma = Some ua \<and>
         bs_refs (base_of s1) ua = bs_refs (base_of s) ua + 1)"
      by (rule add_memb_ok [OF inv q u(1) px])
    have "join_user ca ident mpfx s = Some (ok, s1)"
      using gu Some a(1) by (cases ok) (simp_all add: join_user_def)
    moreover have "ok \<longrightarrow> is_member s1 ca (ident_key s ident)" using a(6,7) Some u(2) by (auto simp: is_member_def ident_key_def)
    ultimately show ?thesis using a(2-5) add_memb_pfx [OF a(1)] by (intro that [of ok s1]) simp_all
  next
    case None
    obtain r s1 where a: "lsi_ucb_add_user ident s = Some (r, s1)" "ucb_ok s1" "casemap_of s1 = casemap_of s"
      "pfx_of s1 = pfx_of s" "bs_chan (base_of s1) = bs_chan (base_of s)"
      "\<forall>a. r = Some a \<longrightarrow> (\<exists>u. user_at a s1 = Some u \<and> us_nick u = lsi_ut_ident2nick [] MAX_NICK_LEN ident) \<and>
         bs_user (base_of s1) = (bs_user (base_of s))(cmkey (cm_of s) (lsi_ut_ident2nick [] MAX_NICK_LEN ident) \<mapsto> a)"
      "orc_of s = [] \<longrightarrow> r \<noteq> None \<and> orc_of s1 = []"
      by (rule add_user_ok [OF inv, of ident])
    show ?thesis
    proof (cases r)
      case None
      with a \<open>bs_user (base_of s) (cmkey (cm_of s) ident) = None\<close> gu show ?thesis
        by (intro that [of False s1]) (auto simp: join_user_def)
    next
      case (Some ua)
      let ?k = "cmkey (cm_of s) (lsi_ut_ident2nick [] MAX_NICK_LEN ident)"
      obtain u where u: "user_at ua s1 = Some u" "us_nick u = lsi_ut_ident2nick [] MAX_NICK_LEN ident" using a(6) Some by blast
      have q1: "bs_chan (base_of s1) q = Some ca" using q a(5) by simp
      obtain ok s2 where b: "lsi_ucb_add_memb ca ua mpfx s1 = Some (ok, s2)" "ucb_ok s2" "casemap_of s2 = casemap_of s1"
        "bs_chan (base_of s2) = bs_chan (base_of s1)" "bs_user (base_of s2) = bs_user (base_of s1)"
        "orc_of s1 = [] \<longrightarrow> ok \<and> orc_of s2 = []"
        "ok \<longrightarrow> (\<exists>ma. bs_memb (base_of s2) ca (cmkey (cm_of s1) (us_nick u)) = Some ma \<and> bs_who (base_of s2) ma = Some ua \<and>
           bs_refs (base_of s2) ua = bs_refs (base_of s1) ua + 1)"
        by (rule add_memb_ok [OF a(2) q1 u(1)]) (use px a(4) in auto)
      have "bs_user (base_of s2) ?k = Some ua" using a(6) Some b(5) by simp
      from drop_user_ok [OF b(2) this] obtain s3 where
        c: "lsi_ucb_drop_user ua s2 = Some (True, s3)" "ucb_ok s3" "bs_chan (base_of s3) = bs_chan (base_of s2)"
          "casemap_of s3 = casemap_of s2" "orc_of s3 = orc_of s2" by metis
      have "join_user ca ident mpfx s = Some (if ok then (True, s2) else (False, s3))"
        using gu None a(1) Some b(1) c(1) by (cases ok) (simp_all add: join_user_def)
      moreover have "cm_of s1 = cm_of s" using a(3) by (simp add: cm_of_def)
      then have "ok \<longrightarrow> is_member s2 ca (ident_key s ident)"
        using b(7) \<open>bs_user (base_of s2) ?k = Some ua\<close> u(2) None by (auto simp: is_member_def ident_key_def)
      ultimately show ?thesis using a(3,5,7) b(2-4,6) c(2-5) a(4) add_memb_pfx [OF b(1)] by (cases ok) (auto intro: that)
    qed
  qed
qed

lemma leave_user_ok:
  assumes inv: "ucb_ok s" and q: "bs_chan (base_of s) q = Some ca"
  obtains s' where "leave_user ca ident s = Some s'" "ucb_ok s'" "casemap_of s' = casemap_of s"
    "base_of s' = (if bs_user (base_of s) (cmkey (cm_of s) ident) = None then base_of s
       else bs_drop_memb True ca (cmkey (cm_of s) ident) (base_of s))"
proof (cases "bs_user (base_of s) (cmkey (cm_of s) ident)")
  case None
  then show thesis using inv that [of s] by (simp add: leave_user_def get_user_base)
next
  case (Some ua)
  obtain u where u: "user_at ua s = Some u" "cmkey (cm_of s) (us_nick u) = cmkey (cm_of s) ident"
    by (rule listed_user [OF inv Some])
  obtain f s' where "lsi_ucb_drop_memb ca ua True s = Some (f, s')" "ucb_ok s'" "casemap_of s' = casemap_of s"
    "base_of s' = bs_drop_memb True ca (cmkey (cm_of s) (us_nick u)) (base_of s)"
    using drop_memb_ok [OF inv q u(1), of True] by metis
  then show thesis using inv Some u(2) that [of s'] by (simp add: leave_user_def get_user_base)
qed

lemma arg: "nargs = msg_ac msg \<Longrightarrow> i < nargs \<Longrightarrow> 2 \<le> i \<Longrightarrow> \<exists>x. tk msg i = Some x"
  by (simp add: tk_below_ac)

lemma h_JOIN_tracked:
  assumes inv: "ucb_ok s" and n: "nargs = msg_ac msg"
    and short: "\<And>ch. tk msg 2 = Some ch \<Longrightarrow> length ch < MAX_CHAN_LEN"
  shows "tracked s (h_JOIN msg nargs logon s)"
proof (cases "tk msg 0")
  case None
  then show ?thesis using inv by (simp add: h_JOIN_def tracked_same)
next
  case (Some pfx)
  show ?thesis
  proof (cases "nargs < 3")
    case True
    then show ?thesis using Some inv by (simp add: h_JOIN_def tracked_same)
  next
    case False
    then obtain ch where ch: "tk msg 2 = Some ch" using arg [OF n, of 2] by auto
    note gc = chan_name_base [OF inv, of ch]
    show ?thesis
    proof (cases "bs_chan (base_of s) (cmkey (cm_of s) ch)")
      case None
      obtain r s' where "lsi_ucb_add_chan ch s = Some (r, s')" "ucb_ok s'" "casemap_of s' = casemap_of s"
        by (rule add_chan_ok [OF inv short [OF ch]])
      then show ?thesis using Some False ch gc None inv by (simp add: h_JOIN_def tracked_same tracked_ret)
    next
      case q: (Some ca)
      obtain ok s' where "join_user ca pfx [] s = Some (ok, s')" "ucb_ok s'" "casemap_of s' = casemap_of s"
        by (rule join_user_ok [OF inv q, of "[]" pfx]) auto
      then show ?thesis using Some False ch gc q inv by (simp add: h_JOIN_def tracked_same tracked_ret)
    qed
  qed
qed

text \<open>Handlers that first touch the user who speaks\<close>

lemma touch_then:
  assumes inv: "ucb_ok s" and rest: "\<And>s1. same_base s s1 \<Longrightarrow> ucb_ok s1 \<Longrightarrow> tracked s1 (f s1)"
  shows "tracked s (do { (_, s1) \<leftarrow> lsi_ucb_touch_user pfx s; f s1 })"
proof -
  obtain s1 where s1: "lsi_ucb_touch_user pfx s = Some (bs_user (base_of s) (cmkey (cm_of s) pfx), s1)" "same_base s s1"
    by (rule touch_user_ok [OF inv])
  then show ?thesis using tracked_same_base_cong [OF s1(2) rest [OF s1(2) same_base_ok [OF s1(2) inv]]] by simp
qed

lemma on_chan:
  assumes inv: "ucb_ok s" and rest: "\<And>q ca. bs_chan (base_of s) q = Some ca \<Longrightarrow> tracked s (f ca)"
  shows "tracked s (do { c \<leftarrow> lsi_ucb_get_chan ch s; case c of None \<Rightarrow> Some (0, s) | Some ca \<Rightarrow> f ca })"
  using inv rest by (cases "bs_chan (base_of s) (cmkey (cm_of s) ch)") (simp_all add: chan_name_base tracked_same)

lemma drop_chan_tracked:
  assumes "ucb_ok s" "bs_chan (base_of s) q = Some ca"
  shows "tracked s (do { (_, s') \<leftarrow> lsi_ucb_drop_chan ca s; Some (0, s') })"
proof -
  obtain s' where "lsi_ucb_drop_chan ca s = Some (True, s')" "ucb_ok s'" "casemap_of s' = casemap_of s"
    by (rule drop_chan_ok [OF assms])
  then show ?thesis by (simp add: tracked_ret)
qed

lemma leave_user_tracked:
  assumes "ucb_ok s" "bs_chan (base_of s) q = Some ca"
  shows "tracked s (do { s' \<leftarrow> leave_user ca ident s; Some (0, s') })"
proof -
  obtain s' where "leave_user ca ident s = Some s'" "ucb_ok s'" "casemap_of s' = casemap_of s"
    by (rule leave_user_ok [OF assms])
  then show ?thesis by (simp add: tracked_ret)
qed

lemma h_PART_tracked:
  assumes inv: "ucb_ok s" and n: "nargs = msg_ac msg"
  shows "tracked s (h_PART msg nargs logon s)"
proof (cases "tk msg 0 = None \<or> nargs < 3")
  case True
  then show ?thesis using inv by (auto simp: h_PART_def tracked_same split: option.split)
next
  case False
  then obtain pfx ch where f: "tk msg 0 = Some pfx" "\<not> nargs < 3" "tk msg 2 = Some ch" using arg [OF n, of 2] by auto
  show ?thesis
    unfolding h_PART_def f(1,3) using f(2)
    by (simp del: bind_eq_Some_conv) (rule touch_then [OF inv], rule on_chan, assumption,
        simp add: drop_chan_tracked leave_user_tracked)
qed

lemma h_KICK_tracked:
  assumes inv: "ucb_ok s" and n: "nargs = msg_ac msg"
  shows "tracked s (h_KICK msg nargs logon s)"
proof (cases "tk msg 0 = None \<or> nargs < 4")
  case True
  then show ?thesis using inv by (auto simp: h_KICK_def tracked_same split: option.split)
next
  case False
  then obtain pfx ch v where f: "tk msg 0 = Some pfx" "\<not> nargs < 4" "tk msg 2 = Some ch" "tk msg 3 = Some v"
    using arg [OF n, of 2] arg [OF n, of 3] by auto
  show ?thesis
    unfolding h_KICK_def f(1,3,4) using f(2)
    by (simp del: bind_eq_Some_conv) (rule touch_then [OF inv], rule on_chan, assumption,
        simp add: drop_chan_tracked leave_user_tracked)
qed

lemma h_QUIT_tracked:
  assumes inv: "ucb_ok s"
  shows "tracked s (h_QUIT msg nargs logon s)"
proof (cases "tk msg 0")
  case None
  then show ?thesis using inv by (simp add: h_QUIT_def tracked_same)
next
  case (Some pfx)
  have drop: "tracked s1 (case lsi_ucb_get_user pfx s1 of None \<Rightarrow> Some (0, s1)
      | Some ua \<Rightarrow> do { (_, s2) \<leftarrow> lsi_ucb_drop_user ua s1; Some (0, s2) })" if i1: "ucb_ok s1" for s1
  proof (cases "bs_user (base_of s1) (cmkey (cm_of s1) pfx)")
    case None
    then show ?thesis using i1 by (simp add: get_user_base tracked_same)
  next
    case (Some ua)
    obtain s2 where "lsi_ucb_drop_user ua s1 = Some (True, s2)" "ucb_ok s2" "casemap_of s2 = casemap_of s1"
      by (rule drop_user_ok [OF i1 Some])
    then show ?thesis using i1 Some by (simp add: get_user_base tracked_ret)
  qed
  show ?thesis unfolding h_QUIT_def Some by simp (rule touch_then [OF inv drop])
qed

section \<open>Renaming\<close>

text \<open>
  The case mappings and \<open>lsi_ut_istrcmp\<close> agree on names without caret and tilde; on a name as it
  stands in a message the handler's comparison is then the comparison of the maps.
\<close>

definition plain_name :: "string \<Rightarrow> bool" where
  "plain_name s \<longleftrightarrow> list_all (\<lambda>c. c \<noteq> NUL \<and> c \<noteq> CHR ''!'' \<and> c \<noteq> CHR ''@'' \<and> c \<noteq> CHR ''^'' \<and> c \<noteq> CHR ''~'') s"

lemma plain_nick_chars: "plain_name s \<Longrightarrow> nick_chars s"
  by (auto simp: plain_name_def nick_chars_def list_all_iff)

lemma fold_iff:
  fixes x y :: nat
  assumes x: "x \<noteq> 33" "x \<noteq> 64" "x \<noteq> 94" "x \<noteq> 126" and y: "y \<noteq> 33" "y \<noteq> 64" "y \<noteq> 94" "y \<noteq> 126"
    and "hi = 122 \<and> r = 0 \<or> hi = 125 \<and> r = 4 \<or> hi = 126 \<and> r = 3"
  shows "(if 65 \<le> x \<and> x \<le> 90 + r then x + 32 else x) = (if 65 \<le> y \<and> y \<le> 90 + r then y + 32 else y) \<longleftrightarrow>
    fold_byte hi x = fold_byte hi y"
proof -
  define f :: "nat \<Rightarrow> nat" where "f x = (if 65 \<le> x \<and> x \<le> 90 + r then x + 32 else x)" for x
  have 1: "fold_byte hi (f z) = fold_byte hi z" "f (fold_byte hi z) = f z"
    if "z \<noteq> 33" "z \<noteq> 64" "z \<noteq> 94" "z \<noteq> 126" for z
    using that assms(9) by (auto simp: f_def fold_byte_def)
  show ?thesis unfolding f_def [symmetric] using 1 [OF x] 1 [OF y] by metis
qed
lemma tolower_plain_iff:
  assumes "cm < 3" "plain_name [c]" "plain_name [d]"
  shows "lsi_ut_tolower c cm = lsi_ut_tolower d cm \<longleftrightarrow> g_cmap cm ! byte c = g_cmap cm ! byte d"
proof -
  have ne: "byte e \<noteq> 33 \<and> byte e \<noteq> 64 \<and> byte e \<noteq> 94 \<and> byte e \<noteq> 126" if "plain_name [e]" for e
    using that byte_inject [of e "CHR ''!''"] byte_inject [of e "CHR ''@''"] byte_inject [of e "CHR ''^''"]
      byte_inject [of e "CHR ''~''"] unfolding plain_name_def by (auto simp: byte_def)
  obtain r where r: "tolower_rangeinc cm = int r"
    "cmap_hi cm = 122 \<and> r = 0 \<or> cmap_hi cm = 125 \<and> r = 4 \<or> cmap_hi cm = 126 \<and> r = 3"
  proof -
    have "cm = 0 \<or> cm = 1 \<or> cm = 2" using assms(1) by auto
    then show thesis
      by (elim disjE) (rule that [of 4] that [of 3] that [of 0]; simp add: tolower_rangeinc_def cmap_hi_def cmap_ids)+
  qed
  have le: "int (byte e) \<le> 90 + int r \<longleftrightarrow> byte e \<le> 90 + r" for e by linarith
  show ?thesis
    using fold_iff [OF _ _ _ _ _ _ _ _ r(2), of "byte c" "byte d"] ne [OF assms(2)] ne [OF assms(3)] assms(1)
    unfolding byte_inject [symmetric, of "lsi_ut_tolower c cm"] byte_tolower r(1) le by (simp add: g_cmap_nth)
qed

lemma istrcmp_plain_key:
  assumes "cm < 3" "plain_name a" "plain_name b"
  shows "lsi_ut_istrcmp a b cm = 0 \<longleftrightarrow> cmkey (g_cmap cm) a = cmkey (g_cmap cm) b"
proof -
  have "map (\<lambda>c. lsi_ut_tolower c cm) a = map (\<lambda>c. lsi_ut_tolower c cm) b \<longleftrightarrow>
      map (\<lambda>c. g_cmap cm ! byte c) a = map (\<lambda>c. g_cmap cm ! byte c) b"
    using assms(2,3)
  proof (induction a arbitrary: b)
    case (Cons x a)
    show ?case
    proof (cases b)
      case (Cons y b')
      then have "plain_name [x]" "plain_name [y]" "plain_name a" "plain_name b'"
        using Cons.prems by (auto simp: plain_name_def)
      with Cons Cons.IH show ?thesis by (simp add: tolower_plain_iff [OF assms(1)])
    qed simp
  qed auto
  then show ?thesis using assms by (simp add: istrcmp_0_iff cmkey_nick plain_nick_chars)
qed

text \<open>The nickname of a prefix and the key of the prefix\<close>

lemma cut_at_key:
  assumes "cm < 3" "c = CHR ''!'' \<or> c = CHR ''@''"
  shows "cmkey (g_cmap cm) (cut_at c s) = cmkey (g_cmap cm) s"
proof -
  have "byte c = 33 \<or> byte c = 64" using assms(2) by (auto simp: byte_def)
  then have z: "g_cmap cm ! byte c = 0" unfolding g_cmap_nth [OF assms(1)] fold_byte_def by auto
  have t: "cmkey (g_cmap cm) (takeWhile (\<lambda>x. x \<noteq> c) s) = cmkey (g_cmap cm) s"
    by (induction s) (auto simp: cmkey_Cons z)
  show ?thesis
  proof (cases "strchr s c")
    case None
    then show ?thesis by (simp add: cut_at_def)
  next
    case (Some i)
    then show ?thesis using t by (simp add: cut_at_def strchr_Some_take)
  qed
qed

lemma nick_key:
  assumes "cm < 3" "length pfx < MAX_NICK_LEN \<or> length (cmkey (g_cmap cm) pfx) < MAX_NICK_LEN"
  shows "cmkey (g_cmap cm) (lsi_ut_ident2nick [] MAX_NICK_LEN pfx) = cmkey (g_cmap cm) pfx"
proof -
  have "length (cmkey (g_cmap cm) pfx) \<le> MAX_NICK_LEN - 1"
    using assms(2) length_cmkey_le [of "g_cmap cm" pfx] by (auto simp: MAX_NICK_LEN_def)
  then have "cmkey (g_cmap cm) (ncpy MAX_NICK_LEN pfx) = cmkey (g_cmap cm) pfx"
    unfolding ncpy_def by (rule cmkey_take)
  then show ?thesis
    using cut_at_key [OF assms(1)] by (simp add: lsi_ut_ident2nick_def MAX_NICK_LEN_def)
qed

text \<open>
  A NICK message renames safely when the old and the new nickname are plain (or, under the ASCII
  mapping, free of separators) and the old one is not cut off.
\<close>

definition nick_agrees :: "nat \<Rightarrow> string \<Rightarrow> string \<Rightarrow> bool" where
  "nick_agrees cm pfx newnick \<longleftrightarrow> length (cmkey (g_cmap cm) pfx) < MAX_NICK_LEN \<and>
     (plain_name (pfx_nick pfx) \<and> plain_name newnick \<or>
      cm = CMAP_ASCII \<and> nick_chars (pfx_nick pfx) \<and> nick_chars newnick)"

lemma nick_agrees_key:
  assumes "cm < 3" "nick_agrees cm pfx newnick" "lsi_ut_istrcmp (pfx_nick pfx) newnick cm = 0"
  shows "cmkey (g_cmap cm) newnick = cmkey (g_cmap cm) pfx" "length (cmkey (g_cmap cm) pfx) = length newnick"
proof -
  have k: "cmkey (g_cmap cm) (pfx_nick pfx) = cmkey (g_cmap cm) pfx"
    unfolding pfx_nick_def by (rule nick_key [OF assms(1)]) (use assms(2) in \<open>simp add: nick_agrees_def\<close>)
  have "cmkey (g_cmap cm) (pfx_nick pfx) = cmkey (g_cmap cm) newnick"
    using assms istrcmp_plain_key [OF assms(1), of "pfx_nick pfx" newnick] istrcmp_ascii_key [of "pfx_nick pfx" newnick]
    by (auto simp: nick_agrees_def)
  then show e: "cmkey (g_cmap cm) newnick = cmkey (g_cmap cm) pfx" using k by simp
  have "nick_chars newnick" using assms(2) plain_nick_chars by (auto simp: nick_agrees_def)
  then show "length (cmkey (g_cmap cm) pfx) = length newnick"
    using e cmkey_nick [OF assms(1)] by (metis length_map)
qed

lemma h_NICK_tracked:
  assumes inv: "ucb_ok s" and n: "nargs = msg_ac msg" and orc: "orc_of s = []" and cm: "casemap_of s < 3"
    and ag: "\<And>pfx nn. tk msg 0 = Some pfx \<Longrightarrow> tk msg 2 = Some nn \<Longrightarrow> nick_agrees (casemap_of s) pfx nn"
  shows "tracked s (h_NICK msg nargs logon s)"
proof (cases "tk msg 0 = None \<or> nargs < 3")
  case True
  then show ?thesis using inv by (auto simp: h_NICK_def tracked_same split: option.split)
next
  case False
  then obtain pfx nn where f: "tk msg 0 = Some pfx" "\<not> nargs < 3" "tk msg 2 = Some nn" using arg [OF n, of 2] by auto
  note agr = ag [OF f(1,3)]
  have ren: "tracked s1 (do { (ok, aerr, s2) \<leftarrow> lsi_ucb_rename_user pfx nn s1;
      Some ((if \<not> ok \<and> aerr then ALLOC_ERR else 0), s2) })"
    if sb: "same_base s s1" and i1: "ucb_ok s1" for s1
  proof -
    have c1: "casemap_of s1 = casemap_of s" "cm_of s1 = g_cmap (casemap_of s)" and o1: "orc_of s1 = []"
      using sb orc by (simp_all add: same_base_def cm_of_def)
    have key: "cmkey (cm_of s1) (ncpy (length (us_nick u) + 1) nn) = cmkey (cm_of s1) (us_nick u)"
      if "bs_user (base_of s1) (cmkey (cm_of s1) pfx) = Some ua" "user_at ua s1 = Some u"
        "lsi_ut_istrcmp (lsi_ut_ident2nick [] MAX_NICK_LEN pfx) nn (casemap_of s1) = 0" for ua u
    proof -
      have z: "lsi_ut_istrcmp (pfx_nick pfx) nn (casemap_of s) = 0" using that(3) c1 by (simp add: pfx_nick_def)
      note k = nick_agrees_key [OF cm agr z]
      have "cmkey (cm_of s1) (us_nick u) = cmkey (cm_of s1) pfx"
        using listed_user [OF i1 that(1)] that(2) by force
      moreover have "length nn \<le> length (us_nick u)"
        using k(2) calculation length_cmkey_le [of "cm_of s1" "us_nick u"] c1 by simp
      ultimately show ?thesis using k(1) c1 by (simp add: ncpy_def)
    qed
    obtain ok s2 where "lsi_ucb_rename_user pfx nn s1 = Some (ok, False, s2)" "ucb_ok s2" "casemap_of s2 = casemap_of s1"
      by (rule rename_user_ok [OF i1 o1 key])
    then show ?thesis by (simp add: tracked_ret)
  qed
  show ?thesis unfolding h_NICK_def f(1,3) using f(2) by (simp del: bind_eq_Some_conv) (rule touch_then [OF inv ren])
qed

section \<open>The list of names\<close>

text \<open>
  The loop of \<open>h_353\<close> stays inside the list of names exactly when it does not end in a space;
  that it never reads past the end is shown for lists that are not empty and do not.
\<close>

lemma names_loop_ok:
  assumes "ucb_ok s" "bs_chan (base_of s) q = Some ca" "cstr_ok p" "p \<noteq> []" "last p \<noteq> CHR '' ''"
  shows "tracked s (names_loop ca p s)"
  using assms
proof (induction ca p s rule: names_loop.induct)
  case (1 ca p s)
  let ?isp = "strchr (snd (ic_m005modepfx (st_irc s))) (hdz p) \<noteq> None"
  let ?mp = "if ?isp then [hdz p] else []" and ?q = "if ?isp then tl p else p"
  let ?nick = "take (MAX_NICK_LEN - 1) (takeWhile (\<lambda>c. c \<noteq> CHR '' '') ?q)"
  obtain c p' where p: "p = c # p'" using "1.prems"(4) by (cases p) auto
  have "c \<noteq> NUL" using "1.prems"(3) p by simp
  then have px: "set ?mp \<subseteq> set (snd (pfx_of s))"
    using p strchr_None_iff [of "snd (pfx_of s)" c] by (auto simp: pfx_of_def)
  obtain ok s1 where j: "join_user ca ?nick ?mp s = Some (ok, s1)" "ucb_ok s1" "casemap_of s1 = casemap_of s"
    "bs_chan (base_of s1) = bs_chan (base_of s)" by (rule join_user_ok [OF "1.prems"(1,2) px, of ?nick])
  have np: "\<not> (?isp \<and> p = [])" using p by simp
  show ?case
  proof (cases "strchr ?q (CHR '' '')")
    case None
    then show ?thesis
      using "1.prems"(4) j by (subst names_loop.simps) (simp add: tracked_ret Let_def del: not_None_eq)
  next
    case (Some e)
    have e: "e < length ?q" "?q ! e = CHR '' ''" using strchr_Some_less [OF Some] by simp_all
    let ?r = "drop (e + 1) ?q"
    have "?q \<noteq> []" using e(1) by (cases ?q) simp_all
    then have lq: "last ?q = last p" using p by (cases ?isp) (simp_all add: last_tl)
    have rne: "?r \<noteq> []"
    proof
      assume "?r = []"
      then have "e = length ?q - 1" using e(1) by (metis Suc_eq_plus1 diff_Suc_1 drop_eq_Nil le_antisym Suc_leI)
      then have "last ?q = CHR '' ''" using e \<open>?q \<noteq> []\<close> by (metis last_conv_nth)
      with lq "1.prems"(5) show False by simp
    qed
    then have lr: "last ?r = last p" using lq by (metis drop_eq_Nil last_drop linorder_not_le)
    have okr: "cstr_ok ?r" using "1.prems"(3) p by (cases ?isp) (simp_all del: drop_Suc_Cons)
    have "tracked s1 (names_loop ca ?r s1)" if ok
      by (rule "1.IH" [OF refl np refl refl refl j(1) refl _ Some j(2)])
        (use j(4) "1.prems"(2,5) lr rne okr that in simp_all)
    then show ?thesis
      using "1.prems"(4) j Some tracked_cong [OF j(3)]
      by (subst names_loop.simps) (simp add: tracked_ret Let_def del: not_None_eq)
  qed
qed

lemma h_353_tracked:
  assumes inv: "ucb_ok s" and n: "nargs = msg_ac msg"
    and nm: "\<And>p. tk msg 5 = Some p \<Longrightarrow> cstr_ok p \<and> p \<noteq> [] \<and> last p \<noteq> CHR '' ''"
  shows "tracked s (h_353 msg nargs logon s)"
proof (cases "tk msg 0 = None \<or> nargs < 6")
  case True
  then show ?thesis using inv by (simp add: h_353_def tracked_same)
next
  case False
  then obtain ch p where f: "\<not> (tk msg 0 = None \<or> nargs < 6)" "tk msg 4 = Some ch" "tk msg 5 = Some p"
    using arg [OF n, of 4] arg [OF n, of 5] by auto
  have body: "tracked s (do {
      s1 \<leftarrow> (if ic_endofnames (st_irc s)
             then do { s' \<leftarrow> lsi_ucb_clear_memb ca s; Some (set_endofnames False s') } else Some s);
      names_loop ca p s1 })" if q: "bs_chan (base_of s) q = Some ca" for q ca
  proof (cases "ic_endofnames (st_irc s)")
    case True
    obtain s1 where s1: "lsi_ucb_clear_memb ca s = Some s1" "ucb_ok s1" "chans_of s1 = chans_of s" "casemap_of s1 = casemap_of s"
      by (rule clear_memb_ok [OF inv q])
    let ?s1 = "set_endofnames False s1"
    have ok1: "ucb_ok ?s1" by (rule same_base_ok [OF same_base_endofnames s1(2)])
    have "bs_chan (base_of ?s1) q = Some ca" using q s1(3) by (simp add: base_of_sel)
    then have "tracked ?s1 (names_loop ca p ?s1)" using nm [OF f(3)] by (intro names_loop_ok [OF ok1]) auto
    then show ?thesis using True s1 tracked_cong [of ?s1 s] by simp
  next
    case False
    then show ?thesis using nm [OF f(3)] names_loop_ok [OF inv q] by simp
  qed
  show ?thesis
    unfolding h_353_def f(2,3) if_not_P [OF f(1)]
    by (simp del: bind_eq_Some_conv) (rule on_chan [OF inv], use body in \<open>simp del: bind_eq_Some_conv\<close>)
qed

section \<open>Channel data\<close>

lemma alive_chan:
  assumes "ucb_ok s" "bs_chan (base_of s) q = Some ca"
  obtains c where "chan_at ca s = Some c" "ch_modes c \<noteq> []"
proof -
  obtain c where "chan_at ca s = Some c" by (rule listed_chan [OF assms])
  moreover have "modes_ok s" using assms(1) by (simp add: ucb_ok_def ucb_inv_def st_ok_def)
  ultimately show thesis using that by (auto simp: modes_ok_def)
qed

lemma h_366_tracked:
  assumes inv: "ucb_ok s" and n: "nargs = msg_ac msg"
  shows "tracked s (h_366 msg nargs logon s)"
proof (cases "tk msg 0 = None \<or> nargs < 4")
  case True
  then show ?thesis using inv by (simp add: h_366_def tracked_same)
next
  case False
  then obtain ch where f: "\<not> (tk msg 0 = None \<or> nargs < 4)" "tk msg 3 = Some ch" using arg [OF n, of 3] by auto
  let ?s1 = "set_endofnames True s"
  have ok1: "ucb_ok ?s1" by (rule same_base_ok [OF same_base_endofnames inv])
  have body: "tracked ?s1 (do { c \<leftarrow> chan_at ca ?s1; Some (0, put_chan ca (Some (c\<lparr>ch_desync := False\<rparr>)) ?s1) })"
    if q: "bs_chan (base_of ?s1) q = Some ca" for q ca
  proof -
    obtain c where c: "chan_at ca ?s1 = Some c" "ch_modes c \<noteq> []" by (rule alive_chan [OF ok1 q])
    then show ?thesis
      using tracked_same_base [OF ok1 same_base_chan [OF c(1), of "c\<lparr>ch_desync := False\<rparr>"]] by simp
  qed
  have "tracked ?s1 (h_366 msg nargs logon s)"
    unfolding h_366_def f(2) if_not_P [OF f(1)] Let_def
    by (simp del: bind_eq_Some_conv set_endofnames_simps) (rule on_chan [OF ok1 body])
  then show ?thesis by (rule tracked_cong [rotated]) simp
qed

lemma set_topic_ok:
  assumes inv: "ucb_ok s" and q: "bs_chan (base_of s) q = Some ca"
  obtains s' where "set_topic ca v s = Some s'" "same_base s s'"
proof -
  obtain c where c: "chan_at ca s = Some c" "ch_modes c \<noteq> []" by (rule alive_chan [OF inv q])
  show thesis
    using same_base_chan [OF c(1), of "c\<lparr>ch_topic := v\<rparr>"] c by (intro that) (simp_all add: set_topic_def)
qed

lemma set_topicnick_ok:
  assumes inv: "ucb_ok s" and q: "bs_chan (base_of s) q = Some ca"
  obtains s' where "set_topicnick ca v s = Some s'" "same_base s s'"
proof -
  obtain c where c: "chan_at ca s = Some c" "ch_modes c \<noteq> []" by (rule alive_chan [OF inv q])
  show thesis
    using same_base_chan [OF c(1), of "c\<lparr>ch_topicnick := v\<rparr>"] c by (intro that) (simp_all add: set_topicnick_def)
qed

text \<open>A listed channel stays listed and the invariant holds, after any step the base does not show.\<close>

lemma same_base_step:
  assumes "same_base s s'" "ucb_ok s" "bs_chan (base_of s) q = Some ca"
  shows "ucb_ok s'" "bs_chan (base_of s') q = Some ca"
  using assms same_base_ok by (simp_all add: same_base_def)

lemma strdup_same_base: "st_strdup x s = (d, s') \<Longrightarrow> same_base s s'"
  using st_strdup_set_orc [of x s d s'] same_base_set_orc by blast

lemma h_332_tracked:
  assumes inv: "ucb_ok s" and n: "nargs = msg_ac msg"
  shows "tracked s (h_332 msg nargs logon s)"
proof (cases "tk msg 0 = None \<or> nargs < 5")
  case True
  then show ?thesis using inv by (simp add: h_332_def tracked_same)
next
  case False
  then obtain ch t where f: "\<not> (tk msg 0 = None \<or> nargs < 5)" "tk msg 3 = Some ch" "tk msg 4 = Some t"
    using arg [OF n, of 3] arg [OF n, of 4] by auto
  obtain d s1 where d: "st_strdup t s = (d, s1)" by fastforce
  have body: "tracked s (do { s2 \<leftarrow> set_topic ca d s1; Some ((if d = None then ALLOC_ERR else 0), s2) })"
    if q: "bs_chan (base_of s) q = Some ca" for q ca
  proof -
    note sb = strdup_same_base [OF d] and st = same_base_step [OF strdup_same_base [OF d] inv q]
    obtain s2 where "set_topic ca d s1 = Some s2" "same_base s1 s2" by (rule set_topic_ok [OF st])
    then show ?thesis using tracked_same_base [OF inv same_base_trans [OF sb]] by simp
  qed
  show ?thesis
    unfolding h_332_def f(2,3) if_not_P [OF f(1)]
    by (simp only: bind.bind_lunit Let_def d prod.case) (rule on_chan [OF inv body])
qed

lemma h_333_tracked:
  assumes inv: "ucb_ok s" and n: "nargs = msg_ac msg"
  shows "tracked s (h_333 msg nargs logon s)"
proof (cases "tk msg 0 = None \<or> nargs < 6")
  case True
  then show ?thesis using inv by (simp add: h_333_def tracked_same)
next
  case False
  then obtain ch t ts where f: "\<not> (tk msg 0 = None \<or> nargs < 6)" "tk msg 3 = Some ch" "tk msg 4 = Some t" "tk msg 5 = Some ts"
    using arg [OF n, of 3] arg [OF n, of 4] arg [OF n, of 5] by auto
  obtain d s1 where d: "st_strdup t s = (d, s1)" by fastforce
  have body: "tracked s (do {
      s2 \<leftarrow> set_topicnick ca d s1;
      if d = None then Some (ALLOC_ERR, s2)
      else do { c \<leftarrow> chan_at ca s2; Some (0, put_chan ca (Some (c\<lparr>ch_tstopic := x\<rparr>)) s2) } })"
    if q: "bs_chan (base_of s) q = Some ca" for q ca x
  proof -
    note sb = strdup_same_base [OF d] and st = same_base_step [OF strdup_same_base [OF d] inv q]
    obtain s2 where s2: "set_topicnick ca d s1 = Some s2" "same_base s1 s2" by (rule set_topicnick_ok [OF st])
    note st2 = same_base_step [OF s2(2) st]
    obtain c where c: "chan_at ca s2 = Some c" "ch_modes c \<noteq> []" by (rule alive_chan [OF st2])
    have "same_base s2 (put_chan ca (Some (c\<lparr>ch_tstopic := x\<rparr>)) s2)"
      by (rule same_base_chan [OF c(1)]) (simp_all add: c)
    then show ?thesis
      using s2 c same_base_trans [OF sb] tracked_same_base [OF inv] by (auto intro: same_base_trans)
  qed
  show ?thesis
    unfolding h_333_def f(2,3,4) if_not_P [OF f(1)]
    by (simp only: bind.bind_lunit Let_def d prod.case) (rule on_chan [OF inv body])
qed

lemma h_TOPIC_tracked:
  assumes inv: "ucb_ok s" and n: "nargs = msg_ac msg"
  shows "tracked s (h_TOPIC msg nargs logon s)"
proof (cases "tk msg 0 = None \<or> nargs < 4")
  case True
  then show ?thesis using inv by (auto simp: h_TOPIC_def tracked_same split: option.split)
next
  case False
  then obtain pfx ch t where f: "tk msg 0 = Some pfx" "\<not> nargs < 4" "tk msg 2 = Some ch" "tk msg 3 = Some t"
    using arg [OF n, of 2] arg [OF n, of 3] by auto
  have body: "tracked s1 (do {
      s2 \<leftarrow> set_topicnick ca None s1;
      let (d, s3) = st_strdup t s2;
      s4 \<leftarrow> set_topic ca d s3;
      if d = None then Some (ALLOC_ERR, s4)
      else do {
        let (n, s5) = st_strdup (pfx_nick pfx) s4;
        s6 \<leftarrow> set_topicnick ca n s5;
        Some ((if n = None then ALLOC_ERR else 0), s6) } })"
    if i1: "ucb_ok s1" and q: "bs_chan (base_of s1) q = Some ca" for s1 q ca
  proof -
    obtain s2 where s2: "set_topicnick ca None s1 = Some s2" "same_base s1 s2" by (rule set_topicnick_ok [OF i1 q])
    obtain d s3 where d: "st_strdup t s2 = (d, s3)" by fastforce
    note sb3 = same_base_trans [OF s2(2) strdup_same_base [OF d]]
    obtain s4 where s4: "set_topic ca d s3 = Some s4" "same_base s3 s4" by (rule set_topic_ok [OF same_base_step [OF sb3 i1 q]])
    note sb4 = same_base_trans [OF sb3 s4(2)]
    obtain nn s5 where n: "st_strdup (pfx_nick pfx) s4 = (nn, s5)" by fastforce
    note sb5 = same_base_trans [OF sb4 strdup_same_base [OF n]]
    obtain s6 where s6: "set_topicnick ca nn s5 = Some s6" "same_base s5 s6" by (rule set_topicnick_ok [OF same_base_step [OF sb5 i1 q]])
    show ?thesis
      using s2 d s4 n s6 tracked_same_base [OF i1 sb4] tracked_same_base [OF i1 same_base_trans [OF sb5 s6(2)]] by simp
  qed
  show ?thesis
    unfolding h_TOPIC_def f(1,3,4) using f(2)
    by (simp del: bind_eq_Some_conv) (rule touch_then [OF inv], rule on_chan, assumption,
        use body in \<open>simp del: bind_eq_Some_conv\<close>)
qed

section \<open>What is known about a user\<close>

lemma touch_speaker_tracked: "ucb_ok s \<Longrightarrow> tracked s (touch_speaker msg nargs logon s)"
proof -
  assume inv: "ucb_ok s"
  have "tracked s (do { (_, s1) \<leftarrow> lsi_ucb_touch_user pfx s; Some (0, s1) })" for pfx
    by (rule touch_then [OF inv]) (rule tracked_same)
  then show ?thesis using inv by (auto simp: touch_speaker_def tracked_same split: option.split)
qed

lemma refresh_set_orc: "refresh f v s = (f', s') \<Longrightarrow> \<exists>orc. s' = set_orc orc s \<and> (orc_of s = [] \<longrightarrow> orc = [])"
proof -
  assume a: "refresh f v s = (f', s')"
  have "st_strprop f (Some v) s = (b, f', s') \<Longrightarrow> \<exists>orc. s' = set_orc orc s \<and> (orc_of s = [] \<longrightarrow> orc = [])" for b
    by (auto simp: st_strprop_def lsi_com_update_strprop_def lsi_b_strdup_def acc_defs split: prod.splits if_splits)
  with a show ?thesis
    by (auto simp: refresh_def split: if_splits prod.splits option.splits intro: exI [of _ "orc_of s"])
qed

lemma refresh_user_ok:
  assumes "user_at ua s = Some u"
  obtains s' where "refresh_user ua uname host fname s = Some s'" "same_base s s'"
proof -
  obtain un s1 where r1: "refresh (us_uname u) uname s = (un, s1)" by fastforce
  obtain ho s2 where r2: "refresh (us_host u) host s1 = (ho, s2)" by fastforce
  obtain fn s3 where r3: "(case fname of Some f \<Rightarrow> refresh (us_fname u) f s2 | None \<Rightarrow> (us_fname u, s2)) = (fn, s3)" by fastforce
  have sb: "same_base s s1" "same_base s1 s2"
    using refresh_set_orc [OF r1] refresh_set_orc [OF r2] same_base_set_orc by blast+
  have sb3: "same_base s2 s3"
    using r3 refresh_set_orc [of "us_fname u" _ s2 fn s3] same_base_set_orc by (cases fname) auto
  obtain o1 o2 o3 where "s1 = set_orc o1 s" "s2 = set_orc o2 s1" "s3 = set_orc o3 s2 \<or> s3 = s2"
    using refresh_set_orc [OF r1] refresh_set_orc [OF r2] r3 refresh_set_orc [of "us_fname u" _ s2 fn s3]
    by (cases fname) (auto, blast+)
  then have u: "user_at ua s3 = Some u" using assms by auto
  have "same_base s3 (put_user ua (Some (u\<lparr>us_uname := un, us_host := ho, us_fname := fn\<rparr>)) s3)"
    by (rule same_base_user [OF u]) simp_all
  then have "same_base s (put_user ua (Some (u\<lparr>us_uname := un, us_host := ho, us_fname := fn\<rparr>)) s3)"
    using sb sb3 by (blast intro: same_base_trans)
  with assms r1 r2 r3 show thesis by (intro that) (simp_all add: refresh_user_def)
qed

lemma on_user:
  assumes inv: "ucb_ok s" and rest: "\<And>ua u. user_at ua s = Some u \<Longrightarrow> tracked s (f ua)"
  shows "tracked s (case lsi_ucb_get_user nick s of None \<Rightarrow> Some (0, s) | Some ua \<Rightarrow> f ua)"
proof (cases "bs_user (base_of s) (cmkey (cm_of s) nick)")
  case None
  then show ?thesis using inv by (simp add: get_user_base tracked_same)
next
  case (Some ua)
  then show ?thesis using inv rest listed_user [OF inv Some] by (metis get_user_base option.simps(5))
qed

lemma refresh_tracked:
  assumes "ucb_ok s" "user_at ua s = Some u"
  shows "tracked s (do { s1 \<leftarrow> refresh_user ua uname host fname s; Some (r, s1) })"
proof -
  obtain s' where "refresh_user ua uname host fname s = Some s'" "same_base s s'" by (rule refresh_user_ok [OF assms(2)])
  then show ?thesis using tracked_same_base [OF assms(1)] by simp
qed

lemma h_352_tracked:
  assumes inv: "ucb_ok s" and n: "nargs = msg_ac msg"
  shows "tracked s (h_352 msg nargs logon s)"
proof (cases "tk msg 0 = None \<or> nargs < 10")
  case True
  then show ?thesis using inv by (simp add: h_352_def tracked_same)
next
  case False
  then obtain a b c d where f: "\<not> (tk msg 0 = None \<or> nargs < 10)" "tk msg 7 = Some a" "tk msg 4 = Some b" "tk msg 5 = Some c" "tk msg 9 = Some d"
    using arg [OF n, of 7] arg [OF n, of 4] arg [OF n, of 5] arg [OF n, of 9] by auto
  show ?thesis
    unfolding h_352_def f(2-) if_not_P [OF f(1)] Let_def
    by (simp only: bind.bind_lunit) (rule on_user [OF inv refresh_tracked [OF inv]])
qed

lemma h_311_tracked:
  assumes inv: "ucb_ok s" and n: "nargs = msg_ac msg"
  shows "tracked s (h_311 msg nargs logon s)"
proof (cases "tk msg 0 = None \<or> nargs < 8")
  case True
  then show ?thesis using inv by (simp add: h_311_def tracked_same)
next
  case False
  then obtain a b c d where f: "\<not> (tk msg 0 = None \<or> nargs < 8)" "tk msg 3 = Some a" "tk msg 4 = Some b" "tk msg 5 = Some c" "tk msg 7 = Some d"
    using arg [OF n, of 3] arg [OF n, of 4] arg [OF n, of 5] arg [OF n, of 7] by auto
  show ?thesis
    unfolding h_311_def f(2-) if_not_P [OF f(1)]
    by (simp only: bind.bind_lunit) (rule on_user [OF inv refresh_tracked [OF inv]])
qed

end
