(* ===== verification/Modeinv.thy ===== *)
theory Modeinv
  imports Trackinv
begin

text \<open>
  Modes and the base: what \<open>lsi_ucb_update_modepfx\<close>, the channel mode operations and the
  handlers of MODE and 324 (RPL_CHANNELMODEIS) keep of the invariant.
\<close>

section \<open>Modes\<close>

lemma alive_memb:
  assumes inv: "ucb_ok s" and q: "bs_chan (base_of s) q = Some ca"
  shows "lsi_ucb_get_memb ca nick s = Some (bs_memb (base_of s) ca (cmkey (cm_of s) nick))"
    "bs_memb (base_of s) ca k = Some ma \<Longrightarrow> \<exists>m. memb_at ma s = Some m \<and> set (mb_modepfx m) \<subseteq> set (snd (pfx_of s))"
proof -
  obtain c m where c: "chan_at ca s = Some c" "ch_memb c = Some m" "sk_ok (cm_of s) m" by (rule listed_chan [OF inv q])
  then show "lsi_ucb_get_memb ca nick s = Some (bs_memb (base_of s) ca (cmkey (cm_of s) nick))"
    by (simp add: lsi_ucb_get_memb_def memb_map_bind lsi_get_Some base_of_sel)
  assume "bs_memb (base_of s) ca k = Some ma"
  then have "member (base_of s) {} ca k ma" using q by (auto simp: member_def intro: ranI)
  from base_member_who [OF ucb_base [OF inv [unfolded ucb_ok_def]] this] have "bs_who (base_of s) ma \<noteq> None" by auto
  then obtain m where "memb_at ma s = Some m" by (auto simp: base_of_sel)
  moreover have "modes_ok s" using inv by (simp add: ucb_ok_def ucb_inv_def st_ok_def)
  ultimately show "\<exists>m. memb_at ma s = Some m \<and> set (mb_modepfx m) \<subseteq> set (snd (pfx_of s))" by (auto simp: modes_ok_def)
qed

lemma modepfx_pos_total:
  assumes "psym \<in> set (snd (ic_m005modepfx ctx))" "set p \<subseteq> set (snd (ic_m005modepfx ctx))"
  shows "\<exists>n. modepfx_pos ctx p psym = Some n \<and> n \<le> length p"
  using assms(2)
proof (induction p)
  case (Cons c p)
  obtain o1 o2 where "strchr (snd (ic_m005modepfx ctx)) c = Some o1" "strchr (snd (ic_m005modepfx ctx)) psym = Some o2"
    using strchr_in_set [of c] strchr_in_set [of psym] Cons.prems assms(1) by fastforce
  with Cons show ?case by (fastforce simp: compare_modepfx_def)
qed simp

lemma update_modepfx_ok:
  assumes inv: "ucb_ok s" and q: "bs_chan (base_of s) q = Some ca" and ps: "psym \<in> set (snd (pfx_of s))"
  obtains ok s' where "lsi_ucb_update_modepfx ca nick psym enab s = Some (ok, s')" "same_base s s'"
proof (cases "bs_memb (base_of s) ca (cmkey (cm_of s) nick)")
  case None
  then show thesis using that [of False s] alive_memb(1) [OF inv q] by (simp add: lsi_ucb_update_modepfx_def)
next
  case (Some ma)
  obtain m where m: "memb_at ma s = Some m" "set (mb_modepfx m) \<subseteq> set (snd (pfx_of s))"
    using alive_memb(2) [OF inv q Some] by blast
  have "psym \<noteq> NUL" using inv ps by (auto simp: ucb_ok_def ucb_inv_def st_ok_def modes_ok_def)
  then have len: "strchr (mb_modepfx m) psym = Some i \<Longrightarrow> i < length (mb_modepfx m)" for i
    using strchr_Some_less by blast
  obtain n where n: "modepfx_pos (st_irc s) (mb_modepfx m) psym = Some n"
    using modepfx_pos_total [of psym "st_irc s" "mb_modepfx m"] ps m(2) by (auto simp: pfx_of_def)
  have sb: "same_base s (put_memb ma (Some (m\<lparr>mb_modepfx := p\<rparr>)) s)" if "set p \<subseteq> insert psym (set (mb_modepfx m))" for p
    by (rule same_base_memb [OF m(1)]) (use that m(2) ps in auto)
  have ins: "same_base s (put_memb ma (Some (m\<lparr>mb_modepfx := take n (mb_modepfx m) @ psym # drop n (mb_modepfx m)\<rparr>)) s)"
    by (rule sb) (auto dest: in_set_takeD in_set_dropD)
  have del: "same_base s (put_memb ma (Some (m\<lparr>mb_modepfx := take i (mb_modepfx m) @ drop (i + 1) (mb_modepfx m)\<rparr>)) s)" for i
    by (rule sb) (auto dest: in_set_takeD in_set_dropD)
  note eq = alive_memb(1) [OF inv q, of nick] Some m(1)
  show thesis
  proof (cases "strchr (mb_modepfx m) psym")
    case None
    with eq n ins show ?thesis
      by (intro that [of "enab \<and> \<not> MAX_MODEPFX \<le> length (mb_modepfx m) + 1"
            "if enab \<and> \<not> MAX_MODEPFX \<le> length (mb_modepfx m) + 1 then _ else s"])
        (auto simp: lsi_ucb_update_modepfx_def Let_def)
  next
    case (Some i)
    with eq len [OF Some] del [of i] show ?thesis
      by (intro that [of "\<not> enab" "if enab then s else _"])
        (auto simp: lsi_ucb_update_modepfx_def Let_def linorder_not_le)
  qed
qed

lemma length_free_mode: "free_mode ms i \<le> i + length ms"
  by (induction ms i rule: free_mode.induct) auto

lemma add_chanmode_ok:
  assumes inv: "ucb_ok s" and q: "bs_chan (base_of s) q = Some ca"
  obtains ok s' where "lsi_ucb_add_chanmode ca x s = Some (ok, s')" "same_base s s'"
proof -
  obtain c where c: "chan_at ca s = Some c" "ch_modes c \<noteq> []" by (rule alive_chan [OF inv q])
  let ?i = "free_mode (ch_modes c) 0" and ?n = "length (ch_modes c)"
  let ?ms = "if ?i = ?n then ch_modes c @ replicate ?n None else ch_modes c"
  obtain ok s1 where m: "(if ?i = ?n then st_malloc s else (True, s)) = (ok, s1)" by fastforce
  then have s1: "same_base s s1" "chan_at ca s1 = Some c"
    using st_malloc_set_orc [of s ok s1] same_base_set_orc c(1) by (auto split: if_splits)
  obtain d s2 where d: "st_strdup x s1 = (d, s2)" by fastforce
  then have s2: "same_base s s2" "chan_at ca s2 = Some c"
    using same_base_trans [OF s1(1) strdup_same_base [OF d]] st_strdup_set_orc [OF d] s1(2) by auto
  have "?i < length ?ms" using length_free_mode [of "ch_modes c" 0] c(2) by auto
  then have w: "wr ?ms ?i d = Some (?ms[?i := d])" by simp
  have "same_base s2 (put_chan ca (Some (c\<lparr>ch_modes := ?ms[?i := d]\<rparr>)) s2)"
    by (rule same_base_chan [OF s2(2)]) (use c(2) in simp_all)
  then have "same_base s (put_chan ca (Some (c\<lparr>ch_modes := ?ms[?i := d]\<rparr>)) s2)" by (rule same_base_trans [OF s2(1)])
  moreover have "lsi_ucb_add_chanmode ca x s =
      (if ok then Some (d \<noteq> None, put_chan ca (Some (c\<lparr>ch_modes := ?ms[?i := d]\<rparr>)) s2) else Some (False, s1))"
    unfolding lsi_ucb_add_chanmode_def c(1) bind.bind_lunit Let_def m prod.case d w by simp
  ultimately show thesis using s1(1) that by (cases ok) auto
qed

lemma drop_chanmode_ok:
  assumes inv: "ucb_ok s" and q: "bs_chan (base_of s) q = Some ca"
  obtains ok s' where "lsi_ucb_drop_chanmode ca x s = Some (ok, s')" "same_base s s'"
proof -
  obtain c where c: "chan_at ca s = Some c" "ch_modes c \<noteq> []" by (rule alive_chan [OF inv q])
  have ne: "drop_mode cls x (ch_modes c) = Some ms \<Longrightarrow> ms \<noteq> []" for cls ms
    using c(2) by (auto simp: drop_mode_def Let_def split: if_splits)
  have "same_base s (put_chan ca (Some (c\<lparr>ch_modes := ms\<rparr>)) s)" if "drop_mode cls x (ch_modes c) = Some ms" for cls ms
    by (rule same_base_chan [OF c(1)]) (use ne [OF that] in simp_all)
  then show thesis using c that
    by (cases "drop_mode (lsi_ut_classify_chanmode (st_irc s) (hdz x)) x (ch_modes c)";
        cases "lsi_ut_classify_chanmode (st_irc s) (hdz x) = 0") (auto simp: lsi_ucb_drop_chanmode_def Let_def)
qed

lemma clear_chanmodes_ok:
  assumes inv: "ucb_ok s" and q: "bs_chan (base_of s) q = Some ca"
  obtains s' where "lsi_ucb_clear_chanmodes ca s = Some s'" "same_base s s'"
proof -
  obtain c where c: "chan_at ca s = Some c" "ch_modes c \<noteq> []" by (rule alive_chan [OF inv q])
  have "same_base s (put_chan ca (Some (c\<lparr>ch_modes := map (\<lambda>_. None) (ch_modes c)\<rparr>)) s)"
    by (rule same_base_chan [OF c(1)]) (use c in simp_all)
  then show thesis using c that by (simp add: lsi_ucb_clear_chanmodes_def)
qed

lemma chanmode_entry_ok:
  assumes inv: "ucb_ok s" and q: "bs_chan (base_of s) q = Some ca" and e: "e \<noteq> []"
  obtains r s' where "chanmode_entry ca e s = Some (r, s')" "same_base s s'"
proof -
  obtain ok s1 where a: "lsi_ucb_add_chanmode ca (drop 1 e) s = Some (ok, s1)" "same_base s s1"
    by (rule add_chanmode_ok [OF inv q])
  obtain ok2 s2 where d: "lsi_ucb_drop_chanmode ca (drop 1 e) s = Some (ok2, s2)" "same_base s s2"
    by (rule drop_chanmode_ok [OF inv q])
  show thesis using a d e that by (cases "e ! 0 = CHR ''+''") (auto simp: chanmode_entry_def)
qed

text \<open>
  An entry of a parsed MODE message: a prefix letter comes with an argument, because it is no
  channel mode of the server (\<^const>\<open>modes_ok\<close>).
\<close>

definition entry_fits :: "st \<Rightarrow> string \<Rightarrow> bool" where
  "entry_fits s e \<longleftrightarrow> 2 \<le> length e \<and> e ! 1 \<noteq> NUL \<and> (e ! 1 \<in> set (fst (pfx_of s)) \<longrightarrow> 3 \<le> length e)"

lemma mode_entry_step_ok:
  assumes inv: "ucb_ok s" and q: "bs_chan (base_of s) q = Some ca" and e: "entry_fits s e"
  obtains r s' where "mode_entry_step ca e s = Some (r, s')" "same_base s s'"
proof (cases "strchr (fst (pfx_of s)) (e ! 1)")
  case None
  have "e \<noteq> []" "0 < length e" "1 < length e" using e by (auto simp: entry_fits_def)
  obtain r s' where "chanmode_entry ca e s = Some (r, s')" "same_base s s'"
    by (rule chanmode_entry_ok [OF inv q \<open>e \<noteq> []\<close>])
  then show thesis using None \<open>0 < length e\<close> \<open>1 < length e\<close> that by (simp add: mode_entry_step_def pfx_of_def)
next
  case (Some i)
  then have i: "i < length (fst (pfx_of s))" "fst (pfx_of s) ! i = e ! 1"
    using e strchr_Some_less by (auto simp: entry_fits_def)
  then have "e ! 1 \<in> set (fst (pfx_of s))" by (metis nth_mem)
  then have l3: "3 \<le> length e" using e by (simp add: entry_fits_def)
  have il: "i < length (snd (pfx_of s))"
    using inv i(1) by (simp add: ucb_ok_def ucb_inv_def st_ok_def modes_ok_def)
  then have ps: "snd (pfx_of s) ! i \<in> set (snd (pfx_of s))" by simp
  obtain ok s' where "lsi_ucb_update_modepfx ca (drop 3 e) (snd (pfx_of s) ! i) (e ! 0 = CHR ''+'') s = Some (ok, s')"
    "same_base s s'" by (rule update_modepfx_ok [OF inv q ps])
  moreover have "rd e 0 = Some (e ! 0)" "rd e 1 = Some (e ! 1)" using l3 by (auto simp: rd_def)
  moreover have "i < length (fst (ic_m005modepfx (st_irc s)))" using i(1) by (simp add: pfx_of_def)
  ultimately show thesis using Some l3 il that by (simp add: mode_entry_step_def pfx_of_def nth_append)
qed

lemma entries_loop_ok:
  assumes step: "\<And>s q e. ucb_ok s \<Longrightarrow> bs_chan (base_of s) q = Some ca \<Longrightarrow> entry_fits s e \<Longrightarrow>
      \<exists>r s'. step e s = Some (r, s') \<and> same_base s s'"
  shows "ucb_ok s \<Longrightarrow> bs_chan (base_of s) q = Some ca \<Longrightarrow> list_all (entry_fits s) es \<Longrightarrow>
    \<exists>r s'. entries_loop step es res s = Some (r, s') \<and> same_base s s'"
proof (induction es arbitrary: s res)
  case Nil
  then show ?case by simp
next
  case (Cons e es)
  obtain r s1 where s1: "step e s = Some (r, s1)" "same_base s s1" using step [OF Cons.prems(1,2), of e] Cons.prems(3) by auto
  have "entry_fits s1 = entry_fits s" using s1(2) by (simp add: entry_fits_def same_base_def fun_eq_iff)
  with Cons.IH [OF same_base_step [OF s1(2) Cons.prems(1,2)], of "res OR r"] Cons.prems(3)
  obtain r' s' where "entries_loop step es (res OR r) s1 = Some (r', s')" "same_base s1 s'" by auto
  then show ?case using s1 same_base_trans by auto
qed


lemma parse_MODE_ok:
  assumes "tk msg (if is324 then 4 else 3) = Some modes" "cstr_ok modes"
  obtains es orc' where "lsi_ut_parse_MODE ctx msg is324 orc = Some (es, orc')"
    "\<forall>r. es = Some r \<longrightarrow> list_all (entry_ok ctx) r \<and> map (\<lambda>e. e ! 1) r = mode_letters ctx modes"
    "orc = [] \<longrightarrow> es \<noteq> None \<and> orc' = []"
proof -
  obtain ok1 orc1 where m1: "malloc orc = (ok1, orc1)" by fastforce
  obtain ok2 orc2 where m2: "malloc orc1 = (ok2, orc2)" by fastforce
  have t: "tk msg (3 + (if is324 then 1 else 0)) = Some modes" using assms(1) by (cases is324) simp_all
  have e: "orc = [] \<Longrightarrow> ok1 \<and> ok2 \<and> orc2 = []" using m1 m2 by auto
  from parse_MODE_loop_spec [OF assms(2), of "4 + (if is324 then 1 else 0)" ctx msg True "[]" orc2]
  obtain es orc' where l: "parse_MODE_loop ctx msg (msg_ac msg) modes (4 + (if is324 then 1 else 0)) True [] orc2 = Some (es, orc')"
    "\<forall>r. es = Some r \<longrightarrow> list_all (entry_ok ctx) r \<and> map (\<lambda>e. e ! 1) r = mode_letters ctx modes"
    "orc2 = [] \<longrightarrow> es \<noteq> None \<and> orc' = []" by auto
  show thesis
  proof (cases "ok1 \<and> ok2")
    case True
    then have "lsi_ut_parse_MODE ctx msg is324 orc = Some (es, orc')"
      using t m1 m2 l(1) by (simp add: lsi_ut_parse_MODE_def lsi_b_strdup_def)
    then show thesis using l(2,3) e by (intro that) auto
  next
    case False
    then have "\<exists>orc'. lsi_ut_parse_MODE ctx msg is324 orc = Some (None, orc')"
      using t m1 m2 by (cases ok1; cases ok2) (auto simp: lsi_ut_parse_MODE_def lsi_b_strdup_def)
    then show thesis using e False by (auto intro: that)
  qed
qed

lemma entry_ok_fits:
  assumes "modes_ok s" "entry_ok (st_irc s) e" "e ! 1 \<noteq> NUL"
  shows "entry_fits s e"
proof -
  obtain enable c arg where e: "e = mode_entry enable c arg" "arg \<noteq> None \<longleftrightarrow> takes_arg (st_irc s) enable c"
    using assms(2) by (auto simp: entry_ok_def)
  then have 1: "e ! 1 = c" "2 \<le> length e" "arg \<noteq> None \<longrightarrow> 3 \<le> length e"
    by (auto simp: mode_entry_def split: option.split)
  have "c \<in> set (fst (pfx_of s)) \<longrightarrow> takes_arg (st_irc s) enable c"
    using assms(1) by (auto simp: modes_ok_def takes_arg_def pfx_of_def cls_of_def Let_def)
  then show ?thesis using 1 e(2) assms(3) by (simp add: entry_fits_def)
qed

lemma st_parse_MODE_ok:
  assumes inv: "ucb_ok s" and t: "tk msg (if is324 then 4 else 3) = Some modes" "cstr_ok modes"
  obtains p s' where "st_parse_MODE msg is324 s = Some (p, s')" "same_base s s'"
    "\<forall>es. p = Some es \<longrightarrow> list_all (entry_fits s') es"
proof -
  obtain p orc' where p: "lsi_ut_parse_MODE (st_irc s) msg is324 (orc_of s) = Some (p, orc')"
    "\<forall>r. p = Some r \<longrightarrow> list_all (entry_ok (st_irc s)) r \<and> map (\<lambda>e. e ! 1) r = mode_letters (st_irc s) modes"
    "orc_of s = [] \<longrightarrow> p \<noteq> None \<and> orc' = []" by (rule parse_MODE_ok [OF t, where ctx = "st_irc s" and orc = "orc_of s"])
  have "list_all (entry_fits (set_orc orc' s)) es" if "p = Some es" for es
  proof -
    have "e ! 1 \<noteq> NUL" if "e \<in> set es" for e
    proof -
      have "e ! 1 \<in> set (mode_letters (st_irc s) modes)"
        using p(2) \<open>p = Some es\<close> that by (metis (no_types, lifting) image_eqI set_map)
      then show ?thesis using t(2) by (auto simp: mode_letters_def cstr_ok_def)
    qed
    then have "list_all (entry_fits s) es"
      using p(2) \<open>p = Some es\<close> entry_ok_fits inv
      by (auto simp: list_all_iff ucb_ok_def ucb_inv_def st_ok_def)
    then show ?thesis by (simp add: entry_fits_def list_all_iff)
  qed
  then show thesis using p(1,3) by (intro that [of p "set_orc orc' s"]) (auto simp: st_parse_MODE_def same_base_set_orc)
qed

section \<open>The handlers\<close>

lemma mode_entries_tracked:
  assumes inv: "ucb_ok s" and q: "bs_chan (base_of s) q = Some ca" and es: "list_all (entry_fits s) es"
  shows "tracked s (entries_loop (mode_entry_step ca) es 0 s)"
proof -
  have st: "\<And>s q e. ucb_ok s \<Longrightarrow> bs_chan (base_of s) q = Some ca \<Longrightarrow> entry_fits s e \<Longrightarrow>
      \<exists>r s'. mode_entry_step ca e s = Some (r, s') \<and> same_base s s'"
    using mode_entry_step_ok by metis
  have "\<exists>r s'. entries_loop (mode_entry_step ca) es 0 s = Some (r, s') \<and> same_base s s'"
    by (rule entries_loop_ok [OF _ inv q es]) (rule st)
  then show ?thesis using tracked_same_base [OF inv] by metis
qed

lemma chanmode_entries_tracked:
  assumes inv: "ucb_ok s" and q: "bs_chan (base_of s) q = Some ca" and es: "list_all (entry_fits s) es"
  shows "tracked s (entries_loop (chanmode_entry ca) es 0 s)"
proof -
  have "entry_fits s e \<Longrightarrow> e \<noteq> []" for s e by (auto simp: entry_fits_def)
  then have st: "\<And>s q e. ucb_ok s \<Longrightarrow> bs_chan (base_of s) q = Some ca \<Longrightarrow> entry_fits s e \<Longrightarrow>
      \<exists>r s'. chanmode_entry ca e s = Some (r, s') \<and> same_base s s'"
    using chanmode_entry_ok by metis
  have "\<exists>r s'. entries_loop (chanmode_entry ca) es 0 s = Some (r, s') \<and> same_base s s'"
    by (rule entries_loop_ok [OF _ inv q es]) (rule st)
  then show ?thesis using tracked_same_base [OF inv] by metis
qed

lemma touch_maybe:
  assumes inv: "ucb_ok s" and rest: "\<And>s1. same_base s s1 \<Longrightarrow> ucb_ok s1 \<Longrightarrow> tracked s1 (f s1)"
  shows "tracked s (do { (_, s1) \<leftarrow> (if b then lsi_ucb_touch_user pfx s else Some (None, s)); f s1 })"
proof (cases b)
  case True
  then show ?thesis using touch_then [OF assms] by simp
next
  case False
  then show ?thesis using rest [of s] inv by (simp add: same_base_def)
qed

lemma tk_ok: "tokarr_ok msg \<Longrightarrow> nargs = msg_ac msg \<Longrightarrow> i < nargs \<Longrightarrow> 2 \<le> i \<Longrightarrow> \<exists>x. tk msg i = Some x \<and> cstr_ok x"
  using arg tk_cstr by metis

lemma h_MODE_chanmode_tracked:
  assumes inv: "ucb_ok s" and n: "nargs = msg_ac msg" and m: "tokarr_ok msg"
  shows "tracked s (h_MODE_chanmode msg nargs logon s)"
proof (cases "tk msg 0 = None \<or> nargs < 4")
  case True
  then show ?thesis using inv by (auto simp: h_MODE_chanmode_def tracked_same split: option.split)
next
  case False
  then obtain pfx ch modes where f: "tk msg 0 = Some pfx" "\<not> nargs < 4" "tk msg 2 = Some ch"
    and md: "tk msg (if False then 4 else 3) = Some modes" "cstr_ok modes"
    using tk_ok [OF m n, of 2] tk_ok [OF m n, of 3] by auto
  have body: "tracked s1 (do {
      (p, s2) \<leftarrow> st_parse_MODE msg False s1;
      case p of None \<Rightarrow> Some (ALLOC_ERR, s2) | Some es \<Rightarrow> entries_loop (mode_entry_step ca) es 0 s2 })"
    if i1: "ucb_ok s1" and q: "bs_chan (base_of s1) q = Some ca" for s1 q ca
  proof -
    obtain p s2 where p: "st_parse_MODE msg False s1 = Some (p, s2)" "same_base s1 s2"
      "\<forall>es. p = Some es \<longrightarrow> list_all (entry_fits s2) es" by (rule st_parse_MODE_ok [OF i1 md])
    show ?thesis
    proof (cases p)
      case None
      then show ?thesis using p(1) tracked_same_base [OF i1 p(2)] by simp
    next
      case (Some es)
      have "tracked s2 (entries_loop (mode_entry_step ca) es 0 s2)"
        using mode_entries_tracked [OF same_base_step [OF p(2) i1 q]] p(3) Some by blast
      then show ?thesis using p(1) Some tracked_same_base_cong [OF p(2)] by simp
    qed
  qed
  show ?thesis
    unfolding h_MODE_chanmode_def f(1,3) option.case if_not_P [OF f(2)] bind.bind_lunit
    by (rule touch_maybe [OF inv], rule on_chan, assumption, rule body)
qed

lemma h_MODE_tracked:
  assumes inv: "ucb_ok s" and n: "nargs = msg_ac msg" and m: "tokarr_ok msg"
  shows "tracked s (h_MODE msg nargs logon s)"
proof (cases "tk msg 0 = None \<or> nargs < 4")
  case True
  then show ?thesis using inv by (auto simp: h_MODE_def tracked_same)
next
  case False
  then obtain ch where "tk msg 2 = Some ch" using arg [OF n, of 2] by auto
  then show ?thesis using False tracked_same [OF inv] h_MODE_chanmode_tracked [OF assms]
    by (simp add: h_MODE_def)
qed

lemma h_324_tracked:
  assumes inv: "ucb_ok s" and n: "nargs = msg_ac msg" and m: "tokarr_ok msg"
  shows "tracked s (h_324 msg nargs logon s)"
proof (cases "tk msg 0 = None \<or> nargs < 5")
  case True
  then show ?thesis using inv by (auto simp: h_324_def tracked_same)
next
  case False
  then obtain ch modes where f: "\<not> (tk msg 0 = None \<or> nargs < 5)" "tk msg 3 = Some ch"
    and md: "tk msg (if True then 4 else 3) = Some modes" "cstr_ok modes"
    using tk_ok [OF m n, of 3] tk_ok [OF m n, of 4] by auto
  have body: "tracked s (do {
      (p, s1) \<leftarrow> st_parse_MODE msg True s;
      case p of None \<Rightarrow> Some (ALLOC_ERR, s1)
      | Some es \<Rightarrow> do { s2 \<leftarrow> lsi_ucb_clear_chanmodes ca s1; entries_loop (chanmode_entry ca) es 0 s2 } })"
    if q: "bs_chan (base_of s) q = Some ca" for q ca
  proof -
    obtain p s1 where p: "st_parse_MODE msg True s = Some (p, s1)" "same_base s s1"
      "\<forall>es. p = Some es \<longrightarrow> list_all (entry_fits s1) es" by (rule st_parse_MODE_ok [OF inv md])
    show ?thesis
    proof (cases p)
      case None
      then show ?thesis using p(1) tracked_same_base [OF inv p(2)] by simp
    next
      case (Some es)
      note i1 = same_base_step [OF p(2) inv q]
      obtain s2 where s2: "lsi_ucb_clear_chanmodes ca s1 = Some s2" "same_base s1 s2"
        by (rule clear_chanmodes_ok [OF i1])
      have "entry_fits s2 = entry_fits s1" using s2(2) by (simp add: entry_fits_def same_base_def fun_eq_iff)
      then have "tracked s2 (entries_loop (chanmode_entry ca) es 0 s2)"
        using chanmode_entries_tracked [OF same_base_step [OF s2(2) i1]] p(3) Some by simp
      then show ?thesis using p(1) Some s2 tracked_same_base_cong [OF same_base_trans [OF p(2) s2(2)]] by simp
    qed
  qed
  show ?thesis
    unfolding h_324_def f(2) bind.bind_lunit if_not_P [OF f(1)]
    by (rule on_chan [OF inv], rule body)
qed

end
