(* ===== verification/Msginv.thy ===== *)
theory Msginv
  imports Msg Track "HOL-Library.Multiset"
begin

text \<open>
  The table of message handlers as the multiset of its live slots: registering adds one,
  \<open>lsi_msg_unregall\<close> removes those of a module, and growing the array loses none.
\<close>

section \<open>Live slots\<close>

definition live :: "msghnd list \<Rightarrow> msghnd multiset" where
  "live arr = mset (filter (\<lambda>h. mh_cmd h \<noteq> []) arr)"

definition live_hnds :: "st \<Rightarrow> msghnd multiset" where
  "live_hnds s = live (ic_msghnds (st_irc s))"

lemma live_simps [simp]:
  "live [] = {#}" "live (xs @ ys) = live xs + live ys"
  "live (h # hs) = (if mh_cmd h \<noteq> [] then add_mset h (live hs) else live hs)"
  "live (replicate n mh_free) = {#}"
  by (simp_all add: live_def mh_free_def)

lemma free_slot_ge: "i \<le> free_slot cmd hs i"
  by (induction hs arbitrary: i) (auto intro: Suc_leD)

lemma free_slot_le: "free_slot cmd hs i \<le> i + length hs"
proof (induction hs arbitrary: i)
  case (Cons h hs)
  then show ?case using Cons [of "i + 1"] by simp
qed simp

lemma free_slot_free: "free_slot cmd hs i < i + length hs \<Longrightarrow> cmd (hs ! (free_slot cmd hs i - i)) = []"
proof (induction hs arbitrary: i)
  case (Cons h hs)
  then show ?case using free_slot_ge [of "i + 1" cmd hs] by (auto simp: nth_Cons' Suc_diff_le)
qed simp

lemma live_update_free: "i < length arr \<Longrightarrow> mh_cmd (arr ! i) = [] \<Longrightarrow> mh_cmd h \<noteq> [] \<Longrightarrow> live (arr[i := h]) = add_mset h (live arr)"
proof (induction arr arbitrary: i)
  case (Cons x xs)
  then show ?case by (cases i) auto
qed simp

section \<open>Registration\<close>

text \<open>Registering touches the table and the allocator only.\<close>

definition same_but_hnds :: "st \<Rightarrow> st \<Rightarrow> bool" where
  "same_but_hnds s s' \<longleftrightarrow> (\<exists>arr orc. s' = s\<lparr>st_irc := (st_irc s)\<lparr>ic_msghnds := arr\<rparr>, st_hp := (st_hp s)\<lparr>hp_alloc := orc\<rparr>\<rparr> \<and>
     (ic_msghnds (st_irc s) \<noteq> [] \<longrightarrow> arr \<noteq> []) \<and> (hp_alloc (st_hp s) = [] \<longrightarrow> orc = []))"

lemma same_but_hnds_refl [simp]: "same_but_hnds s s"
  unfolding same_but_hnds_def by (rule exI [of _ "ic_msghnds (st_irc s)"], rule exI [of _ "hp_alloc (st_hp s)"]) simp

lemma same_but_hnds_trans: "same_but_hnds s s' \<Longrightarrow> same_but_hnds s' s'' \<Longrightarrow> same_but_hnds s s''"
  unfolding same_but_hnds_def by (elim exE conjE) (rule exI, rule exI, rule conjI, simp, simp)

definition hnd_slot :: "string \<Rightarrow> hnd_fn \<Rightarrow> string \<Rightarrow> msghnd" where
  "hnd_slot cmd hndfn modul = \<lparr>mh_cmd = ncpy 32 cmd, mh_hndfn = hndfn, mh_module = modul\<rparr>"

lemma reghnd_spec:
  assumes "ic_msghnds (st_irc s) \<noteq> []" "cmd \<noteq> []"
  obtains ok s' where "lsi_msg_reghnd cmd hndfn modul s = Some (ok, s')" "same_but_hnds s s'"
    "live_hnds s' = (if ok then add_mset (hnd_slot cmd hndfn modul) (live_hnds s) else live_hnds s)"
    "hp_alloc (st_hp s) = [] \<longrightarrow> ok"
proof -
  let ?arr = "ic_msghnds (st_irc s)" and ?h = "hnd_slot cmd hndfn modul"
  let ?i = "free_slot mh_cmd ?arr 0"
  have h: "mh_cmd ?h \<noteq> []" using assms(2) by (cases cmd) (simp_all add: hnd_slot_def ncpy_def)
  show thesis
  proof (cases "?i = length ?arr")
    case True
    obtain ok orc where m: "malloc (hp_alloc (st_hp s)) = (ok, orc)" by fastforce
    let ?arr' = "(?arr @ replicate (length ?arr) mh_free)[length ?arr := ?h]"
    let ?s = "s\<lparr>st_hp := (st_hp s)\<lparr>hp_alloc := orc\<rparr>\<rparr>"
    have w: "wr (?arr @ replicate (length ?arr) mh_free) (length ?arr) ?h = Some ?arr'" using assms(1) by simp
    have l: "live ?arr' = add_mset ?h (live ?arr)"
      using live_update_free [of "length ?arr" "?arr @ replicate (length ?arr) mh_free" ?h] assms(1) h
      by (simp add: nth_append mh_free_def [symmetric]) (simp add: mh_free_def)
    have o: "hp_alloc (st_hp s) = [] \<longrightarrow> ok \<and> orc = []" using m by auto
    have sb1: "same_but_hnds s ?s"
      unfolding same_but_hnds_def by (rule exI [of _ ?arr], rule exI [of _ orc]) (use o in simp)
    have sb2: "same_but_hnds s (?s\<lparr>st_irc := (st_irc s)\<lparr>ic_msghnds := ?arr'\<rparr>\<rparr>)"
      unfolding same_but_hnds_def by (rule exI [of _ ?arr'], rule exI [of _ orc]) (use o in simp)
    have eq: "lsi_msg_reghnd cmd hndfn modul s =
        (if ok then Some (True, ?s\<lparr>st_irc := (st_irc s)\<lparr>ic_msghnds := ?arr'\<rparr>\<rparr>) else Some (False, ?s))"
      using True m w by (simp add: lsi_msg_reghnd_def Let_def grow_def st_malloc_def hnd_slot_def [symmetric] del: length_0_conv)
    show thesis
      using eq sb1 sb2 l o by (cases ok) (auto intro!: that simp: live_hnds_def)
  next
    case False
    then have i: "?i < length ?arr" using free_slot_le [of mh_cmd ?arr 0] by simp
    then have fr: "mh_cmd (?arr ! ?i) = []" using free_slot_free [of mh_cmd ?arr 0] by simp
    let ?s = "s\<lparr>st_irc := (st_irc s)\<lparr>ic_msghnds := ?arr[?i := ?h]\<rparr>\<rparr>"
    have "lsi_msg_reghnd cmd hndfn modul s = Some (True, ?s)"
      using False i by (simp add: lsi_msg_reghnd_def Let_def grow_def hnd_slot_def [symmetric])
    moreover have "same_but_hnds s ?s"
      unfolding same_but_hnds_def
      by (rule exI [of _ "?arr[?i := ?h]"], rule exI [of _ "hp_alloc (st_hp s)"]) simp
    ultimately show thesis using live_update_free [OF i fr h] by (auto intro!: that simp: live_hnds_def)
  qed
qed

lemma reg_seq_spec:
  assumes "ic_msghnds (st_irc s) \<noteq> []" "list_all (\<lambda>(cmd, _). cmd \<noteq> []) hs"
  shows "\<exists>ok s'. reg_seq hs modul s = Some (ok, s') \<and> same_but_hnds s s' \<and> (hp_alloc (st_hp s) = [] \<longrightarrow> ok) \<and>
    (\<exists>n\<le>length hs. live_hnds s' = live_hnds s + mset (map (\<lambda>(cmd, h). hnd_slot cmd h modul) (take n hs)) \<and>
       (ok \<longrightarrow> n = length hs))"
  using assms
proof (induction hs arbitrary: s)
  case Nil
  then show ?case by (intro exI [of _ True] exI [of _ s]) simp
next
  case (Cons ch hs)
  obtain cmd h where ch: "ch = (cmd, h)" by fastforce
  obtain ok s1 where s1: "lsi_msg_reghnd cmd h modul s = Some (ok, s1)" "same_but_hnds s s1"
    "live_hnds s1 = (if ok then add_mset (hnd_slot cmd h modul) (live_hnds s) else live_hnds s)"
    "hp_alloc (st_hp s) = [] \<longrightarrow> ok" by (rule reghnd_spec [of s cmd h modul]) (use Cons.prems ch in auto)
  show ?case
  proof (cases ok)
    case False
    then show ?thesis using s1 ch by (auto intro!: exI [of _ 0])
  next
    case True
    have ne: "ic_msghnds (st_irc s1) \<noteq> []" "hp_alloc (st_hp s) = [] \<longrightarrow> hp_alloc (st_hp s1) = []"
      using s1(2) Cons.prems(1) by (auto simp: same_but_hnds_def)
    from Cons.IH [OF ne(1)] Cons.prems(2) obtain ok' s' n where s':
      "reg_seq hs modul s1 = Some (ok', s')" "same_but_hnds s1 s'" "hp_alloc (st_hp s1) = [] \<longrightarrow> ok'"
      "n \<le> length hs" "live_hnds s' = live_hnds s1 + mset (map (\<lambda>(cmd, h). hnd_slot cmd h modul) (take n hs))"
      "ok' \<longrightarrow> n = length hs" by auto
    have "live_hnds s' = live_hnds s + mset (map (\<lambda>(cmd, h). hnd_slot cmd h modul) (take (Suc n) (ch # hs)))"
      using s'(5) s1(3) True ch by simp
    then show ?thesis
      using s1(1) s' ch True same_but_hnds_trans [OF s1(2) s'(2)] ne(2)
      by (intro exI [of _ ok'] exI [of _ s'] conjI exI [of _ "Suc n"]) auto
  qed
qed

lemma unregall_live: "live_hnds (lsi_msg_unregall modul s) = filter_mset (\<lambda>h. mh_module h \<noteq> modul) (live_hnds s)"
proof -
  have "live (map (unreg modul) arr) = filter_mset (\<lambda>h. mh_module h \<noteq> modul) (live arr)" for arr
    by (induction arr) (auto simp: unreg_def)
  then show ?thesis by (simp add: live_hnds_def lsi_msg_unregall_def)
qed

end
