(* ===== verification/Reach.thy ===== *)
theory Reach
  imports Modeinv Msginv Msghnd
begin

text \<open>
  The life of the tracked base: from \<open>lsi_trk_init\<close> on, through the messages the tracking
  handlers process and the tags the user sets.  \<open>ucb_ok\<close> holds in every state reached so, and
  every further message is processed without touching freed memory.
\<close>

section \<open>Messages\<close>

text \<open>
  What the handlers need of a message beyond its being well formed: a channel name that fits
  \<open>c->name\<close>, nicknames on which the two case mappings agree, a list of names that is neither
  empty nor ends in a space.
\<close>

definition track_fits :: "st \<Rightarrow> hnd_fn \<Rightarrow> tokarr \<Rightarrow> bool" where
  "track_fits s h msg \<longleftrightarrow> tokarr_ok msg \<and>
     (h = H_JOIN \<longrightarrow> (\<forall>ch. tk msg 2 = Some ch \<longrightarrow> length ch < MAX_CHAN_LEN)) \<and>
     (h = H_NICK \<longrightarrow> orc_of s = [] \<and> casemap_of s < 3 \<and>
        (\<forall>pfx nn. tk msg 0 = Some pfx \<longrightarrow> tk msg 2 = Some nn \<longrightarrow> nick_agrees (casemap_of s) pfx nn)) \<and>
     (h = H_353 \<longrightarrow> (\<forall>p. tk msg 5 = Some p \<longrightarrow> p \<noteq> [] \<and> last p \<noteq> CHR '' ''))"

lemma track_fitsD:
  assumes "track_fits s h msg"
  shows "tokarr_ok msg" "h = H_JOIN \<Longrightarrow> tk msg 2 = Some ch \<Longrightarrow> length ch < MAX_CHAN_LEN"
    "h = H_NICK \<Longrightarrow> orc_of s = []" "h = H_NICK \<Longrightarrow> casemap_of s < 3"
    "h = H_NICK \<Longrightarrow> tk msg 0 = Some pfx \<Longrightarrow> tk msg 2 = Some nn \<Longrightarrow> nick_agrees (casemap_of s) pfx nn"
    "h = H_353 \<Longrightarrow> tk msg 5 = Some p \<Longrightarrow> cstr_ok p \<and> p \<noteq> [] \<and> last p \<noteq> CHR '' ''"
  using assms by (auto simp: track_fits_def tk_cstr)

lemma track_handler_tracked:
  assumes inv: "ucb_ok s" and h: "h \<in> set (map snd trk_handlers)" and fits: "track_fits s h msg"
  shows "tracked s (run_hnd mutn h msg (msg_ac msg) logon s)"
proof -
  note f = track_fitsD [OF fits]
  have "h \<in> {H_JOIN, H_311, H_332, H_333, H_353, H_352, H_366, H_PART, H_QUIT, H_NICK, H_KICK, H_MODE,
      H_PRIVMSG, H_NOTICE, H_324, H_TOPIC}" using h by (simp add: trk_handlers_def)
  then show ?thesis
    by (elim insertE emptyE)
      (simp_all add: inv f h_JOIN_tracked h_311_tracked h_332_tracked h_333_tracked h_353_tracked
        h_352_tracked h_366_tracked h_PART_tracked h_QUIT_tracked h_NICK_tracked h_KICK_tracked h_MODE_tracked
        h_PRIVMSG_def h_NOTICE_def touch_speaker_tracked h_324_tracked h_TOPIC_tracked)
qed

lemma tag_chan_same:
  assumes inv: "ucb_ok s"
  obtains b s' where "irc_tag_chan name tag af s = Some (b, s')" "same_base s s'"
proof (cases "bs_chan (base_of s) (cmkey (cm_of s) name)")
  case None
  then show thesis using inv that [of False s] by (simp add: irc_tag_chan_def chan_name_base)
next
  case (Some ca)
  obtain c where c: "chan_at ca s = Some c" "ch_modes c \<noteq> []" by (rule alive_chan [OF inv Some])
  have "same_base s (free_tag (ch_freetag c) (ch_tag c) s)"
    by (simp add: same_base_def st_ok_upd)
  moreover have "same_base (free_tag (ch_freetag c) (ch_tag c) s)
      (put_chan ca (Some (c\<lparr>ch_tag := tag, ch_freetag := af\<rparr>)) (free_tag (ch_freetag c) (ch_tag c) s))"
    by (rule same_base_chan [of _ _ c]) (simp_all add: c)
  ultimately have "same_base s
      (put_chan ca (Some (c\<lparr>ch_tag := tag, ch_freetag := af\<rparr>)) (free_tag (ch_freetag c) (ch_tag c) s))" by (rule same_base_trans)
  then show thesis using Some c inv
    by (intro that [of True]) (simp_all add: irc_tag_chan_def chan_name_base lsi_ucb_tag_chan_def)
qed

lemma tag_user_same:
  assumes inv: "ucb_ok s"
  obtains b s' where "irc_tag_user ident tag af s = Some (b, s')" "same_base s s'"
proof (cases "bs_user (base_of s) (cmkey (cm_of s) ident)")
  case None
  then show thesis using inv that [of False s] by (simp add: irc_tag_user_def get_user_base)
next
  case (Some ua)
  obtain u where u: "user_at ua s = Some u" by (rule listed_user [OF inv Some])
  have "same_base s (free_tag (us_freetag u) (us_tag u) s)"
    by (simp add: same_base_def st_ok_upd)
  moreover have "same_base (free_tag (us_freetag u) (us_tag u) s)
      (put_user ua (Some (u\<lparr>us_tag := tag, us_freetag := af\<rparr>)) (free_tag (us_freetag u) (us_tag u) s))"
    by (rule same_base_user [of _ _ u]) (simp_all add: u)
  ultimately have "same_base s
      (put_user ua (Some (u\<lparr>us_tag := tag, us_freetag := af\<rparr>)) (free_tag (us_freetag u) (us_tag u) s))" by (rule same_base_trans)
  then show thesis using Some u inv
    by (intro that [of True]) (simp_all add: irc_tag_user_def get_user_base lsi_ucb_tag_user_def)
qed

section \<open>Steps\<close>

inductive track_step :: "st \<Rightarrow> st \<Rightarrow> bool" where
  message: "h \<in> set (map snd trk_handlers) \<Longrightarrow> track_fits s h msg \<Longrightarrow>
    run_hnd mutn h msg (msg_ac msg) logon s = Some (r, s') \<Longrightarrow> track_step s s'"
| tag_chan: "irc_tag_chan name tag af s = Some (b, s') \<Longrightarrow> track_step s s'"
| tag_user: "irc_tag_user ident tag af s = Some (b, s') \<Longrightarrow> track_step s s'"

inductive_cases track_stepE: "track_step s s'"

inductive track_reach :: "st \<Rightarrow> st \<Rightarrow> bool" for s0 where
  start: "track_reach s0 s0"
| step: "track_reach s0 s \<Longrightarrow> track_step s s' \<Longrightarrow> track_reach s0 s'"

lemma track_step_ok:
  assumes "track_step s s'" "ucb_ok s"
  shows "ucb_ok s' \<and> casemap_of s' = casemap_of s"
  using assms(1)
proof cases
  case (message h msg mutn logon r)
  then show ?thesis using track_handler_tracked [OF assms(2) message(1,2), of mutn logon] by (auto simp: tracked_def)
next
  case (tag_chan name tag af b)
  obtain b' s1 where "irc_tag_chan name tag af s = Some (b', s1)" "same_base s s1" by (rule tag_chan_same [OF assms(2)])
  then show ?thesis using tag_chan assms(2) same_base_ok by (auto simp: same_base_def)
next
  case (tag_user ident tag af b)
  obtain b' s1 where "irc_tag_user ident tag af s = Some (b', s1)" "same_base s s1" by (rule tag_user_same [OF assms(2)])
  then show ?thesis using tag_user assms(2) same_base_ok by (auto simp: same_base_def)
qed

lemma track_reach_ok: "track_reach s0 s \<Longrightarrow> ucb_ok s0 \<Longrightarrow> ucb_ok s \<and> casemap_of s = casemap_of s0"
  by (induction rule: track_reach.induct) (auto dest: track_step_ok)

section \<open>Starting\<close>

text \<open>No user, channel or membership is on the heap; the server's modes are as in numeric 005.\<close>

definition heap_empty :: "st \<Rightarrow> bool" where
  "heap_empty s \<longleftrightarrow> (\<forall>a. user_at a s = None \<and> chan_at a s = None \<and> memb_at a s = None)"

definition base_empty :: base where
  "base_empty = \<lparr>bs_user = Map.empty, bs_chan = Map.empty, bs_memb = (\<lambda>_. Map.empty), bs_who = Map.empty,
     bs_nick = Map.empty, bs_name = Map.empty, bs_refs = (\<lambda>_. 0)\<rparr>"

lemma base_empty_ok: "base_ok None {} [] base_empty"
  by (simp add: base_ok_def base_empty_def member_def pending_def)

lemma base_of_empty:
  assumes "heap_empty s" "users_of s = Some um" "sk_map um = Map.empty" "chans_of s = Some (Some cs)" "sk_map cs = Map.empty"
  shows "base_of s = base_empty"
  using assms by (simp add: base_of_def base_empty_def heap_empty_def fun_eq_iff)

lemma ucb_init_ok:
  assumes he: "heap_empty s" and md: "modes_ok s"
  obtains ok s' where "lsi_ucb_init s = (ok, s')" "ok \<longrightarrow> ucb_ok s' \<and> base_of s' = base_empty \<and> casemap_of s' = casemap_of s \<and> pfx_of s' = pfx_of s"
    "orc_of s = [] \<longrightarrow> ok \<and> orc_of s' = []"
proof -
  obtain cs :: "addr skmap option" and o1 where c: "lsi_skmap_init (orc_of s) 256 (casemap_of s) = (cs, o1)" by fastforce
  obtain us :: "addr skmap option" and o2 where u: "lsi_skmap_init o1 4096 (casemap_of s) = (us, o2)" by fastforce
  have orc: "orc_of s = [] \<longrightarrow> cs \<noteq> None \<and> o1 = []" "o1 = [] \<longrightarrow> us \<noteq> None \<and> o2 = []"
    using c u by (auto simp: lsi_skmap_init_def)
  let ?s = "set_users us (set_orc o2 (set_chans cs (set_orc o1 s)))"
  show thesis
  proof (cases "cs = None \<or> us = None")
    case True
    then have "\<exists>s'. lsi_ucb_init s = (False, s')" using c u by (cases cs) (auto simp: lsi_ucb_init_def Let_def)
    then show thesis using that orc True by auto
  next
    case False
    then obtain cm um where m: "cs = Some cm" "us = Some um" by auto
    note k = skmap_init_ok [OF c [unfolded m(1)], simplified] skmap_init_ok [OF u [unfolded m(2)], simplified]
    have i: "lsi_ucb_init s = (True, ?s)" using c u m by (simp add: lsi_ucb_init_def)
    have st: "st_ok ?s"
      using he md k m by (simp add: st_ok_def modes_ok_def heap_empty_def cm_of_def)
    have "base_of ?s = base_empty" by (rule base_of_empty [of _ um cm]) (use he m k in \<open>simp_all add: heap_empty_def\<close>)
    then show thesis using that [OF i] st base_empty_ok orc by (simp add: ucb_ok_def ucb_inv_def)
  qed
qed

lemma same_but_hnds_base:
  assumes "same_but_hnds s s'"
  shows "heap_empty s' = heap_empty s" "modes_ok s' = modes_ok s" "casemap_of s' = casemap_of s" "orc_of s = [] \<Longrightarrow> orc_of s' = []"
    "pfx_of s' = pfx_of s"
proof -
  from assms have "user_at a s' = user_at a s" "chan_at a s' = chan_at a s" "memb_at a s' = memb_at a s"
    "pfx_of s' = pfx_of s" "cls_of s' = cls_of s" for a
    by (auto simp: same_but_hnds_def acc_defs intro!: modes_upd)
  then show "heap_empty s' = heap_empty s" "modes_ok s' = modes_ok s" by (simp_all add: heap_empty_def modes_ok_def)
  show "pfx_of s' = pfx_of s" by fact
  from assms show "casemap_of s' = casemap_of s" "orc_of s = [] \<Longrightarrow> orc_of s' = []"
    by (auto simp: same_but_hnds_def acc_defs)
qed

lemma live_users_chans [simp]:
  "live_hnds (set_users x s) = live_hnds s" "live_hnds (set_chans y s) = live_hnds s" "live_hnds (set_orc orc s) = live_hnds s"
  "live_hnds (set_endofnames b s) = live_hnds s"
  by (simp_all add: live_hnds_def acc_defs set_endofnames_def)

lemma live_ucb_init: "lsi_ucb_init s = (ok, s') \<Longrightarrow> live_hnds s' = live_hnds s"
  by (auto simp: lsi_ucb_init_def Let_def split: prod.splits if_splits) (simp add: live_hnds_def acc_defs)

lemma filter_track_slots: "filter_mset (\<lambda>h. mh_module h \<noteq> m) (mset (map (\<lambda>(cmd, h). hnd_slot cmd h m) xs)) = {#}"
proof (induction xs)
  case (Cons x xs)
  then show ?case by (cases x) (simp add: hnd_slot_def)
qed simp

definition trk_slots :: "msghnd multiset" where
  "trk_slots = mset (map (\<lambda>(cmd, h). hnd_slot cmd h ''track'') trk_handlers)"

lemma trk_init_ok:
  assumes he: "heap_empty s" and md: "modes_ok s" and tb: "ic_msghnds (st_irc s) \<noteq> []"
  obtains ok s' where "lsi_trk_init s = Some (ok, s')"
    "ok \<longrightarrow> ucb_ok s' \<and> base_of s' = base_empty \<and> casemap_of s' = casemap_of s \<and> pfx_of s' = pfx_of s \<and>
       live_hnds s' = live_hnds s + trk_slots"
    "\<not> ok \<longrightarrow> live_hnds s' = filter_mset (\<lambda>h. mh_module h \<noteq> ''track'') (live_hnds s)"
    "orc_of s = [] \<longrightarrow> ok \<and> orc_of s' = []"
proof -
  obtain ok s1 n where s1: "reg_seq trk_handlers ''track'' s = Some (ok, s1)" "same_but_hnds s s1" "hp_alloc (st_hp s) = [] \<longrightarrow> ok"
    "live_hnds s1 = live_hnds s + mset (map (\<lambda>(cmd, h). hnd_slot cmd h ''track'') (take n trk_handlers))"
    "ok \<longrightarrow> n = length trk_handlers"
  proof -
    have "list_all (\<lambda>(cmd, _). cmd \<noteq> []) trk_handlers" by (simp add: trk_handlers_def)
    from reg_seq_spec [OF tb this, of "''track''"] show thesis using that by blast
  qed
  note b = same_but_hnds_base [OF s1(2)]
  have s1ok: "heap_empty s1" "modes_ok s1" using he md b(1,2) by simp_all
  obtain ok2 s2 where s2: "lsi_ucb_init s1 = (ok2, s2)"
    "ok2 \<longrightarrow> ucb_ok s2 \<and> base_of s2 = base_empty \<and> casemap_of s2 = casemap_of s1 \<and> pfx_of s2 = pfx_of s1" "orc_of s1 = [] \<longrightarrow> ok2 \<and> orc_of s2 = []"
    by (rule ucb_init_ok [OF s1ok])
  show thesis
  proof (cases "ok \<and> ok2")
    case True
    then have r: "lsi_trk_init s = Some (True, set_endofnames True s2)" using s1(1) s2(1) by (simp add: lsi_trk_init_def)
    have "ucb_ok (set_endofnames True s2)" using same_base_ok [OF same_base_endofnames] s2(2) True by simp
    moreover have "base_of (set_endofnames True s2) = base_of s2" using same_base_endofnames by (simp add: same_base_def)
    moreover have "live_hnds s2 = live_hnds s + trk_slots" using live_ucb_init [OF s2(1)] s1(4,5) True by (simp add: trk_slots_def)
    moreover have "pfx_of (set_endofnames True s2) = pfx_of s" using s2(2) True b(5) by simp
    moreover have "orc_of s = [] \<longrightarrow> orc_of (set_endofnames True s2) = []" using s2(3) b(4) by auto
    ultimately show thesis using s2(2) True b(3) by (intro that [OF r]) auto
  next
    case False
    let ?s = "lsi_msg_unregall ''track'' (if ok then s2 else s1)"
    have "lsi_trk_init s = Some (False, ?s)" using s1(1) s2(1) False by (simp add: lsi_trk_init_def)
    moreover have "live_hnds ?s = filter_mset (\<lambda>h. mh_module h \<noteq> ''track'') (live_hnds s)"
      using live_ucb_init [OF s2(1)] s1(4) filter_track_slots by (simp add: unregall_live)
    ultimately show thesis using that [of False] False s1(3) s2(3) b(4) by (auto simp: orc_of_def)
  qed
qed

end
