(* ===== verification/Listing.thy ===== *)
theory Listing
  imports Reach
begin

text \<open>
  The functions through which the user lists channels, users and members: one rule for the
  loop over a map, instantiated three times, and what the lists contain.
\<close>

section \<open>The rule\<close>

locale map_listing = map_cursor getm setm
  for getm :: "st \<Rightarrow> addr skmap option option" and setm :: "addr skmap option \<Rightarrow> st \<Rightarrow> st" +
  fixes frst nxt :: "st \<Rightarrow> (addr option \<times> st) option"
    and rep :: "addr \<Rightarrow> st \<Rightarrow> 'r option"
  assumes frst: "getm s = Some h \<Longrightarrow> lsi_skmap_first h = (r, h') \<Longrightarrow> frst s = Some (Option.bind r snd, setm h' s)"
    and nxt: "getm s = Some h \<Longrightarrow> lsi_skmap_next h = Some (r, h') \<Longrightarrow> nxt s = Some (Option.bind r snd, setm h' s)"
    and rep_set: "rep a (setm h s) = rep a s"
    and set_set: "setm h (setm h' s) = setm h s"
begin

lemma list_loop_rule:
  assumes "walk_next fuel (Some m1) = Some (map (\<lambda>(k, v). (k, Some v)) kvs, h2)"
    and "getm s = Some (Some m1)" "sk_core m1 = sk_core m" "\<forall>x\<in>set (v # map snd kvs). rep x s \<noteq> None"
  shows "\<exists>s' m2. list_loop n nxt rep v s = Some (take (Suc n) (map (\<lambda>x. the (rep x s)) (v # map snd kvs)), s') \<and>
    (s' = s \<or> s' = setm (Some m2) s) \<and> sk_core m2 = sk_core m"
  using assms
proof (induction n arbitrary: v s m1 kvs fuel)
  case 0
  then show ?case by (intro exI [of _ s] exI [of _ m1]) auto
next
  case (Suc n)
  from Suc.prems(1) obtain k where fuel: "fuel = Suc k" by (cases fuel) auto
  from Suc.prems(1) obtain r h where nx: "lsi_skmap_next (Some m1) = Some (r, h)" unfolding fuel by auto
  then obtain m2 where m2: "h = Some m2" "sk_core m2 = sk_core m1" using skmap_next_core by blast
  let ?s = "setm (Some m2) s"
  have n1: "nxt s = Some (Option.bind r snd, ?s)" using nxt [OF Suc.prems(2) nx] m2 by simp
  show ?case
  proof (cases r)
    case None
    with Suc.prems(1) nx have "kvs = []" unfolding fuel by auto
    then show ?thesis using None n1 Suc.prems(3,4) m2(2)
      by (intro exI [of _ ?s] exI [of _ m2]) auto
  next
    case (Some kv)
    with Suc.prems(1) nx m2 obtain k' v' kvs' where
      kvs: "kvs = (k', v') # kvs'" "kv = (k', Some v')"
        "walk_next k (Some m2) = Some (map (\<lambda>(k, v). (k, Some v)) kvs', h2)" unfolding fuel by auto
    have g2: "getm ?s = Some (Some m2)" by (rule get_set [OF Suc.prems(2)])
    from Suc.IH [OF kvs(3) g2, of v'] m2 Suc.prems(3,4) kvs(1) obtain s' m3 where
      s': "list_loop n nxt rep v' ?s = Some (take (Suc n) (map (\<lambda>x. the (rep x s)) (v' # map snd kvs')), s')"
        "s' = ?s \<or> s' = setm (Some m3) ?s" "sk_core m3 = sk_core m" by (auto simp: rep_set simp del: list_loop.simps)
    have "\<exists>m4. s' = setm (Some m4) s \<and> sk_core m4 = sk_core m"
      using s'(2,3) m2(2) Suc.prems(3) by (auto simp: set_set)
    then obtain m4 where "s' = setm (Some m4) s" "sk_core m4 = sk_core m" by blast
    then show ?thesis using s'(1) n1 Some kvs(1,2) Suc.prems(4)
      by (intro exI [of _ s'] exI [of _ m4]) auto
  qed
qed

lemma listing:
  assumes g: "getm s = Some (Some m)" and ok: "sk_ok cm m" and reps: "\<forall>x\<in>snd ` set (sk_entries m). rep x s \<noteq> None"
  obtains s' m' where "list_all_of limit frst nxt rep s =
      Some (take limit (map (\<lambda>e. the (rep (snd e) s)) (sk_entries m)), s')"
    "s' = s \<or> s' = setm (Some m') s" "sk_core m' = sk_core m"
proof (cases limit)
  case 0
  then show thesis using that [of s m] by (simp add: list_all_of_def)
next
  case (Suc n)
  obtain r h where f: "lsi_skmap_first (Some m) = (r, h)" by fastforce
  then obtain m1 where m1: "h = Some m1" "sk_core m1 = sk_core m" using skmap_first_core by blast
  obtain m' where w: "skmap_walk (Some m) = Some (map (\<lambda>(k, v). (k, Some v)) (sk_entries m), Some m')"
    using skmap_walk_total [OF ok] by blast
  let ?s = "setm (Some m1) s"
  have f1: "frst s = Some (Option.bind r snd, ?s)" using frst [OF g f] m1 by simp
  have g1: "getm ?s = Some (Some m1)" by (rule get_set [OF g])
  show thesis
  proof (cases r)
    case None
    with w f have "sk_entries m = []" by (simp add: skmap_walk_def)
    then show thesis using None f1 m1(2) that [of ?s m1] Suc by (simp add: list_all_of_def)
  next
    case (Some kv)
    with w f m1 obtain k v kvs where kvs: "sk_entries m = (k, v) # kvs" "kv = (k, Some v)"
      "walk_next (node_total m) (Some m1) = Some (map (\<lambda>(k, v). (k, Some v)) kvs, Some m')"
      by (auto simp: skmap_walk_def)
    have "\<forall>x\<in>set (v # map snd kvs). rep x ?s \<noteq> None" using reps kvs(1) by (auto simp: rep_set)
    from list_loop_rule [OF kvs(3) g1 m1(2) this, of n] obtain s' m2 where
      l: "list_loop n nxt rep v ?s = Some (take (Suc n) (map (\<lambda>x. the (rep x s)) (v # map snd kvs)), s')"
        "s' = ?s \<or> s' = setm (Some m2) ?s" "sk_core m2 = sk_core m" by (auto simp: rep_set simp del: list_loop.simps)
    have "\<exists>m3. s' = setm (Some m3) s \<and> sk_core m3 = sk_core m" using l(2,3) m1(2) by (auto simp: set_set)
    then obtain m3 where "s' = setm (Some m3) s" "sk_core m3 = sk_core m" by blast
    moreover have "list_all_of limit frst nxt rep s =
        Some (take limit (map (\<lambda>e. the (rep (snd e) s)) (sk_entries m)), s')"
      using f1 Some kvs(1,2) l(1) Suc by (simp add: list_all_of_def comp_def del: list_loop.simps)
    ultimately show thesis using that by blast
  qed
qed

end

lemma set_twice [simp]:
  "set_chans h (set_chans h' s) = set_chans h s" "set_users h (set_users h' s) = set_users h s"
  by (simp_all add: set_chans_def set_users_def)

interpretation ch_list: map_listing chans_of set_chans lsi_ucb_first_chan lsi_ucb_next_chan
    "\<lambda>a s. map_option mkchanrep (chan_at a s)"
  by unfold_locales (auto simp: lsi_ucb_first_chan_def lsi_ucb_next_chan_def)

interpretation us_list: map_listing "\<lambda>s. Some (users_of s)" set_users lsi_ucb_first_user lsi_ucb_next_user
    "\<lambda>a s. map_option (\<lambda>u. mkuserrep u None) (user_at a s)"
  by unfold_locales (auto simp: lsi_ucb_first_user_def lsi_ucb_next_user_def)

lemma memb_rep_set: "memb_rep a (set_memb_map ca h s) = memb_rep a s"
  by (simp add: memb_rep_def)

lemma set_memb_map_twice: "set_memb_map ca h (set_memb_map ca h' s) = set_memb_map ca h s"
  by (auto simp: set_memb_map_def chan_at_def put_chan_def split: option.split)

interpretation mb_list: map_listing "memb_map ca" "set_memb_map ca" "lsi_ucb_first_memb ca" "lsi_ucb_next_memb ca" memb_rep
  by unfold_locales (auto simp: lsi_ucb_first_memb_def lsi_ucb_next_memb_def memb_rep_set set_memb_map_twice)

section \<open>What the lists contain\<close>


text \<open>The reports of the values of a map, whose keys are the keys of the map.\<close>

lemma entries_reps:
  assumes ok: "sk_ok cm m" and reps: "\<forall>q v. sk_map m q = Some v \<longrightarrow> rep v \<noteq> None"
  defines "rs \<equiv> map (\<lambda>e. the (rep (snd e))) (sk_entries m)"
  shows "\<forall>x\<in>snd ` set (sk_entries m). rep x \<noteq> None" "length rs = sk_count m"
    "set rs = {x. \<exists>q v. sk_map m q = Some v \<and> rep v = Some x}"
proof -
  note iff = sk.kmap_Some_iff [OF ok]
  have e: "\<exists>x. rep (snd e) = Some x \<and> sk_map m (cmkey cm (fst e)) = Some (snd e)" if "e \<in> set (sk_entries m)" for e
  proof -
    have "sk_map m (cmkey cm (fst e)) = Some (snd e)" using iff that by (metis prod.collapse)
    then show ?thesis using reps by blast
  qed
  then show "\<forall>x\<in>snd ` set (sk_entries m). rep x \<noteq> None" by force
  show "set rs = {x. \<exists>q v. sk_map m q = Some v \<and> rep v = Some x}"
  proof (intro equalityI subsetI CollectI)
    fix x assume "x \<in> set rs"
    then obtain e' where "e' \<in> set (sk_entries m)" "x = the (rep (snd e'))" by (auto simp: rs_def)
    then show "\<exists>q v. sk_map m q = Some v \<and> rep v = Some x" using e [of e'] by auto
  next
    fix x assume "x \<in> {x. \<exists>q v. sk_map m q = Some v \<and> rep v = Some x}"
    then obtain q v where qv: "sk_map m q = Some v" "rep v = Some x" by blast
    then obtain k where "(k, v) \<in> set (sk_entries m)" using iff by blast
    then show "x \<in> set rs" using qv(2) by (force simp: rs_def)
  qed
  have "length (sk_entries m) = card (dom (sk_map m))"
    using length_kvs_from [of m] kvs_entries [OF ok] sk_okD(3) [OF ok] sk_count_card [OF ok] by (metis length_map)
  then show "length rs = sk_count m" using sk_count_card [OF ok] by (simp add: rs_def)
qed

lemma entries_distinct:
  assumes ok: "sk_ok cm m" and reps: "\<forall>q v. sk_map m q = Some v \<longrightarrow> (\<exists>x. rep v = Some x \<and> ky x = q)"
  shows "distinct (map ky (take n (map (\<lambda>e. the (rep (snd e))) (sk_entries m))))"
proof -
  have "ky (the (rep (snd e))) = cmkey cm (fst e)" if "e \<in> set (sk_entries m)" for e
  proof -
    have "sk_map m (cmkey cm (fst e)) = Some (snd e)" using sk.kmap_Some_iff [OF ok] that by (metis prod.collapse)
    then show ?thesis using reps by force
  qed
  then have "map ky (map (\<lambda>e. the (rep (snd e))) (sk_entries m)) = map (\<lambda>e. cmkey cm (fst e)) (sk_entries m)" by simp
  then have "distinct (map ky (map (\<lambda>e. the (rep (snd e))) (sk_entries m)))" by (simp only: distinct_sk_keys [OF ok])
  then show ?thesis by (metis distinct_take take_map)
qed

text \<open>Moving the cursor of a map\<close>

lemma cursor_base:
  assumes inv: "ucb_ok s" and core: "sk_core m' = sk_core m"
  shows "users_of s = Some m \<Longrightarrow> ucb_ok (set_users (Some m') s) \<and> base_of (set_users (Some m') s) = base_of s"
    and "chans_of s = Some (Some m) \<Longrightarrow> ucb_ok (set_chans (Some m') s) \<and> base_of (set_chans (Some m') s) = base_of s"
    and "memb_map ca s = Some (Some m) \<Longrightarrow> ucb_ok (set_memb_map ca (Some m') s) \<and> base_of (set_memb_map ca (Some m') s) = base_of s"
proof -
  note st = ucb_st [OF inv [unfolded ucb_ok_def]] and c = sk_core_cong [OF core]
  {
    assume u: "users_of s = Some m"
    then have "sk_ok (cm_of s) m" using st by (auto simp: st_ok_def)
    moreover have "base_of (set_users (Some m') s) = base_of s" using u c by (simp add: base_of_sel fun_eq_iff)
    ultimately show "ucb_ok (set_users (Some m') s) \<and> base_of (set_users (Some m') s) = base_of s"
      using st inv c by (simp add: ucb_ok_def ucb_inv_def st_ok_upd)
  next
    assume u: "chans_of s = Some (Some m)"
    then have "sk_ok (cm_of s) m" using st by (auto simp: st_ok_def)
    moreover have "base_of (set_chans (Some m') s) = base_of s" using u c by (simp add: base_of_sel fun_eq_iff)
    ultimately show "ucb_ok (set_chans (Some m') s) \<and> base_of (set_chans (Some m') s) = base_of s"
      using st inv c by (simp add: ucb_ok_def ucb_inv_def st_ok_upd)
  next
    assume u: "memb_map ca s = Some (Some m)"
    then obtain x where x: "chan_at ca s = Some x" "ch_memb x = Some m" by (auto simp: memb_map_def split: option.splits)
    then have "sk_ok (cm_of s) m" using st unfolding st_ok_def by force
    moreover have "base_of (set_memb_map ca (Some m') s) = base_of s"
      using x c by (auto simp: base_of_def fun_eq_iff split: option.splits)
    ultimately show "ucb_ok (set_memb_map ca (Some m') s) \<and> base_of (set_memb_map ca (Some m') s) = base_of s"
      using st inv c by (simp add: ucb_ok_def ucb_inv_def st_ok_upd)
  }
qed

section \<open>The three lists\<close>

lemma all_chans_ok:
  assumes inv: "ucb_ok s"
  obtains rs s' where "irc_all_chans n s = Some (rs, s')" "ucb_ok s'" "base_of s' = base_of s"
    "distinct (map (\<lambda>r. cmkey (cm_of s) (cr_name r)) rs)" "length rs = min n (the (irc_num_chans s))"
    "the (irc_num_chans s) \<le> n \<longrightarrow>
       set rs = {mkchanrep c | q ca c. bs_chan (base_of s) q = Some ca \<and> chan_at ca s = Some c}"
proof -
  obtain m where m: "chans_of s = Some (Some m)" "sk_ok (cm_of s) m"
    using ucb_st [OF inv [unfolded ucb_ok_def]] by (rule st_okE)
  have bm: "bs_chan (base_of s) = sk_map m" using m by (simp add: base_of_sel)
  let ?rep = "\<lambda>a. map_option mkchanrep (chan_at a s)" and ?ky = "\<lambda>r. cmkey (cm_of s) (cr_name r)"
  have reps: "\<forall>q v. sk_map m q = Some v \<longrightarrow> (\<exists>x. ?rep v = Some x \<and> ?ky x = q)"
    using listed_chan [OF inv] unfolding bm by (metis chanrep.select_convs(1) mkchanrep_def option.simps(9))
  then have reps': "\<forall>q v. sk_map m q = Some v \<longrightarrow> ?rep v \<noteq> None" by force
  note e = entries_reps [OF m(2) reps']
  obtain s' m' where l: "irc_all_chans n s = Some (take n (map (\<lambda>e. the (?rep (snd e))) (sk_entries m)), s')"
    "s' = s \<or> s' = set_chans (Some m') s" "sk_core m' = sk_core m"
    unfolding irc_all_chans_def by (rule ch_list.listing [OF m e(1)])
  have k: "the (irc_num_chans s) = sk_count m"
    using m by (simp add: irc_num_chans_def lsi_ucb_num_chans_def lsi_skmap_count_def)
  have s': "ucb_ok s'" "base_of s' = base_of s" using l(2) cursor_base(2) [OF inv l(3) m(1)] inv by auto
  have st: "set (map (\<lambda>e. the (?rep (snd e))) (sk_entries m)) =
      {mkchanrep c | q ca c. bs_chan (base_of s) q = Some ca \<and> chan_at ca s = Some c}"
    unfolding e(3) bm by force
  show thesis
    by (rule that [OF l(1) s' entries_distinct [OF m(2) reps]]) (use e(2) k st in \<open>simp_all del: set_map\<close>)
qed

lemma all_users_ok:
  assumes inv: "ucb_ok s"
  obtains rs s' where "irc_all_users n s = Some (rs, s')" "ucb_ok s'" "base_of s' = base_of s"
    "distinct (map (\<lambda>r. cmkey (cm_of s) (ur_nick r)) rs)" "length rs = min n (irc_num_users s)"
    "irc_num_users s \<le> n \<longrightarrow>
       set rs = {mkuserrep u None | q ua u. bs_user (base_of s) q = Some ua \<and> user_at ua s = Some u}"
proof -
  obtain m where m: "Some (users_of s) = Some (Some m)" "sk_ok (cm_of s) m"
    using ucb_st [OF inv [unfolded ucb_ok_def]] by (auto elim: st_okE)
  have bm: "bs_user (base_of s) = sk_map m" using m by (simp add: base_of_sel)
  let ?rep = "\<lambda>a. map_option (\<lambda>u. mkuserrep u None) (user_at a s)" and ?ky = "\<lambda>r. cmkey (cm_of s) (ur_nick r)"
  have reps: "\<forall>q v. sk_map m q = Some v \<longrightarrow> (\<exists>x. ?rep v = Some x \<and> ?ky x = q)"
    using listed_user [OF inv] unfolding bm by (metis userrep.select_convs(2) mkuserrep_def option.simps(9))
  then have reps': "\<forall>q v. sk_map m q = Some v \<longrightarrow> ?rep v \<noteq> None" by force
  note e = entries_reps [OF m(2) reps']
  obtain s' m' where l: "irc_all_users n s = Some (take n (map (\<lambda>e. the (?rep (snd e))) (sk_entries m)), s')"
    "s' = s \<or> s' = set_users (Some m') s" "sk_core m' = sk_core m"
    unfolding irc_all_users_def by (rule us_list.listing [OF m e(1)])
  have k: "irc_num_users s = sk_count m"
    using m by (simp add: irc_num_users_def lsi_ucb_num_users_def lsi_skmap_count_def)
  have s': "ucb_ok s'" "base_of s' = base_of s" using l(2) cursor_base(1) [OF inv l(3)] m(1) inv by auto
  have st: "set (map (\<lambda>e. the (?rep (snd e))) (sk_entries m)) =
      {mkuserrep u None | q ua u. bs_user (base_of s) q = Some ua \<and> user_at ua s = Some u}"
    unfolding e(3) bm by force
  show thesis
    by (rule that [OF l(1) s' entries_distinct [OF m(2) reps]]) (use e(2) k st in \<open>simp_all del: set_map\<close>)
qed

lemma all_members_ok:
  assumes inv: "ucb_ok s" and q: "bs_chan (base_of s) (cmkey (cm_of s) ch) = Some ca"
  obtains rs s' where "irc_all_members ch n s = Some (rs, s')" "ucb_ok s'" "base_of s' = base_of s"
    "length rs = min n (card (dom (bs_memb (base_of s) ca)))"
    "card (dom (bs_memb (base_of s) ca)) \<le> n \<longrightarrow> set rs = {mkuserrep u (Some (mb_modepfx m)) | k ma m u.
       bs_memb (base_of s) ca k = Some ma \<and> memb_at ma s = Some m \<and> user_at (mb_u m) s = Some u}"
proof -
  obtain c m where c: "chan_at ca s = Some c" "ch_memb c = Some m" "sk_ok (cm_of s) m" by (rule listed_chan [OF inv q])
  then have mm: "memb_map ca s = Some (Some m)" by (simp add: memb_map_def)
  have bm: "bs_memb (base_of s) ca = sk_map m" using c by (simp add: base_of_sel)
  have reps: "\<forall>k v. sk_map m k = Some v \<longrightarrow> memb_rep v s \<noteq> None"
  proof (intro allI impI)
    fix k v assume that: "sk_map m k = Some v"
    have "member (base_of s) {} ca k v" using q that bm by (auto simp: member_def intro: ranI)
    then show "memb_rep v s \<noteq> None" using base_member_who [OF ucb_base [OF inv [unfolded ucb_ok_def]]]
      by (fastforce simp: memb_rep_def base_of_sel)
  qed
  note e = entries_reps [OF c(3) reps]
  obtain s' m' where l: "list_all_of n (lsi_ucb_first_memb ca) (lsi_ucb_next_memb ca) memb_rep s =
      Some (take n (map (\<lambda>e. the (memb_rep (snd e) s)) (sk_entries m)), s')"
    "s' = s \<or> s' = set_memb_map ca (Some m') s" "sk_core m' = sk_core m"
    by (rule mb_list.listing [OF mm c(3) e(1)])
  have "ucb_ok s' \<and> base_of s' = base_of s" using l(2) cursor_base(3) [OF inv l(3) mm] inv by auto
  moreover have "irc_all_members ch n s = Some (take n (map (\<lambda>e. the (memb_rep (snd e) s)) (sk_entries m)), s')"
    using inv q l(1) by (cases n) (simp_all add: irc_all_members_def chan_name_base list_all_of_def)
  moreover have "{x. \<exists>k ma. sk_map m k = Some ma \<and> memb_rep ma s = Some x} =
      {mkuserrep u (Some (mb_modepfx mb)) | k ma mb u. sk_map m k = Some ma \<and> memb_at ma s = Some mb \<and> user_at (mb_u mb) s = Some u}"
    by (force simp: memb_rep_def split: option.splits)
  ultimately show thesis using that [of _ s'] e(2,3) sk_count_card [OF c(3)] by (simp add: bm min_def)
qed

end
