(* ===== verification/Dump.thy ===== *)
theory Dump
  imports Listing
begin

text \<open>
  What the library prints about the base of users and channels: \<open>lsi_skmap_dumpstat\<close>
  (\<open>skmap.c\<close>) and \<open>lsi_ucb_dump\<close> (\<open>ucbase.c\<close>).  The lines are values instead of formatted text.  The
  full dump marks every user as dangling, takes the mark from everyone it meets as a member, and reports
  those who still bear it; \<open>dm_dangling\<close> is the flag \<open>dangling\<close> of \<open>struct user\<close>, which nothing
  else uses.
\<close>

datatype dump_line =
    L_stat string "nat \<times> nat \<times> nat \<times> rat \<times> rat \<times> nat"
  | L_chan chan nat
  | L_mode string
  | L_memb string user
  | L_dangling user
  | L_text string
  | L_str string "string option"
  | L_num string int
  | L_elem string nat "string option"
  | L_type string int string

record dump =
  dm_st :: st
  dm_dangling :: "addr set"
  dm_out :: "dump_line list"

definition dm_say :: "dump_line \<Rightarrow> dump \<Rightarrow> dump" where
  "dm_say l d = d\<lparr>dm_out := dm_out d @ [l]\<rparr>"

text \<open>A map that is NULL is read through.\<close>

definition lsi_skmap_dumpstat :: "addr skmap option \<Rightarrow> string \<Rightarrow> dump \<Rightarrow> dump option" where
  "lsi_skmap_dumpstat h dbgname d = do { m \<leftarrow> h; Some (dm_say (L_stat dbgname (lsi_skmap_stat m)) d) }"

definition dm_chans :: "dump \<Rightarrow> addr skmap option option" where
  "dm_chans d = chans_of (dm_st d)"

definition dm_users :: "dump \<Rightarrow> addr skmap option option" where
  "dm_users d = Some (users_of (dm_st d))"

definition dm_membs :: "addr \<Rightarrow> dump \<Rightarrow> addr skmap option option" where
  "dm_membs ca d = memb_map ca (dm_st d)"

definition dm_set :: "(addr skmap option \<Rightarrow> st \<Rightarrow> st) \<Rightarrow> addr skmap option \<Rightarrow> dump \<Rightarrow> dump" where
  "dm_set f h d = d\<lparr>dm_st := f h (dm_st d)\<rparr>"

section \<open>The dump\<close>

definition stat_chan :: "addr \<Rightarrow> dump \<Rightarrow> (bool \<times> dump) option" where
  "stat_chan ca d = do {
     c \<leftarrow> chan_at ca (dm_st d);
     d1 \<leftarrow> lsi_skmap_dumpstat (ch_memb c) (ch_name c) d;
     Some (False, d1) }"

definition mark_user :: "addr \<Rightarrow> dump \<Rightarrow> (bool \<times> dump) option" where
  "mark_user ua d = do {
     _ \<leftarrow> user_at ua (dm_st d);
     Some (False, d\<lparr>dm_dangling := insert ua (dm_dangling d)\<rparr>) }"

definition dump_memb :: "addr \<Rightarrow> dump \<Rightarrow> (bool \<times> dump) option" where
  "dump_memb ma d = do {
     m \<leftarrow> memb_at ma (dm_st d);
     u \<leftarrow> user_at (mb_u m) (dm_st d);
     let d1 = dm_say (L_memb (mb_modepfx m) u) d;
     Some (False, d1\<lparr>dm_dangling := dm_dangling d1 - {mb_u m}\<rparr>) }"

definition dump_chan :: "addr \<Rightarrow> dump \<Rightarrow> (bool \<times> dump) option" where
  "dump_chan ca d = do {
     c \<leftarrow> chan_at ca (dm_st d);
     let d1 = dm_say (L_chan c (lsi_skmap_count (ch_memb c))) d;
     let d2 = fold (\<lambda>x. dm_say (L_mode (the x))) (takeWhile (\<lambda>x. x \<noteq> None) (ch_modes c)) d1;
     (_, d3) \<leftarrow> for_each (dm_membs ca) (dm_set (set_memb_map ca)) dump_memb d2;
     Some (False, d3) }"

definition dump_dangling :: "addr \<Rightarrow> dump \<Rightarrow> (bool \<times> dump) option" where
  "dump_dangling ua d = do {
     u \<leftarrow> user_at ua (dm_st d);
     Some (False, if ua \<in> dm_dangling d then dm_say (L_dangling u) d else d) }"

definition lsi_ucb_dump :: "bool \<Rightarrow> dump \<Rightarrow> dump option" where
  "lsi_ucb_dump full d = do {
     cs \<leftarrow> dm_chans d;
     d1 \<leftarrow> lsi_skmap_dumpstat cs ''channels'' d;
     us \<leftarrow> dm_users d1;
     d2 \<leftarrow> lsi_skmap_dumpstat us ''global users'' d1;
     (_, d3) \<leftarrow> for_each dm_chans (dm_set set_chans) stat_chan d2;
     if \<not> full then Some d3
     else do {
       (_, d4) \<leftarrow> for_each dm_users (dm_set set_users) mark_user d3;
       (_, d5) \<leftarrow> for_each dm_chans (dm_set set_chans) dump_chan d4;
       (_, d6) \<leftarrow> for_each dm_users (dm_set set_users) dump_dangling d5;
       Some d6 } }"

definition lsi_trk_dump :: "bool \<Rightarrow> dump \<Rightarrow> dump option" where
  "lsi_trk_dump full d = lsi_ucb_dump full d"

section \<open>The fields of a context\<close>

text \<open>
  Labels with the values printed behind them; None is a NULL pointer that is printed with \<open>%s\<close>.  Addresses
  are left out.
\<close>

abbreviation L_bool :: "string \<Rightarrow> bool \<Rightarrow> dump_line" where
  "L_bool nam b \<equiv> L_num nam (if b then 1 else 0)"

definition irc_conn_dump :: "iconn \<Rightarrow> dump_line list" where
  "irc_conn_dump ctx =
     [L_text ''--- connection context dump---'', L_str ''host'' (Some (co_host ctx)), L_num ''port'' (uint (co_port ctx)),
      L_str ''phost'' (co_phost ctx), L_num ''pport'' (uint (co_pport ctx)),
      L_type ''ptype'' (co_ptype ctx) (if co_ptype ctx = -1 then ''NONE'' else lsi_px_typestr (co_ptype ctx)),
      L_num ''sh.sck'' (co_sck ctx), L_bool ''online'' (co_online ctx), L_bool ''eof'' (co_eof ctx),
      L_bool ''colon_trail'' (co_colon_trail ctx), L_bool ''ssl'' (co_ssl ctx),
      L_num ''read buffer'' (int (rx_eptr (co_rctx ctx)) - int (rx_wptr (co_rctx ctx))),
      L_text ''--- end of connection context dump ---'']"

text \<open>The conversation of the logon; messages that did not come are skipped.  \<open>%p\<close> prints NULL as \<open>(nil)\<close>.\<close>

definition conv_lines :: "tokarr option list \<Rightarrow> dump_line list" where
  "conv_lines conv =
     concat (map (\<lambda>(i, m). case m of None \<Rightarrow> [] | Some msg \<Rightarrow> [L_elem ''logonconv'' i (Some (lsi_ut_sndumpmsg 1024 ''(nil)'' msg))])
       (enumerate 0 conv))"

definition irc_fields :: "irc \<Rightarrow> dump_line list" where
  "irc_fields ctx =
     [L_str ''mynick'' (Some (ic_mynick ctx)), L_str ''myhost'' (Some (ic_myhost ctx)), L_bool ''service'' (ic_service ctx),
      L_str ''cmodes'' (Some (ic_cmodes ctx)), L_str ''umodes'' (Some (ic_umodes ctx)), L_str ''myumodes'' (Some (ic_myumodes ctx)),
      L_str ''ver'' (Some (ic_ver ctx)), L_str ''lasterr'' (ic_lasterr ctx), L_num ''hcto_us'' (uint (ic_hcto_us ctx)),
      L_num ''scto_us'' (uint (ic_scto_us ctx)), L_bool ''restricted'' (ic_restricted ctx), L_bool ''banned'' (ic_banned ctx),
      L_str ''banmsg'' (ic_banmsg ctx), L_num ''casemap'' (int (ic_casemap ctx)), L_str ''pass'' (ic_pass ctx),
      L_str ''nick'' (ic_nick ctx), L_str ''uname'' (ic_uname ctx), L_str ''fname'' (ic_fname ctx),
      L_num ''conflags'' (uint (ic_conflags ctx)), L_bool ''serv_con'' (ic_serv_con ctx), L_str ''serv_dist'' (ic_serv_dist ctx),
      L_num ''serv_type'' (ic_serv_type ctx), L_str ''serv_info'' (ic_serv_info ctx)] @
     map (\<lambda>(i, x). L_elem ''m005chanmodes'' i (Some x)) (enumerate 0 (take 4 (ic_m005chanmodes ctx))) @
     [L_elem ''m005modepfx'' 0 (Some (fst (ic_m005modepfx ctx))), L_elem ''m005modepfx'' 1 (Some (snd (ic_m005modepfx ctx))),
      L_str ''m005chantypes'' (Some (ic_m005chantypes ctx)), L_bool ''tracking'' (ic_tracking ctx),
      L_bool ''tracking_enab'' (ic_tracking_enab ctx), L_bool ''endofnames'' (ic_endofnames ctx), L_num ''v3ntags'' (int (ic_v3ntags ctx))] @
     map (\<lambda>(i, x). L_elem ''v3tags_raw'' i x) (enumerate 0 (ic_v3tags_raw ctx)) @
     map (\<lambda>(i, x). L_elem ''v3tags_dec'' i (Some x)) (enumerate 0 (ic_v3tags_dec ctx)) @
     conv_lines (ic_logonconv ctx)"

definition irc_dump :: "dump \<Rightarrow> dump option" where
  "irc_dump d =
     (let ctx = st_irc (dm_st d);
          d1 = fold dm_say (L_text ''--- IRC context dump---'' # irc_conn_dump (ic_con ctx) @ irc_fields ctx) d
      in do {
        d2 \<leftarrow> (if ic_tracking_enab ctx then lsi_trk_dump True d1 else Some d1);
        Some (dm_say (L_text ''--- end of IRC context dump ---'') d2) })"

section \<open>Loops that leave the base alone\<close>

text \<open>
  A client of \<open>map_cursor\<close> that never leaves its loop and keeps \<open>J\<close>, under which the map has
  the values \<open>vals\<close>: every value is visited.
\<close>

locale map_scan = map_cursor getm setm
  for getm :: "'s \<Rightarrow> addr skmap option option" and setm :: "addr skmap option \<Rightarrow> 's \<Rightarrow> 's" +
  fixes J :: "'s \<Rightarrow> bool" and vals :: "addr set"
  assumes J_map: "J s \<Longrightarrow> \<exists>m cm. getm s = Some (Some m) \<and> sk_ok cm m \<and> ran (sk_map m) = vals"
    and J_set: "J s \<Longrightarrow> getm s = Some (Some m) \<Longrightarrow> sk_core m' = sk_core m \<Longrightarrow> J (setm (Some m') s)"
begin

lemma scan:
  assumes "J d" and init: "\<And>vs. set vs = vals \<Longrightarrow> P vs d"
    and cong: "\<And>vs d h. P vs d \<Longrightarrow> P vs (setm h d)"
    and step: "\<And>v vs d. J d \<Longrightarrow> v \<in> vals \<Longrightarrow> P (v # vs) d \<Longrightarrow>
      \<exists>d'. body v d = Some (False, d') \<and> J d' \<and> getm d' = getm d \<and> P vs d'"
  obtains d' where "for_each getm setm body d = Some (False, d')" "J d'" "P [] d'"
proof -
  obtain m cm where m: "getm d = Some (Some m)" "sk_ok cm m" "ran (sk_map m) = vals" using J_map [OF assms(1)] by blast
  let ?I = "\<lambda>vs d. J d \<and> set vs \<subseteq> vals \<and> P vs d"
  have "set (map snd (sk_entries m)) = vals" using entries_ran [OF m(2)] m(3) by simp
  then have init': "?I (map snd (sk_entries m)) d" using assms(1) init by simp
  have stable: "?I vs (setm (Some m2) s)"
    if "?I vs s" "getm s = Some (Some m1)" "sk_core m1 = sk_core m" "sk_core m2 = sk_core m" for vs s m1 m2
    using that J_set [of s m1 m2] cong by simp
  have step': "\<exists>stop s'. body v s = Some (stop, s') \<and> getm s' = Some (Some m1) \<and> (if stop then False else ?I vs s')"
    if "?I (v # vs) s" "getm s = Some (Some m1)" "sk_core m1 = sk_core m" for v vs s m1
    using step [of s v vs] that by auto
  obtain stop s' where "for_each getm setm body d = Some (stop, s')" "if stop then False else ?I [] s'"
    by (rule for_each_rule [where I = ?I and Q = "\<lambda>_. False", OF m(1,2) init' stable step'])
  then show thesis using that by (auto split: if_splits)
qed

end

text \<open>States that differ in the cursors of their maps only\<close>

definition frame_of :: "st \<Rightarrow> irc \<times> net \<times> mallocs" where
  "frame_of s = ((st_irc s)\<lparr>ic_chans := Null, ic_users := None\<rparr>, st_net s, orc_of s)"

definition dump_eq :: "st \<Rightarrow> st \<Rightarrow> bool" where
  "dump_eq s0 s \<longleftrightarrow> ucb_ok s \<and> base_of s = base_of s0 \<and> cm_of s = cm_of s0 \<and>
     (\<forall>x. user_at x s = user_at x s0) \<and> (\<forall>x. memb_at x s = memb_at x s0) \<and> frame_of s = frame_of s0"

lemma frame_of_set [simp]:
  "frame_of (set_users h s) = frame_of s" "frame_of (set_chans h s) = frame_of s" "frame_of (set_memb_map ca h s) = frame_of s"
  by (simp_all add: frame_of_def acc_defs set_memb_map_def split: option.split)

lemma dump_eq_refl: "ucb_ok s \<Longrightarrow> dump_eq s s"
  by (simp add: dump_eq_def)

lemma dump_eq_set:
  assumes "dump_eq s0 s" "sk_core m' = sk_core m"
  shows "users_of s = Some m \<Longrightarrow> dump_eq s0 (set_users (Some m') s)"
    and "chans_of s = Some (Some m) \<Longrightarrow> dump_eq s0 (set_chans (Some m') s)"
    and "memb_map ca s = Some (Some m) \<Longrightarrow> dump_eq s0 (set_memb_map ca (Some m') s)"
  using cursor_base [of s m' m] assms unfolding dump_eq_def by auto

lemma dump_eq_maps:
  assumes "dump_eq s0 s"
  shows "\<exists>m. users_of s = Some m \<and> sk_ok (cm_of s0) m \<and> ran (sk_map m) = ran (bs_user (base_of s0))"
    and "\<exists>m. chans_of s = Some (Some m) \<and> sk_ok (cm_of s0) m \<and> ran (sk_map m) = ran (bs_chan (base_of s0))"
    and "ca \<in> ran (bs_chan (base_of s0)) \<Longrightarrow> \<exists>c m. chan_at ca s = Some c \<and> ch_memb c = Some m \<and>
      memb_map ca s = Some (Some m) \<and> sk_ok (cm_of s0) m \<and> ran (sk_map m) = ran (bs_memb (base_of s0) ca)"
proof -
  have inv: "ucb_ok s" and b: "base_of s0 = base_of s" "cm_of s0 = cm_of s" using assms by (simp_all add: dump_eq_def)
  obtain um cs where "users_of s = Some um" "sk_ok (cm_of s) um" "chans_of s = Some (Some cs)" "sk_ok (cm_of s) cs"
    using ucb_st [OF inv [unfolded ucb_ok_def]] by (rule st_okE)
  then show "\<exists>m. users_of s = Some m \<and> sk_ok (cm_of s0) m \<and> ran (sk_map m) = ran (bs_user (base_of s0))"
    "\<exists>m. chans_of s = Some (Some m) \<and> sk_ok (cm_of s0) m \<and> ran (sk_map m) = ran (bs_chan (base_of s0))"
    unfolding b by (simp_all add: base_of_sel)
  assume "ca \<in> ran (bs_chan (base_of s0))"
  then obtain q where "bs_chan (base_of s) q = Some ca" unfolding b by (auto simp: ran_def)
  then obtain c m where "chan_at ca s = Some c" "ch_memb c = Some m" "sk_ok (cm_of s) m" by (rule listed_chan [OF inv])
  then show "\<exists>c m. chan_at ca s = Some c \<and> ch_memb c = Some m \<and> memb_map ca s = Some (Some m) \<and> sk_ok (cm_of s0) m \<and>
      ran (sk_map m) = ran (bs_memb (base_of s0) ca)" unfolding b by (simp add: base_of_sel memb_map_def)
qed

lemmas dm_defs = dm_chans_def dm_users_def dm_membs_def dm_set_def

interpretation dm_ch: map_scan dm_chans "dm_set set_chans" "\<lambda>d. dump_eq s0 (dm_st d)" "ran (bs_chan (base_of s0))"
  using dump_eq_maps(2) [of s0] dump_eq_set(2) [of s0] by unfold_locales (fastforce simp: dm_defs)+

interpretation dm_us: map_scan dm_users "dm_set set_users" "\<lambda>d. dump_eq s0 (dm_st d)" "ran (bs_user (base_of s0))"
  using dump_eq_maps(1) [of s0] dump_eq_set(1) [of s0] by unfold_locales (fastforce simp: dm_defs)+

interpretation dm_mb: map_scan "dm_membs ca" "dm_set (set_memb_map ca)"
    "\<lambda>d. dump_eq s0 (dm_st d) \<and> chans_of (dm_st d) = C \<and> ca \<in> ran (bs_chan (base_of s0))" "ran (bs_memb (base_of s0) ca)"
proof (unfold_locales, goal_cases)
  case (1 s m0 m)
  then show ?case by (simp add: dm_defs mb.get_set)
next
  case (2 s)
  then show ?case using dump_eq_maps(3) [of s0 "dm_st s" ca] by (auto simp: dm_defs)
next
  case (3 s m m')
  then show ?case using dump_eq_set(3) [of s0 "dm_st s" m' m ca] by (auto simp: dm_defs)
qed

section \<open>What the dump reports\<close>

definition dangling_out :: "dump \<Rightarrow> user set" where
  "dangling_out d = {u. L_dangling u \<in> set (dm_out d)}"

lemma dm_say_simps [simp]:
  "dm_st (dm_say l d) = dm_st d" "dm_dangling (dm_say l d) = dm_dangling d"
  "dangling_out (dm_say l d) = dangling_out d \<union> (case l of L_dangling u \<Rightarrow> {u} | _ \<Rightarrow> {})"
  by (auto simp: dm_say_def dangling_out_def split: dump_line.splits)

lemma dm_set_simps [simp]:
  "dm_st (dm_set f h d) = f h (dm_st d)" "dm_dangling (dm_set f h d) = dm_dangling d"
  "dangling_out (dm_set f h d) = dangling_out d"
  by (simp_all add: dm_set_def dangling_out_def)

lemma dm_modes_simps [simp]:
  "dm_st (fold (\<lambda>x. dm_say (L_mode (g x))) xs d) = dm_st d"
  "dm_dangling (fold (\<lambda>x. dm_say (L_mode (g x))) xs d) = dm_dangling d"
  "dangling_out (fold (\<lambda>x. dm_say (L_mode (g x))) xs d) = dangling_out d"
  by (induction xs arbitrary: d) simp_all

lemma dangling_upd [simp]: "dangling_out (d\<lparr>dm_dangling := D\<rparr>) = dangling_out d" "dangling_out (d\<lparr>dm_st := s\<rparr>) = dangling_out d"
  by (simp_all add: dangling_out_def)

lemma member_user:
  assumes "dump_eq s0 s" "member (base_of s0) {} ca k ma"
  obtains m u where "memb_at ma s = Some m" "user_at (mb_u m) s = Some u" "bs_who (base_of s0) ma = Some (mb_u m)"
proof -
  have inv: "ucb_ok s" and b: "base_of s0 = base_of s" using assms by (simp_all add: dump_eq_def)
  obtain ua where "bs_who (base_of s) ma = Some ua" "bs_nick (base_of s) ua \<noteq> None"
    using base_member_who [OF ucb_base [OF inv [unfolded ucb_ok_def]]] assms(2) unfolding b by blast
  then show thesis using that unfolding b by (auto simp: base_of_sel)
qed

text \<open>The full pass over the channels takes the mark from exactly the users with a membership.\<close>

definition marks_ok :: "user set \<Rightarrow> st \<Rightarrow> dump \<Rightarrow> bool" where
  "marks_ok X s0 d \<longleftrightarrow> dangling_out d = X \<and>
     (\<forall>ua\<in>ran (bs_user (base_of s0)). ua \<notin> dm_dangling d \<longrightarrow> slots (base_of s0) {} ua \<noteq> {})"

definition unmarked :: "st \<Rightarrow> (addr \<Rightarrow> addr \<Rightarrow> bool) \<Rightarrow> dump \<Rightarrow> bool" where
  "unmarked s0 seen d \<longleftrightarrow> (\<forall>ca k ma ua. member (base_of s0) {} ca k ma \<longrightarrow> bs_who (base_of s0) ma = Some ua \<longrightarrow>
     seen ca ma \<longrightarrow> ua \<notin> dm_dangling d)"

lemma marks_upd [simp]:
  "marks_ok X s0 (dm_set f h d) = marks_ok X s0 d" "unmarked s0 seen (dm_set f h d) = unmarked s0 seen d"
  by (simp_all add: marks_ok_def unmarked_def)

lemma dump_memb_ok:
  assumes "dump_eq s0 (dm_st d)" "ca \<in> ran (bs_chan (base_of s0))" "ma \<in> ran (bs_memb (base_of s0) ca)" "marks_ok X s0 d"
  obtains d' where "dump_memb ma d = Some (False, d')" "dm_st d' = dm_st d" "marks_ok X s0 d'"
    "\<And>seen. unmarked s0 seen d \<Longrightarrow> unmarked s0 (\<lambda>ca x. x = ma \<or> seen ca x) d'"
proof -
  obtain k where k: "member (base_of s0) {} ca k ma" using assms(2,3) by (auto simp: member_def ran_def)
  obtain m u where m: "memb_at ma (dm_st d) = Some m" "user_at (mb_u m) (dm_st d) = Some u" "bs_who (base_of s0) ma = Some (mb_u m)"
    by (rule member_user [OF assms(1) k])
  then have sl: "slots (base_of s0) {} (mb_u m) \<noteq> {}" using k by (auto simp: slots_def)
  let ?d = "(dm_say (L_memb (mb_modepfx m) u) d)\<lparr>dm_dangling := dm_dangling d - {mb_u m}\<rparr>"
  have "dump_memb ma d = Some (False, ?d)" using m by (simp add: dump_memb_def)
  moreover have "marks_ok X s0 ?d" using assms(4) sl by (auto simp: marks_ok_def)
  moreover have "unmarked s0 (\<lambda>ca x. x = ma \<or> seen ca x) ?d" if "unmarked s0 seen d" for seen
    using that m(3) unfolding unmarked_def by auto
  ultimately show thesis using that by simp
qed

lemma dump_chan_ok:
  assumes sb: "dump_eq s0 (dm_st d)" and ca: "ca \<in> ran (bs_chan (base_of s0))" and ok: "marks_ok X s0 d"
    and um: "unmarked s0 (\<lambda>c x. c \<notin> set (ca # cas)) d"
  shows "\<exists>d'. dump_chan ca d = Some (False, d') \<and> dump_eq s0 (dm_st d') \<and> dm_chans d' = dm_chans d \<and>
    marks_ok X s0 d' \<and> unmarked s0 (\<lambda>c x. c \<notin> set cas) d'"
proof -
  obtain c where c: "chan_at ca (dm_st d) = Some c" using dump_eq_maps(3) [OF sb ca] by blast
  let ?d = "fold (\<lambda>x. dm_say (L_mode (the x))) (takeWhile (\<lambda>x. x \<noteq> None) (ch_modes c))
    (dm_say (L_chan c (lsi_skmap_count (ch_memb c))) d)"
  let ?P = "\<lambda>vs d. marks_ok X s0 d \<and> unmarked s0 (\<lambda>c x. c \<notin> set (ca # cas)) d \<and> unmarked s0 (\<lambda>c x. c = ca \<and> x \<notin> set vs) d"
  let ?J = "\<lambda>d'. dump_eq s0 (dm_st d') \<and> chans_of (dm_st d') = chans_of (dm_st d) \<and> ca \<in> ran (bs_chan (base_of s0))"
  have J: "?J ?d" using sb ca by simp
  have init: "?P vs ?d" if "set vs = ran (bs_memb (base_of s0) ca)" for vs
    using ok um that by (auto simp: marks_ok_def unmarked_def member_def ran_def)
  have cong: "?P vs (dm_set (set_memb_map ca) h d)" if "?P vs d" for vs d h using that by simp
  have step: "\<exists>d2. dump_memb v d1 = Some (False, d2) \<and> ?J d2 \<and> dm_membs ca d2 = dm_membs ca d1 \<and> ?P vs d2"
    if "?J d1" "v \<in> ran (bs_memb (base_of s0) ca)" "?P (v # vs) d1" for v vs d1
  proof -
    have pre: "dump_eq s0 (dm_st d1)" "ca \<in> ran (bs_chan (base_of s0))" "v \<in> ran (bs_memb (base_of s0) ca)" "marks_ok X s0 d1"
      using that by simp_all
    obtain d2 where d2: "dump_memb v d1 = Some (False, d2)" "dm_st d2 = dm_st d1" "marks_ok X s0 d2"
      "\<And>seen. unmarked s0 seen d1 \<Longrightarrow> unmarked s0 (\<lambda>ca x. x = v \<or> seen ca x) d2"
      by (rule dump_memb_ok [OF pre]) blast
    have "unmarked s0 (\<lambda>c x. c \<notin> set (ca # cas)) d2" "unmarked s0 (\<lambda>c x. c = ca \<and> x \<notin> set vs) d2"
      using d2(4) [of "\<lambda>c x. c \<notin> set (ca # cas)"] d2(4) [of "\<lambda>c x. c = ca \<and> x \<notin> set (v # vs)"] that(3)
      unfolding unmarked_def by (simp, fastforce)+
    then show ?thesis using d2 that(1) by (simp add: dm_membs_def)
  qed
  obtain d' where loop: "for_each (dm_membs ca) (dm_set (set_memb_map ca)) dump_memb ?d = Some (False, d')" "?J d'" "?P [] d'"
    by (rule dm_mb.scan [where P = ?P and body = dump_memb, OF J init cong step])
  have "unmarked s0 (\<lambda>c x. c \<notin> set cas) d'" using loop(3) unfolding unmarked_def by fastforce
  then show ?thesis using loop c by (simp add: dump_chan_def dm_chans_def)
qed

lemma stat_loop_ok:
  assumes "dump_eq s0 (dm_st d)" "dangling_out d = X"
  obtains d' where "for_each dm_chans (dm_set set_chans) stat_chan d = Some (False, d')" "dump_eq s0 (dm_st d')" "dangling_out d' = X"
proof -
  have step: "\<exists>d2. stat_chan v d1 = Some (False, d2) \<and> dump_eq s0 (dm_st d2) \<and> dm_chans d2 = dm_chans d1 \<and> dangling_out d2 = X"
    if "dump_eq s0 (dm_st d1)" "v \<in> ran (bs_chan (base_of s0))" "dangling_out d1 = X" for v d1
    using dump_eq_maps(3) [OF that(1,2)] that by (auto simp: stat_chan_def lsi_skmap_dumpstat_def dm_chans_def)
  show thesis
    by (rule dm_ch.scan [where P = "\<lambda>_ d. dangling_out d = X" and body = stat_chan, OF assms(1)]) (use step assms(2) that in auto)
qed

lemma dump_eq_user:
  assumes "dump_eq s0 s" "ua \<in> ran (bs_user (base_of s0))"
  obtains u where "user_at ua s = Some u" "user_at ua s0 = Some u"
proof -
  obtain q where "bs_user (base_of s) q = Some ua" using assms by (auto simp: dump_eq_def ran_def)
  then obtain u where "user_at ua s = Some u" using listed_user assms(1) unfolding dump_eq_def by metis
  with assms(1) that show thesis by (auto simp: dump_eq_def)
qed

lemma mark_loop_ok:
  assumes "dump_eq s0 (dm_st d)" "dangling_out d = X"
  obtains d' where "for_each dm_users (dm_set set_users) mark_user d = Some (False, d')" "dump_eq s0 (dm_st d')"
    "dangling_out d' = X" "ran (bs_user (base_of s0)) \<subseteq> dm_dangling d'"
proof -
  let ?P = "\<lambda>vs d. dangling_out d = X \<and> ran (bs_user (base_of s0)) \<subseteq> dm_dangling d \<union> set vs"
  have step: "\<exists>d2. mark_user v d1 = Some (False, d2) \<and> dump_eq s0 (dm_st d2) \<and> dm_users d2 = dm_users d1 \<and> ?P vs d2"
    if "dump_eq s0 (dm_st d1)" "v \<in> ran (bs_user (base_of s0))" "?P (v # vs) d1" for v vs d1
  proof -
    note p = that
    obtain u where "user_at v (dm_st d1) = Some u" by (rule dump_eq_user [OF p(1,2)])
    then show ?thesis using that by (auto simp: mark_user_def dm_users_def)
  qed
  show thesis
    by (rule dm_us.scan [where P = ?P and body = mark_user, OF assms(1)]) (use step assms(2) that in auto)
qed

lemma dump_loop_ok:
  assumes "dump_eq s0 (dm_st d)" "dangling_out d = X" "ran (bs_user (base_of s0)) \<subseteq> dm_dangling d"
  obtains d' where "for_each dm_chans (dm_set set_chans) dump_chan d = Some (False, d')" "dump_eq s0 (dm_st d')"
    "dangling_out d' = X" "\<And>ua. ua \<in> ran (bs_user (base_of s0)) \<Longrightarrow> ua \<in> dm_dangling d' \<longleftrightarrow> slots (base_of s0) {} ua = {}"
proof -
  let ?P = "\<lambda>vs d. marks_ok X s0 d \<and> unmarked s0 (\<lambda>c x. c \<notin> set vs) d"
  have init: "?P vs d" if "set vs = ran (bs_chan (base_of s0))" for vs
    using assms that by (auto simp: marks_ok_def unmarked_def member_def)
  have step: "\<exists>d2. dump_chan v d1 = Some (False, d2) \<and> dump_eq s0 (dm_st d2) \<and> dm_chans d2 = dm_chans d1 \<and> ?P vs d2"
    if "dump_eq s0 (dm_st d1)" "v \<in> ran (bs_chan (base_of s0))" "?P (v # vs) d1" for v vs d1
    by (rule dump_chan_ok [OF that(1,2)]) (use that(3) in simp_all)
  obtain d' where d': "for_each dm_chans (dm_set set_chans) dump_chan d = Some (False, d')" "dump_eq s0 (dm_st d')" "?P [] d'"
    by (rule dm_ch.scan [where P = ?P and body = dump_chan, OF assms(1) init _ step]) simp_all
  have "ua \<in> dm_dangling d' \<longleftrightarrow> slots (base_of s0) {} ua = {}" if "ua \<in> ran (bs_user (base_of s0))" for ua
    using d'(3) that unfolding marks_ok_def unmarked_def slots_def by fastforce
  then show thesis using that d' by (simp add: marks_ok_def)
qed

lemma report_loop_ok:
  assumes "dump_eq s0 (dm_st d)" "dangling_out d = X"
  obtains d' where "for_each dm_users (dm_set set_users) dump_dangling d = Some (False, d')" "dump_eq s0 (dm_st d')"
    "dangling_out d' = X \<union> {u. \<exists>ua\<in>ran (bs_user (base_of s0)) \<inter> dm_dangling d. user_at ua s0 = Some u}"
proof -
  let ?U = "ran (bs_user (base_of s0)) \<inter> dm_dangling d"
  let ?R = "\<lambda>A. {u. \<exists>ua\<in>A. user_at ua s0 = Some u}"
  let ?P = "\<lambda>vs d'. dm_dangling d' = dm_dangling d \<and> dangling_out d' \<subseteq> X \<union> ?R ?U \<and> X \<union> ?R (?U - set vs) \<subseteq> dangling_out d'"
  have init: "?P vs d" if "set vs = ran (bs_user (base_of s0))" for vs using assms(2) that by auto
  have step: "\<exists>d2. dump_dangling v d1 = Some (False, d2) \<and> dump_eq s0 (dm_st d2) \<and> dm_users d2 = dm_users d1 \<and> ?P vs d2"
    if "dump_eq s0 (dm_st d1)" "v \<in> ran (bs_user (base_of s0))" "?P (v # vs) d1" for v vs d1
  proof -
    note p = that
    obtain u where u: "user_at v (dm_st d1) = Some u" "user_at v s0 = Some u" by (rule dump_eq_user [OF p(1,2)])
    let ?d = "if v \<in> dm_dangling d then dm_say (L_dangling u) d1 else d1"
    have "dangling_out ?d \<subseteq> X \<union> ?R ?U" using that(2,3) u(2) by (cases "v \<in> dm_dangling d") auto
    moreover have "X \<union> ?R (?U - set vs) \<subseteq> dangling_out ?d"
    proof
      fix y assume "y \<in> X \<union> ?R (?U - set vs)"
      then consider "y \<in> X" | ua where "ua \<in> ?U" "ua \<notin> set vs" "user_at ua s0 = Some y" by blast
      then show "y \<in> dangling_out ?d"
      proof cases
        case 1
        then show ?thesis using p(3) by auto
      next
        case (2 ua)
        then show ?thesis using u(2) p(3) by (cases "ua = v") auto
      qed
    qed
    ultimately show ?thesis using u(1) that(1,3) by (simp add: dump_dangling_def dm_users_def)
  qed
  obtain d' where "for_each dm_users (dm_set set_users) dump_dangling d = Some (False, d')" "dump_eq s0 (dm_st d')" "?P [] d'"
    by (rule dm_us.scan [where P = ?P and body = dump_dangling, OF assms(1) init _ step]) simp_all
  moreover from this(3) have "dangling_out d' = X \<union> ?R ?U" by (intro equalityI) simp_all
  ultimately show thesis using that by blast
qed

lemma ucb_dump_ok:
  assumes inv: "ucb_ok s" and d: "dm_st d = s"
  obtains d' where "lsi_ucb_dump full d = Some d'" "dump_eq s (dm_st d')"
    "dangling_out d' = dangling_out d \<union> (if full then {u. \<exists>ua\<in>ran (bs_user (base_of s)). user_at ua s = Some u \<and> slots (base_of s) {} ua = {}} else {})"
proof -
  define X where "X = dangling_out d"
  have sb: "dump_eq s (dm_st d)" and no: "dangling_out d = X" using inv d by (simp_all add: dump_eq_refl X_def)
  obtain um cs where m: "users_of s = Some um" "chans_of s = Some (Some cs)" using dump_eq_maps(1,2) [OF sb] d by auto
  let ?d1 = "dm_say (L_stat ''channels'' (lsi_skmap_stat cs)) d"
  let ?d2 = "dm_say (L_stat ''global users'' (lsi_skmap_stat um)) ?d1"
  have s2: "dump_eq s (dm_st ?d2)" "dangling_out ?d2 = X" using sb no by simp_all
  obtain d3 where d3: "for_each dm_chans (dm_set set_chans) stat_chan ?d2 = Some (False, d3)" "dump_eq s (dm_st d3)" "dangling_out d3 = X"
    by (rule stat_loop_ok [OF s2])
  obtain d4 where d4: "for_each dm_users (dm_set set_users) mark_user d3 = Some (False, d4)" "dump_eq s (dm_st d4)"
    "dangling_out d4 = X" "ran (bs_user (base_of s)) \<subseteq> dm_dangling d4"
    by (rule mark_loop_ok [OF d3(2,3)])
  obtain d5 where d5: "for_each dm_chans (dm_set set_chans) dump_chan d4 = Some (False, d5)" "dump_eq s (dm_st d5)"
    "dangling_out d5 = X" "\<And>ua. ua \<in> ran (bs_user (base_of s)) \<Longrightarrow> ua \<in> dm_dangling d5 \<longleftrightarrow> slots (base_of s) {} ua = {}"
    by (rule dump_loop_ok [OF d4(2-4)]) blast
  obtain d6 where d6: "for_each dm_users (dm_set set_users) dump_dangling d5 = Some (False, d6)" "dump_eq s (dm_st d6)"
    "dangling_out d6 = X \<union> {u. \<exists>ua\<in>ran (bs_user (base_of s)) \<inter> dm_dangling d5. user_at ua s = Some u}"
    by (rule report_loop_ok [OF d5(2,3)])
  have r: "lsi_ucb_dump full d = Some (if full then d6 else d3)"
    using d m d3(1) d4(1) d5(1) d6(1) by (simp add: lsi_ucb_dump_def lsi_skmap_dumpstat_def dm_chans_def [of d] dm_users_def [of ?d1] del: bind_assoc)
  have "dangling_out d6 = X \<union> {u. \<exists>ua\<in>ran (bs_user (base_of s)). user_at ua s = Some u \<and> slots (base_of s) {} ua = {}}"
    unfolding d6(3) using d5(4) by blast
  then show thesis using that [OF r] d3(2,3) d6(2) unfolding X_def by (cases full) simp_all
qed

text \<open>The lines about the context change nothing.\<close>

lemma say_all [simp]: "dm_st (fold dm_say ls d) = dm_st d"
  by (induction ls arbitrary: d) (simp_all add: dm_say_def)

lemma irc_dump_idle:
  assumes "\<not> ic_tracking_enab (st_irc (dm_st d))"
  obtains d' where "irc_dump d = Some d'" "dm_st d' = dm_st d"
  using that assms by (simp add: irc_dump_def Let_def dm_say_def)

lemma irc_dump_tracking:
  assumes "ucb_ok (dm_st d)"
  obtains d' where "irc_dump d = Some d'" "ic_tracking_enab (st_irc (dm_st d)) \<longrightarrow> dump_eq (dm_st d) (dm_st d')"
proof (cases "ic_tracking_enab (st_irc (dm_st d))")
  case True
  let ?x = "st_irc (dm_st d)"
  let ?d = "fold dm_say (L_text ''--- IRC context dump---'' # irc_conn_dump (ic_con ?x) @ irc_fields ?x) d"
  obtain d2 where d2: "lsi_ucb_dump True ?d = Some d2" "dump_eq (dm_st d) (dm_st d2)"
    by (rule ucb_dump_ok [OF assms, of ?d True]) (simp only: say_all)
  show thesis
    by (rule that [of "dm_say (L_text ''--- end of IRC context dump ---'') d2"])
      (use True d2 in \<open>simp_all only: irc_dump_def Let_def lsi_trk_dump_def if_True bind.bind_lunit, simp add: dm_say_def\<close>)
next
  case False
  then show thesis using that irc_dump_idle by metis
qed

end
