(* ===== verification/Signals.thy ===== *)
theory Signals
  imports C_Prelude
begin

text \<open>
  Signals: \<open>lsi_b_regsig\<close> of \<open>src/platform/base_misc.c\<close>, the handlers \<open>sighnd\<close> of \<open>src/src/icat_init.c\<close> and
  \<open>infohnd\<close> of \<open>src/src/iwat.c\<close>, and the flags they set.  A handler only sets a flag that the program looks at in
  one place, so a signal is taken to arrive just before one of these looks: \<open>sg_pend\<close> has the signals that
  arrive before the first look, before the second, and so on.  What the system does with a signal that is not
  handled is that of POSIX: it ends the program (None), or is ignored for SIGINFO.
\<close>

section \<open>Dispositions\<close>

datatype signal = SIGINT | SIGPIPE | SIGINFO | SIGUSR1 | SIGTERM

datatype sigact = Sa_dfl | Sa_ign | Sa_handler

text \<open>Which signals the system has, as \<open>configure\<close> finds out\<close>

record sigconf =
  have_SIGINT :: bool
  have_SIGPIPE :: bool
  have_SIGINFO :: bool
  have_SIGUSR1 :: bool

text \<open>\<open>sg_info\<close> is \<open>g_inforequest\<close> of \<open>icat\<close> and \<open>g_dumpplx\<close> of \<open>iwat\<close>.\<close>

record sigst =
  sg_act :: "signal \<Rightarrow> sigact"
  sg_pend :: "signal list list"
  sg_interrupted :: bool
  sg_info :: bool

definition sig_start :: "signal list list \<Rightarrow> sigst" where
  "sig_start pend = \<lparr>sg_act = (\<lambda>_. Sa_dfl), sg_pend = pend, sg_interrupted = False, sg_info = False\<rparr>"

text \<open>\<open>ok\<close>: whether \<open>sigemptyset\<close> and \<open>sigaction\<close> succeed; a failure is only logged.\<close>

definition lsi_b_regsig :: "bool \<Rightarrow> signal \<Rightarrow> sigact \<Rightarrow> sigst \<Rightarrow> sigst" where
  "lsi_b_regsig ok sig act g = (if ok then g\<lparr>sg_act := (sg_act g)(sig := act)\<rparr> else g)"

text \<open>The signal that asks for a dump\<close>

definition info_signal :: "sigconf \<Rightarrow> signal option" where
  "info_signal sc = (if have_SIGINFO sc then Some SIGINFO else if have_SIGUSR1 sc then Some SIGUSR1 else None)"

section \<open>Handlers\<close>

definition sighnd :: "sigconf \<Rightarrow> signal \<Rightarrow> sigst \<Rightarrow> sigst" where
  "sighnd sc s g =
     (if have_SIGINT sc \<and> s = SIGINT then g\<lparr>sg_interrupted := True\<rparr>
      else if info_signal sc = Some s then g\<lparr>sg_info := True\<rparr>
      else g)"

definition infohnd :: "signal \<Rightarrow> sigst \<Rightarrow> sigst" where
  "infohnd s g = g\<lparr>sg_info := True\<rparr>"

section \<open>Delivery\<close>

definition deliver :: "(signal \<Rightarrow> sigst \<Rightarrow> sigst) \<Rightarrow> signal \<Rightarrow> sigst \<Rightarrow> sigst option" where
  "deliver hnd s g =
     (case sg_act g s of
        Sa_dfl \<Rightarrow> (if s = SIGINFO then Some g else None)
      | Sa_ign \<Rightarrow> Some g
      | Sa_handler \<Rightarrow> Some (hnd s g))"

fun deliver_all :: "(signal \<Rightarrow> sigst \<Rightarrow> sigst) \<Rightarrow> signal list \<Rightarrow> sigst \<Rightarrow> sigst option" where
  "deliver_all hnd [] g = Some g"
| "deliver_all hnd (s # ss) g = do { g1 \<leftarrow> deliver hnd s g; deliver_all hnd ss g1 }"

definition next_signals :: "(signal \<Rightarrow> sigst \<Rightarrow> sigst) \<Rightarrow> sigst \<Rightarrow> sigst option" where
  "next_signals hnd g = (case sg_pend g of [] \<Rightarrow> Some g | ss # r \<Rightarrow> deliver_all hnd ss (g\<lparr>sg_pend := r\<rparr>))"

section \<open>Programs that survive their signals\<close>

text \<open>Every signal to come is handled or ignored.\<close>

definition sig_survived :: "sigst \<Rightarrow> signal \<Rightarrow> bool" where
  "sig_survived g s \<longleftrightarrow> sg_act g s \<noteq> Sa_dfl \<or> s = SIGINFO"

definition sig_safe :: "sigst \<Rightarrow> bool" where
  "sig_safe g \<longleftrightarrow> list_all (list_all (sig_survived g)) (sg_pend g)"

text \<open>A handler that sets flags only\<close>

definition flag_setter :: "(signal \<Rightarrow> sigst \<Rightarrow> sigst) \<Rightarrow> bool" where
  "flag_setter hnd \<longleftrightarrow> (\<forall>s g. sg_act (hnd s g) = sg_act g \<and> sg_pend (hnd s g) = sg_pend g)"

lemma handlers_set_flags [simp]: "flag_setter (sighnd sc)" "flag_setter infohnd"
  by (simp_all add: flag_setter_def sighnd_def infohnd_def)

lemma deliver_all_safe:
  assumes "flag_setter hnd"
  shows "list_all (sig_survived g) ss \<Longrightarrow>
    \<exists>g'. deliver_all hnd ss g = Some g' \<and> sg_act g' = sg_act g \<and> sg_pend g' = sg_pend g"
proof (induction ss arbitrary: g)
  case (Cons s ss)
  obtain g1 where g1: "deliver hnd s g = Some g1" "sg_act g1 = sg_act g" "sg_pend g1 = sg_pend g"
    using Cons.prems assms by (cases "sg_act g s") (auto simp: deliver_def sig_survived_def flag_setter_def)
  then have "sig_survived g1 = sig_survived g" by (simp add: sig_survived_def fun_eq_iff)
  with Cons.IH [of g1] Cons.prems g1 show ?case by simp
qed simp

lemma next_signals_safe:
  assumes "flag_setter hnd" "sig_safe g"
  obtains g' where "next_signals hnd g = Some g'" "sg_act g' = sg_act g" "sig_safe g'"
proof (cases "sg_pend g")
  case Nil
  then show thesis using assms that by (simp add: next_signals_def)
next
  case (Cons ss r)
  let ?g = "g\<lparr>sg_pend := r\<rparr>"
  have sv: "sig_survived ?g = sig_survived g" by (simp add: sig_survived_def fun_eq_iff)
  obtain g' where g': "deliver_all hnd ss ?g = Some g'" "sg_act g' = sg_act g" "sg_pend g' = r"
    using deliver_all_safe [OF assms(1), of ?g ss] assms(2) Cons sv by (auto simp: sig_safe_def)
  then have "sig_survived g' = sig_survived g" by (simp add: sig_survived_def fun_eq_iff)
  with g' Cons assms(2) show thesis by (intro that [of g']) (simp_all add: next_signals_def sig_safe_def)
qed

text \<open>Without a handler for SIGINT nothing sets the flag that asks \<open>icat\<close> to stop.\<close>

lemma deliver_all_no_int:
  "deliver_all (sighnd sc) ss g = Some g' \<Longrightarrow> sg_act g SIGINT \<noteq> Sa_handler \<Longrightarrow>
   sg_interrupted g' = sg_interrupted g \<and> sg_act g' = sg_act g"
proof (induction ss arbitrary: g)
  case (Cons s ss)
  then obtain g1 where g1: "deliver (sighnd sc) s g = Some g1" "deliver_all (sighnd sc) ss g1 = Some g'" by (auto simp: bind_eq_Some_conv)
  then have "sg_interrupted g1 = sg_interrupted g \<and> sg_act g1 = sg_act g"
    using Cons.prems(2) by (auto simp: deliver_def sighnd_def split: sigact.splits if_splits)
  with Cons.IH [OF g1(2)] Cons.prems(2) show ?case by simp
qed simp

lemma next_signals_no_int:
  "next_signals (sighnd sc) g = Some g' \<Longrightarrow> sg_act g SIGINT \<noteq> Sa_handler \<Longrightarrow>
   sg_interrupted g' = sg_interrupted g \<and> sg_act g' = sg_act g"
  using deliver_all_no_int [of sc _ "g\<lparr>sg_pend := tl (sg_pend g)\<rparr>" g'] by (auto simp: next_signals_def split: list.splits)

end
