(* ===== verification/Icatserv.thy ===== *)
theory Icatserv
  imports Icatinit Icatuser Dump Signals
begin

text \<open>
  \<open>src/icat_serv.c\<close>: the server side of \<open>icat\<close>: the queue of lines to send and its throttle, the
  heartbeat, connecting and reconnecting.  The static variables of \<open>icat_serv.c\<close>,
  \<open>icat_user.c\<close> and \<open>icat_core.c\<close> and the settings make one record; \<open>ia_st\<close> is the library's
  state, \<open>ia_stdout\<close> collects what is printed, \<open>ia_slept\<close> the times slept, \<open>ia_stderr\<close> what is written to
  standard error and \<open>ia_dumped\<close> what a dump hands to the logger.
\<close>

record icat =
  ia_sett :: settings
  ia_st :: st
  ia_on :: bool
  ia_outQ :: "string list"
  ia_nexthb :: u64
  ia_nextsend :: u64
  ia_quitat :: u64
  ia_casemap :: nat
  ia_gotpong :: bool
  ia_user :: ubuf
  ia_stdout :: "string list"
  ia_readcnt :: u32
  ia_writecnt :: u32
  ia_slept :: "u64 list"
  ia_sig :: sigst
  ia_stderr :: "string list"
  ia_dumped :: "dump_line list"

definition ia_tstamp :: "icat \<Rightarrow> u64 \<times> icat" where
  "ia_tstamp a =
     (let (t, w) = lsi_b_tstamp_us (st_net (ia_st a)) in (t, a\<lparr>ia_st := (ia_st a)\<lparr>st_net := w\<rparr>\<rparr>))"

definition ia_irc :: "icat \<Rightarrow> irc" where
  "ia_irc a = st_irc (ia_st a)"

definition ia_usleep :: "u64 \<Rightarrow> icat \<Rightarrow> icat" where
  "ia_usleep us a = a\<lparr>ia_slept := ia_slept a @ [us]\<rparr>"

text \<open>A look at the flags \<open>g_interrupted\<close> and \<open>g_inforequest\<close>: the signals that came before it are delivered.\<close>

definition ia_signals :: "sigconf \<Rightarrow> icat \<Rightarrow> icat option" where
  "ia_signals sc a = do { g \<leftarrow> next_signals (sighnd sc) (ia_sig a); Some (a\<lparr>ia_sig := g\<rparr>) }"

abbreviation ia_interrupted :: "icat \<Rightarrow> bool" where
  "ia_interrupted a \<equiv> sg_interrupted (ia_sig a)"

definition icat_serv_dump :: "icat \<Rightarrow> icat option" where
  "icat_serv_dump a = do {
     d \<leftarrow> irc_dump \<lparr>dm_st = ia_st a, dm_dangling = {}, dm_out = ia_dumped a\<rparr>;
     Some (a\<lparr>ia_st := dm_st d, ia_dumped := dm_out d\<rparr>) }"

section \<open>Sending\<close>

definition to_srv :: "string \<Rightarrow> icat \<Rightarrow> bool \<times> icat" where
  "to_srv line a = (let (r, s) = irc_write line (ia_st a) in (r, a\<lparr>ia_st := s\<rparr>))"

text \<open>\<open>icat_serv_printf\<close>; \<open>txt\<close> is what the format expands to.  Without memory \<open>icat\<close> exits.\<close>

definition icat_serv_printf :: "string \<Rightarrow> icat \<Rightarrow> icat option" where
  "icat_serv_printf txt a =
     (let (ok1, s1) = st_malloc (ia_st a) in
      if \<not> ok1 then None
      else case st_strdup (ncpy 1024 txt) s1 of
          (None, s2) \<Rightarrow> None
        | (Some line, s2) \<Rightarrow> Some (a\<lparr>ia_st := s2, ia_outQ := ia_outQ a @ [line]\<rparr>))"

definition sendq_due :: "icat \<Rightarrow> bool \<times> icat" where
  "sendq_due a =
     (if 0 < g_freelines (ia_sett a) then (True, a)
      else let (t, a1) = ia_tstamp a in (ia_nextsend a \<le> t, a1))"

definition note_quit :: "string \<Rightarrow> icat \<Rightarrow> icat" where
  "note_quit line a =
     (if lsi_b_strncasecmp line ''QUIT'' 4 = Some 0
      then let (t, a1) = ia_tstamp a in a1\<lparr>ia_quitat := t\<rparr>
      else a)"

definition use_freeline :: "icat \<Rightarrow> icat" where
  "use_freeline a =
     (if g_freelines (ia_sett a) \<noteq> 0
      then a\<lparr>ia_sett := (ia_sett a)\<lparr>g_freelines := g_freelines (ia_sett a) - 1\<rparr>\<rparr> else a)"

text \<open>1: a line was sent, 0: nothing to do, -1: it could not be sent (and stays in the queue).\<close>

definition process_sendq :: "icat \<Rightarrow> int \<times> icat" where
  "process_sendq a =
     (case ia_outQ a of
        [] \<Rightarrow> (0, a)
      | line # rest \<Rightarrow>
          (let (due, a1) = sendq_due a in
           if \<not> due then (0, a1)
           else let (ok, a2) = to_srv line a1 in
             if \<not> ok then (-1, a2\<lparr>ia_on := False\<rparr>)
             else let a3 = use_freeline (note_quit line (a2\<lparr>ia_outQ := rest\<rparr>));
                      (t, a4) = ia_tstamp a3
               in (1, a4\<lparr>ia_nextsend := t + g_linedelay (ia_sett a4)\<rparr>)))"

section \<open>Heartbeat\<close>

definition hb_due :: "icat \<Rightarrow> bool \<times> icat" where
  "hb_due a =
     (if g_hbeat_us (ia_sett a) \<noteq> 0 then let (t, a1) = ia_tstamp a in (ia_nexthb a \<le> t, a1)
      else (False, a))"

definition do_heartbeat :: "icat \<Rightarrow> bool \<times> icat" where
  "do_heartbeat a =
     (let (due, a1) = hb_due a in
      if \<not> due then (True, a1)
      else if \<not> ia_gotpong a1 then (False, a1\<lparr>ia_st := irc_reset (ia_st a1), ia_on := False\<rparr>)
      else let buf = ncpy 512 (''PING '' @ irc_myhost (ia_irc a1) @ crlf);
               (t, a2) = ia_tstamp (a1\<lparr>ia_gotpong := False\<rparr>);
               (ok, a3) = to_srv buf (a2\<lparr>ia_nexthb := t + g_hbeat_us (ia_sett a2)\<rparr>)
        in if \<not> ok then (False, a3\<lparr>ia_on := False\<rparr>) else (True, a3))"

text \<open>When will the server side next need attention?  (0: it waits for nothing.)\<close>

definition icat_serv_attention_at :: "icat \<Rightarrow> u64" where
  "icat_serv_attention_at a =
     (let attat = (if g_hbeat_us (ia_sett a) \<noteq> 0 then ia_nexthb a else 0)
      in if ia_outQ a \<noteq> [] \<and> (attat = 0 \<or> ia_nextsend a < attat) then ia_nextsend a else attat)"

section \<open>Message handlers\<close>

text \<open>
  The three handlers \<open>icat\<close> registers with the library, by number.  Their effect on the
  library's state is the semantics of the callbacks; what they assign to variables of \<open>icat\<close>
  is \<open>handlers_effect\<close>, applied when \<open>irc_read\<close> has returned.  (A failing \<open>handle_PING\<close> clears
  \<open>s_on\<close>, and so does \<open>icat_serv_read\<close> when that makes \<open>irc_read\<close> return -1.  The library calls
  no handler of the user during the logon.)
\<close>

definition CB_PING :: nat where "CB_PING = 0"
definition CB_PONG :: nat where "CB_PONG = 1"
definition CB_005 :: nat where "CB_005 = 2"

definition icat_uhnd :: uhnd_sem where
  "icat_uhnd n msg ac pre s =
     (if n = CB_PING then do {
        x \<leftarrow> tk msg 2;
        Some (irc_write (ncpy 1024 (''PONG :'' @ x @ crlf)) s) }
      else Some (True, s))"

text \<open>The callback of the library for messages of the logon logs them; \<open>tag\<close> is how \<open>%p\<close> prints its argument.\<close>

definition conread :: "string \<Rightarrow> tokarr \<Rightarrow> string \<times> bool" where
  "conread tag msg = (''CR: '' @ lsi_ut_sndumpmsg 1024 tag msg, True)"

definition icat_envir :: "netenv \<Rightarrow> mutnick_sem \<Rightarrow> envir" where
  "icat_envir nenv mut =
     \<lparr>en_net = nenv, en_uhnd = icat_uhnd, en_mutnick = mut, en_conread = (\<lambda>n msg. snd (conread ''(nil)'' msg))\<rparr>"

definition handlers_effect :: "int \<Rightarrow> tokarr \<Rightarrow> icat \<Rightarrow> icat" where
  "handlers_effect r msg a =
     (if r = 1 \<and> tk msg 1 = Some ''PONG'' then a\<lparr>ia_gotpong := True\<rparr>
      else if r = 1 \<and> tk msg 1 = Some ''005'' then a\<lparr>ia_casemap := irc_casemap (ia_irc a)\<rparr>
      else a)"

definition icat_serv_read :: "envir \<Rightarrow> u64 \<Rightarrow> icat \<Rightarrow> (int \<times> tokarr \<times> icat) option" where
  "icat_serv_read env to_us a =
     (if \<not> ia_on a then Some (-1, [], a)
      else do {
        (r, msg, s) \<leftarrow> irc_read env to_us (ia_st a);
        let a1 = handlers_effect r msg (a\<lparr>ia_st := s\<rparr>);
        Some (r, msg, if r = -1 then a1\<lparr>ia_on := False\<rparr> else a1) })"

section \<open>Connecting\<close>

definition serv_join :: "icat \<Rightarrow> icat" where
  "serv_join a =
     (let se = ia_sett a in
      if \<not> g_nojoin se \<and> g_chanlist se \<noteq> []
      then snd (to_srv (ncpy (2 * MAX_CHANLIST + 9) (''JOIN '' @ g_chanlist se @ '' '' @ g_keylist se @ crlf)) a)
      else a)"

text \<open>Selecting a server; \<open>have_ssl\<close>: whether the library was built with TLS.\<close>

definition select_server :: "bool \<Rightarrow> srv_entry \<Rightarrow> st \<Rightarrow> st option" where
  "select_server have_ssl sv s =
     (let s1 = snd (irc_set_server (Some (sv_host sv)) (sv_port sv) s);
          (ok, s2) = irc_set_ssl have_ssl (sv_ssl sv) s1
      in if sv_ssl sv \<and> \<not> ok then None else Some s2)"

fun tryconnect :: "envir \<Rightarrow> bool \<Rightarrow> srv_entry list \<Rightarrow> icat \<Rightarrow> (bool \<times> icat) option" where
  "tryconnect env have_ssl [] a = Some (False, a)"
| "tryconnect env have_ssl (sv # svs) a = do {
     s1 \<leftarrow> select_server have_ssl sv (ia_st a);
     (ok, s2) \<leftarrow> irc_connect env s1;
     let a1 = a\<lparr>ia_st := s2\<rparr>;
     if ok then
       (let (t, a2) = ia_tstamp a1
        in Some (True, serv_join (a2\<lparr>ia_nexthb := t + g_hbeat_us (ia_sett a2), ia_gotpong := True\<rparr>)))
     else tryconnect env have_ssl svs a1 }"

text \<open>With \<open>-k\<close> the first connect is tried for ever: not returning is None.\<close>

partial_function (option) first_connect :: "envir \<Rightarrow> bool \<Rightarrow> sigconf \<Rightarrow> icat \<Rightarrow> (bool \<times> icat) option" where
  "first_connect env have_ssl sc a = do {
     a0 \<leftarrow> ia_signals sc a;
     if ia_interrupted a0 then Some (False, a0)
     else do {
       (ok, a1) \<leftarrow> tryconnect env have_ssl (g_srvlist (ia_sett a0)) a0;
       if ok then do { a2 \<leftarrow> ia_signals sc a1; Some (\<not> ia_interrupted a2, a2) }
       else if g_keeptrying (ia_sett a1) then first_connect env have_ssl sc (ia_usleep (g_cfwait_us (ia_sett a1)) a1)
       else Some (False, a1) } }"

definition icat_serv_operate :: "envir \<Rightarrow> bool \<Rightarrow> icat \<Rightarrow> (bool \<times> icat) option" where
  "icat_serv_operate env have_ssl a =
     (if \<not> ia_on a then
        if ia_quitat a \<noteq> 0 then Some (True, a)
        else do {
          (ok, a1) \<leftarrow> tryconnect env have_ssl (g_srvlist (ia_sett a)) a;
          Some (if ok then (True, a1\<lparr>ia_on := True\<rparr>) else (False, a1)) }
      else let (r, a1) = process_sendq a in
        Some (if r = -1 then (False, a1) else do_heartbeat a1))"

section \<open>Start and end\<close>

text \<open>The settings handed to the library; failures to copy a string go unnoticed.\<close>

definition apply_settings :: "bool \<Rightarrow> settings \<Rightarrow> st \<Rightarrow> st option" where
  "apply_settings have_ssl se s0 = do {
     let s1 = snd (irc_set_fname (Some (g_fname se)) (snd (irc_set_uname (Some (g_uname se))
                (snd (irc_set_nick (Some (g_nick se)) s0)))));
     let s2 = upd_irc (irc_set_connect_timeout (g_cto_soft_us se) (g_cto_hard_us se))
                (upd_irc (irc_set_conflags (g_conflags se)) s1);
     let s3 = (if g_pxtype se \<noteq> -1 then snd (irc_set_px (Some (g_pxhost se)) (g_pxport se) (g_pxtype se) s2) else s2);
     let s4 = (if g_pass se \<noteq> [] then snd (irc_set_pass (Some (g_pass se)) s3) else s3);
     s5 \<leftarrow> (if g_laddr se \<noteq> [] then map_option snd (irc_set_localaddr (Some (g_laddr se)) (g_lport se) s4)
            else Some s4);
     s6 \<leftarrow> (if g_starttls se
            then let (ok, s') = irc_set_starttls have_ssl 1 (g_starttls_req se) s5 in
              if \<not> ok \<and> g_starttls_req se then None else Some s'
            else Some s5);
     if g_saslname se \<noteq> [] \<and> g_saslpass se \<noteq> []
     then (case lsi_ut_sasl_mkplauth 256 (g_saslname se) (g_saslpass se) True (orc_of s6) of
             (None, _) \<Rightarrow> None
           | (Some auth, orc) \<Rightarrow> Some (snd (irc_set_sasl (Some ''PLAIN'') auth True (set_orc orc s6))))
     else Some s6 }"

definition reg_handlers :: "st \<Rightarrow> st option" where
  "reg_handlers s = do {
     (_, s1) \<leftarrow> irc_reg_msghnd ''PING'' CB_PING True (upd_irc (irc_regcb_conread (Some 0)) s);
     (_, s2) \<leftarrow> irc_reg_msghnd ''PONG'' CB_PONG True s1;
     (_, s3) \<leftarrow> irc_reg_msghnd ''005'' CB_005 False s2;
     Some s3 }"

text \<open>\<open>a\<close> holds the settings, the heap and the outcomes to come; its context is replaced.\<close>

definition icat_serv_init :: "envir \<Rightarrow> bool \<Rightarrow> sigconf \<Rightarrow> icat \<Rightarrow> icat option" where
  "icat_serv_init env have_ssl sc a =
     (case irc_init (orc_of (ia_st a)) of
        (None, _) \<Rightarrow> None
      | (Some ctx, orc) \<Rightarrow> do {
          s1 \<leftarrow> apply_settings have_ssl (ia_sett a) (set_orc orc ((ia_st a)\<lparr>st_irc := ctx\<rparr>));
          s2 \<leftarrow> reg_handlers s1;
          (ok, a1) \<leftarrow> first_connect env have_ssl sc (a\<lparr>ia_st := s2\<rparr>);
          if ok then Some (a1\<lparr>ia_on := True\<rparr>) else None })"

definition icat_serv_destroy :: "icat \<Rightarrow> icat option" where
  "icat_serv_destroy a = do {
     w \<leftarrow> irc_dispose (irc_reset (ia_st a));
     Some (a\<lparr>ia_st := (ia_st a)\<lparr>st_net := w\<rparr>, ia_quitat := 0, ia_nexthb := 0, ia_on := False,
             ia_casemap := CMAP_RFC1459\<rparr>) }"

end
