(* ===== verification/Icatcore.thy ===== *)
theory Icatcore
  imports Icatserv
begin

text \<open>
  \<open>src/icat_core.c\<close>: what \<open>icat\<close> does with a line from the user and a message from the server,
  and its main loop.
\<close>

section \<open>Lines and messages\<close>

definition icat_user_printf :: "string \<Rightarrow> icat \<Rightarrow> icat" where
  "icat_user_printf txt a = a\<lparr>ia_stdout := ia_stdout a @ [ncpy 1024 txt]\<rparr>"

definition strip_eol :: "string \<Rightarrow> string" where
  "strip_eol s = rev (dropWhile (\<lambda>c. c = CHR 0x0D \<or> c = newline) (rev s))"

text \<open>
  The target and the text of a line in target mode.  \<open>tok + strlen(tok) + 1\<close> is the rest of the
  line, or the empty string when the line end that was cut off left a second NUL; there is
  none behind a line that was truncated, and \<open>strtok\<close> gives NULL for a line of blanks.
\<close>

definition split_target :: "string \<Rightarrow> bool \<Rightarrow> (string \<times> string) option" where
  "split_target line ended =
     (let t = dropWhile (\<lambda>c. c = CHR '' '') line;
          tok = takeWhile (\<lambda>c. c \<noteq> CHR '' '') t;
          rest = drop (length tok) t
      in if tok = [] then None
         else if rest \<noteq> [] then Some (tok, tl rest)
         else if ended then Some (tok, []) else None)"

definition has_prefix :: "string \<Rightarrow> string \<Rightarrow> bool" where
  "has_prefix p s = (take (length p) s = p)"

definition say_line :: "string \<Rightarrow> bool \<Rightarrow> icat \<Rightarrow> icat option" where
  "say_line line ended a = do {
     let se = ia_sett a;
     (dst, txt) \<leftarrow> (if g_trgmode se then split_target line ended else Some (g_chanlist se, line));
     icat_serv_printf ((if g_notices se then ''NOTICE'' else ''PRIVMSG'') @ '' '' @ dst @ '' :'' @ txt) a }"

definition handle_usermsg :: "string \<Rightarrow> icat \<Rightarrow> icat option" where
  "handle_usermsg lnbuf a0 =
     (let a = a0\<lparr>ia_writecnt := ia_writecnt a0 + 1\<rparr>; line = strip_eol lnbuf; ended = (line \<noteq> lnbuf) in
      if line = [] then Some a
      else case g_esc (ia_sett a) of
          None \<Rightarrow> say_line line ended a
        | Some e \<Rightarrow>
            (if has_prefix e line then icat_serv_printf (drop (length e) line) a
             else say_line line ended a))"

text \<open>A PRIVMSG; a missing field is a NULL that is printed.\<close>

definition handle_ircmsg :: "tokarr \<Rightarrow> icat \<Rightarrow> icat option" where
  "handle_ircmsg tok a0 =
     (case tk tok 0 of
        None \<Rightarrow> Some a0
      | Some pfx \<Rightarrow>
          (let a = a0\<lparr>ia_readcnt := ia_readcnt a0 + 1\<rparr>; se = ia_sett a;
               nick = lsi_ut_ident2nick [] 32 pfx
           in if g_ignore_cs se \<and> lsi_ut_istrcmp nick ''ChanServ'' (ia_casemap a) = 0 then Some a
              else do {
                dst \<leftarrow> tk tok 2;
                if g_trgmode se then do {
                  txt \<leftarrow> tk tok 3;
                  Some (icat_user_printf (nick @ '' '' @ pfx @ '' '' @ dst @ '' '' @ txt @ [newline]) a) }
                else if icat_ismychan se dst \<or> \<not> g_ignore_pm se then do {
                  txt \<leftarrow> tk tok 3;
                  Some (icat_user_printf (txt @ [newline]) a) }
                else Some a }))"

section \<open>The main loop\<close>

text \<open>
  A turn of \<open>icat_core_run\<close> in its parts.  First the server: the boolean is false when the
  turn ends there (\<open>continue\<close>), the second says whether nothing was read.
\<close>

definition core_server :: "envir \<Rightarrow> icat \<Rightarrow> (bool \<times> bool \<times> icat) option" where
  "core_server env a =
     (if \<not> ia_on a then Some (True, True, a)
      else do {
        (r, msg, a1) \<leftarrow> icat_serv_read env 1 a;
        if r < 0 then Some (False, True, a1)
        else if r = 1 then do {
          a2 \<leftarrow> (if tk msg 1 = Some ''PRIVMSG'' then handle_ircmsg msg a1 else Some a1);
          Some (True, False, a2) }
        else Some (True, True, a1) })"

text \<open>Then the user: whether a line was handled, and \<open>ignoreuser\<close>.\<close>

definition core_user :: "bool \<Rightarrow> icat \<Rightarrow> (bool \<times> bool \<times> icat) option" where
  "core_user ignoreuser a =
     (if ignoreuser then Some (False, True, a)
      else do {
        (can, u1) \<leftarrow> icat_user_canread (ia_user a);
        if can then do {
          (_, ln, u2) \<leftarrow> icat_user_readline 1024 u1;
          a1 \<leftarrow> handle_usermsg ln (a\<lparr>ia_user := u2\<rparr>);
          Some (True, False, a1) }
        else if icat_user_eof u1 then do {
          a1 \<leftarrow> icat_serv_printf (''QUIT :'' @ g_qmsg (ia_sett a) @ crlf) (a\<lparr>ia_user := u1\<rparr>);
          Some (False, True, a1) }
        else Some (False, False, a\<lparr>ia_user := u1\<rparr>) })"

text \<open>Whether the loop is left\<close>

definition core_leave :: "icat \<Rightarrow> bool \<times> icat" where
  "core_leave a =
     (let tquit = ia_quitat a; on = ia_on a;
          gone = (\<not> on \<and> (\<not> g_reconnect (ia_sett a) \<or> icat_user_eof (ia_user a)))
      in if tquit = 0 then (gone, a)
         else if \<not> on then (True, a)
         else let (t, a1) = ia_tstamp a in
           (tquit + g_waitquit_us (ia_sett a) < t \<or> gone, a1))"

text \<open>Sending, the heartbeat, reconnecting: whether it failed, and \<open>nextop\<close>\<close>

definition core_operate :: "envir \<Rightarrow> bool \<Rightarrow> u64 \<Rightarrow> icat \<Rightarrow> (bool \<times> u64 \<times> icat) option" where
  "core_operate env have_ssl nextop a =
     (let (t, a1) = ia_tstamp a in
      if \<not> nextop \<le> t then Some (False, nextop, a1)
      else do {
        (ok, a2) \<leftarrow> icat_serv_operate env have_ssl a1;
        if ok then Some (False, nextop, a2)
        else if ia_on a then Some (True, nextop, a2)
        else let (t2, a3) = ia_tstamp a2 in Some (True, t2 + g_cfwait_us (ia_sett a3), a3) })"

text \<open>The timeout of the wait for input (0: none); None when attention is due already.\<close>

definition core_timeout :: "u64 \<Rightarrow> u64 \<Rightarrow> icat \<Rightarrow> u64 option" where
  "core_timeout tquit now a =
     (let to = (if tquit \<noteq> 0 then tquit + g_waitquit_us (ia_sett a) else icat_serv_attention_at a) in
      if to \<noteq> 0 \<and> now \<ge> to then None
      else let to1 = (if to \<noteq> 0 then to - now else to) in
        Some (if irc_get_ssl (ia_irc a) \<and> 10000000 < to1 then 10000000 else to1))"

text \<open>The wait at the end of a turn; a failing \<open>select\<close> is made up for by sleeping.\<close>

definition core_wait :: "u64 \<Rightarrow> bool \<Rightarrow> icat \<Rightarrow> icat" where
  "core_wait tquit idle a =
     (if \<not> idle then a
      else if \<not> ia_on a then ia_usleep 100000 a
      else let (now, a1) = ia_tstamp a in
        case core_timeout tquit now a1 of
          None \<Rightarrow> a1
        | Some to \<Rightarrow>
            (let s = ia_st a1; (ok, w) = sys_call (st_net s);
                 a2 = a1\<lparr>ia_st := s\<lparr>st_net := w\<lparr>nt_to := nt_to w @ [to]\<rparr>\<rparr>\<rparr>
             in if ok then a2 else ia_usleep 100000 a2))"

text \<open>One turn: whether the loop goes on, \<open>ignoreuser\<close> and \<open>nextop\<close>.\<close>

definition core_turn :: "envir \<Rightarrow> bool \<Rightarrow> bool \<Rightarrow> u64 \<Rightarrow> icat \<Rightarrow> (bool \<times> bool \<times> u64 \<times> icat) option" where
  "core_turn env have_ssl ignoreuser nextop a = do {
     (more, idle1, a1) \<leftarrow> core_server env a;
     if \<not> more then Some (True, ignoreuser, nextop, a1)
     else do {
       (typed, ignoreuser', a2) \<leftarrow> core_user ignoreuser a1;
       let (leave, a3) = core_leave a2;
       if leave then Some (False, ignoreuser', nextop, a3)
       else do {
         (failed, nextop', a4) \<leftarrow> core_operate env have_ssl nextop a3;
         Some (True, ignoreuser', nextop', core_wait (ia_quitat a2) (idle1 \<and> \<not> typed \<and> \<not> failed) a4) } } }"

text \<open>The lines on standard error that a signal asks for, and the dump of the context\<close>

definition dump_info :: "icat \<Rightarrow> icat option" where
  "dump_info a = icat_serv_dump (a\<lparr>ia_stderr := ia_stderr a @
     [''icat: '' @ (if ia_on a then ''on'' else ''off'') @ ''line; read '' @ dec (unat (ia_readcnt a)) @ ''ln wrote '' @
      dec (unat (ia_writecnt a)) @ ''ln'' @ [newline]]\<rparr>)"

definition core_info :: "icat \<Rightarrow> icat option" where
  "core_info a =
     (if sg_info (ia_sig a) then do { a1 \<leftarrow> dump_info a; Some (a1\<lparr>ia_sig := (ia_sig a1)\<lparr>sg_info := False\<rparr>\<rparr>) }
      else Some a)"

text \<open>The body of the loop with its condition\<close>

definition core_round :: "envir \<Rightarrow> bool \<Rightarrow> sigconf \<Rightarrow> bool \<Rightarrow> u64 \<Rightarrow> icat \<Rightarrow> (bool \<times> bool \<times> u64 \<times> icat) option" where
  "core_round env have_ssl sc ignoreuser nextop a = do {
     a0 \<leftarrow> ia_signals sc a;
     if ia_interrupted a0 then Some (False, ignoreuser, nextop, a0)
     else do { a1 \<leftarrow> core_info a0; core_turn env have_ssl ignoreuser nextop a1 } }"

partial_function (option) core_loop :: "envir \<Rightarrow> bool \<Rightarrow> sigconf \<Rightarrow> bool \<Rightarrow> u64 \<Rightarrow> icat \<Rightarrow> icat option" where
  "core_loop env have_ssl sc ignoreuser nextop a = do {
     (more, ignoreuser', nextop', a1) \<leftarrow> core_round env have_ssl sc ignoreuser nextop a;
     if more then core_loop env have_ssl sc ignoreuser' nextop' a1 else Some a1 }"

definition icat_core_init :: "envir \<Rightarrow> bool \<Rightarrow> sigconf \<Rightarrow> icat \<Rightarrow> icat option" where
  "icat_core_init env have_ssl sc a = icat_serv_init env have_ssl sc a"

definition icat_core_run :: "envir \<Rightarrow> bool \<Rightarrow> sigconf \<Rightarrow> icat \<Rightarrow> (int \<times> icat) option" where
  "icat_core_run env have_ssl sc a = do { a1 \<leftarrow> core_loop env have_ssl sc False 0 a; Some (0, a1) }"

definition icat_core_destroy :: "icat \<Rightarrow> icat option" where
  "icat_core_destroy a = icat_serv_destroy a"

end
