(* ===== verification/Intlog.thy ===== *)
theory Intlog
  imports Plat Irc
begin

text \<open>
  \<open>src/logger/intlog.c\<close> with \<open>src/platform/base_log.c\<close>: the log levels of the modules and how
  they are set from the environment, and what a call of the logger writes.  The static variables are one
  record; \<open>lg_out\<close> collects what reaches standard error and \<open>syslog\<close>.  What the C library contributes (the
  environment, the text of an error number, the time as text) is the record \<open>logenv\<close>; the message itself is an argument,
  already formatted.
\<close>

section \<open>State\<close>

datatype log_event =
    Ev_stderr string
  | Ev_openlog string
  | Ev_closelog
  | Ev_syslog int string

record logst =
  lg_open :: bool
  lg_stderr :: bool
  lg_fancy :: bool
  lg_init :: bool
  lg_lvlarr :: "int list"
  lg_w_modnam :: int
  lg_w_file :: int
  lg_w_line :: int
  lg_w_func :: int
  lg_calldepth :: int
  lg_out :: "log_event list"

record logenv =
  le_getenv :: "string \<Rightarrow> string option"
  le_strerror :: "int \<Rightarrow> string"
  le_ctime :: "string option"

definition NUM_MODS :: nat where "NUM_MODS = 24"

definition LOG_CRIT :: int where "LOG_CRIT = 2"
definition LOG_ERR :: int where "LOG_ERR = 3"
definition LOG_WARNING :: int where "LOG_WARNING = 4"
definition LOG_NOTICE :: int where "LOG_NOTICE = 5"
definition LOG_INFO :: int where "LOG_INFO = 6"
definition LOG_DEBUG :: int where "LOG_DEBUG = 7"
definition LOG_VIVI :: int where "LOG_VIVI = LOG_DEBUG + 1"
definition LOG_TRACE :: int where "LOG_TRACE = LOG_VIVI + 1"
definition DEF_LVL :: int where "DEF_LVL = LOG_CRIT"

definition modnames :: "string list" where
  "modnames =
     [''libsrsirc/irc'', ''libsrsirc/common'', ''libsrsirc/util'', ''libsrsirc/conn'', ''libsrsirc/io'', ''libsrsirc/px'',
      ''libsrsirc/msg'', ''libsrsirc/skmap'', ''libsrsirc/plst'', ''libsrsirc/track'', ''libsrsirc/ucbase'', ''libsrsirc/v3'',
      ''libsrsirc/base-io'', ''libsrsirc/base-net'', ''libsrsirc/base-time'', ''libsrsirc/base-str'', ''libsrsirc/base-misc'',
      ''icat/init'', ''icat/core'', ''icat/serv'', ''icat/user'', ''icat/misc'', ''iwat'', ''(??'' @ ''?)'']"

text \<open>The static variables before anything was logged\<close>

definition log_static :: logst where
  "log_static =
     \<lparr>lg_open = False, lg_stderr = True, lg_fancy = False, lg_init = False, lg_lvlarr = replicate NUM_MODS 0,
      lg_w_modnam = 20, lg_w_file = 0, lg_w_line = 0, lg_w_func = 0, lg_calldepth = 0, lg_out = []\<rparr>"

definition emit :: "log_event \<Rightarrow> logst \<Rightarrow> logst" where
  "emit e s = s\<lparr>lg_out := lg_out s @ [e]\<rparr>"

section \<open>Targets and levels\<close>

definition lsi_b_openlog :: "string \<Rightarrow> logst \<Rightarrow> bool \<times> logst" where
  "lsi_b_openlog ident s = (True, emit (Ev_openlog ident) s)"

definition lsi_b_closelog :: "logst \<Rightarrow> logst" where
  "lsi_b_closelog s = emit Ev_closelog s"

definition lsi_b_syslog :: "int \<Rightarrow> string \<Rightarrow> logst \<Rightarrow> logst" where
  "lsi_b_syslog prio txt s = emit (Ev_syslog prio (ncpy 2048 txt)) s"

definition lsi_log_syslog :: "string \<Rightarrow> logst \<Rightarrow> logst" where
  "lsi_log_syslog ident s =
     (let s1 = (if lg_open s then lsi_b_closelog s else s)\<lparr>lg_open := False, lg_stderr := True\<rparr>;
          (ok, s2) = lsi_b_openlog ident s1
      in if \<not> ok then s2 else s2\<lparr>lg_open := True, lg_fancy := False, lg_stderr := False\<rparr>)"

text \<open>(The log is closed, but \<open>s_open\<close> stays set.)\<close>

definition lsi_log_stderr :: "logst \<Rightarrow> logst" where
  "lsi_log_stderr s = (if lg_open s then lsi_b_closelog s else s)\<lparr>lg_stderr := True\<rparr>"

definition lsi_log_setfancy :: "bool \<Rightarrow> logst \<Rightarrow> logst" where
  "lsi_log_setfancy fancy s = (if \<not> lg_stderr s then s else s\<lparr>lg_fancy := fancy\<rparr>)"

definition lsi_log_getfancy :: "logst \<Rightarrow> bool" where
  "lsi_log_getfancy s \<longleftrightarrow> lg_stderr s \<and> lg_fancy s"

text \<open>The array of levels; an index out of range is undefined.\<close>

definition mod_index :: "int \<Rightarrow> logst \<Rightarrow> nat option" where
  "mod_index mdl s = (if 0 \<le> mdl \<and> mdl < int (length (lg_lvlarr s)) then Some (nat mdl) else None)"

definition lsi_log_setlvl :: "int \<Rightarrow> int \<Rightarrow> logst \<Rightarrow> logst option" where
  "lsi_log_setlvl mdl lvl s = do { i \<leftarrow> mod_index mdl s; Some (s\<lparr>lg_lvlarr := (lg_lvlarr s)[i := lvl]\<rparr>) }"

definition lsi_log_getlvl :: "int \<Rightarrow> logst \<Rightarrow> int option" where
  "lsi_log_getlvl mdl s = do { i \<leftarrow> mod_index mdl s; Some (lg_lvlarr s ! i) }"

definition lsi_log_tcall :: "logst \<Rightarrow> logst" where
  "lsi_log_tcall s = s\<lparr>lg_calldepth := lg_calldepth s + 1\<rparr>"

definition lsi_log_tret :: "logst \<Rightarrow> logst" where
  "lsi_log_tret s =
     (if lg_calldepth s = 0 then emit (Ev_stderr (''call depth would be <0'' @ [CHR 0x0A])) s
      else s\<lparr>lg_calldepth := lg_calldepth s - 1\<rparr>)"

section \<open>The environment\<close>

definition isdigitstr :: "string \<Rightarrow> bool" where
  "isdigitstr p = list_all isdigit p"

definition getenv_m :: "logenv \<Rightarrow> string \<Rightarrow> nat \<Rightarrow> string option" where
  "getenv_m env nam destsz = map_option (ncpy destsz) (le_getenv env nam)"

fun name_index :: "string list \<Rightarrow> string \<Rightarrow> nat" where
  "name_index [] nam = 0"
| "name_index (x # xs) nam = (if x = nam then 0 else Suc (name_index xs nam))"

definition set_module :: "string \<Rightarrow> int \<Rightarrow> logst \<Rightarrow> logst" where
  "set_module nam lvl s =
     (let i = name_index modnames nam in
      if i < length (lg_lvlarr s) then s\<lparr>lg_lvlarr := (lg_lvlarr s)[i := lvl]\<rparr> else s)"

definition set_width :: "string \<Rightarrow> int \<Rightarrow> logst \<Rightarrow> logst" where
  "set_width nam val s =
     (if nam = ''modnam'' then s\<lparr>lg_w_modnam := val\<rparr>
      else if nam = ''file'' then s\<lparr>lg_w_file := val\<rparr>
      else if nam = ''line'' then s\<lparr>lg_w_line := val\<rparr>
      else if nam = ''func'' then s\<lparr>lg_w_func := val\<rparr> else s)"

text \<open>One word of \<open>LIBSRSIRC_DEBUG\<close>: \<open>module=level\<close>, \<open>column:width\<close> or a default level\<close>

definition debug_word :: "string \<Rightarrow> int \<times> logst \<Rightarrow> int \<times> logst" where
  "debug_word tok st =
     (let (deflvl, s) = st; number = (\<lambda>x. to_int (strtol10 x)) in
      case strchr tok (CHR ''='') of
        Some i \<Rightarrow>
          (let arg = drop (i + 1) tok in
           if i = 0 \<or> \<not> isdigitstr arg then st else (deflvl, set_module (take i tok) (number arg) s))
      | None \<Rightarrow>
          (case strchr tok (CHR '':'') of
             Some i \<Rightarrow>
               (let arg = drop (i + 1) tok in
                if i = 0 \<or> \<not> isdigitstr arg then st else (deflvl, set_width (take i tok) (number arg) s))
           | None \<Rightarrow> if isdigitstr tok then (number tok, s) else st))"

definition debug_words :: "logenv \<Rightarrow> logst \<Rightarrow> int \<times> logst" where
  "debug_words env s =
     (let s0 = s\<lparr>lg_lvlarr := map (\<lambda>_. C_INT_MIN) (lg_lvlarr s)\<rparr> in
      case getenv_m env ''LIBSRSIRC_DEBUG'' 128 of
        None \<Rightarrow> (DEF_LVL, s0)
      | Some v \<Rightarrow> fold debug_word (strtok_all (CHR '' '') v []) (DEF_LVL, s0))"

definition lsi_log_init :: "logenv \<Rightarrow> logst \<Rightarrow> logst" where
  "lsi_log_init env s =
     (let (deflvl, s1) = debug_words env s;
          s2 = s1\<lparr>lg_lvlarr := map (\<lambda>l. if l = C_INT_MIN then deflvl else l) (lg_lvlarr s1)\<rparr>;
          s3 = (if le_getenv env ''LIBSRSIRC_DEBUG_TARGET'' = Some ''syslog'' then lsi_log_syslog ''libsrsirc'' s2
                else lsi_log_stderr s2);
          s4 = (case le_getenv env ''LIBSRSIRC_DEBUG_FANCY'' of
                  Some vv \<Rightarrow> lsi_log_setfancy (hdz vv \<noteq> CHR ''0'') s3
                | None \<Rightarrow> lsi_log_setfancy False s3)
      in s4\<lparr>lg_init := True\<rparr>)"

section \<open>Logging\<close>

definition lvlnam :: "int \<Rightarrow> string" where
  "lvlnam lvl =
     (if lvl = LOG_DEBUG then ''DBG'' else if lvl = LOG_TRACE then ''TRC'' else if lvl = LOG_VIVI then ''VIV''
      else if lvl = LOG_INFO then ''INF'' else if lvl = LOG_NOTICE then ''NOT'' else if lvl = LOG_WARNING then ''WRN''
      else if lvl = LOG_CRIT then ''CRT'' else if lvl = LOG_ERR then ''ERR'' else ''???'')"

definition esc_seq :: "string \<Rightarrow> string" where
  "esc_seq codes = CHR 0x1B # ''['' @ codes @ ''m''"

definition COL_RST :: string where "COL_RST = esc_seq ''0''"

definition lvlcol :: "int \<Rightarrow> string" where
  "lvlcol lvl = esc_seq
     (if lvl = LOG_DEBUG then ''30;01'' else if lvl = LOG_TRACE then ''34;01'' else if lvl = LOG_VIVI then ''07;30;01''
      else if lvl = LOG_INFO then ''37;01'' else if lvl = LOG_NOTICE then ''32;01'' else if lvl = LOG_WARNING then ''33;01''
      else if lvl = LOG_CRIT then ''07;31;01'' else if lvl = LOG_ERR then ''31;01'' else ''07;37;01'')"

text \<open>\<open>%*s\<close>: blanks on the left, for a negative width on the right\<close>

definition fmt_w :: "int \<Rightarrow> string \<Rightarrow> string" where
  "fmt_w w x =
     (let k = nat \<bar>w\<bar> - length x in if w < 0 then x @ replicate k (CHR '' '') else replicate k (CHR '' '') @ x)"

definition sanitize :: "string \<Rightarrow> string" where
  "sanitize p = map (\<lambda>c. if c = CHR 0x0A \<or> c = CHR 0x0D then CHR ''$'' else c) p"

definition err_text :: "logenv \<Rightarrow> int \<Rightarrow> string" where
  "err_text env errn = (if 0 \<le> errn then '': '' @ ncpy 254 (le_strerror env errn) else [])"

text \<open>The indentation of a trace line, in an array of 256: the NUL needs a place of its own.\<close>

definition log_pad :: "int \<Rightarrow> int \<Rightarrow> string option" where
  "log_pad lvl depth =
     (if lvl = LOG_TRACE then
        let d0 = nat (depth * 2); d = (if 256 < d0 then 255 else d0) in
        if d < 256 then Some (replicate d (CHR '' '')) else None
      else Some [])"

definition log_time :: "logenv \<Rightarrow> string" where
  "log_time env =
     (let t = (case le_ctime env of None \<Rightarrow> ''(lsi_b_ctime() failed)'' | Some x \<Rightarrow> x)
      in case strchr t (CHR 0x0A) of None \<Rightarrow> t | Some i \<Rightarrow> take i t)"

definition log_line :: "logenv \<Rightarrow> string \<Rightarrow> int \<Rightarrow> string \<Rightarrow> int \<Rightarrow> string \<Rightarrow> string \<Rightarrow> string \<Rightarrow> string \<Rightarrow> logst \<Rightarrow> string" where
  "log_line env modnam lvl file line func pad payload errmsg s =
     (if lg_fancy s then lvlcol lvl else []) @ log_time env @ '': '' @ fmt_w (lg_w_modnam s) modnam @ '': '' @
     lvlnam lvl @ '': '' @ pad @ fmt_w (lg_w_file s) file @ '':'' @ fmt_w (lg_w_line s) (dec_int line) @ '':'' @
     fmt_w (lg_w_func s) func @ ''(): '' @ payload @ errmsg @ (if lg_fancy s then COL_RST else []) @ [CHR 0x0A]"

text \<open>\<open>txt\<close> is what the format expands to.\<close>

definition lsi_log_log :: "logenv \<Rightarrow> int \<Rightarrow> int \<Rightarrow> int \<Rightarrow> string \<Rightarrow> int \<Rightarrow> string \<Rightarrow> string \<Rightarrow> logst \<Rightarrow> logst option" where
  "lsi_log_log env mdl lvl errn file line func txt s0 = do {
     let s = (if lg_init s0 then s0 else lsi_log_init env s0);
     let always = (lvl = C_INT_MIN);
     i \<leftarrow> mod_index mdl s;
     if lvl > lg_lvlarr s ! i then Some s
     else do {
       let payload = sanitize (ncpy 4096 txt);
       let errmsg = err_text env errn;
       if lg_stderr s then
         if always then Some (emit (Ev_stderr (payload @ [CHR 0x0A])) s)
         else do {
           pad \<leftarrow> log_pad lvl (lg_calldepth s);
           Some (emit (Ev_stderr (ncpy 8192 (log_line env (modnames ! i) lvl file line func pad payload errmsg s))) s) }
       else if always then Some (lsi_b_syslog LOG_NOTICE payload s)
       else Some (lsi_b_syslog lvl (ncpy 8192 (modnames ! i @ '': '' @ file @ '':'' @ dec_int line @ '':'' @ func @
                   ''(): '' @ payload @ errmsg)) s) } }"

section \<open>A message is one line\<close>

text \<open>No line break and no carriage return\<close>

definition clean :: "string \<Rightarrow> bool" where
  "clean t \<longleftrightarrow> CHR 0x0A \<notin> set t \<and> CHR 0x0D \<notin> set t"

fun ev_text :: "log_event \<Rightarrow> string" where
  "ev_text (Ev_stderr t) = t"
| "ev_text (Ev_syslog p t) = t"
| "ev_text (Ev_openlog t) = []"
| "ev_text Ev_closelog = []"

named_theorems clean_intros \<open>texts without line breaks\<close>

lemma clean_append [clean_intros]: "clean a \<Longrightarrow> clean b \<Longrightarrow> clean (a @ b)"
  by (auto simp: clean_def)

lemma clean_subset: "clean t \<Longrightarrow> set u \<subseteq> set t \<Longrightarrow> clean u"
  by (auto simp: clean_def)

lemma clean_consts [clean_intros]:
  "clean []" "clean '': ''" "clean '':''" "clean ''(): ''" "clean COL_RST" "clean (lvlcol lvl)" "clean (lvlnam lvl)"
  by (simp_all add: clean_def COL_RST_def lvlcol_def lvlnam_def esc_seq_def)

lemma clean_fmt [clean_intros]: "clean t \<Longrightarrow> clean (fmt_w w t)"
  by (auto simp: clean_def fmt_w_def Let_def)

lemma clean_sanitize [clean_intros]: "clean (sanitize t)"
  by (auto simp: clean_def sanitize_def)

lemma clean_ncpy [clean_intros]: "clean t \<Longrightarrow> clean (ncpy n t)"
  by (rule clean_subset) (auto simp: ncpy_def dest: in_set_takeD)

lemma clean_dec: "clean (dec n)"
proof (induction n rule: dec.induct)
  case (1 n)
  have d: "clean [chr (48 + m)]" if "m < 10" for m
  proof -
    have "byte (chr (48 + m)) = 48 + m" using that by simp
    moreover have "byte (CHR 0x0A) = 10" "byte (CHR 0x0D) = 13" by (simp_all add: byte_def)
    ultimately show ?thesis by (auto simp: clean_def)
  qed
  show ?case using 1 d [of n] d [of "n mod 10"] by (subst dec.simps) (auto intro: clean_append)
qed

lemma clean_dec_int [clean_intros]: "clean (dec_int i)"
  using clean_dec [of "nat i"] clean_dec [of "nat (- i)"] by (auto simp: dec_int_def clean_def)

lemma clean_pad: "log_pad lvl depth = Some pad \<Longrightarrow> clean pad"
  by (auto simp: log_pad_def clean_def Let_def split: if_splits)

lemma clean_modnames: "i < NUM_MODS \<Longrightarrow> clean (modnames ! i)"
proof -
  have "list_all clean modnames" by (simp add: modnames_def clean_def)
  moreover have "length modnames = NUM_MODS" by (simp add: modnames_def NUM_MODS_def)
  ultimately show "i < NUM_MODS \<Longrightarrow> clean (modnames ! i)" by (simp add: list_all_length)
qed

lemma strchr_take_notin: "strchr t c = Some i \<Longrightarrow> c \<notin> set (take i t)"
  by (induction t arbitrary: i) (auto split: if_splits)

lemma clean_time:
  assumes "\<forall>t. le_ctime env = Some t \<longrightarrow> CHR 0x0D \<notin> set t"
  shows "clean (log_time env)"
proof -
  let ?t = "case le_ctime env of None \<Rightarrow> ''(lsi_b_ctime() failed)'' | Some x \<Rightarrow> x"
  have cr: "CHR 0x0D \<notin> set ?t" using assms by (cases "le_ctime env") simp_all
  show ?thesis
  proof (cases "strchr ?t (CHR 0x0A)")
    case None
    then have "CHR 0x0A \<notin> set ?t" unfolding strchr_None_iff by blast
    with cr None show ?thesis by (simp add: log_time_def clean_def Let_def)
  next
    case (Some i)
    with cr strchr_take_notin [OF Some] show ?thesis by (auto simp: log_time_def clean_def Let_def dest: in_set_takeD)
  qed
qed

lemma clean_butlast: "clean t \<Longrightarrow> clean (butlast t)" "clean t \<Longrightarrow> clean (butlast (ncpy n (t @ [c])))"
proof -
  show "clean t \<Longrightarrow> clean (butlast t)" by (rule clean_subset) (auto dest: in_set_butlastD)
  show "clean t \<Longrightarrow> clean (butlast (ncpy n (t @ [c])))"
    by (rule clean_subset) (auto simp: ncpy_def take_Cons' butlast_append dest: in_set_takeD in_set_butlastD split: if_splits)
qed

definition env_clean :: "logenv \<Rightarrow> bool" where
  "env_clean env \<longleftrightarrow> (\<forall>e. clean (le_strerror env e)) \<and> (\<forall>t. le_ctime env = Some t \<longrightarrow> CHR 0x0D \<notin> set t)"

lemma clean_err: "env_clean env \<Longrightarrow> clean (err_text env errn)"
  using clean_append [OF clean_consts(2) clean_ncpy [of "le_strerror env errn" 254]] clean_consts(1)
  unfolding err_text_def env_clean_def by simp

lemma clean_line:
  assumes "env_clean env" "clean nam" "clean file" "clean func" "clean pad"
  obtains t where "log_line env nam lvl file line func pad (sanitize p) (err_text env errn) s = t @ [CHR 0x0A]" "clean t"
proof
  let ?t = "(if lg_fancy s then lvlcol lvl else []) @ log_time env @ '': '' @ fmt_w (lg_w_modnam s) nam @ '': '' @
     lvlnam lvl @ '': '' @ pad @ fmt_w (lg_w_file s) file @ '':'' @ fmt_w (lg_w_line s) (dec_int line) @ '':'' @
     fmt_w (lg_w_func s) func @ ''(): '' @ sanitize p @ err_text env errn @ (if lg_fancy s then COL_RST else [])"
  show "log_line env nam lvl file line func pad (sanitize p) (err_text env errn) s = ?t @ [CHR 0x0A]"
    by (simp add: log_line_def)
  have "clean (if b then x else [])" if "clean x" for b x using that by (simp add: clean_def)
  note this [clean_intros]
  show "clean ?t" using assms clean_time [of env] clean_err [OF assms(1), of errn]
    by (intro clean_intros) (simp_all add: env_clean_def)
qed

lemma log_log_events:
  assumes env: "env_clean env" "clean file" "clean func" and s: "lg_init s" "length (lg_lvlarr s) = NUM_MODS"
    and i: "mod_index mdl s = Some i" and r: "lsi_log_log env mdl lvl errn file line func txt s = Some s'"
  obtains evs where "s' = s\<lparr>lg_out := lg_out s @ evs\<rparr>" "length evs = (if lvl \<le> lg_lvlarr s ! i then 1 else 0)"
    "\<forall>e\<in>set evs. clean (butlast (ev_text e))"
proof (cases "lvl \<le> lg_lvlarr s ! i")
  case False
  with s i r that [of "[]"] show thesis by (simp add: lsi_log_log_def)
next
  case True
  note k = clean_modnames [of i]
  have il: "i < NUM_MODS" using i s(2) by (auto simp: mod_index_def split: if_splits)
  let ?ok = "\<lambda>e. s' = emit e s \<and> clean (butlast (ev_text e))"
  have "\<exists>e. ?ok e"
  proof (cases "lg_stderr s")
    case st: True
    show ?thesis
    proof (cases "lvl = C_INT_MIN")
      case always: True
      with True st s i r have "s' = emit (Ev_stderr (sanitize (ncpy 4096 txt) @ [CHR 0x0A])) s"
        by (simp add: lsi_log_log_def Let_def)
      then show ?thesis by (intro exI [of _ "Ev_stderr (sanitize (ncpy 4096 txt) @ [CHR 0x0A])"]) (simp add: clean_intros)
    next
      case normal: False
      with True st s i r obtain pad where pad: "log_pad lvl (lg_calldepth s) = Some pad"
        "s' = emit (Ev_stderr (ncpy 8192 (log_line env (modnames ! i) lvl file line func pad (sanitize (ncpy 4096 txt)) (err_text env errn) s))) s"
        by (auto simp: lsi_log_log_def Let_def split: bind_splits)
      obtain t where "log_line env (modnames ! i) lvl file line func pad (sanitize (ncpy 4096 txt)) (err_text env errn) s = t @ [CHR 0x0A]" "clean t"
        by (rule clean_line [OF env(1) k [OF il] env(2,3) clean_pad [OF pad(1)]])
      then show ?thesis using pad(2) clean_butlast(2) by auto
    qed
  next
    case st: False
    let ?m = "modnames ! i @ '': '' @ file @ '':'' @ dec_int line @ '':'' @ func @ ''(): '' @ sanitize (ncpy 4096 txt) @ err_text env errn"
    have m: "clean ?m" using k [OF il] env clean_err [OF env(1), of errn] by (intro clean_intros)
    let ?e = "if lvl = C_INT_MIN then Ev_syslog LOG_NOTICE (ncpy 2048 (sanitize (ncpy 4096 txt)))
      else Ev_syslog lvl (ncpy 2048 (ncpy 8192 ?m))"
    have "s' = emit ?e s" using True st s i r by (simp add: lsi_log_log_def lsi_b_syslog_def Let_def split: if_splits)
    moreover have "clean (butlast (ev_text ?e))" using m by (auto intro!: clean_butlast(1) clean_intros)
    ultimately show ?thesis by blast
  qed
  then obtain e where "s' = emit e s" "clean (butlast (ev_text e))" by blast
  with True that [of "[e]"] show thesis by (simp add: emit_def)
qed

section \<open>Properties\<close>

text \<open>
  C22: Nobody can forge lines of the log: one call writes at most one event, exactly if the level
  of the message is within that of the module, and whatever the message contains (it may come from the network),
  there is no line break before the end of what is written.
\<close>

theorem log_never_splits_lines:
  assumes "env_clean env" "clean file" "clean func" "lg_init s" "length (lg_lvlarr s) = NUM_MODS"
    and "lsi_log_getlvl mdl s = Some level" "lsi_log_log env mdl lvl errn file line func txt s = Some s'"
  shows "\<exists>evs. s' = s\<lparr>lg_out := lg_out s @ evs\<rparr> \<and> length evs = (if lvl \<le> level then 1 else 0) \<and>
     (\<forall>e\<in>set evs. clean (butlast (ev_text e)))"
proof -
  obtain i where i: "mod_index mdl s = Some i" "level = lg_lvlarr s ! i" using assms(6) by (auto simp: lsi_log_getlvl_def bind_eq_Some_conv)
  show ?thesis unfolding i(2) by (rule log_log_events [OF assms(1-5) i(1) assms(7)]) blast
qed

definition sample_logenv :: logenv where
  "sample_logenv = \<lparr>le_getenv = (\<lambda>_. None), le_strerror = (\<lambda>_. ''Broken pipe''), le_ctime = Some (''noon'' @ [CHR 0x0A])\<rparr>"

definition sample_log :: logst where
  "sample_log = log_static\<lparr>lg_init := True, lg_lvlarr := replicate NUM_MODS 9\<rparr>"

lemma sample_log_simps:
  "lg_init sample_log" "length (lg_lvlarr sample_log) = NUM_MODS" "mod_index 0 sample_log = Some 0" "lg_lvlarr sample_log ! 0 = 9"
  "lg_calldepth sample_log = 0" "lg_stderr sample_log"
  by (simp_all add: sample_log_def NUM_MODS_def mod_index_def log_static_def)

theorem log_never_splits_lines_witness:
  "\<exists>e s'. lsi_log_log sample_logenv 0 LOG_ERR 32 ''io.c'' 7 ''f'' (''x'' @ [CHR 0x0A] @ ''y'') sample_log = Some s' \<and>
     lg_out s' = [e] \<and> clean (butlast (ev_text e))"
proof -
  let ?txt = "''x'' @ [CHR 0x0A] @ ''y''"
  have env: "env_clean sample_logenv" "clean ''io.c''" "clean ''f''" by (simp_all add: env_clean_def sample_logenv_def clean_def)
  have l: "lsi_log_getlvl 0 sample_log = Some 9" by (simp add: lsi_log_getlvl_def sample_log_simps)
  obtain s' where s': "lsi_log_log sample_logenv 0 LOG_ERR 32 ''io.c'' 7 ''f'' ?txt sample_log = Some s'"
    by (simp add: lsi_log_log_def sample_log_simps Let_def log_pad_def LOG_ERR_def LOG_TRACE_def LOG_VIVI_def LOG_DEBUG_def
        C_INT_MIN_def)
  from log_never_splits_lines [OF env sample_log_simps(1,2) l s']
  obtain evs where evs: "s' = sample_log\<lparr>lg_out := lg_out sample_log @ evs\<rparr>" "length evs = 1" "\<forall>e\<in>set evs. clean (butlast (ev_text e))"
    by (auto simp: LOG_ERR_def)
  then obtain e where "evs = [e]" by (auto simp: length_Suc_conv)
  moreover have "lg_out sample_log = []" by (simp add: sample_log_def log_static_def)
  ultimately show ?thesis using s' evs by auto
qed

text \<open>
  C23: What the logger does wrong.  A call of the initialised logger leaves its arrays in exactly two cases: for a module
  that does not exist (as the macro \<open>A\<close> has it, which passes -1), and for a trace line at call depth 128.
\<close>

theorem log_crash_iff:
  assumes "lg_init s" "0 \<le> lg_calldepth s"
  shows "lsi_log_log env mdl lvl errn file line func txt s = None \<longleftrightarrow>
     (case lsi_log_getlvl mdl s of None \<Rightarrow> True
      | Some level \<Rightarrow> lvl = LOG_TRACE \<and> lvl \<le> level \<and> lg_stderr s \<and> lg_calldepth s = 128)"
proof (cases "mod_index mdl s")
  case None
  then show ?thesis using assms by (simp add: lsi_log_log_def lsi_log_getlvl_def)
next
  case (Some i)
  have "LOG_TRACE \<noteq> C_INT_MIN" by (simp add: LOG_TRACE_def LOG_VIVI_def LOG_DEBUG_def C_INT_MIN_def)
  moreover have "log_pad lvl (lg_calldepth s) = None \<longleftrightarrow> lvl = LOG_TRACE \<and> lg_calldepth s = 128"
    using assms(2) by (auto simp: log_pad_def Let_def)
  ultimately show ?thesis using assms Some
    by (cases "log_pad lvl (lg_calldepth s)") (auto simp: lsi_log_log_def lsi_log_getlvl_def Let_def)
qed

theorem log_crash_iff_witness:
  "lsi_log_log sample_logenv (-1) C_INT_MIN (-1) ''ucbase.c'' 553 ''f'' ''channel'' sample_log = None \<and>
   lsi_log_log sample_logenv 0 LOG_TRACE (-1) ''io.c'' 7 ''f'' ''x'' (sample_log\<lparr>lg_calldepth := 128\<rparr>) = None \<and>
   lsi_log_log sample_logenv 0 LOG_TRACE (-1) ''io.c'' 7 ''f'' ''x'' (sample_log\<lparr>lg_calldepth := 129\<rparr>) \<noteq> None"
proof -
  have g: "lsi_log_getlvl (-1) sample_log = None" "lsi_log_getlvl 0 (sample_log\<lparr>lg_calldepth := d\<rparr>) = Some 9" for d
    using sample_log_simps(3,4) by (simp_all add: lsi_log_getlvl_def mod_index_def)
  have t: "LOG_TRACE \<le> 9" by (simp add: LOG_TRACE_def LOG_VIVI_def LOG_DEBUG_def)
  show ?thesis
    using log_crash_iff [of sample_log sample_logenv "-1" C_INT_MIN "-1" "''ucbase.c''" 553 "''f''" "''channel''"]
      log_crash_iff [of "sample_log\<lparr>lg_calldepth := 128\<rparr>" sample_logenv 0 LOG_TRACE "-1" "''io.c''" 7 "''f''" "''x''"]
      log_crash_iff [of "sample_log\<lparr>lg_calldepth := 129\<rparr>" sample_logenv 0 LOG_TRACE "-1" "''io.c''" 7 "''f''" "''x''"]
    by (simp add: g t sample_log_simps)
qed

end
