(* ===== verification/Icatmain.thy ===== *)
theory Icatmain
  imports Icatcore Intlog
begin

text \<open>
  \<open>src/icat_init.c\<close>, the rest: the log levels of \<open>icat\<close> and the options that change them, what
  \<open>dump_settings\<close> logs, and \<open>main\<close>, which puts the parts of \<open>icat\<close> together.  The state of the
  program is that of \<open>icat\<close> and that of the logger.  The usage texts are left out: an option that prints one
  ends the program, here None.  \<open>setvbuf\<close> changes no contents, and \<open>atexit\<close> is taken to succeed.
\<close>

section \<open>Log levels\<close>

definition MOD_ICATINIT :: int where "MOD_ICATINIT = 17"
definition MOD_ICATCORE :: int where "MOD_ICATCORE = 18"
definition MOD_ICATSERV :: int where "MOD_ICATSERV = 19"
definition MOD_ICATUSER :: int where "MOD_ICATUSER = 20"
definition MOD_ICATMISC :: int where "MOD_ICATMISC = 21"

definition DEF_LOGLVL :: int where "DEF_LOGLVL = LOG_ERR"

text \<open>The same level for the five modules of \<open>icat\<close>\<close>

definition set_icat_lvl :: "int \<Rightarrow> logst \<Rightarrow> logst option" where
  "set_icat_lvl lvl l = do {
     l1 \<leftarrow> lsi_log_setlvl MOD_ICATINIT lvl l;
     l2 \<leftarrow> lsi_log_setlvl MOD_ICATCORE lvl l1;
     l3 \<leftarrow> lsi_log_setlvl MOD_ICATSERV lvl l2;
     l4 \<leftarrow> lsi_log_setlvl MOD_ICATUSER lvl l3;
     lsi_log_setlvl MOD_ICATMISC lvl l4 }"

definition init_logger :: "logenv \<Rightarrow> logst \<Rightarrow> logst option" where
  "init_logger env l = set_icat_lvl DEF_LOGLVL (lsi_log_init env l)"

text \<open>The sum may overflow an \<open>int\<close>.\<close>

definition update_logger :: "int \<Rightarrow> int \<Rightarrow> logst \<Rightarrow> logst option" where
  "update_logger verb fancy l = do {
     lvl \<leftarrow> lsi_log_getlvl MOD_ICATINIT l;
     if lvl + verb < C_INT_MIN \<or> C_INT_MAX < lvl + verb then None
     else do {
       let v = (if lvl + verb < 0 then 0 else lvl + verb);
       let fancy' = (if fancy = -1 then lsi_log_getfancy l else fancy \<noteq> 0);
       set_icat_lvl v (lsi_log_setfancy fancy' l) } }"

definition log_opt :: "char \<times> string \<Rightarrow> logst \<Rightarrow> logst option" where
  "log_opt opt l =
     (let ch = fst opt in
      if ch = CHR ''c'' then update_logger 0 1 l
      else if ch = CHR ''v'' then update_logger 1 (-1) l
      else if ch = CHR ''q'' then update_logger (-1) (-1) l
      else Some l)"

text \<open>What the loop over the options does to the logger; what it does to the settings is \<^const>\<open>set_opts\<close>.\<close>

fun log_opts :: "(char \<times> string) list \<Rightarrow> logst \<Rightarrow> logst option" where
  "log_opts [] l = Some l"
| "log_opts (opt # opts) l = do { l1 \<leftarrow> log_opt opt l; log_opts opts l1 }"

section \<open>The settings as text\<close>

definition yesno :: "string \<Rightarrow> bool \<Rightarrow> dump_line" where
  "yesno nam b = L_str nam (Some (if b then ''yes'' else ''no''))"

definition srv_line :: "srv_entry \<Rightarrow> dump_line" where
  "srv_line s = L_text (''Server '' @ CHR 0x27 # sv_host s @ '':'' @ dec (unat (sv_port s)) @ '' ('' @
     (if sv_ssl s then [] else ''no '') @ ''ssl)'')"

definition dump_settings :: "settings \<Rightarrow> dump_line list" where
  "dump_settings se =
     [L_str ''nick'' (Some (g_nick se)), L_str ''uname'' (Some (g_uname se)), L_str ''fname'' (Some (g_fname se)),
      L_num ''conflags'' (uint (g_conflags se)), L_str ''pass'' (Some (g_pass se)), L_str ''pxhost'' (Some (g_pxhost se)),
      L_num ''pxport'' (uint (g_pxport se)), L_num ''pxtype'' (g_pxtype se), L_str ''saslname'' (Some (g_saslname se)),
      L_str ''saslpass'' (Some (g_saslpass se)), yesno ''trgmode'' (g_trgmode se),
      L_num ''cto_soft_us'' (uint (g_cto_soft_us se)), L_num ''cto_hard_us'' (uint (g_cto_hard_us se)),
      L_num ''linedelay'' (uint (g_linedelay se)), L_num ''freelines'' (uint (g_freelines se)),
      L_num ''waitquit_us'' (uint (g_waitquit_us se)), yesno ''keeptrying'' (g_keeptrying se),
      L_num ''cfwait_us'' (uint (g_cfwait_us se)), L_num ''hbeat_us'' (uint (g_hbeat_us se)),
      yesno ''reconnect'' (g_reconnect se), yesno ''nojoin'' (g_nojoin se), yesno ''ignore_pm'' (g_ignore_pm se),
      yesno ''ignore_cs'' (g_ignore_cs se), yesno ''notices'' (g_notices se), L_str ''chanlist'' (Some (g_chanlist se)),
      L_str ''keylist'' (Some (g_keylist se)), L_str ''esc'' (g_esc se)] @
     map srv_line (g_srvlist se)"

section \<open>The program\<close>

text \<open>Registering takes its outcome from those of the coming system calls.\<close>

definition ia_regsig :: "signal \<Rightarrow> sigact \<Rightarrow> icat \<Rightarrow> icat" where
  "ia_regsig sig act a =
     (let (ok, w) = sys_call (st_net (ia_st a))
      in a\<lparr>ia_st := (ia_st a)\<lparr>st_net := w\<rparr>, ia_sig := lsi_b_regsig ok sig act (ia_sig a)\<rparr>)"

definition main_signals :: "sigconf \<Rightarrow> icat \<Rightarrow> icat" where
  "main_signals sc a =
     (let a1 = (if have_SIGPIPE sc then ia_regsig SIGPIPE Sa_ign a else a)
      in case info_signal sc of Some s \<Rightarrow> ia_regsig s Sa_handler a1 | None \<Rightarrow> a1)"

text \<open>At the exit: the context is disposed of, the list of servers and the escape are freed.\<close>

definition cleanup :: "icat \<Rightarrow> icat option" where
  "cleanup a = do {
     a1 \<leftarrow> icat_core_destroy a;
     Some (a1\<lparr>ia_sett := (ia_sett a1)\<lparr>g_srvlist := [], g_esc := None\<rparr>\<rparr>) }"

text \<open>\<open>a\<close> holds what the system has in store.  The result is the exit status with the state after the exit.\<close>

definition icat_main :: "envir \<Rightarrow> bool \<Rightarrow> sigconf \<Rightarrow> logenv \<Rightarrow> (char \<times> string) list \<Rightarrow> string list \<Rightarrow> icat \<Rightarrow> (int \<times> icat \<times> logst) option" where
  "icat_main env have_ssl sc lenv opts args a = do {
     l1 \<leftarrow> init_logger lenv log_static;
     se \<leftarrow> icat_settings opts args;
     l2 \<leftarrow> log_opts opts l1;
     a1 \<leftarrow> icat_core_init env have_ssl sc (main_signals sc (a\<lparr>ia_sett := se, ia_dumped := dump_settings se\<rparr>));
     (status, a2) \<leftarrow> icat_core_run env have_ssl sc a1;
     a3 \<leftarrow> cleanup a2;
     Some (status, a3, l2) }"

section \<open>Levels and signals\<close>

text \<open>The modules of \<open>icat\<close> have the indices 17 to 21; they share one level, and the options leave the others alone.\<close>

definition icat_lvls :: "logst \<Rightarrow> logst \<Rightarrow> bool" where
  "icat_lvls l l' \<longleftrightarrow> length (lg_lvlarr l) = NUM_MODS \<and> length (lg_lvlarr l') = NUM_MODS \<and>
     take 17 (lg_lvlarr l') = take 17 (lg_lvlarr l) \<and> drop 22 (lg_lvlarr l') = drop 22 (lg_lvlarr l) \<and>
     (\<forall>i < 5. lg_lvlarr l' ! (17 + i) = lg_lvlarr l' ! 17)"

lemmas icat_mods = MOD_ICATINIT_def MOD_ICATCORE_def MOD_ICATSERV_def MOD_ICATUSER_def MOD_ICATMISC_def NUM_MODS_def

lemma set_icat_lvl_ok:
  assumes "length (lg_lvlarr l) = NUM_MODS"
  shows "\<exists>l'. set_icat_lvl lvl l = Some l' \<and> icat_lvls l l' \<and> lg_lvlarr l' ! 17 = lvl"
proof -
  have "\<exists>l'. set_icat_lvl lvl l = Some l' \<and> lg_lvlarr l' = (lg_lvlarr l)[17 := lvl, 18 := lvl, 19 := lvl, 20 := lvl, 21 := lvl]"
    using assms by (simp add: set_icat_lvl_def lsi_log_setlvl_def mod_index_def icat_mods)
  moreover have "i < 5 \<longleftrightarrow> i = 0 \<or> i = 1 \<or> i = 2 \<or> i = 3 \<or> i = 4" for i :: nat by auto
  ultimately show ?thesis using assms by (auto simp: icat_lvls_def icat_mods nth_list_update take_update_cancel drop_update_cancel)
qed

lemma icat_lvls_trans: "icat_lvls l l1 \<Longrightarrow> icat_lvls l1 l2 \<Longrightarrow> icat_lvls l l2"
  by (simp add: icat_lvls_def)

lemma log_opt_levels:
  assumes "log_opt opt l = Some l'" "icat_lvls l0 l"
  shows "icat_lvls l0 l'"
proof -
  have "icat_lvls l0 l'" if u: "update_logger v f l = Some l'" for v f
  proof -
    obtain lvl f' where s: "set_icat_lvl lvl (lsi_log_setfancy f' l) = Some l'"
      using u by (auto simp: update_logger_def Let_def bind_eq_Some_conv split: if_splits)
    have e: "lg_lvlarr (lsi_log_setfancy f' l) = lg_lvlarr l" by (simp add: lsi_log_setfancy_def)
    then have "icat_lvls l0 (lsi_log_setfancy f' l)" using assms(2) by (simp add: icat_lvls_def)
    with s show ?thesis
      using set_icat_lvl_ok [of "lsi_log_setfancy f' l" lvl] icat_lvls_trans by (auto simp: icat_lvls_def)
  qed
  with assms show ?thesis by (auto simp: log_opt_def Let_def split: if_splits)
qed

lemma log_opts_levels: "log_opts opts l = Some l' \<Longrightarrow> icat_lvls l0 l \<Longrightarrow> icat_lvls l0 l'"
  by (induction opts arbitrary: l) (auto simp: bind_eq_Some_conv dest: log_opt_levels)

text \<open>SIGINT keeps its disposition: what \<open>sighnd\<close> does for it never happens, and no round sees \<open>g_interrupted\<close>.\<close>

lemma ia_regsig_other: "t \<noteq> sig \<Longrightarrow> sg_act (ia_sig (ia_regsig sig act a)) t = sg_act (ia_sig a) t"
  by (simp add: ia_regsig_def lsi_b_regsig_def Let_def split: prod.split)

lemma main_signals_int: "sg_act (ia_sig (main_signals sc a)) SIGINT = sg_act (ia_sig a) SIGINT"
  by (simp add: main_signals_def info_signal_def Let_def ia_regsig_other)

lemma signals_never_interrupt:
  assumes s: "ia_signals sc a = Some a'" and i: "sg_act (ia_sig a) SIGINT \<noteq> Sa_handler" "\<not> ia_interrupted a"
  shows "\<not> ia_interrupted a'" "sg_act (ia_sig a') SIGINT \<noteq> Sa_handler"
proof -
  obtain g where g: "next_signals (sighnd sc) (ia_sig a) = Some g" and a': "a' = a\<lparr>ia_sig := g\<rparr>"
    using s unfolding ia_signals_def bind_eq_Some_conv by blast
  from next_signals_no_int [OF g i(1)] i show "\<not> ia_interrupted a'" "sg_act (ia_sig a') SIGINT \<noteq> Sa_handler"
    by (simp_all add: a')
qed

text \<open>By default there is no escape, and the NULL pointer is printed.\<close>

lemma dump_settings_null: "g_esc se = None \<Longrightarrow> L_str ''esc'' None \<in> set (dump_settings se)"
  by (simp add: dump_settings_def)

end
