(* ===== verification/Userprops.thy ===== *)
theory Userprops
  imports Icatuser
begin

text \<open>
  The terminal side of \<open>icat\<close> takes the user's input line by line.
\<close>

section \<open>Searching the buffer\<close>

lemma buf_strchr_spec:
  assumes "cstr_ok p" "c \<noteq> NUL"
  shows "buf_strchr (pre @ p @ NUL # post) (length pre) c =
    Some (if c \<in> set p then Some (length pre + length (takeWhile (\<lambda>x. x \<noteq> c) p)) else None)"
  using assms
proof (induction p arbitrary: pre)
  case Nil
  then show ?case by (subst buf_strchr.simps) (simp add: nth_append)
next
  case (Cons x p)
  have IH: "buf_strchr ((pre @ [x]) @ p @ NUL # post) (length (pre @ [x])) c =
      Some (if c \<in> set p then Some (length (pre @ [x]) + length (takeWhile (\<lambda>x. x \<noteq> c) p)) else None)"
    by (rule Cons.IH) (use Cons.prems in auto)
  show ?case
  proof (cases "x = c")
    case True
    then show ?thesis by (subst buf_strchr.simps) (simp add: nth_append)
  next
    case False
    with IH Cons.prems show ?thesis by (subst buf_strchr.simps) (simp add: nth_append)
  qed
qed

lemma ub_split:
  assumes "ub_ok u"
  shows "ub_inbuf u = take (ub_head u) (ub_inbuf u) @ ub_pend u @ drop (ub_tail u) (ub_inbuf u)"
    and "length (take (ub_head u) (ub_inbuf u)) = ub_head u"
    and "ub_head u + length (ub_pend u) = ub_tail u"
proof -
  have "drop (ub_head u) (ub_inbuf u) = ub_pend u @ drop (ub_tail u - ub_head u) (drop (ub_head u) (ub_inbuf u))"
    by (simp only: ub_pend_def append_take_drop_id)
  then show "ub_inbuf u = take (ub_head u) (ub_inbuf u) @ ub_pend u @ drop (ub_tail u) (ub_inbuf u)"
    using assms by (metis append_take_drop_id drop_drop ub_ok_def le_add_diff_inverse2)
qed (use assms in \<open>auto simp: ub_ok_def ub_pend_def\<close>)

lemma term_buf_spec:
  assumes "ub_ok u"
  shows "\<exists>post. term_buf u = Some (u\<lparr>ub_inbuf := take (ub_head u) (ub_inbuf u) @ ub_pend u @ NUL # post\<rparr>) \<and>
    ub_ok (u\<lparr>ub_inbuf := take (ub_head u) (ub_inbuf u) @ ub_pend u @ NUL # post\<rparr>)"
proof -
  have lt: "ub_tail u < length (ub_inbuf u)" using assms by (simp add: ub_ok_def)
  let ?pre = "take (ub_head u) (ub_inbuf u) @ ub_pend u"
  have split: "ub_inbuf u = ?pre @ drop (ub_tail u) (ub_inbuf u)" using ub_split(1) [OF assms] by simp
  have lp: "length ?pre = ub_tail u" using ub_split(2,3) [OF assms] by simp
  obtain x post where dr: "drop (ub_tail u) (ub_inbuf u) = x # post"
    using lt by (metis Cons_nth_drop_Suc)
  have "(ub_inbuf u)[ub_tail u := NUL] = ?pre @ NUL # post"
    using split [unfolded dr] list_update_length [of ?pre x post NUL] unfolding lp by metis
  moreover have "length (?pre @ NUL # post) = length (ub_inbuf u)"
    using split dr by (metis length_append length_Cons)
  ultimately show ?thesis
    using lt assms by (intro exI [of _ post]) (simp add: term_buf_def ub_ok_def)
qed

lemma has_line_spec:
  assumes "ub_ok u" "cstr_ok (ub_pend u)"
  shows "\<exists>u'. has_line u = Some (newline \<in> set (ub_pend u), u') \<and> ub_ok u' \<and> ub_pend u' = ub_pend u \<and>
    ub_head u' = ub_head u \<and> ub_tail u' = ub_tail u \<and> ub_can u' = ub_can u \<and> ub_in u' = ub_in u \<and> ub_eof u' = ub_eof u"
proof -
  obtain post where tb: "term_buf u = Some (u\<lparr>ub_inbuf := take (ub_head u) (ub_inbuf u) @ ub_pend u @ NUL # post\<rparr>)"
    and ok: "ub_ok (u\<lparr>ub_inbuf := take (ub_head u) (ub_inbuf u) @ ub_pend u @ NUL # post\<rparr>)"
    using term_buf_spec [OF assms(1)] by blast
  have "newline \<noteq> NUL" by (simp add: newline_def)
  from buf_strchr_spec [OF assms(2) this, of "take (ub_head u) (ub_inbuf u)" post] tb ok ub_split(2,3) [OF assms(1)]
  show ?thesis by (auto simp: has_line_def ub_pend_def)
qed

lemma move_front_pend:
  assumes "ub_ok u" "ub_head u \<noteq> 0"
  shows "ub_ok (u\<lparr>ub_inbuf := move_front (ub_inbuf u) (ub_head u) (buf_cnt u),
                 ub_tail := ub_tail u - ub_head u, ub_head := 0\<rparr>) \<and>
    ub_pend (u\<lparr>ub_inbuf := move_front (ub_inbuf u) (ub_head u) (buf_cnt u),
                 ub_tail := ub_tail u - ub_head u, ub_head := 0\<rparr>) = ub_pend u"
  using assms by (auto simp: ub_ok_def ub_pend_def move_front_def buf_cnt_def)

lemma make_room_spec:
  assumes "ub_ok u" "length (ub_pend u) < BUFSZ"
  shows "\<exists>u'. make_room u = Some (False, u') \<and> ub_ok u' \<and> ub_pend u' = ub_pend u \<and> buf_rem u' \<noteq> 0 \<and>
    ub_in u' = ub_in u \<and> ub_can u' = ub_can u \<and> ub_eof u' = ub_eof u"
proof (cases "buf_rem u = 0")
  case False
  with assms show ?thesis by (simp add: make_room_def)
next
  case True
  with assms have h: "ub_head u \<noteq> 0"
    by (auto simp: buf_rem_def buf_cnt_def ub_ok_def ub_pend_def)
  with True assms move_front_pend [OF assms(1) h] show ?thesis
    by (auto simp: make_room_def buf_rem_def buf_cnt_def ub_ok_def BUFSZ_def)
qed

lemma lsi_b_stdin_read_spec:
  assumes "lsi_b_stdin_read n u = (r, d, u')" "n \<noteq> 0"
  shows "ub_rest u = d @ ub_rest u' \<and> length d \<le> n \<and> (r = int (length d) \<or> d = [] \<and> r < 0) \<and>
    ub_inbuf u' = ub_inbuf u \<and> ub_head u' = ub_head u \<and> ub_tail u' = ub_tail u"
proof (cases "ub_in u")
  case (Cons e es)
  show ?thesis
  proof (cases e)
    case (In_data x)
    have "x = take n x @ drop n x" by simp
    with assms Cons In_data show ?thesis
      by (auto simp: lsi_b_stdin_read_def ub_rest_def split: if_splits)
  qed (use assms Cons in \<open>auto simp: lsi_b_stdin_read_def ub_rest_def\<close>)
qed (use assms in \<open>auto simp: lsi_b_stdin_read_def ub_rest_def\<close>)

lemma fill_buf_spec:
  assumes ok: "ub_ok u" and "cstr_ok (ub_stream u)" and room: "buf_rem u \<noteq> 0"
  shows "\<exists>b u'. fill_buf u = Some (b, u') \<and> ub_ok u' \<and> ub_stream u' = ub_stream u \<and>
    (b \<longrightarrow> newline \<in> set (ub_pend u'))"
proof (cases "ub_eof u")
  case True
  with ok show ?thesis by (intro exI [of _ False] exI [of _ u]) (simp add: fill_buf_def)
next
  case False
  obtain n d u1 where rd: "lsi_b_stdin_read (buf_rem u) u = (n, d, u1)" by (cases "lsi_b_stdin_read (buf_rem u) u") auto
  note sp = lsi_b_stdin_read_spec [OF rd room]
  have ok1: "ub_ok u1" "ub_pend u1 = ub_pend u" using sp ok by (auto simp: ub_ok_def ub_pend_def)
  show ?thesis
  proof (cases "0 < n")
    case False
    with sp have "d = []" by auto
    with False sp ok1 show ?thesis
      by (cases "n = 0") (auto simp: fill_buf_def rd \<open>\<not> ub_eof u\<close> ub_stream_def ub_ok_def ub_pend_def ub_rest_def)
  next
    case True
    then have n: "n = int (length d)" using sp by auto
    have fit: "ub_tail u + length d \<le> BUFSZ" using sp ok by (auto simp: buf_rem_def buf_cnt_def ub_ok_def)
    define b where "b = take (ub_tail u) (ub_inbuf u) @ d @ drop (ub_tail u + length d) (ub_inbuf u)"
    define u2 where "u2 = u1\<lparr>ub_inbuf := b, ub_tail := ub_tail u1 + nat n\<rparr>"
    have wb: "wr_bytes (ub_inbuf u1) (ub_tail u1) d = Some b"
      using sp wr_bytes_fit [of "ub_tail u" d "ub_inbuf u"] fit ok by (simp add: b_def ub_ok_def)
    have ok2: "ub_ok u2" using fit ok sp n by (simp add: u2_def b_def ub_ok_def)
    have p2: "ub_pend u2 = ub_pend u @ d"
      using fit ok sp n by (auto simp: u2_def b_def ub_pend_def ub_ok_def drop_take)
    have "cstr_ok (ub_pend u2)" using assms(2) sp by (simp add: p2 ub_stream_def)
    from has_line_spec [OF ok2 this] obtain u' where hl: "has_line u2 = Some (newline \<in> set (ub_pend u2), u')"
      "ub_ok u'" "ub_pend u' = ub_pend u2" "ub_in u' = ub_in u2" by blast
    have "fill_buf u = Some (newline \<in> set (ub_pend u2), u')"
      using True False wb hl(1) by (simp add: fill_buf_def rd \<open>\<not> ub_eof u\<close> u2_def)
    moreover have "ub_stream u' = ub_stream u"
      using hl(3,4) p2 sp by (simp add: ub_stream_def ub_rest_def) (simp add: u2_def)
    ultimately show ?thesis using hl by auto
  qed
qed

text \<open>A full buffer without a newline is what the code cannot cope with.\<close>

lemma canread_spec:
  assumes "ub_ok u" "cstr_ok (ub_stream u)" "length (ub_pend u) < BUFSZ \<or> newline \<in> set (ub_pend u)"
  shows "\<exists>b u'. icat_user_canread u = Some (b, u') \<and> ub_ok u' \<and> ub_stream u' = ub_stream u \<and>
    (b \<longrightarrow> newline \<in> set (ub_pend u'))"
proof -
  have "cstr_ok (ub_pend u)" using assms(2) by (simp add: ub_stream_def)
  from has_line_spec [OF assms(1) this] obtain v where hl: "has_line u = Some (newline \<in> set (ub_pend u), v)"
    "ub_ok v" "ub_pend v = ub_pend u" "ub_in v = ub_in u" by blast
  have empty: "ub_pend u = []" if "buf_cnt u = 0" using that by (simp add: ub_pend_def buf_cnt_def)
  obtain u1 where u1: "(if buf_cnt u \<noteq> 0 then has_line u else Some (False, u)) = Some (newline \<in> set (ub_pend u), u1)"
    "ub_ok u1" "ub_pend u1 = ub_pend u" "ub_in u1 = ub_in u"
    using hl empty assms(1) by (cases "buf_cnt u = 0") auto
  obtain r u2 where cr: "lsi_b_stdin_canread u1 = (r, u2)" by force
  have u2: "ub_ok u2" "ub_pend u2 = ub_pend u" "ub_in u2 = ub_in u"
    using cr u1 by (auto simp: lsi_b_stdin_canread_def ub_ok_def ub_pend_def split: list.splits)
  show ?thesis
  proof (cases "newline \<in> set (ub_pend u)")
    case True
    with u1 show ?thesis
      by (intro exI [of _ True] exI [of _ u1]) (simp add: icat_user_canread_def ub_stream_def ub_rest_def)
  next
    case no: False
    show ?thesis
    proof (cases "r \<le> 0")
      case True
      with no u1 u2 cr show ?thesis
        by (intro exI [of _ False] exI [of _ u2]) (simp add: icat_user_canread_def ub_stream_def ub_rest_def)
    next
      case False
      have "length (ub_pend u2) < BUFSZ" using assms(3) no u2 by simp
      from make_room_spec [OF u2(1) this] obtain u3 where u3: "make_room u2 = Some (False, u3)" "ub_ok u3"
        "ub_pend u3 = ub_pend u2" "buf_rem u3 \<noteq> 0" "ub_in u3 = ub_in u2" by blast
      have st: "ub_stream u3 = ub_stream u" using u3 u2 by (simp add: ub_stream_def ub_rest_def)
      from fill_buf_spec [OF u3(2) _ u3(4)] assms(2) st obtain b u' where
        "fill_buf u3 = Some (b, u')" "ub_ok u'" "ub_stream u' = ub_stream u" "b \<longrightarrow> newline \<in> set (ub_pend u')"
        by metis
      then show ?thesis using no u1 cr False u3(1) by (simp add: icat_user_canread_def)
    qed
  qed
qed

lemma canread_again:
  assumes "ub_ok u" "cstr_ok (ub_pend u)" "newline \<in> set (ub_pend u)"
  shows "\<exists>v. icat_user_canread u = Some (True, v) \<and> ub_ok v \<and> ub_pend v = ub_pend u \<and> ub_head v = ub_head u \<and>
    ub_tail v = ub_tail u \<and> ub_in v = ub_in u"
proof -
  have "buf_cnt u \<noteq> 0" using assms(3) by (auto simp: buf_cnt_def ub_pend_def)
  with has_line_spec [OF assms(1,2)] assms(3) show ?thesis by (auto simp: icat_user_canread_def)
qed

lemma readline_spec:
  assumes ok: "ub_ok u" and cs: "cstr_ok (ub_pend u)" and p: "ub_pend u = line @ newline # rest"
    and nl: "newline \<notin> set line" and sz: "0 < destsz"
  shows "\<exists>u2. icat_user_readline destsz u = Some (length line + 1, take (destsz - 1) (line @ [newline]), u2) \<and>
    ub_ok u2 \<and> ub_pend u2 = rest \<and> ub_in u2 = ub_in u"
proof -
  obtain v where v: "icat_user_canread u = Some (True, v)" "ub_ok v" "ub_pend v = ub_pend u"
    "ub_head v = ub_head u" "ub_tail v = ub_tail u" "ub_in v = ub_in u"
    using canread_again [OF ok cs] p by auto
  let ?pre = "take (ub_head v) (ub_inbuf v)"
  obtain post where tb: "term_buf v = Some (v\<lparr>ub_inbuf := ?pre @ ub_pend v @ NUL # post\<rparr>)"
    and ok2: "ub_ok (v\<lparr>ub_inbuf := ?pre @ ub_pend v @ NUL # post\<rparr>)"
    using term_buf_spec [OF v(2)] by blast
  have lp: "length ?pre = ub_head v" using ub_split(2) [OF v(2)] .
  have tw: "takeWhile (\<lambda>x. x \<noteq> newline) (ub_pend v) = line"
    using nl unfolding v(3) p by (subst takeWhile_append2) auto
  have sc: "buf_strchr (?pre @ ub_pend v @ NUL # post) (ub_head v) newline = Some (Some (ub_head v + length line))"
    using buf_strchr_spec [of "ub_pend v" newline ?pre post] cs v(3) p tw lp by (simp add: newline_def)
  define u2 where "u2 = v\<lparr>ub_inbuf := ?pre @ ub_pend v @ NUL # post, ub_head := ub_head v + length line + 1\<rparr>"
  have tail: "ub_head v + length (ub_pend v) = ub_tail v" using ub_split(3) [OF v(2)] .
  have dr: "drop (ub_head v) (?pre @ ub_pend v @ NUL # post) = ub_pend v @ NUL # post"
    using lp by simp
  have tk: "destsz \<le> Suc (length line) \<Longrightarrow>
      take (destsz - Suc 0) (ub_pend v @ NUL # post) = take (destsz - Suc 0) (line @ [newline])"
    "\<not> destsz \<le> Suc (length line) \<Longrightarrow> take (Suc (length line)) (ub_pend v @ NUL # post) = line @ [newline]"
    using p v(3) sz by auto
  have "icat_user_readline destsz u = Some (length line + 1, take (destsz - 1) (line @ [newline]), u2)"
    using v(1) by (simp add: icat_user_readline_def u2_def tb sc dr tk del: drop_append take_append)
  moreover have "ub_ok u2" using ok2 tail p v(3) by (simp add: ub_ok_def u2_def)
  moreover have "ub_pend u2 = rest"
  proof -
    have "ub_tail u2 - ub_head u2 = length rest" using tail p v(3) by (simp add: u2_def)
    moreover have "drop (ub_head u2) (ub_inbuf u2) = rest @ NUL # post"
      using lp p v(3) by (simp add: u2_def)
    ultimately show ?thesis by (simp add: ub_pend_def)
  qed
  ultimately show ?thesis using v(6) by (auto simp: u2_def)
qed

text \<open>
  When \<open>icat_user_canread\<close> says that there is a line, the input not yet taken starts
  with one, and \<open>icat_user_readline\<close> takes exactly it: it gives its length, newline included,
  and as much of it as fits, and what follows it in the input is what is left.
\<close>

lemma readline_takes_line:
  assumes "ub_ok u" "cstr_ok (ub_stream u)" "icat_user_canread u = Some (True, u1)" "0 < destsz"
    and "length (ub_pend u) < BUFSZ \<or> newline \<in> set (ub_pend u)"
  shows "\<exists>line rest u2. newline \<notin> set line \<and> ub_stream u = line @ newline # rest \<and>
    icat_user_readline destsz u1 = Some (length line + 1, take (destsz - 1) (line @ [newline]), u2) \<and>
    ub_ok u2 \<and> ub_stream u2 = rest"
proof -
  from canread_spec [OF assms(1,2,5)] assms(3)
  have u1: "ub_ok u1" "ub_stream u1 = ub_stream u" "newline \<in> set (ub_pend u1)" by auto
  from split_list_first [OF u1(3)] obtain line post
    where p: "ub_pend u1 = line @ newline # post" "newline \<notin> set line" by blast
  have "cstr_ok (ub_pend u1)" using assms(2) u1(2) by (metis cstr_ok_simps(3) ub_stream_def)
  from readline_spec [OF u1(1) this p assms(4)] obtain u2 where
    "icat_user_readline destsz u1 = Some (length line + 1, take (destsz - 1) (line @ [newline]), u2)"
    "ub_ok u2" "ub_pend u2 = post" "ub_in u2 = ub_in u1" by blast
  then show ?thesis
    using p u1(2) by (intro exI [of _ line] exI [of _ "post @ ub_rest u1"] exI [of _ u2])
      (simp add: ub_stream_def ub_rest_def)
qed

section \<open>Properties\<close>

text \<open>
  C24: A line that fills the buffer makes \<open>icat_user_canread\<close> write behind it: 4096 characters
  without a newline are taken in, and when there is more to read the newline that is to cut
  the line goes to the last place of the array and the NUL one further.
\<close>

theorem user_overlong_line_overruns:
  assumes "length d = BUFSZ" "cstr_ok d" "newline \<notin> set d"
  shows "\<exists>u1. icat_user_canread (ubuf_init (Sel [0] # Sel [0] # rs) (In_data d # es)) = Some (False, u1) \<and>
    ub_pend u1 = d \<and> icat_user_canread u1 = None"
proof -
  let ?u = "ubuf_init (Sel [0] # Sel [0] # rs) (In_data d # es)"
  define u2 where "u2 = (ubuf_init (Sel [0] # rs) es)\<lparr>ub_inbuf := d @ [NUL], ub_tail := BUFSZ\<rparr>"
  have ok2: "ub_ok u2" and p2: "ub_pend u2 = d"
    using assms(1) by (simp_all add: u2_def ub_ok_def ub_pend_def ubuf_init_def)
  from has_line_spec [OF ok2] assms(2,3) p2 obtain u3 where u3: "has_line u2 = Some (False, u3)" "ub_ok u3"
    "ub_pend u3 = d" "ub_head u3 = 0" "ub_tail u3 = BUFSZ" "ub_can u3 = Sel [0] # rs" by (auto simp: u2_def ubuf_init_def)
  have ne: "d \<noteq> []" "BUFSZ \<noteq> 0" using assms(1) by (auto simp: BUFSZ_def)
  have wb: "wr_bytes (replicate (BUFSZ + 1) NUL) 0 d = Some (d @ [NUL])"
    using assms(1) by (subst wr_bytes_fit) (simp_all del: replicate.simps, simp)
  have "icat_user_canread ?u = Some (False, u3)"
    using assms(1) ne wb u3(1)
    by (simp add: icat_user_canread_def ubuf_init_def buf_cnt_def buf_rem_def lsi_b_stdin_canread_def
        make_room_def fill_buf_def lsi_b_stdin_read_def u2_def)
  moreover have "icat_user_canread u3 = None"
  proof -
    from has_line_spec [OF u3(2)] assms(2,3) u3 obtain u4 where u4: "has_line u3 = Some (False, u4)" "ub_ok u4"
      "ub_head u4 = 0" "ub_tail u4 = BUFSZ" "ub_can u4 = Sel [0] # rs" by auto
    then show ?thesis
      using u3(4,5) ne(2)
      by (simp add: icat_user_canread_def buf_cnt_def buf_rem_def lsi_b_stdin_canread_def make_room_def ub_ok_def)
  qed
  ultimately show ?thesis using u3(3) by blast
qed

theorem user_overlong_line_overruns_witness:
  "\<exists>u1. icat_user_canread (ubuf_init [Sel [0], Sel [0]] [In_data (replicate BUFSZ CHR ''x'')]) = Some (False, u1) \<and>
    ub_pend u1 = replicate BUFSZ CHR ''x'' \<and> icat_user_canread u1 = None"
  by (rule user_overlong_line_overruns) (simp_all add: cstr_ok_def newline_def)

text \<open>A buffer with two lines typed ahead\<close>

definition typed :: ubuf where
  "typed = \<lparr>ub_inbuf = (''hi'' @ [newline] @ ''you'' @ [newline]) @ replicate (BUFSZ - 6) NUL, ub_head = 0, ub_tail = 7,
     ub_eof = False, ub_can = [], ub_in = [In_data ''x'']\<rparr>"

lemma typed_pend: "ub_pend typed = ''hi'' @ [newline] @ ''you'' @ [newline]" "ub_ok typed"
  by (simp_all add: typed_def ub_pend_def ub_ok_def BUFSZ_def)

end
