(* ===== verification/Trackprops.thy ===== *)
theory Trackprops
  imports Listing Irc
begin

text \<open>
  The properties of the tracked base, and the concrete session they are applied to: a fresh
  context, tracking started, the user's own JOIN and that of another user.
\<close>

section \<open>JOIN\<close>

lemma h_JOIN_own:
  assumes inv: "ucb_ok s" and m: "tk msg 0 = Some pfx" "\<not> nargs < 3" "tk msg 2 = Some ch"
    and own: "mynick_is (pfx_nick pfx) s" and short: "length ch < MAX_CHAN_LEN" and orc: "orc_of s = []"
    and new: "bs_chan (base_of s) (cmkey (cm_of s) ch) = None"
  obtains ca s' where "h_JOIN msg nargs logon s = Some (0, s')" "ucb_ok s'" "casemap_of s' = casemap_of s" "orc_of s' = []"
    "bs_chan (base_of s') = (bs_chan (base_of s))(cmkey (cm_of s) ch \<mapsto> ca)" "bs_memb (base_of s') ca = Map.empty"
proof -
  obtain r s' where a: "lsi_ucb_add_chan ch s = Some (r, s')" "ucb_ok s'" "casemap_of s' = casemap_of s"
    "\<forall>ca. r = Some ca \<longrightarrow> bs_chan (base_of s') = (bs_chan (base_of s))(cmkey (cm_of s) ch \<mapsto> ca) \<and>
       bs_memb (base_of s') ca = Map.empty" "r \<noteq> None" "orc_of s' = []"
    using add_chan_ok [OF inv short] orc by metis
  then obtain ca where "r = Some ca" by auto
  with a show thesis using m own new chan_name_base [OF inv, of ch]
    by (intro that [of s' ca]) (simp_all add: h_JOIN_def)
qed

lemma h_JOIN_other:
  assumes inv: "ucb_ok s" and m: "tk msg 0 = Some pfx" "\<not> nargs < 3" "tk msg 2 = Some ch"
    and other: "\<not> mynick_is (pfx_nick pfx) s" and orc: "orc_of s = []"
    and q: "bs_chan (base_of s) (cmkey (cm_of s) ch) = Some ca"
  obtains s' where "h_JOIN msg nargs logon s = Some (0, s')" "ucb_ok s'" "casemap_of s' = casemap_of s" "orc_of s' = []"
    "bs_chan (base_of s') = bs_chan (base_of s)" "is_member s' ca (ident_key s pfx)" "pfx_of s' = pfx_of s"
proof -
  obtain ok s' where "join_user ca pfx [] s = Some (ok, s')" "ucb_ok s'" "casemap_of s' = casemap_of s"
    "bs_chan (base_of s') = bs_chan (base_of s)" "orc_of s = [] \<longrightarrow> ok \<and> orc_of s' = []"
    "ok \<longrightarrow> is_member s' ca (ident_key s pfx)" "ok \<longrightarrow> pfx_of s' = pfx_of s" by (rule join_user_ok [OF inv q, of "[]" pfx]) auto
  then show thesis using m other orc chan_name_base [OF inv, of ch] q
    by (intro that [of s']) (simp_all add: h_JOIN_def)
qed

section \<open>A session\<close>

definition fresh_ctx :: irc where
  "fresh_ctx = the (fst (irc_init []))"

definition fresh_st :: st where
  "fresh_st = \<lparr>st_irc = fresh_ctx,
     st_hp = \<lparr>hp_users = Map.empty, hp_chans = Map.empty, hp_membs = Map.empty, hp_next = 1, hp_tags = [], hp_alloc = []\<rparr>,
     st_net = \<lparr>nt_clk = [], nt_rx = [], nt_wr = [], nt_tx = [], nt_to = [], nt_sys = [], nt_closed = [], nt_rand = []\<rparr>\<rparr>"

lemma malloc_n_unlimited: "malloc_n n [] = (True, [])"
  by (induction n) simp_all

lemma fresh_ctx_simps [simp]:
  "ic_m005modepfx fresh_ctx = (''ov'', ''@+'')" "ic_m005chanmodes fresh_ctx = [''b'', ''k'', ''l'', ''psitnm'']"
  "ic_casemap fresh_ctx = 0" "ic_msghnds fresh_ctx = replicate 64 mh_free"
  by (simp_all add: fresh_ctx_def irc_init_def malloc_n_unlimited lsi_conn_init_def reset_state_def lsi_skmap_init_def
      CMAP_RFC1459_def del: replicate.simps)

lemma fresh_heap: "heap_empty fresh_st" "orc_of fresh_st = []" "casemap_of fresh_st = 0"
  by (simp_all add: heap_empty_def acc_defs fresh_st_def)

lemma fresh_modes: "modes_ok fresh_st"
proof -
  have "pfx_of fresh_st = (''ov'', ''@+'')" by (simp add: pfx_of_def fresh_st_def)
  moreover have "cls_of fresh_st CHR ''o'' = 0" "cls_of fresh_st CHR ''v'' = 0"
    by (simp_all add: cls_of_def fresh_st_def lsi_ut_classify_chanmode_def numeral_eq_Suc strchr_None_iff [symmetric])
  ultimately show ?thesis using fresh_heap(1) by (simp add: modes_ok_def heap_empty_def)
qed

definition track_st :: st where
  "track_st = snd (the (lsi_trk_init fresh_st))"

lemma track_st:
  shows track_st_init: "lsi_trk_init fresh_st = Some (True, track_st)" and track_st_ok: "ucb_ok track_st"
    and track_st_base: "base_of track_st = base_empty" and track_st_cm: "casemap_of track_st = 0"
    and track_st_orc: "orc_of track_st = []" and track_st_pfx: "pfx_of track_st = (''ov'', ''@+'')"
proof -
  have "ic_msghnds (st_irc fresh_st) \<noteq> []" by (simp add: fresh_st_def)
  from trk_init_ok [OF fresh_heap(1) fresh_modes this] fresh_heap(2)
  obtain s' where s': "lsi_trk_init fresh_st = Some (True, s')" "orc_of s' = []"
    "ucb_ok s' \<and> base_of s' = base_empty \<and> casemap_of s' = 0 \<and> pfx_of s' = pfx_of fresh_st" by (metis fresh_heap(3))
  then show "lsi_trk_init fresh_st = Some (True, track_st)" "ucb_ok track_st" "base_of track_st = base_empty" "casemap_of track_st = 0"
    "orc_of track_st = []" "pfx_of track_st = (''ov'', ''@+'')" by (simp_all add: track_st_def pfx_of_def fresh_st_def)
qed

text \<open>The user is called \<open>me\<close>; then \<open>me\<close> and \<open>bob\<close> join a channel.\<close>

definition own_st :: st where
  "own_st = track_st\<lparr>st_irc := (st_irc track_st)\<lparr>ic_mynick := ''me''\<rparr>\<rparr>"

definition join_msg :: "string \<Rightarrow> tokarr" where
  "join_msg pfx = msg_fields (Some pfx, ''JOIN'', [''#c''])"

definition chan_st :: st where
  "chan_st = snd (the (h_JOIN (join_msg ''me!m@mh'') 3 False own_st))"

definition busy_st :: st where
  "busy_st = snd (the (h_JOIN (join_msg ''bob!b@bh'') 3 False chan_st))"

lemma join_msg_simps [simp]:
  "tk (join_msg p) 0 = Some p" "tk (join_msg p) 2 = Some ''#c''" "msg_ac (join_msg p) = 3"
  by (simp_all add: join_msg_def msg_fields_def tk_def msg_ac_def numeral_eq_Suc)

lemma add_chan_mynick:
  "lsi_ucb_add_chan name s = Some (r, s') \<Longrightarrow> ic_mynick (st_irc s') = ic_mynick (st_irc s) \<and> pfx_of s' = pfx_of s"
  by (auto simp: pfx_of_def lsi_ucb_add_chan_def st_malloc_def fresh_def acc_defs Let_def split: prod.splits if_splits option.splits)

lemma nick_facts: "pfx_nick ''me!m@mh'' = ''me''" "pfx_nick ''bob!b@bh'' = ''bob''"
  "lsi_ut_istrcmp ''me'' ''me'' 0 = 0" "lsi_ut_istrcmp ''bob'' ''me'' 0 \<noteq> 0"
  by code_simp+

lemma same_base_irc:
  assumes "st_hp s' = st_hp s" "ic_chans (st_irc s') = ic_chans (st_irc s)" "ic_users (st_irc s') = ic_users (st_irc s)"
    "ic_casemap (st_irc s') = ic_casemap (st_irc s)" "ic_m005modepfx (st_irc s') = ic_m005modepfx (st_irc s)"
    "ic_m005chanmodes (st_irc s') = ic_m005chanmodes (st_irc s)"
  shows "same_base s s'"
proof -
  have eq: "users_of s' = users_of s" "chans_of s' = chans_of s" "casemap_of s' = casemap_of s" "cm_of s' = cm_of s"
    "orc_of s' = orc_of s" "next_of s' = next_of s" "user_at a s' = user_at a s" "chan_at a s' = chan_at a s"
    "memb_at a s' = memb_at a s" for a
    using assms by (simp_all add: acc_defs)
  have md: "pfx_of s' = pfx_of s" "cls_of s' = cls_of s" by (rule modes_upd; fact)+
  have "base_of s' = base_of s" by (simp only: base_of_def eq)
  then show ?thesis by (simp add: same_base_def st_ok_def modes_ok_def eq md)
qed

lemma own_st: "ucb_ok own_st" "base_of own_st = base_empty" "casemap_of own_st = 0" "orc_of own_st = []"
  "ic_mynick (st_irc own_st) = ''me''" "pfx_of own_st = (''ov'', ''@+'')"
proof -
  have "same_base track_st own_st" by (rule same_base_irc) (simp_all add: own_st_def)
  then show "ucb_ok own_st" by (rule same_base_ok) (rule track_st_ok)
  show "base_of own_st = base_empty" "casemap_of own_st = 0" "orc_of own_st = []"
    using \<open>same_base track_st own_st\<close> track_st by (auto simp: same_base_def)
qed (simp_all add: own_st_def pfx_of_def track_st_pfx [unfolded pfx_of_def])

lemma chan_st:
  obtains ca where "ucb_ok chan_st" "casemap_of chan_st = 0" "orc_of chan_st = []" "ic_mynick (st_irc chan_st) = ''me''"
    "bs_chan (base_of chan_st) (cmkey (g_cmap 0) ''#c'') = Some ca" "pfx_of chan_st = (''ov'', ''@+'')"
proof -
  have own: "mynick_is (pfx_nick ''me!m@mh'') own_st" by (simp add: mynick_is_def own_st nick_facts)
  obtain ca s' where s': "h_JOIN (join_msg ''me!m@mh'') 3 False own_st = Some (0, s')" "ucb_ok s'"
    "casemap_of s' = casemap_of own_st" "orc_of s' = []"
    "bs_chan (base_of s') = (bs_chan (base_of own_st))(cmkey (cm_of own_st) ''#c'' \<mapsto> ca)"
    by (rule h_JOIN_own [OF own_st(1) _ _ _ own, of "join_msg ''me!m@mh''" 3 "''#c''" False])
      (simp_all add: own_st base_empty_def MAX_CHAN_LEN_def)
  then have eq: "chan_st = s'" by (simp add: chan_st_def)
  have "ic_mynick (st_irc s') = ''me'' \<and> pfx_of s' = (''ov'', ''@+'')"
    using s'(1) own own_st(5,6) by (auto simp: h_JOIN_def split: option.splits prod.splits) (metis add_chan_mynick)+
  then show thesis using that s' eq by (simp add: own_st cm_of_def)
qed

lemma busy_st:
  obtains ca where "ucb_ok busy_st" "casemap_of busy_st = 0" "orc_of busy_st = []"
    "bs_chan (base_of busy_st) (cmkey (g_cmap 0) ''#c'') = Some ca" "is_member busy_st ca (cmkey (g_cmap 0) ''bob'')" "pfx_of busy_st = (''ov'', ''@+'')"
proof -
  obtain ca where c: "ucb_ok chan_st" "casemap_of chan_st = 0" "orc_of chan_st = []" "ic_mynick (st_irc chan_st) = ''me''"
    "bs_chan (base_of chan_st) (cmkey (g_cmap 0) ''#c'') = Some ca" "pfx_of chan_st = (''ov'', ''@+'')" by (rule chan_st)
  have oth: "\<not> mynick_is (pfx_nick ''bob!b@bh'') chan_st" by (simp add: mynick_is_def c nick_facts)
  obtain s' where s': "h_JOIN (join_msg ''bob!b@bh'') 3 False chan_st = Some (0, s')" "ucb_ok s'"
    "casemap_of s' = casemap_of chan_st" "orc_of s' = []" "bs_chan (base_of s') = bs_chan (base_of chan_st)"
    "is_member s' ca (ident_key chan_st ''bob!b@bh'')" "pfx_of s' = pfx_of chan_st"
    by (rule h_JOIN_other [OF c(1) _ _ _ oth, of "join_msg ''bob!b@bh''" 3 "''#c''" ca False])
      (simp_all add: c cm_of_def)
  have "cmkey (g_cmap 0) ''bob!b@bh'' = cmkey (g_cmap 0) ''bob''" by code_simp
  moreover have "pfx_nick ''bob!b@bh'' = ''bob''" by (rule nick_facts)
  ultimately have "ident_key chan_st ''bob!b@bh'' = cmkey (g_cmap 0) ''bob''"
    by (simp add: ident_key_def pfx_nick_def cm_of_def c)
  then show thesis using that s' c(2,5,6) by (simp add: busy_st_def)
qed

section \<open>Properties\<close>



text \<open>
  C8: A JOIN of another user to a channel that is tracked succeeds when memory lasts: the user is
  then listed, under the nickname of the prefix, and is a member of that channel; no channel is lost.
\<close>

theorem join_adds_member:
  assumes "ucb_ok s" "tk msg 0 = Some pfx" "3 \<le> nargs" "tk msg 2 = Some ch" "\<not> mynick_is (pfx_nick pfx) s"
    and "orc_of s = []" "bs_chan (base_of s) (cmkey (cm_of s) ch) = Some ca"
  shows "\<exists>s'. h_JOIN msg nargs logon s = Some (0, s') \<and> ucb_ok s' \<and> bs_chan (base_of s') = bs_chan (base_of s) \<and>
    is_member s' ca (ident_key s pfx)"
  using h_JOIN_other [OF assms(1,2) _ assms(4-7)] assms(3) by (metis linorder_not_less)

theorem join_adds_member_witness:
  "\<exists>ca s'. h_JOIN (join_msg ''bob!b@bh'') 3 False chan_st = Some (0, s') \<and> is_member s' ca (ident_key chan_st ''bob!b@bh'')"
proof -
  obtain ca where c: "ucb_ok chan_st" "casemap_of chan_st = 0" "orc_of chan_st = []" "ic_mynick (st_irc chan_st) = ''me''"
    "bs_chan (base_of chan_st) (cmkey (g_cmap 0) ''#c'') = Some ca" by (rule chan_st)
  have "\<not> mynick_is (pfx_nick ''bob!b@bh'') chan_st" by (simp add: mynick_is_def c nick_facts)
  from join_adds_member [OF c(1) _ _ _ this c(3), of "join_msg ''bob!b@bh''" 3 "''#c''" ca False] c(2,5)
  show ?thesis by (auto simp: cm_of_def)
qed

text \<open>
  C9: \<open>lsi_ucb_drop_memb\<close> refines the abstract step: the membership leaves the channel, the user's
  count goes down, and a user whose count reaches 0 is purged when the caller asks for it.  It
  reports whether there was a membership.
\<close>

theorem drop_memb_refines_base:
  assumes "ucb_ok s" "bs_chan (base_of s) q = Some ca" "user_at ua s = Some u"
  defines "k \<equiv> cmkey (cm_of s) (us_nick u)"
  shows "\<exists>s'. lsi_ucb_drop_memb ca ua purge s = Some (bs_memb (base_of s) ca k \<noteq> None, s') \<and> ucb_ok s' \<and>
    base_of s' = bs_drop_memb purge ca k (base_of s)"
  unfolding k_def by (rule drop_memb_ok [OF assms(1-3), of purge]) metis

theorem drop_memb_refines_base_witness:
  "\<exists>ca ua s'. lsi_ucb_drop_memb ca ua True busy_st = Some (True, s') \<and> bs_memb (base_of s') ca (cmkey (g_cmap 0) ''bob'') = None"
proof -
  obtain ca where b: "ucb_ok busy_st" "casemap_of busy_st = 0" "bs_chan (base_of busy_st) (cmkey (g_cmap 0) ''#c'') = Some ca"
    "is_member busy_st ca (cmkey (g_cmap 0) ''bob'')" by (rule busy_st)
  then obtain ma ua where m: "bs_user (base_of busy_st) (cmkey (g_cmap 0) ''bob'') = Some ua"
    "bs_memb (base_of busy_st) ca (cmkey (g_cmap 0) ''bob'') = Some ma" by (auto simp: is_member_def)
  obtain u where u: "user_at ua busy_st = Some u" "cmkey (cm_of busy_st) (us_nick u) = cmkey (g_cmap 0) ''bob''"
    by (rule listed_user [OF b(1) m(1)])
  from drop_memb_refines_base [OF b(1,3) u(1), of True] m(2) u(2)
  obtain s' where "lsi_ucb_drop_memb ca ua True busy_st = Some (True, s')"
    "base_of s' = bs_drop_memb True ca (cmkey (g_cmap 0) ''bob'') (base_of busy_st)" by auto
  then show ?thesis by (intro exI [of _ ca] exI [of _ ua] exI [of _ s']) (simp add: bs_drop_memb_memb)
qed

text \<open>
  C13: \<open>lsi_ucb_drop_user\<close> takes the user out of the list and frees it, and since the base stays well
  formed no membership refers to it any more; the other users and all channels stay listed.
\<close>

theorem drop_user_forgets:
  assumes "ucb_ok s" "bs_user (base_of s) k = Some ua"
  shows "\<exists>s'. lsi_ucb_drop_user ua s = Some (True, s') \<and> ucb_ok s' \<and> user_at ua s' = None \<and>
    bs_user (base_of s') = (bs_user (base_of s))(k := None) \<and> bs_chan (base_of s') = bs_chan (base_of s) \<and>
    (\<forall>ca \<in> ran (bs_chan (base_of s')). \<forall>j ma. bs_memb (base_of s') ca j = Some ma \<longrightarrow> bs_who (base_of s') ma \<noteq> Some ua)"
proof -
  obtain s' where s': "lsi_ucb_drop_user ua s = Some (True, s')" "ucb_ok s'" "user_at ua s' = None"
    "bs_user (base_of s') = (bs_user (base_of s))(k := None)" "bs_chan (base_of s') = bs_chan (base_of s)"
    using drop_user_ok [OF assms] by metis
  have "bs_who (base_of s') ma \<noteq> Some ua" if "ca \<in> ran (bs_chan (base_of s'))" "bs_memb (base_of s') ca j = Some ma" for ca j ma
  proof -
    have "member (base_of s') {} ca j ma" using that by (simp add: member_def)
    from base_member_who [OF ucb_base [OF s'(2) [unfolded ucb_ok_def]] this] s'(3) show ?thesis by (auto simp: base_of_sel)
  qed
  with s' show ?thesis by blast
qed

theorem drop_user_forgets_witness:
  "\<exists>ua s'. bs_user (base_of busy_st) (cmkey (g_cmap 0) ''bob'') = Some ua \<and> lsi_ucb_drop_user ua busy_st = Some (True, s') \<and>
     user_at ua s' = None"
proof -
  obtain ca where b: "ucb_ok busy_st" "is_member busy_st ca (cmkey (g_cmap 0) ''bob'')" by (rule busy_st)
  then obtain ua where u: "bs_user (base_of busy_st) (cmkey (g_cmap 0) ''bob'') = Some ua" by (auto simp: is_member_def)
  from drop_user_forgets [OF b(1) u] u show ?thesis by blast
qed

text \<open>
  \<open>lsi_trk_init\<close> on an empty heap registers exactly the sixteen tracking handlers beside those
  there were and starts with the empty base; when it fails no handler of the tracking module is left.
\<close>

theorem trk_init_registers:
  assumes "heap_empty s" "modes_ok s" "ic_msghnds (st_irc s) \<noteq> []"
  shows "\<exists>ok s'. lsi_trk_init s = Some (ok, s') \<and> (orc_of s = [] \<longrightarrow> ok) \<and>
    (if ok then base_of s' = base_empty \<and> live_hnds s' = live_hnds s + trk_slots
     else live_hnds s' = filter_mset (\<lambda>h. mh_module h \<noteq> ''track'') (live_hnds s))"
  by (rule trk_init_ok [OF assms]) auto

theorem trk_init_registers_witness: "\<exists>s'. lsi_trk_init fresh_st = Some (True, s') \<and> live_hnds s' = trk_slots"
proof -
  have "ic_msghnds (st_irc fresh_st) \<noteq> []" "live_hnds fresh_st = {#}" by (simp_all add: fresh_st_def live_hnds_def del: replicate.simps)
  with trk_init_registers [OF fresh_heap(1) fresh_modes] fresh_heap(2) show ?thesis by force
qed

text \<open>
  C16: Listing the channels and the users never fails and changes nothing but a cursor; each call fills
  as many elements as there are or as the array holds, never lists one twice, and lists all of them
  when the array is large enough.
\<close>

theorem listing_complete:
  assumes "ucb_ok s"
  shows "\<exists>cs s1 us s2. irc_all_chans n s = Some (cs, s1) \<and> irc_all_users n s1 = Some (us, s2) \<and>
    base_of s2 = base_of s \<and> ucb_ok s2 \<and>
    length cs = min n (the (irc_num_chans s)) \<and> distinct (map (\<lambda>r. cmkey (cm_of s) (cr_name r)) cs) \<and>
    (the (irc_num_chans s) \<le> n \<longrightarrow>
       set cs = {mkchanrep c | q ca c. bs_chan (base_of s) q = Some ca \<and> chan_at ca s = Some c}) \<and>
    length us = min n (irc_num_users s1) \<and> distinct (map (\<lambda>r. cmkey (cm_of s1) (ur_nick r)) us) \<and>
    (irc_num_users s1 \<le> n \<longrightarrow>
       set us = {mkuserrep u None | q ua u. bs_user (base_of s1) q = Some ua \<and> user_at ua s1 = Some u})"
proof -
  obtain cs s1 where 1: "irc_all_chans n s = Some (cs, s1)" "ucb_ok s1" "base_of s1 = base_of s"
    "distinct (map (\<lambda>r. cmkey (cm_of s) (cr_name r)) cs)" "length cs = min n (the (irc_num_chans s))"
    "the (irc_num_chans s) \<le> n \<longrightarrow>
       set cs = {mkchanrep c | q ca c. bs_chan (base_of s) q = Some ca \<and> chan_at ca s = Some c}"
    by (rule all_chans_ok [OF assms])
  obtain us s2 where 2: "irc_all_users n s1 = Some (us, s2)" "ucb_ok s2" "base_of s2 = base_of s1"
    "distinct (map (\<lambda>r. cmkey (cm_of s1) (ur_nick r)) us)" "length us = min n (irc_num_users s1)"
    "irc_num_users s1 \<le> n \<longrightarrow>
       set us = {mkuserrep u None | q ua u. bs_user (base_of s1) q = Some ua \<and> user_at ua s1 = Some u}"
    by (rule all_users_ok [OF 1(2)])
  have "base_of s2 = base_of s" using 1(3) 2(3) by simp
  with 1(1) 2(1) show ?thesis using 2(2) 1(5) 1(4) 1(6) 2(5) 2(4) 2(6) by (intro exI conjI)
qed

theorem listing_complete_witness:
  "\<exists>cs s1 us s2. irc_all_chans 8 busy_st = Some (cs, s1) \<and> irc_all_users 8 s1 = Some (us, s2) \<and> ucb_ok s2 \<and>
     distinct (map (\<lambda>r. cmkey (cm_of busy_st) (cr_name r)) cs)"
proof -
  have "ucb_ok busy_st" by (rule busy_st)
  from listing_complete [OF this, of 8] show ?thesis by (elim exE conjE) (intro exI conjI; assumption)
qed

text \<open>
  Listing the members of a channel gives, for every membership the channel has, the user's data
  with the prefixes of that membership.
\<close>

theorem members_complete:
  assumes "ucb_ok s" "bs_chan (base_of s) (cmkey (cm_of s) ch) = Some ca"
  shows "\<exists>rs s'. irc_all_members ch n s = Some (rs, s') \<and> ucb_ok s' \<and> base_of s' = base_of s \<and>
    length rs = min n (card (dom (bs_memb (base_of s) ca))) \<and>
    (card (dom (bs_memb (base_of s) ca)) \<le> n \<longrightarrow> set rs = {mkuserrep u (Some (mb_modepfx m)) | k ma m u.
       bs_memb (base_of s) ca k = Some ma \<and> memb_at ma s = Some m \<and> user_at (mb_u m) s = Some u})"
  by (rule all_members_ok [OF assms, of n], intro exI conjI; assumption)

theorem members_complete_witness: "\<exists>rs s'. irc_all_members ''#c'' 8 busy_st = Some (rs, s') \<and> ucb_ok s'"
proof -
  obtain ca where b: "ucb_ok busy_st" "casemap_of busy_st = 0" "bs_chan (base_of busy_st) (cmkey (g_cmap 0) ''#c'') = Some ca"
    by (rule busy_st)
  then have "bs_chan (base_of busy_st) (cmkey (cm_of busy_st) ''#c'') = Some ca" by (simp add: cm_of_def)
  from members_complete [OF b(1) this, of 8] show ?thesis by (elim exE conjE) (intro exI conjI; assumption)
qed

end
