(* ===== verification/Icatprops.thy ===== *)
theory Icatprops
  imports Icatcore Connprops Userprops Trackprops
begin

text \<open>
  Properties of \<open>icat\<close>: its queue of lines keeps the order and the rate, the heartbeat notices a
  silent server, and what the user types reaches the queue.
\<close>

section \<open>Queues\<close>

text \<open>
  What a queue promises its clients: \<open>push\<close> adds at the end (a fitted copy), \<open>pop\<close> takes the
  first line when it answers 1 and nothing otherwise.
\<close>

fun queue_run :: "(string \<Rightarrow> 's \<Rightarrow> 's option) \<Rightarrow> ('s \<Rightarrow> int \<times> 's) \<Rightarrow> ('s \<Rightarrow> string list) \<Rightarrow>
    string option list \<Rightarrow> 's \<Rightarrow> (string list \<times> 's) option" where
  "queue_run push pop items [] s = Some ([], s)"
| "queue_run push pop items (Some x # ops) s = do { s1 \<leftarrow> push x s; queue_run push pop items ops s1 }"
| "queue_run push pop items (None # ops) s =
     (let (r, s1) = pop s in
      if r = -1 then None
      else do {
        (out, s2) \<leftarrow> queue_run push pop items ops s1;
        Some (if r = 1 then hd (items s) # out else out, s2) })"

locale line_queue =
  fixes push :: "string \<Rightarrow> 's \<Rightarrow> 's option" and pop :: "'s \<Rightarrow> int \<times> 's"
    and items :: "'s \<Rightarrow> string list" and fit :: "string \<Rightarrow> string"
    and online :: "'s \<Rightarrow> bool" and wire :: "'s \<Rightarrow> string" and enc :: "string \<Rightarrow> string"
  assumes push_items: "push x s = Some s' \<Longrightarrow> items s' = items s @ [fit x]"
    and push_wire: "push x s = Some s' \<Longrightarrow> online s' = online s \<and> wire s' = wire s"
    and pop_one: "pop s = (1, s') \<Longrightarrow> online s \<Longrightarrow>
      \<exists>x. items s = x # items s' \<and> online s' \<and> wire s' = wire s @ enc x"
    and pop_none: "pop s = (r, s') \<Longrightarrow> online s \<Longrightarrow> r \<noteq> 1 \<Longrightarrow> r \<noteq> -1 \<Longrightarrow>
      items s' = items s \<and> online s' \<and> wire s' = wire s"
begin

lemma run_fifo:
  "queue_run push pop items ops s = Some (out, s') \<Longrightarrow> online s \<Longrightarrow>
   items s @ map fit (List.map_filter id ops) = out @ items s' \<and> wire s' = wire s @ concat (map enc out)"
proof (induction ops arbitrary: s out)
  case (Cons op ops)
  show ?case
  proof (cases op)
    case (Some x)
    with Cons.prems obtain s1 where st: "push x s = Some s1" "queue_run push pop items ops s1 = Some (out, s')" by auto
    with push_wire [OF st(1)] Cons.prems have "online s1" by simp
    from Cons.IH [OF st(2) this] push_items [OF st(1)] push_wire [OF st(1)] Some show ?thesis
      by (simp add: map_filter_simps)
  next
    case None
    obtain r s1 where p: "pop s = (r, s1)" by force
    with Cons.prems None obtain out1 where q: "queue_run push pop items ops s1 = Some (out1, s')" "r \<noteq> -1"
      "out = (if r = 1 then hd (items s) # out1 else out1)" by (auto split: if_splits)
    show ?thesis
    proof (cases "r = 1")
      case True
      with pop_one p Cons.prems obtain x where x: "items s = x # items s1" "online s1" "wire s1 = wire s @ enc x" by auto
      from Cons.IH [OF q(1) x(2)] x q(3) True None show ?thesis by (simp add: map_filter_simps)
    next
      case False
      note x = pop_none [OF p Cons.prems(2) False q(2)]
      from Cons.IH [OF q(1)] x q(3) False None show ?thesis by (simp add: map_filter_simps)
    qed
  qed
qed (simp add: map_filter_simps)

end

section \<open>Writing to the server\<close>

definition ia_wire :: "icat \<Rightarrow> string" where
  "ia_wire a = concat (nt_tx (st_net (ia_st a)))"

text \<open>Online, for \<open>icat\<close> and for the library\<close>

definition ia_online :: "icat \<Rightarrow> bool" where
  "ia_online a \<longleftrightarrow> ia_on a \<and> co_online (ic_con (ia_irc a))"

lemma irc_write_result:
  assumes "irc_write line s = (ok, s')" "co_online (ic_con (st_irc s))"
  shows "if ok then st_irc s' = st_irc s \<and> st_hp s' = st_hp s \<and>
      concat (nt_tx (st_net s')) = concat (nt_tx (st_net s)) @ wire_line line
    else \<not> co_online (ic_con (st_irc s')) \<and> co_sck (ic_con (st_irc s')) = -1"
proof -
  obtain r c w where wr: "lsi_conn_write line (ic_con (st_irc s)) (st_net s) = (r, c, w)" using prod_cases3 by blast
  note res = conn_write_line [OF wr assms(2)]
  show ?thesis
  proof (cases r)
    case True
    with assms(1) wr res show ?thesis by (auto simp: irc_write_def st_write_def st_conn_def)
  next
    case False
    then have "(ok, s') = (False, irc_reset (s\<lparr>st_irc := (st_irc s)\<lparr>ic_con := c\<rparr>, st_net := w\<rparr>))"
      using assms(1) wr by (simp add: irc_write_def st_write_def st_conn_def)
    then show ?thesis by (auto simp: irc_reset_def st_conn_def lsi_conn_reset_def Let_def)
  qed
qed

lemma ia_tstamp_frame:
  assumes "ia_tstamp a = (t, a')"
  shows "ia_wire a' = ia_wire a" "ia_outQ a' = ia_outQ a" "ia_irc a' = ia_irc a" "ia_on a' = ia_on a"
    "ia_sett a' = ia_sett a" "ia_gotpong a' = ia_gotpong a" "ia_nextsend a' = ia_nextsend a" "ia_nexthb a' = ia_nexthb a"
  using assms by (auto simp: ia_tstamp_def lsi_b_tstamp_us_def ia_wire_def ia_irc_def Let_def split: list.splits)

lemma to_srv_result:
  assumes "to_srv line a = (ok, a')" "ia_online a"
  shows "ia_outQ a' = ia_outQ a \<and> ia_sett a' = ia_sett a \<and> ia_on a' = ia_on a \<and> ia_gotpong a' = ia_gotpong a \<and>
    ia_nexthb a' = ia_nexthb a \<and>
    (if ok then ia_online a' \<and> ia_wire a' = ia_wire a @ wire_line line
     else co_sck (ic_con (ia_irc a')) = -1 \<and> \<not> co_online (ic_con (ia_irc a')))"
proof -
  obtain r s where w: "irc_write line (ia_st a) = (r, s)" by force
  from irc_write_result [OF w] assms w show ?thesis
    by (auto simp: to_srv_def ia_online_def ia_irc_def ia_wire_def)
qed

section \<open>The send queue\<close>

lemma sendq_due_frame:
  "sendq_due a = (due, a') \<Longrightarrow> ia_wire a' = ia_wire a \<and> ia_outQ a' = ia_outQ a \<and> ia_irc a' = ia_irc a \<and>
   ia_on a' = ia_on a \<and> ia_sett a' = ia_sett a"
  by (auto simp: sendq_due_def Let_def split: if_splits prod.splits dest: ia_tstamp_frame)

lemma note_quit_frame:
  "ia_wire (note_quit line a) = ia_wire a \<and> ia_outQ (note_quit line a) = ia_outQ a \<and>
   ia_irc (note_quit line a) = ia_irc a \<and> ia_on (note_quit line a) = ia_on a \<and> ia_sett (note_quit line a) = ia_sett a"
  by (auto simp: note_quit_def Let_def ia_wire_def ia_irc_def ia_tstamp_def lsi_b_tstamp_us_def split: prod.splits list.splits)

lemma use_freeline_frame:
  "ia_wire (use_freeline a) = ia_wire a \<and> ia_outQ (use_freeline a) = ia_outQ a \<and> ia_irc (use_freeline a) = ia_irc a \<and>
   ia_on (use_freeline a) = ia_on a \<and> g_linedelay (ia_sett (use_freeline a)) = g_linedelay (ia_sett a)"
  by (auto simp: use_freeline_def ia_wire_def ia_irc_def)

lemma process_sendq_sent:
  assumes "process_sendq a = (r, a')" "ia_online a" "r = 1"
  shows "\<exists>x t a4. ia_outQ a = x # ia_outQ a' \<and> ia_online a' \<and> ia_wire a' = ia_wire a @ wire_line x \<and>
    ia_tstamp a4 = (t, a'\<lparr>ia_nextsend := ia_nextsend a4\<rparr>) \<and> ia_nextsend a' = t + g_linedelay (ia_sett a')"
proof -
  from assms(1,3) obtain x rest where q: "ia_outQ a = x # rest"
    by (cases "ia_outQ a") (auto simp: process_sendq_def)
  obtain due a1 where d: "sendq_due a = (due, a1)" by force
  obtain ok a2 where w: "to_srv x a1 = (ok, a2)" by force
  define a3 where "a3 = use_freeline (note_quit x (a2\<lparr>ia_outQ := rest\<rparr>))"
  obtain t a4 where t: "ia_tstamp a3 = (t, a4)" by force
  from assms(1,3) q d w t have e: "ok" "a' = a4\<lparr>ia_nextsend := t + g_linedelay (ia_sett a4)\<rparr>"
    by (auto simp: process_sendq_def a3_def Let_def split: if_splits)
  have on1: "ia_online a1" using sendq_due_frame [OF d] assms(2) by (simp add: ia_online_def)
  note fr = to_srv_result [OF w on1]
  have f3: "ia_wire a3 = ia_wire a2 \<and> ia_outQ a3 = rest \<and> ia_irc a3 = ia_irc a2 \<and> ia_on a3 = ia_on a2"
    using note_quit_frame [of x "a2\<lparr>ia_outQ := rest\<rparr>"] use_freeline_frame [of "note_quit x (a2\<lparr>ia_outQ := rest\<rparr>)"]
    by (simp add: a3_def ia_wire_def ia_irc_def)
  have f4: "ia_wire a' = ia_wire a4 \<and> ia_outQ a' = ia_outQ a4 \<and> ia_irc a' = ia_irc a4 \<and> ia_on a' = ia_on a4 \<and>
      ia_sett a' = ia_sett a4 \<and> ia_nextsend a' = t + g_linedelay (ia_sett a4)"
    unfolding e(2) by (simp add: ia_wire_def ia_irc_def)
  have ts: "ia_tstamp a3 = (t, a'\<lparr>ia_nextsend := ia_nextsend a3\<rparr>)"
    using t ia_tstamp_frame(7) [OF t] unfolding e(2) by simp
  show ?thesis
    using q e(1) fr f3 f4 ts ia_tstamp_frame [OF t] sendq_due_frame [OF d]
    by (intro exI [of _ x] exI [of _ t] exI [of _ a3]) (auto simp: ia_online_def)
qed

lemma process_sendq_idle:
  assumes "process_sendq a = (r, a')" "r \<noteq> 1" "r \<noteq> -1"
  shows "ia_outQ a' = ia_outQ a \<and> ia_wire a' = ia_wire a \<and> (ia_online a' \<longleftrightarrow> ia_online a)"
proof (cases "ia_outQ a")
  case (Cons x rest)
  obtain due a1 where d: "sendq_due a = (due, a1)" by force
  with assms Cons have "a' = a1" by (auto simp: process_sendq_def Let_def split: if_splits prod.splits)
  with sendq_due_frame [OF d] show ?thesis by (simp add: ia_online_def)
qed (use assms in \<open>simp add: process_sendq_def\<close>)

lemma serv_printf_result:
  "icat_serv_printf txt a = Some a' \<Longrightarrow> ia_outQ a' = ia_outQ a @ [ncpy 1024 txt] \<and> ia_wire a' = ia_wire a \<and>
   ia_irc a' = ia_irc a \<and> ia_on a' = ia_on a"
  by (auto simp: icat_serv_printf_def st_strdup_def st_malloc_def Let_def ia_wire_def ia_irc_def
      split: prod.splits if_splits option.splits)

lemma serv_printf_user: "icat_serv_printf txt a = Some a' \<Longrightarrow> ia_user a' = ia_user a"
  by (auto simp: icat_serv_printf_def split: prod.splits if_splits option.splits)

interpretation sendq: line_queue icat_serv_printf process_sendq ia_outQ "ncpy 1024" ia_online ia_wire wire_line
proof
  fix x s s'
  assume a: "icat_serv_printf x s = Some s'"
  from serv_printf_result [OF a] show "ia_outQ s' = ia_outQ s @ [ncpy 1024 x]" by blast
  from serv_printf_result [OF a] show "ia_online s' = ia_online s \<and> ia_wire s' = ia_wire s" by (simp add: ia_online_def)
next
  fix s s'
  assume a: "process_sendq s = (1, s')" "ia_online s"
  from process_sendq_sent [OF a refl]
  show "\<exists>x. ia_outQ s = x # ia_outQ s' \<and> ia_online s' \<and> ia_wire s' = ia_wire s @ wire_line x" by blast
next
  fix s r s'
  assume a: "process_sendq s = (r, s')" and on: "ia_online s" and r: "r \<noteq> 1" "r \<noteq> -1"
  from process_sendq_idle [OF a r] on
  show "ia_outQ s' = ia_outQ s \<and> ia_online s' \<and> ia_wire s' = ia_wire s" by simp
qed

section \<open>The clock\<close>

definition ia_clk :: "icat \<Rightarrow> u64 list" where
  "ia_clk a = nt_clk (st_net (ia_st a))"

lemma send_wrap_clk: "send_wrap shnd buf w = (n, w') \<Longrightarrow> nt_clk w' = nt_clk w"
  by (auto simp: send_wrap_def lsi_b_write_ssl_def lsi_b_write_def Let_def split: prod.splits if_splits)

lemma io_write_clk: "lsi_io_write shnd buf w = (ok, w') \<Longrightarrow> nt_clk w' = nt_clk w"
  by (auto simp: lsi_io_write_def write_str_def Let_def split: prod.splits if_splits dest!: send_wrap_clk)

lemma write_raw_clk: "lsi_conn_write_raw buf ctx w = (ok, ctx', w') \<Longrightarrow> nt_clk w' = nt_clk w"
  by (auto simp: lsi_conn_write_raw_def lsi_conn_reset_def lsi_b_close_def Let_def
      split: prod.splits if_splits dest!: io_write_clk)

lemma irc_write_clk: "irc_write line s = (ok, s') \<Longrightarrow> nt_clk (st_net s') = nt_clk (st_net s)"
  by (auto simp: irc_write_def irc_reset_def st_write_def st_conn_def lsi_conn_write_def lsi_conn_reset_def
      lsi_b_close_def Let_def split: prod.splits if_splits dest!: write_raw_clk)

lemma to_srv_clk: "to_srv line a = (ok, a') \<Longrightarrow> ia_clk a' = ia_clk a"
  by (auto simp: to_srv_def ia_clk_def split: prod.splits dest: irc_write_clk)

lemma ia_tstamp_clk:
  "ia_tstamp a = (t, a') \<Longrightarrow> ia_clk a' \<noteq> [] \<Longrightarrow> ia_clk a = t # ia_clk a'"
  by (auto simp: ia_tstamp_def lsi_b_tstamp_us_def ia_clk_def split: list.splits)

lemma ia_tstamp_Cons: "ia_clk a = t # ts \<Longrightarrow> fst (ia_tstamp a) = t"
  by (simp add: ia_tstamp_def lsi_b_tstamp_us_def ia_clk_def Let_def)

text \<open>Readings are taken from the front.\<close>

definition clk_suffix :: "icat \<Rightarrow> icat \<Rightarrow> bool" where
  "clk_suffix a a' \<longleftrightarrow> (\<exists>pre. ia_clk a = pre @ ia_clk a')"

lemma tstamp_suffix: "ia_tstamp a = (t, a') \<Longrightarrow> clk_suffix a a'"
  by (auto simp: ia_tstamp_def lsi_b_tstamp_us_def ia_clk_def clk_suffix_def split: list.splits)

lemma clk_suffix_trans: "clk_suffix a b \<Longrightarrow> clk_suffix b c \<Longrightarrow> clk_suffix a c"
  by (auto simp: clk_suffix_def)

lemma clk_suffix_same: "ia_clk b = ia_clk a \<Longrightarrow> clk_suffix a b"
  by (auto simp: clk_suffix_def)

lemma sendq_due_suffix: "sendq_due a = (due, a') \<Longrightarrow> clk_suffix a a'"
  by (auto simp: sendq_due_def Let_def clk_suffix_same split: if_splits prod.splits dest: tstamp_suffix)

lemma note_quit_suffix: "clk_suffix a (note_quit line a)"
proof (cases "lsi_b_strncasecmp line ''QUIT'' 4 = Some 0")
  case True
  obtain t b where t: "ia_tstamp a = (t, b)" by force
  have "clk_suffix b (b\<lparr>ia_quitat := t\<rparr>)" by (simp add: clk_suffix_same ia_clk_def)
  with clk_suffix_trans tstamp_suffix [OF t] True t show ?thesis by (simp add: note_quit_def)
qed (simp add: note_quit_def clk_suffix_same)

lemma process_sendq_clk:
  assumes "process_sendq a = (1, a')" "ia_clk a' \<noteq> []"
  shows "\<exists>pre t. ia_clk a = pre @ t # ia_clk a' \<and> ia_nextsend a' = t + g_linedelay (ia_sett a')"
proof -
  from assms(1) obtain x rest where q: "ia_outQ a = x # rest" by (cases "ia_outQ a") (auto simp: process_sendq_def)
  obtain due a1 where d: "sendq_due a = (due, a1)" by force
  obtain ok a2 where w: "to_srv x a1 = (ok, a2)" by force
  define a2' where "a2' = a2\<lparr>ia_outQ := rest\<rparr>"
  define a3 where "a3 = use_freeline (note_quit x a2')"
  obtain t a4 where t: "ia_tstamp a3 = (t, a4)" by force
  from assms(1) q d w t have e: "a' = a4\<lparr>ia_nextsend := t + g_linedelay (ia_sett a4)\<rparr>"
    by (auto simp: process_sendq_def a3_def a2'_def Let_def split: if_splits)
  have "ia_clk a3 = t # ia_clk a4" using ia_tstamp_clk [OF t] assms(2) by (simp add: e ia_clk_def)
  moreover have "clk_suffix a a3"
  proof -
    have "clk_suffix a1 a2'" using to_srv_clk [OF w] by (simp add: a2'_def clk_suffix_same ia_clk_def)
    moreover have "clk_suffix (note_quit x a2') a3" by (simp add: a3_def use_freeline_def clk_suffix_same ia_clk_def)
    ultimately show ?thesis
      using sendq_due_suffix [OF d] note_quit_suffix [of a2' x] by (blast intro: clk_suffix_trans)
  qed
  ultimately show ?thesis by (auto simp: clk_suffix_def e ia_clk_def)
qed

section \<open>Properties\<close>

text \<open>
  C25: The queue of lines is first in, first out: after any mixture of \<open>icat_serv_printf\<close> and
  \<open>process_sendq\<close> (none of which failed), what has gone to the server is, in order, the first
  of the lines queued, each with its line break, and the rest is still in the queue.
\<close>

theorem sendq_fifo:
  assumes "queue_run icat_serv_printf process_sendq ia_outQ ops a = Some (out, a')" and "ia_online a"
  shows "ia_outQ a @ map (ncpy 1024) (List.map_filter id ops) = out @ ia_outQ a' \<and>
    ia_wire a' = ia_wire a @ concat (map wire_line out)"
  using assms by (rule sendq.run_fifo)

text \<open>
  C26: The throttle holds: when a line was sent at time \<open>t1\<close>, no free lines are left and the
  next look at the clock, at \<open>t\<close>, comes before the delay has passed, nothing is sent.
\<close>

theorem sendq_throttled:
  assumes "process_sendq a = (1, a1)" "ia_online a" "ia_clk a1 = t # ts" "g_freelines (ia_sett a1) = 0"
  shows "\<exists>pre t1. ia_clk a = pre @ t1 # t # ts \<and>
    (t < t1 + g_linedelay (ia_sett a1) \<longrightarrow>
      (\<exists>a2. process_sendq a1 = (0, a2) \<and> ia_outQ a2 = ia_outQ a1 \<and> ia_wire a2 = ia_wire a1))"
proof -
  from process_sendq_clk [OF assms(1)] assms(3) obtain pre t1
    where c: "ia_clk a = pre @ t1 # t # ts" "ia_nextsend a1 = t1 + g_linedelay (ia_sett a1)" by auto
  have "\<exists>a2. process_sendq a1 = (0, a2)" if "t < t1 + g_linedelay (ia_sett a1)"
  proof (cases "ia_outQ a1")
    case (Cons x rest)
    obtain t' a2 where ts: "ia_tstamp a1 = (t', a2)" by force
    have "\<not> ia_nextsend a1 \<le> t'" using ia_tstamp_Cons [OF assms(3)] ts that c(2) by simp
    with Cons assms(4) ts show ?thesis by (simp add: process_sendq_def sendq_due_def)
  qed (simp add: process_sendq_def)
  with c(1) process_sendq_idle [of a1 0] show ?thesis by (metis one_neq_zero zero_neq_neg_one)
qed

text \<open>
  C27: A silent server is noticed: when the heartbeat is due and no PONG has come since the last
  one, the connection is closed and \<open>icat\<close> is offline; else a PING is sent, and until a PONG
  comes the next due heartbeat finds none.
\<close>

theorem heartbeat_watches_server:
  assumes "do_heartbeat a = (ok, a')" "ia_online a"
    and "g_hbeat_us (ia_sett a) \<noteq> 0" "ia_clk a = t # ts" "ia_nexthb a \<le> t"
  shows "if \<not> ia_gotpong a then \<not> ok \<and> \<not> ia_on a' \<and> co_sck (ic_con (ia_irc a')) = -1
    else \<not> ia_gotpong a' \<and> (if ok then ia_online a' \<and>
        ia_wire a' = ia_wire a @ wire_line (ncpy 512 (''PING '' @ irc_myhost (ia_irc a) @ crlf))
      else \<not> ia_on a' \<and> co_sck (ic_con (ia_irc a')) = -1)"
proof -
  obtain t' a1 where t1: "ia_tstamp a = (t', a1)" by force
  have t: "t' = t" using ia_tstamp_Cons [OF assms(4)] t1 by simp
  note f1 = ia_tstamp_frame [OF t1]
  show ?thesis
  proof (cases "ia_gotpong a")
    case False
    with assms(1,3,5) t1 t f1 show ?thesis
      by (auto simp: do_heartbeat_def hb_due_def ia_irc_def irc_reset_def st_conn_def lsi_conn_reset_def Let_def)
  next
    case True
    define b where "b = a1\<lparr>ia_gotpong := False\<rparr>"
    obtain t2 a2 where t2: "ia_tstamp b = (t2, a2)" by force
    define c where "c = a2\<lparr>ia_nexthb := t2 + g_hbeat_us (ia_sett a2)\<rparr>"
    let ?buf = "ncpy 512 (''PING '' @ irc_myhost (ia_irc a1) @ crlf)"
    obtain ok1 a3 where w: "to_srv ?buf c = (ok1, a3)" by force
    note f2 = ia_tstamp_frame [OF t2]
    have c: "ia_online c" "ia_wire c = ia_wire a" "\<not> ia_gotpong c"
      using f1 f2 assms(2) by (simp_all add: c_def b_def ia_online_def ia_irc_def ia_wire_def)
    have "(ok, a') = (if \<not> ok1 then (False, a3\<lparr>ia_on := False\<rparr>) else (True, a3))"
      using assms(1,3,5) t1 t f1 True t2 w by (simp add: do_heartbeat_def hb_due_def b_def c_def)
    with to_srv_result [OF w c(1)] c f1 True show ?thesis
      by (auto simp: ia_online_def ia_irc_def ia_wire_def split: if_splits)
  qed
qed

text \<open>
  C28: What the user types is said: outside of target mode and without an escape prefix, a turn
  of the main loop that finds a line queues a PRIVMSG to the channels with the text of exactly
  the first line typed, up to what fits, without its line end; an empty line queues nothing.
\<close>

theorem typed_line_is_queued:
  assumes "core_user False a = Some (took, ign, a')" "icat_user_canread (ia_user a) = Some (True, u1)"
    and "ub_ok (ia_user a)" "cstr_ok (ub_stream (ia_user a))"
    and "length (ub_pend (ia_user a)) < BUFSZ \<or> newline \<in> set (ub_pend (ia_user a))"
    and "\<not> g_trgmode (ia_sett a)" "\<not> g_notices (ia_sett a)" "g_esc (ia_sett a) = None"
  shows "\<exists>line rest. newline \<notin> set line \<and> ub_stream (ia_user a) = line @ newline # rest \<and>
    took \<and> \<not> ign \<and> ub_stream (ia_user a') = rest \<and>
    (let txt = strip_eol (take 1023 (line @ [newline])) in
     ia_outQ a' = ia_outQ a @ (if txt = [] then []
       else [ncpy 1024 (''PRIVMSG '' @ g_chanlist (ia_sett a) @ '' :'' @ txt)]))"
proof -
  from readline_takes_line [OF assms(3,4,2) _ assms(5), of 1024] obtain line rest u2
    where r: "newline \<notin> set line" "ub_stream (ia_user a) = line @ newline # rest"
      "icat_user_readline 1024 u1 = Some (length line + 1, take 1023 (line @ [newline]), u2)"
      "ub_stream u2 = rest" by auto
  define ln where "ln = take 1023 (line @ [newline])"
  let ?a = "a\<lparr>ia_user := u2, ia_writecnt := ia_writecnt a + 1\<rparr>"
  from assms(1,2) r(3) have hu: "handle_usermsg ln (a\<lparr>ia_user := u2\<rparr>) = Some a'" and ty: "took" "\<not> ign"
    by (auto simp: core_user_def ln_def)
  have q: "ia_outQ a' = ia_outQ a @ (if strip_eol ln = [] then []
      else [ncpy 1024 (''PRIVMSG '' @ g_chanlist (ia_sett a) @ '' :'' @ strip_eol ln)])"
    and u: "ia_user a' = u2"
  proof (atomize (full), cases "strip_eol ln = []")
    case True
    with hu show "ia_outQ a' = ia_outQ a @ (if strip_eol ln = [] then []
      else [ncpy 1024 (''PRIVMSG '' @ g_chanlist (ia_sett a) @ '' :'' @ strip_eol ln)]) \<and> ia_user a' = u2"
      by (auto simp: handle_usermsg_def)
  next
    case False
    with hu assms(6-8) have p: "icat_serv_printf (''PRIVMSG '' @ g_chanlist (ia_sett a) @ '' :'' @ strip_eol ln) ?a = Some a'"
      by (simp add: handle_usermsg_def say_line_def)
    from serv_printf_result [OF p] serv_printf_user [OF p] False
    show "ia_outQ a' = ia_outQ a @ (if strip_eol ln = [] then []
      else [ncpy 1024 (''PRIVMSG '' @ g_chanlist (ia_sett a) @ '' :'' @ strip_eol ln)]) \<and> ia_user a' = u2" by simp
  qed
  show ?thesis
    using r(1,2,4) ty q u by (intro exI [of _ line] exI [of _ rest]) (simp add: ln_def Let_def)
qed

text \<open>\<open>icat\<close> online, with two lines typed ahead and the clock running\<close>

definition sample_icat :: icat where
  "sample_icat =
     \<lparr>ia_sett = set_defaults\<lparr>g_chanlist := ''#a''\<rparr>,
      ia_st = fresh_st\<lparr>st_irc := fresh_ctx\<lparr>ic_con := online_con\<rparr>, st_net := quiet_net\<lparr>nt_clk := [5, 6, 7, 8]\<rparr>\<rparr>,
      ia_on = True, ia_outQ = [''USER x''], ia_nexthb = 4, ia_nextsend = 0, ia_quitat = 0,
      ia_casemap = 0, ia_gotpong = True, ia_user = typed, ia_stdout = [], ia_readcnt = 0,
      ia_writecnt = 0, ia_slept = [], ia_sig = sig_start [], ia_stderr = [], ia_dumped = []\<rparr>"

lemma sample_online: "ia_online sample_icat" "ia_clk sample_icat = [5, 6, 7, 8]"
  by (simp_all add: sample_icat_def ia_online_def ia_irc_def online_con_def ia_clk_def)

lemma sample_write: "\<exists>w. lsi_conn_write ''USER x'' online_con (quiet_net\<lparr>nt_clk := [6, 7, 8]\<rparr>) = (True, online_con, w) \<and>
    nt_clk w = [6, 7, 8]"
proof -
  let ?w = "quiet_net\<lparr>nt_clk := [6, 7, 8]\<rparr>"
  obtain ok c w where r: "lsi_conn_write ''USER x'' online_con ?w = (ok, c, w)" using prod_cases3 by blast
  have "fst (lsi_conn_write ''USER x'' online_con ?w)" by code_simp
  then have ok: "ok" using r by simp
  have "co_online online_con" by (simp add: online_con_def)
  from conn_write_line [OF r this] ok have "c = online_con" by simp
  moreover have "nt_clk w = nt_clk ?w"
    using r by (auto simp: lsi_conn_write_def Let_def split: prod.splits if_splits dest!: write_raw_clk)
  ultimately show ?thesis using r ok by simp
qed

lemma sample_sent:
  "\<exists>w. process_sendq sample_icat = (1, sample_icat\<lparr>ia_st := (ia_st sample_icat)\<lparr>st_net := w\<rparr>, ia_outQ := [],
     ia_nextsend := 6 + 2000 * 1000\<rparr>) \<and> nt_clk w = [7, 8]"
proof -
  obtain w where w: "lsi_conn_write ''USER x'' online_con (quiet_net\<lparr>nt_clk := [6, 7, 8]\<rparr>) = (True, online_con, w)"
    "nt_clk w = [6, 7, 8]" using sample_write by blast
  have q: "lsi_b_strncasecmp ''USER x'' ''QUIT'' 4 \<noteq> Some 0" by code_simp
  show ?thesis
    using w q by (intro exI [of _ "w\<lparr>nt_clk := [7, 8]\<rparr>"])
      (simp add: process_sendq_def sendq_due_def ia_tstamp_def lsi_b_tstamp_us_def sample_icat_def set_defaults_def
        quiet_net_def to_srv_def irc_write_def st_write_def st_conn_def note_quit_def use_freeline_def)
qed

theorem sendq_fifo_witness:
  "\<exists>a'. queue_run icat_serv_printf process_sendq ia_outQ [None] sample_icat = Some ([''USER x''], a') \<and>
     [''USER x''] = [''USER x''] @ ia_outQ a' \<and> ia_wire a' = ''USER x'' @ crlf"
proof -
  obtain a' where p: "process_sendq sample_icat = (1, a')" using sample_sent by blast
  have "queue_run icat_serv_printf process_sendq ia_outQ [None] sample_icat = Some ([hd (ia_outQ sample_icat)], a')"
    by (simp add: p)
  then have q: "queue_run icat_serv_printf process_sendq ia_outQ [None] sample_icat = Some ([''USER x''], a')"
    by (simp add: sample_icat_def)
  from sendq_fifo [OF q sample_online(1)] q show ?thesis
    by (simp add: sample_icat_def ia_wire_def quiet_net_def wire_line_def crlf_def map_filter_simps)
qed

theorem sendq_throttled_witness:
  "\<exists>a1 a2. process_sendq sample_icat = (1, a1) \<and> process_sendq a1 = (0, a2) \<and> ia_wire a2 = ia_wire a1"
proof -
  obtain w where w: "nt_clk w = [7, 8]" and p0: "process_sendq sample_icat = (1, sample_icat\<lparr>ia_st := (ia_st sample_icat)\<lparr>st_net := w\<rparr>,
      ia_outQ := [], ia_nextsend := 6 + 2000 * 1000\<rparr>)" using sample_sent by blast
  define a1 where "a1 = sample_icat\<lparr>ia_st := (ia_st sample_icat)\<lparr>st_net := w\<rparr>, ia_outQ := [], ia_nextsend := 6 + 2000 * 1000\<rparr>"
  have p: "process_sendq sample_icat = (1, a1)" using p0 by (simp only: a1_def)
  have c: "ia_clk a1 = 7 # [8]" "g_freelines (ia_sett a1) = 0" and d: "g_linedelay (ia_sett a1) = 2000 * 1000"
    using w by (simp_all add: a1_def ia_clk_def sample_icat_def set_defaults_def)
  from sendq_throttled [OF p sample_online(1) c] obtain pre t1
    where t: "ia_clk sample_icat = pre @ t1 # 7 # [8]"
      "7 < t1 + g_linedelay (ia_sett a1) \<longrightarrow> (\<exists>a2. process_sendq a1 = (0, a2) \<and> ia_outQ a2 = ia_outQ a1 \<and> ia_wire a2 = ia_wire a1)"
    by auto
  have "t1 = 6" using t(1) by (auto simp: sample_online(2) Cons_eq_append_conv)
  with t(2) d have "\<exists>a2. process_sendq a1 = (0, a2) \<and> ia_wire a2 = ia_wire a1" by auto
  with p show ?thesis by blast
qed

theorem heartbeat_watches_server_witness:
  "\<exists>a'. do_heartbeat (sample_icat\<lparr>ia_gotpong := False\<rparr>) = (False, a') \<and> \<not> ia_on a'"
proof -
  let ?a = "sample_icat\<lparr>ia_gotpong := False\<rparr>"
  obtain ok a' where h: "do_heartbeat ?a = (ok, a')" by force
  have "ia_online ?a" "g_hbeat_us (ia_sett ?a) \<noteq> 0" "ia_clk ?a = 5 # [6, 7, 8]" "ia_nexthb ?a \<le> 5"
    using sample_online by (simp_all add: ia_online_def ia_irc_def ia_clk_def sample_icat_def set_defaults_def)
  from heartbeat_watches_server [OF h this] h show ?thesis by simp
qed

theorem typed_line_is_queued_witness:
  "\<exists>a'. core_user False sample_icat = Some (True, False, a') \<and>
     ia_outQ a' = [''USER x'', ''PRIVMSG #a :hi''] \<and> ub_stream (ia_user a') = ''you'' @ [newline] @ ''x''"
proof -
  have st: "ub_stream typed = ''hi'' @ [newline] @ ''you'' @ [newline] @ ''x''"
    using typed_pend(1) by (simp add: ub_stream_def ub_rest_def typed_def)
  have us: "ia_user sample_icat = typed" by (simp add: sample_icat_def)
  have nl: "newline \<in> set (ub_pend typed)" by (simp add: typed_pend(1))
  have cs: "cstr_ok (ub_stream typed)" by (simp add: st newline_def)
  then have "cstr_ok (ub_pend typed)" by (simp add: ub_stream_def)
  from canread_again [OF typed_pend(2) this nl] obtain u1 where u1: "icat_user_canread typed = Some (True, u1)" by blast
  from readline_takes_line [OF typed_pend(2) cs u1, of 1024] nl obtain line rest u2
    where r: "newline \<notin> set line" "ub_stream typed = line @ newline # rest"
      "icat_user_readline 1024 u1 = Some (length line + 1, take 1023 (line @ [newline]), u2)" by auto
  have "line = ''hi''" using r(1,2) unfolding st by (auto simp: newline_def append_eq_Cons_conv Cons_eq_append_conv)
  with r(3) have "\<exists>a'. core_user False sample_icat = Some (True, False, a')"
    by (simp add: core_user_def us u1 handle_usermsg_def strip_eol_def newline_def say_line_def icat_serv_printf_def
        st_malloc_def st_strdup_def sample_icat_def fresh_st_def set_defaults_def)
  then obtain a' where a: "core_user False sample_icat = Some (True, False, a')" by blast
  from typed_line_is_queued [OF a] us u1 typed_pend(2) cs nl obtain line rest
    where "newline \<notin> set line" "ub_stream typed = line @ newline # rest" "ub_stream (ia_user a') = rest"
      "let txt = strip_eol (take 1023 (line @ [newline])) in ia_outQ a' = ia_outQ sample_icat @
        (if txt = [] then [] else [ncpy 1024 (''PRIVMSG '' @ g_chanlist (ia_sett sample_icat) @ '' :'' @ txt)])"
    by (auto simp: sample_icat_def set_defaults_def)
  moreover from this have "line = ''hi''" "rest = ''you'' @ [newline] @ ''x''"
    unfolding st by (auto simp: newline_def append_eq_Cons_conv Cons_eq_append_conv)
  ultimately show ?thesis using a by (simp add: strip_eol_def newline_def sample_icat_def)
qed

end
