(* ===== verification/Trackframe.thy ===== *)
theory Trackframe
  imports Reach Irc
begin

text \<open>
  What the tracking handlers leave alone: everything but the two maps of the context, its flag for
  the end of a list of names, and the heap.  With memory to spare the allocator stays as it is, too.
\<close>

definition obs :: "st \<Rightarrow> irc \<times> net" where
  "obs s = ((st_irc s)\<lparr>ic_chans := Null, ic_users := None, ic_endofnames := False\<rparr>, st_net s)"

abbreviation kept :: "st \<Rightarrow> st \<Rightarrow> bool" where
  "kept s s' \<equiv> (orc_of s = [] \<longrightarrow> obs s' = obs s \<and> orc_of s' = [])"

named_theorems kept_dests \<open>operations that keep the view\<close>

section \<open>The primitives\<close>

lemma obs_simps [simp]:
  "obs (put_user a u s) = obs s" "obs (put_chan a c s) = obs s" "obs (put_memb a m s) = obs s"
  "obs (set_users x s) = obs s" "obs (set_chans y s) = obs s" "obs (free_tag b t s) = obs s"
  "obs (set_endofnames b s) = obs s" "obs (set_memb_map ca h s) = obs s" "obs (set_orc orc s) = obs s"
  by (simp_all add: obs_def acc_defs set_endofnames_def set_memb_map_def split: option.split)

lemma orc_endofnames [simp]: "orc_of (set_endofnames b s) = orc_of s"
  by (simp add: set_endofnames_def orc_of_def)

lemma fresh_kept [kept_dests]: "fresh s = (a, s') \<Longrightarrow> obs s' = obs s \<and> orc_of s' = orc_of s"
  by (auto simp: fresh_def obs_def orc_of_def)

lemma malloc_kept [kept_dests]: "st_malloc s = (ok, s') \<Longrightarrow> kept s s'"
  by (auto simp: st_malloc_def orc_of_def obs_def)

lemma strdup_kept [kept_dests]: "st_strdup x s = (d, s') \<Longrightarrow> kept s s'"
  by (auto simp: st_strdup_def dest!: malloc_kept split: prod.splits)

lemma strprop_kept [kept_dests]: "st_strprop f v s = (ok, f', s') \<Longrightarrow> kept s s'"
  by (auto simp: st_strprop_def lsi_com_update_strprop_def lsi_b_strdup_def obs_def orc_of_def split: prod.splits option.splits if_splits)

lemma put_orc [kept_dests]: "lsi_skmap_put orc h k v = (ok, h', orc') \<Longrightarrow> orc = [] \<longrightarrow> orc' = []"
  by (auto simp: lsi_skmap_put_def skmap_put_def put_into_def lsi_bucklist_insert_def lsi_bucklist_init_def lsi_b_strdup_def Let_def
      split: option.splits prod.splits if_splits)

lemma init_orc [kept_dests]: "lsi_skmap_init orc n cm = (h, orc') \<Longrightarrow> orc = [] \<longrightarrow> orc' = []"
  by (auto simp: lsi_skmap_init_def Let_def split: prod.splits if_splits)

section \<open>Loops over a map\<close>

lemma each_loop_kept:
  assumes body: "\<And>v s b s'. body v s = Some (b, s') \<Longrightarrow> kept s s'"
    and setm: "\<And>h s. obs (setm h s) = obs s \<and> orc_of (setm h s) = orc_of s"
  shows "each_loop n getm setm body e s = Some (b, s') \<Longrightarrow> kept s s'"
proof (induction n arbitrary: e s)
  case (Suc n)
  then show ?case using setm
    by (auto dest!: body Suc.IH split: if_splits option.splits)
qed simp

lemma for_each_kept:
  assumes "for_each getm setm body s = Some (b, s')"
    and "\<And>v s b s'. body v s = Some (b, s') \<Longrightarrow> kept s s'"
    and "\<And>h s. obs (setm h s) = obs s \<and> orc_of (setm h s) = orc_of s"
  shows "kept s s'"
  using assms(1) each_loop_kept [OF assms(2,3)] assms(3)
  by (auto simp: for_each_def Let_def split: option.splits prod.splits)

section \<open>The base\<close>

lemma unref_user_kept [kept_dests]: "unref_user purge ua s = Some s' \<Longrightarrow> kept s s'"
  by (auto simp: unref_user_def free_user_def del_user_key_def Let_def split: if_splits)

lemma release_memb_kept [kept_dests]: "release_memb ma s = Some (b, s') \<Longrightarrow> kept s s'"
  by (auto simp: release_memb_def dest!: kept_dests)

lemma add_chan_kept [kept_dests]: "lsi_ucb_add_chan name s = Some (r, s') \<Longrightarrow> kept s s'"
  by (auto simp: lsi_ucb_add_chan_def Let_def dest!: kept_dests split: if_splits option.splits prod.splits)

lemma memb_loop_kept [kept_dests]:
  "for_each (memb_map ca) (set_memb_map ca) release_memb s = Some (b, s') \<Longrightarrow> kept s s'"
  by (erule for_each_kept) (auto dest: release_memb_kept)

lemma drop_chan_kept [kept_dests]: "lsi_ucb_drop_chan ca s = Some (r, s') \<Longrightarrow> kept s s'"
  by (auto simp: lsi_ucb_drop_chan_def Let_def dest!: kept_dests split: if_splits option.splits prod.splits)

lemma alloc_memb_kept [kept_dests]: "lsi_ucb_alloc_memb ua mp s = (r, s') \<Longrightarrow> kept s s'"
  by (auto simp: lsi_ucb_alloc_memb_def Let_def dest!: kept_dests split: if_splits option.splits prod.splits)

lemma add_memb_kept [kept_dests]: "lsi_ucb_add_memb ca ua mp s = Some (r, s') \<Longrightarrow> kept s s'"
  by (auto simp: lsi_ucb_add_memb_def Let_def dest!: kept_dests split: if_splits option.splits prod.splits)

lemma drop_memb_kept [kept_dests]: "lsi_ucb_drop_memb ca ua purge s = Some (r, s') \<Longrightarrow> kept s s'"
  by (auto simp: lsi_ucb_drop_memb_def Let_def dest!: kept_dests split: if_splits option.splits prod.splits)

lemma clear_memb_kept [kept_dests]: "lsi_ucb_clear_memb ca s = Some s' \<Longrightarrow> kept s s'"
  by (auto simp: lsi_ucb_clear_memb_def Let_def dest!: kept_dests split: if_splits option.splits prod.splits)

lemma update_modepfx_kept [kept_dests]: "lsi_ucb_update_modepfx ca nick psym enab s = Some (r, s') \<Longrightarrow> kept s s'"
  by (auto simp: lsi_ucb_update_modepfx_def Let_def dest!: kept_dests split: if_splits option.splits prod.splits)

lemma clear_chanmodes_kept [kept_dests]: "lsi_ucb_clear_chanmodes ca s = Some s' \<Longrightarrow> kept s s'"
  by (auto simp: lsi_ucb_clear_chanmodes_def Let_def dest!: kept_dests split: if_splits option.splits prod.splits)

lemma add_chanmode_kept [kept_dests]: "lsi_ucb_add_chanmode ca m s = Some (r, s') \<Longrightarrow> kept s s'"
  by (auto simp: lsi_ucb_add_chanmode_def Let_def dest!: kept_dests split: if_splits option.splits prod.splits)

lemma drop_chanmode_kept [kept_dests]: "lsi_ucb_drop_chanmode ca m s = Some (r, s') \<Longrightarrow> kept s s'"
  by (auto simp: lsi_ucb_drop_chanmode_def Let_def dest!: kept_dests split: if_splits option.splits prod.splits)

lemma touch_field_kept [kept_dests]: "touch_field c part sz f ident s = (r, s') \<Longrightarrow> kept s s'"
  by (auto simp: touch_field_def Let_def dest!: kept_dests split: if_splits option.splits prod.splits)

lemma touch_user_int_kept [kept_dests]: "lsi_ucb_touch_user_int ua ident s = Some s' \<Longrightarrow> kept s s'"
  by (auto simp: lsi_ucb_touch_user_int_def Let_def dest!: kept_dests split: if_splits option.splits prod.splits)

lemma touch_user_kept [kept_dests]: "lsi_ucb_touch_user ident s = Some (r, s') \<Longrightarrow> kept s s'"
  by (auto simp: lsi_ucb_touch_user_def Let_def dest!: kept_dests split: if_splits option.splits prod.splits)

lemma add_user_kept [kept_dests]: "lsi_ucb_add_user ident s = Some (r, s') \<Longrightarrow> kept s s'"
  by (auto simp: lsi_ucb_add_user_def Let_def dest!: kept_dests split: if_splits option.splits prod.splits)

lemma drop_loop_kept [kept_dests]:
  "for_each chans_of set_chans (\<lambda>ca s. do { (_, s') \<leftarrow> lsi_ucb_drop_memb ca ua False s; Some (False, s') }) s = Some (b, s') \<Longrightarrow>
   kept s s'"
  by (erule for_each_kept) (auto dest!: drop_memb_kept)

lemma drop_user_kept [kept_dests]: "lsi_ucb_drop_user ua s = Some (r, s') \<Longrightarrow> kept s s'"
  by (auto simp: lsi_ucb_drop_user_def free_user_def Let_def dest!: kept_dests split: if_splits option.splits prod.splits)

lemma rekey_memb_kept [kept_dests]: "rekey_memb ident nn ca s = Some (r, s') \<Longrightarrow> kept s s'"
  by (auto simp: rekey_memb_def Let_def dest!: kept_dests split: if_splits option.splits prod.splits)

lemma rekey_loop_kept [kept_dests]:
  "for_each chans_of set_chans (rekey_memb ident nn) s = Some (b, s') \<Longrightarrow> kept s s'"
  by (erule for_each_kept) (auto dest: rekey_memb_kept)

lemma rename_user_kept [kept_dests]: "lsi_ucb_rename_user ident nn s = Some (r, a, s') \<Longrightarrow> kept s s'"
  by (auto simp: lsi_ucb_rename_user_def del_user_key_def Let_def dest!: kept_dests split: if_splits option.splits prod.splits)

section \<open>The handlers\<close>

lemma join_user_kept [kept_dests]: "join_user ca ident mp s = Some (r, s') \<Longrightarrow> kept s s'"
  by (auto simp: join_user_def Let_def dest!: kept_dests split: if_splits option.splits prod.splits)

lemma leave_user_kept [kept_dests]: "leave_user ca ident s = Some s' \<Longrightarrow> kept s s'"
  by (auto simp: leave_user_def Let_def dest!: kept_dests split: if_splits option.splits prod.splits)

lemma names_loop_kept [kept_dests]: "names_loop ca p s = Some (r, s') \<Longrightarrow> kept s s'"
proof (induction "length p" arbitrary: p s rule: less_induct)
  case less
  define ispfx where "ispfx \<longleftrightarrow> strchr (snd (ic_m005modepfx (st_irc s))) (hdz p) \<noteq> None"
  define q where "q = (if ispfx then tl p else p)"
  have shorter: "length (drop (e + 1) q) < length p" if "strchr q (CHR '' '') = Some e" for e
    using strchr_Some_less [OF that] by (auto simp: q_def split: if_splits)
  show ?case
  proof
    assume orc: "orc_of s = []"
    obtain ok s1 where j: "join_user ca (take (MAX_NICK_LEN - 1) (takeWhile (\<lambda>c. c \<noteq> CHR '' '') q)) (if ispfx then [hdz p] else []) s = Some (ok, s1)"
      "(if \<not> ok then Some (ALLOC_ERR, s1) else (case strchr q (CHR '' '') of None \<Rightarrow> Some (0, s1) | Some e \<Rightarrow> names_loop ca (drop (e + 1) q) s1)) = Some (r, s')"
      using less.prems by (subst (asm) names_loop.simps)
        (auto simp: Let_def ispfx_def [symmetric] q_def [symmetric] simp del: not_None_eq split: if_splits option.splits)
    from join_user_kept [OF j(1)] orc have k: "obs s1 = obs s" "orc_of s1 = []" by simp_all
    show "obs s' = obs s \<and> orc_of s' = []"
    proof (cases "ok \<and> strchr q (CHR '' '') \<noteq> None")
      case True
      then obtain e where e: "strchr q (CHR '' '') = Some e" by auto
      with True j(2) less.hyps [OF shorter [OF e]] k show ?thesis by simp
    next
      case False
      with j(2) k show ?thesis by (auto split: if_splits option.splits)
    qed
  qed
qed

lemma set_topic_kept [kept_dests]: "set_topic ca v s = Some s' \<Longrightarrow> kept s s'"
  by (auto simp: set_topic_def Let_def dest!: kept_dests split: if_splits option.splits prod.splits)

lemma set_topicnick_kept [kept_dests]: "set_topicnick ca v s = Some s' \<Longrightarrow> kept s s'"
  by (auto simp: set_topicnick_def Let_def dest!: kept_dests split: if_splits option.splits prod.splits)

lemma chanmode_entry_kept [kept_dests]: "chanmode_entry ca e s = Some (r, s') \<Longrightarrow> kept s s'"
  by (auto simp: chanmode_entry_def Let_def dest!: kept_dests split: if_splits option.splits prod.splits)

lemma mode_entry_step_kept [kept_dests]: "mode_entry_step ca e s = Some (r, s') \<Longrightarrow> kept s s'"
  by (auto simp: mode_entry_step_def Let_def dest!: kept_dests split: if_splits option.splits prod.splits)

lemma entries_loop_kept:
  "entries_loop step es res s = Some (r, s') \<Longrightarrow> (\<And>e s r s'. step e s = Some (r, s') \<Longrightarrow> kept s s') \<Longrightarrow> kept s s'"
  by (induction step es res s arbitrary: r s' rule: entries_loop.induct) auto

lemma mode_loops_kept [kept_dests]:
  "entries_loop (mode_entry_step ca) es res s = Some (r, s') \<Longrightarrow> kept s s'"
  "entries_loop (chanmode_entry ca) es res s = Some (r, s') \<Longrightarrow> kept s s'"
  by (erule entries_loop_kept, erule mode_entry_step_kept) (erule entries_loop_kept, erule chanmode_entry_kept)

lemma parse_MODE_loop_orc: "parse_MODE_loop ctx msg ac p i en arr [] = Some (r, orc') \<Longrightarrow> orc' = []"
  by (induction p arbitrary: i en arr) (auto simp: Let_def split: if_splits mode_step.splits)

lemma st_parse_MODE_kept [kept_dests]: "st_parse_MODE msg b s = Some (r, s') \<Longrightarrow> kept s s'"
  by (auto simp: st_parse_MODE_def lsi_ut_parse_MODE_def lsi_b_strdup_def dest!: parse_MODE_loop_orc split: if_splits option.splits prod.splits)

lemma refresh_kept [kept_dests]: "refresh f v s = (r, s') \<Longrightarrow> kept s s'"
  by (auto simp: refresh_def Let_def dest!: kept_dests split: if_splits option.splits prod.splits)

lemma refresh_user_kept [kept_dests]: "refresh_user ua un ho fn s = Some s' \<Longrightarrow> kept s s'"
  by (auto simp: refresh_user_def Let_def dest!: kept_dests split: if_splits option.splits prod.splits)

lemma h_JOIN_kept [kept_dests]: "h_JOIN msg n logon s = Some (r, s') \<Longrightarrow> kept s s'"
  by (auto simp: h_JOIN_def Let_def dest!: kept_dests split: if_splits option.splits prod.splits)

lemma h_PART_kept [kept_dests]: "h_PART msg n logon s = Some (r, s') \<Longrightarrow> kept s s'"
  by (auto simp: h_PART_def Let_def dest!: kept_dests split: if_splits option.splits prod.splits)

lemma h_QUIT_kept [kept_dests]: "h_QUIT msg n logon s = Some (r, s') \<Longrightarrow> kept s s'"
  by (auto simp: h_QUIT_def Let_def dest!: kept_dests split: if_splits option.splits prod.splits)

lemma h_KICK_kept [kept_dests]: "h_KICK msg n logon s = Some (r, s') \<Longrightarrow> kept s s'"
  by (auto simp: h_KICK_def Let_def dest!: kept_dests split: if_splits option.splits prod.splits)

lemma h_NICK_kept [kept_dests]: "h_NICK msg n logon s = Some (r, s') \<Longrightarrow> kept s s'"
  by (auto simp: h_NICK_def Let_def dest!: kept_dests split: if_splits option.splits prod.splits)

lemma h_353_kept [kept_dests]: "h_353 msg n logon s = Some (r, s') \<Longrightarrow> kept s s'"
  by (auto simp: h_353_def Let_def dest!: kept_dests split: if_splits option.splits prod.splits)

lemma h_366_kept [kept_dests]: "h_366 msg n logon s = Some (r, s') \<Longrightarrow> kept s s'"
  by (auto simp: h_366_def Let_def dest!: kept_dests split: if_splits option.splits prod.splits)

lemma h_332_kept [kept_dests]: "h_332 msg n logon s = Some (r, s') \<Longrightarrow> kept s s'"
  by (auto simp: h_332_def Let_def dest!: kept_dests split: if_splits option.splits prod.splits)

lemma h_333_kept [kept_dests]: "h_333 msg n logon s = Some (r, s') \<Longrightarrow> kept s s'"
  by (auto simp: h_333_def Let_def dest!: kept_dests split: if_splits option.splits prod.splits)

lemma h_TOPIC_kept [kept_dests]: "h_TOPIC msg n logon s = Some (r, s') \<Longrightarrow> kept s s'"
  by (auto simp: h_TOPIC_def Let_def dest!: kept_dests split: if_splits option.splits prod.splits)

lemma h_MODE_chanmode_kept [kept_dests]: "h_MODE_chanmode msg n logon s = Some (r, s') \<Longrightarrow> kept s s'"
  by (auto simp: h_MODE_chanmode_def Let_def dest!: kept_dests split: if_splits option.splits prod.splits)

lemma h_MODE_kept [kept_dests]: "h_MODE msg n logon s = Some (r, s') \<Longrightarrow> kept s s'"
  by (auto simp: h_MODE_def Let_def dest!: kept_dests split: if_splits option.splits prod.splits)

lemma h_324_kept [kept_dests]: "h_324 msg n logon s = Some (r, s') \<Longrightarrow> kept s s'"
  by (auto simp: h_324_def Let_def dest!: kept_dests split: if_splits option.splits prod.splits)

lemma touch_speaker_kept [kept_dests]: "touch_speaker msg n logon s = Some (r, s') \<Longrightarrow> kept s s'"
  by (auto simp: touch_speaker_def Let_def dest!: kept_dests split: if_splits option.splits prod.splits)

lemma h_352_kept [kept_dests]: "h_352 msg n logon s = Some (r, s') \<Longrightarrow> kept s s'"
  by (auto simp: h_352_def Let_def dest!: kept_dests split: if_splits option.splits prod.splits)

lemma h_311_kept [kept_dests]: "h_311 msg n logon s = Some (r, s') \<Longrightarrow> kept s s'"
  by (auto simp: h_311_def Let_def dest!: kept_dests split: if_splits option.splits prod.splits)

end
