(* ===== verification/Iosafe.thy ===== *)
theory Iosafe
  imports Conn
begin

text \<open>
  Reading is safe whatever arrives: for every outcome of the reads and of the clock, and whatever the
  bytes are (NULs, tags, no line break at all), the reader returns, never leaves its buffer, and
  hands out a message array that is well formed.
\<close>

section \<open>A string inside a buffer\<close>

lemma buf_at_cstr:
  assumes "p \<le> q" "q < length buf" "buf ! q = NUL"
  obtains post where "buf = take p buf @ cstr_at buf p @ NUL # post" "p + length (cstr_at buf p) \<le> q"
proof -
  let ?d = "drop p buf"
  have at: "?d ! (q - p) = NUL" "q - p < length ?d" using assms by simp_all
  have "NUL \<in> set ?d" using nth_mem [OF at(2)] at(1) by simp
  then have "dropWhile (\<lambda>c. c \<noteq> NUL) ?d \<noteq> []" by auto
  then obtain x post where x: "dropWhile (\<lambda>c. c \<noteq> NUL) ?d = x # post" by (cases "dropWhile (\<lambda>c. c \<noteq> NUL) ?d") auto
  then have post: "dropWhile (\<lambda>c. c \<noteq> NUL) ?d = NUL # post" using hd_dropWhile [of "\<lambda>c. c \<noteq> NUL" ?d] by simp
  have "?d = cstr_at buf p @ NUL # post" unfolding cstr_at_def using post by (metis takeWhile_dropWhile_id)
  then have b: "buf = take p buf @ cstr_at buf p @ NUL # post" by (metis append_take_drop_id)
  have "length (cstr_at buf p) \<le> q - p"
  proof (rule ccontr)
    assume "\<not> length (cstr_at buf p) \<le> q - p"
    then have l: "q - p < length (takeWhile (\<lambda>c. c \<noteq> NUL) ?d)" by (simp add: cstr_at_def)
    then have "takeWhile (\<lambda>c. c \<noteq> NUL) ?d ! (q - p) \<noteq> NUL" using set_takeWhileD [OF nth_mem [OF l]] by simp
    then show False using at(1) takeWhile_nth [OF l] by simp
  qed
  with b assms show thesis by (intro that) auto
qed

section \<open>Splitting\<close>

lemma tok_end_bounds: "tok_end buf p d = Some q \<Longrightarrow> p \<le> q \<and> q < length buf \<and> (buf ! q = NUL \<or> buf ! q = d)"
proof (induction buf p d rule: tok_end.induct)
  case (1 buf p d)
  then show ?case by (subst (asm) (2) tok_end.simps) (auto split: if_splits)
qed

lemma zero_delims_bounds:
  "zero_delims buf q d = Some (buf', r) \<Longrightarrow> q \<le> r \<and> r < length buf \<and> length buf' = length buf \<and> (buf ! q = d \<longrightarrow> q < r)"
proof (induction buf q d rule: zero_delims.induct)
  case (1 buf q d)
  then show ?case by (subst (asm) (2) zero_delims.simps) (fastforce split: if_splits)
qed

lemma next_tok_bounds:
  assumes "lsi_com_next_tok buf p d = Some (buf', nx)"
  shows "length buf' = length buf" "nx = Some q \<Longrightarrow> p < q \<and> q < length buf"
  using assms by (auto simp: lsi_com_next_tok_def dest!: tok_end_bounds zero_delims_bounds split: if_splits prod.splits)

lemma tokenize_args_bounds:
  "tokenize_args n buf p = Some (buf', offs) \<Longrightarrow>
   length buf' = length buf \<and> list_all (\<lambda>k. p < k \<and> k \<le> length buf) offs"
proof (induction n arbitrary: buf p buf' offs)
  case (Suc n)
  from Suc.prems obtain b1 nx where nt: "lsi_com_next_tok buf p (CHR '' '') = Some (b1, nx)" by auto
  note bd = next_tok_bounds [OF nt]
  show ?case
  proof (cases nx)
    case None
    with Suc.prems nt bd(1) show ?thesis by simp
  next
    case (Some q)
    with bd have q: "p < q" "q < length buf" "length b1 = length buf" by auto
    with Suc.prems nt Some show ?thesis
      by (fastforce split: if_splits dest!: Suc.IH simp: list_all_iff)
  qed
qed simp

definition args_in :: "nat \<Rightarrow> nat option list \<Rightarrow> bool" where
  "args_in n offs \<longleftrightarrow> (\<forall>i k. 2 \<le> i \<longrightarrow> i < length offs \<longrightarrow> offs ! i = Some k \<longrightarrow> 0 < k \<and> k \<le> n)"

lemma args_in_pad: "list_all (\<lambda>k. p < k \<and> k \<le> n) args \<Longrightarrow> args_in n (tok_pad (a # b # map Some args))"
  unfolding args_in_def
proof (intro allI impI)
  fix i k
  assume l: "list_all (\<lambda>k. p < k \<and> k \<le> n) args" and i: "2 \<le> i" "i < length (tok_pad (a # b # map Some args))"
    and k: "tok_pad (a # b # map Some args) ! i = Some k"
  from i(1) obtain j where j: "i = Suc (Suc j)" by (cases i; cases "i - 1") auto
  have "j < length args" using k i(2) unfolding j by (auto simp: tok_pad_def nth_append split: if_splits)
  with k have "k \<in> set args" unfolding j by (auto simp: tok_pad_def nth_append)
  with l show "0 < k \<and> k \<le> n" by (auto simp: list_all_iff)
qed

lemma lsi_ut_tokenize_offs:
  "lsi_ut_tokenize buf p = Some (True, buf', offs) \<Longrightarrow> args_in (length buf) offs"
  by (auto simp: lsi_ut_tokenize_def split: if_splits option.splits dest!: tokenize_args_bounds next_tok_bounds(1))
    (erule args_in_pad)+

lemma fields_ok:
  assumes "tok_strs buf offs = msg_fields m" "parse_line s = Some m"
  shows "tokarr_ok (tok_strs buf offs)"
proof -
  obtain pf c as where m: "m = (pf, c, as)" by (cases m) auto
  have "length as \<le> 16" using assms(2) m length_line_args by (auto simp: parse_line_def Let_def split: if_splits)
  moreover have "list_all (\<lambda>f. case f of None \<Rightarrow> True | Some s \<Rightarrow> cstr_ok s) (tok_strs buf offs)"
    by (auto simp: tok_strs_def list_all_iff split: option.split)
  ultimately show ?thesis using assms(1) m by (simp add: tokarr_ok_def msg_fields_def TOKARR_SZ_def tk_def)
qed

lemma lsi_ut_tokenize_total:
  assumes "p \<le> q" "q < length buf" "buf ! q = NUL"
  obtains ok buf' offs where "lsi_ut_tokenize buf p = Some (ok, buf', offs)" "length buf' = length buf"
    "ok \<longrightarrow> tokarr_ok (tok_strs buf' offs) \<and> args_in (length buf) offs"
proof -
  obtain post where b: "buf = take p buf @ cstr_at buf p @ NUL # post" by (rule buf_at_cstr [OF assms])
  have p: "length (take p buf) = p" using assms by simp
  from lsi_ut_tokenize_spec [OF cstr_ok_cstr_at, of "take p buf" buf p post]
  obtain s' offs where t: "lsi_ut_tokenize buf p = Some (parse_line (cstr_at buf p) \<noteq> None, take p buf @ s' @ NUL # post, offs)"
    "length s' = length (cstr_at buf p)"
    "\<forall>m. parse_line (cstr_at buf p) = Some m \<longrightarrow> tok_strs (take p buf @ s' @ NUL # post) offs = msg_fields m"
    unfolding b [symmetric] p by blast
  have l: "length (take p buf @ s' @ NUL # post) = length buf" using t(2) arg_cong [OF b, of length] by simp
  have "parse_line (cstr_at buf p) \<noteq> None \<longrightarrow>
      tokarr_ok (tok_strs (take p buf @ s' @ NUL # post) offs) \<and> args_in (length buf) offs"
  proof
    assume ne: "parse_line (cstr_at buf p) \<noteq> None"
    then obtain m where m: "parse_line (cstr_at buf p) = Some m" by auto
    show "tokarr_ok (tok_strs (take p buf @ s' @ NUL # post) offs) \<and> args_in (length buf) offs"
      using fields_ok [OF _ m] t(3) m lsi_ut_tokenize_offs [of buf p _ offs] t(1) by simp
  qed
  with t(1) l show thesis by (rule that)
qed

lemma extract_loop_total:
  "cstr_ok s \<Longrightarrow> length s < fuel \<Longrightarrow>
   \<exists>s' dest'. extract_loop fuel (pre @ s @ NUL # post) (length pre) n dest = Some (pre @ s' @ NUL # post, dest') \<and>
     length s' = length s"
proof (induction fuel arbitrary: pre s dest)
  case (Suc fuel)
  let ?d = "CHR '';''"
  let ?w = "tok_word ?d s" and ?g = "tok_gap ?d s" and ?r = "tok_rest ?d s"
  note nt = next_tok_spec [OF Suc.prems(1), of ?d pre post, simplified]
  have len: "length ?w + ?g + length ?r = length s" using arg_cong [OF tok_split [of s ?d], of length] by simp
  show ?case
  proof (cases "?r = []")
    case True
    with nt len show ?thesis by (auto intro!: exI [of _ "?w @ replicate ?g NUL"])
  next
    case False
    let ?pre = "pre @ ?w @ replicate ?g NUL"
    from False Suc.prems length_tok_rest_less [OF False] have "cstr_ok ?r" "length ?r < fuel" by simp_all
    from Suc.IH [OF this, of ?pre "if length dest < n then dest @ [length pre] else dest"]
    obtain s' dest' where e: "extract_loop fuel (?pre @ ?r @ NUL # post) (length ?pre) n
        (if length dest < n then dest @ [length pre] else dest) = Some (?pre @ s' @ NUL # post, dest')" "length s' = length ?r" by blast
    have "length pre + length ?w + ?g = length ?pre" by simp
    with nt False e len show ?thesis
      by (intro exI [of _ "?w @ replicate ?g NUL @ s'"] exI [of _ dest']) (simp add: Let_def)
  qed
qed simp

lemma extract_tags_total:
  assumes "p \<le> q" "q < length buf" "buf ! q = NUL"
  obtains buf' tags start where "lsi_ut_extract_tags buf p n = Some (buf', tags, start)" "length buf' = length buf"
    "\<And>r. start = Some r \<Longrightarrow> r \<le> q \<and> buf' ! q = NUL"
proof -
  obtain post where b: "buf = take p buf @ cstr_at buf p @ NUL # post" "p + length (cstr_at buf p) \<le> q" by (rule buf_at_cstr [OF assms])
  show thesis
  proof (cases "strchr (cstr_at buf p) (CHR '' '')")
    case None
    then show thesis by (intro that [of buf "[]" None]) (simp_all add: lsi_ut_extract_tags_def)
  next
    case (Some i)
    let ?s = "cstr_at buf p"
    have i: "i < length ?s" using strchr_Some_less [OF Some] by simp
    have pi: "p + i < length buf" "p + i < q" using i b(2) assms by simp_all
    have "?s = take (length ?s) (drop p buf)" unfolding cstr_at_def by (rule takeWhile_eq_take)
    from arg_cong [OF this, of "take i"] i have "take i ?s = take i (drop p buf)" by (simp add: min_def)
    then have tk: "take (p + i) buf = take p buf @ take i ?s" by (simp add: take_add)
    have u: "buf[p + i := NUL] = take p buf @ take i ?s @ NUL # drop (p + i + 1) buf"
      unfolding upd_conv_take_nth_drop [OF pi(1)] tk by simp
    have lp: "length (take p buf) = p" using assms by simp
    have "length (take i ?s) < length buf" using i b(2) assms by simp
    from extract_loop_total [OF _ this, of "take p buf" "drop (p + i + 1) buf" n "[]"] lp
    obtain s' dest where e: "extract_loop (length buf) (buf[p + i := NUL]) p n [] =
        Some (take p buf @ s' @ NUL # drop (p + i + 1) buf, dest)" "length s' = length (take i ?s)"
      unfolding u by auto
    let ?b = "take p buf @ s' @ NUL # drop (p + i + 1) buf"
    have len: "length ?b = length buf" using e(2) i b(2) assms by simp
    have "lsi_ut_extract_tags buf p n = Some (?b, dest, Some (p + i + 1))"
      using Some pi(1) e(1) by (simp add: lsi_ut_extract_tags_def)
    moreover have "?b ! q = NUL"
    proof -
      have "length (take p buf @ s' @ [NUL]) = p + i + 1" using e(2) i lp by simp
      then have "?b ! q = buf ! q"
        using nth_append [of "take p buf @ s' @ [NUL]" "drop (p + i + 1) buf" q] pi assms by simp
      then show ?thesis using assms by simp
    qed
    ultimately show thesis using pi(2) by (intro that [of ?b dest "Some (p + i + 1)"] len) simp_all
  qed
qed

section \<open>Filling the buffer\<close>

text \<open>The bytes that are there or may still come; every turn that goes on makes them fewer.\<close>

definition left :: "readctx \<Rightarrow> net \<Rightarrow> nat" where
  "left rctx w = (rx_eptr rctx - rx_wptr rctx) + rx_bytes w"

lemma read_event:
  assumes "lsi_b_read sz t w = (n, d, w')"
  shows "n \<in> {0, -1, -2} \<or> (0 < n \<and> n = int (length d) \<and> length d \<le> sz \<and> rx_bytes w' + length d \<le> rx_bytes w)"
    "rx_bytes w' \<le> rx_bytes w" "n = 0 \<Longrightarrow> rx_bytes w' < rx_bytes w"
  using assms by (auto simp: lsi_b_read_def Let_def rx_bytes_def split: list.splits rx_event.splits if_splits)

definition read_res :: "int set" where
  "read_res = {1, 0, -1, -2}"

lemma read_more_total:
  assumes ok: "rx_ok rctx"
  obtains r rctx' w' where "read_more shnd rctx t w = Some (r, rctx', w')" "rx_ok rctx'" "r \<in> read_res"
    "r = 1 \<longrightarrow> rx_bytes w' < rx_bytes w" "left rctx' w' \<le> left rctx w" "r = 0 \<longrightarrow> left rctx' w' < left rctx w"
proof -
  define full where "full \<longleftrightarrow> WORKBUF_SZ - rx_eptr rctx = 0"
  define r1 where "r1 = (if full then rctx\<lparr>rx_workbuf := move_front (rx_workbuf rctx) (rx_wptr rctx) (rx_eptr rctx - rx_wptr rctx),
      rx_wptr := 0, rx_eptr := rx_eptr rctx - rx_wptr rctx\<rparr> else rctx)"
  have ok1: "rx_ok r1" "rx_eptr r1 - rx_wptr r1 = rx_eptr rctx - rx_wptr rctx"
    using ok by (auto simp: r1_def rx_ok_def move_front_def)
  obtain n d w' where rd: "lsi_b_read (WORKBUF_SZ - rx_eptr r1) t w = (n, d, w')" by (metis prod_cases3)
  have eq: "read_more shnd rctx t w =
      (if full \<and> rx_wptr rctx = 0 then Some (-1, rctx, w)
       else if n \<le> 0 then Some (n, r1, w')
       else do { buf \<leftarrow> wr_bytes (rx_workbuf r1) (rx_eptr r1) d;
                 Some (1, r1\<lparr>rx_workbuf := buf, rx_eptr := rx_eptr r1 + nat n\<rparr>, w') })"
    unfolding read_more_def Let_def full_def [symmetric] r1_def [symmetric] read_wrap_eq rd by simp
  consider "full \<and> rx_wptr rctx = 0" | "\<not> (full \<and> rx_wptr rctx = 0)" "n \<le> 0" | "\<not> (full \<and> rx_wptr rctx = 0)" "0 < n" by linarith
  then show thesis
  proof cases
    case 1
    then show thesis using ok by (intro that [of "-1" rctx w]) (auto simp: eq read_res_def)
  next
    case 2
    with read_event(1) [OF rd] have "n \<in> read_res" "n \<noteq> 1" by (auto simp: read_res_def)
    moreover have "left r1 w' \<le> left rctx w" "n = 0 \<longrightarrow> left r1 w' < left rctx w"
      using read_event(2,3) [OF rd] ok1(2) by (simp_all add: left_def)
    ultimately show thesis using 2 ok1 by (intro that [of n r1 w']) (auto simp: eq)
  next
    case 3
    with read_event(1) [OF rd] have n: "n = int (length d)" "length d \<le> WORKBUF_SZ - rx_eptr r1" "rx_bytes w' + length d \<le> rx_bytes w" "d \<noteq> []" by auto
    have d0: "0 < length d" using n(4) by simp
    let ?buf = "take (rx_eptr r1) (rx_workbuf r1) @ d @ drop (rx_eptr r1 + length d) (rx_workbuf r1)"
    have wb: "wr_bytes (rx_workbuf r1) (rx_eptr r1) d = Some ?buf"
      using ok1 n(2) by (intro wr_bytes_fit) (auto simp: rx_ok_def)
    show thesis
    proof (rule that)
      show "read_more shnd rctx t w = Some (1, r1\<lparr>rx_workbuf := ?buf, rx_eptr := rx_eptr r1 + length d\<rparr>, w')"
        using 3 n(1) wb by (simp add: eq)
      show "rx_ok (r1\<lparr>rx_workbuf := ?buf, rx_eptr := rx_eptr r1 + length d\<rparr>)" using ok1 n(2) by (auto simp: rx_ok_def)
      show "1 = (1::int) \<longrightarrow> rx_bytes w' < rx_bytes w" "left (r1\<lparr>rx_workbuf := ?buf, rx_eptr := rx_eptr r1 + length d\<rparr>) w' \<le> left rctx w"
        using n(3) d0 ok1 by (auto simp: left_def rx_ok_def simp del: length_greater_0_conv)
    qed (simp_all add: read_res_def)
  qed
qed

lemma first_delim_pend:
  assumes "rx_ok rctx" "first_delim (pend rctx) = Some k"
  shows "rx_wptr rctx + k < rx_eptr rctx"
  using first_delim_less [OF assms(2)] length_pend [OF assms(1)] by simp

lemma fill_loop_total:
  "rx_ok rctx \<Longrightarrow> rx_bytes w < fuel \<Longrightarrow>
   \<exists>r delim rctx' t' w'. fill_loop fuel shnd rctx tend t w = Some (r, delim, rctx', t', w') \<and> rx_ok rctx' \<and> r \<in> read_res \<and>
     left rctx' w' \<le> left rctx w \<and> (r = 0 \<longrightarrow> left rctx' w' < left rctx w) \<and>
     (r = 1 \<longrightarrow> rx_bytes w' \<le> rx_bytes w \<and> rx_wptr rctx' \<le> delim \<and> delim < rx_eptr rctx')"
proof (induction fuel arbitrary: rctx t w)
  case (Suc fuel)
  from find_delim_spec [OF Suc.prems(1)] obtain r1 where r1:
    "find_delim rctx = Some (map_option (\<lambda>k. rx_wptr rctx + k) (first_delim (pend rctx)), r1)"
    "rx_ok r1" "pend r1 = pend rctx" "rx_wptr r1 = rx_wptr rctx" "rx_eptr r1 = rx_eptr rctx" by blast
  have lf: "left r1 w = left rctx w" using r1 by (simp add: left_def)
  show ?case
  proof (cases "first_delim (pend rctx)")
    case (Some k)
    have "fill_loop (Suc fuel) shnd rctx tend t w = Some (1, rx_wptr rctx + k, r1, t, w)" using r1(1) Some by simp
    moreover have "rx_wptr r1 + k < rx_eptr r1" using first_delim_pend [OF Suc.prems(1) Some] r1 by simp
    ultimately show ?thesis using r1(2,4) lf by (simp add: read_res_def)
  next
    case None
    obtain t1 w1 where t1: "px_trem tend t w = (t1, w1)" by (cases "px_trem tend t w") auto
    note rx1 = rx_cong [OF px_trem_rx [OF t1]]
    obtain r r2 w2 where r2: "read_more shnd r1 t1 w1 = Some (r, r2, w2)" "rx_ok r2" "r \<in> read_res"
      "r = 1 \<longrightarrow> rx_bytes w2 < rx_bytes w1" "left r2 w2 \<le> left r1 w1" "r = 0 \<longrightarrow> left r2 w2 < left r1 w1"
      by (rule read_more_total [OF r1(2)])
    have l1: "left r1 w1 = left rctx w" using lf rx1 by (simp add: left_def)
    show ?thesis
    proof (cases "r = 1")
      case False
      then have "r \<le> 0" using r2(3) by (auto simp: read_res_def)
      then have "fill_loop (Suc fuel) shnd rctx tend t w = Some (r, 0, r2, t1, w2)" using r1(1) None t1 r2(1) by simp
      then show ?thesis using r2 False l1 by simp
    next
      case True
      then have "fill_loop (Suc fuel) shnd rctx tend t w = fill_loop fuel shnd r2 tend t1 w2"
        using r1(1) None t1 r2(1) by simp
      moreover have "rx_bytes w2 < fuel" using True r2(4) rx1 Suc.prems(2) by simp
      ultimately show ?thesis using Suc.IH [OF r2(2), of w2 t1] True r2(4,5) l1 rx1 by fastforce
    qed
  qed
qed simp

lemma line_loop_total:
  "rx_ok rctx \<Longrightarrow> rx_bytes w < fl \<Longrightarrow> left rctx w < fuel \<Longrightarrow>
   \<exists>r ls dl rctx' w'. line_loop fuel fl shnd rctx tend t w = Some (r, ls, dl, rctx', w') \<and> rx_ok rctx' \<and> r \<in> read_res \<and>
     left rctx' w' \<le> left rctx w \<and> (r \<in> {0, 1} \<longrightarrow> left rctx' w' < left rctx w) \<and> (r = 1 \<longrightarrow> ls < dl \<and> dl < WORKBUF_SZ)"
proof (induction fuel arbitrary: rctx t w)
  case (Suc fuel)
  from fill_loop_total [OF Suc.prems(1,2), of shnd tend t] obtain r dl r1 t1 w1 where f:
    "fill_loop fl shnd rctx tend t w = Some (r, dl, r1, t1, w1)" "rx_ok r1" "r \<in> read_res"
    "r = 1 \<longrightarrow> rx_bytes w1 \<le> rx_bytes w \<and> rx_wptr r1 \<le> dl \<and> dl < rx_eptr r1"
    "left r1 w1 \<le> left rctx w" "r = 0 \<longrightarrow> left r1 w1 < left rctx w" by blast
  show ?case
  proof (cases "r = 1")
    case False
    then have "r \<le> 0" using f(3) by (auto simp: read_res_def)
    with f False show ?thesis by simp
  next
    case True
    note g = f(4) [rule_format, OF True]
    let ?r2 = "r1\<lparr>rx_wptr := rx_wptr r1 + 1\<rparr>"
    have ok2: "rx_ok ?r2" "dl < WORKBUF_SZ" using f(2) g by (auto simp: rx_ok_def)
    show ?thesis
    proof (cases "dl = rx_wptr r1")
      case eq: True
      have l2: "left ?r2 w1 < left rctx w" using g f(5) by (auto simp: left_def)
      then have "left ?r2 w1 < fuel" using Suc.prems(3) by simp
      moreover have "rx_bytes w1 < fl" using g Suc.prems(2) by simp
      ultimately show ?thesis using Suc.IH [OF ok2(1), of w1 t1] f(1) True eq l2 by fastforce
    next
      case False
      then have "rx_ok (?r2\<lparr>rx_wptr := rx_wptr ?r2 + (dl - rx_wptr r1)\<rparr>)" using f(2) g by (auto simp: rx_ok_def)
      moreover have "left (?r2\<lparr>rx_wptr := rx_wptr ?r2 + (dl - rx_wptr r1)\<rparr>) w1 < left rctx w"
        using g f(5) by (auto simp: left_def)
      ultimately show ?thesis using False f(1) True g ok2(2) by (auto simp: read_res_def Let_def)
    qed
  qed
qed simp

section \<open>Reading a message\<close>

lemma rx_ok_upd: "rx_ok r \<Longrightarrow> length b = length (rx_workbuf r) \<Longrightarrow> rx_ok (r\<lparr>rx_workbuf := b\<rparr>)"
  by (simp add: rx_ok_def)

text \<open>What a successful read hands out: a well formed message whose arguments lie behind a byte of the buffer.\<close>

definition read_good :: "int \<Rightarrow> nat option list \<Rightarrow> readctx \<Rightarrow> bool" where
  "read_good r offs rctx \<longleftrightarrow> r \<in> read_res \<and> rx_ok rctx \<and>
     (r = 1 \<longrightarrow> tokarr_ok (tok_strs (rx_workbuf rctx) offs) \<and> args_in (length (rx_workbuf rctx)) offs)"

lemma tokenize_good:
  assumes "rx_ok rctx" "length b = length (rx_workbuf rctx)" "p \<le> q" "q < length b" "b ! q = NUL"
  obtains ok b' offs where "lsi_ut_tokenize b p = Some (ok, b', offs)"
    "read_good (if ok then 1 else -1) offs (rctx\<lparr>rx_workbuf := b'\<rparr>)"
proof -
  obtain ok b' offs where t: "lsi_ut_tokenize b p = Some (ok, b', offs)" "length b' = length b"
    "ok \<longrightarrow> tokarr_ok (tok_strs b' offs) \<and> args_in (length b) offs"
    by (rule lsi_ut_tokenize_total [OF assms(3-5)])
  have "read_good (if ok then 1 else -1) offs (rctx\<lparr>rx_workbuf := b'\<rparr>)"
    using t assms(1,2) rx_ok_upd [OF assms(1), of b'] by (simp add: read_good_def read_res_def)
  with t(1) show thesis by (rule that)
qed

lemma lsi_io_read_total:
  assumes ok: "rx_ok rctx"
  obtains r offs tags rctx' w' where "lsi_io_read shnd rctx ntags to_us w = Some (r, offs, tags, rctx', w')"
    "read_good r offs rctx'" "left rctx' w' \<le> left rctx w" "r \<in> {0, 1} \<longrightarrow> left rctx' w' < left rctx w"
proof -
  obtain tend w1 where te: "px_tend to_us w = (tend, w1)" by (cases "px_tend to_us w") auto
  let ?rx = "reset_empty rctx"
  have ok0: "rx_ok ?rx" using reset_empty_spec [OF ok] by simp
  have "rx_bytes w1 < read_fuel w1" "left ?rx w1 < line_fuel ?rx w1"
    by (simp_all add: read_fuel_def line_fuel_def left_def)
  from line_loop_total [OF ok0 this, of shnd tend 0] obtain r ls dl r1 w2 where l:
    "line_loop (line_fuel ?rx w1) (read_fuel w1) shnd ?rx tend 0 w1 = Some (r, ls, dl, r1, w2)" "rx_ok r1" "r \<in> read_res"
    "r = 1 \<longrightarrow> ls < dl \<and> dl < WORKBUF_SZ" "left r1 w2 \<le> left ?rx w1" "r \<in> {0, 1} \<longrightarrow> left r1 w2 < left ?rx w1" by blast
  have "length (pend ?rx) \<le> length (pend rctx)" using reset_empty_spec [OF ok] by (simp add: length_dropWhile_le)
  then have "left ?rx w1 \<le> left rctx w"
    using rx_cong [OF px_tend_rx [OF te]] length_pend [OF ok] length_pend [OF ok0] by (simp add: left_def)
  then have le: "left (r1\<lparr>rx_workbuf := b1\<rparr>) w2 \<le> left rctx w" "r \<in> {0, 1} \<longrightarrow> left (r1\<lparr>rx_workbuf := b1\<rparr>) w2 < left rctx w" for b1
    using l(5,6) by (auto simp: left_def)
  note io = lsi_io_read_def te l(1)
  show thesis
  proof (cases "r = 1")
    case False
    then have "r \<le> 0" using l(3) by (auto simp: read_res_def)
    then have "lsi_io_read shnd rctx ntags to_us w = Some (r, [], None, r1, w2)" by (simp add: io)
    moreover have "read_good r [] r1" using l(2,3) False by (simp add: read_good_def)
    ultimately show thesis by (rule that) (use le [of "rx_workbuf r1"] in simp_all)
  next
    case True
    note ld = l(4) [rule_format, OF True]
    have lt: "left (r1\<lparr>rx_workbuf := b1\<rparr>) w2 < left rctx w" for b1 using le(2) True by simp
    note lts = le(1) impI [OF lt]
    let ?b = "(rx_workbuf r1)[dl := NUL]"
    have b: "dl < length (rx_workbuf r1)" "length ?b = length (rx_workbuf r1)" "?b ! dl = NUL"
      using ld l(2) by (simp_all add: rx_ok_def)
    have bad: "read_good (-1) o1 (r1\<lparr>rx_workbuf := b1\<rparr>)" if "length b1 = length ?b" for o1 b1
      using that rx_ok_upd [OF l(2), of b1] by (simp add: read_good_def read_res_def)
    show thesis
    proof (cases "?b ! ls = CHR ''@''")
      case False
      obtain ok b' offs where t: "lsi_ut_tokenize ?b ls = Some (ok, b', offs)"
        "read_good (if ok then 1 else -1) offs (r1\<lparr>rx_workbuf := b'\<rparr>)"
        by (rule tokenize_good [OF l(2) b(2), of ls dl]) (use ld b in simp_all)
      have "lsi_io_read shnd rctx ntags to_us w =
          Some (if ok then 1 else -1, offs, map_option (\<lambda>_. []) ntags, r1\<lparr>rx_workbuf := b'\<rparr>, w2)"
        using True b(1) False t(1) by (simp add: io Let_def)
      then show thesis using t(2) lts by (rule that)
    next
      case at: True
      let ?n = "case ntags of Some n \<Rightarrow> n | None \<Rightarrow> 0"
      obtain b1 tags start where e: "lsi_ut_extract_tags ?b (ls + 1) ?n = Some (b1, tags, start)" "length b1 = length ?b"
        "\<And>p. start = Some p \<Longrightarrow> p \<le> dl \<and> b1 ! dl = NUL"
        by (rule extract_tags_total [of "ls + 1" dl ?b ?n]) (use ld b in auto)
      note io2 = io Let_def True b(1) at e(1) [unfolded Suc_eq_plus1 [symmetric]]
      show thesis
      proof (cases start)
        case None
        then have "lsi_io_read shnd rctx ntags to_us w = Some (-1, [], None, r1\<lparr>rx_workbuf := b1\<rparr>, w2)"
          by (simp add: io2)
        then show thesis by (rule that) (rule bad [OF e(2)] lts)+
      next
        case (Some p)
        note p = e(3) [OF Some]
        have pl: "p < length b1" using p b(1) e(2) by simp
        show thesis
        proof (cases "b1 ! p = NUL")
          case True
          then have "lsi_io_read shnd rctx ntags to_us w =
              Some (-1, [], map_option (\<lambda>_. tags) ntags, r1\<lparr>rx_workbuf := b1\<rparr>, w2)"
            using Some pl by (simp add: io2)
          then show thesis by (rule that) (rule bad [OF e(2)] lts)+
        next
          case False
          obtain ok b' offs where t: "lsi_ut_tokenize b1 p = Some (ok, b', offs)"
            "read_good (if ok then 1 else -1) offs (r1\<lparr>rx_workbuf := b'\<rparr>)"
            by (rule tokenize_good [OF l(2), of b1 p dl]) (use p b e(2) in simp_all)
          have "lsi_io_read shnd rctx ntags to_us w =
              Some (if ok then 1 else -1, offs, map_option (\<lambda>_. tags) ntags, r1\<lparr>rx_workbuf := b'\<rparr>, w2)"
            using Some pl False t(1) by (simp add: io2)
          then show thesis using t(2) lts by (rule that)
        qed
      qed
    qed
  qed
qed

lemma colon_before_total:
  assumes "args_in (length buf) tok" "2 < msg_ac (tok_strs buf tok)"
  shows "\<exists>b. colon_before buf tok (msg_ac (tok_strs buf tok)) = Some b"
proof -
  let ?l = "msg_ac (tok_strs buf tok)"
  have l: "2 \<le> ?l - 1" "?l - 1 < ?l" using assms(2) by linarith+
  obtain s where s: "tk (tok_strs buf tok) (?l - 1) = Some s" using tk_below_ac [OF l] by blast
  then have lt: "?l - 1 < length tok" by (auto simp: tk_def tok_strs_def split: if_splits)
  with s obtain k where k: "tok ! (?l - 1) = Some k" by (auto simp: tk_def tok_strs_def)
  with assms lt l have "0 < k" "k \<le> length buf" by (auto simp: args_in_def)
  with lt k l show ?thesis by (simp add: colon_before_def)
qed

lemma lsi_conn_read_total:
  assumes ok: "rx_ok (co_rctx ctx)"
  obtains r msg tags ctx' w' where "lsi_conn_read ntags to_us ctx w = Some (r, msg, tags, ctx', w')"
    "r \<in> {1, 0, -1}" "rx_ok (co_rctx ctx')" "r = 1 \<longrightarrow> tokarr_ok msg"
    "left (co_rctx ctx') w' \<le> left (co_rctx ctx) w" "r \<in> {0, 1} \<longrightarrow> left (co_rctx ctx') w' < left (co_rctx ctx) w"
proof (cases "co_online ctx")
  case False
  then show thesis using ok by (intro that [of "-1" "[]" None ctx w]) (simp_all add: lsi_conn_read_def)
next
  case True
  obtain n tok tags rctx w1 where io: "lsi_io_read (co_shnd ctx) (co_rctx ctx) ntags to_us w = Some (n, tok, tags, rctx, w1)"
    "read_good n tok rctx" "left rctx w1 \<le> left (co_rctx ctx) w" "n \<in> {0, 1} \<longrightarrow> left rctx w1 < left (co_rctx ctx) w"
    by (rule lsi_io_read_total [OF ok])
  note g = io(2) [unfolded read_good_def read_res_def]
  note cr = lsi_conn_read_def True io(1)
  let ?tags = "map_option (map (cstr_at (rx_workbuf rctx))) tags"
  consider "n = 0" | "n < 0" | "n = 1" using g by auto
  then show thesis
  proof cases
    case 1
    then show thesis using g io(3,4) by (intro that [of 0 "[]" ?tags "ctx\<lparr>co_rctx := rctx\<rparr>" w1]) (simp_all add: cr)
  next
    case 2
    obtain c2 w2 where rs: "lsi_conn_reset (ctx\<lparr>co_rctx := rctx\<rparr>) w1 = (c2, w2)" by fastforce
    then have k: "rx_ok (co_rctx (c2\<lparr>co_eof := (n = -2)\<rparr>))" using g by (auto simp: lsi_conn_reset_def Let_def rx_ok_def)
    have "left (co_rctx (c2\<lparr>co_eof := (n = -2)\<rparr>)) w2 \<le> left rctx w1"
      using rs by (auto simp: lsi_conn_reset_def lsi_b_close_def Let_def left_def rx_bytes_def split: if_splits)
    with k io(3) have k: "rx_ok (co_rctx (c2\<lparr>co_eof := (n = -2)\<rparr>))" "left (co_rctx (c2\<lparr>co_eof := (n = -2)\<rparr>)) w2 \<le> left (co_rctx ctx) w"
      by simp_all
    have "lsi_conn_read ntags to_us ctx w = Some (-1, [], ?tags, c2\<lparr>co_eof := (n = -2)\<rparr>, w2)"
      using 2 rs by (simp add: cr)
    then show thesis by (rule that) (use k in simp_all)
  next
    case 3
    let ?m = "tok_strs (rx_workbuf rctx) tok"
    have "\<exists>b. (if 2 < msg_ac ?m then colon_before (rx_workbuf rctx) tok (msg_ac ?m)
        else Some (co_colon_trail (ctx\<lparr>co_rctx := rctx\<rparr>))) = Some b"
    proof (cases "2 < msg_ac ?m")
      case True
      then show ?thesis using colon_before_total [of "rx_workbuf rctx" tok] g 3 by simp
    qed simp
    then obtain b where b: "(if 2 < msg_ac ?m then colon_before (rx_workbuf rctx) tok (msg_ac ?m)
        else Some (co_colon_trail (ctx\<lparr>co_rctx := rctx\<rparr>))) = Some b" by blast
    have "lsi_conn_read ntags to_us ctx w = Some (1, ?m, ?tags, ctx\<lparr>co_rctx := rctx, co_colon_trail := b\<rparr>, w1)"
      using 3 by (simp add: cr Let_def b split del: if_split)
    then show thesis by (rule that) (use g 3 io(3,4) in simp_all)
  qed
qed

section \<open>The property\<close>

text \<open>
  C3: Reading is safe and always ends.  Whatever the reads, the clock and the bytes are (NULs, message
  tags, no line break for ever, timeouts and failures at any point), \<open>lsi_conn_read\<close> returns without
  leaving the receive buffer, keeps the buffer usable, says 1, 0 or -1, and a message it hands out
  has a command, at most 17 further fields, and C strings in all of them.
\<close>

theorem lsi_conn_read_safe:
  assumes "rx_ok (co_rctx ctx)"
  shows "\<exists>r msg tags ctx' w'. lsi_conn_read ntags to_us ctx w = Some (r, msg, tags, ctx', w') \<and>
     r \<in> {1, 0, -1} \<and> rx_ok (co_rctx ctx') \<and> (r = 1 \<longrightarrow> tokarr_ok msg)"
  by (rule lsi_conn_read_total [OF assms]) blast

theorem lsi_conn_read_safe_witness:
  "\<forall>w. \<exists>c. fst (lsi_conn_init []) = Some c \<and>
     (\<exists>r msg tags ctx' w'. lsi_conn_read None 0 (c\<lparr>co_online := True\<rparr>) w = Some (r, msg, tags, ctx', w') \<and> r \<in> {1, 0, -1})"
proof
  fix w
  obtain c where c: "fst (lsi_conn_init []) = Some c" "rx_ok (co_rctx c)"
    by (auto simp: lsi_conn_init_def lsi_b_strdup_def readctx_init_def rx_ok_def)
  then have "rx_ok (co_rctx (c\<lparr>co_online := True\<rparr>))" by simp
  from lsi_conn_read_safe [OF this, of None 0 w] c(1)
  show "\<exists>c. fst (lsi_conn_init []) = Some c \<and>
     (\<exists>r msg tags ctx' w'. lsi_conn_read None 0 (c\<lparr>co_online := True\<rparr>) w = Some (r, msg, tags, ctx', w') \<and> r \<in> {1, 0, -1})"
    by blast
qed

end
