(* ===== verification/Corehnd.thy ===== *)
theory Corehnd
  imports Trackframe Iosafe
begin

text \<open>
  The handlers of the session (\<open>irc_msghnd.c\<close>) and of IRCv3 (\<open>v3.c\<close>): on which messages they read a
  field that is not there, and what they leave alone.
\<close>

section \<open>Where a handler fails\<close>

text \<open>
  A 004 with too few fields, or outside the logon, is searched for a host name in a prefix it need
  not have; a \<open>CAP LS\<close> with a continuation mark but no list is read one field too far.
\<close>

definition core_crash :: "hnd_fn \<Rightarrow> tokarr \<Rightarrow> bool \<Rightarrow> st \<Rightarrow> bool" where
  "core_crash h msg logon s \<longleftrightarrow>
     (h = H_004 \<and> (msg_ac msg < 7 \<or> (\<not> ic_dumb (st_irc s) \<and> \<not> logon)) \<and> tk msg 0 = None) \<or>
     (h = H_CAP \<and> logon \<and> msg_ac msg = 5 \<and> tk msg 3 = Some ''LS'' \<and>
        (case tk msg 4 of Some a \<Rightarrow> hdz a = CHR ''*'' | None \<Rightarrow> False))"

lemma tk_at_ac:
  assumes "i = msg_ac msg"
  shows "tk msg i = None"
proof -
  have c: "count_args xs < length xs \<Longrightarrow> xs ! count_args xs = None" for xs
    by (induction xs rule: count_args.induct) auto
  show ?thesis
  proof (cases "msg_ac msg < length msg")
    case True
    then have "drop 2 msg ! count_args (drop 2 msg) = None" by (intro c) (simp add: msg_ac_def)
    then show ?thesis using True assms by (simp add: tk_def msg_ac_def)
  qed (simp add: tk_def assms)
qed

lemma ac_field: "\<not> msg_ac msg < n \<Longrightarrow> 2 \<le> i \<Longrightarrow> i < n \<Longrightarrow> \<exists>x. tk msg i = Some x"
  using tk_below_ac [of i msg] by simp

lemma clonearr_unlimited: "lsi_ut_clonearr msg [] = Some (Some msg, [])"
proof -
  have "clone_loop xs res [] = Some (Some (res @ xs), [])" for xs res
  proof (induction xs arbitrary: res)
    case (Cons x xs)
    then show ?case by (cases x) (simp_all add: lsi_b_strdup_def)
  qed simp
  then show ?thesis by (simp add: lsi_ut_clonearr_def)
qed

lemma set_orc_same: "orc_of s = [] \<Longrightarrow> set_orc [] s = s"
  by (cases s; cases "st_hp s") (simp add: orc_of_def set_orc_def)

lemma keep_logonconv_eq:
  "orc_of s = [] \<Longrightarrow> keep_logonconv i msg s = Some (upd_irc (\<lambda>x. x\<lparr>ic_logonconv := (ic_logonconv x)[i := Some msg]\<rparr>) s)"
  by (simp add: keep_logonconv_def clonearr_unlimited set_orc_same)

lemma strdup_unlimited: "orc_of s = [] \<Longrightarrow> st_strdup x s = (Some x, s)"
  by (cases s; cases "st_hp s") (simp add: orc_of_def st_strdup_def st_malloc_def)

lemma mutnick_total: "\<exists>x. run_mutnick mutn f nick 64 w = Some x"
  by (cases f) (auto simp: run_mutnick_def lsi_ut_mut_nick_def Let_def split: prod.splits)

section \<open>Numeric 005\<close>

text \<open>The handlers of the attributes change what the server supports, and nothing else.\<close>

definition no005 :: "irc \<Rightarrow> irc" where
  "no005 x = x\<lparr>ic_casemap := 0, ic_m005modepfx := ([], []), ic_m005chanmodes := [], ic_m005chantypes := [],
     ic_m005attrs := None\<rparr>"

definition attr_kept :: "st \<Rightarrow> st \<Rightarrow> bool" where
  "attr_kept s s' \<longleftrightarrow> st_hp s' = st_hp s \<and> st_net s' = st_net s \<and> no005 (st_irc s') = no005 (st_irc s)"

lemma attr_hnd_no005: "attr_hnd nam = Some h \<Longrightarrow> h v x = (r, x') \<Longrightarrow> no005 x' = no005 x"
  by (auto simp: attr_hnd_def handle_005_CASEMAPPING_def handle_005_PREFIX_def handle_005_CHANMODES_def
      handle_005_CHANTYPES_def no005_def Let_def split: if_splits option.splits)

lemma store_attr_kept:
  assumes "orc_of s = []"
  shows "attr_kept s (store_attr nam (Some v) s)"
proof -
  obtain ok m orc where p: "lsi_skmap_put (orc_of s) (snd (lsi_skmap_del (ic_m005attrs (st_irc s)) nam)) (Some nam) (Some v) = (ok, m, orc)"
    by (metis prod_cases3)
  with put_orc [OF p] assms set_orc_same [OF assms] show ?thesis
    by (simp add: store_attr_def Let_def upd_irc_def attr_kept_def no005_def)
qed

lemma attr_kept_orc: "attr_kept s s' \<Longrightarrow> orc_of s' = orc_of s"
  by (simp add: attr_kept_def orc_of_def)

lemma attr_step_total:
  assumes "orc_of s = []"
  obtains r b s' where "attr_step tok s = Some (r, b, s')" "attr_kept s s'"
proof -
  define nv where "nv = (case strchr tok (CHR ''='') of Some i \<Rightarrow> (take i tok, drop (i + 1) tok) | None \<Rightarrow> (tok, []))"
  obtain nam v where n: "nv = (nam, v)" by fastforce
  let ?s2 = "store_attr nam (Some v) s"
  note st = store_attr_kept [OF assms, of nam v]
  have eq: "attr_step tok s = (case attr_hnd nam of None \<Rightarrow> Some (0, False, ?s2)
      | Some h \<Rightarrow> (let (r, ctx) = h v (st_irc ?s2) in Some (r, lsi_b_strcasecmp nam ''CASEMAPPING'' = 0, ?s2\<lparr>st_irc := ctx\<rparr>)))"
    unfolding attr_step_def nv_def [symmetric] n by (simp add: strdup_unlimited [OF assms] Let_def split: option.split)
  show thesis
  proof (cases "attr_hnd nam")
    case None
    then show thesis using st eq by (intro that [of 0 False ?s2]) simp_all
  next
    case (Some h)
    obtain r ctx where h: "h v (st_irc ?s2) = (r, ctx)" by fastforce
    have "attr_kept s (?s2\<lparr>st_irc := ctx\<rparr>)" using st attr_hnd_no005 [OF Some h] by (simp add: attr_kept_def)
    moreover have "attr_step tok s = Some (r, lsi_b_strcasecmp nam ''CASEMAPPING'' = 0, ?s2\<lparr>st_irc := ctx\<rparr>)" using eq Some h by simp
    ultimately show thesis by (intro that)
  qed
qed

lemma attrs_loop_total:
  "orc_of s = [] \<Longrightarrow> list_all (\<lambda>t. t \<noteq> None) ts \<Longrightarrow>
   \<exists>r c e s'. attrs_loop ts ret cm s = Some (r, c, e, s') \<and> attr_kept s s'"
proof (induction ts arbitrary: ret cm s)
  case (Cons t ts)
  then obtain tok where t: "t = Some tok" by auto
  obtain r b s1 where s1: "attr_step tok s = Some (r, b, s1)" "attr_kept s s1" by (rule attr_step_total [OF Cons.prems(1)])
  from Cons.IH [of s1 "ret OR r" "cm \<or> b"] Cons.prems attr_kept_orc [OF s1(2)] obtain r' c e s' where
    "attrs_loop ts (ret OR r) (cm \<or> b) s1 = Some (r', c, e, s')" "attr_kept s1 s'" by auto
  with t s1 show ?case by (auto simp: attr_kept_def)
next
  case Nil
  then show ?case by (intro exI [of _ ret] exI [of _ cm] exI [of _ False] exI [of _ s]) (simp add: attr_kept_def)
qed

lemma trk_init_returns:
  assumes "ic_msghnds (st_irc s) \<noteq> []"
  shows "\<exists>ok s'. lsi_trk_init s = Some (ok, s')"
proof -
  have "list_all (\<lambda>(cmd, _). cmd \<noteq> []) trk_handlers" by (simp add: trk_handlers_def)
  from reg_seq_spec [OF assms this, of "''track''"] obtain ok s1 where "reg_seq trk_handlers ''track'' s = Some (ok, s1)" by blast
  then show ?thesis by (auto simp: lsi_trk_init_def Let_def split: prod.split)
qed

lemma handle_005_attrs:
  assumes "orc_of s = []" "nargs = msg_ac msg"
  obtains ret c e s1 where "attrs_loop (map (tk msg) [3..<nargs - 1]) 0 False s = Some (ret, c, e, s1)" "attr_kept s s1"
proof -
  have "list_all (\<lambda>t. t \<noteq> None) (map (tk msg) [3..<nargs - 1])"
    unfolding list_all_iff using tk_below_ac [of _ msg] assms(2) by (force simp del: not_None_eq)
  from attrs_loop_total [OF assms(1) this, of 0 False] that show thesis by blast
qed

lemma handle_005_total:
  assumes "orc_of s = []" "ic_msghnds (st_irc s) \<noteq> []"
  shows "\<exists>r s'. handle_005 msg (msg_ac msg) logon s = Some (r, s')"
proof -
  obtain ret c e s1 where a: "attrs_loop (map (tk msg) [3..<msg_ac msg - 1]) 0 False s = Some (ret, c, e, s1)" "attr_kept s s1"
    by (rule handle_005_attrs [OF assms(1) refl])
  have "ic_msghnds (no005 x) = ic_msghnds x" for x by (simp add: no005_def)
  then have "ic_msghnds (st_irc s1) \<noteq> []" using a(2) assms(2) unfolding attr_kept_def by metis
  from trk_init_returns [OF this] a(1) show ?thesis by (auto simp: handle_005_def)
qed

section \<open>The failures of the core handlers\<close>

definition core_hnds :: "hnd_fn set" where
  "core_hnds = set (map snd (imh_handlers False)) \<union> set (map snd v3_handlers)"

lemma CAP_LS_None_iff:
  assumes "\<not> msg_ac msg < 5"
  shows "handle_CAP_LS msg (msg_ac msg) logon s = None \<longleftrightarrow> logon \<and> msg_ac msg = 5 \<and> hdz (the (tk msg 4)) = CHR ''*''"
proof -
  obtain a where a: "tk msg 4 = Some a" using ac_field [OF assms, of 4] by auto
  have "tk msg 5 = None \<longleftrightarrow> msg_ac msg = 5" using assms tk_at_ac [of 5 msg] ac_field [of msg 6 5] by fastforce
  with a assms show ?thesis by (cases "tk msg 5") (simp_all add: handle_CAP_LS_def Let_def)
qed

lemma handle_CAP_None_iff:
  "handle_CAP msg (msg_ac msg) logon s = None \<longleftrightarrow> core_crash H_CAP msg logon s"
proof (cases "msg_ac msg < 4")
  case True
  then show ?thesis by (simp add: handle_CAP_def core_crash_def)
next
  case False
  obtain sub where sub: "tk msg 3 = Some sub" using ac_field [OF False, of 3] by auto
  have ack: "handle_CAP_ACK msg (msg_ac msg) logon s \<noteq> None" "handle_CAP_NAK msg (msg_ac msg) logon s \<noteq> None"
    using ac_field [of msg 5 4] by (auto simp: handle_CAP_ACK_def handle_CAP_NAK_def Let_def simp del: not_None_eq)
  then obtain r1 s1 r2 s2 where ack': "handle_CAP_ACK msg (msg_ac msg) logon s = Some (r1, s1)"
    "handle_CAP_NAK msg (msg_ac msg) logon s = Some (r2, s2)" by (metis not_None_eq prod.collapse)
  have eq: "handle_CAP msg (msg_ac msg) logon s = None \<longleftrightarrow> sub = ''LS'' \<and> handle_CAP_LS msg (msg_ac msg) logon s = None"
    using False sub ack' by (cases "handle_CAP_LS msg (msg_ac msg) logon s") (auto simp: handle_CAP_def Let_def split: prod.split)
  show ?thesis
  proof (cases "msg_ac msg < 5")
    case True
    then have "handle_CAP_LS msg (msg_ac msg) logon s \<noteq> None" by (simp add: handle_CAP_LS_def)
    with True eq show ?thesis by (simp add: core_crash_def)
  next
    case five: False
    obtain a where "tk msg 4 = Some a" using ac_field [OF five, of 4] by auto
    with eq sub CAP_LS_None_iff [OF five, of logon s] show ?thesis by (auto simp: core_crash_def)
  qed
qed

lemma handle_004_None_iff:
  assumes "orc_of s = []"
  shows "handle_004 msg (msg_ac msg) logon s = None \<longleftrightarrow> core_crash H_004 msg logon s"
proof (cases "msg_ac msg < 7 \<or> (\<not> ic_dumb (st_irc s) \<and> \<not> logon)")
  case True
  then show ?thesis by (cases "tk msg 0") (auto simp: handle_004_def core_crash_def)
next
  case False
  then have "\<not> msg_ac msg < 7" by simp
  then obtain a b c d where "tk msg 3 = Some a" "tk msg 4 = Some b" "tk msg 5 = Some c" "tk msg 6 = Some d"
    using ac_field [OF \<open>\<not> msg_ac msg < 7\<close>, of 3] ac_field [OF \<open>\<not> msg_ac msg < 7\<close>, of 4]
      ac_field [OF \<open>\<not> msg_ac msg < 7\<close>, of 5] ac_field [OF \<open>\<not> msg_ac msg < 7\<close>, of 6] by auto
  with False show ?thesis by (auto simp: handle_004_def core_crash_def keep_logonconv_eq [OF assms])
qed

text \<open>The others always return.\<close>

lemma core_total:
  fixes msg :: tokarr
  assumes orc: "orc_of s = []"
  defines "n \<equiv> msg_ac msg"
  shows "handle_PING msg n logon s \<noteq> None" "handle_bad_nick mutn msg n logon s \<noteq> None" "handle_464 msg n logon s \<noteq> None"
    "handle_NICK msg n logon s \<noteq> None" "handle_ERROR msg n logon s \<noteq> None" "handle_MODE msg n logon s \<noteq> None"
    "handle_001 msg n logon s \<noteq> None" "handle_002 msg n logon s \<noteq> None" "handle_003 msg n logon s \<noteq> None"
    "handle_383 msg n logon s \<noteq> None" "handle_484 msg n logon s \<noteq> None" "handle_465 msg n logon s \<noteq> None"
    "handle_466 msg n logon s \<noteq> None"
proof -
  note f = ac_field [of msg 3 2] ac_field [of msg 4 3] ac_field [of msg 4 2]
  show "handle_PING msg n logon s \<noteq> None" using f unfolding n_def by (auto simp: handle_PING_def Let_def split: prod.split)
  show "handle_bad_nick mutn msg n logon s \<noteq> None"
  proof (cases "ic_cb_mut_nick (st_irc s)")
    case (Some g)
    obtain nick w where "run_mutnick mutn g (ic_mynick (st_irc s)) 64 (st_net s) = Some (nick, w)"
      using mutnick_total [of mutn g "ic_mynick (st_irc s)" "st_net s"] by auto
    with Some show ?thesis by (auto simp: handle_bad_nick_def MAX_NICK_LEN_def Let_def split: prod.split)
  qed (simp add: handle_bad_nick_def)
  show "handle_NICK msg n logon s \<noteq> None" using f unfolding n_def by (auto simp: handle_NICK_def split: option.split)
  show "handle_MODE msg n logon s \<noteq> None" using f unfolding n_def by (auto simp: handle_MODE_def)
  show "handle_001 msg n logon s \<noteq> None" using f unfolding n_def by (auto simp: handle_001_def keep_logonconv_eq [OF orc] Let_def)
  show "handle_383 msg n logon s \<noteq> None" using f unfolding n_def by (auto simp: handle_383_def Let_def)
qed (simp_all add: handle_464_def handle_ERROR_def handle_002_def handle_003_def handle_logonconv_def keep_logonconv_eq [OF orc]
    handle_484_def handle_465_def handle_466_def Let_def split: prod.split)

lemma v3_total:
  "handle_670 msg n logon s \<noteq> None" "handle_691 msg n logon s \<noteq> None" "handle_903 msg n logon s \<noteq> None"
  "handle_saslerr msg n logon s \<noteq> None" "handle_AUTHENTICATE msg n logon s \<noteq> None"
  by (auto simp: handle_670_def handle_691_def handle_903_def handle_saslerr_def handle_AUTHENTICATE_def have_sasl_def Let_def
      split: prod.split)

lemma core_None_iff:
  assumes orc: "orc_of s = []" and tb: "ic_msghnds (st_irc s) \<noteq> []" and h: "h \<in> core_hnds"
  shows "run_hnd mutn h msg (msg_ac msg) logon s = None \<longleftrightarrow> core_crash h msg logon s"
proof (cases "h = H_004 \<or> h = H_CAP")
  case True
  then show ?thesis using handle_004_None_iff [OF orc] handle_CAP_None_iff by auto
next
  case False
  then have "h \<in> {H_PING, H_bad_nick, H_464, H_core_NICK, H_ERROR, H_core_MODE, H_001, H_002, H_003, H_383, H_484, H_465, H_466,
      H_005, H_670, H_691, H_903, H_saslerr, H_AUTHENTICATE}"
    using h by (auto simp: core_hnds_def imh_handlers_def v3_handlers_def)
  moreover have "handle_005 msg (msg_ac msg) logon s \<noteq> None" using handle_005_total [OF orc tb, of msg logon] by auto
  ultimately have "run_hnd mutn h msg (msg_ac msg) logon s \<noteq> None"
    by (elim insertE emptyE) (simp_all add: core_total [OF orc] v3_total del: not_None_eq)
  with False show ?thesis by (simp add: core_crash_def)
qed

section \<open>What they leave alone\<close>

text \<open>
  The settings of the user that a session does not change, and the part of the state that the tracking
  code, the dispatcher and the next connect depend on.
\<close>

definition conf_of :: "st \<Rightarrow> umsghnd list \<times> umsghnd list \<times> bool \<times> string option \<times> bool \<times> int \<times> string ownedptr" where
  "conf_of s = (let x = st_irc s in (ic_uprehnds x, ic_uposthnds x, ic_tracking x, ic_nick x, ic_starttls x,
     co_ptype (ic_con x), co_laddr (ic_con x)))"

definition sess_view :: "st \<Rightarrow> heap \<times> addr skmap ownedptr \<times> addr skmap option \<times> (string \<times> string) \<times> string list \<times> nat \<times>
    msghnd list \<times> bool \<times> bool \<times> umsghnd list \<times> umsghnd list \<times> bool \<times> string option \<times> bool \<times> int \<times> string ownedptr" where
  "sess_view s = (let x = st_irc s in (st_hp s, ic_chans x, ic_users x, ic_m005modepfx x, ic_m005chanmodes x, ic_casemap x,
     ic_msghnds x, ic_tracking_enab x, ic_dumb x, conf_of s))"

definition rctx_of :: "st \<Rightarrow> readctx" where
  "rctx_of s = co_rctx (ic_con (st_irc s))"

text \<open>The input that is there or may still come; what a handler does never makes it more.\<close>

definition rx_left :: "st \<Rightarrow> nat" where
  "rx_left s = left (co_rctx (ic_con (st_irc s))) (st_net s)"

definition sess_kept :: "st \<Rightarrow> st \<Rightarrow> bool" where
  "sess_kept s s' \<longleftrightarrow> sess_view s' = sess_view s \<and> (rx_ok (rctx_of s) \<longrightarrow> rx_ok (rctx_of s')) \<and> rx_left s' \<le> rx_left s"

lemma sess_kept_refl: "sess_kept s s"
  by (simp add: sess_kept_def)

lemma sess_kept_trans: "sess_kept s s' \<Longrightarrow> sess_kept s' s'' \<Longrightarrow> sess_kept s s''"
  by (simp add: sess_kept_def)

definition rx_less :: "iconn \<Rightarrow> net \<Rightarrow> iconn \<Rightarrow> net \<Rightarrow> bool" where
  "rx_less c w c' w' \<longleftrightarrow> co_ptype c' = co_ptype c \<and> co_laddr c' = co_laddr c \<and> (rx_ok (co_rctx c) \<longrightarrow> rx_ok (co_rctx c')) \<and> left (co_rctx c') w' \<le> left (co_rctx c) w"

lemma st_conn_kept:
  assumes "st_conn f s = (ok, s')"
    and "\<And>c w ok c' w'. f c w = (ok, c', w') \<Longrightarrow> rx_less c w c' w'"
  shows "sess_kept s s'"
  using assms by (auto simp: st_conn_def sess_kept_def sess_view_def conf_of_def rctx_of_def rx_left_def rx_less_def Let_def split: prod.splits)

lemma rx_less_refl: "nt_rx w' = nt_rx w \<Longrightarrow> rx_less c w c w'"
  by (simp add: rx_less_def left_def rx_bytes_def)

lemma rx_less_trans: "rx_less c w c1 w1 \<Longrightarrow> rx_less c1 w1 c2 w2 \<Longrightarrow> rx_less c w c2 w2"
  by (simp add: rx_less_def)

lemma conn_reset_rx: "lsi_conn_reset c w = (c', w') \<Longrightarrow> rx_less c w c' w'"
  by (auto simp: lsi_conn_reset_def lsi_b_close_def rx_less_def rx_ok_def left_def rx_bytes_def Let_def split: if_splits)

lemma io_write_rx: "lsi_io_write shnd buf w = (ok, w') \<Longrightarrow> nt_rx w' = nt_rx w"
  by (auto simp: lsi_io_write_def write_str_def send_wrap_def lsi_b_write_def lsi_b_write_ssl_def Let_def split: if_splits prod.splits)

lemma rx_less_cong: "rx_less c w c1 w1 \<Longrightarrow> co_rctx c2 = co_rctx c1 \<Longrightarrow> co_ptype c2 = co_ptype c1 \<Longrightarrow> co_laddr c2 = co_laddr c1 \<Longrightarrow>
    nt_rx w = nt_rx w0 \<Longrightarrow> rx_less c w0 c2 w1"
  by (simp add: rx_less_def left_def rx_bytes_def)

lemma conn_write_raw_rx: "lsi_conn_write_raw buf c w = (ok, c', w') \<Longrightarrow> rx_less c w c' w'"
  by (auto simp: lsi_conn_write_raw_def rx_less_refl dest!: io_write_rx dest: conn_reset_rx
      elim!: rx_less_cong split: if_splits prod.splits)

lemma conn_write_rx: "lsi_conn_write line c w = (ok, c', w') \<Longrightarrow> rx_less c w c' w'"
  by (auto simp: lsi_conn_write_def Let_def dest!: conn_write_raw_rx intro: rx_less_trans split: if_splits prod.splits)

lemma st_write_kept: "st_write line s = (ok, s') \<Longrightarrow> sess_kept s s'" "st_write_raw line s = (ok, s') \<Longrightarrow> sess_kept s s'"
  unfolding st_write_def st_write_raw_def by (erule st_conn_kept, erule conn_write_rx) (erule st_conn_kept, erule conn_write_raw_rx)

lemma irc_reset_kept: "sess_kept s (irc_reset s)"
proof -
  obtain c w where r: "lsi_conn_reset (ic_con (st_irc s)) (st_net s) = (c, w)" by force
  from conn_reset_rx [OF r] r show ?thesis
    by (simp add: irc_reset_def st_conn_def sess_kept_def sess_view_def conf_of_def rctx_of_def rx_left_def rx_less_def Let_def)
qed

lemma irc_write_kept: "irc_write line s = (ok, s') \<Longrightarrow> sess_kept s s'"
  by (auto simp: irc_write_def dest: st_write_kept intro: sess_kept_trans irc_reset_kept split: prod.splits if_splits)

lemma st_sys_kept: "st_sys s = (ok, s') \<Longrightarrow> sess_kept s s'"
  by (auto simp: st_sys_def sess_kept_def sess_view_def conf_of_def rctx_of_def rx_left_def left_def rx_bytes_def sys_call_def split: prod.splits)

lemmas view_simps = sess_kept_def sess_view_def conf_of_def rctx_of_def rx_left_def upd_irc_def set_caps_def upd_con_def strdup_unlimited

lemmas view_dests = st_write_kept [unfolded sess_kept_def sess_view_def conf_of_def rctx_of_def rx_left_def Let_def prod.inject]
  st_sys_kept [unfolded sess_kept_def sess_view_def conf_of_def rctx_of_def rx_left_def Let_def prod.inject]

lemma handle_PING_kept: "handle_PING msg n logon s = Some (r, s') \<Longrightarrow> orc_of s = [] \<Longrightarrow> sess_kept s s'"
  by (auto simp: handle_PING_def view_simps Let_def keep_logonconv_eq  dest!: view_dests split: if_splits option.splits prod.splits)

lemma handle_464_kept: "handle_464 msg n logon s = Some (r, s') \<Longrightarrow> orc_of s = [] \<Longrightarrow> sess_kept s s'"
  by (auto simp: handle_464_def view_simps Let_def keep_logonconv_eq  dest!: view_dests split: if_splits option.splits prod.splits)

lemma handle_ERROR_kept: "handle_ERROR msg n logon s = Some (r, s') \<Longrightarrow> orc_of s = [] \<Longrightarrow> sess_kept s s'"
  by (auto simp: handle_ERROR_def view_simps Let_def keep_logonconv_eq  dest!: view_dests split: if_splits option.splits prod.splits)

lemma handle_NICK_kept: "handle_NICK msg n logon s = Some (r, s') \<Longrightarrow> orc_of s = [] \<Longrightarrow> sess_kept s s'"
  by (auto simp: handle_NICK_def view_simps Let_def keep_logonconv_eq  dest!: view_dests split: if_splits option.splits prod.splits)

lemma handle_MODE_kept: "handle_MODE msg n logon s = Some (r, s') \<Longrightarrow> orc_of s = [] \<Longrightarrow> sess_kept s s'"
  by (auto simp: handle_MODE_def view_simps Let_def keep_logonconv_eq  dest!: view_dests split: if_splits option.splits prod.splits)

lemma handle_001_kept: "handle_001 msg n logon s = Some (r, s') \<Longrightarrow> orc_of s = [] \<Longrightarrow> sess_kept s s'"
  by (auto simp: handle_001_def view_simps Let_def keep_logonconv_eq  dest!: view_dests split: if_splits option.splits prod.splits)

lemma handle_004_kept: "handle_004 msg n logon s = Some (r, s') \<Longrightarrow> orc_of s = [] \<Longrightarrow> sess_kept s s'"
  by (auto simp: handle_004_def view_simps Let_def keep_logonconv_eq  dest!: view_dests split: if_splits option.splits prod.splits)

lemma handle_383_kept: "handle_383 msg n logon s = Some (r, s') \<Longrightarrow> orc_of s = [] \<Longrightarrow> sess_kept s s'"
  by (auto simp: handle_383_def view_simps Let_def keep_logonconv_eq  dest!: view_dests split: if_splits option.splits prod.splits)

lemma handle_484_kept: "handle_484 msg n logon s = Some (r, s') \<Longrightarrow> orc_of s = [] \<Longrightarrow> sess_kept s s'"
  by (auto simp: handle_484_def view_simps Let_def keep_logonconv_eq  dest!: view_dests split: if_splits option.splits prod.splits)

lemma handle_465_kept: "handle_465 msg n logon s = Some (r, s') \<Longrightarrow> orc_of s = [] \<Longrightarrow> sess_kept s s'"
  by (auto simp: handle_465_def view_simps Let_def keep_logonconv_eq  dest!: view_dests split: if_splits option.splits prod.splits)

lemma handle_466_kept: "handle_466 msg n logon s = Some (r, s') \<Longrightarrow> orc_of s = [] \<Longrightarrow> sess_kept s s'"
  by (auto simp: handle_466_def view_simps Let_def keep_logonconv_eq  dest!: view_dests split: if_splits option.splits prod.splits)

lemma run_mutnick_rx: "run_mutnick mutn f nick sz w = Some (nick', w') \<Longrightarrow> nt_rx w' = nt_rx w"
  by (auto simp: run_mutnick_def lsi_ut_mut_nick_def c_rand_def Let_def split: mut_nick_fn.splits if_splits list.splits option.splits)

lemma handle_bad_nick_kept: "handle_bad_nick mutn msg n logon s = Some (r, s') \<Longrightarrow> orc_of s = [] \<Longrightarrow> sess_kept s s'"
proof (cases "\<not> logon \<or> ic_cb_mut_nick (st_irc s) = None")
  case True
  assume "handle_bad_nick mutn msg n logon s = Some (r, s')"
  with True show ?thesis by (auto simp: handle_bad_nick_def sess_kept_refl split: if_splits)
next
  case False
  assume h: "handle_bad_nick mutn msg n logon s = Some (r, s')"
  obtain f where f: "ic_cb_mut_nick (st_irc s) = Some f" using False by auto
  with False h obtain nick w where nw: "run_mutnick mutn f (ic_mynick (st_irc s)) MAX_NICK_LEN (st_net s) = Some (nick, w)"
    by (auto simp: handle_bad_nick_def bind_eq_Some_conv)
  let ?s1 = "upd_irc (\<lambda>x. x\<lparr>ic_mynick := nick\<rparr>) (s\<lparr>st_net := w\<rparr>)"
  have "left rc w = left rc (st_net s)" for rc using run_mutnick_rx [OF nw] by (simp add: left_def rx_bytes_def)
  then have k1: "sess_kept s ?s1" by (simp add: view_simps Let_def)
  obtain ok s2 where s2: "st_write (ncpy (MAX_NICK_LEN + 8) (''NICK '' @ nick @ crlf)) ?s1 = (ok, s2)" by force
  have "s' = ?s1 \<or> s' = s2" using h False f nw s2 by (auto simp: handle_bad_nick_def Let_def split: if_splits)
  with k1 sess_kept_trans [OF k1 st_write_kept(1) [OF s2]] show ?thesis by blast
qed

lemma handle_logonconv_kept: "handle_logonconv i msg n logon s = Some (r, s') \<Longrightarrow> orc_of s = [] \<Longrightarrow> sess_kept s s'"
  by (auto simp: handle_logonconv_def view_simps Let_def keep_logonconv_eq split: if_splits)

lemma conclude_sasl_kept: "conclude_sasl_cap s = (ok, s') \<Longrightarrow> sess_kept s s'"
  by (auto simp: conclude_sasl_cap_def Let_def dest: st_write_kept)

lemmas view_dests2 = view_dests conclude_sasl_kept [unfolded sess_kept_def sess_view_def conf_of_def rctx_of_def rx_left_def Let_def prod.inject]

lemma after_starttls_kept: "after_starttls s = (r, s') \<Longrightarrow> sess_kept s s'"
  by (auto simp: after_starttls_def Let_def view_simps dest!: view_dests2 split: if_splits prod.splits)

lemma after_starttls_snd: "sess_kept s (snd (after_starttls s))"
  using after_starttls_kept [of s "fst (after_starttls s)" "snd (after_starttls s)"] by simp

lemma handle_903_kept: "handle_903 msg n logon s = Some (r, s') \<Longrightarrow> orc_of s = [] \<Longrightarrow> sess_kept s s'"
  by (auto simp: handle_903_def view_simps Let_def keep_logonconv_eq  dest!: view_dests2 split: if_splits option.splits prod.splits)

lemma handle_saslerr_kept: "handle_saslerr msg n logon s = Some (r, s') \<Longrightarrow> orc_of s = [] \<Longrightarrow> sess_kept s s'"
  by (auto simp: handle_saslerr_def view_simps Let_def keep_logonconv_eq  dest!: view_dests2 split: if_splits option.splits prod.splits)

lemma handle_AUTHENTICATE_kept: "handle_AUTHENTICATE msg n logon s = Some (r, s') \<Longrightarrow> orc_of s = [] \<Longrightarrow> sess_kept s s'"
proof -
  assume h: "handle_AUTHENTICATE msg n logon s = Some (r, s')"
  obtain ok1 s1 where s1: "st_write_raw ''AUTHENTICATE '' s = (ok1, s1)" by force
  note k1 = st_write_kept(2) [OF s1]
  obtain ok2 s2 where s2: "(if ok1 then st_write_raw (the (ic_sasl_msg (st_irc s))) s1 else (False, s1)) = (ok2, s2)" by force
  have k2: "sess_kept s s2" using s2 k1 sess_kept_trans [OF k1 st_write_kept(2)] by (auto split: if_splits)
  obtain ok3 s3 where s3: "(if ok2 then st_write crlf s2 else (False, s2)) = (ok3, s3)" by force
  have k3: "sess_kept s s3" using s3 k2 sess_kept_trans [OF k2 st_write_kept(1)] by (auto split: if_splits)
  have "s' = s \<or> s' = s3"
    using h s1 s2 s3 unfolding handle_AUTHENTICATE_def by (cases "ic_sasl_msg (st_irc s)") (auto simp: Let_def split: if_splits)
  with k3 show ?thesis using sess_kept_refl by blast
qed

lemma handle_691_kept: "handle_691 msg n logon s = Some (r, s') \<Longrightarrow> sess_kept s s'"
  by (auto simp: handle_691_def sess_kept_refl split: if_splits option.splits dest: after_starttls_kept)

lemma upd_con_kept:
  "(\<And>c. co_rctx (f c) = co_rctx c \<and> co_ptype (f c) = co_ptype c \<and> co_laddr (f c) = co_laddr c) \<Longrightarrow> sess_kept s (upd_con f s)"
  by (simp add: view_simps Let_def)

lemma handle_670_kept: "handle_670 msg n logon s = Some (r, s') \<Longrightarrow> sess_kept s s'"
proof -
  assume h: "handle_670 msg n logon s = Some (r, s')"
  obtain ok1 s1 where s1: "st_sys s = (ok1, s1)" by fastforce
  obtain ok2 s2 where s2: "st_sys s1 = (ok2, s2)" by fastforce
  let ?s2 = "upd_con (\<lambda>c. c\<lparr>co_sctx := ok2\<rparr>) s2"
  obtain ok3 s3 where s3: "st_sys ?s2 = (ok3, s3)" by fastforce
  let ?s3 = "upd_con (\<lambda>c. c\<lparr>co_shnd := ok3\<rparr>) s3"
  obtain ok4 s4 where s4: "st_sys ?s3 = (ok4, s4)" by fastforce
  let ?s4 = "upd_con (\<lambda>c. c\<lparr>co_ssl := True\<rparr>) s4"
  note u = upd_con_kept
  have k2: "sess_kept s ?s2" by (rule sess_kept_trans [OF sess_kept_trans [OF st_sys_kept [OF s1] st_sys_kept [OF s2]] u]) simp
  have k3: "sess_kept s ?s3" by (rule sess_kept_trans [OF k2 sess_kept_trans [OF st_sys_kept [OF s3] u]]) simp
  have k4: "sess_kept s s4" by (rule sess_kept_trans [OF k3 st_sys_kept [OF s4]])
  have "sess_kept s ?s4" by (rule sess_kept_trans [OF k4 u]) simp
  from sess_kept_trans [OF this after_starttls_snd] have k5: "sess_kept s (snd (after_starttls ?s4))" .
  show ?thesis
    using h s1 s2 s3 s4 st_sys_kept [OF s1] k2 k3 k4 k5 by (auto simp: handle_670_def Let_def split: if_splits)
qed

lemma handle_CAP_LS_kept: "handle_CAP_LS msg n logon s = Some (r, s') \<Longrightarrow> sess_kept s s'"
  by (auto simp: handle_CAP_LS_def lsi_v3_update_caps_def view_simps Let_def split: if_splits)

lemma handle_CAP_ACK_kept: "handle_CAP_ACK msg n logon s = Some (r, s') \<Longrightarrow> sess_kept s s'"
  by (auto simp: handle_CAP_ACK_def lsi_v3_update_caps_def view_simps Let_def split: if_splits)

lemma handle_CAP_NAK_kept: "handle_CAP_NAK msg n logon s = Some (r, s') \<Longrightarrow> sess_kept s s'"
  by (auto simp: handle_CAP_NAK_def sess_kept_refl split: if_splits)

lemma capreq_kept: "sess_kept s (s\<lparr>st_irc := (st_irc s)\<lparr>ic_v3capreq := x\<rparr>\<rparr>)"
  by (simp add: view_simps Let_def)

lemma handle_CAP_kept:
  assumes h: "handle_CAP msg n logon s = Some (r, s')"
  shows "sess_kept s s'"
proof (cases "n < 4 \<or> tk msg 3 \<notin> {Some ''LS'', Some ''ACK'', Some ''NAK''}")
  case True
  with h show ?thesis by (auto simp: handle_CAP_def sess_kept_refl split: if_splits)
next
  case False
  then consider "\<not> n < 4" "tk msg 3 = Some ''LS''" | "\<not> n < 4" "tk msg 3 = Some ''ACK''" | "\<not> n < 4" "tk msg 3 = Some ''NAK''" by auto
  then show ?thesis
  proof cases
    case 1
    with h obtain r1 s1 where s1: "handle_CAP_LS msg n logon s = Some (r1, s1)" by (auto simp: handle_CAP_def)
    note k1 = handle_CAP_LS_kept [OF s1]
    obtain req some where q: "lsi_v3_mk_capreq (caps_of s1) (MAX_V3CAPLEN - length ''CAP REQ :'') = (req, some)" by fastforce
    define cr where "cr = (if some then ''CAP REQ :'' @ req else ''CAP END'' @ crlf)"
    define s2 where "s2 = s1\<lparr>st_irc := (st_irc s1)\<lparr>ic_v3capreq := ncpy MAX_V3CAPLINE (drop (length ''CAP REQ :'') cr)\<rparr>\<rparr>"
    obtain ok s3 where s3: "st_write cr s2 = (ok, s3)" by fastforce
    have "sess_kept s s2" unfolding s2_def by (rule sess_kept_trans [OF k1 capreq_kept])
    then have k3: "sess_kept s s3" by (rule sess_kept_trans) (rule st_write_kept(1) [OF s3])
    have "s' = s1 \<or> s' = s3"
      using h 1 s1 q s3 unfolding handle_CAP_def cr_def s2_def Let_def
      by (auto split: if_splits simp del: length_Cons length_0_conv)
    with k1 k3 show ?thesis by blast
  next
    case 2
    with h obtain r1 s1 where s1: "handle_CAP_ACK msg n logon s = Some (r1, s1)" by (auto simp: handle_CAP_def)
    note k1 = handle_CAP_ACK_kept [OF s1]
    obtain ok2 s2 where s2: "st_write (''STARTTLS'' @ crlf) s1 = (ok2, s2)" by fastforce
    obtain ok3 s3 where s3: "conclude_sasl_cap s1 = (ok3, s3)" by fastforce
    have "s' = s1 \<or> s' = s2 \<or> s' = s3"
      using h 2 s1 s2 s3 by (auto simp: handle_CAP_def Let_def split: if_splits)
    with k1 sess_kept_trans [OF k1 st_write_kept(1) [OF s2]] sess_kept_trans [OF k1 conclude_sasl_kept [OF s3]] show ?thesis by blast
  next
    case 3
    with h show ?thesis by (auto simp: handle_CAP_def dest!: handle_CAP_NAK_kept)
  qed
qed

lemma core_kept:
  assumes r: "run_hnd mutn h msg n logon s = Some (r, s')" and h: "h \<in> core_hnds" "h \<noteq> H_005" and orc: "orc_of s = []"
  shows "sess_kept s s'"
proof -
  have "h \<in> {H_PING, H_bad_nick, H_464, H_core_NICK, H_ERROR, H_core_MODE, H_001, H_002, H_003, H_004, H_383, H_484, H_465, H_466,
      H_670, H_691, H_903, H_saslerr, H_CAP, H_AUTHENTICATE}"
    using h by (auto simp: core_hnds_def imh_handlers_def v3_handlers_def)
  then show ?thesis using r orc
    by (elim insertE emptyE) (simp_all add: handle_PING_kept handle_bad_nick_kept handle_464_kept handle_NICK_kept handle_ERROR_kept
      handle_MODE_kept handle_001_kept handle_002_def handle_003_def handle_logonconv_kept handle_004_kept handle_383_kept
      handle_484_kept handle_465_kept handle_466_kept handle_670_kept handle_691_kept handle_903_kept handle_saslerr_kept
      handle_CAP_kept handle_AUTHENTICATE_kept)
qed

end
