(* ===== verification/Membprops.thy ===== *)
theory Membprops
  imports Trackprops
begin

text \<open>
  Properties of memberships: what leaving and renaming do, the order of the mode prefixes of a
  member, and the inputs on which the base is left inconsistent.
\<close>

section \<open>Mode prefixes\<close>

text \<open>The rank of a prefix symbol is its position in the server's list, strongest first.\<close>

definition rank :: "string \<Rightarrow> char \<Rightarrow> nat" where
  "rank ps c = length (takeWhile (\<lambda>x. x \<noteq> c) ps)"

definition ranked :: "string \<Rightarrow> string \<Rightarrow> bool" where
  "ranked ps p \<longleftrightarrow> sorted_wrt (\<lambda>a b. rank ps a < rank ps b) p"

lemma rank_inj: "a \<in> set ps \<Longrightarrow> rank ps a = rank ps b \<Longrightarrow> a = b"
  by (induction ps) (auto simp: rank_def split: if_splits)

lemma strchr_rank: "c \<in> set ps \<Longrightarrow> c \<noteq> NUL \<Longrightarrow> strchr ps c = Some (rank ps c)"
  by (induction ps) (auto simp: rank_def)

lemma modepfx_pos_rank:
  assumes "set p \<subseteq> set (snd (ic_m005modepfx ctx))" "psym \<in> set (snd (ic_m005modepfx ctx))" "NUL \<notin> set (snd (ic_m005modepfx ctx))"
  shows "modepfx_pos ctx p psym = Some (length (takeWhile (\<lambda>c. rank (snd (ic_m005modepfx ctx)) c < rank (snd (ic_m005modepfx ctx)) psym) p))"
  using assms
proof (induction p)
  case (Cons c p)
  then have "strchr (snd (ic_m005modepfx ctx)) c = Some (rank (snd (ic_m005modepfx ctx)) c)"
    "strchr (snd (ic_m005modepfx ctx)) psym = Some (rank (snd (ic_m005modepfx ctx)) psym)" by (auto intro!: strchr_rank)
  with Cons show ?case by (auto simp: compare_modepfx_def)
qed simp

lemma ranked_insert:
  assumes "ranked ps p" "psym \<in> set ps" "psym \<notin> set p"
  defines "i \<equiv> length (takeWhile (\<lambda>c. rank ps c < rank ps psym) p)"
  shows "ranked ps (take i p @ psym # drop i p)" "set (take i p @ psym # drop i p) = insert psym (set p)"
proof -
  have t: "take i p = takeWhile (\<lambda>c. rank ps c < rank ps psym) p" "drop i p = dropWhile (\<lambda>c. rank ps c < rank ps psym) p"
    by (simp_all add: i_def takeWhile_eq_take [symmetric] dropWhile_eq_drop [symmetric])
  show "set (take i p @ psym # drop i p) = insert psym (set p)"
    by (metis Un_insert_right append_take_drop_id list.simps(15) set_append)
  have "ranked ps (take i p @ drop i p)" using assms(1) by simp
  then have s: "sorted_wrt (\<lambda>a b. rank ps a < rank ps b) (take i p)" "sorted_wrt (\<lambda>a b. rank ps a < rank ps b) (drop i p)"
    "\<forall>x\<in>set (take i p). \<forall>y\<in>set (drop i p). rank ps x < rank ps y" unfolding ranked_def sorted_wrt_append by auto
  have 1: "\<forall>x\<in>set (take i p). rank ps x < rank ps psym" unfolding t by (auto dest: set_takeWhileD)
  have 2: "\<forall>y\<in>set (drop i p). rank ps psym < rank ps y"
  proof (cases "drop i p")
    case (Cons y ys)
    then have "\<not> rank ps y < rank ps psym" unfolding t by (metis dropWhile_eq_Cons_conv)
    moreover have "y \<in> set p" using Cons by (metis in_set_dropD list.set_intros(1))
    then have "rank ps y \<noteq> rank ps psym" using rank_inj [OF assms(2), of y] assms(3) by metis
    ultimately have "rank ps psym < rank ps y" by simp
    then show ?thesis using s(2) Cons by auto
  qed simp
  show "ranked ps (take i p @ psym # drop i p)" using s 1 2 unfolding ranked_def sorted_wrt_append by auto
qed

lemma ranked_remove:
  assumes "ranked ps p" "i < length p"
  shows "ranked ps (take i p @ drop (i + 1) p)" "set (take i p @ drop (i + 1) p) = set p - {p ! i}"
proof -
  have p: "p = take i p @ p ! i # drop (i + 1) p" using assms(2) by (simp add: id_take_nth_drop)
  have r: "ranked ps (take i p @ p ! i # drop (i + 1) p)" using assms(1) p by simp
  then show "ranked ps (take i p @ drop (i + 1) p)" unfolding ranked_def sorted_wrt_append by auto
  from r have "p ! i \<notin> set (take i p)" "p ! i \<notin> set (drop (i + 1) p)" unfolding ranked_def sorted_wrt_append by auto
  then show "set (take i p @ drop (i + 1) p) = set p - {p ! i}" by (subst (3) p) auto
qed

lemma update_modepfx_ranked:
  assumes inv: "ucb_ok s" and q: "bs_chan (base_of s) q = Some ca" and mb: "bs_memb (base_of s) ca (cmkey (cm_of s) nick) = Some ma"
    and m: "memb_at ma s = Some m" and ps: "psym \<in> set (snd (pfx_of s))" and rk: "ranked (snd (pfx_of s)) (mb_modepfx m)"
  obtains ok s' m' where "lsi_ucb_update_modepfx ca nick psym enab s = Some (ok, s')" "memb_at ma s' = Some m'"
    "ranked (snd (pfx_of s)) (mb_modepfx m')" "ok = ((psym \<in> set (mb_modepfx m)) \<noteq> enab \<and> (enab \<longrightarrow> length (mb_modepfx m) + 1 < MAX_MODEPFX))"
    "set (mb_modepfx m') = (if ok then if enab then insert psym (set (mb_modepfx m)) else set (mb_modepfx m) - {psym} else set (mb_modepfx m))"
proof -
  let ?p = "mb_modepfx m" and ?ps = "snd (pfx_of s)"
  have g: "lsi_ucb_get_memb ca nick s = Some (Some ma)" using alive_memb(1) [OF inv q] mb by simp
  have nul: "NUL \<notin> set ?ps" and sub: "set ?p \<subseteq> set ?ps"
    using inv alive_memb(2) [OF inv q mb] m by (auto simp: ucb_ok_def ucb_inv_def st_ok_def modes_ok_def)
  have p0: "psym \<noteq> NUL" "NUL \<notin> set ?p" using nul sub ps by auto
  have sc: "strchr ?p psym \<noteq> None \<longleftrightarrow> psym \<in> set ?p" using p0(1) by (simp add: strchr_None_iff)
  show thesis
  proof (cases "enab = (psym \<in> set ?p)")
    case True
    then show thesis using that [of False s m] g m sc rk by (simp add: lsi_ucb_update_modepfx_def Let_def)
  next
    case diff: False
    show thesis
    proof (cases enab)
      case True
      then have np: "psym \<notin> set ?p" "strchr ?p psym = None" using diff sc by auto
      let ?i = "length (takeWhile (\<lambda>c. rank ?ps c < rank ?ps psym) ?p)"
      have i: "modepfx_pos (st_irc s) ?p psym = Some ?i"
        using modepfx_pos_rank [of ?p "st_irc s" psym] sub ps nul by (simp add: pfx_of_def)
      let ?m = "m\<lparr>mb_modepfx := take ?i ?p @ psym # drop ?i ?p\<rparr>"
      show thesis
      proof (cases "MAX_MODEPFX \<le> length ?p + 1")
        case True
        then show thesis using that [of False s m] g m np \<open>enab\<close> rk by (simp add: lsi_ucb_update_modepfx_def Let_def)
      next
        case False
        then have "lsi_ucb_update_modepfx ca nick psym enab s = Some (True, put_memb ma (Some ?m) s)"
          using g m np \<open>enab\<close> i by (simp add: lsi_ucb_update_modepfx_def Let_def)
        then show thesis using that [of True _ ?m] ranked_insert [OF rk ps np(1)] np False \<open>enab\<close> by simp
      qed
    next
      case False
      then obtain i where i: "strchr ?p psym = Some i" "i < length ?p" "?p ! i = psym"
        using diff sc strchr_Some_less p0(1) by blast
      let ?m = "m\<lparr>mb_modepfx := take i ?p @ drop (i + 1) ?p\<rparr>"
      have "lsi_ucb_update_modepfx ca nick psym enab s = Some (True, put_memb ma (Some ?m) s)"
        using g m False i by (simp add: lsi_ucb_update_modepfx_def Let_def)
      then show thesis using that [of True _ ?m] ranked_remove [OF rk i(2)] i(3) False diff by simp
    qed
  qed
qed

section \<open>Leaving\<close>

lemma member_unique:
  assumes inv: "ucb_ok s" and q: "bs_chan (base_of s) q = Some ca" and mb: "is_member s ca k"
  obtains ua u ma where "bs_user (base_of s) k = Some ua" "user_at ua s = Some u" "cmkey (cm_of s) (us_nick u) = k"
    "bs_memb (base_of s) ca k = Some ma" "bs_who (base_of s) ma = Some ua" "0 < bs_refs (base_of s) ua"
proof -
  note base = ucb_base [OF inv [unfolded ucb_ok_def]]
  obtain ua ma where m: "bs_user (base_of s) k = Some ua" "bs_memb (base_of s) ca k = Some ma" "bs_who (base_of s) ma = Some ua"
    using mb by (auto simp: is_member_def)
  obtain u where u: "user_at ua s = Some u" "cmkey (cm_of s) (us_nick u) = k" by (rule listed_user [OF inv m(1)])
  have "(ca, k) \<in> slots (base_of s) {} ua" using m q by (auto simp: slots_def member_def intro: ranI)
  moreover have "finite (slots (base_of s) {} ua)"
    by (rule finite_subset [of _ "{(ca, k). \<exists>ma. member (base_of s) {} ca k ma}"]) (use base in \<open>auto simp: slots_def base_ok_def\<close>)
  ultimately have "0 < card (slots (base_of s) {} ua)" by (auto simp: card_gt_0_iff)
  moreover have "card (slots (base_of s) {} ua) \<le> bs_refs (base_of s) ua"
    using base u(1) by (auto simp: base_ok_def base_of_sel)
  ultimately show thesis using that m u by simp
qed

lemma rejoin_leaks:
  assumes inv: "ucb_ok s" and q: "bs_chan (base_of s) q = Some ca" and mb: "is_member s ca k" and orc: "orc_of s = []"
  obtains ua s1 s2 where "bs_user (base_of s) k = Some ua" "lsi_ucb_add_memb ca ua [] s = Some (True, s1)"
    "lsi_ucb_drop_memb ca ua True s1 = Some (True, s2)" "ucb_ok s2" "bs_memb (base_of s2) ca k = None"
    "bs_user (base_of s2) k = Some ua"
proof -
  obtain ua u ma where m: "bs_user (base_of s) k = Some ua" "user_at ua s = Some u" "cmkey (cm_of s) (us_nick u) = k"
    "bs_memb (base_of s) ca k = Some ma" "bs_who (base_of s) ma = Some ua" "0 < bs_refs (base_of s) ua"
    by (rule member_unique [OF inv q mb])
  obtain ok s1 where a: "lsi_ucb_add_memb ca ua [] s = Some (ok, s1)" "ucb_ok s1" "casemap_of s1 = casemap_of s"
    "bs_chan (base_of s1) = bs_chan (base_of s)" "bs_user (base_of s1) = bs_user (base_of s)" "user_at ua s1 \<noteq> None"
    "ok \<longrightarrow> (\<exists>ma. bs_memb (base_of s1) ca (cmkey (cm_of s) (us_nick u)) = Some ma \<and> bs_who (base_of s1) ma = Some ua \<and>
       bs_refs (base_of s1) ua = bs_refs (base_of s) ua + 1)" "orc_of s = [] \<longrightarrow> ok \<and> orc_of s1 = []"
    by (rule add_memb_ok [OF inv q m(2), of "[]"]) simp
  have ok: "ok" using a(8) orc by simp
  then obtain mb' where m1: "bs_memb (base_of s1) ca k = Some mb'" "bs_who (base_of s1) mb' = Some ua"
    "bs_refs (base_of s1) ua = bs_refs (base_of s) ua + 1" using a(7) m(3) by auto
  have q1: "bs_chan (base_of s1) q = Some ca" "bs_user (base_of s1) k = Some ua" using a(4,5) q m(1) by simp_all
  obtain u1 where u1: "user_at ua s1 = Some u1" "cmkey (cm_of s1) (us_nick u1) = k" by (rule listed_user [OF a(2) q1(2)])
  obtain s2 where s2: "lsi_ucb_drop_memb ca ua True s1 = Some (bs_memb (base_of s1) ca k \<noteq> None, s2)" "ucb_ok s2"
    "base_of s2 = bs_drop_memb True ca k (base_of s1)" using drop_memb_ok [OF a(2) q1(1) u1(1), of True] u1(2) by metis
  have "bs_user (base_of s2) k = Some ua" using s2(3) m1 m(6) q1(2) by (simp add: bs_drop_memb_def bs_unref_def Let_def)
  then show thesis using that m(1) a(1) ok s2(1,2) m1(1) by (simp add: s2(3) bs_drop_memb_memb)
qed

lemma busy_pfx: "pfx_of busy_st = (''ov'', ''@+'')"
  by (rule busy_st)

section \<open>Properties\<close>

text \<open>
  C15: A MODE change of a member's prefixes keeps them ordered by rank, strongest first, and without
  repetition; it adds or removes just the one symbol, and refuses to add when the array is full.
\<close>

theorem update_modepfx_keeps_rank:
  assumes "ucb_ok s" "bs_chan (base_of s) q = Some ca" "bs_memb (base_of s) ca (cmkey (cm_of s) nick) = Some ma"
    and "memb_at ma s = Some m" "psym \<in> set (snd (pfx_of s))" "ranked (snd (pfx_of s)) (mb_modepfx m)"
  shows "\<exists>ok s' m'. lsi_ucb_update_modepfx ca nick psym enab s = Some (ok, s') \<and> memb_at ma s' = Some m' \<and>
    ranked (snd (pfx_of s)) (mb_modepfx m') \<and>
    (ok \<longleftrightarrow> (psym \<in> set (mb_modepfx m)) \<noteq> enab \<and> (enab \<longrightarrow> length (mb_modepfx m) + 1 < MAX_MODEPFX)) \<and>
    set (mb_modepfx m') =
      (if ok then if enab then insert psym (set (mb_modepfx m)) else set (mb_modepfx m) - {psym} else set (mb_modepfx m))"
  by (rule update_modepfx_ranked [OF assms, of enab]) blast

theorem update_modepfx_keeps_rank_witness:
  "\<exists>ca ma s s' m'. lsi_ucb_update_modepfx ca ''bob'' (CHR ''@'') True s = Some (True, s') \<and> memb_at ma s' = Some m' \<and>
     ranked (snd (pfx_of s)) (mb_modepfx m') \<and> set (mb_modepfx m') = {CHR ''@'', CHR ''+''}"
proof -
  obtain ca where b: "ucb_ok busy_st" "casemap_of busy_st = 0" "bs_chan (base_of busy_st) (cmkey (g_cmap 0) ''#c'') = Some ca"
    "is_member busy_st ca (cmkey (g_cmap 0) ''bob'')" by (rule busy_st)
  then obtain ma where ma: "bs_memb (base_of busy_st) ca (cmkey (cm_of busy_st) ''bob'') = Some ma"
    by (auto simp: is_member_def cm_of_def)
  obtain m where m: "memb_at ma busy_st = Some m" using alive_memb(2) [OF b(1,3) ma] by blast
  let ?s = "put_memb ma (Some (m\<lparr>mb_modepfx := ''+''\<rparr>)) busy_st"
  have sb: "same_base busy_st ?s" by (rule same_base_memb [OF m]) (simp_all add: busy_pfx)
  have b': "ucb_ok ?s" "bs_chan (base_of ?s) (cmkey (g_cmap 0) ''#c'') = Some ca"
    "bs_memb (base_of ?s) ca (cmkey (cm_of ?s) ''bob'') = Some ma"
    using same_base_ok [OF sb b(1)] sb b(3) ma by (simp_all add: same_base_def)
  have "snd (pfx_of ?s) = ''@+''" by (simp add: busy_pfx)
  with update_modepfx_keeps_rank [OF b', of "m\<lparr>mb_modepfx := ''+''\<rparr>" "CHR ''@''" True]
  obtain s' m' where "lsi_ucb_update_modepfx ca ''bob'' (CHR ''@'') True ?s = Some (True, s')" "memb_at ma s' = Some m'"
    "ranked (snd (pfx_of ?s)) (mb_modepfx m')" "set (mb_modepfx m') = {CHR ''@'', CHR ''+''}"
    by (auto simp: ranked_def MAX_MODEPFX_def)
  then show ?thesis by blast
qed



text \<open>
  A second JOIN of a user who is a member already is counted again although there is one
  membership: when the user leaves, the membership ends but the user stays listed.
\<close>

theorem rejoin_leaks_user:
  assumes "ucb_ok s" "bs_chan (base_of s) q = Some ca" "is_member s ca k" "orc_of s = []"
  shows "\<exists>ua s1 s2. bs_user (base_of s) k = Some ua \<and> lsi_ucb_add_memb ca ua [] s = Some (True, s1) \<and>
    lsi_ucb_drop_memb ca ua True s1 = Some (True, s2) \<and> bs_memb (base_of s2) ca k = None \<and> bs_user (base_of s2) k = Some ua"
  by (rule rejoin_leaks [OF assms]) blast

theorem rejoin_leaks_user_witness:
  "\<exists>ca ua s1 s2. lsi_ucb_add_memb ca ua [] busy_st = Some (True, s1) \<and> lsi_ucb_drop_memb ca ua True s1 = Some (True, s2) \<and>
     bs_memb (base_of s2) ca (cmkey (g_cmap 0) ''bob'') = None \<and> bs_user (base_of s2) (cmkey (g_cmap 0) ''bob'') = Some ua"
proof -
  obtain ca where b: "ucb_ok busy_st" "orc_of busy_st = []" "bs_chan (base_of busy_st) (cmkey (g_cmap 0) ''#c'') = Some ca"
    "is_member busy_st ca (cmkey (g_cmap 0) ''bob'')" by (rule busy_st)
  from rejoin_leaks_user [OF b(1,3,4,2)] show ?thesis by blast
qed

text \<open>
  A list of names that is empty (or what is left of one after its last space) makes \<open>h_353\<close> read
  past the end of the argument: the search for a mode prefix finds the terminating NUL.
\<close>

theorem empty_names_leave_string:
  assumes "ucb_ok s" "tk msg 0 \<noteq> None" "6 \<le> nargs" "tk msg 4 = Some ch" "tk msg 5 = Some []"
    and "bs_chan (base_of s) (cmkey (cm_of s) ch) = Some ca"
  shows "h_353 msg nargs logon s = None"
proof -
  have n: "names_loop ca [] s' = None" for s'
    by (subst names_loop.simps) (simp add: strchr_None_iff)
  show ?thesis using assms chan_name_base [OF assms(1), of ch]
    by (simp add: h_353_def n bind_eq_None_conv)
qed

definition names_msg :: tokarr where
  "names_msg = msg_fields (Some ''irc.example'', ''353'', [''me'', ''='', ''#c'', []])"

theorem empty_names_leave_string_witness: "h_353 names_msg 6 False busy_st = None"
proof -
  obtain ca where b: "ucb_ok busy_st" "casemap_of busy_st = 0" "bs_chan (base_of busy_st) (cmkey (g_cmap 0) ''#c'') = Some ca"
    by (rule busy_st)
  have "tk names_msg 0 \<noteq> None" "tk names_msg 4 = Some ''#c''" "tk names_msg 5 = Some []"
    by (simp_all add: names_msg_def msg_fields_def tk_def numeral_eq_Suc)
  from empty_names_leave_string [OF b(1) this(1) _ this(2,3)] b(2,3) show ?thesis by (simp add: cm_of_def)
qed



text \<open>
  C40: When \<open>lsi_ut_istrcmp\<close> takes the new nickname for the old one in another case but the maps do
  not (caret and tilde under RFC 1459), the nickname is changed in place and the maps keep
  the old key: the base is then no longer well formed.
\<close>

theorem rename_in_place_breaks_base:
  assumes "ucb_ok s" "bs_user (base_of s) (cmkey (cm_of s) ident) = Some ua" "user_at ua s = Some u"
    and "lsi_ut_istrcmp (lsi_ut_ident2nick [] MAX_NICK_LEN ident) newnick (casemap_of s) = 0"
    and "cmkey (cm_of s) (ncpy (length (us_nick u) + 1) newnick) \<noteq> cmkey (cm_of s) (us_nick u)"
  shows "\<exists>s'. lsi_ucb_rename_user ident newnick s = Some (True, False, s') \<and> \<not> ucb_ok s'"
proof -
  let ?s = "put_user ua (Some (u\<lparr>us_nick := ncpy (length (us_nick u) + 1) newnick\<rparr>)) s"
  have "lsi_ucb_rename_user ident newnick s = Some (True, False, ?s)"
    using assms(2-4) get_user_base [OF assms(1), of ident] by (simp add: lsi_ucb_rename_user_def Let_def)
  moreover have "\<not> ucb_ok ?s"
  proof
    assume inv': "ucb_ok ?s"
    obtain u0 where "user_at ua s = Some u0" "cmkey (cm_of s) (us_nick u0) = cmkey (cm_of s) ident"
      by (rule listed_user [OF assms(1,2)])
    moreover have "bs_user (base_of ?s) (cmkey (cm_of s) ident) = Some ua" using assms(2) by (simp add: base_of_sel)
    then obtain u1 where "user_at ua ?s = Some u1" "cmkey (cm_of ?s) (us_nick u1) = cmkey (cm_of s) ident"
      by (rule listed_user [OF inv'])
    ultimately show False using assms(3,5) by auto
  qed
  ultimately show ?thesis by blast
qed

text \<open>The user \<open>a^\<close> joins.\<close>

definition caret_st :: st where
  "caret_st = snd (the (lsi_ucb_add_user ''a^!x@y'' chan_st))"

theorem rename_in_place_breaks_base_witness:
  "\<exists>s'. lsi_ucb_rename_user ''a^!x@y'' ''a~'' caret_st = Some (True, False, s') \<and> \<not> ucb_ok s'"
proof -
  obtain ca where c: "ucb_ok chan_st" "casemap_of chan_st = 0" "orc_of chan_st = []" by (rule chan_st)
  have n: "lsi_ut_ident2nick [] MAX_NICK_LEN ''a^!x@y'' = ''a^''" by code_simp
  obtain r s' where a: "lsi_ucb_add_user ''a^!x@y'' chan_st = Some (r, s')" "ucb_ok s'" "casemap_of s' = casemap_of chan_st"
    "\<forall>a. r = Some a \<longrightarrow> (\<exists>u. user_at a s' = Some u \<and> us_nick u = lsi_ut_ident2nick [] MAX_NICK_LEN ''a^!x@y'') \<and>
       bs_user (base_of s') = (bs_user (base_of chan_st))(cmkey (cm_of chan_st) (lsi_ut_ident2nick [] MAX_NICK_LEN ''a^!x@y'') \<mapsto> a)"
    "orc_of chan_st = [] \<longrightarrow> r \<noteq> None \<and> orc_of s' = []"
    by (rule add_user_ok [OF c(1), of "''a^!x@y''"])
  have s': "caret_st = s'" using a(1) by (simp add: caret_st_def)
  obtain ua u where u: "user_at ua s' = Some u" "us_nick u = ''a^''" "bs_user (base_of s') (cmkey (g_cmap 0) ''a^'') = Some ua"
    using a(4,5) c(2,3) n by (auto simp: cm_of_def)
  have k: "cmkey (g_cmap 0) ''a^!x@y'' = cmkey (g_cmap 0) ''a^''" "cmkey (g_cmap 0) (ncpy (length ''a^'' + 1) ''a~'') \<noteq> cmkey (g_cmap 0) ''a^''"
    "lsi_ut_istrcmp ''a^'' ''a~'' 0 = 0" by code_simp+
  have "cm_of s' = g_cmap 0" "casemap_of s' = 0" using a(3) c(2) by (simp_all add: cm_of_def)
  then show ?thesis using rename_in_place_breaks_base [OF a(2), of "''a^!x@y''" ua u "''a~''"] u k n s' by simp
qed

end
