(* ===== verification/Sessprops.thy ===== *)
theory Sessprops
  imports Membprops Connprops
begin

text \<open>
  Properties of the session: the table of handlers and the dispatch of messages, the logon
  conversation, reading, and IRCv3 message tags and capabilities.
\<close>

section \<open>Dispatch\<close>

text \<open>What the dispatch of a message amounts to: its handlers, one after the other.\<close>

fun run_all :: "hnd_sem \<Rightarrow> tokarr \<Rightarrow> nat \<Rightarrow> bool \<Rightarrow> hnd_fn list \<Rightarrow> u16 \<Rightarrow> st \<Rightarrow> (bool \<times> u16 \<times> st) option" where
  "run_all hnd msg ac logon [] res s = Some (True, res, s)"
| "run_all hnd msg ac logon (h # hs) res s = do {
     (r, s') \<leftarrow> hnd h msg ac logon s;
     if has_flag (res OR r) CANT_PROCEED then Some (False, res OR r, s')
     else run_all hnd msg ac logon hs (res OR r) s' }"

definition handlers_for :: "string \<Rightarrow> msghnd list \<Rightarrow> hnd_fn list" where
  "handlers_for cmd arr = map mh_hndfn (filter (\<lambda>h. mh_cmd h \<noteq> [] \<and> mh_cmd h = cmd) arr)"

text \<open>A handler that leaves the table alone\<close>

definition keeps_table :: "hnd_sem \<Rightarrow> tokarr \<Rightarrow> nat \<Rightarrow> bool \<Rightarrow> msghnd list \<Rightarrow> hnd_fn \<Rightarrow> bool" where
  "keeps_table hnd msg ac logon arr h \<longleftrightarrow> (\<forall>s r s'. ic_msghnds (st_irc s) = arr \<longrightarrow>
     hnd h msg ac logon s = Some (r, s') \<longrightarrow> ic_msghnds (st_irc s') = arr)"

lemma msg_loop_run_all:
  assumes "tk msg 1 = Some cmd" "ic_msghnds (st_irc s) = arr" "i \<le> length arr"
    and keep: "list_all (keeps_table hnd msg ac logon arr) (handlers_for cmd (drop i arr))"
  shows "msg_loop hnd msg ac logon i res s = run_all hnd msg ac logon (handlers_for cmd (drop i arr)) res s"
  using assms
proof (induction "length arr - i" arbitrary: i res s)
  case 0
  then show ?case by (subst msg_loop.simps) (simp add: handlers_for_def)
next
  case (Suc n)
  then have i: "i < length arr" "n = length arr - (i + 1)" by auto
  then have d: "drop i arr = arr ! i # drop (i + 1) arr" by (simp add: Cons_nth_drop_Suc)
  have "list_all (keeps_table hnd msg ac logon arr) (handlers_for cmd (drop (i + 1) arr))"
    using Suc.prems(4) unfolding d by (simp add: handlers_for_def split: if_splits)
  then have ih: "msg_loop hnd msg ac logon (i + 1) res' s' = run_all hnd msg ac logon (handlers_for cmd (drop (i + 1) arr)) res' s'"
    if "ic_msghnds (st_irc s') = arr" for res' s'
    using Suc.hyps(1) [OF i(2) Suc.prems(1) that, of res'] i(1) by simp
  show ?case
  proof (cases "mh_cmd (arr ! i) \<noteq> [] \<and> mh_cmd (arr ! i) = cmd")
    case False
    then have "handlers_for cmd (drop i arr) = handlers_for cmd (drop (i + 1) arr)" unfolding d by (auto simp: handlers_for_def)
    moreover have "msg_loop hnd msg ac logon i res s = msg_loop hnd msg ac logon (i + 1) res s"
      using False Suc.prems(1,2) i(1) by (subst msg_loop.simps) (auto simp: Let_def)
    ultimately show ?thesis using ih [OF Suc.prems(2)] by simp
  next
    case True
    then have h: "handlers_for cmd (drop i arr) = mh_hndfn (arr ! i) # handlers_for cmd (drop (i + 1) arr)"
      unfolding d by (auto simp: handlers_for_def)
    have "msg_loop hnd msg ac logon i res s = do {
        (r, s') \<leftarrow> hnd (mh_hndfn (arr ! i)) msg ac logon s;
        if has_flag (res OR r) CANT_PROCEED then Some (False, res OR r, s')
        else msg_loop hnd msg ac logon (i + 1) (res OR r) s' }"
      using True Suc.prems(1,2) i(1) by (subst msg_loop.simps) (auto simp: Let_def)
    also have "\<dots> = run_all hnd msg ac logon (handlers_for cmd (drop i arr)) res s"
    proof (cases "hnd (mh_hndfn (arr ! i)) msg ac logon s")
      case None
      then show ?thesis by (simp add: h)
    next
      case (Some p)
      then obtain r s' where p: "hnd (mh_hndfn (arr ! i)) msg ac logon s = Some (r, s')" by (cases p) auto
      have "keeps_table hnd msg ac logon arr (mh_hndfn (arr ! i))" using Suc.prems(4) unfolding h by simp
      then have "ic_msghnds (st_irc s') = arr" using Suc.prems(2) p unfolding keeps_table_def by blast
      then show ?thesis using ih p h by simp
    qed
    finally show ?thesis .
  qed
qed

section \<open>Tags\<close>

text \<open>The escaping of the IRCv3 message tags specification.\<close>

definition escape_char :: "char \<Rightarrow> string" where
  "escape_char c =
     (if c = CHR '';'' then [CHR 0x5C, CHR '':''] else if c = CHR '' '' then [CHR 0x5C, CHR ''s'']
      else if c = CHR 0x5C then [CHR 0x5C, CHR 0x5C] else if c = CHR 0x0D then [CHR 0x5C, CHR ''r'']
      else if c = CHR 0x0A then [CHR 0x5C, CHR ''n''] else [c])"

lemma decode_loop_escape: "decode_loop n (concat (map escape_char s)) False = take n s"
proof (induction s arbitrary: n)
  case Nil
  then show ?case by (cases n) simp_all
next
  case (Cons c s)
  then show ?case by (cases n) (auto simp: escape_char_def unescape_def)
qed

lemma update_cap_loop_data:
  "map vc_adddata (used_caps (update_cap_loop cap adddata offered enabled caps)) =
     map (\<lambda>_. case adddata of Some d \<Rightarrow> ncpy MAX_V3CAPLEN d | None \<Rightarrow> []) (used_caps caps)"
  "map vc_name (used_caps (update_cap_loop cap adddata offered enabled caps)) = map vc_name (used_caps caps)"
  by (induction cap adddata offered enabled caps rule: update_cap_loop.induct) (simp_all add: Let_def)

section \<open>Logging on\<close>

text \<open>One turn of the logon loop that neither fails nor completes the logon (no timeout set, no SASL).\<close>

inductive logon_turn :: "envir \<Rightarrow> st \<Rightarrow> st \<Rightarrow> bool" for env where
  idle: "st_conn_read None 0 s = Some (0, msg, tags, s') \<Longrightarrow> logon_turn env s s'"
| message: "st_conn_read None 0 s = Some (1, msg, tags, s2) \<Longrightarrow> ic_cb_con_read (st_irc s2) = None \<Longrightarrow>
    handle_msg env msg True s2 = Some (flags, s') \<Longrightarrow> \<not> has_flag flags CANT_PROCEED \<Longrightarrow>
    \<not> has_flag flags LOGON_COMPLETE \<Longrightarrow> logon_turn env s s'"

inductive_cases logon_turnE: "logon_turn env s s'"

text \<open>The turn in which the server completes the logon\<close>

definition logon_done :: "envir \<Rightarrow> st \<Rightarrow> st \<Rightarrow> bool" where
  "logon_done env s s' \<longleftrightarrow> (\<exists>msg tags s2 flags. st_conn_read None 0 s = Some (1, msg, tags, s2) \<and>
     ic_cb_con_read (st_irc s2) = None \<and> handle_msg env msg True s2 = Some (flags, s') \<and>
     \<not> has_flag flags CANT_PROCEED \<and> has_flag flags LOGON_COMPLETE)"

lemma logon_loop_turn:
  "logon_turn env s s' \<Longrightarrow> logon_loop env 0 False True False sasl s = r \<Longrightarrow> \<exists>sasl'. logon_loop env 0 False True False sasl' s' = r"
  by (erule logon_turnE; subst (asm) logon_loop.simps; auto simp: lsi_com_check_timeout_def Let_def)

lemma logon_loop_done: "logon_done env s s' \<Longrightarrow> logon_loop env 0 False True False sasl s = Some (True, s')"
  by (subst logon_loop.simps) (auto simp: logon_done_def lsi_com_check_timeout_def Let_def)

lemma logon_loop_reaches:
  assumes "(logon_turn env)\<^sup>*\<^sup>* s s1" "logon_done env s1 s'"
  shows "logon_loop env 0 False True False sasl s = Some (True, s')"
  using assms(1)
proof (induction arbitrary: sasl rule: converse_rtranclp_induct)
  case base
  then show ?case using logon_loop_done [OF assms(2)] by blast
next
  case (step s s2)
  from logon_loop_turn [OF step.hyps(1) refl] step.IH show ?case by metis
qed

section \<open>Properties\<close>

text \<open>
  C34: Dispatch.  When the handlers of a command leave the table alone, the loop of \<open>lsi_msg_handle\<close> calls
  exactly the handlers registered for it, in the order of their slots, collects their results and
  stops at the first one after which it cannot proceed.
\<close>

theorem dispatch_runs_handlers:
  assumes "tk msg 1 = Some cmd"
    and "list_all (keeps_table hnd msg ac logon (ic_msghnds (st_irc s))) (handlers_for cmd (ic_msghnds (st_irc s)))"
  shows "msg_loop hnd msg ac logon 0 0 s = run_all hnd msg ac logon (handlers_for cmd (ic_msghnds (st_irc s))) 0 s"
  using msg_loop_run_all [OF assms(1) refl, of 0 s hnd ac logon 0] assms(2) by simp

definition table_st :: st where
  "table_st = fresh_st\<lparr>st_irc := fresh_ctx\<lparr>ic_msghnds :=
     [hnd_slot ''PING'' H_PING ''a'', mh_free, hnd_slot ''NICK'' H_NICK ''a'', hnd_slot ''PING'' H_464 ''b'']\<rparr>\<rparr>"

theorem dispatch_runs_handlers_witness:
  "msg_loop (\<lambda>h msg ac logon s. Some (if h = H_PING then 1 else 2, s)) (msg_fields (None, ''PING'', [''x''])) 3 True 0 0 table_st =
     run_all (\<lambda>h msg ac logon s. Some (if h = H_PING then 1 else 2, s)) (msg_fields (None, ''PING'', [''x''])) 3 True
       [H_PING, H_464] 0 table_st"
proof -
  have t: "tk (msg_fields (None, ''PING'', [''x''])) 1 = Some ''PING''" by (simp add: msg_fields_def tk_def)
  have h: "handlers_for ''PING'' (ic_msghnds (st_irc table_st)) = [H_PING, H_464]"
    by (simp add: table_st_def handlers_for_def hnd_slot_def mh_free_def ncpy_def)
  from dispatch_runs_handlers [OF t, of "\<lambda>h msg ac logon s. Some (if h = H_PING then 1 else 2, s)" 3 True table_st]
  show ?thesis unfolding h by (simp add: keeps_table_def)
qed

text \<open>
  Registering the handlers of a module, whether or not it succeeds for all of them, and then
  \<open>lsi_msg_unregall\<close> leaves the live slots as they were, however often the table had to grow.
\<close>

theorem unregall_undoes_registration:
  assumes "ic_msghnds (st_irc s) \<noteq> []" "list_all (\<lambda>(cmd, _). cmd \<noteq> []) hs"
    and "filter_mset (\<lambda>h. mh_module h \<noteq> modul) (live_hnds s) = live_hnds s"
  shows "\<exists>ok s'. reg_seq hs modul s = Some (ok, s') \<and> live_hnds (lsi_msg_unregall modul s') = live_hnds s"
proof -
  obtain ok s' n where s': "reg_seq hs modul s = Some (ok, s')"
    "live_hnds s' = live_hnds s + mset (map (\<lambda>(cmd, h). hnd_slot cmd h modul) (take n hs))"
    using reg_seq_spec [OF assms(1,2), of modul] by blast
  then show ?thesis using assms(3) filter_track_slots [of modul "take n hs"] by (auto simp: unregall_live hnd_slot_def)
qed

theorem unregall_undoes_registration_witness:
  "\<exists>ok s'. reg_seq [(''CAP'', H_CAP), (''903'', H_903)] ''v3'' table_st = Some (ok, s') \<and>
     live_hnds (lsi_msg_unregall ''v3'' s') = live_hnds table_st"
  by (rule unregall_undoes_registration) (simp_all add: table_st_def live_hnds_def hnd_slot_def mh_free_def ncpy_def)


text \<open>The server's whole answer, one message, is in the receive buffer.\<close>

definition welcome_st :: st where
  "welcome_st = fresh_st\<lparr>st_irc := fresh_ctx\<lparr>ic_msghnds := [hnd_slot ''383'' H_383 ''irc''],
     ic_con := online_con\<lparr>co_rctx := \<lparr>rx_workbuf = '':h 383 me'' @ [CHR 0x0D] @ replicate 4 NUL, rx_wptr = 0, rx_eptr = 11\<rparr>\<rparr>\<rparr>\<rparr>"

definition silent_env :: envir where
  "silent_env = \<lparr>en_net = one_host, en_uhnd = (\<lambda>n msg ac pre s. Some (True, s)), en_mutnick = (\<lambda>n nick sz. nick),
     en_conread = (\<lambda>n msg. True)\<rparr>"

lemma welcome_read:
  "\<exists>c. st_conn_read None 0 welcome_st =
     Some (1, msg_fields (Some ''h'', ''383'', [''me'']), None, (upd_con (\<lambda>_. c) welcome_st)\<lparr>st_net := quiet_net\<rparr>)"
proof -
  let ?rctx = "\<lparr>rx_workbuf = '':h 383 me'' @ [CHR 0x0D] @ replicate 4 NUL, rx_wptr = 0, rx_eptr = 11\<rparr>"
  have "map_option (\<lambda>(n, tok, tags, rctx, w). (n, tok_strs (rx_workbuf rctx) tok, tags, colon_before (rx_workbuf rctx) tok 3, w = quiet_net))
      (lsi_io_read False ?rctx None 0 quiet_net) =
    Some (1, msg_fields (Some ''h'', ''383'', [''me'']), None, Some False, True)" by code_simp
  then obtain tok rctx where "lsi_io_read False ?rctx None 0 quiet_net = Some (1, tok, None, rctx, quiet_net)"
    "tok_strs (rx_workbuf rctx) tok = msg_fields (Some ''h'', ''383'', [''me''])" "colon_before (rx_workbuf rctx) tok 3 = Some False"
    by auto
  moreover have "msg_ac (msg_fields (Some ''h'', ''383'', [''me''])) = 3" by code_simp
  moreover have "co_shnd online_con = False" "co_online online_con" by (simp_all add: online_con_def lsi_conn_init_def lsi_b_strdup_def)
  moreover have "st_net welcome_st = quiet_net" "ic_con (st_irc welcome_st) = online_con\<lparr>co_rctx := ?rctx\<rparr>"
    by (simp_all add: welcome_st_def fresh_st_def quiet_net_def)
  ultimately show ?thesis by (simp add: st_conn_read_def lsi_conn_read_def Let_def) blast
qed

lemma welcome_handled:
  fixes c
  defines "s2 \<equiv> (upd_con (\<lambda>_. c) welcome_st)\<lparr>st_net := quiet_net\<rparr>"
  shows "\<exists>s'. handle_msg silent_env (msg_fields (Some ''h'', ''383'', [''me''])) True s2 = Some (LOGON_COMPLETE, s')"
proof -
  let ?msg = "msg_fields (Some ''h'', ''383'', [''me''])" and ?hnd = "run_hnd (en_mutnick silent_env)"
  have m: "tk ?msg 1 = Some ''383''" "msg_ac ?msg = 3" "tk ?msg 2 = Some ''me''" by code_simp+
  have t: "ic_msghnds (st_irc s2) = [hnd_slot ''383'' H_383 ''irc'']" by (simp add: s2_def upd_con_def welcome_st_def)
  then have h: "handlers_for ''383'' (ic_msghnds (st_irc s2)) = [H_383]" by (simp add: handlers_for_def hnd_slot_def ncpy_def)
  have k: "keeps_table ?hnd ?msg 3 True arr H_383" for arr
    by (auto simp: keeps_table_def handle_383_def upd_irc_def Let_def split: if_splits)
  obtain s' where s': "handle_383 ?msg 3 True s2 = Some (LOGON_COMPLETE, s')" using m by (auto simp: handle_383_def Let_def)
  have "msg_loop ?hnd ?msg 3 True 0 0 s2 = run_all ?hnd ?msg 3 True [H_383] 0 s2"
    using msg_loop_run_all [OF m(1) refl, of 0 s2 ?hnd 3 True 0] k by (simp add: h del: run_all.simps)
  moreover have "\<not> has_flag LOGON_COMPLETE CANT_PROCEED" by code_simp
  ultimately have "msg_loop ?hnd ?msg 3 True 0 0 s2 = Some (True, LOGON_COMPLETE, s')" using s' by simp
  then show ?thesis using m(2) by (simp add: handle_msg_def lsi_msg_handle_def Let_def)
qed


text \<open>
  \<open>irc_read\<close> returns 1, 0 or -1; after -1 the connection is offline and holds no socket.
\<close>

theorem irc_read_outcome:
  assumes "irc_read env to_us s = Some (r, msg, s')"
  shows "r \<in> {-1, 0, 1} \<and> (r = -1 \<longrightarrow> \<not> co_online (ic_con (st_irc s')) \<and> co_sck (ic_con (st_irc s')) = -1)"
proof -
  have off: "\<not> co_online (ic_con (st_irc (irc_reset s2)))" "co_sck (ic_con (st_irc (irc_reset s2))) = -1" for s2
    by (simp_all add: irc_reset_def st_conn_def lsi_conn_reset_def Let_def)
  show ?thesis
    using assms unfolding irc_read_def
    by (auto simp: Let_def off split: if_splits prod.splits)
qed

theorem irc_read_outcome_witness:
  "\<forall>env. \<exists>s'. irc_read env 0 fresh_st = Some (-1, [], s') \<and> \<not> co_online (ic_con (st_irc s'))"
proof
  fix env
  have "\<not> co_online (ic_con fresh_ctx)"
    by (simp add: fresh_ctx_def irc_init_def malloc_n_unlimited lsi_conn_init_def reset_state_def lsi_skmap_init_def lsi_b_strdup_def
        del: replicate.simps)
  then obtain s' where r: "irc_read env 0 fresh_st = Some (-1, [], s')"
    by (auto simp: irc_read_def st_conn_read_def lsi_conn_read_def upd_irc_def fresh_st_def Let_def)
  with irc_read_outcome [OF r] show "\<exists>s'. irc_read env 0 fresh_st = Some (-1, [], s') \<and> \<not> co_online (ic_con (st_irc s'))"
    by auto
qed

text \<open>
  C39: \<open>decode_v3tag\<close> undoes the escaping of the message tags specification, cut off where the array ends.
\<close>

theorem v3tag_escape_roundtrip: "decode_v3tag destsz (concat (map escape_char s)) = take (destsz - 1) s"
  by (simp add: decode_v3tag_def decode_loop_escape)

text \<open>
  \<open>lsi_v3_update_cap\<close> is called for one capability but overwrites the additional data of all of
  them; which capabilities there are stays the same.
\<close>

theorem update_cap_clobbers_adddata:
  fixes s cap adddata offered enabled
  defines "s' \<equiv> lsi_v3_update_cap cap adddata offered enabled s"
  shows "map vc_adddata (used_caps (caps_of s')) =
      map (\<lambda>_. case adddata of Some d \<Rightarrow> ncpy MAX_V3CAPLEN d | None \<Rightarrow> []) (used_caps (caps_of s)) \<and>
    map vc_name (used_caps (caps_of s')) = map vc_name (used_caps (caps_of s))"
  by (simp add: s'_def lsi_v3_update_cap_def caps_of_def set_caps_def update_cap_loop_data)

end
