(* ===== verification/Sesssafe.thy ===== *)
theory Sesssafe
  imports Corehnd Sessprops
begin

text \<open>
  A whole session is safe: \<open>sess_ok\<close> is the invariant of a context between two calls of \<open>irc_read\<close>, with
  or without tracking.  From such a state \<open>irc_read\<close> returns, whatever the network does, and leaves such a
  state, unless the message it reads is one of those named by \<open>harmless\<close>.
\<close>

section \<open>The invariant\<close>

definition core_slots :: "msghnd multiset" where
  "core_slots = mset (map (\<lambda>(cmd, h). hnd_slot cmd h ''core'') (imh_handlers False) @
     map (\<lambda>(cmd, h). hnd_slot cmd h ''v3'') v3_handlers)"

text \<open>
  The table holds handlers of the library, at most one of them for 005; before tracking starts there is no
  user, channel or membership and no map of channels, from then on the base is well formed.
\<close>

definition sess_ok :: "st \<Rightarrow> bool" where
  "sess_ok s \<longleftrightarrow> rx_ok (rctx_of s) \<and> orc_of s = [] \<and> ic_msghnds (st_irc s) \<noteq> [] \<and> (ic_tracking (st_irc s) \<longrightarrow> modes_ok s) \<and>
     size (filter_mset (\<lambda>h. mh_cmd h = ''005'') (live_hnds s)) \<le> 1 \<and>
     set_mset (live_hnds s) \<subseteq> set_mset core_slots \<union> (if ic_tracking_enab (st_irc s) then set_mset trk_slots else {}) \<and>
     (if ic_tracking_enab (st_irc s) then ucb_ok s else heap_empty s \<and> ic_chans (st_irc s) = Null \<and> ic_users (st_irc s) = None)"

text \<open>What a 005 may not do: give a prefix letter a channel mode class when the user wants tracking, or change
  anything while tracking.\<close>

definition fine_005 :: "tokarr \<Rightarrow> st \<Rightarrow> bool" where
  "fine_005 msg s \<longleftrightarrow> (\<forall>s0 ret c e s1. sess_view s0 = sess_view s \<longrightarrow>
     attrs_loop (map (tk msg) [3..<msg_ac msg - 1]) 0 False s0 = Some (ret, c, e, s1) \<longrightarrow>
     (ic_tracking (st_irc s) \<longrightarrow> modes_ok s1) \<and> (ic_tracking_enab (st_irc s) \<longrightarrow> pfx_of s1 = pfx_of s \<and> cls_of s1 = cls_of s \<and> casemap_of s1 = casemap_of s))"

definition hnd_fine :: "tokarr \<Rightarrow> bool \<Rightarrow> st \<Rightarrow> hnd_fn \<Rightarrow> bool" where
  "hnd_fine msg logon s h \<longleftrightarrow> \<not> core_crash h msg logon s \<and> (h = H_005 \<longrightarrow> fine_005 msg s) \<and>
     (h \<in> set (map snd trk_handlers) \<longrightarrow> track_fits s h msg)"

text \<open>The handlers the user registered for the command return and keep the session.\<close>

definition uhnd_fine :: "envir \<Rightarrow> tokarr \<Rightarrow> st \<Rightarrow> bool" where
  "uhnd_fine env msg s \<longleftrightarrow> (\<forall>pre. \<forall>h\<in>set (uhnds pre s). uh_cmd h \<noteq> [] \<longrightarrow> tk msg 1 = Some (uh_cmd h) \<longrightarrow>
     (\<forall>t. \<exists>ok t'. en_uhnd env (uh_hndfn h) msg (msg_ac msg) pre t = Some (ok, t') \<and> sess_kept t t'))"

definition harmless :: "envir \<Rightarrow> tokarr \<Rightarrow> bool \<Rightarrow> st \<Rightarrow> bool" where
  "harmless env msg logon s \<longleftrightarrow> tokarr_ok msg \<and> uhnd_fine env msg s \<and>
     (\<forall>sl\<in>#live_hnds s. tk msg 1 = Some (mh_cmd sl) \<longrightarrow> hnd_fine msg logon s (mh_hndfn sl))"

section \<open>States with the same view\<close>

lemma sess_viewD:
  assumes "sess_view s' = sess_view s"
  shows "st_hp s' = st_hp s" "ic_chans (st_irc s') = ic_chans (st_irc s)" "ic_users (st_irc s') = ic_users (st_irc s)"
    "ic_m005modepfx (st_irc s') = ic_m005modepfx (st_irc s)" "ic_m005chanmodes (st_irc s') = ic_m005chanmodes (st_irc s)"
    "ic_casemap (st_irc s') = ic_casemap (st_irc s)" "ic_msghnds (st_irc s') = ic_msghnds (st_irc s)"
    "ic_uprehnds (st_irc s') = ic_uprehnds (st_irc s)" "ic_uposthnds (st_irc s') = ic_uposthnds (st_irc s)"
    "ic_tracking_enab (st_irc s') = ic_tracking_enab (st_irc s)" "ic_dumb (st_irc s') = ic_dumb (st_irc s)"
    "ic_tracking (st_irc s') = ic_tracking (st_irc s)" "conf_of s' = conf_of s" "uhnds pre s' = uhnds pre s"
  using assms by (simp_all add: sess_view_def conf_of_def uhnds_def Let_def)

lemma view_accs:
  assumes "sess_view s' = sess_view s"
  shows "user_at a s' = user_at a s" "chan_at a s' = chan_at a s" "memb_at a s' = memb_at a s" "users_of s' = users_of s"
    "chans_of s' = chans_of s" "casemap_of s' = casemap_of s" "cm_of s' = cm_of s" "next_of s' = next_of s" "orc_of s' = orc_of s"
    "pfx_of s' = pfx_of s" "cls_of s' = cls_of s" "live_hnds s' = live_hnds s" "memb_map a s' = memb_map a s"
proof -
  note v = sess_viewD [OF assms]
  show "pfx_of s' = pfx_of s" "cls_of s' = cls_of s" by (rule modes_upd [OF v(4,5)])+
qed (simp_all add: acc_defs live_hnds_def sess_viewD [OF assms])

lemma view_base:
  assumes "sess_view s' = sess_view s"
  shows "base_of s' = base_of s"
  unfolding base_of_def view_accs [OF assms] ..

lemma view_inv:
  assumes "sess_view s' = sess_view s"
  shows "modes_ok s' = modes_ok s" "heap_empty s' = heap_empty s" "ucb_ok s' = ucb_ok s"
  unfolding modes_ok_def heap_empty_def ucb_ok_def ucb_inv_def st_ok_def view_accs [OF assms] view_base [OF assms] by (rule refl)+

lemma sess_ok_kept:
  assumes "sess_ok s" "sess_kept s s'"
  shows "sess_ok s'"
proof -
  from assms(2) have v: "sess_view s' = sess_view s" and r: "rx_ok (rctx_of s) \<longrightarrow> rx_ok (rctx_of s')" by (simp_all add: sess_kept_def)
  show ?thesis using assms(1) r unfolding sess_ok_def view_inv [OF v] view_accs [OF v] sess_viewD [OF v] by blast
qed

text \<open>
  One step of the session: the invariant holds after it, it has put nothing back into the input, the
  settings are the same, and tracking has not started unless the user asked for it.
\<close>

definition sess_next :: "st \<Rightarrow> st \<Rightarrow> bool" where
  "sess_next s s' \<longleftrightarrow> sess_ok s' \<and> rx_left s' \<le> rx_left s \<and> conf_of s' = conf_of s \<and>
     (\<not> ic_tracking (st_irc s) \<longrightarrow> ic_tracking_enab (st_irc s') = ic_tracking_enab (st_irc s))"

lemma conf_ofD:
  assumes "conf_of s' = conf_of s"
  shows "uhnds pre s' = uhnds pre s" "ic_tracking (st_irc s') = ic_tracking (st_irc s)" "ic_nick (st_irc s') = ic_nick (st_irc s)"
    "ic_starttls (st_irc s') = ic_starttls (st_irc s)" "co_ptype (ic_con (st_irc s')) = co_ptype (ic_con (st_irc s))"
    "co_laddr (ic_con (st_irc s')) = co_laddr (ic_con (st_irc s))"
  using assms by (simp_all add: conf_of_def uhnds_def Let_def)

lemma sess_next_ok: "sess_next s s' \<Longrightarrow> sess_ok s'"
  by (simp add: sess_next_def)

lemma sess_next_refl: "sess_ok s \<Longrightarrow> sess_next s s"
  by (simp add: sess_next_def)

lemma sess_next_trans: "sess_next s s1 \<Longrightarrow> sess_next s1 s2 \<Longrightarrow> sess_next s s2"
  using conf_ofD(2) [of s1 s] by (auto simp: sess_next_def)

lemma sess_next_kept: "sess_ok s \<Longrightarrow> sess_kept s s' \<Longrightarrow> sess_next s s'"
  using sess_ok_kept [of s s'] sess_viewD(10,13) [of s' s] by (simp add: sess_next_def sess_kept_def)

lemma hnd_fine_view:
  assumes "sess_view s' = sess_view s"
  shows "hnd_fine msg logon s' h = hnd_fine msg logon s h"
  unfolding hnd_fine_def core_crash_def track_fits_def fine_005_def view_accs [OF assms] sess_viewD [OF assms] assms by (rule refl)

section \<open>Starting to track\<close>

text \<open>Registering leaves the slots in use where they are.\<close>

definition slot_at :: "nat \<Rightarrow> msghnd \<Rightarrow> st \<Rightarrow> bool" where
  "slot_at i h s \<longleftrightarrow> i < length (ic_msghnds (st_irc s)) \<and> ic_msghnds (st_irc s) ! i = h \<and> mh_cmd h \<noteq> []"

lemma reghnd_slot:
  assumes r: "lsi_msg_reghnd cmd hndfn modul s = Some (ok, s')" and sl: "slot_at i h s"
  shows "slot_at i h s'"
proof -
  let ?arr = "ic_msghnds (st_irc s)"
  let ?k = "free_slot mh_cmd ?arr 0"
  note i = sl [unfolded slot_at_def]
  have k: "?k \<noteq> i" using free_slot_free [of mh_cmd ?arr 0] i by auto
  show ?thesis
    using r i k free_slot_le [of mh_cmd ?arr 0]
    by (auto simp: lsi_msg_reghnd_def grow_def st_malloc_def slot_at_def Let_def nth_append wr_def split: if_splits prod.splits)
qed

lemma reg_seq_slot: "reg_seq hs modul s = Some (ok, s') \<Longrightarrow> slot_at i h s \<Longrightarrow> slot_at i h s'"
proof (induction hs modul s arbitrary: ok s' rule: reg_seq.induct)
  case (2 cmd hf r modul s)
  from "2.prems"(1) obtain ok1 s1 where s1: "lsi_msg_reghnd cmd hf modul s = Some (ok1, s1)"
    "(if ok1 then reg_seq r modul s1 else Some (False, s1)) = Some (ok, s')" by auto
  from reghnd_slot [OF s1(1) "2.prems"(2)] have "slot_at i h s1" .
  then show ?case using s1(2) "2.IH" [OF s1(1) refl] by (cases ok1) auto
qed simp

lemma ucb_init_view:
  assumes "lsi_ucb_init s = (ok, s')"
  shows "ic_con (st_irc s') = ic_con (st_irc s)" "ic_msghnds (st_irc s') = ic_msghnds (st_irc s)" "st_net s' = st_net s"
    "conf_of s' = conf_of s"
  using assms by (auto simp: lsi_ucb_init_def acc_defs conf_of_def Let_def split: prod.splits if_splits)

lemma trk_init_start:
  assumes he: "heap_empty s" and md: "modes_ok s" and tb: "ic_msghnds (st_irc s) \<noteq> []" and orc: "orc_of s = []"
  obtains s' where "lsi_trk_init s = Some (True, s')" "ucb_ok s'" "live_hnds s' = live_hnds s + trk_slots" "orc_of s' = []"
    "rctx_of s' = rctx_of s" "ic_msghnds (st_irc s') \<noteq> []" "\<And>i h. slot_at i h s \<Longrightarrow> slot_at i h s'" "rx_left s' = rx_left s"
    "conf_of s' = conf_of s"
proof -
  obtain ok s' where s': "lsi_trk_init s = Some (ok, s')"
    "ok \<longrightarrow> ucb_ok s' \<and> base_of s' = base_empty \<and> casemap_of s' = casemap_of s \<and> pfx_of s' = pfx_of s \<and> live_hnds s' = live_hnds s + trk_slots"
    "orc_of s = [] \<longrightarrow> ok \<and> orc_of s' = []" by (rule trk_init_ok [OF he md tb]) metis
  have ok: "ok" using s'(3) orc by simp
  obtain s1 s2 where s: "reg_seq trk_handlers ''track'' s = Some (True, s1)" "lsi_ucb_init s1 = (True, s2)" "s' = set_endofnames True s2"
    using s'(1) ok by (auto simp: lsi_trk_init_def Let_def split: prod.splits if_splits)
  have "list_all (\<lambda>(cmd, _). cmd \<noteq> []) trk_handlers" by (simp add: trk_handlers_def)
  from reg_seq_spec [OF tb this, of "''track''"] s(1) have sb: "same_but_hnds s s1" by auto
  note v = ucb_init_view [OF s(2)]
  have r: "rctx_of s' = rctx_of s" "ic_msghnds (st_irc s') = ic_msghnds (st_irc s1)" "ic_msghnds (st_irc s1) \<noteq> []" "rx_left s' = rx_left s"
    using sb v(1-3) s(3) tb by (auto simp: same_but_hnds_def rctx_of_def set_endofnames_def rx_left_def)
  have cf: "conf_of s' = conf_of s"
    using sb v(4) s(3) by (auto simp: same_but_hnds_def set_endofnames_def conf_of_def Let_def)
  have "slot_at i h s'" if "slot_at i h s" for i h using reg_seq_slot [OF s(1) that] r(2) by (simp add: slot_at_def)
  with s' ok orc r cf show thesis by (intro that [of s']) auto
qed

section \<open>One handler\<close>

lemma sess_track_step_ok:
  assumes ok: "sess_ok s" and en: "ic_tracking_enab (st_irc s)" and h: "h \<in> set (map snd trk_handlers)" and fits: "track_fits s h msg"
  obtains r s' where "run_hnd mutn h msg (msg_ac msg) logon s = Some (r, s')" "sess_next s s'"
    "ic_msghnds (st_irc s') = ic_msghnds (st_irc s)" "\<And>h'. h' \<noteq> H_005 \<Longrightarrow> hnd_fine msg logon s h' \<Longrightarrow> hnd_fine msg logon s' h'"
proof -
  note o = ok [unfolded sess_ok_def]
  have "tracked s (run_hnd mutn h msg (msg_ac msg) logon s)" using track_handler_tracked [OF _ h fits] o en by simp
  then obtain r s' where r: "run_hnd mutn h msg (msg_ac msg) logon s = Some (r, s')" "ucb_ok s'" "casemap_of s' = casemap_of s"
    by (auto simp: tracked_def)
  have "h \<in> {H_JOIN, H_311, H_332, H_333, H_353, H_352, H_366, H_PART, H_QUIT, H_NICK, H_KICK, H_MODE,
      H_PRIVMSG, H_NOTICE, H_324, H_TOPIC}" using h by (simp add: trk_handlers_def)
  then have "kept s s'" using r(1)
    by (elim insertE emptyE) (auto simp: h_PRIVMSG_def h_NOTICE_def dest!: kept_dests)
  then have k: "obs s' = obs s" "orc_of s' = []" using o by simp_all
  then have v: "ic_con (st_irc s') = ic_con (st_irc s)" "ic_msghnds (st_irc s') = ic_msghnds (st_irc s)"
    "ic_tracking_enab (st_irc s') = ic_tracking_enab (st_irc s)" "ic_dumb (st_irc s') = ic_dumb (st_irc s)" "st_net s' = st_net s"
    "conf_of s' = conf_of s"
    unfolding obs_def conf_of_def Let_def by (cases "st_irc s"; cases "st_irc s'"; simp)+
  have "modes_ok s'" using r(2) by (simp add: ucb_ok_def ucb_inv_def st_ok_def)
  then have "sess_ok s'" using o en r(2) k v by (simp add: sess_ok_def rctx_of_def live_hnds_def)
  then have "sess_next s s'" using v by (simp add: sess_next_def rx_left_def)
  moreover have "core_crash h' msg logon s' = core_crash h' msg logon s" "track_fits s' h' msg = track_fits s h' msg" for h'
    using r(3) k v o by (simp_all add: core_crash_def track_fits_def)
  then have "hnd_fine msg logon s' h'" if "h' \<noteq> H_005" "hnd_fine msg logon s h'" for h'
    using that unfolding hnd_fine_def by blast
  ultimately show thesis using that r(1) v(2) by blast
qed

lemma core_step_ok:
  assumes ok: "sess_ok s" and h: "h \<in> core_hnds" "h \<noteq> H_005" and fine: "hnd_fine msg logon s h"
  obtains r s' where "run_hnd mutn h msg (msg_ac msg) logon s = Some (r, s')" "sess_kept s s'"
proof -
  have o: "orc_of s = []" "ic_msghnds (st_irc s) \<noteq> []" using ok by (simp_all add: sess_ok_def)
  have "run_hnd mutn h msg (msg_ac msg) logon s \<noteq> None" using core_None_iff [OF o h(1)] fine by (simp add: hnd_fine_def del: not_None_eq)
  then obtain r s' where r: "run_hnd mutn h msg (msg_ac msg) logon s = Some (r, s')" by auto
  show thesis by (rule that [OF r core_kept [OF r h o(1)]])
qed

lemma ucb_ok_cong:
  assumes "st_hp s' = st_hp s" "ic_chans (st_irc s') = ic_chans (st_irc s)" "ic_users (st_irc s') = ic_users (st_irc s)"
    "pfx_of s' = pfx_of s" "cls_of s' = cls_of s" "casemap_of s' = casemap_of s"
  shows "ucb_ok s' = ucb_ok s"
proof -
  have a: "user_at = (\<lambda>a s. hp_users (st_hp s) a)" "chan_at = (\<lambda>a s. hp_chans (st_hp s) a)" "memb_at = (\<lambda>a s. hp_membs (st_hp s) a)"
    by (simp_all add: fun_eq_iff acc_defs)
  have b: "users_of s' = users_of s" "chans_of s' = chans_of s" "cm_of s' = cm_of s" "next_of s' = next_of s" "memb_map ca s' = memb_map ca s" for ca
    using assms by (simp_all add: acc_defs)
  show ?thesis
    unfolding ucb_ok_def ucb_inv_def st_ok_def modes_ok_def base_of_def a b assms by (rule refl)
qed

lemma no005D:
  assumes "no005 x' = no005 x"
  shows "ic_con x' = ic_con x" "ic_chans x' = ic_chans x" "ic_users x' = ic_users x" "ic_msghnds x' = ic_msghnds x"
    "ic_tracking_enab x' = ic_tracking_enab x" "ic_tracking x' = ic_tracking x" "ic_nick x' = ic_nick x" "ic_starttls x' = ic_starttls x"
    "ic_uprehnds x' = ic_uprehnds x" "ic_uposthnds x' = ic_uposthnds x"
  using assms unfolding no005_def by (cases x; cases x'; simp)+

lemma trk_slots_no_005: "filter_mset (\<lambda>h. mh_cmd h = ''005'') trk_slots = {#}"
  by (simp add: trk_slots_def trk_handlers_def hnd_slot_def ncpy_def)

lemma step_005_ok:
  assumes ok: "sess_ok s" and fine: "fine_005 msg s"
  obtains r s' where "handle_005 msg (msg_ac msg) logon s = Some (r, s')" "sess_next s s'" "\<And>i h. slot_at i h s \<Longrightarrow> slot_at i h s'"
proof -
  note o = ok [unfolded sess_ok_def]
  have orc: "orc_of s = []" using o by simp
  obtain ret c e s1 where a: "attrs_loop (map (tk msg) [3..<msg_ac msg - 1]) 0 False s = Some (ret, c, e, s1)" "attr_kept s s1"
    by (rule handle_005_attrs [OF orc refl])
  have f: "ic_tracking (st_irc s) \<longrightarrow> modes_ok s1" "ic_tracking_enab (st_irc s) \<longrightarrow> pfx_of s1 = pfx_of s \<and> cls_of s1 = cls_of s \<and> casemap_of s1 = casemap_of s"
    using fine [unfolded fine_005_def, rule_format, OF refl a(1)] by simp_all
  have v: "st_hp s1 = st_hp s" "no005 (st_irc s1) = no005 (st_irc s)" "st_net s1 = st_net s" using a(2) by (simp_all add: attr_kept_def)
  note w = no005D [OF v(2)]
  have he: "heap_empty s1 = heap_empty s" using v by (simp add: heap_empty_def acc_defs)
  have ue: "ucb_ok s1" if "ic_tracking_enab (st_irc s)"
    using ucb_ok_cong [OF v(1) w(2,3)] f(2) o that by simp
  have lv: "live_hnds s1 = live_hnds s" "rctx_of s1 = rctx_of s" "orc_of s1 = []" "rx_left s1 = rx_left s" "conf_of s1 = conf_of s"
    using v w orc by (simp_all add: live_hnds_def rctx_of_def orc_of_def rx_left_def conf_of_def Let_def)
  have ok1: "sess_ok s1" using o f(1) ue he lv w by (auto simp: sess_ok_def)
  have sl: "slot_at i h s1 = slot_at i h s" for i h using w by (simp add: slot_at_def)
  show thesis
  proof (cases "\<not> e \<and> c \<and> ic_tracking (st_irc s1) \<and> \<not> ic_tracking_enab (st_irc s1)")
    case False
    then have "handle_005 msg (msg_ac msg) logon s = Some (ret, s1)" using a(1) by (auto simp: handle_005_def)
    then show thesis by (rule that) (use ok1 sl lv(4,5) w(5) in \<open>auto simp: sess_next_def\<close>)
  next
    case True
    then have ne: "\<not> ic_tracking_enab (st_irc s)" and tr: "ic_tracking (st_irc s)" using w(5,6) by simp_all
    then have f1: "modes_ok s1" using f(1) by simp
    obtain s2 where s2: "lsi_trk_init s1 = Some (True, s2)" "ucb_ok s2" "live_hnds s2 = live_hnds s1 + trk_slots" "orc_of s2 = []"
      "rctx_of s2 = rctx_of s1" "ic_msghnds (st_irc s2) \<noteq> []" "\<And>i h. slot_at i h s1 \<Longrightarrow> slot_at i h s2" "rx_left s2 = rx_left s1"
      "conf_of s2 = conf_of s1"
      by (rule trk_init_start [OF _ f1 _ lv(3)]) (use o ne he w(4) in auto)
    let ?s = "upd_irc (\<lambda>x. x\<lparr>ic_tracking_enab := True\<rparr>) s2"
    have r: "handle_005 msg (msg_ac msg) logon s = Some (ret, ?s)" using a(1) True s2(1) by (simp add: handle_005_def)
    have u: "ucb_ok ?s" using ucb_ok_cong [of ?s s2] s2(2) modes_upd [of ?s s2] by (simp add: upd_irc_def casemap_of_def)
    then have md: "modes_ok ?s" by (simp add: ucb_ok_def ucb_inv_def st_ok_def)
    have t: "live_hnds ?s = live_hnds s + trk_slots" "rctx_of ?s = rctx_of s" "orc_of ?s = []" "ic_msghnds (st_irc ?s) = ic_msghnds (st_irc s2)"
      "rx_left ?s = rx_left s" "conf_of ?s = conf_of s"
      using s2(3-5,8,9) lv by (simp_all add: upd_irc_def live_hnds_def rctx_of_def orc_of_def rx_left_def conf_of_def Let_def)
    have "size (filter_mset (\<lambda>h. mh_cmd h = ''005'') (live_hnds ?s)) \<le> 1"
      unfolding t(1) filter_union_mset trk_slots_no_005 using o by simp
    moreover have "set_mset (live_hnds ?s) \<subseteq> set_mset core_slots \<union> set_mset trk_slots" using o ne t(1) by auto
    moreover have "ic_tracking_enab (st_irc ?s)" by (simp add: upd_irc_def)
    ultimately have "sess_ok ?s" unfolding sess_ok_def t(2-4) using o u md s2(6) t(3) by simp
    then have "sess_next s ?s" using t(5,6) tr by (simp add: sess_next_def)
    moreover have "slot_at i h ?s" if "slot_at i h s" for i h
    proof -
      have "slot_at i h s2" using s2(7) sl that by blast
      then show ?thesis by (simp add: slot_at_def upd_irc_def)
    qed
    ultimately show thesis using r by (intro that)
  qed
qed

section \<open>The loops over the tables\<close>

lemma live_slot: "i < length (ic_msghnds (st_irc s)) \<Longrightarrow> mh_cmd (ic_msghnds (st_irc s) ! i) \<noteq> [] \<Longrightarrow> ic_msghnds (st_irc s) ! i \<in># live_hnds s"
  by (simp add: live_hnds_def live_def)

lemma unique_005:
  assumes "sess_ok s" "slot_at i h s" "slot_at j h' s" "mh_cmd h = ''005''" "mh_cmd h' = ''005''"
  shows "i = j"
proof (rule ccontr)
  assume ne: "i \<noteq> j"
  let ?arr = "ic_msghnds (st_irc s)"
  let ?I = "{k. k < length ?arr \<and> mh_cmd (?arr ! k) = ''005''}"
  have "filter_mset (\<lambda>h. mh_cmd h = ''005'') (live_hnds s) = mset (filter (\<lambda>h. mh_cmd h = ''005'') ?arr)"
    by (intro multiset_eqI) (simp add: live_hnds_def live_def)
  then have "length (filter (\<lambda>h. mh_cmd h = ''005'') ?arr) \<le> 1" using assms(1) by (simp add: sess_ok_def flip: mset_filter)
  then have "card ?I \<le> 1" by (simp add: length_filter_conv_card)
  moreover have "{i, j} \<subseteq> ?I" using assms by (auto simp: slot_at_def)
  then have "card {i, j} \<le> card ?I" by (intro card_mono) auto
  ultimately show False using ne by simp
qed

text \<open>The handlers a live slot can have\<close>

lemma slot_cases:
  assumes "sess_ok s" "sl \<in># live_hnds s"
  obtains "mh_hndfn sl \<in> core_hnds" "mh_cmd sl = ''005'' \<longleftrightarrow> mh_hndfn sl = H_005"
  | "ic_tracking_enab (st_irc s)" "mh_hndfn sl \<in> set (map snd trk_handlers)" "mh_cmd sl \<noteq> ''005''"
proof -
  have c: "mh_hndfn sl \<in> core_hnds \<and> (mh_cmd sl = ''005'' \<longleftrightarrow> mh_hndfn sl = H_005)" if "sl \<in># core_slots"
    using that by (auto simp: core_slots_def hnd_slot_def imh_handlers_def v3_handlers_def core_hnds_def ncpy_def)
  have t: "mh_hndfn sl \<in> set (map snd trk_handlers) \<and> mh_cmd sl \<noteq> ''005''" if "sl \<in># trk_slots"
    using that by (auto simp: trk_slots_def hnd_slot_def trk_handlers_def ncpy_def)
  have "sl \<in> set_mset core_slots \<union> (if ic_tracking_enab (st_irc s) then set_mset trk_slots else {})"
    using assms by (auto simp: sess_ok_def)
  with c t that show thesis by (auto split: if_splits)
qed

definition rest_fine :: "tokarr \<Rightarrow> bool \<Rightarrow> string \<Rightarrow> nat \<Rightarrow> st \<Rightarrow> bool" where
  "rest_fine msg logon cmd i s \<longleftrightarrow> (\<forall>j sl. i \<le> j \<longrightarrow> slot_at j sl s \<longrightarrow> mh_cmd sl = cmd \<longrightarrow> hnd_fine msg logon s (mh_hndfn sl))"

lemma msg_loop_none:
  assumes "tk msg 1 = Some cmd" "\<forall>j sl. i \<le> j \<longrightarrow> slot_at j sl s \<longrightarrow> mh_cmd sl \<noteq> cmd"
  shows "msg_loop hnd msg ac logon i res s = Some (True, res, s)"
  using assms(2)
proof (induction "length (ic_msghnds (st_irc s)) - i" arbitrary: i)
  case 0
  then show ?case by (subst msg_loop.simps) simp
next
  case (Suc n)
  then have i: "i < length (ic_msghnds (st_irc s))" by simp
  have "mh_cmd (ic_msghnds (st_irc s) ! i) = [] \<or> mh_cmd (ic_msghnds (st_irc s) ! i) \<noteq> cmd"
    using Suc.prems i by (auto simp: slot_at_def)
  then have "msg_loop hnd msg ac logon i res s = msg_loop hnd msg ac logon (i + 1) res s"
    using assms(1) i by (subst msg_loop.simps) (auto simp: Let_def)
  moreover have "n = length (ic_msghnds (st_irc s)) - (i + 1)" using Suc.hyps(2) by simp
  moreover have "\<forall>j sl. i + 1 \<le> j \<longrightarrow> slot_at j sl s \<longrightarrow> mh_cmd sl \<noteq> cmd" using Suc.prems add_leD1 by blast
  ultimately show ?case using Suc.hyps(1) by metis
qed

text \<open>Running one handler of the message, then the rest of the table\<close>

lemma msg_loop_step:
  assumes cmd: "tk msg 1 = Some cmd" and ok: "sess_ok s" and sl: "slot_at i sl s" "mh_cmd sl = cmd" and fine: "rest_fine msg logon cmd i s"
    and rest: "\<And>s' res. sess_ok s' \<Longrightarrow> ic_msghnds (st_irc s') = ic_msghnds (st_irc s) \<Longrightarrow> rest_fine msg logon cmd (i + 1) s' \<Longrightarrow>
      \<exists>ok r s2. msg_loop (run_hnd mutn) msg (msg_ac msg) logon (i + 1) res s' = Some (ok, r, s2) \<and> sess_next s' s2"
  obtains r s' where "run_hnd mutn (mh_hndfn sl) msg (msg_ac msg) logon s = Some (r, s')" "sess_next s s'"
    "\<And>res. \<exists>ok r s2. msg_loop (run_hnd mutn) msg (msg_ac msg) logon (i + 1) res s' = Some (ok, r, s2) \<and> sess_next s' s2"
proof -
  have lv: "sl \<in># live_hnds s" using live_slot [of i s] sl(1) by (simp add: slot_at_def)
  have hf: "hnd_fine msg logon s (mh_hndfn sl)" using fine sl by (auto simp: rest_fine_def)
  show thesis
  proof (rule slot_cases [OF ok lv])
    assume c: "mh_hndfn sl \<in> core_hnds" "(mh_cmd sl = ''005'') = (mh_hndfn sl = H_005)"
    show thesis
    proof (cases "mh_hndfn sl = H_005")
      case False
      obtain r s' where r: "run_hnd mutn (mh_hndfn sl) msg (msg_ac msg) logon s = Some (r, s')" "sess_kept s s'"
        by (rule core_step_ok [OF ok c(1) False hf])
      have v: "sess_view s' = sess_view s" using r(2) by (simp add: sess_kept_def)
      have "rest_fine msg logon cmd (i + 1) s'"
        using fine unfolding rest_fine_def hnd_fine_view [OF v] slot_at_def sess_viewD [OF v] by auto
      from rest [OF sess_ok_kept [OF ok r(2)] sess_viewD(7) [OF v] this] show thesis by (rule that [OF r(1) sess_next_kept [OF ok r(2)]])
    next
      case True
      with hf have "fine_005 msg s" by (simp add: hnd_fine_def)
      from step_005_ok [OF ok this, of logon] obtain r s' where r: "handle_005 msg (msg_ac msg) logon s = Some (r, s')" "sess_next s s'"
        "\<And>i h. slot_at i h s \<Longrightarrow> slot_at i h s'" by metis
      have c5: "cmd = ''005''" "mh_cmd sl = ''005''" using c(2) True sl(2) by simp_all
      have "\<forall>j sl'. i + 1 \<le> j \<longrightarrow> slot_at j sl' s' \<longrightarrow> mh_cmd sl' \<noteq> cmd"
        using unique_005 [OF sess_next_ok [OF r(2)] r(3) [OF sl(1)] _ c5(2)] c5(1) by fastforce
      from msg_loop_none [OF cmd this] sess_next_refl [OF sess_next_ok [OF r(2)]] have
        "\<exists>ok r s2. msg_loop (run_hnd mutn) msg (msg_ac msg) logon (i + 1) res s' = Some (ok, r, s2) \<and> sess_next s' s2" for res by blast
      with r(1,2) True show thesis by (intro that [of r s']) simp_all
    qed
  next
    assume c: "ic_tracking_enab (st_irc s)" "mh_hndfn sl \<in> set (map snd trk_handlers)" "mh_cmd sl \<noteq> ''005''"
    from hf c(2) have "track_fits s (mh_hndfn sl) msg" by (simp add: hnd_fine_def)
    from sess_track_step_ok [OF ok c(1,2) this, of mutn logon] obtain r s' where r: "run_hnd mutn (mh_hndfn sl) msg (msg_ac msg) logon s = Some (r, s')" "sess_next s s'"
      "ic_msghnds (st_irc s') = ic_msghnds (st_irc s)" "\<And>h'. h' \<noteq> H_005 \<Longrightarrow> hnd_fine msg logon s h' \<Longrightarrow> hnd_fine msg logon s' h'" by metis
    have "rest_fine msg logon cmd (i + 1) s'"
      unfolding rest_fine_def
    proof (intro allI impI)
      fix j sl'
      assume j: "i + 1 \<le> j" "slot_at j sl' s'" "mh_cmd sl' = cmd"
      then have sj: "slot_at j sl' s" using r(3) by (simp add: slot_at_def)
      then have "sl' \<in># live_hnds s" using live_slot [of j s] by (simp add: slot_at_def)
      then have "mh_hndfn sl' \<noteq> H_005"
        by (rule slot_cases [OF ok]) (use c(3) j(3) sl(2) in \<open>auto simp: trk_handlers_def\<close>)
      moreover have "hnd_fine msg logon s (mh_hndfn sl')" using fine [unfolded rest_fine_def, rule_format, of j sl'] sj j by simp
      ultimately show "hnd_fine msg logon s' (mh_hndfn sl')" by (rule r(4))
    qed
    from rest [OF sess_next_ok [OF r(2)] r(3) this] show thesis by (rule that [OF r(1,2)])
  qed
qed

lemma msg_loop_safe:
  assumes "tk msg 1 = Some cmd"
  shows "sess_ok s \<Longrightarrow> rest_fine msg logon cmd i s \<Longrightarrow>
    \<exists>ok r s'. msg_loop (run_hnd mutn) msg (msg_ac msg) logon i res s = Some (ok, r, s') \<and> sess_next s s'"
proof (induction "length (ic_msghnds (st_irc s)) - i" arbitrary: i res s rule: less_induct)
  case less
  let ?arr = "ic_msghnds (st_irc s)"
  show ?case
  proof (cases "i < length ?arr")
    case False
    then have "msg_loop (run_hnd mutn) msg (msg_ac msg) logon i res s = Some (True, res, s)" by (subst msg_loop.simps) simp
    then show ?thesis using sess_next_refl [OF less.prems(1)] by blast
  next
    case i: True
    have nxt: "rest_fine msg logon cmd (i + 1) s" using less.prems(2) add_leD1 unfolding rest_fine_def by blast
    show ?thesis
    proof (cases "mh_cmd (?arr ! i) \<noteq> [] \<and> mh_cmd (?arr ! i) = cmd")
      case False
      then have "msg_loop (run_hnd mutn) msg (msg_ac msg) logon i res s = msg_loop (run_hnd mutn) msg (msg_ac msg) logon (i + 1) res s"
        using assms i by (subst msg_loop.simps) (auto simp: Let_def)
      with less.hyps [of s "i + 1" res] less.prems(1) nxt i show ?thesis by simp
    next
      case True
      let ?sl = "?arr ! i"
      have sl: "slot_at i ?sl s" using True i by (auto simp: slot_at_def)
      have cm: "mh_cmd ?sl = cmd" using True by simp
      have ih: "\<exists>ok r s2. msg_loop (run_hnd mutn) msg (msg_ac msg) logon (i + 1) res s' = Some (ok, r, s2) \<and> sess_next s' s2"
        if "sess_ok s'" "ic_msghnds (st_irc s') = ?arr" "rest_fine msg logon cmd (i + 1) s'" for s' res
        using less.hyps [of s' "i + 1" res] that i by simp
      obtain r s' where r: "run_hnd mutn (mh_hndfn ?sl) msg (msg_ac msg) logon s = Some (r, s')" "sess_next s s'"
        "\<And>res. \<exists>ok r s2. msg_loop (run_hnd mutn) msg (msg_ac msg) logon (i + 1) res s' = Some (ok, r, s2) \<and> sess_next s' s2"
        using msg_loop_step [OF assms less.prems(1) sl cm less.prems(2) ih] by blast
      have "msg_loop (run_hnd mutn) msg (msg_ac msg) logon i res s =
          (if has_flag (res OR r) CANT_PROCEED then Some (False, res OR r, s')
           else msg_loop (run_hnd mutn) msg (msg_ac msg) logon (i + 1) (res OR r) s')"
        using True assms i r(1) by (subst msg_loop.simps) (auto simp: Let_def)
      then show ?thesis using r(2) r(3) [of "res OR r"] sess_next_trans [OF r(2)]
        by (cases "has_flag (res OR r) CANT_PROCEED") auto
    qed
  qed
qed

text \<open>The tables of the user\<close>

lemma dispatch_uhnd_safe:
  assumes u: "uhnd_fine env msg s0" and m: "tk msg 1 = Some cmd" and hc: "length (uhnds pre s0) = hcnt"
  shows "uhnds pre s = uhnds pre s0 \<Longrightarrow>
    \<exists>ok s'. dispatch_uhnd_loop (en_uhnd env) msg (msg_ac msg) pre hcnt i s = Some (ok, s') \<and> sess_kept s s'"
proof (induction "hcnt - i" arbitrary: i s)
  case 0
  then have "dispatch_uhnd_loop (en_uhnd env) msg (msg_ac msg) pre hcnt i s = Some (True, s)" by (subst dispatch_uhnd_loop.simps) simp
  then show ?case using sess_kept_refl by blast
next
  case (Suc n)
  then have i: "i < hcnt" "n = hcnt - (i + 1)" by simp_all
  note ih = Suc.hyps(1) [OF i(2)]
  let ?h = "uhnds pre s ! i"
  show ?case
  proof (cases "uh_cmd ?h = [] \<or> cmd \<noteq> uh_cmd ?h")
    case True
    then have "dispatch_uhnd_loop (en_uhnd env) msg (msg_ac msg) pre hcnt i s =
        dispatch_uhnd_loop (en_uhnd env) msg (msg_ac msg) pre hcnt (i + 1) s"
      using i m hc Suc.prems by (subst dispatch_uhnd_loop.simps) (auto simp: Let_def)
    with ih [OF Suc.prems] show ?thesis by simp
  next
    case False
    obtain ok s' where s': "en_uhnd env (uh_hndfn ?h) msg (msg_ac msg) pre s = Some (ok, s')" "sess_kept s s'"
      using u False m i hc Suc.prems unfolding uhnd_fine_def by (metis nth_mem)
    then have "sess_view s' = sess_view s" by (simp add: sess_kept_def)
    from sess_viewD(14) [OF this] have l: "uhnds pre s' = uhnds pre s0" using Suc.prems by simp
    have "dispatch_uhnd_loop (en_uhnd env) msg (msg_ac msg) pre hcnt i s =
        (if \<not> ok then Some (False, s') else dispatch_uhnd_loop (en_uhnd env) msg (msg_ac msg) pre hcnt (i + 1) s')"
      using i m False hc Suc.prems s'(1) by (subst dispatch_uhnd_loop.simps) (simp add: Let_def)
    with ih [OF l] s'(2) show ?thesis using sess_kept_trans [OF s'(2)] by auto
  qed
qed

lemma handle_msg_safe:
  assumes ok: "sess_ok s" and h: "harmless env msg logon s"
  obtains r s' where "handle_msg env msg logon s = Some (r, s')" "sess_next s s'"
proof -
  note hd = h [unfolded harmless_def]
  obtain cmd where cmd: "tk msg 1 = Some cmd" using hd by (auto simp: tokarr_ok_def)
  have u: "\<exists>b s1. (if logon then Some (True, t) else dispatch_uhnd (en_uhnd env) msg (msg_ac msg) pre t) = Some (b, s1) \<and> sess_kept t s1"
    if "uhnds pre t = uhnds pre s" for pre t
    using dispatch_uhnd_safe [of env msg s cmd pre "length (uhnds pre t)" t 0] that hd cmd sess_kept_refl [of t] by (auto simp: dispatch_uhnd_def)
  obtain b s1 where s1: "(if logon then Some (True, s) else dispatch_uhnd (en_uhnd env) msg (msg_ac msg) True s) = Some (b, s1)" "sess_kept s s1"
    using u [of True s] by blast
  have nx1: "sess_next s s1" by (rule sess_next_kept [OF ok s1(2)])
  note ok1 = sess_next_ok [OF nx1]
  have v: "sess_view s1 = sess_view s" using s1(2) by (simp add: sess_kept_def)
  show thesis
  proof (cases b)
    case False
    then have "handle_msg env msg logon s = Some (USER_ERR, s1)" using s1(1) by (simp add: handle_msg_def lsi_msg_handle_def Let_def)
    then show thesis using nx1 by (rule that)
  next
    case True
    have "rest_fine msg logon cmd 0 s1"
      unfolding rest_fine_def hnd_fine_view [OF v]
      using hd cmd live_slot view_accs(12) [OF v] by (fastforce simp: slot_at_def)
    from msg_loop_safe [OF cmd ok1 this, of "en_mutnick env" 0] obtain ok2 r s2 where
      s2: "msg_loop (run_hnd (en_mutnick env)) msg (msg_ac msg) logon 0 0 s1 = Some (ok2, r, s2)" "sess_next s1 s2" by blast
    obtain b3 s3 where s3: "(if logon then Some (True, s2) else dispatch_uhnd (en_uhnd env) msg (msg_ac msg) False s2) = Some (b3, s3)" "sess_kept s2 s3"
      using u [of False s2] conf_ofD(1) [of s2 s1 False] sess_viewD(14) [OF v, of False] s2(2) unfolding sess_next_def by metis
    have "handle_msg env msg logon s = (if \<not> ok2 then Some (r, s2) else Some (if b3 then r else r OR USER_ERR, s3))"
      using True s1(1) s2(1) s3(1) by (simp add: handle_msg_def lsi_msg_handle_def Let_def)
    moreover have "sess_next s s2" "sess_next s s3"
      using sess_next_trans [OF nx1 s2(2)] sess_next_trans sess_next_kept [OF sess_next_ok [OF s2(2)] s3(2)] by blast+
    ultimately show thesis using that by (cases ok2) auto
  qed
qed

section \<open>Reading\<close>

definition read_start :: "st \<Rightarrow> st" where
  "read_start s = upd_irc (\<lambda>x. x\<lparr>ic_v3tags_dec := map (\<lambda>_. []) (ic_v3tags_dec x), ic_v3ntags := MAX_V3TAGS\<rparr>) s"

lemma tags_kept: "sess_kept s (read_start s)" "sess_kept s (upd_irc (store_tags tags) s)"
  by (simp_all add: read_start_def view_simps store_tags_def Let_def split: option.split)

lemma conn_read_conf:
  "lsi_conn_read ntags to_us ctx w = Some (r, msg, tags, c, w') \<Longrightarrow> co_ptype c = co_ptype ctx \<and> co_laddr c = co_laddr ctx"
  by (auto simp: lsi_conn_read_def lsi_conn_reset_def Let_def bind_eq_Some_conv split: prod.splits if_splits)

lemma st_conn_read_total:
  assumes "rx_ok (rctx_of s)"
  obtains r msg tags s1 where "st_conn_read ntags to_us s = Some (r, msg, tags, s1)" "sess_kept s s1" "r \<in> {1, 0, -1}"
    "r = 1 \<longrightarrow> tokarr_ok msg" "r \<in> {0, 1} \<longrightarrow> rx_left s1 < rx_left s"
proof -
  obtain r msg tags c w where c: "lsi_conn_read ntags to_us (ic_con (st_irc s)) (st_net s) = Some (r, msg, tags, c, w)"
    "r \<in> {1, 0, -1}" "rx_ok (co_rctx c)" "r = 1 \<longrightarrow> tokarr_ok msg"
    "left (co_rctx c) w \<le> rx_left s" "r \<in> {0, 1} \<longrightarrow> left (co_rctx c) w < rx_left s"
    unfolding rx_left_def
    by (rule lsi_conn_read_total [OF assms [unfolded rctx_of_def]])
  have rd: "st_conn_read ntags to_us s = Some (r, msg, tags, (upd_con (\<lambda>_. c) s)\<lparr>st_net := w\<rparr>)" using c(1) by (simp add: st_conn_read_def)
  have lw: "rx_left ((upd_con (\<lambda>_. c) s)\<lparr>st_net := w\<rparr>) = left (co_rctx c) w"
    by (simp add: rx_left_def upd_con_def upd_irc_def)
  have "sess_kept s ((upd_con (\<lambda>_. c) s)\<lparr>st_net := w\<rparr>)"
    using c(3,5) conn_read_conf [OF c(1)] unfolding sess_kept_def lw
    by (simp add: sess_view_def conf_of_def rctx_of_def upd_con_def upd_irc_def Let_def)
  from that [OF rd this c(2,4) c(6) [folded lw]] show thesis .
qed

text \<open>The only messages that are not covered: what is read next is harmless.\<close>

definition next_harmless :: "envir \<Rightarrow> u64 \<Rightarrow> st \<Rightarrow> bool" where
  "next_harmless env to_us s \<longleftrightarrow> (\<forall>msg tags s1. st_conn_read (Some MAX_V3TAGS) to_us (read_start s) = Some (1, msg, tags, s1) \<longrightarrow>
     tokarr_ok msg \<longrightarrow> harmless env msg False s1)"

lemma harmless_kept:
  assumes "sess_kept s s'"
  shows "harmless env msg logon s' = harmless env msg logon s"
proof -
  have v: "sess_view s' = sess_view s" using assms by (simp add: sess_kept_def)
  show ?thesis unfolding harmless_def uhnd_fine_def hnd_fine_view [OF v] view_accs [OF v] sess_viewD(14) [OF v] by (rule refl)
qed

text \<open>A session of the user that tracks, its table cut down to handlers for which every message is harmless\<close>

definition quit_st :: "net \<Rightarrow> st" where
  "quit_st w = track_st\<lparr>st_irc := (st_irc track_st)\<lparr>ic_con := online_con, ic_tracking_enab := True,
     ic_msghnds := [hnd_slot ''PING'' H_PING ''core'', mh_free, hnd_slot ''PART'' H_PART ''track'', hnd_slot ''QUIT'' H_QUIT ''track'']\<rparr>,
     st_net := w\<rparr>"

lemma quit_st_ok: "sess_ok (quit_st w)"
proof -
  have u: "ucb_ok (quit_st w)"
    by (subst ucb_ok_cong [of "quit_st w" track_st]) (use track_st_ok in \<open>simp_all add: quit_st_def pfx_of_def cls_of_def casemap_of_def lsi_ut_classify_chanmode_def fun_eq_iff\<close>)
  then have "modes_ok (quit_st w)" by (simp add: ucb_ok_def ucb_inv_def st_ok_def)
  moreover have "live_hnds (quit_st w) = {#hnd_slot ''PING'' H_PING ''core'', hnd_slot ''PART'' H_PART ''track'', hnd_slot ''QUIT'' H_QUIT ''track''#}"
    by (simp add: quit_st_def live_hnds_def hnd_slot_def mh_free_def ncpy_def)
  moreover have "rx_ok (rctx_of (quit_st w))"
    by (simp add: quit_st_def rctx_of_def online_con_def lsi_conn_init_def lsi_b_strdup_def readctx_init_def rx_ok_def)
  moreover have "orc_of (quit_st w) = []" using track_st_orc by (simp add: quit_st_def orc_of_def)
  ultimately show ?thesis using u
    by (simp add: sess_ok_def quit_st_def core_slots_def imh_handlers_def trk_slots_def trk_handlers_def hnd_slot_def ncpy_def)
qed

lemma st_conn_read_view: "st_conn_read ntags to_us s = Some (r, msg, tags, s1) \<Longrightarrow> sess_view s1 = sess_view s"
  by (auto simp: st_conn_read_def view_simps Let_def bind_eq_Some_conv dest!: conn_read_conf)

lemma quit_st_harmless: "next_harmless silent_env to_us (quit_st w)"
  unfolding next_harmless_def
proof (intro allI impI)
  fix msg tags s1
  assume r: "st_conn_read (Some MAX_V3TAGS) to_us (read_start (quit_st w)) = Some (1, msg, tags, s1)" and m: "tokarr_ok msg"
  have v: "sess_view s1 = sess_view (quit_st w)" using st_conn_read_view [OF r] tags_kept(1) [of "quit_st w"] by (simp add: sess_kept_def)
  have l: "live_hnds s1 = {#hnd_slot ''PING'' H_PING ''core'', hnd_slot ''PART'' H_PART ''track'', hnd_slot ''QUIT'' H_QUIT ''track''#}"
    unfolding view_accs(12) [OF v] by (simp add: quit_st_def live_hnds_def hnd_slot_def mh_free_def ncpy_def)
  have "uhnd_fine silent_env msg s1" unfolding uhnd_fine_def silent_env_def using sess_kept_refl by auto
  with m show "harmless silent_env msg False s1"
    by (simp add: harmless_def l hnd_slot_def hnd_fine_def core_crash_def trk_handlers_def track_fits_def)
qed

text \<open>
  \<open>irc_connect\<close> establishes the invariant: after \<^const>\<open>connect_prepare\<close> on a context that tracks nothing the table
  holds the handlers of the library and the server's modes are the defaults.
\<close>

lemma reset_modes: "st_irc s = (reset_state x)\<lparr>ic_logonconv := a, ic_m005attrs := b\<rparr> \<Longrightarrow> heap_empty s \<Longrightarrow> modes_ok s"
proof -
  assume s: "st_irc s = (reset_state x)\<lparr>ic_logonconv := a, ic_m005attrs := b\<rparr>" and he: "heap_empty s"
  have "pfx_of s = (''ov'', ''@+'')" using s by (simp add: pfx_of_def reset_state_def)
  moreover have "cls_of s CHR ''o'' = 0" "cls_of s CHR ''v'' = 0"
    using s by (simp_all add: cls_of_def reset_state_def lsi_ut_classify_chanmode_def numeral_eq_Suc strchr_None_iff [symmetric])
  ultimately show ?thesis using he by (simp add: modes_ok_def heap_empty_def)
qed

text \<open>A context that tracks nothing: a new one, or one whose session did not track.\<close>

definition startable :: "st \<Rightarrow> bool" where
  "startable s \<longleftrightarrow> ic_chans (st_irc s) = Null \<and> ic_users (st_irc s) = None \<and> heap_empty s \<and> orc_of s = [] \<and>
     rx_ok (rctx_of s) \<and> ic_msghnds (st_irc s) \<noteq> [] \<and> set_mset (live_hnds s) \<subseteq> set_mset core_slots \<union> set_mset trk_slots"

lemma sess_startable: "sess_ok s \<Longrightarrow> \<not> ic_tracking_enab (st_irc s) \<Longrightarrow> startable s"
  by (auto simp: sess_ok_def startable_def)

lemma slot_modules: "h \<in># core_slots \<Longrightarrow> mh_module h = ''core'' \<or> mh_module h = ''v3''" "h \<in># trk_slots \<Longrightarrow> mh_module h = ''track''"
  by (auto simp: core_slots_def trk_slots_def hnd_slot_def ncpy_def)

lemma prepare_sess_ok:
  assumes st: "startable s"
  obtains s' where "connect_prepare s = Some (True, s')" "sess_ok s'" "ic_con (st_irc s') = ic_con (st_irc s)"
    "conf_of s' = conf_of s" "st_net s' = st_net s" "\<not> ic_tracking_enab (st_irc s')"
proof -
  note pre = st [unfolded startable_def]
  let ?d = "ic_dumb (st_irc s)"
  let ?s1 = "lsi_msg_unregall ''track'' (set_users None (set_chans None s))"
  let ?s2 = "lsi_imh_unregall (upd_irc (\<lambda>x. x\<lparr>ic_tracking_enab := False\<rparr>) ?s1)"
  have c: "lsi_trk_deinit s = Some ?s1"
    using pre by (simp add: lsi_trk_deinit_def lsi_ucb_deinit_def lsi_ucb_clear_def chans_of_def users_of_def)
  have s2: "ic_msghnds (st_irc ?s2) \<noteq> []" "heap_empty ?s2" "orc_of ?s2 = []" "rx_ok (rctx_of ?s2)"
    "ic_dumb (st_irc ?s2) = ?d" "\<not> ic_tracking_enab (st_irc ?s2)" "ic_chans (st_irc ?s2) = Null" "ic_users (st_irc ?s2) = None"
    using pre by (auto simp: lsi_imh_unregall_def upd_irc_def lsi_msg_unregall_def acc_defs heap_empty_def rctx_of_def)
  have v2: "ic_con (st_irc ?s2) = ic_con (st_irc s)" "conf_of ?s2 = conf_of s" "st_net ?s2 = st_net s"
    by (simp_all add: lsi_imh_unregall_def upd_irc_def lsi_msg_unregall_def acc_defs conf_of_def Let_def)
  have l2: "mh_module h = ''v3''" if "h \<in># live_hnds ?s2" for h
  proof -
    have "live_hnds (upd_irc (\<lambda>x. x\<lparr>ic_tracking_enab := False\<rparr>) ?s1) = live_hnds ?s1" by (simp add: live_hnds_def upd_irc_def)
    moreover have "live_hnds (set_users None (set_chans None s)) = live_hnds s" by (simp add: live_hnds_def acc_defs)
    ultimately have "live_hnds ?s2 = filter_mset (\<lambda>h. mh_module h \<noteq> ''core'') (filter_mset (\<lambda>h. mh_module h \<noteq> ''track'') (live_hnds s))"
      by (simp add: lsi_imh_unregall_def unregall_live)
    with that have "h \<in># live_hnds s" "mh_module h \<noteq> ''core''" "mh_module h \<noteq> ''track''" by auto
    with pre slot_modules [of h] show ?thesis by auto
  qed
  have ne: "list_all (\<lambda>(cmd, _). cmd \<noteq> []) (imh_handlers ?d)" "list_all (\<lambda>(cmd, _). cmd \<noteq> []) v3_handlers"
    by (simp_all add: imh_handlers_def v3_handlers_def)
  from reg_seq_spec [OF s2(1) ne(1), of "''core''"] s2(3) obtain s3 where s3: "reg_seq (imh_handlers ?d) ''core'' ?s2 = Some (True, s3)"
    "same_but_hnds ?s2 s3" "live_hnds s3 = live_hnds ?s2 + mset (map (\<lambda>(cmd, h). hnd_slot cmd h ''core'') (imh_handlers ?d))"
    by (auto simp: orc_of_def)
  let ?s3 = "lsi_v3_unregall s3"
  let ?core = "\<lambda>d. mset (map (\<lambda>(cmd, h). hnd_slot cmd h ''core'') (imh_handlers d))"
  have u3: "live_hnds ?s3 = ?core ?d"
  proof -
    have "filter_mset (\<lambda>h. mh_module h \<noteq> ''v3'') (live_hnds ?s2) = {#}" using l2 by (simp add: filter_mset_eq_conv)
    moreover have "filter_mset (\<lambda>h. mh_module h \<noteq> ''v3'') (?core ?d) = ?core ?d"
      by (rule filter_mset_eq_conv [THEN iffD2]) (auto simp: hnd_slot_def ncpy_def)
    ultimately show ?thesis unfolding lsi_v3_unregall_def unregall_live s3(3) filter_union_mset by simp
  qed
  have sb3: "same_but_hnds ?s2 ?s3"
  proof -
    from s3(2) obtain arr orc where e: "s3 = ?s2\<lparr>st_irc := (st_irc ?s2)\<lparr>ic_msghnds := arr\<rparr>, st_hp := (st_hp ?s2)\<lparr>hp_alloc := orc\<rparr>\<rparr>"
      "ic_msghnds (st_irc ?s2) \<noteq> [] \<longrightarrow> arr \<noteq> []" "hp_alloc (st_hp ?s2) = [] \<longrightarrow> orc = []" unfolding same_but_hnds_def by blast
    show ?thesis unfolding same_but_hnds_def
      by (rule exI [of _ "map (unreg ''v3'') arr"], rule exI [of _ orc]) (use e in \<open>simp add: lsi_v3_unregall_def lsi_msg_unregall_def\<close>)
  qed
  have core: "mset (map (\<lambda>(cmd, h). hnd_slot cmd h ''core'') (imh_handlers False)) + mset (map (\<lambda>(cmd, h). hnd_slot cmd h ''v3'') v3_handlers) = core_slots"
    "size (filter_mset (\<lambda>h. mh_cmd h = ''005'') core_slots) = 1"
    by (simp_all add: core_slots_def imh_handlers_def v3_handlers_def hnd_slot_def ncpy_def)
  have t3: "ic_msghnds (st_irc ?s3) \<noteq> []" "hp_alloc (st_hp ?s3) = []"
    using sb3 s2(1,3) by (auto simp: same_but_hnds_def orc_of_def)
  obtain s4 where s4: "lsi_v3_regall ?d ?s3 = Some (True, s4)" "same_but_hnds ?s2 s4"
    "set_mset (live_hnds s4) \<subseteq> set_mset core_slots" "size (filter_mset (\<lambda>h. mh_cmd h = ''005'') (live_hnds s4)) \<le> 1"
  proof (cases ?d)
    case True
    have "set_mset (live_hnds ?s3) \<subseteq> set_mset core_slots \<and> size (filter_mset (\<lambda>h. mh_cmd h = ''005'') (live_hnds ?s3)) \<le> 1"
      unfolding u3 core(1) [symmetric] using True by (simp add: imh_handlers_def hnd_slot_def ncpy_def)
    then show thesis using True sb3 by (intro that [of ?s3]) (simp_all add: lsi_v3_regall_def)
  next
    case False
    from reg_seq_spec [OF t3(1) ne(2), of "''v3''"] t3(2) obtain s4 where s4: "reg_seq v3_handlers ''v3'' ?s3 = Some (True, s4)"
      "same_but_hnds ?s3 s4" "live_hnds s4 = live_hnds ?s3 + mset (map (\<lambda>(cmd, h). hnd_slot cmd h ''v3'') v3_handlers)" by auto
    have "live_hnds s4 = core_slots" using s4(3) core(1) False unfolding u3 by simp
    then show thesis using that [of s4] s4(1) False same_but_hnds_trans [OF sb3 s4(2)] core(2) by (simp add: lsi_v3_regall_def)
  qed
  have d3: "ic_dumb (st_irc s3) = ?d" using s3(2) s2(5) by (auto simp: same_but_hnds_def)
  let ?s5 = "upd_irc (\<lambda>x. (reset_state x)\<lparr>ic_logonconv := map (\<lambda>_. None) (ic_logonconv x),
      ic_m005attrs := lsi_skmap_clear (ic_m005attrs x)\<rparr>) s4"
  have r: "connect_prepare s = Some (True, ?s5)"
    using c s3(1) s4(1) d3 s2(5) by (simp add: connect_prepare_def Let_def lsi_imh_regall_def)
  note b = same_but_hnds_base [OF s4(2)]
  have he: "heap_empty ?s5" using b(1) s2(2) by (simp add: heap_empty_def acc_defs upd_irc_def)
  have v: "rctx_of ?s5 = rctx_of ?s2" "ic_msghnds (st_irc ?s5) \<noteq> []" "\<not> ic_tracking_enab (st_irc ?s5)" "orc_of ?s5 = []" "live_hnds ?s5 = live_hnds s4"
    "ic_chans (st_irc ?s5) = Null" "ic_users (st_irc ?s5) = None"
    "ic_con (st_irc ?s5) = ic_con (st_irc s)" "st_net ?s5 = st_net s"
    using s4(2) s2 v2 by (auto simp: same_but_hnds_def upd_irc_def rctx_of_def reset_state_def orc_of_def live_hnds_def)
  have cf: "conf_of ?s5 = conf_of s"
    using s4(2) v2(2) by (auto simp: same_but_hnds_def upd_irc_def reset_state_def conf_of_def Let_def)
  have "modes_ok ?s5" by (rule reset_modes [OF _ he]) (simp add: upd_irc_def)
  then have "sess_ok ?s5" using v he s2(4) s4(3,4) unfolding sess_ok_def by simp
  with r show thesis using v(8) cf v(9,3) by (rule that)
qed

lemma irc_read_next:
  assumes ok: "sess_ok s" and h: "next_harmless env to_us s"
  obtains r msg s' where "irc_read env to_us s = Some (r, msg, s')" "sess_next s s'" "r \<in> {1, 0, -1}" "r = 1 \<longrightarrow> tokarr_ok msg"
proof -
  have nx0: "sess_next s (read_start s)" by (rule sess_next_kept [OF ok tags_kept(1)])
  note ok0 = sess_next_ok [OF nx0]
  then have "rx_ok (rctx_of (read_start s))" by (simp add: sess_ok_def)
  then obtain r msg tags s1 where r: "st_conn_read (Some MAX_V3TAGS) to_us (read_start s) = Some (r, msg, tags, s1)"
    "sess_kept (read_start s) s1" "r \<in> {1, 0, -1}" "r = 1 \<longrightarrow> tokarr_ok msg" by (rule st_conn_read_total)
  let ?s2 = "upd_irc (store_tags tags) s1"
  have k2: "sess_kept (read_start s) ?s2" by (rule sess_kept_trans [OF r(2) tags_kept(2)])
  have nx2: "sess_next s ?s2" by (rule sess_next_trans [OF nx0 sess_next_kept [OF ok0 k2]])
  note ok2 = sess_next_ok [OF nx2]
  note rd = irc_read_def Let_def read_start_def [symmetric] r(1)
  have rs: "sess_next s (irc_reset s3)" if "sess_next s s3" for s3
    by (rule sess_next_trans [OF that sess_next_kept [OF sess_next_ok [OF that] irc_reset_kept]])
  show thesis
  proof (cases "r = 1")
    case False
    then show thesis using that r(3) nx2 rs [OF nx2] by (auto simp: rd)
  next
    case True
    have "st_conn_read (Some MAX_V3TAGS) to_us (read_start s) = Some (1, msg, tags, s1)" "tokarr_ok msg" using r(1,4) True by simp_all
    then have "harmless env msg False s1" using h unfolding next_harmless_def by blast
    then have "harmless env msg False ?s2" unfolding harmless_kept [OF tags_kept(2)] .
    from handle_msg_safe [OF ok2 this] obtain fl s3 where s3: "handle_msg env msg False ?s2 = Some (fl, s3)" "sess_next ?s2 s3" .
    note nx3 = sess_next_trans [OF nx2 s3(2)]
    show thesis using that True s3(1) nx3 r(4) rs [OF nx3] by (cases "has_flag fl CANT_PROCEED") (auto simp: rd)
  qed
qed

lemma irc_read_total:
  assumes "sess_ok s" "next_harmless env to_us s"
  obtains r msg s' where "irc_read env to_us s = Some (r, msg, s')" "sess_ok s'" "r \<in> {1, 0, -1}" "r = 1 \<longrightarrow> tokarr_ok msg"
  using irc_read_next [OF assms] sess_next_ok by metis

section \<open>The property\<close>

text \<open>
  C6: A session is memory safe.  From a context that satisfies \<open>sess_ok\<close> (with or without tracking, whatever
  was tracked before), \<open>irc_read\<close> returns for every behaviour of the network and leaves such a context,
  unless the message it reads is not \<open>harmless\<close>: one of the two the core handlers read past, a 005
  that changes what is tracked, or one on which the tracked base is known to break.  The result is 1, 0 or
  -1, and after -1 the connection is offline and holds no socket.
\<close>

theorem irc_read_safe:
  assumes ok: "sess_ok s" and h: "next_harmless env to_us s"
  shows "\<exists>r msg s'. irc_read env to_us s = Some (r, msg, s') \<and> sess_ok s' \<and> r \<in> {-1, 0, 1} \<and>
     (r = -1 \<longrightarrow> \<not> co_online (ic_con (st_irc s')) \<and> co_sck (ic_con (st_irc s')) = -1)"
proof -
  obtain r msg s' where r: "irc_read env to_us s = Some (r, msg, s')" "sess_ok s'" by (rule irc_read_total [OF assms])
  with irc_read_outcome [OF r(1)] show ?thesis by blast
qed

theorem irc_read_safe_witness:
  "\<forall>w. \<exists>r msg s'. irc_read silent_env 0 (quit_st w) = Some (r, msg, s') \<and> sess_ok s'"
  using irc_read_safe [OF quit_st_ok quit_st_harmless] by blast

text \<open>
  \<open>irc_connect\<close> starts from a safe context: on a context that tracks nothing, what it does before it
  opens the connection registers the handlers of the library and establishes \<open>sess_ok\<close>.
\<close>

theorem connect_prepare_starts_safe:
  assumes "startable s"
  shows "\<exists>s'. connect_prepare s = Some (True, s') \<and> sess_ok s'"
  by (rule prepare_sess_ok [OF assms]) blast

lemma fresh_startable: "startable fresh_st"
proof -
  have "ic_chans (st_irc fresh_st) = Null" "ic_users (st_irc fresh_st) = None" "rx_ok (rctx_of fresh_st)"
    by (simp_all add: fresh_st_def fresh_ctx_def irc_init_def malloc_n_unlimited lsi_conn_init_def reset_state_def lsi_skmap_init_def
        lsi_b_strdup_def rctx_of_def readctx_init_def rx_ok_def del: replicate.simps)
  moreover have "ic_msghnds (st_irc fresh_st) \<noteq> []" "live_hnds fresh_st = {#}"
    by (simp_all add: fresh_st_def live_hnds_def del: replicate.simps)
  ultimately show ?thesis using fresh_heap by (simp add: startable_def)
qed

theorem connect_prepare_starts_safe_witness: "\<exists>s'. connect_prepare fresh_st = Some (True, s') \<and> sess_ok s'"
  by (rule connect_prepare_starts_safe [OF fresh_startable])



end
