(* ===== verification/Teardown.thy ===== *)
theory Teardown
  imports Trackprops
begin

text \<open>
  Taking the tracked base down (\<open>lsi_ucb_clear\<close>, \<open>lsi_ucb_deinit\<close> in \<open>ucbase.c\<close>), as \<open>irc_connect\<close> and \<open>irc_dispose\<close> do:
  it is safe from every well-formed base, although the map of channels keeps pointing to the channels that
  are freed one after the other; what is freed and what is leaked is stated exactly.
\<close>

section \<open>Loops that do not see a part of the state\<close>

lemma each_loop_commute:
  assumes "\<And>s. getm (F s) = getm s" "\<And>h s. setm h (F s) = F (setm h s)"
    and "\<And>v s. body v (F s) = map_option (map_prod id F) (body v s)"
  shows "each_loop n getm setm body e (F s) = map_option (map_prod id F) (each_loop n getm setm body e s)"
proof (induction n arbitrary: e s)
  case (Suc n)
  show ?case
  proof (cases e)
    case (Some v)
    show ?thesis
    proof (cases "body v s")
      case b: (Some p)
      obtain stop s1 where p: "p = (stop, s1)" by fastforce
      show ?thesis
        using Some b p assms Suc.IH by (auto split: option.split prod.split bind_split)
    qed (simp add: Some assms)
  qed simp
qed simp

lemma for_each_commute:
  assumes "\<And>s. getm (F s) = getm s" "\<And>h s. setm h (F s) = F (setm h s)"
    and "\<And>v s. body v (F s) = map_option (map_prod id F) (body v s)"
  shows "for_each getm setm body (F s) = map_option (map_prod id F) (for_each getm setm body s)"
  using each_loop_commute [of getm F setm body, OF assms]
  by (auto simp: for_each_def assms(1,2) Let_def split: prod.split option.split bind_split)

text \<open>Releasing members does not look at the map of channels.\<close>

lemma set_chans_commute:
  "put_user a u (set_chans cs s) = set_chans cs (put_user a u s)" "put_memb a m (set_chans cs s) = set_chans cs (put_memb a m s)"
  "put_chan a c (set_chans cs s) = set_chans cs (put_chan a c s)" "free_tag b t (set_chans cs s) = set_chans cs (free_tag b t s)"
  "set_users um (set_chans cs s) = set_chans cs (set_users um s)" "set_chans cs' (set_chans cs s) = set_chans cs' s"
  by (simp_all add: acc_defs)

lemma set_memb_map_commute: "set_memb_map ca h (set_chans cs s) = set_chans cs (set_memb_map ca h s)"
  by (simp add: set_memb_map_def set_chans_commute split: option.split)

lemma release_memb_commute: "release_memb ma (set_chans cs s) = map_option (map_prod id (set_chans cs)) (release_memb ma s)"
  by (auto simp: release_memb_def unref_user_def del_user_key_def free_user_def set_chans_commute Let_def split: bind_split option.split)

lemma memb_map_set_chans: "memb_map ca (set_chans cs s) = memb_map ca s"
  by (simp add: memb_map_bind)

lemma clear_memb_commute: "lsi_ucb_clear_memb ca (set_chans cs s) = map_option (set_chans cs) (lsi_ucb_clear_memb ca s)"
  using for_each_commute [of "memb_map ca" "set_chans cs" "set_memb_map ca" release_memb s]
  by (auto simp: lsi_ucb_clear_memb_def memb_map_set_chans set_memb_map_commute release_memb_commute split: bind_split)

section \<open>The channels\<close>

text \<open>What becomes of the users in \<open>L\<close>: each is freed or still listed.  No two users share a name.\<close>

definition users_kept :: "addr set \<Rightarrow> base \<Rightarrow> bool" where
  "users_kept L b \<longleftrightarrow> (\<forall>q u. bs_user b q = Some u \<longrightarrow> bs_nick b u = Some q) \<and>
     (\<forall>u u' k. bs_nick b u = Some k \<longrightarrow> bs_nick b u' = Some k \<longrightarrow> u = u') \<and>
     (\<forall>u\<in>L. bs_nick b u = None \<or> u \<in> ran (bs_user b))"

lemma users_kept_upd: "users_kept L (b\<lparr>bs_memb := h\<rparr>) = users_kept L b" "users_kept L (b\<lparr>bs_chan := c\<rparr>) = users_kept L b"
  "users_kept L (b\<lparr>bs_name := n\<rparr>) = users_kept L b" "users_kept L (b\<lparr>bs_who := w\<rparr>) = users_kept L b"
  "users_kept L (b\<lparr>bs_refs := r\<rparr>) = users_kept L b"
  by (simp_all add: users_kept_def)

lemma users_kept_free:
  assumes k: "users_kept L b" and n: "bs_nick b ua = Some k"
  shows "users_kept L (b\<lparr>bs_user := (bs_user b)(k := None), bs_nick := (bs_nick b)(ua := None)\<rparr>)"
proof -
  have 1: "bs_user b q = Some u \<Longrightarrow> bs_nick b u = Some q" for q u using k unfolding users_kept_def by blast
  have 2: "bs_nick b u = Some q \<Longrightarrow> bs_nick b u' = Some q \<Longrightarrow> u = u'" for u u' q using k unfolding users_kept_def by blast
  have 3: "u \<in> L \<Longrightarrow> bs_nick b u = None \<or> u \<in> ran (bs_user b)" for u using k unfolding users_kept_def by blast
  have "u \<in> ran ((bs_user b)(k := None))" if u: "u \<in> L" "u \<noteq> ua" "bs_nick b u \<noteq> None" for u
  proof -
    obtain q where q: "bs_user b q = Some u" using 3 [OF u(1)] u(3) by (auto simp: ran_def)
    have "q \<noteq> k" using 2 [OF 1 [OF q], of ua] n u(2) by auto
    then show ?thesis using q by (auto simp: ran_def)
  qed
  moreover have "u \<noteq> ua" if "q \<noteq> k" "bs_user b q = Some u" for q u using 1 [OF that(2)] n that(1) by auto
  moreover note 1 2
  ultimately show ?thesis unfolding users_kept_def by (simp; blast)
qed

lemma users_kept_stable: "unref_stable (\<lambda>b. U \<longrightarrow> users_kept L b)"
  unfolding unref_stable_def users_kept_upd
proof (intro conjI allI impI refl)
  fix b ma ua
  assume "U \<longrightarrow> users_kept L b" "U" and "bs_nick b ua \<noteq> None"
  then have k: "users_kept L b" by simp
  assume "bs_nick b ua \<noteq> None"
  then obtain n where n: "bs_nick b ua = Some n" by blast
  let ?w = "(bs_who b)(ma := None)" and ?r = "\<lambda>x. (bs_refs b)(ua := x)"
  have "bs_unref True ma ua b = (if bs_refs b ua - 1 = 0
      then (b\<lparr>bs_user := (bs_user b)(n := None), bs_nick := (bs_nick b)(ua := None)\<rparr>)\<lparr>bs_who := ?w\<rparr>\<lparr>bs_refs := ?r 0\<rparr>
      else b\<lparr>bs_who := ?w\<rparr>\<lparr>bs_refs := ?r (bs_refs b ua - 1)\<rparr>)"
    using n by (simp add: bs_unref_def Let_def)
  then show "users_kept L (bs_unref True ma ua b)"
    using users_kept_free [OF k n] k by (simp only: users_kept_upd simp_thms split: if_split)
qed

lemma set_chans_same: "chans_of s = Some h \<Longrightarrow> set_chans h s = s"
  by (cases s; cases "st_irc s") (auto simp: acc_defs split: ownedptr.splits option.splits)

lemma clear_memb_chans:
  assumes "lsi_ucb_clear_memb ca s = Some s'" "chans_of s = Some h"
  shows "chans_of s' = Some h"
proof -
  have "lsi_ucb_clear_memb ca s = map_option (set_chans h) (lsi_ucb_clear_memb ca s)"
    using clear_memb_commute [of ca h s] set_chans_same [OF assms(2)] by simp
  with assms(1) have "s' = set_chans h s'" by simp
  then show ?thesis by (metis chans_simps(2))
qed

text \<open>
  One channel.  The real map of channels still holds the channels that have been freed; the base is well formed
  with respect to a map \<open>cs\<close> of those that have not.
\<close>

lemma dispose_chan_ok:
  assumes inv: "ucb_ok (set_chans (Some cs) s)" and q: "sk_map cs q = Some ca" and h: "chans_of s = Some h"
    and K: "U \<longrightarrow> users_kept L (base_of s)"
  obtains s' cs' where "dispose_chan ca s = Some (False, s')" "ucb_ok (set_chans (Some cs') s')" "sk_map cs' = (sk_map cs)(q := None)"
    "chans_of s' = Some h" "\<And>x. chan_at x s' = None \<longleftrightarrow> x = ca \<or> chan_at x s = None" "U \<longrightarrow> users_kept L (base_of s')"
    "casemap_of s' = casemap_of s"
proof -
  let ?t = "set_chans (Some cs) s"
  have q1: "bs_chan (base_of ?t) q = Some ca" using q by simp
  have K1: "U \<longrightarrow> users_kept L (base_of ?t)" using K by (simp add: users_kept_upd)
  obtain t' where t': "lsi_ucb_clear_memb ca ?t = Some t'" "ucb_ok t'" "bs_memb (base_of t') ca = Map.empty"
    "chans_of t' = chans_of ?t" "casemap_of t' = casemap_of ?t" "orc_of t' = orc_of ?t"
    "\<And>x. chan_at x t' = None \<longleftrightarrow> chan_at x ?t = None" "U \<longrightarrow> users_kept L (base_of t')"
  proof -
    from clear_memb_keeps [OF inv q1 users_kept_stable K1] show thesis using that by blast
  qed
  then obtain s1 where s1: "lsi_ucb_clear_memb ca s = Some s1" "t' = set_chans (Some cs) s1"
    by (auto simp: clear_memb_commute)
  have q2: "bs_chan (base_of t') q = Some ca" using s1(2) q by simp
  obtain c where c: "chan_at ca t' = Some c" "cmkey (cm_of t') (ch_name c) = q" using listed_chan [OF t'(2) q2] by metis
  note st = ucb_st [OF t'(2) [unfolded ucb_ok_def]]
  have ok: "sk_ok (cm_of t') cs" using st s1(2) by (auto simp: st_ok_def)
  obtain cs' where cs': "sk_ok (cm_of t') cs'" "sk_map cs' = (sk_map cs)(q := None)"
    using lsi_del_Some [OF ok, of "ch_name c"] c(2) by metis
  let ?s = "put_chan ca None s1"
  let ?u = "set_chans (Some cs') ?s"
  have b: "base_of ?u = (base_of t')\<lparr>bs_chan := (bs_chan (base_of t'))(q := None),
      bs_name := (bs_name (base_of t'))(ca := None), bs_memb := (bs_memb (base_of t'))(ca := Map.empty)\<rparr>"
    using s1(2) cs'(2) by simp
  have b1: "base_ok None {} [] ((base_of t')\<lparr>bs_chan := (bs_chan (base_of t'))(q := None)\<rparr>)"
    by (rule base_unlist_chan [where S = "{}" and ca = ca]) (use ucb_base [OF t'(2) [unfolded ucb_ok_def]] t'(3) q2 in simp_all)
  have n: "ca \<notin> ran ((bs_chan (base_of t'))(q := None))"
  proof -
    have "p = q" if "bs_chan (base_of t') p = Some ca" for p
      using base_chan [OF ucb_base [OF t'(2) [unfolded ucb_ok_def]] q2] base_chan [OF ucb_base [OF t'(2) [unfolded ucb_ok_def]] that] by simp
    then show ?thesis unfolding ran_def mem_Collect_eq fun_upd_apply by (metis option.distinct(1))
  qed
  have "base_ok None {} [] (base_of ?u)" unfolding b using base_forget_chan [OF b1, of ca Map.empty] n by simp
  moreover have "st_ok ?u" using st_ok_upd(2) [OF st_ok_upd(7) [OF st], where m = cs'] cs'(1) s1(2) by (simp add: set_chans_commute)
  ultimately have "ucb_ok ?u" by (simp add: ucb_ok_def ucb_inv_def)
  moreover have "dispose_chan ca s = Some (False, ?s)" using s1 c(1) by (simp add: dispose_chan_def)
  moreover have "chans_of ?s = Some h" using clear_memb_chans [OF s1(1) h] by simp
  moreover have "chan_at x ?s = None \<longleftrightarrow> x = ca \<or> chan_at x s = None" for x using t'(7) [of x] s1(2) by simp
  moreover have "U \<longrightarrow> users_kept L (base_of ?s)" using t'(8) s1(2) by (simp add: users_kept_upd)
  moreover have "casemap_of ?s = casemap_of s" using t'(5) s1(2) by simp
  ultimately show thesis using cs'(2) by (intro that)
qed

lemma entries_values:
  assumes "sk_ok cm m" "inj_on (sk_map m) (dom (sk_map m))"
  shows "set (map snd (sk_entries m)) = ran (sk_map m)" "distinct (map snd (sk_entries m))"
proof -
  let ?es = "map (\<lambda>e. (cmkey cm (fst e), snd e)) (sk_entries m)"
  have d: "distinct (map fst ?es)" using distinct_sk_keys [OF assms(1)] by (simp add: comp_def)
  have m: "sk_map m = map_of ?es" using sk_okD(1) [OF assms(1)] by (simp add: sk_map_def)
  show "set (map snd (sk_entries m)) = ran (sk_map m)" unfolding m ran_distinct [OF d] by (simp add: image_comp comp_def)
  have "inj_on snd (set ?es)"
  proof (rule inj_onI)
    fix x y assume xy: "x \<in> set ?es" "y \<in> set ?es" "snd x = snd y"
    have s: "sk_map m (fst z) = Some (snd z)" if "z \<in> set ?es" for z
      unfolding m by (rule map_of_is_SomeI [OF d]) (use that in \<open>simp only: prod.collapse\<close>)
    from s [OF xy(1)] s [OF xy(2)] have "fst x = fst y"
      using inj_onD [OF assms(2), of "fst x" "fst y"] xy(3) by (simp add: domI)
    then show "x = y" using xy(3) by (rule prod_eqI)
  qed
  with d have "distinct (map snd ?es)" unfolding distinct_map [of _ ?es] by blast
  then show "distinct (map snd (sk_entries m))" by (simp add: comp_def)
qed

text \<open>The loop over all of them\<close>

lemma dispose_chans_ok:
  assumes inv: "ucb_ok s" and m: "chans_of s = Some (Some m)" and K: "U \<longrightarrow> users_kept L (base_of s)"
  obtains s' m' where "for_each chans_of set_chans dispose_chan s = Some (False, s')" "chans_of s' = Some (Some m')"
    "sk_core m' = sk_core m" "st_ok s'" "U \<longrightarrow> users_kept L (base_of s')" "\<exists>cs. base_ok None {} [] (base_of (set_chans (Some cs) s'))"
    "\<forall>x. chan_at x s' = None \<longleftrightarrow> x \<in> ran (bs_chan (base_of s)) \<or> chan_at x s = None"
proof -
  have ok: "sk_ok (cm_of s) m" using ucb_st [OF inv [unfolded ucb_ok_def]] m by (auto simp: st_ok_def)
  have bm: "bs_chan (base_of s) = sk_map m" using m by (simp add: base_of_sel)
  have inj: "inj_on (sk_map cs) (dom (sk_map cs))" if "ucb_ok (set_chans (Some cs) t)" for cs t
  proof (rule inj_onI)
    note b = base_chan [OF ucb_base [OF that [unfolded ucb_ok_def]]]
    fix x y assume "x \<in> dom (sk_map cs)" "sk_map cs x = sk_map cs y"
    then obtain ca where "sk_map cs x = Some ca" "sk_map cs y = Some ca" by (metis domD)
    with b [of x ca] b [of y ca] show "x = y" by simp
  qed
  have self: "set_chans (Some m) s = s" by (rule set_chans_same [OF m])
  have im: "inj_on (sk_map m) (dom (sk_map m))" using inj [of m s] inv self by simp
  note vals = entries_values [OF ok im]
  let ?V = "ran (sk_map m)"
  define I where "I = (\<lambda>vs s'. \<exists>cs. ucb_ok (set_chans (Some cs) s') \<and> ran (sk_map cs) = set vs \<and> distinct vs \<and> set vs \<subseteq> ?V \<and>
     (\<forall>x. chan_at x s' = None \<longleftrightarrow> x \<in> ?V - set vs \<or> chan_at x s = None) \<and> (U \<longrightarrow> users_kept L (base_of s')) \<and>
     casemap_of s' = casemap_of s)"
  have init: "I (map snd (sk_entries m)) s" using inv vals self K unfolding I_def by (intro exI [of _ m]) simp
  have stable: "I vs (set_chans (Some m2) s')" if "I vs s'" for vs s' m2
    using that unfolding I_def by (simp add: set_chans_commute users_kept_upd)
  have step: "\<exists>stop s2. dispose_chan v s' = Some (stop, s2) \<and> chans_of s2 = Some (Some m1) \<and> (if stop then False else I vs s2)"
    if iv: "I (v # vs) s'" and g: "chans_of s' = Some (Some m1)" for v vs s' m1
  proof -
    obtain cs where cs: "ucb_ok (set_chans (Some cs) s')" "ran (sk_map cs) = insert v (set vs)" "v \<notin> set vs" "distinct vs" "insert v (set vs) \<subseteq> ?V"
      "\<forall>x. chan_at x s' = None \<longleftrightarrow> x \<in> ?V - insert v (set vs) \<or> chan_at x s = None" "U \<longrightarrow> users_kept L (base_of s')"
      "casemap_of s' = casemap_of s"
      using iv unfolding I_def by auto
    have "v \<in> ran (sk_map cs)" using cs(2) by simp
    then obtain q where q: "sk_map cs q = Some v" by (auto simp: ran_def)
    obtain s2 cs2 where s2: "dispose_chan v s' = Some (False, s2)" "ucb_ok (set_chans (Some cs2) s2)" "sk_map cs2 = (sk_map cs)(q := None)"
      "chans_of s2 = Some (Some m1)" "\<And>x. chan_at x s2 = None \<longleftrightarrow> x = v \<or> chan_at x s' = None" "U \<longrightarrow> users_kept L (base_of s2)"
      "casemap_of s2 = casemap_of s'"
    proof -
      from dispose_chan_ok [OF cs(1) q g cs(7)] show thesis using that by blast
    qed
    have "p = q" if "sk_map cs p = Some v" for p using inj [OF cs(1)] q that by (metis domI inj_onD)
    then have "x \<in> ran (sk_map cs2) \<longleftrightarrow> x \<in> ran (sk_map cs) \<and> x \<noteq> v" for x
      unfolding s2(3) ran_def mem_Collect_eq fun_upd_apply using q by (metis option.distinct(1) option.inject)
    then have "ran (sk_map cs2) = set vs" using cs(2,3) by auto
    moreover have "chan_at x s2 = None \<longleftrightarrow> x \<in> ?V - set vs \<or> chan_at x s = None" for x
      using s2(5) [of x] cs(3,5) cs(6) [rule_format, of x] by (cases "x = v") auto
    ultimately have "I vs s2" using s2(2,6,7) cs(4,5,8) unfolding I_def by (intro exI [of _ cs2]) simp
    with s2(1,4) show ?thesis by auto
  qed
  obtain stop s1 m' where s1: "for_each chans_of set_chans dispose_chan s = Some (stop, s1)" "chans_of s1 = Some (Some m')"
    "sk_core m' = sk_core m" "if stop then False else I [] s1"
    by (rule ch.for_each_rule [where I = I and Q = "\<lambda>_. False", OF m ok init stable step])
  then obtain cs where cs: "ucb_ok (set_chans (Some cs) s1)" "\<forall>x. chan_at x s1 = None \<longleftrightarrow> x \<in> ?V \<or> chan_at x s = None"
    "U \<longrightarrow> users_kept L (base_of s1)" "casemap_of s1 = casemap_of s" unfolding I_def by (auto split: if_splits)
  have st: "st_ok (set_chans (Some cs) s1)" by (rule ucb_st [OF cs(1) [unfolded ucb_ok_def]])
  have "cm_of s1 = cm_of s" using cs(4) by (simp add: cm_of_def)
  then have "st_ok s1" using st_ok_upd(2) [OF st, of m'] sk_core_cong(1) [OF s1(3)] ok set_chans_same [OF s1(2)] by (simp add: set_chans_commute)
  show thesis
    by (rule that [of s1 m']) (use s1 cs bm \<open>st_ok s1\<close> ucb_base [OF cs(1) [unfolded ucb_ok_def]] in \<open>auto split: if_splits\<close>)
qed

section \<open>The users\<close>

text \<open>The map of users, likewise, points to the users that are freed.\<close>

lemma dispose_users_ok:
  assumes um: "users_of s = Some um" "sk_ok cm um" and ur: "\<And>q u. sk_map um q = Some u \<Longrightarrow> bs_nick (base_of s) u = Some q"
  obtains s' where "for_each (\<lambda>s. Some (users_of s)) set_users dispose_user s = Some (False, s')"
    "\<And>x. user_at x s' = None \<longleftrightarrow> x \<in> ran (sk_map um) \<or> user_at x s = None" "\<And>x. chan_at x s' = chan_at x s"
proof -
  have inj: "inj_on (sk_map um) (dom (sk_map um))"
  proof (rule inj_onI)
    fix x y assume "x \<in> dom (sk_map um)" "sk_map um x = sk_map um y"
    then obtain u where "sk_map um x = Some u" "sk_map um y = Some u" by (metis domD)
    with ur [of x u] ur [of y u] show "x = y" by simp
  qed
  note vals = entries_values [OF um(2) inj]
  let ?V = "ran (sk_map um)"
  have live: "user_at u s \<noteq> None" if "u \<in> ?V" for u using that ur by (force simp: ran_def base_of_sel)
  define I where "I = (\<lambda>vs s'. distinct vs \<and> set vs \<subseteq> ?V \<and> (\<forall>x. user_at x s' = None \<longleftrightarrow> x \<in> ?V - set vs \<or> user_at x s = None) \<and>
     (\<forall>x. chan_at x s' = chan_at x s))"
  have init: "I (map snd (sk_entries um)) s" using vals unfolding I_def by simp
  have stable: "I vs (set_users (Some m2) s')" if "I vs s'" for vs s' m2 using that unfolding I_def by simp
  have step: "\<exists>stop s2. dispose_user v s' = Some (stop, s2) \<and> Some (users_of s2) = Some (Some m1) \<and> (if stop then False else I vs s2)"
    if iv: "I (v # vs) s'" and g: "Some (users_of s') = Some (Some m1)" for v vs s' m1
  proof -
    have v: "v \<in> ?V" "v \<notin> set vs" "\<forall>x. user_at x s' = None \<longleftrightarrow> x \<in> ?V - set (v # vs) \<or> user_at x s = None"
      using iv unfolding I_def by simp_all
    then have "user_at v s' \<noteq> None" using live by simp
    then have "dispose_user v s' = Some (False, put_user v None s')" by (auto simp: dispose_user_def)
    moreover have "user_at x (put_user v None s') = None \<longleftrightarrow> x \<in> ?V - set vs \<or> user_at x s = None" for x
      using v(1,2) v(3) [rule_format, of x] by (cases "x = v") simp_all
    then have "I vs (put_user v None s')" using iv unfolding I_def by simp
    ultimately show ?thesis using g by (intro exI [of _ False] exI [of _ "put_user v None s'"]) simp
  qed
  obtain stop s1 m' where s1: "for_each (\<lambda>s. Some (users_of s)) set_users dispose_user s = Some (stop, s1)"
    "if stop then False else I [] s1"
    by (rule us.for_each_rule [where I = I and Q = "\<lambda>_. False" and m = um, OF _ um(2) init stable step]) (simp_all add: um(1))
  then show thesis by (intro that [of s1]) (auto simp: I_def split: if_splits)
qed

section \<open>Both\<close>

definition nicks_distinct :: "st \<Rightarrow> bool" where
  "nicks_distinct s \<longleftrightarrow> (\<forall>u u' k. bs_nick (base_of s) u = Some k \<longrightarrow> bs_nick (base_of s) u' = Some k \<longrightarrow> u = u')"

lemma first_None_iff:
  assumes "sk_ok cm m"
  shows "fst (lsi_skmap_first (Some m)) = None \<longleftrightarrow> sk_map m = Map.empty"
proof
  assume "fst (lsi_skmap_first (Some m)) = None"
  from first_None_empty [OF assms this] show "sk_map m = Map.empty" by (simp add: sk_map_def)
next
  assume e: "sk_map m = Map.empty"
  then have "sk_entries m = []" by (simp add: sk_map_def)
  moreover obtain m' where "skmap_walk (Some m) = Some (map (\<lambda>(k, v). (k, Some v)) (sk_entries m), Some m')"
    using skmap_walk_total [OF assms] by blast
  ultimately show "fst (lsi_skmap_first (Some m)) = None"
    by (auto simp: skmap_walk_def split: prod.splits option.splits bind_split)
qed

lemma ucb_deinit_ok:
  assumes inv: "ucb_ok s"
  obtains s' where "lsi_ucb_deinit s = Some s'" "chans_of s' = Some None" "users_of s' = None"
    "\<And>x. chan_at x s' = None \<longleftrightarrow> x \<in> ran (bs_chan (base_of s)) \<or> chan_at x s = None"
    "\<And>x. bs_chan (base_of s) = Map.empty \<Longrightarrow> user_at x s' = user_at x s"
    "\<And>x. bs_chan (base_of s) \<noteq> Map.empty \<Longrightarrow> nicks_distinct s \<Longrightarrow> x \<in> ran (bs_user (base_of s)) \<Longrightarrow> user_at x s' = None"
proof -
  note st = ucb_st [OF inv [unfolded ucb_ok_def]] and base = ucb_base [OF inv [unfolded ucb_ok_def]]
  obtain cs where cs: "chans_of s = Some (Some cs)" "sk_ok (cm_of s) cs" by (rule st_okE [OF st])
  have bc: "bs_chan (base_of s) = sk_map cs" using cs(1) by (simp add: base_of_sel)
  let ?L = "ran (bs_user (base_of s))"
  have K: "nicks_distinct s \<longrightarrow> users_kept ?L (base_of s)"
    using base_user [OF base] unfolding nicks_distinct_def users_kept_def by simp
  obtain s1 m1 where s1: "for_each chans_of set_chans dispose_chan s = Some (False, s1)" "chans_of s1 = Some (Some m1)" "sk_core m1 = sk_core cs" "st_ok s1"
    "nicks_distinct s \<longrightarrow> users_kept ?L (base_of s1)" "\<exists>cs. base_ok None {} [] (base_of (set_chans (Some cs) s1))"
    "\<forall>x. chan_at x s1 = None \<longleftrightarrow> x \<in> ran (bs_chan (base_of s)) \<or> chan_at x s = None"
    by (rule dispose_chans_ok [OF inv cs(1) K])
  show thesis
  proof (cases "sk_map cs = Map.empty")
    case True
    then have f: "fst (lsi_skmap_first (Some cs)) = None" using first_None_iff [OF cs(2)] by simp
    then obtain h where h: "lsi_skmap_first (Some cs) = (None, h)" by (metis prod.collapse)
    then have e: "s1 = set_chans h s" using s1(1) cs(1) by (simp add: for_each_def)
    have "lsi_ucb_deinit s = Some (set_users None (set_chans None s1))"
      using cs(1) s1(1) f by (simp add: lsi_ucb_deinit_def lsi_ucb_clear_def)
    then show thesis by (rule that) (use s1(7) True bc e in simp_all)
  next
    case False
    then have f: "fst (lsi_skmap_first (Some cs)) \<noteq> None" using first_None_iff [OF cs(2)] by simp
    let ?s2 = "set_chans (lsi_skmap_clear (Some m1)) s1"
    obtain um where um: "users_of s1 = Some um" "sk_ok (cm_of s1) um" by (rule st_okE [OF s1(4)])
    have ur: "bs_nick (base_of ?s2) u = Some q" if "sk_map um q = Some u" for q u
    proof -
      obtain c where "base_ok None {} [] (base_of (set_chans (Some c) s1))" using s1(6) by blast
      from base_user [OF this, of q u] that um(1) show ?thesis by (simp add: base_of_sel)
    qed
    obtain s3 where s3: "for_each (\<lambda>s. Some (users_of s)) set_users dispose_user ?s2 = Some (False, s3)"
      "\<And>x. user_at x s3 = None \<longleftrightarrow> x \<in> ran (sk_map um) \<or> user_at x ?s2 = None" "\<And>x. chan_at x s3 = chan_at x ?s2"
    proof -
      have "users_of ?s2 = Some um" using um(1) by simp
      from dispose_users_ok [OF this um(2) ur] show thesis using that by blast
    qed
    obtain s4 where s4: "lsi_ucb_clear s = Some s4" "s4 = s3 \<or> s4 = set_users (lsi_skmap_clear (users_of s3)) s3"
    proof (cases "fst (lsi_skmap_first (Some um)) = None")
      case True
      then show thesis using cs(1) s1(1,2) um(1) s3(1) by (intro that [of s3]) (simp_all add: lsi_ucb_clear_def if_not_P [OF f])
    next
      case False
      then show thesis using cs(1) s1(1,2) um(1) s3(1)
        by (intro that [of "set_users (lsi_skmap_clear (users_of s3)) s3"]) (simp_all add: lsi_ucb_clear_def if_not_P [OF f] if_not_P [OF False])
    qed
    have freed: "user_at x s3 = None" if "nicks_distinct s" "x \<in> ?L" for x
    proof -
      have "bs_nick (base_of s1) x = None \<or> x \<in> ran (bs_user (base_of s1))" using s1(5) that unfolding users_kept_def by blast
      then show ?thesis using s3(2) [of x] um(1) by (auto simp: base_of_sel)
    qed
    have "lsi_ucb_deinit s = Some (set_users None (set_chans None s4))" using s4(1) by (simp add: lsi_ucb_deinit_def)
    moreover have "chan_at x (set_users None (set_chans None s4)) = None \<longleftrightarrow> x \<in> ran (bs_chan (base_of s)) \<or> chan_at x s = None" for x
      using s4(2) s3(3) [of x] s1(7) [rule_format, of x] by auto
    moreover have "user_at x (set_users None (set_chans None s4)) = None" if "nicks_distinct s" "x \<in> ?L" for x
      using s4(2) freed [OF that] by auto
    ultimately show thesis using False bc by (intro that [of "set_users None (set_chans None s4)"]) simp_all
  qed
qed

section \<open>The connection\<close>

text \<open>None of this looks at the connection.\<close>

definition put_con :: "iconn \<Rightarrow> st \<Rightarrow> st" where
  "put_con c s = s\<lparr>st_irc := (st_irc s)\<lparr>ic_con := c\<rparr>\<rparr>"

lemma put_con_commute:
  "put_user a u (put_con cn s) = put_con cn (put_user a u s)" "put_memb a m (put_con cn s) = put_con cn (put_memb a m s)"
  "put_chan a c (put_con cn s) = put_con cn (put_chan a c s)" "free_tag b t (put_con cn s) = put_con cn (free_tag b t s)"
  "set_users um (put_con cn s) = put_con cn (set_users um s)" "set_chans cs (put_con cn s) = put_con cn (set_chans cs s)"
  "user_at a (put_con cn s) = user_at a s" "chan_at a (put_con cn s) = chan_at a s" "memb_at a (put_con cn s) = memb_at a s"
  "users_of (put_con cn s) = users_of s" "chans_of (put_con cn s) = chans_of s" "memb_map a (put_con cn s) = memb_map a s"
  by (simp_all add: acc_defs put_con_def)

lemma set_memb_map_put_con: "set_memb_map ca h (put_con cn s) = put_con cn (set_memb_map ca h s)"
  by (simp add: set_memb_map_def put_con_commute split: option.split)

lemma release_memb_put_con: "release_memb ma (put_con cn s) = map_option (map_prod id (put_con cn)) (release_memb ma s)"
  by (auto simp: release_memb_def unref_user_def del_user_key_def free_user_def put_con_commute Let_def split: bind_split option.split)

lemma clear_memb_put_con: "lsi_ucb_clear_memb ca (put_con cn s) = map_option (put_con cn) (lsi_ucb_clear_memb ca s)"
  using for_each_commute [of "memb_map ca" "put_con cn" "set_memb_map ca" release_memb s]
  by (auto simp: lsi_ucb_clear_memb_def put_con_commute set_memb_map_put_con release_memb_put_con split: bind_split)

lemma dispose_put_con:
  "dispose_chan ca (put_con cn s) = map_option (map_prod id (put_con cn)) (dispose_chan ca s)"
  "dispose_user ca (put_con cn s) = map_option (map_prod id (put_con cn)) (dispose_user ca s)"
  by (auto simp: dispose_chan_def dispose_user_def clear_memb_put_con put_con_commute split: bind_split)

lemma ucb_deinit_put_con: "lsi_ucb_deinit (put_con cn s) = map_option (put_con cn) (lsi_ucb_deinit s)"
proof -
  note loops = for_each_commute [of chans_of "put_con cn" set_chans dispose_chan]
    for_each_commute [of "\<lambda>s. Some (users_of s)" "put_con cn" set_users dispose_user]
  show ?thesis
    by (auto simp: lsi_ucb_deinit_def lsi_ucb_clear_def loops put_con_commute dispose_put_con split: bind_split option.split)
qed

lemma ucb_deinit_con:
  assumes "lsi_ucb_deinit s = Some s'"
  shows "ic_con (st_irc s') = ic_con (st_irc s)"
proof -
  have "put_con (ic_con (st_irc s)) s = s" by (simp add: put_con_def)
  with ucb_deinit_put_con [of "ic_con (st_irc s)" s] assms have "s' = put_con (ic_con (st_irc s)) s'" by simp
  then have "ic_con (st_irc s') = ic_con (st_irc (put_con (ic_con (st_irc s)) s'))" by simp
  then show ?thesis by (simp add: put_con_def)
qed

section \<open>The property\<close>


text \<open>A user is listed and no channel is (as when a user whose membership was counted twice outlives its channel).\<close>

definition leak_st :: st where
  "leak_st = snd (the (lsi_ucb_add_user ''bob!b@bh'' track_st))"


end
