(* ===== verification/Logonsafe.thy ===== *)
theory Logonsafe
  imports Sesssafe Teardown
begin

text \<open>
  The logon is safe and ends.  Every turn of the loop of \<open>irc_connect\<close> takes something from the input, so the
  loop returns after finitely many turns, whatever the server sends, with a context that satisfies \<open>sess_ok\<close>.
\<close>

section \<open>The turns of the loop\<close>

text \<open>What the loop reads in a state, its timeout not being over\<close>

definition logon_read :: "u64 \<Rightarrow> st \<Rightarrow> int \<Rightarrow> tokarr \<Rightarrow> st \<Rightarrow> bool" where
  "logon_read tend s r msg s2 \<longleftrightarrow> (\<exists>trem w tags. lsi_com_check_timeout tend (st_net s) = (False, trem, w) \<and>
     st_conn_read None trem (s\<lparr>st_net := w\<rparr>) = Some (r, msg, tags, s2))"

text \<open>A turn that may be followed by another one\<close>

inductive logon_next :: "envir \<Rightarrow> u64 \<Rightarrow> st \<Rightarrow> st \<Rightarrow> bool" for env tend where
  idle: "logon_read tend s 0 msg s' \<Longrightarrow> logon_next env tend s s'"
| message: "logon_read tend s 1 msg s2 \<Longrightarrow> handle_msg env msg True s2 = Some (flags, s') \<Longrightarrow> logon_next env tend s s'"
| late_logon: "logon_read tend s 1 msg s2 \<Longrightarrow> handle_msg env msg True s2 = Some (flags, s3) \<Longrightarrow>
    send_logon s3 = (True, s') \<Longrightarrow> logon_next env tend s s'"

text \<open>No message of the logon is one of those that \<^const>\<open>harmless\<close> excludes.\<close>

definition logon_harmless :: "envir \<Rightarrow> u64 \<Rightarrow> st \<Rightarrow> bool" where
  "logon_harmless env tend s \<longleftrightarrow> (\<forall>s1 msg s2. (logon_next env tend)\<^sup>*\<^sup>* s s1 \<longrightarrow> logon_read tend s1 1 msg s2 \<longrightarrow>
     tokarr_ok msg \<longrightarrow> harmless env msg True s2)"

lemma logon_harmlessD: "logon_harmless env tend s \<Longrightarrow> logon_read tend s 1 msg s2 \<Longrightarrow> tokarr_ok msg \<Longrightarrow> harmless env msg True s2"
  unfolding logon_harmless_def by blast

lemma logon_harmless_next: "logon_harmless env tend s \<Longrightarrow> logon_next env tend s s1 \<Longrightarrow> logon_harmless env tend s1"
  unfolding logon_harmless_def by (meson converse_rtranclp_into_rtranclp)

section \<open>The loop\<close>

lemma timeout_kept: "lsi_com_check_timeout tend (st_net s) = (hit, trem, w) \<Longrightarrow> sess_kept s (s\<lparr>st_net := w\<rparr>)"
  by (auto simp: lsi_com_check_timeout_def lsi_b_tstamp_us_def view_simps left_def rx_bytes_def Let_def split: if_splits list.splits)

lemma send_logon_kept: "send_logon s = (ok, s') \<Longrightarrow> sess_kept s s'"
  by (auto simp: send_logon_def Let_def dest: irc_write_kept intro: sess_kept_refl split: if_splits)

text \<open>One turn: it ends the loop or goes on in a state with less to read.\<close>

lemma logon_turn_total:
  assumes ok: "sess_ok s" and h: "logon_harmless env tend s"
    and more: "\<And>sent logged authed s'. sess_next s s' \<Longrightarrow> rx_left s' < rx_left s \<Longrightarrow> logon_harmless env tend s' \<Longrightarrow>
      \<exists>ok s''. logon_loop env tend sasl sent logged authed s' = Some (ok, s'') \<and> sess_next s' s''"
  shows "\<exists>ok s'. logon_loop env tend sasl sent logged authed s = Some (ok, s') \<and> sess_next s s'"
proof -
  obtain hit trem w where t: "lsi_com_check_timeout tend (st_net s) = (hit, trem, w)" by (metis prod_cases3)
  let ?s1 = "s\<lparr>st_net := w\<rparr>"
  have nx1: "sess_next s ?s1" by (rule sess_next_kept [OF ok timeout_kept [OF t]])
  note ok1 = sess_next_ok [OF nx1]
  obtain r msg tags s2 where r: "st_conn_read None trem ?s1 = Some (r, msg, tags, s2)" "sess_kept ?s1 s2" "r \<in> {1, 0, -1}"
    "r = 1 \<longrightarrow> tokarr_ok msg" "r \<in> {0, 1} \<longrightarrow> rx_left s2 < rx_left ?s1"
    by (rule st_conn_read_total [of ?s1]) (use ok1 in \<open>simp add: sess_ok_def\<close>)
  have nx2: "sess_next s s2" by (rule sess_next_trans [OF nx1 sess_next_kept [OF ok1 r(2)]])
  have lt: "rx_left s2 < rx_left s" if "r \<in> {0, 1}" using r(5) that nx1 unfolding sess_next_def by force
  note unf = logon_loop.simps [of env tend sasl sent logged authed s] t r(1) Let_def
  consider "hit" | "\<not> hit" "r = -1" | "\<not> hit" "r = 0" | "\<not> hit" "r = 1" using r(3) by blast
  then show ?thesis
  proof cases
    case 1
    then show ?thesis using nx1 by (auto simp: unf)
  next
    case 2
    then show ?thesis using nx2 by (auto simp: unf)
  next
    case 3
    then have rd: "logon_read tend s 0 msg s2" using t r(1) unfolding logon_read_def by auto
    have "\<exists>ok s'. logon_loop env tend sasl sent logged authed s2 = Some (ok, s') \<and> sess_next s2 s'"
      by (rule more [OF nx2 lt logon_harmless_next [OF h logon_next.idle [OF rd]]]) (use 3 in simp)
    then show ?thesis using 3 nx2 sess_next_trans [OF nx2] by (auto simp: unf)
  next
    case 4
    then have rd: "logon_read tend s 1 msg s2" using t r(1) unfolding logon_read_def by auto
    have "harmless env msg True s2" by (rule logon_harmlessD [OF h rd]) (use 4 r(4) in simp)
    with handle_msg_safe [OF sess_next_ok [OF nx2]] obtain flags s3 where
      s3: "handle_msg env msg True s2 = Some (flags, s3)" "sess_next s2 s3" by blast
    have nx3: "sess_next s s3" by (rule sess_next_trans [OF nx2 s3(2)])
    obtain sok s4 where s4: "send_logon s3 = (sok, s4)" by fastforce
    have nx4: "sess_next s s4" by (rule sess_next_trans [OF nx3 sess_next_kept [OF sess_next_ok [OF nx3] send_logon_kept [OF s4]]])
    have le: "rx_left s3 < rx_left s" "rx_left s4 < rx_left s"
      using 4 lt s3(2) send_logon_kept [OF s4] by (simp_all add: sess_next_def sess_kept_def)
    have go3: "\<exists>ok s''. logon_loop env tend sasl a b c s3 = Some (ok, s'') \<and> sess_next s s''" for a b c
      using more [OF nx3 le(1) logon_harmless_next [OF h logon_next.message [OF rd s3(1)]], of a b c] sess_next_trans [OF nx3] by blast
    have go4: "\<exists>ok s''. logon_loop env tend sasl a b c s4 = Some (ok, s'') \<and> sess_next s s''" if sok for a b c
    proof -
      have "send_logon s3 = (True, s4)" using s4 that by simp
      from more [OF nx4 le(2) logon_harmless_next [OF h logon_next.late_logon [OF rd s3(1) this]], of a b c] sess_next_trans [OF nx4]
      show ?thesis by blast
    qed
    show ?thesis using 4 s3(1) s4 nx2 nx3 nx4 go3 go4
      by (cases "ic_cb_con_read (st_irc s2)"; cases "has_flag flags CANT_PROCEED"; cases sok)
        (auto simp: unf simp del: split_paired_Ex)
  qed
qed

lemma logon_loop_total:
  "sess_ok s \<Longrightarrow> logon_harmless env tend s \<Longrightarrow>
   \<exists>ok s'. logon_loop env tend sasl sent logged authed s = Some (ok, s') \<and> sess_next s s'"
proof (induction "rx_left s" arbitrary: s sent logged authed rule: less_induct)
  case less
  show ?case
    by (rule logon_turn_total [OF less.prems]) (use less.hyps sess_next_ok in blast)
qed

section \<open>Connecting\<close>

text \<open>Without a proxy \<open>lsi_conn_connect\<close> returns; it leaves the receive buffer and the input alone.\<close>

lemma timeout_rx: "lsi_com_check_timeout tend w = (hit, trem, w') \<Longrightarrow> nt_rx w' = nt_rx w"
  by (auto simp: lsi_com_check_timeout_def lsi_b_tstamp_us_def Let_def split: if_splits list.splits)

lemma tryhost_rx: "tryhost ai n to_us w = (sck, peer, w') \<Longrightarrow> nt_rx w' = nt_rx w"
  by (auto simp: tryhost_def lsi_b_close_def split: if_splits)

lemma consocket_loop_rx: "consocket_loop al n softto tend sck w = (sck', peer, w') \<Longrightarrow> nt_rx w' = nt_rx w"
proof (induction al arbitrary: sck w)
  case (Cons ai al)
  obtain hit trem w1 where t: "lsi_com_check_timeout tend w = (hit, trem, w1)" by (metis prod_cases3)
  obtain sck1 p1 w2 where h: "tryhost ai n (if softto < trem then softto else trem) w1 = (sck1, p1, w2)" by (metis prod_cases3)
  note rx = timeout_rx [OF t] tryhost_rx [OF h]
  have e: "consocket_loop (ai # al) n softto tend sck w =
      (if hit then (0, None, w1) else if sck1 \<noteq> -1 then (sck1, p1, w2) else consocket_loop al n softto tend sck1 w2)"
    unfolding consocket_loop.simps t Let_def prod.case h ..
  consider "hit" | "\<not> hit" "sck1 \<noteq> -1" | "\<not> hit" "sck1 = -1" by blast
  then show ?case
  proof cases
    case 3
    then have "consocket_loop al n softto tend sck1 w2 = (sck', peer, w')" using Cons.prems e by simp
    from Cons.IH [OF this] rx show ?thesis by simp
  qed (use Cons.prems e rx in simp_all)
qed simp

lemma consocket_rx: "lsi_com_consocket al n softto hardto w = (sck, peer, w') \<Longrightarrow> nt_rx w' = nt_rx w"
  by (auto simp: lsi_com_consocket_def lsi_b_tstamp_us_def Let_def dest!: consocket_loop_rx split: if_splits list.splits prod.splits)

lemma conn_tls_rx: "conn_tls ctx w = (ok, c, w') \<Longrightarrow> nt_rx w' = nt_rx w"
  by (auto simp: conn_tls_def conn_abort_def lsi_b_close_def sys_call_def Let_def split: if_splits prod.splits list.splits)

lemma conn_connect_direct:
  assumes "co_ptype ctx = -1" "co_laddr ctx \<noteq> Freed" "\<not> co_online ctx"
  obtains ok ctx' w' where "lsi_conn_connect env softto_us hardto_us ctx w = Some (ok, ctx', w')" "co_rctx ctx' = co_rctx ctx"
    "co_online ctx' = ok" "nt_rx w' = nt_rx w" "co_ptype ctx' = co_ptype ctx \<and> co_laddr ctx' = co_laddr ctx"
proof -
  obtain tend w1 where t: "px_tend hardto_us w = (tend, w1)" by fastforce
  obtain sck peer w2 where s: "lsi_com_consocket (ne_resolve env (Some (co_host ctx)) (if co_port ctx \<noteq> 0 then co_port ctx
      else if co_ssl ctx then DEF_PORT_SSL else DEF_PORT_PLAIN)) 256 softto_us hardto_us w1 = (sck, peer, w2)" by (metis prod_cases3)
  obtain ok c w3 where c: "conn_tls (ctx\<lparr>co_sck := sck, co_shnd := False\<rparr>) w2 = (ok, c, w3)" by (metis prod_cases3)
  then have k: "co_rctx c = co_rctx ctx" "co_online c = ok" "co_ptype c = co_ptype ctx \<and> co_laddr c = co_laddr ctx"
    using assms(3) by (auto simp: conn_tls_def conn_abort_def Let_def split: if_splits prod.splits)
  have r: "lsi_conn_connect env softto_us hardto_us ctx w = (if sck < 0 then Some (False, ctx, w2) else Some (ok, c, w3))"
    using assms t s c by (simp add: lsi_conn_connect_def Let_def)
  have n: "nt_rx w2 = nt_rx w" "nt_rx w3 = nt_rx w"
    using consocket_rx [OF s] conn_tls_rx [OF c] px_tend_keeps [OF t] by simp_all
  show thesis
  proof (cases "sck < 0")
    case True
    then show thesis using that [of False ctx w2] r assms(3) n by simp
  next
    case False
    then show thesis using that [of ok c w3] r k n by simp
  qed
qed

text \<open>The end of the logon timeout and the state in which \<open>irc_connect\<close> starts the loop.\<close>

definition first_line :: "st \<Rightarrow> bool \<times> st" where
  "first_line s = (if ic_starttls_first (st_irc s) then st_write (''STARTTLS'' @ crlf) s else send_logon s)"

definition logon_start :: "envir \<Rightarrow> st \<Rightarrow> (u64 \<times> st) option" where
  "logon_start env s0 =
     (let (tend, w) = px_tend (ic_hcto_us (st_irc s0)) (st_net s0) in do {
      (_, s1) \<leftarrow> connect_prepare (s0\<lparr>st_net := w\<rparr>);
      (_, c, w2) \<leftarrow> lsi_conn_connect (en_net env) (ic_scto_us (st_irc s1)) (ic_hcto_us (st_irc s1)) (ic_con (st_irc s1)) (st_net s1);
      let s3 = snd (first_line ((upd_con (\<lambda>_. c) s1)\<lparr>st_net := w2\<rparr>));
      nick \<leftarrow> ic_nick (st_irc s3);
      Some (tend, upd_irc (\<lambda>x. x\<lparr>ic_mynick := ncpy MAX_NICK_LEN nick\<rparr>) s3) })"

lemma first_line_kept:
  assumes "first_line s = (ok, s')"
  shows "sess_kept s s'"
  using assms by (auto simp: first_line_def dest: st_write_kept send_logon_kept split: if_splits)

lemma reset_offline: "\<not> co_online (ic_con (st_irc (irc_reset s)))"
  by (simp add: irc_reset_def st_conn_def lsi_conn_reset_def Let_def)

lemma startable_net: "startable (s\<lparr>st_net := w\<rparr>) = startable s"
  by (simp add: startable_def heap_empty_def acc_defs rctx_of_def live_hnds_def)

text \<open>What precedes the loop, when the connection can be made without a proxy\<close>

lemma connect_steps:
  assumes st: "startable s" and con: "co_ptype (ic_con (st_irc s)) = -1" "co_laddr (ic_con (st_irc s)) \<noteq> Freed"
      "\<not> co_online (ic_con (st_irc s))"
  obtains tend w s1 ok2 c w2 s2 ok3 s3 where
    "px_tend (ic_hcto_us (st_irc s)) (st_net s) = (tend, w)" "connect_prepare (s\<lparr>st_net := w\<rparr>) = Some (True, s1)"
    "lsi_conn_connect (en_net env) (ic_scto_us (st_irc s1)) (ic_hcto_us (st_irc s1)) (ic_con (st_irc s1)) (st_net s1) = Some (ok2, c, w2)"
    "s2 = (upd_con (\<lambda>_. c) s1)\<lparr>st_net := w2\<rparr>" "sess_ok s2" "co_online (ic_con (st_irc s2)) = ok2"
    "first_line s2 = (ok3, s3)" "sess_ok s3" "conf_of s3 = conf_of s" "rx_left s3 \<le> rx_left s"
    "conf_of s2 = conf_of s" "rx_left s2 \<le> rx_left s" "\<not> ic_tracking_enab (st_irc s2)" "\<not> ic_tracking_enab (st_irc s3)"
proof -
  obtain tend w where t: "px_tend (ic_hcto_us (st_irc s)) (st_net s) = (tend, w)" by fastforce
  have "startable (s\<lparr>st_net := w\<rparr>)" using st by (simp add: startable_net)
  then obtain s1 where s1: "connect_prepare (s\<lparr>st_net := w\<rparr>) = Some (True, s1)" "sess_ok s1"
    "ic_con (st_irc s1) = ic_con (st_irc s)" "conf_of s1 = conf_of s" "st_net s1 = w" "\<not> ic_tracking_enab (st_irc s1)"
    by (rule prepare_sess_ok) (simp add: conf_of_def)
  have "co_ptype (ic_con (st_irc s1)) = -1" "co_laddr (ic_con (st_irc s1)) \<noteq> Freed" "\<not> co_online (ic_con (st_irc s1))"
    using con s1(3) by simp_all
  then obtain ok2 c w2 where c: "lsi_conn_connect (en_net env) (ic_scto_us (st_irc s1)) (ic_hcto_us (st_irc s1)) (ic_con (st_irc s1)) (st_net s1) =
      Some (ok2, c, w2)" "co_rctx c = co_rctx (ic_con (st_irc s1))" "co_online c = ok2" "nt_rx w2 = nt_rx (st_net s1)"
    "co_ptype c = co_ptype (ic_con (st_irc s1)) \<and> co_laddr c = co_laddr (ic_con (st_irc s1))" by (rule conn_connect_direct)
  let ?s2 = "(upd_con (\<lambda>_. c) s1)\<lparr>st_net := w2\<rparr>"
  have v2: "sess_view ?s2 = sess_view s1" "rctx_of ?s2 = rctx_of s1"
    using c(2,5) by (simp_all add: sess_view_def conf_of_def rctx_of_def upd_con_def upd_irc_def Let_def)
  have ok_2: "sess_ok ?s2"
    using s1(2) unfolding sess_ok_def view_inv [OF v2(1)] view_accs [OF v2(1)] sess_viewD [OF v2(1)] v2(2) .
  have off2: "co_online (ic_con (st_irc ?s2)) = ok2" "rx_left ?s2 = rx_left s"
    using c(2-4) s1(3,5) px_tend_keeps [OF t] by (simp_all add: upd_con_def upd_irc_def rx_left_def left_def rx_bytes_def)
  have cf2: "conf_of ?s2 = conf_of s" "\<not> ic_tracking_enab (st_irc ?s2)" using s1(4,6) sess_viewD(10,13) [OF v2(1)] by simp_all
  obtain ok3 s3 where s3: "first_line ?s2 = (ok3, s3)" by fastforce
  note k3 = first_line_kept [OF s3]
  have "sess_view s3 = sess_view ?s2" "rx_left s3 \<le> rx_left s" using k3 off2(2) by (simp_all add: sess_kept_def)
  note v3 = this
  have "conf_of s3 = conf_of s" "\<not> ic_tracking_enab (st_irc s3)" "rx_left ?s2 \<le> rx_left s"
    using cf2 sess_viewD(10,13) [OF v3(1)] eq_imp_le [OF off2(2)] by simp_all
  then show thesis using that [OF t s1(1) c(1) refl ok_2 off2(1) s3 sess_ok_kept [OF ok_2 k3]] v3(2) cf2 by blast
qed

lemma logon_start_ok:
  assumes "startable s" "co_ptype (ic_con (st_irc s)) = -1" "co_laddr (ic_con (st_irc s)) \<noteq> Freed"
    "\<not> co_online (ic_con (st_irc s))" "logon_start env s = Some (tend, s4)"
  shows "sess_ok s4" "rx_left s4 \<le> rx_left s" "conf_of s4 = conf_of s" "\<not> ic_tracking_enab (st_irc s4)"
proof -
  obtain tend' w s1 ok2 c w2 s2 ok3 s3 where p:
    "px_tend (ic_hcto_us (st_irc s)) (st_net s) = (tend', w)" "connect_prepare (s\<lparr>st_net := w\<rparr>) = Some (True, s1)"
    "lsi_conn_connect (en_net env) (ic_scto_us (st_irc s1)) (ic_hcto_us (st_irc s1)) (ic_con (st_irc s1)) (st_net s1) = Some (ok2, c, w2)"
    "s2 = (upd_con (\<lambda>_. c) s1)\<lparr>st_net := w2\<rparr>" "sess_ok s2" "co_online (ic_con (st_irc s2)) = ok2"
    "first_line s2 = (ok3, s3)" "sess_ok s3" "conf_of s3 = conf_of s" "rx_left s3 \<le> rx_left s"
    "conf_of s2 = conf_of s" "rx_left s2 \<le> rx_left s" "\<not> ic_tracking_enab (st_irc s2)" "\<not> ic_tracking_enab (st_irc s3)"
    by (rule connect_steps [OF assms(1-4), where env = env])
  from assms(5) p obtain n where s4: "s4 = upd_irc (\<lambda>x. x\<lparr>ic_mynick := ncpy MAX_NICK_LEN n\<rparr>) s3"
    by (auto simp: logon_start_def)
  have k: "sess_kept s3 s4" by (simp add: s4 view_simps Let_def)
  show "sess_ok s4" by (rule sess_ok_kept [OF p(8) k])
  show "rx_left s4 \<le> rx_left s" using k p(10) by (simp add: sess_kept_def)
  show "conf_of s4 = conf_of s" using p(9) by (simp add: s4 upd_irc_def conf_of_def Let_def)
  show "\<not> ic_tracking_enab (st_irc s4)" using p(14) by (simp add: s4 upd_irc_def)
qed

text \<open>What a connect leaves: a session with the same settings that does not track unless it was asked to.\<close>

definition new_session :: "st \<Rightarrow> st \<Rightarrow> bool" where
  "new_session s s' \<longleftrightarrow> sess_ok s' \<and> conf_of s' = conf_of s \<and> rx_left s' \<le> rx_left s \<and>
     (\<not> ic_tracking (st_irc s) \<longrightarrow> \<not> ic_tracking_enab (st_irc s'))"

lemma new_session_next: "new_session s s1 \<Longrightarrow> sess_next s1 s2 \<Longrightarrow> new_session s s2"
  using conf_ofD(2) [of s1 s] by (simp add: new_session_def sess_next_def)

lemma irc_connect_total:
  assumes st: "startable s" and con: "co_ptype (ic_con (st_irc s)) = -1" "co_laddr (ic_con (st_irc s)) \<noteq> Freed"
      "\<not> co_online (ic_con (st_irc s))" and nick: "ic_nick (st_irc s) \<noteq> None"
    and h: "\<And>tend s1. logon_start env s = Some (tend, s1) \<Longrightarrow> logon_harmless env tend s1"
  shows "\<exists>ok s'. irc_connect env s = Some (ok, s') \<and> new_session s s' \<and> (\<not> ok \<longrightarrow> \<not> co_online (ic_con (st_irc s')))"
proof -
  obtain tend w s1 ok2 c w2 s2 ok3 s3 where p:
    "px_tend (ic_hcto_us (st_irc s)) (st_net s) = (tend, w)" "connect_prepare (s\<lparr>st_net := w\<rparr>) = Some (True, s1)"
    "lsi_conn_connect (en_net env) (ic_scto_us (st_irc s1)) (ic_hcto_us (st_irc s1)) (ic_con (st_irc s1)) (st_net s1) = Some (ok2, c, w2)"
    "s2 = (upd_con (\<lambda>_. c) s1)\<lparr>st_net := w2\<rparr>" "sess_ok s2" "co_online (ic_con (st_irc s2)) = ok2"
    "first_line s2 = (ok3, s3)" "sess_ok s3" "conf_of s3 = conf_of s" "rx_left s3 \<le> rx_left s"
    "conf_of s2 = conf_of s" "rx_left s2 \<le> rx_left s" "\<not> ic_tracking_enab (st_irc s2)" "\<not> ic_tracking_enab (st_irc s3)"
    by (rule connect_steps [OF st con, where env = env])
  note t = p(1-3) p(4) [symmetric] p(7)
  obtain n where n: "ic_nick (st_irc s3) = Some n" using conf_ofD(3) [OF p(9)] nick by auto
  let ?s4 = "upd_irc (\<lambda>x. x\<lparr>ic_mynick := ncpy MAX_NICK_LEN n\<rparr>) s3"
  have ls: "logon_start env s = Some (tend, ?s4)" using t n by (simp add: logon_start_def)
  have ok_4: "sess_ok ?s4" by (rule logon_start_ok [OF st con ls])
  obtain ok5 s5 where s5: "logon_loop env tend (have_sasl (st_irc ?s4)) (\<not> ic_starttls_first (st_irc s2)) False False ?s4 = Some (ok5, s5)"
    "sess_next ?s4 s5" using logon_loop_total [OF ok_4 h [OF ls]] by blast
  have k4: "sess_kept s3 ?s4" by (simp add: view_simps Let_def)
  have u: "irc_connect env s = (let (tend, w) = px_tend (ic_hcto_us (st_irc s)) (st_net s); s = s\<lparr>st_net := w\<rparr> in do {
      (ok1, s1) \<leftarrow> connect_prepare s;
      if \<not> ok1 then Some (False, s1)
      else do {
        (ok2, c, w2) \<leftarrow> lsi_conn_connect (en_net env) (ic_scto_us (st_irc s1)) (ic_hcto_us (st_irc s1)) (ic_con (st_irc s1)) (st_net s1);
        let s2 = (upd_con (\<lambda>_. c) s1)\<lparr>st_net := w2\<rparr>;
        if \<not> ok2 then Some (False, s2)
        else if ic_dumb (st_irc s2) then Some (True, s2)
        else let (ok3, s3) = first_line s2 in
          if \<not> ok3 then Some (False, irc_reset s3)
          else do {
            nick \<leftarrow> ic_nick (st_irc s3);
            let s4 = upd_irc (\<lambda>x. x\<lparr>ic_mynick := ncpy MAX_NICK_LEN nick\<rparr>) s3;
            (ok5, s5) \<leftarrow> logon_loop env tend (have_sasl (st_irc s4)) (\<not> ic_starttls_first (st_irc s2)) False False s4;
            Some (ok5, if ok5 then s5 else irc_reset s5) } } })"
    by (simp only: irc_connect_def first_line_def Let_def)
  have r: "irc_connect env s = (if \<not> ok2 then Some (False, s2) else if ic_dumb (st_irc s2) then Some (True, s2)
      else if \<not> ok3 then Some (False, irc_reset s3) else Some (ok5, if ok5 then s5 else irc_reset s5))"
    unfolding u using t n s5(1) by (simp add: Let_def)
  have nx3: "new_session s s3" using p(8-10,14) by (simp add: new_session_def)
  have nx5: "new_session s s5" by (rule new_session_next [OF new_session_next [OF nx3 sess_next_kept [OF p(8) k4]] s5(2)])
  have "new_session s s2" using p(5,11-13) by (simp add: new_session_def)
  moreover have "new_session s (irc_reset s3)" "new_session s (irc_reset s5)"
    using new_session_next [OF nx3] new_session_next [OF nx5] sess_next_kept [OF _ irc_reset_kept] p(8) nx5 by (simp_all add: new_session_def)
  ultimately show ?thesis unfolding r using p(6) nx5 reset_offline by (cases ok2; cases ok3; cases ok5) auto
qed

section \<open>States in which every message is harmless\<close>

text \<open>Nothing is left to read.\<close>

lemma logon_read_less:
  assumes "logon_read tend s r msg s2" "sess_ok s" "r \<in> {0, 1}"
  shows "rx_left s2 < rx_left s"
proof -
  obtain trem w tags where r: "lsi_com_check_timeout tend (st_net s) = (False, trem, w)"
    "st_conn_read None trem (s\<lparr>st_net := w\<rparr>) = Some (r, msg, tags, s2)" using assms(1) unfolding logon_read_def by blast
  have n: "sess_next s (s\<lparr>st_net := w\<rparr>)" by (rule sess_next_kept [OF assms(2) timeout_kept [OF r(1)]])
  then have "rx_ok (rctx_of (s\<lparr>st_net := w\<rparr>))" by (simp add: sess_next_def sess_ok_def)
  then obtain r' msg' tags' s2' where "st_conn_read None trem (s\<lparr>st_net := w\<rparr>) = Some (r', msg', tags', s2')"
    "r' \<in> {0, 1} \<longrightarrow> rx_left s2' < rx_left (s\<lparr>st_net := w\<rparr>)" by (rule st_conn_read_total)
  then have "rx_left s2 < rx_left (s\<lparr>st_net := w\<rparr>)" using r(2) assms(3) by auto
  then show ?thesis using n by (simp add: sess_next_def)
qed

lemma nothing_to_read:
  assumes "sess_ok s" "rx_left s = 0"
  shows "logon_harmless env tend s"
proof -
  have n: "\<not> logon_read tend s r msg s2" if "r \<in> {0, 1}" for r msg s2 using logon_read_less [OF _ assms(1) that] assms(2) by auto
  then have "\<not> logon_next env tend s s1" for s1 by (auto elim: logon_next.cases)
  then have "s1 = s" if "(logon_next env tend)\<^sup>*\<^sup>* s s1" for s1 using that by (metis converse_rtranclpE)
  with n show ?thesis unfolding logon_harmless_def by blast
qed

text \<open>No handler is registered.\<close>

lemma msg_loop_free:
  assumes "live_hnds s = {#}"
  shows "msg_loop hnd msg ac logon i res s = Some (True, res, s)"
proof (induction "length (ic_msghnds (st_irc s)) - i" arbitrary: i)
  case 0
  then show ?case by (subst msg_loop.simps) simp
next
  case (Suc n)
  then have i: "i < length (ic_msghnds (st_irc s))" "n = length (ic_msghnds (st_irc s)) - (i + 1)" by simp_all
  have "mh_cmd (ic_msghnds (st_irc s) ! i) = []" using live_slot [OF i(1)] assms by auto
  with i(1) Suc.hyps(1) [OF i(2)] show ?case by (subst msg_loop.simps) (simp add: Let_def)
qed

definition idle_st :: "net \<Rightarrow> st" where
  "idle_st w = fresh_st\<lparr>st_irc := fresh_ctx\<lparr>ic_con := online_con\<rparr>, st_net := w\<rparr>"

lemma idle_st_ok: "sess_ok (idle_st w)"
proof -
  have s: "startable fresh_st" by (rule fresh_startable)
  have "live_hnds (idle_st w) = {#}" "ic_msghnds (st_irc (idle_st w)) \<noteq> []"
    by (simp_all add: idle_st_def live_hnds_def del: replicate.simps)
  moreover have "rx_ok (rctx_of (idle_st w))"
    by (simp add: idle_st_def rctx_of_def online_con_def lsi_conn_init_def lsi_b_strdup_def readctx_init_def rx_ok_def)
  moreover have "modes_ok (idle_st w)" "heap_empty (idle_st w)" "orc_of (idle_st w) = []"
    using fresh_modes fresh_heap modes_upd [of "idle_st w" fresh_st]
    by (simp_all add: modes_ok_def heap_empty_def acc_defs idle_st_def fresh_st_def)
  moreover have "\<not> ic_tracking_enab (st_irc (idle_st w))" "ic_chans (st_irc (idle_st w)) = Null" "ic_users (st_irc (idle_st w)) = None"
    by (simp_all add: idle_st_def fresh_ctx_def irc_init_def malloc_n_unlimited lsi_conn_init_def reset_state_def lsi_skmap_init_def
        lsi_b_strdup_def del: replicate.simps)
  ultimately show ?thesis by (simp add: sess_ok_def)
qed

lemma idle_next:
  assumes "logon_next silent_env tend s s'" "live_hnds s = {#}"
  shows "live_hnds s' = {#}"
proof -
  have v: "live_hnds s2 = {#}" if rd: "logon_read tend s r msg s2" for r msg s2
  proof -
    obtain trem w tags where r: "lsi_com_check_timeout tend (st_net s) = (False, trem, w)"
      "st_conn_read None trem (s\<lparr>st_net := w\<rparr>) = Some (r, msg, tags, s2)" using rd unfolding logon_read_def by blast
    have "live_hnds s2 = live_hnds (s\<lparr>st_net := w\<rparr>)" by (rule view_accs(12) [OF st_conn_read_view [OF r(2)]])
    then show ?thesis using assms(2) by (simp add: live_hnds_def)
  qed
  have h: "s3 = s2" if "handle_msg silent_env msg True s2 = Some (flags, s3)" "live_hnds s2 = {#}" for msg flags s2 s3
    using that by (simp add: handle_msg_def lsi_msg_handle_def msg_loop_free Let_def)
  from assms(1) show ?thesis
  proof cases
    case (late_logon msg s2 flags s3)
    have "sess_view s' = sess_view s3" using send_logon_kept [OF late_logon(3)] by (simp add: sess_kept_def)
    from view_accs(12) [OF this] show ?thesis using h [OF late_logon(2)] v [OF late_logon(1)] by simp
  qed (use v h in blast)+
qed

lemma idle_harmless: "logon_harmless silent_env tend (idle_st w)"
proof -
  have l: "live_hnds s1 = {#}" if "(logon_next silent_env tend)\<^sup>*\<^sup>* (idle_st w) s1" for s1
    using that
  proof (induction rule: rtranclp_induct)
    case base
    show ?case by (simp add: idle_st_def live_hnds_def del: replicate.simps)
  qed (rule idle_next)
  have u: "uhnd_fine silent_env msg s" for msg s unfolding uhnd_fine_def silent_env_def using sess_kept_refl by auto
  show ?thesis
    unfolding logon_harmless_def
  proof (intro allI impI)
    fix s1 msg s2
    assume s: "(logon_next silent_env tend)\<^sup>*\<^sup>* (idle_st w) s1" "logon_read tend s1 1 msg s2" "tokarr_ok msg"
    obtain trem w' tags where r: "lsi_com_check_timeout tend (st_net s1) = (False, trem, w')"
      "st_conn_read None trem (s1\<lparr>st_net := w'\<rparr>) = Some (1, msg, tags, s2)" using s(2) unfolding logon_read_def by blast
    have "live_hnds s2 = live_hnds (s1\<lparr>st_net := w'\<rparr>)" by (rule view_accs(12) [OF st_conn_read_view [OF r(2)]])
    then have "live_hnds s2 = {#}" using l [OF s(1)] by (simp add: live_hnds_def)
    then show "harmless silent_env msg True s2" using s(3) u by (simp add: harmless_def)
  qed
qed

section \<open>Properties\<close>





text \<open>\<open>irc_dispose\<close> is safe whether the context tracks or not.\<close>

lemma conn_dispose_total: "co_laddr c \<noteq> Freed \<Longrightarrow> lsi_conn_dispose c w \<noteq> None"
  by (auto simp: lsi_conn_dispose_def lsi_conn_reset_def lsi_conn_set_ssl_def Let_def split: prod.splits if_splits)

theorem irc_dispose_returns:
  assumes "sess_ok s" "co_laddr (ic_con (st_irc s)) \<noteq> Freed"
  shows "irc_dispose s \<noteq> None"
proof -
  have "\<exists>s1. lsi_ucb_deinit s = Some s1"
  proof (cases "ic_tracking_enab (st_irc s)")
    case True
    then have "ucb_ok s" using assms(1) by (simp add: sess_ok_def)
    then show ?thesis by (rule ucb_deinit_ok) blast
  next
    case False
    then have "ic_chans (st_irc s) = Null" "ic_users (st_irc s) = None" using assms(1) by (simp_all add: sess_ok_def)
    then show ?thesis by (simp add: lsi_ucb_deinit_def lsi_ucb_clear_def chans_of_def users_of_def)
  qed
  then obtain s1 where s1: "lsi_ucb_deinit s = Some s1" by blast
  have "ic_con (st_irc (lsi_msg_unregall ''track'' s1)) = ic_con (st_irc s)"
    using ucb_deinit_con [OF s1] by (simp add: lsi_msg_unregall_def)
  with conn_dispose_total [of "ic_con (st_irc s)"] assms(2) s1 show ?thesis
    by (simp add: irc_dispose_def lsi_trk_deinit_def del: not_None_eq)
qed

end
