(* ===== verification/Icatsafe.thy ===== *)
theory Icatsafe
  imports Icatmain Icatprops Logonsafe
begin

text \<open>
  A whole run of \<open>icat\<close> is safe: \<open>icat_ok\<close> is the invariant of its main loop, online and offline, over
  reconnects and signals.
\<close>

section \<open>Messages and typed lines that end \<open>icat\<close>\<close>

text \<open>
  The messages that the library or \<open>icat\<close> reads past: a PING without an argument, a 004 without a
  sender, a \<open>CAP LS\<close> whose list is announced but missing, a PRIVMSG without a target or a text.
\<close>

definition msg_crash :: "tokarr \<Rightarrow> bool" where
  "msg_crash msg \<longleftrightarrow>
     (tk msg 1 = Some ''PING'' \<and> tk msg 2 = None) \<or>
     (tk msg 1 = Some ''004'' \<and> tk msg 0 = None) \<or>
     (tk msg 1 = Some ''CAP'' \<and> msg_ac msg = 5 \<and> tk msg 3 = Some ''LS'' \<and>
        (case tk msg 4 of Some a \<Rightarrow> hdz a = CHR ''*'' | None \<Rightarrow> False)) \<or>
     (tk msg 1 = Some ''PRIVMSG'' \<and> tk msg 0 \<noteq> None \<and> (tk msg 2 = None \<or> tk msg 3 = None))"

text \<open>The user neither fills the buffer without a newline nor types NUL, nor, in target mode, only blanks.\<close>

definition typed_fine :: "settings \<Rightarrow> ubuf \<Rightarrow> bool" where
  "typed_fine se u \<longleftrightarrow> (length (ub_pend u) < BUFSZ \<or> newline \<in> set (ub_pend u)) \<and>
     (g_trgmode se \<longrightarrow> (\<forall>line rest. ub_stream u = line @ newline # rest \<longrightarrow> newline \<notin> set line \<longrightarrow>
        strip_eol (take 1023 (line @ [newline])) = [] \<or>
        split_target (strip_eol (take 1023 (line @ [newline]))) (strip_eol (take 1023 (line @ [newline])) \<noteq> take 1023 (line @ [newline])) \<noteq> None))"

section \<open>The session below\<close>

text \<open>Only the command PING runs \<^const>\<open>CB_PING\<close>.\<close>

definition icat_hnds :: "st \<Rightarrow> bool" where
  "icat_hnds s \<longleftrightarrow> (\<forall>pre. \<forall>h\<in>set (uhnds pre s). uh_cmd h \<noteq> [] \<longrightarrow> uh_hndfn h = CB_PING \<longrightarrow> uh_cmd h = ''PING'')"

definition icat_conf :: "st \<Rightarrow> bool" where
  "icat_conf s \<longleftrightarrow> icat_hnds s \<and> \<not> ic_tracking (st_irc s) \<and> co_ptype (ic_con (st_irc s)) = -1 \<and>
     co_laddr (ic_con (st_irc s)) \<noteq> Freed \<and> ic_nick (st_irc s) \<noteq> None"

definition icat_sess :: "st \<Rightarrow> bool" where
  "icat_sess s \<longleftrightarrow> sess_ok s \<and> icat_conf s \<and> \<not> ic_tracking_enab (st_irc s)"

lemma icat_conf_cong: "conf_of s' = conf_of s \<Longrightarrow> icat_conf s' = icat_conf s"
  unfolding icat_conf_def icat_hnds_def using conf_ofD [of s' s] by simp

lemma icat_sess_next: "icat_sess s \<Longrightarrow> sess_next s s' \<Longrightarrow> icat_sess s'"
  using icat_conf_cong [of s' s] by (simp add: icat_sess_def sess_next_def icat_conf_def)

lemma icat_sess_kept: "icat_sess s \<Longrightarrow> sess_kept s s' \<Longrightarrow> icat_sess s'"
  using icat_sess_next [of s s'] sess_next_kept [of s s'] by (simp add: icat_sess_def)

lemma icat_sess_startable: "icat_sess s \<Longrightarrow> startable s"
  by (simp add: icat_sess_def sess_startable)

text \<open>For the session of \<open>icat\<close>, all other messages are harmless.\<close>

lemma icat_uhnd_fine:
  assumes "icat_hnds s" "\<not> msg_crash msg"
  shows "uhnd_fine (icat_envir nenv mut) msg s"
  unfolding uhnd_fine_def
proof (intro allI ballI impI)
  fix pre h t
  assume h: "h \<in> set (uhnds pre s)" "uh_cmd h \<noteq> []" "tk msg 1 = Some (uh_cmd h)"
  show "\<exists>ok t'. en_uhnd (icat_envir nenv mut) (uh_hndfn h) msg (msg_ac msg) pre t = Some (ok, t') \<and> sess_kept t t'"
  proof (cases "uh_hndfn h = CB_PING")
    case True
    then have "uh_cmd h = ''PING''" using assms(1) h unfolding icat_hnds_def by blast
    then obtain x where x: "tk msg 2 = Some x" using assms(2) h(3) by (auto simp: msg_crash_def)
    obtain ok t' where "irc_write (ncpy 1024 (''PONG :'' @ x @ crlf)) t = (ok, t')" by fastforce
    with irc_write_kept [OF this] True x show ?thesis by (simp add: icat_envir_def icat_uhnd_def)
  next
    case False
    then show ?thesis using sess_kept_refl [of t] by (auto simp: icat_envir_def icat_uhnd_def)
  qed
qed

lemma icat_harmless:
  assumes s: "icat_sess s" and m: "tokarr_ok msg" "\<not> msg_crash msg"
  shows "harmless (icat_envir nenv mut) msg logon s"
  unfolding harmless_def
proof (intro conjI ballI impI)
  show "tokarr_ok msg" by fact
  show "uhnd_fine (icat_envir nenv mut) msg s"
    using s m(2) icat_uhnd_fine by (simp add: icat_sess_def icat_conf_def)
  fix sl
  assume sl: "sl \<in># live_hnds s" "tk msg 1 = Some (mh_cmd sl)"
  have o: "sess_ok s" "\<not> ic_tracking_enab (st_irc s)" "\<not> ic_tracking (st_irc s)" using s by (simp_all add: icat_sess_def icat_conf_def)
  then have c: "sl \<in># core_slots" using sl(1) by (auto simp: sess_ok_def)
  then have "mh_hndfn sl \<in> core_hnds" by (force simp: core_slots_def hnd_slot_def core_hnds_def)
  then have nt: "mh_hndfn sl \<notin> set (map snd trk_handlers)"
    by (auto simp: core_hnds_def imh_handlers_def v3_handlers_def trk_handlers_def)
  have cmds: "mh_hndfn sl = H_004 \<Longrightarrow> mh_cmd sl = ''004''" "mh_hndfn sl = H_CAP \<Longrightarrow> mh_cmd sl = ''CAP''"
    using c by (auto simp: core_slots_def hnd_slot_def imh_handlers_def v3_handlers_def ncpy_def)
  have "\<not> core_crash (mh_hndfn sl) msg logon s"
    using cmds sl(2) m(2) unfolding core_crash_def msg_crash_def by auto
  moreover have "fine_005 msg s" using o by (simp add: fine_005_def)
  ultimately show "hnd_fine msg logon s (mh_hndfn sl)" using nt by (simp add: hnd_fine_def)
qed

section \<open>The logon\<close>

definition logon_fine :: "envir \<Rightarrow> u64 \<Rightarrow> st \<Rightarrow> bool" where
  "logon_fine env tend s \<longleftrightarrow> (\<forall>s1 msg s2. (logon_next env tend)\<^sup>*\<^sup>* s s1 \<longrightarrow> logon_read tend s1 1 msg s2 \<longrightarrow> \<not> msg_crash msg)"

lemma logon_read_ok:
  assumes "logon_read tend s r msg s2" "sess_ok s"
  shows "sess_kept s s2" "r = 1 \<longrightarrow> tokarr_ok msg"
proof -
  obtain trem w tags where r: "lsi_com_check_timeout tend (st_net s) = (False, trem, w)"
    "st_conn_read None trem (s\<lparr>st_net := w\<rparr>) = Some (r, msg, tags, s2)" using assms(1) unfolding logon_read_def by blast
  note k = timeout_kept [OF r(1)]
  have "rx_ok (rctx_of (s\<lparr>st_net := w\<rparr>))" using k assms(2) by (simp add: sess_kept_def sess_ok_def)
  then have "sess_kept (s\<lparr>st_net := w\<rparr>) s2" "r = 1 \<longrightarrow> tokarr_ok msg"
    using st_conn_read_total [of "s\<lparr>st_net := w\<rparr>" None trem] r(2) by auto
  then show "sess_kept s s2" "r = 1 \<longrightarrow> tokarr_ok msg" using sess_kept_trans [OF k] by simp_all
qed

lemma icat_logon_harmless:
  assumes s: "icat_sess s" and f: "logon_fine (icat_envir nenv mut) tend s"
  shows "logon_harmless (icat_envir nenv mut) tend s"
proof -
  let ?env = "icat_envir nenv mut"
  have read: "icat_sess s2 \<and> harmless ?env msg True s2"
    if "(logon_next ?env tend)\<^sup>*\<^sup>* s s1" "icat_sess s1" "logon_read tend s1 1 msg s2" for s1 msg s2
  proof -
    have "icat_sess s2" "tokarr_ok msg"
      using icat_sess_kept [OF that(2)] logon_read_ok [OF that(3)] that(2) by (simp_all add: icat_sess_def)
    then show ?thesis using icat_harmless that(1,3) f unfolding logon_fine_def by blast
  qed
  have inv: "icat_sess s1" if "(logon_next ?env tend)\<^sup>*\<^sup>* s s1" for s1
    using that
  proof (induction rule: rtranclp_induct)
    case (step s1 s2)
    have ok: "sess_ok s1" using step.IH by (simp add: icat_sess_def)
    have hm: "icat_sess s4" if "logon_read tend s1 1 msg s3" "handle_msg ?env msg True s3 = Some (fl, s4)" for msg s3 fl s4
    proof -
      have h: "icat_sess s3" "harmless ?env msg True s3" using read [OF step.hyps(1) step.IH that(1)] by simp_all
      have "sess_ok s3" using h(1) by (simp add: icat_sess_def)
      from handle_msg_safe [OF this h(2)] that(2) have "sess_next s3 s4" by auto
      then show ?thesis by (rule icat_sess_next [OF h(1)])
    qed
    from step.hyps(2) show ?case
    proof cases
      case idle
      then show ?thesis using icat_sess_kept [OF step.IH] logon_read_ok(1) ok by blast
    next
      case message
      then show ?thesis using hm by blast
    next
      case late_logon
      then show ?thesis using hm icat_sess_kept send_logon_kept by blast
    qed
  qed (rule s)
  show ?thesis unfolding logon_harmless_def using read inv by blast
qed

section \<open>Connecting\<close>

text \<open>No server crashes the logon with a message.\<close>

fun connect_fine :: "envir \<Rightarrow> bool \<Rightarrow> srv_entry list \<Rightarrow> st \<Rightarrow> bool" where
  "connect_fine env have_ssl [] s = True"
| "connect_fine env have_ssl (sv # svs) s = (\<forall>s1. select_server have_ssl sv s = Some s1 \<longrightarrow>
     (\<forall>tend s2. logon_start env s1 = Some (tend, s2) \<longrightarrow> logon_fine env tend s2) \<and>
     (\<forall>s2. irc_connect env s1 = Some (False, s2) \<longrightarrow> connect_fine env have_ssl svs s2))"

abbreviation st_online :: "st \<Rightarrow> bool" where
  "st_online s \<equiv> co_online (ic_con (st_irc s))"

lemma upd_con_set_orc: "orc_of s = [] \<Longrightarrow> upd_con f (set_orc [] s) = upd_con f s"
  by (simp add: set_orc_same)

lemma select_plain:
  assumes "icat_sess s" "\<not> sv_ssl sv"
  obtains s1 where "select_server have_ssl sv s = Some s1" "icat_sess s1" "rx_left s1 \<le> rx_left s" "st_online s1 = st_online s"
proof -
  have o: "orc_of s = []" using assms(1) by (simp add: icat_sess_def sess_ok_def)
  let ?c = "(ic_con (st_irc s))\<lparr>co_host := sv_host sv, co_port := sv_port sv\<rparr>"
  let ?s1 = "upd_con (\<lambda>_. ?c) s"
  have s1: "snd (irc_set_server (Some (sv_host sv)) (sv_port sv) s) = ?s1"
    using o by (simp add: irc_set_server_def con_setter_def lsi_conn_set_server_def lsi_b_strdup_def upd_con_set_orc)
  obtain ok s2 where s2: "irc_set_ssl have_ssl False ?s1 = (ok, s2)" by fastforce
  have k1: "sess_kept s ?s1" by (simp add: view_simps Let_def)
  have k2: "sess_kept ?s1 s2" "st_online s2 = st_online ?s1"
    using s2 by (auto simp: irc_set_ssl_def st_conn_def lsi_conn_set_ssl_def view_simps Let_def sess_kept_refl split: if_splits)
  have k: "sess_kept s s2" by (rule sess_kept_trans [OF k1 k2(1)])
  have "st_online ?s1 = st_online s" by (simp add: upd_con_def upd_irc_def)
  then have r: "select_server have_ssl sv s = Some s2" "st_online s2 = st_online s" using s1 s2 assms(2) k2(2) by (simp_all add: select_server_def)
  show thesis by (rule that [OF r(1) icat_sess_kept [OF assms(1) k] _ r(2)]) (use k in \<open>simp add: sess_kept_def\<close>)
qed

lemma icat_connect:
  assumes s: "icat_sess s" "\<not> st_online s"
    and f: "\<And>tend s2. logon_start (icat_envir nenv mut) s = Some (tend, s2) \<Longrightarrow> logon_fine (icat_envir nenv mut) tend s2"
  obtains ok s' where "irc_connect (icat_envir nenv mut) s = Some (ok, s')" "icat_sess s'" "rx_left s' \<le> rx_left s" "\<not> ok \<longrightarrow> \<not> st_online s'"
proof -
  let ?env = "icat_envir nenv mut"
  have c: "co_ptype (ic_con (st_irc s)) = -1" "co_laddr (ic_con (st_irc s)) \<noteq> Freed" "ic_nick (st_irc s) \<noteq> None"
    using s(1) by (simp_all add: icat_sess_def icat_conf_def)
  note st = icat_sess_startable [OF s(1)]
  have h: "logon_harmless ?env tend s1" if l: "logon_start ?env s = Some (tend, s1)" for tend s1
  proof (rule icat_logon_harmless [OF _ f [OF l]])
    show "icat_sess s1" using logon_start_ok [OF st c(1,2) s(2) l] icat_conf_cong [of s1 s] s(1) by (simp add: icat_sess_def)
  qed
  obtain ok s' where r: "irc_connect ?env s = Some (ok, s')" "new_session s s'" "\<not> ok \<longrightarrow> \<not> st_online s'"
    using irc_connect_total [OF st c(1,2) s(2) c(3) h] by blast
  have "icat_sess s'" using r(2) s(1) icat_conf_cong [of s' s] by (simp add: icat_sess_def new_session_def icat_conf_def)
  then show thesis using that r by (simp add: new_session_def)
qed

section \<open>The operations of \<open>icat\<close>\<close>

text \<open>While \<open>icat\<close> is offline there is no connection.\<close>

definition off_ok :: "icat \<Rightarrow> bool" where
  "off_ok a \<longleftrightarrow> ia_on a \<or> \<not> st_online (ia_st a)"

definition ia_next :: "icat \<Rightarrow> icat \<Rightarrow> bool" where
  "ia_next a a' \<longleftrightarrow> ia_user a' = ia_user a \<and> ia_sig a' = ia_sig a \<and> g_srvlist (ia_sett a') = g_srvlist (ia_sett a) \<and>
     g_trgmode (ia_sett a') = g_trgmode (ia_sett a) \<and> (icat_sess (ia_st a) \<longrightarrow> icat_sess (ia_st a')) \<and>
     rx_left (ia_st a') \<le> rx_left (ia_st a) \<and> (off_ok a \<longrightarrow> off_ok a')"

lemma ia_next_refl: "ia_next a a"
  by (simp add: ia_next_def)

lemma ia_next_trans: "ia_next a b \<Longrightarrow> ia_next b c \<Longrightarrow> ia_next a c"
  by (auto simp: ia_next_def)

lemma ia_next_kept:
  assumes "sess_kept (ia_st a) (ia_st a')" "ia_user a' = ia_user a" "ia_sig a' = ia_sig a" "ia_sett a' = ia_sett a" "off_ok a \<Longrightarrow> off_ok a'"
  shows "ia_next a a'"
  using assms icat_sess_kept [OF _ assms(1)] by (auto simp: ia_next_def sess_kept_def)

text \<open>Assignments to the other variables\<close>

lemma ia_next_same:
  assumes "ia_st a' = ia_st a" "ia_user a' = ia_user a" "ia_sig a' = ia_sig a" "ia_on a' = ia_on a"
    "g_srvlist (ia_sett a') = g_srvlist (ia_sett a)" "g_trgmode (ia_sett a') = g_trgmode (ia_sett a)"
  shows "ia_next a a'"
  using assms by (simp add: ia_next_def off_ok_def)

lemma ia_next_upd:
  "ia_next a (a\<lparr>ia_quitat := t\<rparr>)" "ia_next a (a\<lparr>ia_outQ := q\<rparr>)" "ia_next a (a\<lparr>ia_nextsend := t\<rparr>)" "ia_next a (a\<lparr>ia_nexthb := t\<rparr>)"
  "ia_next a (a\<lparr>ia_gotpong := b\<rparr>)" "ia_next a (a\<lparr>ia_casemap := c\<rparr>)" "ia_next a (a\<lparr>ia_readcnt := n\<rparr>)" "ia_next a (a\<lparr>ia_writecnt := n\<rparr>)"
  "ia_next a (a\<lparr>ia_stdout := x\<rparr>)" "ia_next a (a\<lparr>ia_slept := y\<rparr>)" "ia_next a (use_freeline a)"
  by (rule ia_next_same; simp add: use_freeline_def)+

lemmas ia_next_then = ia_next_trans [OF _ ia_next_upd(1)] ia_next_trans [OF _ ia_next_upd(2)] ia_next_trans [OF _ ia_next_upd(3)]
  ia_next_trans [OF _ ia_next_upd(4)] ia_next_trans [OF _ ia_next_upd(5)] ia_next_trans [OF _ ia_next_upd(11)]

lemma tstamp_next: "ia_tstamp a = (t, a') \<Longrightarrow> ia_next a a' \<and> ia_on a' = ia_on a"
  by (auto simp: ia_tstamp_def lsi_b_tstamp_us_def Let_def off_ok_def view_simps left_def rx_bytes_def
      intro!: ia_next_kept split: list.splits prod.splits)

lemma irc_write_offline:
  assumes "irc_write line s = (ok, s')"
  shows "\<not> ok \<Longrightarrow> \<not> st_online s'" "\<not> st_online s \<Longrightarrow> \<not> st_online s'"
  using assms reset_offline
  by (auto simp: irc_write_def st_write_def st_conn_def lsi_conn_write_def lsi_conn_write_raw_def Let_def split: if_splits prod.splits)

lemma to_srv_next:
  assumes "to_srv line a = (ok, a')"
  shows "ia_next a a'" "ia_on a' = ia_on a" "\<not> ok \<Longrightarrow> \<not> st_online (ia_st a')"
proof -
  obtain s where s: "irc_write line (ia_st a) = (ok, s)" "a' = a\<lparr>ia_st := s\<rparr>" using assms by (auto simp: to_srv_def split: prod.splits)
  show "ia_next a a'"
    by (rule ia_next_kept) (use s irc_write_kept [OF s(1)] irc_write_offline(2) [OF s(1)] in \<open>auto simp: off_ok_def\<close>)
  show "ia_on a' = ia_on a" "\<not> ok \<Longrightarrow> \<not> st_online (ia_st a')" using s irc_write_offline(1) [OF s(1)] by simp_all
qed

lemma set_offline: "ia_next a b \<Longrightarrow> \<not> st_online (ia_st b) \<Longrightarrow> ia_next a (b\<lparr>ia_on := False\<rparr>)"
  by (simp add: ia_next_def off_ok_def)

lemma printf_next:
  assumes "icat_sess (ia_st a)"
  obtains a' where "icat_serv_printf txt a = Some a'" "ia_next a a'" "ia_on a' = ia_on a"
proof -
  have o: "orc_of (ia_st a) = []" using assms by (simp add: icat_sess_def sess_ok_def)
  have "st_malloc (ia_st a) = (True, ia_st a)" using o by (cases "ia_st a"; cases "st_hp (ia_st a)") (simp add: st_malloc_def orc_of_def)
  then have "icat_serv_printf txt a = Some (a\<lparr>ia_st := ia_st a, ia_outQ := ia_outQ a @ [ncpy 1024 txt]\<rparr>)"
    using strdup_unlimited [OF o] by (simp add: icat_serv_printf_def)
  then show thesis by (rule that) (rule ia_next_same, simp_all)
qed

lemma sendq_due_next: "sendq_due a = (due, a') \<Longrightarrow> ia_next a a'"
  by (auto simp: sendq_due_def ia_next_refl dest: tstamp_next split: if_splits prod.splits)

lemma note_quit_next: "ia_next a (note_quit line a)"
proof -
  obtain t a1 where t: "ia_tstamp a = (t, a1)" by fastforce
  have "ia_next a (a1\<lparr>ia_quitat := t\<rparr>)" using tstamp_next [OF t] ia_next_then(1) by blast
  then show ?thesis using t by (simp add: note_quit_def ia_next_refl)
qed

lemma process_sendq_next:
  assumes "process_sendq a = (r, a')"
  shows "ia_next a a'"
proof (cases "ia_outQ a")
  case Nil
  then show ?thesis using assms by (simp add: process_sendq_def ia_next_refl)
next
  case (Cons line rest)
  obtain due a1 where d: "sendq_due a = (due, a1)" by fastforce
  obtain ok a2 where w: "to_srv line a1 = (ok, a2)" by fastforce
  let ?a3 = "use_freeline (note_quit line (a2\<lparr>ia_outQ := rest\<rparr>))"
  obtain t a4 where t: "ia_tstamp ?a3 = (t, a4)" by fastforce
  have n2: "ia_next a a2" by (rule ia_next_trans [OF sendq_due_next [OF d] to_srv_next(1) [OF w]])
  have n3: "ia_next a ?a3" by (rule ia_next_then(6) [OF ia_next_trans [OF ia_next_then(2) [OF n2] note_quit_next]])
  have n5: "ia_next a (a4\<lparr>ia_nextsend := v\<rparr>)" for v by (rule ia_next_then(3) [OF ia_next_trans [OF n3 conjunct1 [OF tstamp_next [OF t]]]])
  show ?thesis
    using assms Cons d w t n5 sendq_due_next [OF d] set_offline [OF n2] to_srv_next(3) [OF w]
    by (auto simp: process_sendq_def Let_def split: if_splits)
qed

lemma heartbeat_next:
  assumes "do_heartbeat a = (ok, a')"
  shows "ia_next a a'"
proof -
  obtain due a1 where d: "hb_due a = (due, a1)" by fastforce
  have n1: "ia_next a a1" using d by (auto simp: hb_due_def ia_next_refl dest: tstamp_next split: if_splits prod.splits)
  have "sess_kept (ia_st a1) (irc_reset (ia_st a1))" by (rule irc_reset_kept)
  then have "ia_next a1 (a1\<lparr>ia_st := irc_reset (ia_st a1), ia_on := False\<rparr>)"
    by (intro ia_next_kept) (simp_all add: off_ok_def reset_offline)
  then have nr: "ia_next a (a1\<lparr>ia_st := irc_reset (ia_st a1), ia_on := False\<rparr>)" by (rule ia_next_trans [OF n1])
  obtain t a2 where t: "ia_tstamp (a1\<lparr>ia_gotpong := False\<rparr>) = (t, a2)" by fastforce
  have n3: "ia_next a (a2\<lparr>ia_nexthb := v\<rparr>)" for v
    by (rule ia_next_then(4) [OF ia_next_trans [OF ia_next_then(5) [OF n1] conjunct1 [OF tstamp_next [OF t]]]])
  let ?a3 = "a2\<lparr>ia_nexthb := t + g_hbeat_us (ia_sett a2)\<rparr>"
  obtain ok4 a4 where w: "to_srv (ncpy 512 (''PING '' @ irc_myhost (ia_irc a1) @ crlf)) ?a3 = (ok4, a4)" by fastforce
  have n4: "ia_next a a4" by (rule ia_next_trans [OF n3 to_srv_next(1) [OF w]])
  show ?thesis
    using assms d t w n1 nr n4 set_offline [OF n4] to_srv_next(3) [OF w] by (auto simp: do_heartbeat_def Let_def split: if_splits)
qed

section \<open>The parts of a turn\<close>

definition icat_ok :: "icat \<Rightarrow> bool" where
  "icat_ok a \<longleftrightarrow> icat_sess (ia_st a) \<and> off_ok a \<and> ub_ok (ia_user a) \<and> cstr_ok (ub_stream (ia_user a)) \<and>
     list_all (\<lambda>sv. \<not> sv_ssl sv) (g_srvlist (ia_sett a)) \<and> sig_safe (ia_sig a)"

text \<open>What a turn does to the input: no more of it, and nothing of nothing.\<close>

definition ia_step :: "icat \<Rightarrow> icat \<Rightarrow> bool" where
  "ia_step a a' \<longleftrightarrow> icat_ok a' \<and> rx_left (ia_st a') \<le> rx_left (ia_st a) \<and> g_trgmode (ia_sett a') = g_trgmode (ia_sett a) \<and>
     (ub_stream (ia_user a) = [] \<longrightarrow> ub_stream (ia_user a') = [])"

lemma ia_step_next: "icat_ok a \<Longrightarrow> ia_next a a' \<Longrightarrow> ia_step a a'"
  by (simp add: ia_step_def icat_ok_def ia_next_def)

lemma ia_step_trans: "ia_step a b \<Longrightarrow> ia_step b c \<Longrightarrow> ia_step a c"
  by (auto simp: ia_step_def)

lemma ia_step_ok: "ia_step a b \<Longrightarrow> icat_ok b"
  by (simp add: ia_step_def)

subsection \<open>The server\<close>

definition server_fine :: "icat \<Rightarrow> bool" where
  "server_fine a \<longleftrightarrow> (\<forall>msg tags s1. st_conn_read (Some MAX_V3TAGS) 1 (read_start (ia_st a)) = Some (1, msg, tags, s1) \<longrightarrow> \<not> msg_crash msg)"

lemma icat_next_harmless:
  assumes "icat_sess (ia_st a)" "server_fine a"
  shows "next_harmless (icat_envir nenv mut) 1 (ia_st a)"
  unfolding next_harmless_def
proof (intro allI impI)
  fix msg tags s1
  assume r: "st_conn_read (Some MAX_V3TAGS) 1 (read_start (ia_st a)) = Some (1, msg, tags, s1)" and m: "tokarr_ok msg"
  have s0: "icat_sess (read_start (ia_st a))" by (rule icat_sess_kept [OF assms(1) tags_kept(1)])
  then have "rx_ok (rctx_of (read_start (ia_st a)))" by (simp add: icat_sess_def sess_ok_def)
  then obtain r' msg' tags' s1' where "st_conn_read (Some MAX_V3TAGS) 1 (read_start (ia_st a)) = Some (r', msg', tags', s1')"
    "sess_kept (read_start (ia_st a)) s1'" by (rule st_conn_read_total)
  then have "icat_sess s1" using r icat_sess_kept [OF s0] by simp
  moreover have "\<not> msg_crash msg" using assms(2) r unfolding server_fine_def by blast
  ultimately show "harmless (icat_envir nenv mut) msg False s1" using icat_harmless m by blast
qed

lemma irc_read_msg:
  assumes "irc_read env to_us s = Some (1, msg, s')" "sess_ok s"
  shows "\<exists>tags s1. st_conn_read (Some MAX_V3TAGS) to_us (read_start s) = Some (1, msg, tags, s1)"
proof -
  have "rx_ok (rctx_of (read_start s))" using sess_ok_kept [OF assms(2) tags_kept(1)] by (simp add: sess_ok_def)
  then obtain r m tags s1 where r: "st_conn_read (Some MAX_V3TAGS) to_us (read_start s) = Some (r, m, tags, s1)" "r \<in> {1, 0, -1}"
    by (rule st_conn_read_total)
  then have "r = 1 \<and> m = msg" using assms(1) unfolding irc_read_def Let_def read_start_def [symmetric]
    by (auto simp: bind_eq_Some_conv split: if_splits)
  with r(1) have "st_conn_read (Some MAX_V3TAGS) to_us (read_start s) = Some (1, msg, tags, s1)" by simp
  then show ?thesis by blast
qed

lemma handle_ircmsg_next:
  assumes "tk msg 1 = Some ''PRIVMSG''" "\<not> msg_crash msg"
  obtains a' where "handle_ircmsg msg a = Some a'" "ia_next a a'" "ia_on a' = ia_on a"
proof (cases "tk msg 0")
  case None
  then show thesis by (intro that [of a]) (simp_all add: handle_ircmsg_def ia_next_refl)
next
  case (Some pfx)
  then obtain dst line where f: "tk msg 2 = Some dst" "tk msg 3 = Some line" using assms by (auto simp: msg_crash_def)
  let ?a = "a\<lparr>ia_readcnt := ia_readcnt a + 1\<rparr>"
  have "ia_next a (icat_user_printf x ?a)" for x
    by (simp add: icat_user_printf_def) (rule ia_next_trans [OF ia_next_upd(7) ia_next_upd(9)])
  moreover have "ia_on (icat_user_printf x ?a) = ia_on a" for x by (simp add: icat_user_printf_def)
  moreover note ia_next_upd(7) [of a "ia_readcnt a + 1"]
  moreover have "handle_ircmsg msg a = Some ?a \<or> (\<exists>x. handle_ircmsg msg a = Some (icat_user_printf x ?a))"
    using Some f by (auto simp: handle_ircmsg_def Let_def)
  ultimately show thesis using that by auto
qed

lemma core_server_step:
  assumes ok: "icat_ok a" and f: "ia_on a \<Longrightarrow> server_fine a"
  obtains more idle a1 where "core_server (icat_envir nenv mut) a = Some (more, idle, a1)" "ia_next a a1"
proof (cases "ia_on a")
  case False
  then show thesis by (intro that [of True True a]) (simp_all add: core_server_def ia_next_refl)
next
  case on: True
  let ?env = "icat_envir nenv mut"
  have s: "icat_sess (ia_st a)" using ok by (simp add: icat_ok_def)
  then have so: "sess_ok (ia_st a)" by (simp add: icat_sess_def)
  obtain r msg s1 where r: "irc_read ?env 1 (ia_st a) = Some (r, msg, s1)" "sess_next (ia_st a) s1" "r \<in> {1, 0, -1}"
    by (rule irc_read_next [OF so icat_next_harmless [OF s f [OF on]]])
  let ?a = "handlers_effect r msg (a\<lparr>ia_st := s1\<rparr>)"
  have "ia_next a (a\<lparr>ia_st := s1\<rparr>)"
    using icat_sess_next [OF s r(2)] r(2) on by (simp add: ia_next_def off_ok_def sess_next_def)
  then have n1: "ia_next a ?a" using ia_next_trans ia_next_upd(5,6) unfolding handlers_effect_def by (simp add: ia_next_then(5))
  have on1: "ia_on ?a" "ia_st ?a = s1" using on by (simp_all add: handlers_effect_def)
  have off: "\<not> st_online s1" if "r = -1" using irc_read_outcome [OF r(1)] that by blast
  have rd: "icat_serv_read ?env 1 a = Some (r, msg, if r = -1 then ?a\<lparr>ia_on := False\<rparr> else ?a)"
    using on r(1) by (simp add: icat_serv_read_def Let_def)
  consider "r = -1" | "r = 0" | "r = 1" using r(3) by blast
  then show thesis
  proof cases
    case 1
    then show thesis using that [of False True "?a\<lparr>ia_on := False\<rparr>"] rd on set_offline [OF n1] off on1 by (simp add: core_server_def)
  next
    case 2
    then show thesis using that [of True True ?a] rd on n1 by (simp add: core_server_def)
  next
    case 3
    then obtain tags s' where "st_conn_read (Some MAX_V3TAGS) 1 (read_start (ia_st a)) = Some (1, msg, tags, s')"
      using r(1) irc_read_msg so by blast
    then have nc: "\<not> msg_crash msg" using f [OF on] unfolding server_fine_def by blast
    show thesis
    proof (cases "tk msg 1 = Some ''PRIVMSG''")
      case True
      obtain a2 where a2: "handle_ircmsg msg ?a = Some a2" "ia_next ?a a2" by (rule handle_ircmsg_next [OF True nc])
      show thesis by (rule that [of True False a2]) (use 3 rd on True a2 ia_next_trans [OF n1] in \<open>simp_all add: core_server_def\<close>)
    next
      case False
      then show thesis using that [of True False ?a] 3 rd on n1 by (simp add: core_server_def)
    qed
  qed
qed

subsection \<open>The user\<close>

lemma say_line_next:
  assumes "icat_sess (ia_st a)" "g_trgmode (ia_sett a) \<Longrightarrow> split_target line ended \<noteq> None"
  obtains a' where "say_line line ended a = Some a'" "ia_next a a'"
proof -
  let ?d = "if g_trgmode (ia_sett a) then split_target line ended else Some (g_chanlist (ia_sett a), line)"
  obtain dst msg where d: "?d = Some (dst, msg)" using assms(2) by (cases "g_trgmode (ia_sett a)") auto
  obtain a' where "icat_serv_printf ((if g_notices (ia_sett a) then ''NOTICE'' else ''PRIVMSG'') @ '' '' @ dst @ '' :'' @ msg) a = Some a'"
    "ia_next a a'" by (rule printf_next [OF assms(1)])
  then show thesis using d that by (simp add: say_line_def Let_def)
qed

lemma handle_usermsg_next:
  assumes s: "icat_sess (ia_st a)"
    and f: "g_trgmode (ia_sett a) \<Longrightarrow> strip_eol inp = [] \<or> split_target (strip_eol inp) (strip_eol inp \<noteq> inp) \<noteq> None"
  obtains a' where "handle_usermsg inp a = Some a'" "ia_next a a'"
proof -
  let ?a = "a\<lparr>ia_writecnt := ia_writecnt a + 1\<rparr>"
  have n: "ia_next a ?a" by (rule ia_next_upd(8))
  have s1: "icat_sess (ia_st ?a)" using s by simp
  note pr = printf_next [OF s1]
  show thesis
  proof (cases "strip_eol inp = []")
    case True
    then show thesis using n that by (simp add: handle_usermsg_def Let_def)
  next
    case False
    have sp: "split_target (strip_eol inp) (strip_eol inp \<noteq> inp) \<noteq> None" if "g_trgmode (ia_sett ?a)" using f False that by simp
    obtain a2 where a2: "say_line (strip_eol inp) (strip_eol inp \<noteq> inp) ?a = Some a2" "ia_next ?a a2" by (rule say_line_next [OF s1 sp])
    show thesis
    proof (cases "g_esc (ia_sett ?a)")
      case None
      then show thesis using a2 False ia_next_trans [OF n a2(2)] that by (simp add: handle_usermsg_def Let_def)
    next
      case (Some e)
      obtain a3 where a3: "icat_serv_printf (drop (length e) (strip_eol inp)) ?a = Some a3" "ia_next ?a a3" by (rule pr)
      then show thesis using a2 False Some ia_next_trans [OF n a2(2)] ia_next_trans [OF n a3(2)] that
        by (cases "has_prefix e (strip_eol inp)") (simp_all add: handle_usermsg_def Let_def)
    qed
  qed
qed

lemma user_moved:
  assumes "icat_ok a" "ub_ok u" "ub_stream (ia_user a) = pre @ ub_stream u"
  shows "ia_step a (a\<lparr>ia_user := u\<rparr>)"
proof -
  have "cstr_ok (ub_stream u)" using assms(1,3) by (simp add: icat_ok_def)
  then show ?thesis using assms by (simp add: ia_step_def icat_ok_def off_ok_def)
qed

lemma core_user_step:
  assumes ok: "icat_ok a" and f: "\<not> ignoreuser \<Longrightarrow> typed_fine (ia_sett a) (ia_user a)"
  obtains typed ign a1 where "core_user ignoreuser a = Some (typed, ign, a1)" "ia_step a a1"
proof (cases ignoreuser)
  case True
  then show thesis using ia_step_next [OF ok ia_next_refl] by (intro that [of False True a]) (simp_all add: core_user_def)
next
  case False
  have tf: "length (ub_pend (ia_user a)) < BUFSZ \<or> newline \<in> set (ub_pend (ia_user a))" using f False by (simp add: typed_fine_def)
  have u: "ub_ok (ia_user a)" "cstr_ok (ub_stream (ia_user a))" using ok by (simp_all add: icat_ok_def)
  obtain can u1 where u1: "icat_user_canread (ia_user a) = Some (can, u1)" "ub_ok u1" "ub_stream u1 = ub_stream (ia_user a)"
    using canread_spec [OF u tf] by blast
  have m1: "ia_step a (a\<lparr>ia_user := u1\<rparr>)" by (rule user_moved [OF ok u1(2), of "[]"]) (simp add: u1(3))
  show thesis
  proof (cases can)
    case True
    from readline_takes_line [OF u _ _ tf, of u1 1024] u1(1) True obtain line rest u2 where l: "newline \<notin> set line"
      "ub_stream (ia_user a) = line @ newline # rest"
      "icat_user_readline 1024 u1 = Some (length line + 1, take 1023 (line @ [newline]), u2)" "ub_ok u2" "ub_stream u2 = rest" by auto
    have m2: "ia_step a (a\<lparr>ia_user := u2\<rparr>)" by (rule user_moved [OF ok l(4), of "line @ [newline]"]) (simp add: l(2,5))
    have s2: "icat_sess (ia_st (a\<lparr>ia_user := u2\<rparr>))" using ok by (simp add: icat_ok_def)
    let ?ln = "take 1023 (line @ [newline])"
    have sp: "g_trgmode (ia_sett (a\<lparr>ia_user := u2\<rparr>)) \<Longrightarrow> strip_eol ?ln = [] \<or> split_target (strip_eol ?ln) (strip_eol ?ln \<noteq> ?ln) \<noteq> None"
      using f False l(1,2) by (simp add: typed_fine_def)
    obtain a1 where a1: "handle_usermsg ?ln (a\<lparr>ia_user := u2\<rparr>) = Some a1" "ia_next (a\<lparr>ia_user := u2\<rparr>) a1"
      by (rule handle_usermsg_next [OF s2 sp])
    have "ia_step a a1" by (rule ia_step_trans [OF m2 ia_step_next [OF ia_step_ok [OF m2] a1(2)]])
    then show thesis by (rule that [rotated]) (use False True u1(1) l(3) a1(1) in \<open>simp add: core_user_def\<close>)
  next
    case no: False
    have s1: "icat_sess (ia_st (a\<lparr>ia_user := u1\<rparr>))" using ok by (simp add: icat_ok_def)
    obtain a1 where a1: "icat_serv_printf (''QUIT :'' @ g_qmsg (ia_sett a) @ crlf) (a\<lparr>ia_user := u1\<rparr>) = Some a1"
      "ia_next (a\<lparr>ia_user := u1\<rparr>) a1" by (rule printf_next [OF s1])
    have "ia_step a a1" by (rule ia_step_trans [OF m1 ia_step_next [OF ia_step_ok [OF m1] a1(2)]])
    then show thesis using m1 False no u1(1) a1(1) that by (cases "icat_user_eof u1") (simp_all add: core_user_def)
  qed
qed

lemma core_leave_next: "core_leave a = (leave, a') \<Longrightarrow> ia_next a a'"
  by (auto simp: core_leave_def ia_next_refl Let_def dest: tstamp_next split: if_splits prod.splits)

subsection \<open>Connecting again, and waiting\<close>

lemma serv_join_next: "ia_next a (serv_join a)"
proof -
  obtain ok a1 where w: "to_srv (ncpy (2 * MAX_CHANLIST + 9) (''JOIN '' @ g_chanlist (ia_sett a) @ '' '' @ g_keylist (ia_sett a) @ crlf)) a = (ok, a1)"
    by fastforce
  from to_srv_next(1) [OF w] show ?thesis using w by (simp add: serv_join_def Let_def ia_next_refl)
qed

text \<open>From an offline session on, \<open>tryconnect\<close> returns, and is offline when it fails.\<close>

definition fresh_try :: "icat \<Rightarrow> icat \<Rightarrow> bool" where
  "fresh_try a a' \<longleftrightarrow> icat_sess (ia_st a') \<and> rx_left (ia_st a') \<le> rx_left (ia_st a) \<and> ia_user a' = ia_user a \<and> ia_sig a' = ia_sig a \<and>
     ia_sett a' = ia_sett a \<and> ia_on a' = ia_on a"

lemma tryconnect_safe:
  "icat_sess (ia_st a) \<Longrightarrow> \<not> st_online (ia_st a) \<Longrightarrow> list_all (\<lambda>sv. \<not> sv_ssl sv) svs \<Longrightarrow>
   connect_fine (icat_envir nenv mut) have_ssl svs (ia_st a) \<Longrightarrow>
   \<exists>ok a'. tryconnect (icat_envir nenv mut) have_ssl svs a = Some (ok, a') \<and> fresh_try a a' \<and> (\<not> ok \<longrightarrow> \<not> st_online (ia_st a'))"
proof (induction svs arbitrary: a)
  case Nil
  then show ?case by (intro exI [of _ False] exI [of _ a]) (simp add: fresh_try_def)
next
  case (Cons sv svs)
  let ?env = "icat_envir nenv mut"
  have plain: "\<not> sv_ssl sv" "list_all (\<lambda>sv. \<not> sv_ssl sv) svs" using Cons.prems(3) by simp_all
  obtain s1 where s1: "select_server have_ssl sv (ia_st a) = Some s1" "icat_sess s1" "rx_left s1 \<le> rx_left (ia_st a)"
    "st_online s1 = st_online (ia_st a)" by (rule select_plain [OF Cons.prems(1) plain(1)])
  have f: "logon_start ?env s1 = Some (tend, s2) \<Longrightarrow> logon_fine ?env tend s2" for tend s2 using Cons.prems(4) s1(1) by simp
  have off1: "\<not> st_online s1" using s1(4) Cons.prems(2) by simp
  obtain ok s2 where s2: "irc_connect ?env s1 = Some (ok, s2)" "icat_sess s2" "rx_left s2 \<le> rx_left s1" "\<not> ok \<longrightarrow> \<not> st_online s2"
    by (rule icat_connect [OF s1(2) off1 f])
  let ?a1 = "a\<lparr>ia_st := s2\<rparr>"
  have t1: "fresh_try a ?a1" using s2(2,3) s1(3) by (simp add: fresh_try_def)
  show ?case
  proof (cases ok)
    case True
    obtain t a2 where t: "ia_tstamp ?a1 = (t, a2)" by fastforce
    let ?a3 = "a2\<lparr>ia_nexthb := t + g_hbeat_us (ia_sett a2), ia_gotpong := True\<rparr>"
    have a2: "ia_sett a2 = ia_sett a" using t by (auto simp: ia_tstamp_def split: prod.splits)
    have n: "ia_next ?a1 (serv_join ?a3)"
      by (rule ia_next_trans [OF ia_next_then(5) [OF ia_next_then(4) [OF conjunct1 [OF tstamp_next [OF t]]]] serv_join_next])
    have "ia_on (serv_join ?a3) = ia_on a" "ia_sett (serv_join ?a3) = ia_sett a"
      using to_srv_next(2) t a2 by (auto simp: serv_join_def to_srv_def ia_tstamp_def Let_def split: prod.splits)
    then have "fresh_try a (serv_join ?a3)" using n t1 by (simp add: fresh_try_def ia_next_def)
    moreover have "tryconnect ?env have_ssl (sv # svs) a = Some (True, serv_join ?a3)" using s1(1) s2(1) True t by simp
    ultimately show ?thesis by blast
  next
    case False
    have "connect_fine ?env have_ssl svs (ia_st ?a1)" using Cons.prems(4) s1(1) s2(1) False by simp
    from Cons.IH [OF _ _ plain(2) this] s2(2,4) False obtain ok' a' where
      a': "tryconnect ?env have_ssl svs ?a1 = Some (ok', a')" "fresh_try ?a1 a'" "\<not> ok' \<longrightarrow> \<not> st_online (ia_st a')" by auto
    have "fresh_try a a'" using a'(2) t1 by (simp add: fresh_try_def)
    moreover have "tryconnect ?env have_ssl (sv # svs) a = Some (ok', a')" using s1(1) s2(1) False a'(1) by simp
    ultimately show ?thesis using a'(3) by blast
  qed
qed

definition operate_fine :: "envir \<Rightarrow> bool \<Rightarrow> icat \<Rightarrow> bool" where
  "operate_fine env have_ssl a \<longleftrightarrow> (\<not> ia_on a \<longrightarrow> connect_fine env have_ssl (g_srvlist (ia_sett a)) (ia_st (snd (ia_tstamp a))))"

lemma operate_step:
  assumes ok: "icat_ok a" and f: "\<not> ia_on a \<longrightarrow> connect_fine (icat_envir nenv mut) have_ssl (g_srvlist (ia_sett a)) (ia_st a)"
  obtains r a' where "icat_serv_operate (icat_envir nenv mut) have_ssl a = Some (r, a')" "ia_step a a'"
proof (cases "ia_on a")
  case True
  obtain r a1 where q: "process_sendq a = (r, a1)" by fastforce
  obtain ok2 a2 where h: "do_heartbeat a1 = (ok2, a2)" by fastforce
  have n1: "ia_step a a1" by (rule ia_step_next [OF ok process_sendq_next [OF q]])
  have n2: "ia_step a a2" by (rule ia_step_trans [OF n1 ia_step_next [OF ia_step_ok [OF n1] heartbeat_next [OF h]]])
  show thesis using that [of False a1] that [of ok2 a2] True q h n1 n2 by (cases "r = -1") (simp_all add: icat_serv_operate_def)
next
  case False
  have i: "icat_sess (ia_st a)" "\<not> st_online (ia_st a)" "list_all (\<lambda>sv. \<not> sv_ssl sv) (g_srvlist (ia_sett a))"
    using ok False by (simp_all add: icat_ok_def off_ok_def)
  from tryconnect_safe [OF i] f False obtain r a1 where
    a1: "tryconnect (icat_envir nenv mut) have_ssl (g_srvlist (ia_sett a)) a = Some (r, a1)" "fresh_try a a1" "\<not> r \<longrightarrow> \<not> st_online (ia_st a1)" by blast
  let ?a' = "if r then a1\<lparr>ia_on := True\<rparr> else a1"
  have st: "ia_step a ?a'" using a1(2,3) ok by (cases r) (simp_all add: ia_step_def icat_ok_def fresh_try_def off_ok_def)
  show thesis
  proof (cases "ia_quitat a = 0")
    case True
    then show thesis using that [of r ?a'] st False a1(1) by (cases r) (simp_all add: icat_serv_operate_def)
  next
    case no: False
    then show thesis using that [of True a] False ia_step_next [OF ok ia_next_refl] by (simp add: icat_serv_operate_def)
  qed
qed

lemma core_operate_step:
  assumes ok: "icat_ok a" and f: "operate_fine (icat_envir nenv mut) have_ssl a"
  obtains failed nextop' a' where "core_operate (icat_envir nenv mut) have_ssl nextop a = Some (failed, nextop', a')" "ia_step a a'"
proof -
  obtain t a1 where t: "ia_tstamp a = (t, a1)" by fastforce
  note n1 = ia_step_next [OF ok conjunct1 [OF tstamp_next [OF t]]]
  have a1: "ia_sett a1 = ia_sett a" "ia_on a1 = ia_on a" using t by (auto simp: ia_tstamp_def split: prod.splits)
  have "\<not> ia_on a1 \<longrightarrow> connect_fine (icat_envir nenv mut) have_ssl (g_srvlist (ia_sett a1)) (ia_st a1)"
    using f t a1 by (simp add: operate_fine_def)
  with ia_step_ok [OF n1] obtain r a2 where a2: "icat_serv_operate (icat_envir nenv mut) have_ssl a1 = Some (r, a2)" "ia_step a1 a2"
    by (rule operate_step)
  note n2 = ia_step_trans [OF n1 a2(2)]
  obtain t2 a3 where t2: "ia_tstamp a2 = (t2, a3)" by fastforce
  have n3: "ia_step a a3" by (rule ia_step_trans [OF n2 ia_step_next [OF ia_step_ok [OF n2] conjunct1 [OF tstamp_next [OF t2]]]])
  note th = that [of False nextop a1] that [of False nextop a2] that [of True nextop a2] that [of True "t2 + g_cfwait_us (ia_sett a3)" a3]
  show thesis using t a2(1) t2 n1 n2 n3 th by (cases "nextop \<le> t"; cases r; cases "ia_on a") (simp_all add: core_operate_def)
qed

lemma core_wait_next: "ia_next a (core_wait tquit idle a)"
proof -
  obtain t a1 where t: "ia_tstamp a = (t, a1)" by fastforce
  have sl: "ia_next b (ia_usleep us b)" for us b by (simp add: ia_usleep_def ia_next_upd)
  have sc: "ia_next a1 (a1\<lparr>ia_st := (ia_st a1)\<lparr>st_net := w\<lparr>nt_to := x\<rparr>\<rparr>\<rparr>)" if "sys_call (st_net (ia_st a1)) = (ok, w)" for ok w x
    using that by (intro ia_next_kept) (auto simp: view_simps left_def rx_bytes_def sys_call_def off_ok_def Let_def split: list.splits prod.splits)
  note n1 = conjunct1 [OF tstamp_next [OF t]]
  obtain ok w where w: "sys_call (st_net (ia_st a1)) = (ok, w)" by fastforce
  show ?thesis
    using t w sl [of a] n1 ia_next_trans [OF n1 sc [OF w]] ia_next_trans [OF ia_next_trans [OF n1 sc [OF w]] sl]
    by (simp add: core_wait_def ia_next_refl Let_def split: option.split)
qed

section \<open>A round of the main loop\<close>

text \<open>What server and user send is fine in every part of the turn.\<close>

definition turn_fine :: "envir \<Rightarrow> bool \<Rightarrow> bool \<Rightarrow> icat \<Rightarrow> bool" where
  "turn_fine env have_ssl ignoreuser a \<longleftrightarrow> (ia_on a \<longrightarrow> server_fine a) \<and>
     (\<forall>idle a1. core_server env a = Some (True, idle, a1) \<longrightarrow> (\<not> ignoreuser \<longrightarrow> typed_fine (ia_sett a1) (ia_user a1)) \<and>
        (\<forall>typed ign a2 a3. core_user ignoreuser a1 = Some (typed, ign, a2) \<longrightarrow> core_leave a2 = (False, a3) \<longrightarrow> operate_fine env have_ssl a3))"

lemma core_turn_step:
  assumes ok: "icat_ok a" and f: "turn_fine (icat_envir nenv mut) have_ssl ignoreuser a"
  obtains more ign nextop' a' where "core_turn (icat_envir nenv mut) have_ssl ignoreuser nextop a = Some (more, ign, nextop', a')" "ia_step a a'"
proof -
  let ?env = "icat_envir nenv mut"
  note fd = f [unfolded turn_fine_def]
  have "ia_on a \<Longrightarrow> server_fine a" using fd by blast
  then obtain more idle a1 where a1: "core_server ?env a = Some (more, idle, a1)" "ia_next a a1" by (rule core_server_step [OF ok])
  note s1 = ia_step_next [OF ok a1(2)]
  show thesis
  proof (cases more)
    case False
    then show thesis using a1(1) s1 by (intro that [of True ignoreuser nextop a1]) (simp_all add: core_turn_def)
  next
    case True
    then have a1t: "core_server ?env a = Some (True, idle, a1)" using a1(1) by simp
    have "\<not> ignoreuser \<Longrightarrow> typed_fine (ia_sett a1) (ia_user a1)" using fd a1t by blast
    then obtain typed ign a2 where a2: "core_user ignoreuser a1 = Some (typed, ign, a2)" "ia_step a1 a2"
      by (rule core_user_step [OF ia_step_ok [OF s1]])
    note s2 = ia_step_trans [OF s1 a2(2)]
    obtain leave a3 where a3: "core_leave a2 = (leave, a3)" by fastforce
    note s3 = ia_step_trans [OF s2 ia_step_next [OF ia_step_ok [OF s2] core_leave_next [OF a3]]]
    show thesis
    proof (cases leave)
      case True
      then show thesis using \<open>more\<close> a1(1) a2(1) a3 s3 by (intro that [of False ign nextop a3]) (simp_all add: core_turn_def)
    next
      case False
      then have "core_leave a2 = (False, a3)" using a3 by simp
      then have "operate_fine ?env have_ssl a3" using fd a1t a2(1) by blast
      then obtain failed nextop' a4 where a4: "core_operate ?env have_ssl nextop a3 = Some (failed, nextop', a4)" "ia_step a3 a4"
        by (rule core_operate_step [OF ia_step_ok [OF s3]])
      note s4 = ia_step_trans [OF s3 a4(2)]
      let ?w = "core_wait (ia_quitat a2) (idle \<and> \<not> typed \<and> \<not> failed) a4"
      have "ia_step a ?w" by (rule ia_step_trans [OF s4 ia_step_next [OF ia_step_ok [OF s4] core_wait_next]])
      then show thesis using \<open>more\<close> a1(1) a2(1) a3 a4(1) False by (intro that [of True ign nextop' ?w]) (simp_all add: core_turn_def)
    qed
  qed
qed

text \<open>Signals and the dump they ask for\<close>

lemma signals_step:
  assumes "icat_ok a"
  obtains a' where "ia_signals sc a = Some a'" "ia_step a a'"
proof -
  have "sig_safe (ia_sig a)" using assms by (simp add: icat_ok_def)
  then obtain g where "next_signals (sighnd sc) (ia_sig a) = Some g" "sig_safe g"
    by (rule next_signals_safe [OF handlers_set_flags(1)])
  then show thesis using assms by (intro that [of "a\<lparr>ia_sig := g\<rparr>"]) (simp_all add: ia_signals_def ia_step_def icat_ok_def off_ok_def)
qed

lemma info_step:
  assumes "icat_ok a"
  obtains a' where "core_info a = Some a'" "ia_step a a'"
proof (cases "sg_info (ia_sig a)")
  case False
  then show thesis using ia_step_next [OF assms ia_next_refl] by (intro that [of a]) (simp_all add: core_info_def)
next
  case True
  define a1 where "a1 = a\<lparr>ia_stderr := ia_stderr a @
     [''icat: '' @ (if ia_on a then ''on'' else ''off'') @ ''line; read '' @ dec (unat (ia_readcnt a)) @ ''ln wrote '' @
      dec (unat (ia_writecnt a)) @ ''ln'' @ [newline]]\<rparr>"
  let ?d = "\<lparr>dm_st = ia_st a1, dm_dangling = {}, dm_out = ia_dumped a1\<rparr>"
  have "\<not> ic_tracking_enab (st_irc (dm_st ?d))" using assms by (simp add: a1_def icat_ok_def icat_sess_def)
  then obtain d where d: "irc_dump ?d = Some d" "dm_st d = ia_st a" by (rule irc_dump_idle) (simp add: a1_def)
  let ?a2 = "a1\<lparr>ia_st := dm_st d, ia_dumped := dm_out d\<rparr>"
  let ?a' = "?a2\<lparr>ia_sig := (ia_sig ?a2)\<lparr>sg_info := False\<rparr>\<rparr>"
  have sv: "sig_survived (g\<lparr>sg_info := False\<rparr>) = sig_survived g" for g by (simp add: sig_survived_def fun_eq_iff)
  have "dump_info a = Some ?a2" using d(1) by (simp add: dump_info_def icat_serv_dump_def a1_def)
  moreover have "ia_step a ?a'" using assms d(2) sv by (simp add: a1_def ia_step_def icat_ok_def off_ok_def sig_safe_def)
  ultimately show thesis using True by (intro that [of ?a']) (simp_all add: core_info_def)
qed

definition round_fine :: "envir \<Rightarrow> bool \<Rightarrow> sigconf \<Rightarrow> bool \<times> u64 \<times> icat \<Rightarrow> bool" where
  "round_fine env have_ssl sc x \<longleftrightarrow> (case x of (ignoreuser, nextop, a) \<Rightarrow>
     \<forall>a0 a1. ia_signals sc a = Some a0 \<longrightarrow> core_info a0 = Some a1 \<longrightarrow> turn_fine env have_ssl ignoreuser a1)"

lemma core_round_step:
  assumes ok: "icat_ok a" and f: "round_fine (icat_envir nenv mut) have_ssl sc (ignoreuser, nextop, a)"
  obtains more ign nextop' a' where "core_round (icat_envir nenv mut) have_ssl sc ignoreuser nextop a = Some (more, ign, nextop', a')" "ia_step a a'"
proof -
  obtain a0 where a0: "ia_signals sc a = Some a0" "ia_step a a0" by (rule signals_step [OF ok])
  obtain a1 where a1: "core_info a0 = Some a1" "ia_step a0 a1" by (rule info_step [OF ia_step_ok [OF a0(2)]])
  note s1 = ia_step_trans [OF a0(2) a1(2)]
  have "turn_fine (icat_envir nenv mut) have_ssl ignoreuser a1" using f a0(1) a1(1) by (simp add: round_fine_def)
  then obtain more ign nextop' a2 where a2: "core_turn (icat_envir nenv mut) have_ssl ignoreuser nextop a1 = Some (more, ign, nextop', a2)" "ia_step a1 a2"
    by (rule core_turn_step [OF ia_step_ok [OF s1]])
  show thesis
  proof (cases "ia_interrupted a0")
    case True
    then show thesis using a0 by (intro that [of False ignoreuser nextop a0]) (simp_all add: core_round_def)
  next
    case False
    then show thesis using a0(1) a1(1) a2(1) ia_step_trans [OF s1 a2(2)] by (intro that [of more ign nextop' a2]) (simp_all add: core_round_def)
  qed
qed

text \<open>From one round to the next\<close>

inductive icat_next :: "envir \<Rightarrow> bool \<Rightarrow> sigconf \<Rightarrow> bool \<times> u64 \<times> icat \<Rightarrow> bool \<times> u64 \<times> icat \<Rightarrow> bool" for env have_ssl sc where
  round: "core_round env have_ssl sc ign nextop a = Some (True, ign', nextop', a') \<Longrightarrow> icat_next env have_ssl sc (ign, nextop, a) (ign', nextop', a')"

inductive_cases icat_nextE [elim!]: "icat_next env have_ssl sc x (ign', nextop', a')"

abbreviation icat_reach :: "envir \<Rightarrow> bool \<Rightarrow> sigconf \<Rightarrow> bool \<times> u64 \<times> icat \<Rightarrow> bool \<times> u64 \<times> icat \<Rightarrow> bool" where
  "icat_reach env have_ssl sc \<equiv> (icat_next env have_ssl sc)\<^sup>*\<^sup>*"

lemma icat_reach_step:
  assumes "icat_ok a" "\<And>x. icat_reach (icat_envir nenv mut) have_ssl sc (ign, nextop, a) x \<Longrightarrow> round_fine (icat_envir nenv mut) have_ssl sc x"
    and r: "icat_reach (icat_envir nenv mut) have_ssl sc (ign, nextop, a) (ign', nextop', a')"
  shows "ia_step a a'"
  using r
proof (induction "(ign', nextop', a')" arbitrary: ign' nextop' a' rule: rtranclp_induct)
  case base
  then show ?case using ia_step_next [OF assms(1) ia_next_refl] by simp
next
  case (step x)
  obtain i n b where x: "x = (i, n, b)" by (cases x)
  have b: "ia_step a b" using step.hyps(3) x by blast
  have f: "round_fine (icat_envir nenv mut) have_ssl sc (i, n, b)" using assms(2) step.hyps(1) x by blast
  from step.hyps(2) x have "core_round (icat_envir nenv mut) have_ssl sc i n b = Some (True, ign', nextop', a')" by auto
  moreover obtain more i2 n2 b2 where "core_round (icat_envir nenv mut) have_ssl sc i n b = Some (more, i2, n2, b2)" "ia_step b b2"
    by (rule core_round_step [OF ia_step_ok [OF b] f])
  ultimately show ?case using ia_step_trans [OF b] by simp
qed

lemma cleanup_safe: "icat_ok a \<Longrightarrow> cleanup a \<noteq> None"
proof -
  assume "icat_ok a"
  then have s: "icat_sess (irc_reset (ia_st a))" using icat_sess_kept [OF _ irc_reset_kept] by (simp add: icat_ok_def)
  then have "irc_dispose (irc_reset (ia_st a)) \<noteq> None" using irc_dispose_returns by (simp add: icat_sess_def icat_conf_def)
  then show ?thesis by (auto simp: cleanup_def icat_core_destroy_def icat_serv_destroy_def)
qed

section \<open>Runs in which nothing is left to read\<close>

lemma quiet_logon: "icat_sess s \<Longrightarrow> rx_left s = 0 \<Longrightarrow> logon_fine env tend s"
proof -
  assume s: "icat_sess s" "rx_left s = 0"
  then have ok: "sess_ok s" by (simp add: icat_sess_def)
  have n: "\<not> logon_read tend s r msg s2" if "r \<in> {0, 1}" for r msg s2 using logon_read_less [OF _ ok that] s(2) by auto
  then have "\<not> logon_next env tend s s1" for s1 by (auto elim: logon_next.cases)
  then have "s1 = s" if "(logon_next env tend)\<^sup>*\<^sup>* s s1" for s1 using that by (metis converse_rtranclpE)
  with n show ?thesis unfolding logon_fine_def by blast
qed

lemma quiet_connect:
  "icat_sess s \<Longrightarrow> rx_left s = 0 \<Longrightarrow> \<not> st_online s \<Longrightarrow> list_all (\<lambda>sv. \<not> sv_ssl sv) svs \<Longrightarrow> connect_fine (icat_envir nenv mut) have_ssl svs s"
proof (induction svs arbitrary: s)
  case (Cons sv svs)
  let ?env = "icat_envir nenv mut"
  have plain: "\<not> sv_ssl sv" "list_all (\<lambda>sv. \<not> sv_ssl sv) svs" using Cons.prems(4) by simp_all
  obtain s1 where s1: "select_server have_ssl sv s = Some s1" "icat_sess s1" "rx_left s1 \<le> rx_left s" "st_online s1 = st_online s"
    by (rule select_plain [OF Cons.prems(1) plain(1)])
  have q: "rx_left s1 = 0" "\<not> st_online s1" using s1(3,4) Cons.prems(2,3) by simp_all
  have c: "co_ptype (ic_con (st_irc s1)) = -1" "co_laddr (ic_con (st_irc s1)) \<noteq> Freed"
    using s1(2) by (simp_all add: icat_sess_def icat_conf_def)
  have f: "logon_fine ?env tend s2" if l: "logon_start ?env s1 = Some (tend, s2)" for tend s2
  proof (rule quiet_logon)
    note k = logon_start_ok [OF icat_sess_startable [OF s1(2)] c q(2) l]
    show "icat_sess s2" "rx_left s2 = 0" using k q(1) icat_conf_cong [OF k(3)] s1(2) by (simp_all add: icat_sess_def)
  qed
  obtain ok s2 where s2: "irc_connect ?env s1 = Some (ok, s2)" "icat_sess s2" "rx_left s2 \<le> rx_left s1" "\<not> ok \<longrightarrow> \<not> st_online s2"
    by (rule icat_connect [OF s1(2) q(2) f])
  have "connect_fine ?env have_ssl svs s2" if "\<not> ok" using Cons.IH [OF s2(2) _ _ plain(2)] s2(3,4) q(1) that by simp
  with s1(1) s2(1) f show ?case by simp
qed simp

lemma quiet_turn:
  assumes ok: "icat_ok a" and q: "rx_left (ia_st a) = 0" "ub_stream (ia_user a) = []"
  shows "turn_fine (icat_envir nenv mut) have_ssl ignoreuser a"
proof -
  let ?env = "icat_envir nenv mut"
  have sf: "server_fine a"
    unfolding server_fine_def
  proof (intro allI impI)
    fix msg tags s1
    assume r: "st_conn_read (Some MAX_V3TAGS) 1 (read_start (ia_st a)) = Some (1, msg, tags, s1)"
    have k: "sess_kept (ia_st a) (read_start (ia_st a))" by (rule tags_kept(1))
    then have "rx_ok (rctx_of (read_start (ia_st a)))" using ok by (simp add: icat_ok_def icat_sess_def sess_ok_def sess_kept_def)
    then obtain r' m t s' where "st_conn_read (Some MAX_V3TAGS) 1 (read_start (ia_st a)) = Some (r', m, t, s')"
      "r' \<in> {0, 1} \<longrightarrow> rx_left s' < rx_left (read_start (ia_st a))" by (rule st_conn_read_total)
    with r k q(1) show "\<not> msg_crash msg" by (simp add: sess_kept_def)
  qed
  have typed: "typed_fine (ia_sett b) (ia_user b)" if "ub_stream (ia_user b) = []" for b
    using that by (simp add: typed_fine_def ub_stream_def BUFSZ_def)
  show ?thesis
    unfolding turn_fine_def
  proof (intro conjI impI allI sf)
    fix idle a1
    assume c: "core_server ?env a = Some (True, idle, a1)"
    obtain more' idle' a1' where "core_server ?env a = Some (more', idle', a1')" "ia_next a a1'" by (rule core_server_step [OF ok sf])
    then have s1: "ia_step a a1" using c ia_step_next [OF ok] by simp
    have e1: "ub_stream (ia_user a1) = []" using s1 q(2) by (simp add: ia_step_def)
    show "typed_fine (ia_sett a1) (ia_user a1)" by (rule typed [OF e1])
    fix typed ign a2 a3
    assume u: "core_user ignoreuser a1 = Some (typed, ign, a2)" and l: "core_leave a2 = (False, a3)"
    obtain t' i' a2' where "core_user ignoreuser a1 = Some (t', i', a2')" "ia_step a1 a2'"
      by (rule core_user_step [OF ia_step_ok [OF s1] typed [OF e1]])
    then have s2: "ia_step a a2" using u ia_step_trans [OF s1] by simp
    have s3: "ia_step a a3" by (rule ia_step_trans [OF s2 ia_step_next [OF ia_step_ok [OF s2] core_leave_next [OF l]]])
    obtain t a4 where t: "ia_tstamp a3 = (t, a4)" by fastforce
    have n: "ia_next a3 a4" "ia_on a4 = ia_on a3" using tstamp_next [OF t] by simp_all
    have s4: "ia_step a a4" by (rule ia_step_trans [OF s3 ia_step_next [OF ia_step_ok [OF s3] n(1)]])
    have "connect_fine ?env have_ssl (g_srvlist (ia_sett a3)) (ia_st a4)" if "\<not> ia_on a3"
      by (rule quiet_connect) (use s4 n q(1) that in \<open>simp_all add: ia_step_def icat_ok_def off_ok_def ia_next_def\<close>)
    then show "operate_fine ?env have_ssl a3" using t by (simp add: operate_fine_def)
  qed
qed

lemma quiet_round:
  assumes "icat_ok a" "rx_left (ia_st a) = 0" "ub_stream (ia_user a) = []"
  shows "round_fine (icat_envir nenv mut) have_ssl sc (ign, nextop, a)"
  unfolding round_fine_def prod.case
proof (intro allI impI)
  fix a0 a1
  assume r: "ia_signals sc a = Some a0" "core_info a0 = Some a1"
  have s0: "ia_step a a0" by (rule signals_step [OF assms(1), of sc]) (use r(1) in simp)
  have "ia_step a0 a1" by (rule info_step [OF ia_step_ok [OF s0]]) (use r(2) in simp)
  then have "ia_step a a1" by (rule ia_step_trans [OF s0])
  then show "turn_fine (icat_envir nenv mut) have_ssl ign a1"
    using assms by (intro quiet_turn) (simp_all add: ia_step_def)
qed

lemma quiet_reach:
  assumes "icat_ok a" "rx_left (ia_st a) = 0" "ub_stream (ia_user a) = []"
  shows "icat_reach (icat_envir nenv mut) have_ssl sc (ign, nextop, a) x \<Longrightarrow> round_fine (icat_envir nenv mut) have_ssl sc x"
proof -
  have q: "round_fine (icat_envir nenv mut) have_ssl sc (i, n, b)" if "ia_step a b" for i n b
    by (rule quiet_round) (use that assms in \<open>simp_all add: ia_step_def\<close>)
  assume "icat_reach (icat_envir nenv mut) have_ssl sc (ign, nextop, a) x"
  then have "ia_step a (snd (snd x))"
  proof (induction rule: rtranclp_induct)
    case base
    then show ?case using ia_step_next [OF assms(1) ia_next_refl] by simp
  next
    case (step y z)
    obtain i n b where y: "y = (i, n, b)" by (cases y)
    have b: "ia_step a b" using step.IH y by simp
    obtain more i2 n2 b2 where "core_round (icat_envir nenv mut) have_ssl sc i n b = Some (more, i2, n2, b2)" "ia_step b b2"
      by (rule core_round_step [OF ia_step_ok [OF b] q [OF b]])
    with step.hyps(2) y show ?case using ia_step_trans [OF b] by (cases z) auto
  qed
  then show "round_fine (icat_envir nenv mut) have_ssl sc x" using q by (cases x) simp
qed

section \<open>Properties\<close>

text \<open>
  C11: \<open>icat\<close> never crashes.  From a state of its main loop that satisfies \<open>icat_ok\<close> (with servers without TLS and without a
  proxy), over any number of rounds with messages, typed lines, signals, lost connections and reconnects,
  the next round returns, leaves such a state, and leaves one that can be cleaned up at the exit, whatever the
  network does, as long as nobody sends one of the messages of \<open>msg_crash\<close> and the user types neither an overlong
  line nor NUL nor, in target mode, only blanks.
\<close>

theorem icat_run_safe:
  assumes "icat_ok a"
    and "\<And>x. icat_reach (icat_envir nenv mut) have_ssl sc (ign, nextop, a) x \<Longrightarrow> round_fine (icat_envir nenv mut) have_ssl sc x"
    and "icat_reach (icat_envir nenv mut) have_ssl sc (ign, nextop, a) (ign', nextop', a')"
  shows "\<exists>more i n b. core_round (icat_envir nenv mut) have_ssl sc ign' nextop' a' = Some (more, i, n, b) \<and> icat_ok b \<and> cleanup b \<noteq> None"
proof -
  have s: "ia_step a a'" by (rule icat_reach_step [OF assms])
  obtain more i n b where "core_round (icat_envir nenv mut) have_ssl sc ign' nextop' a' = Some (more, i, n, b)" "ia_step a' b"
    by (rule core_round_step [OF ia_step_ok [OF s] assms(2) [OF assms(3)]])
  then show ?thesis using cleanup_safe ia_step_ok by blast
qed

text \<open>\<open>icat\<close> online, with nothing to read and with a request for a dump on the way\<close>

definition quiet_icat :: icat where
  "quiet_icat = sample_icat\<lparr>ia_user := ubuf_init [] [], ia_sig := (sig_start [[SIGUSR1]])\<lparr>sg_act := (\<lambda>_. Sa_handler)\<rparr>\<rparr>"

lemma quiet_icat_ok: "icat_ok quiet_icat" "rx_left (ia_st quiet_icat) = 0" "ub_stream (ia_user quiet_icat) = []"
proof -
  have st: "ia_st quiet_icat = idle_st (quiet_net\<lparr>nt_clk := [5, 6, 7, 8]\<rparr>)"
    by (simp add: quiet_icat_def sample_icat_def idle_st_def)
  have cf: "icat_conf (idle_st w)" "\<not> ic_tracking_enab (st_irc (idle_st w))" for w
    by (auto simp: icat_conf_def icat_hnds_def uhnds_def idle_st_def fresh_ctx_def irc_init_def malloc_n_unlimited lsi_conn_init_def reset_state_def
        lsi_skmap_init_def lsi_b_strdup_def online_con_def uh_free_def)
  then have "icat_sess (ia_st quiet_icat)" unfolding st using idle_st_ok by (simp add: icat_sess_def)
  moreover have "off_ok quiet_icat" "list_all (\<lambda>sv. \<not> sv_ssl sv) (g_srvlist (ia_sett quiet_icat))" "sig_safe (ia_sig quiet_icat)"
    by (simp_all add: quiet_icat_def sample_icat_def off_ok_def set_defaults_def sig_safe_def sig_start_def sig_survived_def)
  moreover have u: "ub_ok (ia_user quiet_icat)" "ub_stream (ia_user quiet_icat) = []"
    by (simp_all add: quiet_icat_def ubuf_init_def ub_ok_def ub_stream_def ub_pend_def ub_rest_def del: replicate.simps)
  ultimately show "icat_ok quiet_icat" by (simp add: icat_ok_def)
  show "rx_left (ia_st quiet_icat) = 0"
    unfolding st by (simp add: idle_st_def rx_left_def left_def rx_bytes_def online_con_def lsi_conn_init_def lsi_b_strdup_def readctx_init_def quiet_net_def)
  show "ub_stream (ia_user quiet_icat) = []" by (rule u(2))
qed

theorem icat_run_safe_witness:
  "\<forall>nenv mut sc. \<exists>more i n b. core_round (icat_envir nenv mut) False sc False 0 quiet_icat = Some (more, i, n, b) \<and> icat_ok b \<and> cleanup b \<noteq> None"
proof (intro allI)
  fix nenv mut sc
  show "\<exists>more i n b. core_round (icat_envir nenv mut) False sc False 0 quiet_icat = Some (more, i, n, b) \<and> icat_ok b \<and> cleanup b \<noteq> None"
  proof (rule icat_run_safe [OF quiet_icat_ok(1)])
    show "round_fine (icat_envir nenv mut) False sc x" if "icat_reach (icat_envir nenv mut) False sc (False, 0, quiet_icat) x" for x
      by (rule quiet_reach [OF quiet_icat_ok that])
    show "icat_reach (icat_envir nenv mut) False sc (False, 0, quiet_icat) (False, 0, quiet_icat)"
      by (rule rtranclp.rtrancl_refl)
  qed
qed

end
