(* ===== verification/Iwat.thy ===== *)
theory Iwat
  imports Plat Dump Irc Getset Signals
begin

text \<open>
  The two small programs that come with the library: \<open>src/src/iwat.c\<close>, a bot that tracks its channels
  and obeys a few commands, and the example \<open>src/src/helloworld.c\<close>.  The static variables of \<open>iwat\<close> are the record
  \<open>iwat\<close>; the state of the library is inside \<open>iw_dm\<close>, together with what the dumps print.  As in the
  theories of \<open>icat\<close>, None stands for undefined behaviour and for an exit with an error message
  before the main loop.
\<close>

section \<open>State and settings\<close>

record wsett =
  w_scto_us :: u64
  w_hcto_us :: u64
  w_cfwait_s :: int
  w_heartbeat_us :: u64
  w_recon :: bool
  w_verb :: int

text \<open>The copy of a host name is not checked: it may be NULL.\<close>

record wsrv =
  ws_host :: "string option"
  ws_port :: u16
  ws_ssl :: bool

record iwat =
  iw_sett :: wsett
  iw_srvlist :: "wsrv list"
  iw_nexthb :: u64
  iw_slept :: "timespec option list"
  iw_dm :: dump
  iw_sig :: sigst

definition iw_st :: "iwat \<Rightarrow> st" where
  "iw_st a = dm_st (iw_dm a)"

definition iw_upd :: "(st \<Rightarrow> st) \<Rightarrow> iwat \<Rightarrow> iwat" where
  "iw_upd f a = a\<lparr>iw_dm := (iw_dm a)\<lparr>dm_st := f (iw_st a)\<rparr>\<rparr>"

definition iw_tstamp :: "iwat \<Rightarrow> u64 \<times> iwat" where
  "iw_tstamp a = (let (t, w) = lsi_b_tstamp_us (st_net (iw_st a)) in (t, iw_upd (\<lambda>s. s\<lparr>st_net := w\<rparr>) a))"

definition iprintf :: "string \<Rightarrow> iwat \<Rightarrow> iwat" where
  "iprintf txt a = iw_upd (\<lambda>s. snd (irc_write (ncpy 1024 txt) s)) a"

definition next_beat :: "iwat \<Rightarrow> iwat" where
  "next_beat a = (let (t, a1) = iw_tstamp a in a1\<lparr>iw_nexthb := t + w_heartbeat_us (iw_sett a1)\<rparr>)"

section \<open>The command line\<close>

text \<open>\<open>-T hard[:soft]\<close>, in milliseconds\<close>

definition set_wtimeouts :: "string \<Rightarrow> wsett \<Rightarrow> wsett" where
  "set_wtimeouts arg sett =
     (case strchr arg (CHR '':'') of
        None \<Rightarrow> sett\<lparr>w_hcto_us := of_nat (strtoul10 arg) * 1000\<rparr>
      | Some i \<Rightarrow> sett\<lparr>w_hcto_us := of_nat (strtoul10 (take i arg)) * 1000,
                       w_scto_us := of_nat (strtoul10 (drop (i + 1) arg)) * 1000\<rparr>)"

definition set_wopt :: "char \<times> string \<Rightarrow> wsett \<times> st \<Rightarrow> (wsett \<times> st) option" where
  "set_wopt opt x =
     (let (ch, arg) = opt; (sett, s) = x in
      if ch = CHR ''n'' then Some (sett, snd (irc_set_nick (Some arg) s))
      else if ch = CHR ''u'' then Some (sett, snd (irc_set_uname (Some arg) s))
      else if ch = CHR ''f'' then Some (sett, snd (irc_set_fname (Some arg) s))
      else if ch = CHR ''p'' then Some (sett, snd (irc_set_pass (Some arg) s))
      else if ch = CHR ''P'' then
        (case lsi_ut_parse_pxspec 256 arg of
           None \<Rightarrow> None
         | Some (t, h, p) \<Rightarrow> Some (sett, snd (irc_set_px (Some h) p t s)))
      else if ch = CHR ''T'' then
        (case st_strdup arg s of (None, s1) \<Rightarrow> None | (Some d, s1) \<Rightarrow> Some (set_wtimeouts d sett, s1))
      else if ch = CHR ''W'' then Some (sett\<lparr>w_cfwait_s := to_int (strtol10 arg)\<rparr>, s)
      else if ch = CHR ''b'' then Some (sett\<lparr>w_heartbeat_us := of_nat (strtoul10 arg) * 1000\<rparr>, s)
      else if ch = CHR ''r'' then Some (sett\<lparr>w_recon := True\<rparr>, s)
      else if ch = CHR ''q'' then Some (sett\<lparr>w_verb := w_verb sett - 1\<rparr>, s)
      else if ch = CHR ''v'' then Some (sett\<lparr>w_verb := w_verb sett + 1\<rparr>, s)
      else None)"

fun set_wopts :: "(char \<times> string) list \<Rightarrow> wsett \<times> st \<Rightarrow> (wsett \<times> st) option" where
  "set_wopts [] x = Some x"
| "set_wopts (opt # opts) x = do { x1 \<leftarrow> set_wopt opt x; set_wopts opts x1 }"

fun add_wservers :: "string list \<Rightarrow> wsrv list \<times> st \<Rightarrow> (wsrv list \<times> st) option" where
  "add_wservers [] x = Some x"
| "add_wservers (arg # args) (svs, s) =
     (let (host, port, ssl) = lsi_ut_parse_hostspec 256 arg; (ok, s1) = st_malloc s in
      if \<not> ok then None
      else let (h, s2) = st_strdup host s1 in
        add_wservers args (svs @ [\<lparr>ws_host = h, ws_port = port, ws_ssl = ssl\<rparr>], s2))"

definition wdefaults :: wsett where
  "wdefaults =
     \<lparr>w_scto_us = 15000 * 1000, w_hcto_us = 120000 * 1000, w_cfwait_s = 10, w_heartbeat_us = 300000 * 1000,
      w_recon = False, w_verb = 1\<rparr>"

text \<open>\<open>init\<close>: a context that could not be made is used all the same.\<close>

definition iwat_init :: "signal list list \<Rightarrow> (char \<times> string) list \<Rightarrow> string list \<Rightarrow> st \<Rightarrow> iwat option" where
  "iwat_init sigs opts args s =
     (case irc_init (orc_of s) of
        (None, _) \<Rightarrow> None
      | (Some ctx, orc) \<Rightarrow> do {
          let s1 = upd_irc (irc_set_track True) (set_orc orc (s\<lparr>st_irc := ctx\<rparr>));
          let s2 = snd (irc_set_fname (Some ''irc netwat'') (snd (irc_set_uname (Some ''iwat'')
                     (snd (irc_set_nick (Some ''iwat'') s1)))));
          let s3 = upd_irc (irc_regcb_conread (Some 0)) (upd_irc (irc_set_conflags 0) s2);
          (sett, s4) \<leftarrow> set_wopts opts (wdefaults, s3);
          if args = [] then None
          else do {
            (svs, s5) \<leftarrow> add_wservers args ([], s4);
            Some \<lparr>iw_sett = sett, iw_srvlist = svs, iw_nexthb = 0, iw_slept = [],
                  iw_dm = \<lparr>dm_st = upd_irc (irc_set_connect_timeout (w_scto_us sett) (w_hcto_us sett)) s5,
                           dm_dangling = {}, dm_out = []\<rparr>, iw_sig = sig_start sigs\<rparr> } })"

section \<open>Connecting\<close>

fun wtryconnect :: "envir \<Rightarrow> bool \<Rightarrow> wsrv list \<Rightarrow> iwat \<Rightarrow> (bool \<times> iwat) option" where
  "wtryconnect env have_ssl [] a = Some (False, a)"
| "wtryconnect env have_ssl (sv # svs) a =
     (let s1 = snd (irc_set_server (ws_host sv) (ws_port sv) (iw_st a));
          (ok, s2) = irc_set_ssl have_ssl (ws_ssl sv) s1
      in if \<not> ok \<and> ws_ssl sv then None
         else do {
           (up, s3) \<leftarrow> irc_connect env s2;
           let a1 = iw_upd (\<lambda>_. s3) a;
           if up then Some (True, a1) else wtryconnect env have_ssl svs a1 })"

section \<open>Messages\<close>

definition begins :: "string \<Rightarrow> string \<Rightarrow> bool" where
  "begins p t = (take (length p) t = p)"

definition with_dump :: "(dump \<Rightarrow> dump option) \<Rightarrow> iwat \<Rightarrow> iwat option" where
  "with_dump f a = map_option (\<lambda>d. a\<lparr>iw_dm := d\<rparr>) (f (iw_dm a))"

text \<open>A command in the text of a PRIVMSG; true when it ends the program.\<close>

definition iw_command :: "tokarr \<Rightarrow> string \<Rightarrow> iwat \<Rightarrow> (bool \<times> iwat) option" where
  "iw_command tok txt a =
     (if begins ''ECHO '' txt then do {
        pfx \<leftarrow> tk tok 0;
        Some (False, iprintf (''PRIVMSG '' @ lsi_ut_ident2nick [] 64 pfx @ '' :'' @ drop 5 txt @ crlf) a) }
      else if begins ''DO '' txt then Some (False, iprintf (drop 3 txt @ crlf) a)
      else if txt = ''DIE'' then Some (True, a)
      else if txt = ''DUMP'' then do {
        a1 \<leftarrow> with_dump irc_dump a;
        a2 \<leftarrow> with_dump (lsi_trk_dump False) a1;
        Some (False, a2) }
      else if txt = ''FULLDUMP'' then do {
        a1 \<leftarrow> with_dump irc_dump a;
        a2 \<leftarrow> with_dump (lsi_trk_dump True) a1;
        Some (False, a2) }
      else Some (False, a))"

definition iw_handle :: "tokarr \<Rightarrow> iwat \<Rightarrow> (bool \<times> iwat) option" where
  "iw_handle tok a = do {
     cmd \<leftarrow> tk tok 1;
     if cmd = ''PING'' then do {
       x \<leftarrow> tk tok 2;
       Some (False, iprintf (''PONG :'' @ x @ crlf) a) }
     else if cmd = ''PRIVMSG'' then do {
       txt \<leftarrow> tk tok 3;
       iw_command tok txt a }
     else Some (False, a) }"

section \<open>The main loop\<close>

definition iw_beat :: "int \<Rightarrow> iwat \<Rightarrow> iwat" where
  "iw_beat r a =
     (if 0 < r then next_beat a
      else if w_heartbeat_us (iw_sett a) = 0 then a
      else let (t, a1) = iw_tstamp a in
        if iw_nexthb a \<le> t then next_beat (iprintf (''PING '' @ irc_myhost (st_irc (iw_st a1)) @ crlf) a1)
        else a1)"

text \<open>The dump that a signal asks for\<close>

definition iw_info :: "iwat \<Rightarrow> iwat option" where
  "iw_info a = do {
     g \<leftarrow> next_signals infohnd (iw_sig a);
     let a1 = a\<lparr>iw_sig := g\<rparr>;
     if sg_info g then do {
       a2 \<leftarrow> with_dump irc_dump a1;
       a3 \<leftarrow> (if irc_tracking_enab (st_irc (iw_st a2)) then with_dump (lsi_trk_dump False) a2 else Some a2);
       Some (a3\<lparr>iw_sig := g\<lparr>sg_info := False\<rparr>\<rparr>) }
     else Some a1 }"

text \<open>The result says whether to go on (None) or to end, and then whether that is a failure.\<close>

definition iw_online_turn :: "envir \<Rightarrow> iwat \<Rightarrow> (bool option \<times> iwat) option" where
  "iw_online_turn env a = do {
     let to = w_heartbeat_us (iw_sett a);
     (r, tok, s) \<leftarrow> irc_read env (if to \<noteq> 0 then to else 1000000) (iw_st a);
     let a1 = iw_upd (\<lambda>_. s) a;
     if r < 0 then Some (Some True, a1)
     else do {
       a1' \<leftarrow> iw_info a1;
       let a2 = iw_beat r a1';
       if r = 0 then Some (None, a2)
       else do {
         (die, a3) \<leftarrow> iw_handle tok a2;
         Some (if die then Some False else None, a3) } } }"

text \<open>The wait between attempts is computed without a sign, so a negative one is very long.\<close>

definition iw_offline_turn :: "envir \<Rightarrow> bool \<Rightarrow> iwat \<Rightarrow> (bool option \<times> iwat) option" where
  "iw_offline_turn env have_ssl a = do {
     (up, a1) \<leftarrow> wtryconnect env have_ssl (iw_srvlist a) a;
     Some (if up then (None, next_beat a1)
           else if \<not> w_recon (iw_sett a1) then (Some True, a1)
           else (None, a1\<lparr>iw_slept := iw_slept a1 @ [lsi_b_usleep (1000000 * word_of_int (w_cfwait_s (iw_sett a1)))]\<rparr>)) }"

definition iw_turn :: "envir \<Rightarrow> bool \<Rightarrow> iwat \<Rightarrow> (bool option \<times> iwat) option" where
  "iw_turn env have_ssl a =
     (if \<not> irc_online (st_irc (iw_st a)) then iw_offline_turn env have_ssl a else iw_online_turn env a)"

partial_function (option) iw_loop :: "envir \<Rightarrow> bool \<Rightarrow> iwat \<Rightarrow> (bool \<times> iwat) option" where
  "iw_loop env have_ssl a = do {
     (over, a1) \<leftarrow> iw_turn env have_ssl a;
     case over of None \<Rightarrow> iw_loop env have_ssl a1 | Some failure \<Rightarrow> Some (failure, a1) }"

text \<open>The exit status, and the network after the cleaning up\<close>

definition iwat_main :: "envir \<Rightarrow> bool \<Rightarrow> sigconf \<Rightarrow> signal list list \<Rightarrow> (char \<times> string) list \<Rightarrow> string list \<Rightarrow> st \<Rightarrow> (bool \<times> net) option" where
  "iwat_main env have_ssl sc sigs opts args s = do {
     a \<leftarrow> iwat_init sigs opts args s;
     let (ok, w0) = sys_call (st_net (iw_st a));
     let a0 = (case info_signal sc of
                 Some sg \<Rightarrow> iw_upd (\<lambda>s. s\<lparr>st_net := w0\<rparr>) (a\<lparr>iw_sig := lsi_b_regsig ok sg Sa_handler (iw_sig a)\<rparr>)
               | None \<Rightarrow> a);
     (failure, a1) \<leftarrow> iw_loop env have_ssl a0;
     w \<leftarrow> irc_dispose (iw_st a1);
     Some (failure, w) }"

section \<open>The example program\<close>

record hello =
  he_st :: st
  he_stdout :: "string list"

definition he_printf :: "string \<Rightarrow> hello \<Rightarrow> hello" where
  "he_printf txt h = h\<lparr>he_st := snd (irc_printf txt (he_st h))\<rparr>"

text \<open>A turn of the loop; true when it is left.\<close>

definition he_turn :: "envir \<Rightarrow> hello \<Rightarrow> (bool \<times> hello) option" where
  "he_turn env h = do {
     (r, msg, s) \<leftarrow> irc_read env 500000 (he_st h);
     let h1 = h\<lparr>he_st := s\<rparr>;
     if r < 0 then Some (True, h1)
     else if r = 0 then Some (False, h1)
     else do {
       cmd \<leftarrow> tk msg 1;
       if cmd = ''PING'' then do {
         x \<leftarrow> tk msg 2;
         Some (False, he_printf (''PONG '' @ x) h1) }
       else if cmd = ''PRIVMSG'' then do {
         pfx \<leftarrow> tk msg 0;
         dst \<leftarrow> tk msg 2;
         txt \<leftarrow> tk msg 3;
         Some (txt = ''die'',
           h1\<lparr>he_stdout := he_stdout h1 @ [''Message from '' @ pfx @ '' to '' @ dst @ '': '' @ txt @ [CHR 0x0A]]\<rparr>) }
       else Some (False, h1) } }"

partial_function (option) he_loop :: "envir \<Rightarrow> hello \<Rightarrow> hello option" where
  "he_loop env h = do { (done, h1) \<leftarrow> he_turn env h; if done then Some h1 else he_loop env h1 }"

text \<open>True: the exit status is that of success.\<close>

definition helloworld_main :: "envir \<Rightarrow> st \<Rightarrow> (bool \<times> hello) option" where
  "helloworld_main env s =
     (case irc_init (orc_of s) of
        (None, _) \<Rightarrow> None
      | (Some ctx, orc) \<Rightarrow> do {
          let s1 = snd (irc_set_server (Some ''irc.libera.chat'') 6667 (set_orc orc (s\<lparr>st_irc := ctx\<rparr>)));
          let s2 = snd (irc_set_nick (Some ''libsrsirc'') s1);
          (up, s3) \<leftarrow> irc_connect env s2;
          let h = \<lparr>he_st = s3, he_stdout = []\<rparr>;
          if \<not> up then Some (False, h)
          else do {
            h1 \<leftarrow> he_loop env (he_printf ''PRIVMSG #fstd :Hello world!'' (he_printf ''JOIN #fstd'' h));
            w \<leftarrow> irc_dispose (he_st h1);
            Some (True, h1\<lparr>he_st := (he_st h1)\<lparr>st_net := w\<rparr>\<rparr>) } })"

end
