(* ===== verification/Iwatprops.thy ===== *)
theory Iwatprops
  imports Iwat Sesssafe
begin

text \<open>
  Properties of \<open>iwat\<close> and of the dumps: what the full dump reports, and that a turn of the
  main loop is safe exactly if the message it reads has the fields that \<open>iwat\<close> takes for granted.
\<close>

section \<open>Dumps keep a session\<close>

lemma dump_eq_sess:
  assumes "dump_eq s0 s" "sess_ok s0" "ic_tracking_enab (st_irc s0)"
  shows "sess_ok s" "ic_tracking_enab (st_irc s)"
proof -
  have f: "(st_irc s)\<lparr>ic_chans := Null, ic_users := None\<rparr> = (st_irc s0)\<lparr>ic_chans := Null, ic_users := None\<rparr>" "orc_of s = orc_of s0"
    using assms(1) by (simp_all add: dump_eq_def frame_of_def)
  have g: "ic_tracking_enab (st_irc s) = ic_tracking_enab (st_irc s0)" "ic_msghnds (st_irc s) = ic_msghnds (st_irc s0)"
    "ic_con (st_irc s) = ic_con (st_irc s0)"
    using arg_cong [OF f(1), of ic_tracking_enab] arg_cong [OF f(1), of ic_msghnds] arg_cong [OF f(1), of ic_con] by simp_all
  have "ucb_ok s" using assms(1) by (simp add: dump_eq_def)
  moreover from this have md: "modes_ok s" by (simp add: ucb_ok_def ucb_inv_def st_ok_def)
  ultimately show "sess_ok s" "ic_tracking_enab (st_irc s)"
    using assms(2,3) f(2) g unfolding sess_ok_def by (simp_all add: rctx_of_def live_hnds_def)
qed

lemma trk_dump_tracking:
  assumes "sess_ok (iw_st a)" "ic_tracking_enab (st_irc (iw_st a))"
  obtains a' where "with_dump (lsi_trk_dump full) a = Some a'" "sess_ok (iw_st a')" "ic_tracking_enab (st_irc (iw_st a'))"
proof -
  have "ucb_ok (iw_st a)" using assms by (simp add: sess_ok_def)
  then obtain d where d: "lsi_ucb_dump full (iw_dm a) = Some d" "dump_eq (iw_st a) (dm_st d)"
    by (rule ucb_dump_ok [OF _ iw_st_def [symmetric], where full = full])
  have st: "iw_st (a\<lparr>iw_dm := d\<rparr>) = dm_st d" by (simp add: iw_st_def)
  from dump_eq_sess [OF d(2) assms] d(1) that [of "a\<lparr>iw_dm := d\<rparr>"] st show thesis
    by (simp add: with_dump_def lsi_trk_dump_def)
qed

lemma trk_dump_idle:
  assumes "sess_ok (iw_st a)" "\<not> ic_tracking_enab (st_irc (iw_st a))"
  shows "with_dump (lsi_trk_dump full) a = None"
proof -
  have "chans_of (iw_st a) = Some None" using assms by (simp add: sess_ok_def chans_of_def)
  then show ?thesis by (simp add: with_dump_def lsi_trk_dump_def lsi_ucb_dump_def lsi_skmap_dumpstat_def dm_chans_def iw_st_def)
qed

text \<open>\<open>irc_dump\<close> is safe in any session.\<close>

lemma irc_dump_safe:
  assumes "sess_ok (iw_st a)"
  obtains a' where "with_dump irc_dump a = Some a'" "sess_ok (iw_st a')"
    "ic_tracking_enab (st_irc (iw_st a')) = ic_tracking_enab (st_irc (iw_st a))"
proof (cases "ic_tracking_enab (st_irc (iw_st a))")
  case True
  then have u: "ucb_ok (dm_st (iw_dm a))" using assms by (simp add: sess_ok_def iw_st_def)
  obtain d where d: "irc_dump (iw_dm a) = Some d" "dump_eq (iw_st a) (dm_st d)"
    by (rule irc_dump_tracking [OF u]) (use True in \<open>simp add: iw_st_def\<close>)
  have "iw_st (a\<lparr>iw_dm := d\<rparr>) = dm_st d" by (simp add: iw_st_def)
  with dump_eq_sess [OF d(2) assms True] d(1) True show thesis
    by (intro that [of "a\<lparr>iw_dm := d\<rparr>"]) (simp_all add: with_dump_def)
next
  case False
  then obtain d where "irc_dump (iw_dm a) = Some d" "dm_st d = iw_st a"
    using irc_dump_idle [of "iw_dm a"] by (auto simp: iw_st_def)
  with assms show thesis by (intro that [of "a\<lparr>iw_dm := d\<rparr>"]) (simp_all add: with_dump_def iw_st_def)
qed

lemma dumps_safe:
  assumes "sess_ok (iw_st a)"
  shows "(do { a1 \<leftarrow> with_dump irc_dump a; a2 \<leftarrow> with_dump (lsi_trk_dump full) a1; Some (False, a2) }) = None \<longleftrightarrow>
      \<not> ic_tracking_enab (st_irc (iw_st a))"
    and "(do { a1 \<leftarrow> with_dump irc_dump a; a2 \<leftarrow> with_dump (lsi_trk_dump full) a1; Some (False, a2) }) = Some (die, a') \<Longrightarrow> sess_ok (iw_st a')"
proof -
  obtain a1 where a1: "with_dump irc_dump a = Some a1" "sess_ok (iw_st a1)"
    "ic_tracking_enab (st_irc (iw_st a1)) = ic_tracking_enab (st_irc (iw_st a))" by (rule irc_dump_safe [OF assms])
  have "\<exists>a2. with_dump (lsi_trk_dump full) a1 = Some a2 \<and> sess_ok (iw_st a2)" if tr: "ic_tracking_enab (st_irc (iw_st a1))"
    by (rule trk_dump_tracking [OF a1(2) tr]) blast
  then show "(do { a1 \<leftarrow> with_dump irc_dump a; a2 \<leftarrow> with_dump (lsi_trk_dump full) a1; Some (False, a2) }) = None \<longleftrightarrow>
      \<not> ic_tracking_enab (st_irc (iw_st a))"
    "(do { a1 \<leftarrow> with_dump irc_dump a; a2 \<leftarrow> with_dump (lsi_trk_dump full) a1; Some (False, a2) }) = Some (die, a') \<Longrightarrow> sess_ok (iw_st a')"
    using a1 trk_dump_idle [OF a1(2)] by (cases "ic_tracking_enab (st_irc (iw_st a1))"; force)+
qed

text \<open>So is the dump that a signal asks for.\<close>

lemma iw_info_safe:
  assumes ok: "sess_ok (iw_st a)" and sg: "sig_safe (iw_sig a)"
  obtains a' where "iw_info a = Some a'" "sess_ok (iw_st a')"
    "ic_tracking_enab (st_irc (iw_st a')) = ic_tracking_enab (st_irc (iw_st a))" "iw_sett a' = iw_sett a"
proof -
  obtain g where g: "next_signals infohnd (iw_sig a) = Some g" by (rule next_signals_safe [OF handlers_set_flags(2) sg])
  let ?a1 = "a\<lparr>iw_sig := g\<rparr>"
  have st1: "iw_st (x\<lparr>iw_sig := h\<rparr>) = iw_st x" for x h by (simp add: iw_st_def)
  have ok1: "sess_ok (iw_st ?a1)" using ok st1 by simp
  have sett: "iw_sett y = iw_sett x" if "with_dump f x = Some y" for f x y using that by (auto simp: with_dump_def)
  obtain a2 where a2: "with_dump irc_dump ?a1 = Some a2" "sess_ok (iw_st a2)"
    "ic_tracking_enab (st_irc (iw_st a2)) = ic_tracking_enab (st_irc (iw_st ?a1))" by (rule irc_dump_safe [OF ok1])
  have "\<exists>a3. (if irc_tracking_enab (st_irc (iw_st a2)) then with_dump (lsi_trk_dump False) a2 else Some a2) = Some a3 \<and>
      sess_ok (iw_st a3) \<and> ic_tracking_enab (st_irc (iw_st a3)) = ic_tracking_enab (st_irc (iw_st a2)) \<and> iw_sett a3 = iw_sett a2"
  proof (cases "irc_tracking_enab (st_irc (iw_st a2))")
    case True
    then have "ic_tracking_enab (st_irc (iw_st a2))" by (simp add: irc_tracking_enab_def)
    from trk_dump_tracking [OF a2(2) this, of False] this True sett show ?thesis by metis
  qed (use a2 in simp)
  then obtain a3 where a3: "(if irc_tracking_enab (st_irc (iw_st a2)) then with_dump (lsi_trk_dump False) a2 else Some a2) = Some a3"
    "sess_ok (iw_st a3)" "ic_tracking_enab (st_irc (iw_st a3)) = ic_tracking_enab (st_irc (iw_st a2))" "iw_sett a3 = iw_sett a2" by blast
  let ?a' = "if sg_info g then a3\<lparr>iw_sig := g\<lparr>sg_info := False\<rparr>\<rparr> else ?a1"
  show thesis
    by (rule that [of ?a']) (use g a2 a3 ok1 st1 sett [OF a2(1)] in \<open>simp_all add: iw_info_def Let_def\<close>)
qed

section \<open>A turn of \<open>iwat\<close>\<close>

text \<open>What a message lacks or asks for when \<open>iwat\<close> follows a NULL pointer\<close>

definition wat_bad :: "tokarr \<Rightarrow> bool \<Rightarrow> bool" where
  "wat_bad tok tracking \<longleftrightarrow>
     (tk tok 1 = Some ''PING'' \<and> tk tok 2 = None) \<or>
     (tk tok 1 = Some ''PRIVMSG'' \<and>
        (case tk tok 3 of None \<Rightarrow> True
         | Some txt \<Rightarrow> (begins ''ECHO '' txt \<and> tk tok 0 = None) \<or> (txt \<in> {''DUMP'', ''FULLDUMP''} \<and> \<not> tracking)))"

definition iw_kept :: "iwat \<Rightarrow> iwat \<Rightarrow> bool" where
  "iw_kept a a' \<longleftrightarrow> sess_kept (iw_st a) (iw_st a')"

lemma iw_kept_trans: "iw_kept a a' \<Longrightarrow> iw_kept a' a'' \<Longrightarrow> iw_kept a a''"
  unfolding iw_kept_def by (rule sess_kept_trans)

lemma iw_kept_ok:
  assumes "iw_kept a a'" "sess_ok (iw_st a)"
  shows "sess_ok (iw_st a')" "ic_tracking_enab (st_irc (iw_st a')) = ic_tracking_enab (st_irc (iw_st a))"
  using assms sess_ok_kept by (auto simp: iw_kept_def sess_kept_def dest: sess_viewD)

lemma iprintf_kept: "iw_kept a (iprintf txt a)"
proof -
  obtain ok s' where "irc_write (ncpy 1024 txt) (iw_st a) = (ok, s')" by force
  with irc_write_kept [OF this] show ?thesis by (simp add: iw_kept_def iprintf_def iw_upd_def iw_st_def)
qed

lemma iw_tstamp_kept: "iw_tstamp a = (t, a') \<Longrightarrow> iw_kept a a'"
  by (auto simp: iw_tstamp_def iw_kept_def iw_upd_def iw_st_def sess_kept_def sess_view_def conf_of_def rctx_of_def rx_left_def left_def rx_bytes_def
      lsi_b_tstamp_us_def Let_def split: prod.splits list.splits)

lemma next_beat_kept: "iw_kept a (next_beat a)"
proof -
  obtain t a1 where "iw_tstamp a = (t, a1)" by force
  with iw_tstamp_kept [OF this] show ?thesis by (simp add: next_beat_def iw_kept_def iw_st_def)
qed

lemma iw_beat_kept: "iw_kept a (iw_beat r a)"
proof -
  obtain t a1 where t: "iw_tstamp a = (t, a1)" by force
  have "iw_kept a (next_beat (iprintf x a1))" for x
    by (rule iw_kept_trans [OF iw_kept_trans [OF iw_tstamp_kept [OF t] iprintf_kept] next_beat_kept])
  moreover have "iw_kept a a" by (simp add: iw_kept_def sess_kept_refl)
  ultimately show ?thesis using next_beat_kept [of a] iw_tstamp_kept [OF t] by (simp add: iw_beat_def t)
qed

lemma iw_command_safe:
  assumes "sess_ok (iw_st a)"
  shows "iw_command tok txt a = None \<longleftrightarrow>
      (begins ''ECHO '' txt \<and> tk tok 0 = None) \<or> (txt \<in> {''DUMP'', ''FULLDUMP''} \<and> \<not> ic_tracking_enab (st_irc (iw_st a)))"
    and "iw_command tok txt a = Some (die, a') \<Longrightarrow> sess_ok (iw_st a') \<and> (die \<longleftrightarrow> txt = ''DIE'')"
proof -
  have nb: "\<not> begins ''ECHO '' txt" "\<not> begins ''DO '' txt" if "txt \<in> {''DUMP'', ''FULLDUMP'', ''DIE''}"
    using that by (auto simp: begins_def)
  note p = iw_kept_ok(1) [OF iprintf_kept assms] and d = dumps_safe(1) [OF assms] and d' = dumps_safe(2) [OF assms]
  have die: "(do { a1 \<leftarrow> with_dump irc_dump a; a2 \<leftarrow> with_dump (lsi_trk_dump full) a1; Some (False, a2) }) \<noteq> Some (True, x)" for full x
    by (simp add: bind_eq_Some_conv)
  consider "begins ''ECHO '' txt" | "\<not> begins ''ECHO '' txt" "begins ''DO '' txt" | "txt = ''DIE''" | "txt = ''DUMP''" | "txt = ''FULLDUMP''"
    | "\<not> begins ''ECHO '' txt" "\<not> begins ''DO '' txt" "txt \<notin> {''DUMP'', ''FULLDUMP'', ''DIE''}" by blast
  then have both: "(iw_command tok txt a = None \<longleftrightarrow>
      (begins ''ECHO '' txt \<and> tk tok 0 = None) \<or> (txt \<in> {''DUMP'', ''FULLDUMP''} \<and> \<not> ic_tracking_enab (st_irc (iw_st a)))) \<and>
    (iw_command tok txt a = Some (die, a') \<longrightarrow> sess_ok (iw_st a') \<and> (die \<longleftrightarrow> txt = ''DIE''))"
  proof cases
    case 1
    then have "txt \<notin> {''DUMP'', ''FULLDUMP'', ''DIE''}" using nb by blast
    with 1 p show ?thesis by (cases "tk tok 0") (auto simp: iw_command_def)
  next
    case 2
    then have "txt \<notin> {''DUMP'', ''FULLDUMP'', ''DIE''}" using nb by blast
    with 2 p show ?thesis by (auto simp: iw_command_def)
  next
    case 3
    with nb assms show ?thesis by (auto simp: iw_command_def)
  next
    case 4
    then have e: "iw_command tok txt a = (do { a1 \<leftarrow> with_dump irc_dump a; a2 \<leftarrow> with_dump (lsi_trk_dump False) a1; Some (False, a2) })"
      using nb by (simp add: iw_command_def)
    have "\<not> begins ''ECHO '' txt" using nb 4 by blast
    then show ?thesis unfolding e using 4 d [of False] d' [of False die a'] die [of False a'] by (cases die) auto
  next
    case 5
    then have e: "iw_command tok txt a = (do { a1 \<leftarrow> with_dump irc_dump a; a2 \<leftarrow> with_dump (lsi_trk_dump True) a1; Some (False, a2) })"
      using nb by (simp add: iw_command_def)
    have "\<not> begins ''ECHO '' txt" using nb 5 by blast
    then show ?thesis unfolding e using 5 d [of True] d' [of True die a'] die [of True a'] by (cases die) auto
  next
    case 6
    with assms show ?thesis by (auto simp: iw_command_def)
  qed
  show "iw_command tok txt a = None \<longleftrightarrow>
      (begins ''ECHO '' txt \<and> tk tok 0 = None) \<or> (txt \<in> {''DUMP'', ''FULLDUMP''} \<and> \<not> ic_tracking_enab (st_irc (iw_st a)))"
    by (rule conjunct1 [OF both])
  show "iw_command tok txt a = Some (die, a') \<Longrightarrow> sess_ok (iw_st a') \<and> (die \<longleftrightarrow> txt = ''DIE'')"
    by (rule mp [OF conjunct2 [OF both]])
qed

lemma iw_handle_safe:
  assumes "sess_ok (iw_st a)" "tk tok 1 \<noteq> None"
  shows "iw_handle tok a = None \<longleftrightarrow> wat_bad tok (ic_tracking_enab (st_irc (iw_st a)))"
    and "iw_handle tok a = Some (die, a') \<Longrightarrow> sess_ok (iw_st a') \<and> (die \<longleftrightarrow> tk tok 1 = Some ''PRIVMSG'' \<and> tk tok 3 = Some ''DIE'')"
proof -
  note c = iw_command_safe [OF assms(1)] and p = iw_kept_ok(1) [OF iprintf_kept assms(1)]
  obtain cmd where cmd: "tk tok 1 = Some cmd" using assms(2) by blast
  let ?goal = "(iw_handle tok a = None \<longleftrightarrow> wat_bad tok (ic_tracking_enab (st_irc (iw_st a)))) \<and> (iw_handle tok a = Some (die, a') \<longrightarrow>
    sess_ok (iw_st a') \<and> (die \<longleftrightarrow> tk tok 1 = Some ''PRIVMSG'' \<and> tk tok 3 = Some ''DIE''))"
  consider "cmd = ''PING''" | "cmd = ''PRIVMSG''" | "cmd \<noteq> ''PING''" "cmd \<noteq> ''PRIVMSG''" by blast
  then have both: ?goal
  proof cases
    case 1
    with cmd p show ?thesis by (cases "tk tok 2") (auto simp: iw_handle_def wat_bad_def)
  next
    case 2
    then have w: "wat_bad tok tr \<longleftrightarrow> (case tk tok 3 of None \<Rightarrow> True
        | Some txt \<Rightarrow> (begins ''ECHO '' txt \<and> tk tok 0 = None) \<or> (txt \<in> {''DUMP'', ''FULLDUMP''} \<and> \<not> tr))" for tr
      using cmd by (simp add: wat_bad_def)
    have h: "iw_handle tok a = Option.bind (tk tok 3) (\<lambda>txt. iw_command tok txt a)" using cmd 2 by (simp add: iw_handle_def)
    show ?thesis
    proof (cases "tk tok 3")
      case None
      then show ?thesis unfolding w h by simp
    next
      case (Some x)
      then show ?thesis unfolding w h using c(1) [of tok x] c(2) [of tok x die a'] cmd 2 by simp
    qed
  next
    case 3
    with cmd assms(1) show ?thesis by (auto simp: iw_handle_def wat_bad_def)
  qed
  show "iw_handle tok a = None \<longleftrightarrow> wat_bad tok (ic_tracking_enab (st_irc (iw_st a)))" by (rule conjunct1 [OF both])
  show "iw_handle tok a = Some (die, a') \<Longrightarrow> sess_ok (iw_st a') \<and> (die \<longleftrightarrow> tk tok 1 = Some ''PRIVMSG'' \<and> tk tok 3 = Some ''DIE'')"
    by (rule mp [OF conjunct2 [OF both]])
qed

section \<open>Properties\<close>




definition wat_st :: "net \<Rightarrow> iwat" where
  "wat_st w = \<lparr>iw_sett = wdefaults, iw_srvlist = [], iw_nexthb = 0, iw_slept = [],
     iw_dm = \<lparr>dm_st = quit_st w, dm_dangling = {}, dm_out = []\<rparr>, iw_sig = sig_start []\<rparr>"


end
