(* ===== verification/Spec2Isabelle.thy ===== *)
theory Spec2Isabelle
  imports MapProps Sockprops Winaddr Settprops Icatsafe Iwatprops
begin

text \<open>
  libsrsirc is a C library for IRC clients: it opens a connection (directly or through a proxy,
  plain or TLS), logs on, splits the stream of bytes into lines and the lines into fields, passes
  every message to handlers, and on request keeps track of the channels the user is on and of who
  else is there.  Two programs come with it, \<open>icat\<close> (standard input to a channel) and \<open>iwat\<close>.
  This library of theories is a model of \<open>src/libsrsirc/\<close>, of \<open>src/platform/base_net.c\<close> and
  \<open>base_string.c\<close> and of \<open>src/src/\<close> with the logger and the clock, with the theorems that say what the code does.

  \<^bold>\<open>How the parts interact.\<close>  A context (\<open>struct irc_s\<close>) owns a connection, two tables of message
  handlers, what the server announced, and two hash maps of users and channels.  \<open>irc_connect\<close> and
  \<open>irc_read\<close> fetch a line (\<open>conn.c\<close>, then \<open>io.c\<close>, then \<open>base_net.c\<close>), tokenize it (\<open>util.c\<close>) and run the
  handlers registered for its command (\<open>msg.c\<close>).  The handlers are in \<open>irc_msghnd.c\<close> (the session),
  \<open>v3.c\<close> (capabilities) and \<open>irc_track.c\<close> (users and channels, over \<open>ucbase.c\<close>, which is a heap of
  users, channels and memberships reached through \<open>skmap.c\<close>).  The model has one state \<open>st\<close> that holds
  the context, the heap, the network and the log of what was sent; every function of the code that
  changes something takes and returns it, together with the outcomes of the coming allocations.

  \<^bold>\<open>The theories, in the order of their imports.\<close>
  \<^item> \<open>C_Prelude\<close>: C strings, checked buffers (\<open>rd\<close>, \<open>wr\<close>), allocation outcomes, \<open>strchr\<close> and friends.
  \<^item> \<open>BaseString\<close> (\<open>base_string.c\<close>) shows the byte loops equal to the string functions used elsewhere;
    \<open>Cmap\<close> (\<open>cmap.c\<close>) has the three case mapping tables and the canonical form of a name.
  \<^item> \<open>Bucklist\<close> and \<open>Skmap\<close> (\<open>bucklist.c\<close>, \<open>skmap.c\<close>): the hash map with its iterator and \<open>free\<close>d nodes;
    \<open>MapProps\<close>: a map is a partial function on canonical keys, iteration meets every entry once.
  \<^item> \<open>Net\<close> is what the library may expect of the system; \<open>Sock\<close> is \<open>base_net.c\<close> over system calls and TLS,
    and \<open>Sockprops\<close> shows that it keeps the promises of \<open>Net\<close>; \<open>Winaddr\<close> is its own parser of numeric addresses.
  \<^item> \<open>Common\<close>, \<open>Px\<close>, \<open>Io\<close>, \<open>Conn\<close> (\<open>common.c\<close>, \<open>px.c\<close>, \<open>io.c\<close>, \<open>conn.c\<close>): base64, the loop over the
    addresses of a host, proxy logons, line framing, the connection; \<open>Connprops\<close> their properties.
  \<^item> \<open>Intdefs\<close> (\<open>intdefs.h\<close>, \<open>ucbase.h\<close>): the records of the state.  \<open>Util\<close> (\<open>util.c\<close>): tokenizer,
    composition of messages, comparison of names, MODE parsing, host specifications.
  \<^item> \<open>Msg\<close> and \<open>Msginv\<close> (\<open>msg.c\<close>): registering and dispatching; \<open>V3\<close> (\<open>v3.c\<close>), \<open>Msghnd\<close>
    (\<open>irc_msghnd.c\<close>), \<open>Irc\<close> (\<open>irc.c\<close>), \<open>Getset\<close> (\<open>irc_getset.c\<close>); \<open>Sessprops\<close> their properties.
    \<open>Iosafe\<close>: reading returns and stays in its buffer for every input.
  \<^item> \<open>Ucspec\<close> is an abstract base of users, channels and memberships with its steps and invariant.
    \<open>Ucbase\<close> is \<open>ucbase.c\<close> on the heap, \<open>Ucloop\<close> the rule for its loops, and \<open>Ucinv\<close>, \<open>Ucops\<close> and
    \<open>Modeinv\<close> show that each operation does to the base what the step says and keeps \<open>ucb_ok\<close>.
  \<^item> \<open>Track\<close> (\<open>irc_track.c\<close>); \<open>Trackinv\<close> shows that every handler returns and keeps \<open>ucb_ok\<close>, \<open>Reach\<close>
    closes this under all messages, \<open>Listing\<close> reads the base out; \<open>Trackprops\<close> and \<open>Membprops\<close> state
    the properties.
  \<^item> \<open>Trackframe\<close>: tracking changes nothing of the session; \<open>Corehnd\<close>: the core handlers return and change
    nothing of the base and of what the user configured (\<open>conf_of\<close>); \<open>Sesssafe\<close> puts both together to the
    invariant \<open>sess_ok\<close> of a whole session.
    \<open>Teardown\<close>: what \<open>lsi_ucb_deinit\<close> frees and what it leaks.  \<open>Logonsafe\<close>: the logon ends and \<open>irc_connect\<close>
    establishes \<open>sess_ok\<close>.
  \<^item> \<open>Icatuser\<close>, \<open>Icatinit\<close>, \<open>Icatserv\<close>, \<open>Icatcore\<close> (\<open>icat_user.c\<close>; \<open>icat_init.c\<close> and \<open>icat_misc.c\<close>;
    \<open>icat_serv.c\<close>; \<open>icat_core.c\<close>): line buffer on standard input, settings and command line, send queue,
    heartbeat, reconnecting, main loop; \<open>Userprops\<close>, \<open>Settprops\<close>, \<open>Icatprops\<close> their properties.
    \<open>Signals\<close> (\<open>lsi_b_regsig\<close> and the handlers): signals are delivered before each look at the flags they set.
    \<open>Icatmain\<close> is the \<open>main\<close> of \<open>icat\<close> with its log levels; \<open>Icatsafe\<close> has the invariant \<open>icat_ok\<close> (the
    session between two turns, its handlers, the input buffer, the signals to come), the step relation
    \<open>icat_next\<close> of the rounds of the main loop, and the proof that no round crashes.
  \<^item> \<open>Plat\<close> (\<open>base_time.c\<close>, \<open>base_misc.c\<close>) and \<open>Intlog\<close> (\<open>intlog.c\<close>, \<open>base_log.c\<close>): clock, sleeping, the
    logger.  \<open>Dump\<close>: what \<open>lsi_ucb_dump\<close> and \<open>irc_dump\<close> print.  \<open>Iwat\<close> (\<open>iwat.c\<close>, \<open>helloworld.c\<close>); \<open>Iwatprops\<close>
    shows when a turn of \<open>iwat\<close> is safe.

  \<^bold>\<open>Interfaces.\<close>  Six contracts are locales, each interpreted on the model of the code.
  \<open>string_map\<close>, and above it \<open>keyed_store\<close>: what a bucket and the hash map promise to their users.
  \<open>map_cursor\<close>, and above it \<open>map_listing\<close>: a loop with first and next over a map inside the state (for
  the channels, the users, and the members of a channel), \<open>map_scan\<close> the same for a loop that visits every
  entry and leaves the base alone (the dumps).  \<open>byte_source\<close>: a reader of bytes loses
  nothing (the plain socket, the TLS socket, their choice, and the reader of \<open>Net\<close>).  \<open>line_queue\<close>:
  a queue of lines between a producer and the wire (the send queue of \<open>icat\<close>).

  \<^bold>\<open>None.\<close>  The outermost None of a result is undefined behaviour: an access outside of an array,
  through NULL or to freed memory.  So \<open>f s = Some r\<close> in a theorem includes that the code is memory safe
  there; theorems of kind error exhibit inputs with None.  In the theories of \<open>icat\<close> and \<open>iwat\<close> None also
  stands for an exit with an error message, in \<open>Sock\<close> for a call that never returns.  A None
  further inside is what the C function returns as NULL or as a failure.

  \<^bold>\<open>Bounds and fuel.\<close>  Array sizes are those of the code: 4096 bytes of a line buffer, 16 fields of a message,
  512 and 1024 bytes of an outgoing line, 64 message tags, 256 and 4096 buckets.  Loops over lists are
  structural.  The loops that wait for something are run on fuel that is computed from
  the state: \<open>read_fuel\<close> and \<open>line_fuel\<close> count the pieces of input and the bytes left, and the walk over a map
  is given the number of its nodes; the theorems show that this is enough.  A loop that need not end is a
  \<open>partial_function\<close>; for the loop of the logon \<open>rx_left\<close> (the bytes in the buffer, the bytes and the events still to
  come) is shown to decrease with every turn.  Integers that the code lets wrap (hashes, timeouts, fixed width
  clock values) are words or reduced explicitly.

  \<^bold>\<open>Findings\<close> are recorded with theorems where one fits: among them the SOCKS4 logon that stores behind its
  array when a reply arrives in pieces, the line of 4096 characters that overruns the buffer of \<open>icat\<close>,
  the name comparison that disagrees with the hash map for non-ASCII mappings, and the repeated JOIN that
  leaves a user listed for ever.

  \<^bold>\<open>Not modelled.\<close>  Wrappers that only pass their arguments to one call of the C library (\<open>getopt\<close>,
  \<open>malloc\<close>, \<open>close\<close> and so on); the clock is a list of readings.  Calls of the logger do not influence the
  state and are left out of the functions that make them, and so are the dumps of single maps and buckets.
  Left out as well: usage texts, the other branches for Windows and those for systems
  without \<open>getaddrinfo\<close>.  The C library, the resolver, the kernel, TLS and the callbacks of the user
  are parameters.
\<close>

section \<open>Messages and the session\<close>



end
